(* ===== verification/Prelude.thy ===== *)
theory Prelude
  imports Complex_Main "HOL-Library.Char_ord" "HOL-Library.List_Lexorder" "HOL-Library.Product_Lexorder"
begin

text \<open>
  What every component of the development shares.

  \<^item> Python exceptions as the values of \<open>py_error\<close>, fallible code as \<open>'a result\<close>
    (\<open>Inl\<close> the exception, \<open>Inr\<close> the returned value), sequencing with \<open>ebind\<close> and
    guards with \<open>ensure\<close>. A statement sequence of the source
    is a nest of \<open>ebind\<close>s in the same order.
  \<^item> Effects that survive an exception (object storage, ClickHouse) as functions
    \<open>('s, 'a) eff\<close> that return the state beside the result.
  \<^item> A PostgreSQL table as the list of its rows: \<open>SELECT\<close> is \<open>sql_select\<close>,
    \<open>UPDATE\<close> is \<open>sql_update\<close>, \<open>INSERT\<close> appends. The locale \<open>keyed_table\<close> collects
    the facts about tables with a unique key.
  \<^item> Instants and durations as integers (microseconds, UTC).
\<close>

named_theorems py_defs \<open>definitions that unfold a fallible operation into its branches\<close>
named_theorems table_simps \<open>rewrite rules for the SQL operations on tables\<close>

type_synonym timestamp = int
type_synonym duration = int

subsection \<open>Exceptions and fallible computations\<close>

datatype py_error =
    ValueError string
  | KeyError string
  | TypeError string
  | RuntimeError string
  | IntegrityError string
  | PartialInsertError int
  | SourceObjectMissingError string
  | OtherError string

type_synonym 'a result = "py_error + 'a"

definition ebind :: "'a result \<Rightarrow> ('a \<Rightarrow> 'b result) \<Rightarrow> 'b result" where
  "ebind m f = (case m of Inl e \<Rightarrow> Inl e | Inr a \<Rightarrow> f a)"

definition ensure :: "bool \<Rightarrow> py_error \<Rightarrow> unit result" where
  "ensure c e = (if c then Inr () else Inl e)"

definition is_ok :: "'a result \<Rightarrow> bool" where
  "is_ok r = (case r of Inl _ \<Rightarrow> False | Inr _ \<Rightarrow> True)"

lemma ebind_simps [simp]:
  "ebind (Inl e) f = Inl e"
  "ebind (Inr a) f = f a"
  by (simp_all add: ebind_def)

lemma ensure_simps [simp]:
  "ensure True e = Inr ()"
  "ensure False e = Inl e"
  by (simp_all add: ensure_def)

lemma is_ok_simps [simp]:
  "is_ok (Inl e) = False"
  "is_ok (Inr a) = True"
  by (simp_all add: is_ok_def)

lemma ebind_Inr_iff: "ebind m f = Inr y \<longleftrightarrow> (\<exists>x. m = Inr x \<and> f x = Inr y)"
  by (cases m) simp_all

lemma ebind_Inl_iff: "ebind m f = Inl e \<longleftrightarrow> m = Inl e \<or> (\<exists>x. m = Inr x \<and> f x = Inl e)"
  by (cases m) simp_all

lemma ensure_Inr_iff [simp]: "ensure c e = Inr u \<longleftrightarrow> c"
  by (simp add: ensure_def)

lemma ensure_Inl_iff [simp]: "ensure c e = Inl e' \<longleftrightarrow> \<not> c \<and> e = e'"
  by (auto simp: ensure_def)

lemma ebind_ensure: "ebind (ensure c e) f = (if c then f () else Inl e)"
  by (simp add: ensure_def)

lemma ebind_assoc: "ebind (ebind m f) g = ebind m (\<lambda>x. ebind (f x) g)"
  by (cases m) simp_all

lemma not_is_ok_iff: "\<not> is_ok r \<longleftrightarrow> (\<exists>e. r = Inl e)"
  by (cases r) simp_all

lemma is_ok_iff: "is_ok r \<longleftrightarrow> (\<exists>a. r = Inr a)"
  by (cases r) simp_all

lemma is_ok_ebind: "is_ok (ebind m f) \<longleftrightarrow> (\<exists>a. m = Inr a \<and> is_ok (f a))"
  by (cases m) simp_all

lemmas ebind_elims = ebind_Inr_iff ebind_ensure

subsection \<open>Effects that an exception does not undo\<close>

type_synonym ('s, 'a) eff = "'s \<Rightarrow> 'a result \<times> 's"

definition eff_return :: "'a \<Rightarrow> ('s, 'a) eff" where
  "eff_return a s = (Inr a, s)"

definition eff_raise :: "py_error \<Rightarrow> ('s, 'a) eff" where
  "eff_raise e s = (Inl e, s)"

definition eff_bind :: "('s, 'a) eff \<Rightarrow> ('a \<Rightarrow> ('s, 'b) eff) \<Rightarrow> ('s, 'b) eff" where
  "eff_bind m f s = (case m s of (Inl e, s') \<Rightarrow> (Inl e, s') | (Inr a, s') \<Rightarrow> f a s')"

definition eff_lift :: "'a result \<Rightarrow> ('s, 'a) eff" where
  "eff_lift r s = (r, s)"

text \<open>A database transaction: an exception rolls the state back.\<close>

definition atomically :: "('s \<Rightarrow> ('a \<times> 's) result) \<Rightarrow> ('s, 'a) eff" where
  "atomically tx s = (case tx s of Inl e \<Rightarrow> (Inl e, s) | Inr (a, s') \<Rightarrow> (Inr a, s'))"

lemma eff_simps [simp]:
  "eff_return a s = (Inr a, s)"
  "eff_raise e s = (Inl e, s)"
  "eff_lift r s = (r, s)"
  by (simp_all add: eff_return_def eff_raise_def eff_lift_def)

lemma eff_bind_Inr_iff:
  "eff_bind m f s = (Inr b, s'') \<longleftrightarrow> (\<exists>a s'. m s = (Inr a, s') \<and> f a s' = (Inr b, s''))"
  by (auto simp: eff_bind_def split: prod.splits sum.splits)

lemma eff_bind_Inl:
  "m s = (Inl e, s') \<Longrightarrow> eff_bind m f s = (Inl e, s')"
  by (simp add: eff_bind_def)

lemma eff_bind_Inr:
  "m s = (Inr a, s') \<Longrightarrow> eff_bind m f s = f a s'"
  by (simp add: eff_bind_def)

lemma atomically_Inl: "tx s = Inl e \<Longrightarrow> atomically tx s = (Inl e, s)"
  by (simp add: atomically_def)

lemma atomically_Inr: "tx s = Inr (a, s') \<Longrightarrow> atomically tx s = (Inr a, s')"
  by (simp add: atomically_def)

lemma atomically_rollback: "fst (atomically tx s) = Inl e \<Longrightarrow> snd (atomically tx s) = s"
  by (auto simp: atomically_def split: sum.splits)

text \<open>Effects that stay within a preorder on the state, whether they return or raise.\<close>

definition eff_keeps :: "('s \<Rightarrow> 's \<Rightarrow> bool) \<Rightarrow> ('s, 'a) eff \<Rightarrow> bool" where
  "eff_keeps R m \<longleftrightarrow> (\<forall>s r s'. m s = (r, s') \<longrightarrow> R s s')"

lemma eff_keepsD: "eff_keeps R m \<Longrightarrow> m s = (r, s') \<Longrightarrow> R s s'"
  by (auto simp: eff_keeps_def)

lemma eff_keeps_bind:
  assumes "transp R" and "eff_keeps R m" and "\<And>a. eff_keeps R (f a)"
  shows "eff_keeps R (eff_bind m f)"
  unfolding eff_keeps_def
proof (intro allI impI)
  fix s r s'' assume "eff_bind m f s = (r, s'')"
  then consider e where "m s = (Inl e, s'')" | a s' where "m s = (Inr a, s')" "f a s' = (r, s'')"
    by (auto simp: eff_bind_def split: prod.splits sum.splits)
  then show "R s s''"
    using assms by cases (auto dest: eff_keepsD transpD)
qed

lemma eff_keeps_pure:
  assumes "reflp R"
  shows "eff_keeps R (eff_return a)" and "eff_keeps R (eff_raise e)" and "eff_keeps R (eff_lift x)"
  using assms by (auto simp: eff_keeps_def reflp_def)

subsection \<open>Tables\<close>

type_synonym 'r table = "'r list"

definition sql_select :: "('r \<Rightarrow> bool) \<Rightarrow> 'r table \<Rightarrow> 'r list" where
  "sql_select p t = filter p t"

definition sql_update :: "('r \<Rightarrow> bool) \<Rightarrow> ('r \<Rightarrow> 'r) \<Rightarrow> 'r table \<Rightarrow> 'r table" where
  "sql_update p f t = map (\<lambda>r. if p r then f r else r) t"

definition sql_insert :: "'r \<Rightarrow> 'r table \<Rightarrow> 'r table" where
  "sql_insert r t = t @ [r]"

definition the_default :: "'a \<Rightarrow> 'a option \<Rightarrow> 'a" where
  "the_default d v = (case v of None \<Rightarrow> d | Some a \<Rightarrow> a)"

lemma the_default_simps [simp]:
  "the_default d None = d"
  "the_default d (Some a) = a"
  by (simp_all add: the_default_def)

definition fetchone :: "'r list \<Rightarrow> 'r option" where
  "fetchone rs = (case rs of [] \<Rightarrow> None | r # _ \<Rightarrow> Some r)"

lemma fetchone_simps [simp]:
  "fetchone [] = None"
  "fetchone (r # rs) = Some r"
  by (simp_all add: fetchone_def)

lemma fetchone_select_Some:
  assumes "fetchone (sql_select p t) = Some r"
  shows "r \<in> set t" and "p r"
proof -
  from assms obtain rs where "filter p t = r # rs"
    by (auto simp: fetchone_def sql_select_def split: list.splits)
  then have "r \<in> set (filter p t)" by simp
  then show "r \<in> set t" and "p r" by auto
qed

lemma fetchone_select_None: "fetchone (sql_select p t) = None \<longleftrightarrow> (\<forall>r \<in> set t. \<not> p r)"
proof -
  have "fetchone (sql_select p t) = None \<longleftrightarrow> filter p t = []"
    by (simp add: fetchone_def sql_select_def split: list.splits)
  then show ?thesis by (simp add: filter_empty_conv)
qed

lemma length_sql_update [table_simps]: "length (sql_update p f t) = length t"
  by (simp add: sql_update_def)

lemma set_sql_insert [table_simps]: "set (sql_insert r t) = insert r (set t)"
  by (simp add: sql_insert_def)

lemma in_sql_update:
  "r \<in> set (sql_update p f t) \<longleftrightarrow> (\<exists>r0 \<in> set t. r = (if p r0 then f r0 else r0))"
  by (auto simp: sql_update_def)

lemma in_sql_updateE:
  assumes "r \<in> set (sql_update p f t)"
  obtains (changed) r0 where "r0 \<in> set t" "p r0" "r = f r0"
    | (kept) "r \<in> set t" "\<not> p r"
  using assms by (auto simp: in_sql_update split: if_splits)

lemma list_all_sql_update:
  assumes "list_all q t" and "\<And>r. r \<in> set t \<Longrightarrow> p r \<Longrightarrow> q r \<Longrightarrow> q (f r)"
  shows "list_all q (sql_update p f t)"
  using assms by (auto simp: list_all_iff sql_update_def)

lemma list_all_sql_insert [table_simps]: "list_all q (sql_insert r t) \<longleftrightarrow> list_all q t \<and> q r"
  by (auto simp: sql_insert_def)

text \<open>Tables with a unique key.\<close>

locale keyed_table =
  fixes pk :: "'r \<Rightarrow> 'k"
begin

definition uniq :: "'r table \<Rightarrow> bool" where
  "uniq t \<longleftrightarrow> distinct (map pk t)"

definition lookup :: "'k \<Rightarrow> 'r table \<Rightarrow> 'r option" where
  "lookup k t = fetchone (sql_select (\<lambda>r. pk r = k) t)"

lemma uniq_Nil [simp]: "uniq []"
  by (simp add: uniq_def)

lemma lookup_Some_in: "lookup k t = Some r \<Longrightarrow> r \<in> set t"
  unfolding lookup_def by (rule fetchone_select_Some)

lemma lookup_Some_pk: "lookup k t = Some r \<Longrightarrow> pk r = k"
  unfolding lookup_def by (drule fetchone_select_Some(2)) simp

lemma lookup_None_iff: "lookup k t = None \<longleftrightarrow> k \<notin> pk ` set t"
  by (auto simp: lookup_def fetchone_select_None)

lemma uniq_inj: "uniq t \<Longrightarrow> r \<in> set t \<Longrightarrow> r' \<in> set t \<Longrightarrow> pk r = pk r' \<Longrightarrow> r = r'"
  by (auto simp: uniq_def distinct_map dest: inj_onD)

lemma lookup_in:
  assumes "uniq t" and "r \<in> set t"
  shows "lookup (pk r) t = Some r"
proof (cases "lookup (pk r) t")
  case None
  with assms(2) show ?thesis by (auto simp: lookup_None_iff)
next
  case (Some r')
  then have "r' \<in> set t" and "pk r' = pk r"
    by (simp_all add: lookup_Some_in lookup_Some_pk)
  with assms have "r' = r" by (blast intro: uniq_inj)
  with Some show ?thesis by simp
qed

lemma lookup_eq_Some_iff: "uniq t \<Longrightarrow> lookup k t = Some r \<longleftrightarrow> r \<in> set t \<and> pk r = k"
  by (auto dest: lookup_Some_in lookup_Some_pk lookup_in)

lemma uniq_insert: "uniq t \<Longrightarrow> lookup (pk r) t = None \<Longrightarrow> uniq (sql_insert r t)"
  by (auto simp: uniq_def lookup_None_iff sql_insert_def)

lemma lookup_insert_same: "lookup (pk r) t = None \<Longrightarrow> lookup (pk r) (sql_insert r t) = Some r"
  by (simp add: lookup_def sql_select_def sql_insert_def fetchone_def split: list.splits)

lemma lookup_insert_other: "pk r \<noteq> k \<Longrightarrow> lookup k (sql_insert r t) = lookup k t"
  by (simp add: lookup_def sql_select_def sql_insert_def)

lemma map_pk_update: "(\<And>r. pk (f r) = pk r) \<Longrightarrow> map pk (sql_update p f t) = map pk t"
  by (simp add: sql_update_def)

lemma uniq_update: "uniq t \<Longrightarrow> (\<And>r. pk (f r) = pk r) \<Longrightarrow> uniq (sql_update p f t)"
  by (simp add: uniq_def map_pk_update)

lemma lookup_update:
  assumes "\<And>r. pk (f r) = pk r"
  shows "lookup k (sql_update p f t) = map_option (\<lambda>r. if p r then f r else r) (lookup k t)"
proof (induction t)
  case Nil
  show ?case by (simp add: lookup_def sql_update_def sql_select_def)
next
  case (Cons r t)
  then show ?case by (simp add: lookup_def sql_update_def sql_select_def assms)
qed

end

subsection \<open>Python text\<close>

text \<open>
  Text is a list of characters. The operations below are Python's on ASCII text; the
  configuration names, keys and identifiers the modelled code handles are ASCII.
\<close>

definition lower_char :: "char \<Rightarrow> char" where
  "lower_char c =
     (let n = of_char c :: nat in if 65 \<le> n \<and> n \<le> 90 then char_of (n + 32) else c)"

definition py_lower :: "string \<Rightarrow> string" where
  "py_lower s = map lower_char s"

definition is_space :: "char \<Rightarrow> bool" where
  "is_space c = (let n = of_char c :: nat in (9 \<le> n \<and> n \<le> 13) \<or> (28 \<le> n \<and> n \<le> 32))"

definition lstrip_chars :: "(char \<Rightarrow> bool) \<Rightarrow> string \<Rightarrow> string" where
  "lstrip_chars p s = dropWhile p s"

definition rstrip_chars :: "(char \<Rightarrow> bool) \<Rightarrow> string \<Rightarrow> string" where
  "rstrip_chars p s = rev (dropWhile p (rev s))"

definition py_strip :: "string \<Rightarrow> string" where
  "py_strip s = rstrip_chars is_space (lstrip_chars is_space s)"

definition strip_slashes :: "string \<Rightarrow> string" where
  "strip_slashes s = rstrip_chars (\<lambda>c. c = CHR ''/'') (lstrip_chars (\<lambda>c. c = CHR ''/'') s)"

fun startswith :: "string \<Rightarrow> string \<Rightarrow> bool" where
  "startswith s [] = True"
| "startswith [] (p # ps) = False"
| "startswith (c # s) (p # ps) = (c = p \<and> startswith s ps)"

definition removeprefix :: "string \<Rightarrow> string \<Rightarrow> string" where
  "removeprefix s p = (if startswith s p then drop (length p) s else s)"

lemma startswith_append [simp]: "startswith (p @ s) p"
  by (induction p) simp_all

lemma startswith_iff: "startswith s p \<longleftrightarrow> (\<exists>t. s = p @ t)"
  by (induction s p rule: startswith.induct) auto

lemma removeprefix_append [simp]: "removeprefix (p @ s) p = s"
  by (simp add: removeprefix_def)

text \<open>\<open>int(text)\<close>: surrounding space, a sign, and digits with single underscores between them.\<close>

definition digit_value :: "char \<Rightarrow> int option" where
  "digit_value c =
     (let n = of_char c :: nat in if 48 \<le> n \<and> n \<le> 57 then Some (int n - 48) else None)"

fun py_digits :: "int \<Rightarrow> bool \<Rightarrow> string \<Rightarrow> int option" where
  "py_digits acc after_digit [] = (if after_digit then Some acc else None)"
| "py_digits acc after_digit (c # s) =
     (case digit_value c of
        Some d \<Rightarrow> py_digits (10 * acc + d) True s
      | None \<Rightarrow> if c = CHR ''_'' \<and> after_digit then py_digits acc False s else None)"

definition py_int :: "string \<Rightarrow> int option" where
  "py_int raw =
     (case py_strip raw of
        [] \<Rightarrow> None
      | c # s \<Rightarrow>
          if c = CHR ''-'' then map_option uminus (py_digits 0 False s)
          else if c = CHR ''+'' then py_digits 0 False s
          else py_digits 0 False (c # s))"

end
