(* ===== verification/Json_Model.thy ===== *)
theory Json_Model
  imports Prelude
begin

text \<open>
  JSON values, decimal printing, and the accessors the code uses on decoded documents and
  rows. A JSON object is the list of its members. \<open>json.dumps\<close> and \<open>json.loads\<close> themselves
  are parameters of the definitions that call them; their contract is the locale \<open>json_codec\<close>.
  Floats are exact rationals.
\<close>

datatype json =
    JNull
  | JBool bool
  | JInt int
  | JFloat rat
  | JStr string
  | JList "json list"
  | JObj "(string \<times> json) list"

type_synonym row = "(string \<times> json) list"

definition row_get :: "row \<Rightarrow> string \<Rightarrow> json" where
  "row_get r k = (case map_of r k of None \<Rightarrow> JNull | Some v \<Rightarrow> v)"

definition json_item :: "row \<Rightarrow> string \<Rightarrow> json result" where
  "json_item r k = (case map_of r k of None \<Rightarrow> Inl (KeyError k) | Some v \<Rightarrow> Inr v)"

definition as_obj :: "json \<Rightarrow> row result" where
  "as_obj j = (case j of JObj r \<Rightarrow> Inr r | _ \<Rightarrow> Inl (OtherError ''AttributeError''))"

definition as_str :: "json \<Rightarrow> string result" where
  "as_str j = (case j of JStr s \<Rightarrow> Inr s | _ \<Rightarrow> Inl (TypeError ''expected a string''))"

definition as_int :: "json \<Rightarrow> int result" where
  "as_int j = (case j of JInt i \<Rightarrow> Inr i | _ \<Rightarrow> Inl (TypeError ''expected an integer''))"

definition as_opt_str :: "json \<Rightarrow> string option result" where
  "as_opt_str j =
     (case j of JNull \<Rightarrow> Inr None | JStr s \<Rightarrow> Inr (Some s) | _ \<Rightarrow> Inl (TypeError ''expected a string''))"

definition opt_str :: "string option \<Rightarrow> json" where
  "opt_str v = (case v of None \<Rightarrow> JNull | Some s \<Rightarrow> JStr s)"

definition json_truthy :: "json \<Rightarrow> bool" where
  "json_truthy j =
     (case j of JNull \<Rightarrow> False | JBool b \<Rightarrow> b | JInt i \<Rightarrow> i \<noteq> 0 | JFloat q \<Rightarrow> q \<noteq> 0
      | JStr s \<Rightarrow> s \<noteq> [] | JList xs \<Rightarrow> xs \<noteq> [] | JObj r \<Rightarrow> r \<noteq> [])"

fun map_result :: "('a \<Rightarrow> 'b result) \<Rightarrow> 'a list \<Rightarrow> 'b list result" where
  "map_result f [] = Inr []"
| "map_result f (x # xs) = ebind (f x) (\<lambda>y. ebind (map_result f xs) (\<lambda>ys. Inr (y # ys)))"

lemma as_simps [simp]:
  "as_obj (JObj r) = Inr r"
  "as_str (JStr s) = Inr s"
  "as_int (JInt i) = Inr i"
  "as_opt_str (opt_str v) = Inr v"
  by (simp_all add: as_obj_def as_str_def as_int_def as_opt_str_def opt_str_def split: option.splits)

lemma map_result_map: "(\<And>x. x \<in> set xs \<Longrightarrow> f (g x) = Inr (h x)) \<Longrightarrow> map_result f (map g xs) = Inr (map h xs)"
  by (induction xs) simp_all

lemma map_result_length: "map_result f xs = Inr ys \<Longrightarrow> length ys = length xs"
  by (induction xs arbitrary: ys) (auto simp: ebind_Inr_iff)

text \<open>
  Documents as \<open>json.dumps(..., sort_keys=True)\<close> writes them: members in key order, no
  duplicate keys, no floats.
\<close>

fun canonical_json :: "json \<Rightarrow> bool" where
  "canonical_json (JList xs) = list_all canonical_json xs"
| "canonical_json (JObj r) = (sorted_wrt (<) (map fst r) \<and> list_all (\<lambda>(k, v). canonical_json v) r)"
| "canonical_json (JFloat q) = False"
| "canonical_json _ = True"

lemma canonical_opt_str [simp]: "canonical_json (opt_str v)"
  by (simp add: opt_str_def split: option.splits)

text \<open>The contract of \<open>json.dumps\<close>/\<open>json.loads\<close> that the archive relies on.\<close>

locale json_codec =
  fixes dumps :: "json \<Rightarrow> 'b" and loads :: "'b \<Rightarrow> json result"
  assumes loads_dumps: "canonical_json j \<Longrightarrow> loads (dumps j) = Inr j"
begin

lemma dumps_inj: "canonical_json j \<Longrightarrow> canonical_json k \<Longrightarrow> dumps j = dumps k \<Longrightarrow> j = k"
  by (metis loads_dumps sum.inject(2))

end

subsection \<open>Decimal printing\<close>

definition digit_char :: "nat \<Rightarrow> char" where
  "digit_char d = char_of (48 + d)"

fun show_nat :: "nat \<Rightarrow> string" where
  "show_nat n = (if n < 10 then [digit_char n] else show_nat (n div 10) @ [digit_char (n mod 10)])"

declare show_nat.simps [simp del]

definition show_int :: "int \<Rightarrow> string" where
  "show_int i = (if i < 0 then CHR ''-'' # show_nat (nat (- i)) else show_nat (nat i))"

definition read_digit :: "char \<Rightarrow> nat" where
  "read_digit c = of_char c - 48"

definition read_nat :: "string \<Rightarrow> nat" where
  "read_nat s = foldl (\<lambda>acc c. 10 * acc + read_digit c) 0 s"

lemma read_digit_char: "d < 10 \<Longrightarrow> read_digit (digit_char d) = d"
  by (simp add: read_digit_def digit_char_def)

lemma read_nat_show_nat [simp]: "read_nat (show_nat n) = n"
proof (induction n rule: show_nat.induct)
  case (1 n)
  show ?case
  proof (cases "n < 10")
    case True
    then show ?thesis by (simp add: show_nat.simps [of n] read_nat_def read_digit_char)
  next
    case False
    with 1 show ?thesis
      by (simp add: show_nat.simps [of n] read_nat_def read_digit_char)
  qed
qed

lemma show_nat_inj: "show_nat m = show_nat n \<longleftrightarrow> m = n"
  by (metis read_nat_show_nat)

lemma digit_char_code: "d < 10 \<Longrightarrow> of_char (digit_char d) = 48 + d"
  by (simp add: digit_char_def)

lemma show_nat_digits: "c \<in> set (show_nat n) \<Longrightarrow> 48 \<le> (of_char c :: nat) \<and> (of_char c :: nat) \<le> 57"
proof (induction n rule: show_nat.induct)
  case (1 n)
  show ?case
  proof (cases "n < 10")
    case True
    with 1(2) show ?thesis by (simp add: show_nat.simps [of n] digit_char_code)
  next
    case False
    with 1(2) have "c \<in> set (show_nat (n div 10)) \<or> c = digit_char (n mod 10)"
      by (auto simp: show_nat.simps [of n])
    moreover have "48 \<le> (of_char (digit_char (n mod 10)) :: nat) \<and> (of_char (digit_char (n mod 10)) :: nat) \<le> 57"
      using digit_char_code [of "n mod 10"] by simp
    ultimately show ?thesis using 1(1) [OF False] by blast
  qed
qed

lemma show_nat_no_colon: "CHR '':'' \<notin> set (show_nat n)"
  using show_nat_digits [of "CHR '':''" n] by auto

lemma show_nat_no_minus: "CHR ''-'' \<notin> set (show_nat n)"
  using show_nat_digits [of "CHR ''-''" n] by auto

lemma show_nat_nonempty: "show_nat n \<noteq> []"
  by (subst show_nat.simps) simp

lemma show_int_inj: "show_int i = show_int j \<longleftrightarrow> i = j"
proof
  assume eq: "show_int i = show_int j"
  have "hd (show_nat n) \<noteq> CHR ''-''" for n
    using show_nat_no_minus [of n] show_nat_nonempty [of n] by (cases "show_nat n") auto
  then have "(i < 0) = (j < 0)" using eq
    by (auto simp: show_int_def split: if_splits) (metis list.sel(1))+
  then show "i = j" using eq
    by (auto simp: show_int_def show_nat_inj split: if_splits)
qed simp

text \<open>A field is printed as its length, a colon and its text; a sequence of fields can be read back.\<close>

definition length_prefixed :: "string \<Rightarrow> string" where
  "length_prefixed v = show_nat (length v) @ CHR '':'' # v"

lemma split_at_colon:
  assumes "CHR '':'' \<notin> set a" and "CHR '':'' \<notin> set b"
    and "a @ CHR '':'' # x = b @ CHR '':'' # y"
  shows "a = b \<and> x = y"
  using assms
proof (induction a arbitrary: b)
  case Nil
  then show ?case by (cases b) auto
next
  case (Cons c a)
  then show ?case by (cases b) auto
qed

lemma length_prefixed_inj:
  assumes "length_prefixed v @ r = length_prefixed w @ q"
  shows "v = w \<and> r = q"
proof -
  from assms have "show_nat (length v) @ CHR '':'' # (v @ r) = show_nat (length w) @ CHR '':'' # (w @ q)"
    by (simp add: length_prefixed_def)
  from split_at_colon [OF show_nat_no_colon show_nat_no_colon this]
  have "length v = length w" and "v @ r = w @ q"
    by (simp_all add: show_nat_inj)
  then show ?thesis by simp
qed

fun join_with :: "string \<Rightarrow> string list \<Rightarrow> string" where
  "join_with sep [] = []"
| "join_with sep [s] = s"
| "join_with sep (s # t # ss) = s @ sep @ join_with sep (t # ss)"

lemma join_prefixed_inj:
  assumes "length vs = length ws"
    and "join_with sep (map length_prefixed vs) = join_with sep (map length_prefixed ws)"
  shows "vs = ws"
  using assms
proof (induction vs ws rule: list_induct2)
  case Nil
  then show ?case by simp
next
  case (Cons v vs w ws)
  let ?rest = "\<lambda>us. if us = [] then [] else sep @ join_with sep (map length_prefixed us)"
  have join: "join_with sep (map length_prefixed (u # us)) = length_prefixed u @ ?rest us" for u us
    by (cases us) simp_all
  from Cons.prems have "length_prefixed v @ ?rest vs = length_prefixed w @ ?rest ws"
    by (simp only: join)
  from length_prefixed_inj [OF this] have vw: "v = w" and rest: "?rest vs = ?rest ws"
    by blast+
  from Cons.hyps have "vs = [] \<longleftrightarrow> ws = []" by (metis length_0_conv)
  with rest have "join_with sep (map length_prefixed vs) = join_with sep (map length_prefixed ws)"
    by (cases "vs = []") simp_all
  with Cons.IH vw show ?case by simp
qed

end
