(* ===== verification/Topology.thy ===== *)
theory Topology
  imports Prelude
begin

text \<open>
  The archive protocol states, the deployment profile and the serving-volume disk guard
  (\<open>backend/high_scale/archive/topology.py\<close>).

  Python floats are exact rationals here. The free-text fields \<open>reasoning\<close>, which only
  logs and payloads print, are left out. The module global \<open>_latest\<close> is an explicit state
  of type \<open>disk_snapshot option\<close>.
\<close>

subsection \<open>Archive protocol states\<close>

datatype archive_state =
    ARTIFACT_UPLOADING | ARTIFACT_VERIFIED | MANIFEST_PREPARED
  | MANIFEST_COMMITTED | DELETION_ELIGIBLE | SOURCE_DELETED

definition ARCHIVE_STATES :: "archive_state list" where
  "ARCHIVE_STATES =
     [ARTIFACT_UPLOADING, ARTIFACT_VERIFIED, MANIFEST_PREPARED,
      MANIFEST_COMMITTED, DELETION_ELIGIBLE, SOURCE_DELETED]"

fun index_of :: "'a \<Rightarrow> 'a list \<Rightarrow> nat option" where
  "index_of x [] = None"
| "index_of x (y # ys) = (if x = y then Some 0 else map_option Suc (index_of x ys))"

definition validate_archive_transition :: "archive_state \<Rightarrow> archive_state \<Rightarrow> unit result" where
  "validate_archive_transition current next_state =
     (case (index_of current ARCHIVE_STATES, index_of next_state ARCHIVE_STATES) of
        (Some i, Some j) \<Rightarrow>
          ensure (j = i + 1) (ValueError ''archive state transitions must be monotonic and adjacent'')
      | _ \<Rightarrow> Inl (ValueError ''unknown archive state''))"

fun state_rank :: "archive_state \<Rightarrow> nat" where
  "state_rank ARTIFACT_UPLOADING = 0"
| "state_rank ARTIFACT_VERIFIED = 1"
| "state_rank MANIFEST_PREPARED = 2"
| "state_rank MANIFEST_COMMITTED = 3"
| "state_rank DELETION_ELIGIBLE = 4"
| "state_rank SOURCE_DELETED = 5"

lemma state_rank_inj: "state_rank a = state_rank b \<Longrightarrow> a = b"
  by (cases a; cases b) simp_all

instantiation archive_state :: linorder
begin

definition less_eq_archive_state :: "archive_state \<Rightarrow> archive_state \<Rightarrow> bool" where
  "less_eq_archive_state a b = (state_rank a \<le> state_rank b)"

definition less_archive_state :: "archive_state \<Rightarrow> archive_state \<Rightarrow> bool" where
  "less_archive_state a b = (state_rank a < state_rank b)"

instance
  by standard (auto simp: less_eq_archive_state_def less_archive_state_def intro: state_rank_inj)

end

lemma index_of_archive_states: "index_of s ARCHIVE_STATES = Some (state_rank s)"
  by (cases s) (simp_all add: ARCHIVE_STATES_def)

lemma validate_archive_transition_iff:
  "validate_archive_transition a b = Inr u \<longleftrightarrow> state_rank b = Suc (state_rank a)"
  by (simp add: validate_archive_transition_def index_of_archive_states)

lemma validate_archive_transition_less: "validate_archive_transition a b = Inr u \<Longrightarrow> a < b"
  by (simp add: validate_archive_transition_iff less_archive_state_def)

text \<open>A run of the archive protocol: every adjacent pair of states passes the check.\<close>

fun protocol_run :: "archive_state list \<Rightarrow> bool" where
  "protocol_run (a # b # ss) \<longleftrightarrow> is_ok (validate_archive_transition a b) \<and> protocol_run (b # ss)"
| "protocol_run _ \<longleftrightarrow> True"

lemma protocol_run_rank:
  "protocol_run (s # ss) \<Longrightarrow> i < length (s # ss) \<Longrightarrow> state_rank ((s # ss) ! i) = state_rank s + i"
proof (induction ss arbitrary: s i)
  case Nil
  then show ?case by simp
next
  case (Cons t ss)
  then have step: "state_rank t = Suc (state_rank s)" and run: "protocol_run (t # ss)"
    by (auto simp: is_ok_iff validate_archive_transition_iff)
  show ?case
  proof (cases i)
    case 0
    then show ?thesis by simp
  next
    case (Suc k)
    with Cons.prems(2) have "state_rank ((t # ss) ! k) = state_rank t + k"
      by (intro Cons.IH run) simp
    with Suc step show ?thesis by simp
  qed
qed

subsection \<open>Retention recommendation\<close>

record service_profile =
  events_per_second :: rat
  average_row_bytes :: rat

record storage_profile =
  total_bytes :: int
  protected_reserve_fraction :: rat

record retention_recommendation =
  hot_days :: rat
  warm_days :: rat

definition mk_service_profile :: "rat \<Rightarrow> rat \<Rightarrow> service_profile result" where
  "mk_service_profile eps row_bytes =
     (if eps \<le> 0 then Inl (ValueError ''events_per_second must be positive'')
      else if row_bytes \<le> 0 then Inl (ValueError ''average_row_bytes must be positive'')
      else Inr \<lparr>events_per_second = eps, average_row_bytes = row_bytes\<rparr>)"

definition mk_storage_profile :: "int \<Rightarrow> rat \<Rightarrow> storage_profile result" where
  "mk_storage_profile tot reserve =
     (if tot \<le> 0 then Inl (ValueError ''total_bytes must be positive'')
      else if \<not> (0 \<le> reserve \<and> reserve < 1)
        then Inl (ValueError ''protected_reserve_fraction must be in [0, 1)'')
      else Inr \<lparr>total_bytes = tot, protected_reserve_fraction = reserve\<rparr>)"

definition BASELINE_HOT_DAYS :: rat where "BASELINE_HOT_DAYS = 1"

definition BASELINE_WARM_DAYS :: rat where "BASELINE_WARM_DAYS = 30"

definition WARM_COMPACTION_RATIO :: rat where "WARM_COMPACTION_RATIO = 3 / 10"

definition SECONDS_PER_DAY :: rat where "SECONDS_PER_DAY = 86400"

definition usable_bytes :: "storage_profile \<Rightarrow> rat" where
  "usable_bytes st = of_int (total_bytes st) * (1 - protected_reserve_fraction st)"

definition bytes_per_day :: "service_profile \<Rightarrow> rat" where
  "bytes_per_day sv = events_per_second sv * average_row_bytes sv * SECONDS_PER_DAY"

definition recommend_retention ::
  "service_profile \<Rightarrow> storage_profile \<Rightarrow> retention_recommendation" where
  "recommend_retention sv st =
     (let usable = usable_bytes st;
          bpd = bytes_per_day sv;
          hot = min BASELINE_HOT_DAYS (usable / bpd);
          remaining = max 0 (usable - hot * bpd);
          warm_bpd = bpd * WARM_COMPACTION_RATIO;
          max_warm = (if warm_bpd > 0 then remaining / warm_bpd else 0);
          warm = min BASELINE_WARM_DAYS (hot + max_warm)
      in \<lparr>hot_days = hot, warm_days = warm\<rparr>)"

subsection \<open>Topology profiles and configuration\<close>

record topology_profile =
  tp_name :: string
  clickhouse_replicas_per_shard :: int
  keeper_members :: int
  persistent_serving_storage :: bool
  production_ha :: bool
  shard_count :: int

definition build_topology_profile :: "string \<Rightarrow> topology_profile result" where
  "build_topology_profile profile_name =
     (if profile_name = ''local'' then
        Inr \<lparr>tp_name = ''local'', clickhouse_replicas_per_shard = 1, keeper_members = 1,
             persistent_serving_storage = True, production_ha = False, shard_count = 1\<rparr>
      else if profile_name = ''portable-production'' then
        Inr \<lparr>tp_name = ''portable-production'', clickhouse_replicas_per_shard = 2, keeper_members = 3,
             persistent_serving_storage = True, production_ha = True, shard_count = 3\<rparr>
      else Inl (ValueError ''unknown high-scale topology profile''))"

definition resolve_topology_profile :: "string \<Rightarrow> topology_profile result" where
  "resolve_topology_profile profile_name =
     (case build_topology_profile profile_name of
        Inl (ValueError _) \<Rightarrow> Inl (ValueError ''high-scale profile must be local or portable-production'')
      | r \<Rightarrow> r)"

record high_scale_config =
  enabled :: bool
  clickhouse_url :: "string option"
  fos_bucket :: "string option"
  archive_manifest_dsn :: "string option"
  worker_queue_url :: "string option"
  persistent_storage :: bool
  profile :: string

definition truthy_text :: "string option \<Rightarrow> bool" where
  "truthy_text v = (case v of None \<Rightarrow> False | Some t \<Rightarrow> t \<noteq> [])"

fun first_failing :: "(bool \<times> string) list \<Rightarrow> unit result" where
  "first_failing [] = Inr ()"
| "first_failing ((ok, msg) # checks) = (if ok then first_failing checks else Inl (ValueError msg))"

lemma first_failing_ok_iff: "first_failing cs = Inr u \<longleftrightarrow> (\<forall>c \<in> set cs. fst c)"
  by (induction cs rule: first_failing.induct) auto

definition validate_config :: "high_scale_config \<Rightarrow> unit result" where
  "validate_config c =
     (if \<not> enabled c then Inr ()
      else ebind (first_failing
             [(truthy_text (clickhouse_url c), ''high-scale mode requires a ClickHouse URL''),
              (truthy_text (fos_bucket c), ''high-scale mode requires an FOS archive bucket''),
              (truthy_text (archive_manifest_dsn c), ''high-scale mode requires an archive manifest DSN''),
              (truthy_text (worker_queue_url c), ''high-scale mode requires a durable worker queue URL''),
              (persistent_storage c, ''high-scale mode requires persistent serving storage'')])
           (\<lambda>_. ebind (resolve_topology_profile (profile c)) (\<lambda>_. Inr ())))"

type_synonym environ = "(string \<times> string) list"

definition env_get :: "environ \<Rightarrow> string \<Rightarrow> string \<Rightarrow> string" where
  "env_get env k d = (case map_of env k of None \<Rightarrow> d | Some v \<Rightarrow> v)"

definition from_environment :: "environ \<Rightarrow> high_scale_config result" where
  "from_environment env =
     (let c = \<lparr>enabled = py_lower (env_get env ''HIGH_SCALE_ENABLED'' []) \<in> set [''1'', ''true'', ''yes''],
               clickhouse_url = map_of env ''HIGH_SCALE_CLICKHOUSE_URL'',
               fos_bucket = map_of env ''HIGH_SCALE_FOS_BUCKET'',
               archive_manifest_dsn = map_of env ''HIGH_SCALE_ARCHIVE_MANIFEST_DSN'',
               worker_queue_url = map_of env ''HIGH_SCALE_WORKER_QUEUE_URL'',
               persistent_storage =
                 py_lower (env_get env ''HIGH_SCALE_PERSISTENT_STORAGE'' ''true'') \<notin> set [''0'', ''false'', ''no''],
               profile = env_get env ''HIGH_SCALE_PROFILE'' ''local''\<rparr>
      in ebind (validate_config c) (\<lambda>_. Inr c))"

definition topology_from_environment :: "environ \<Rightarrow> topology_profile result" where
  "topology_from_environment env = resolve_topology_profile (env_get env ''HIGH_SCALE_PROFILE'' ''local'')"

subsection \<open>Serving-volume disk guard\<close>

datatype disk_mode = Normal | Warning | Protective | Emergency

fun MODE_LEVELS :: "disk_mode \<Rightarrow> int" where
  "MODE_LEVELS Normal = 0"
| "MODE_LEVELS Warning = 1"
| "MODE_LEVELS Protective = 2"
| "MODE_LEVELS Emergency = 3"

record volume_stats =
  vol_total_bytes :: int
  vol_free_bytes :: int
  one_batch_bytes :: int

definition mk_volume_stats :: "int \<Rightarrow> int \<Rightarrow> int \<Rightarrow> volume_stats result" where
  "mk_volume_stats tot free one_batch =
     ebind (first_failing
       [(0 < tot, ''total_bytes must be positive''),
        (0 \<le> free, ''free_bytes must be non-negative''),
        (free \<le> tot, ''free_bytes cannot exceed total_bytes''),
        (0 \<le> one_batch, ''one_batch_bytes must be non-negative'')])
     (\<lambda>_. Inr \<lparr>vol_total_bytes = tot, vol_free_bytes = free, one_batch_bytes = one_batch\<rparr>)"

record disk_state =
  mode :: disk_mode
  free_fraction :: rat
  reserve_bytes :: int

definition evaluate_disk_state :: "volume_stats \<Rightarrow> disk_state" where
  "evaluate_disk_state v =
     (let frac = of_int (vol_free_bytes v) / of_int (vol_total_bytes v);
          reserve = max \<lfloor>of_int (vol_total_bytes v) * (1 / 5 :: rat)\<rfloor> (one_batch_bytes v);
          m = (if frac \<le> 1 / 10 then Emergency
               else if frac \<le> 3 / 20 then Protective
               else if vol_free_bytes v \<le> reserve then Warning
               else Normal)
      in \<lparr>mode = m, free_fraction = frac, reserve_bytes = reserve\<rparr>)"

record disk_snapshot =
  snap_state :: disk_state
  snap_total_bytes :: int
  snap_free_bytes :: int
  sampled_at :: rat

definition one_batch_bytes_env :: "environ \<Rightarrow> int" where
  "one_batch_bytes_env env =
     (let raw = py_strip (env_get env ''HIGH_SCALE_DISK_ONE_BATCH_BYTES'' []) in
      if raw = [] then 0
      else (case py_int raw of None \<Rightarrow> 0 | Some n \<Rightarrow> max 0 n))"

datatype log_event = LogInfo "disk_mode option" disk_mode | LogWarning "disk_mode option" disk_mode

text \<open>\<open>_record\<close> returns the new global and the log line it writes, if any.\<close>

definition record_snapshot ::
  "disk_snapshot \<Rightarrow> disk_snapshot option \<Rightarrow> log_event option \<times> disk_snapshot option" where
  "record_snapshot snap latest =
     (let prev = map_option (\<lambda>s. mode (snap_state s)) latest;
          cur = mode (snap_state snap);
          event = (if prev \<noteq> Some cur
                   then Some (if MODE_LEVELS cur \<ge> MODE_LEVELS Protective
                              then LogWarning prev cur else LogInfo prev cur)
                   else None)
      in (event, Some snap))"

definition health_field :: "(string \<times> int) list \<Rightarrow> string \<Rightarrow> int result" where
  "health_field health k = (case map_of health k of None \<Rightarrow> Inl (KeyError k) | Some v \<Rightarrow> Inr v)"

definition sample_disk_state ::
  "(string \<times> int) list \<Rightarrow> environ \<Rightarrow> rat \<Rightarrow> disk_snapshot option
     \<Rightarrow> (disk_snapshot \<times> disk_snapshot option) result" where
  "sample_disk_state health env now latest =
     ebind (health_field health ''disk_total'') (\<lambda>tot.
     ebind (health_field health ''disk_free'') (\<lambda>free.
     ebind (mk_volume_stats tot free (one_batch_bytes_env env)) (\<lambda>v.
       let snap = \<lparr>snap_state = evaluate_disk_state v, snap_total_bytes = vol_total_bytes v,
                   snap_free_bytes = vol_free_bytes v, sampled_at = now\<rparr>
       in Inr (snap, snd (record_snapshot snap latest)))))"

record disk_payload =
  p_mode :: disk_mode
  p_free_fraction :: rat
  p_reserve_bytes :: int
  p_total_bytes :: int
  p_free_bytes :: int
  sample_age_s :: rat

definition disk_snapshot_payload :: "rat \<Rightarrow> disk_snapshot option \<Rightarrow> disk_payload option" where
  "disk_snapshot_payload now latest =
     (case latest of
        None \<Rightarrow> None
      | Some s \<Rightarrow> Some \<lparr>p_mode = mode (snap_state s), p_free_fraction = free_fraction (snap_state s),
                       p_reserve_bytes = reserve_bytes (snap_state s), p_total_bytes = snap_total_bytes s,
                       p_free_bytes = snap_free_bytes s, sample_age_s = max 0 (now - sampled_at s)\<rparr>)"

lemma mk_volume_stats_ok:
  "mk_volume_stats t f b = Inr v \<longleftrightarrow>
     0 < t \<and> 0 \<le> f \<and> f \<le> t \<and> 0 \<le> b \<and>
     v = \<lparr>vol_total_bytes = t, vol_free_bytes = f, one_batch_bytes = b\<rparr>"
  by (auto simp: mk_volume_stats_def ebind_Inr_iff first_failing_ok_iff)

subsection \<open>Properties\<close>

text \<open>The disk mode in integers: the comparisons the float code makes, without division.\<close>

lemma evaluate_disk_state_mode:
  assumes "0 < vol_total_bytes v"
  shows "mode (evaluate_disk_state v) =
    (if 10 * vol_free_bytes v \<le> vol_total_bytes v then Emergency
     else if 20 * vol_free_bytes v \<le> 3 * vol_total_bytes v then Protective
     else if vol_free_bytes v \<le> max (vol_total_bytes v div 5) (one_batch_bytes v) then Warning
     else Normal)"
proof -
  let ?t = "vol_total_bytes v" and ?f = "vol_free_bytes v"
  have t: "(0 :: rat) < of_int ?t" using assms by simp
  have a: "(of_int ?f / of_int ?t \<le> (1 / 10 :: rat)) \<longleftrightarrow> 10 * ?f \<le> ?t"
  proof -
    have "(of_int ?f / of_int ?t \<le> (1 / 10 :: rat)) \<longleftrightarrow> of_int (10 * ?f) \<le> (of_int ?t :: rat)"
      using t by (simp add: field_simps)
    then show ?thesis by (simp only: of_int_le_iff)
  qed
  have b: "(of_int ?f / of_int ?t \<le> (3 / 20 :: rat)) \<longleftrightarrow> 20 * ?f \<le> 3 * ?t"
  proof -
    have "(of_int ?f / of_int ?t \<le> (3 / 20 :: rat)) \<longleftrightarrow> of_int (20 * ?f) \<le> (of_int (3 * ?t) :: rat)"
      using t by (simp add: field_simps)
    then show ?thesis by (simp only: of_int_le_iff)
  qed
  have c: "\<lfloor>of_int ?t * (1 / 5 :: rat)\<rfloor> = ?t div 5"
    using floor_divide_of_int_eq [of ?t 5, where ?'a = rat] by simp
  show ?thesis by (simp only: evaluate_disk_state_def Let_def a b c disk_state.simps)
qed

text \<open>
  The disk guard is monotone: on the same volume, with the same one-batch reserve, less
  free space never yields a less severe mode.
\<close>

theorem disk_mode_monotone:
  assumes "mk_volume_stats t f b = Inr v" and "mk_volume_stats t f' b = Inr v'" and "f' \<le> f"
  shows "MODE_LEVELS (mode (evaluate_disk_state v)) \<le> MODE_LEVELS (mode (evaluate_disk_state v'))"
  using assms by (auto simp: mk_volume_stats_ok evaluate_disk_state_mode)

theorem disk_mode_monotone_witness:
  "MODE_LEVELS (mode (evaluate_disk_state
       \<lparr>vol_total_bytes = 100, vol_free_bytes = 50, one_batch_bytes = 0\<rparr>))
   \<le> MODE_LEVELS (mode (evaluate_disk_state
       \<lparr>vol_total_bytes = 100, vol_free_bytes = 12, one_batch_bytes = 0\<rparr>))"
  by (rule disk_mode_monotone [of 100 50 0 _ 12]) (simp_all add: mk_volume_stats_ok)

lemma validate_config_ok_iff:
  "validate_config c = Inr () \<longleftrightarrow>
     (enabled c \<longrightarrow>
        truthy_text (clickhouse_url c) \<and> truthy_text (fos_bucket c) \<and>
        truthy_text (archive_manifest_dsn c) \<and> truthy_text (worker_queue_url c) \<and>
        persistent_storage c \<and> is_ok (resolve_topology_profile (profile c)))"
  by (auto simp: validate_config_def ebind_Inr_iff is_ok_iff split: if_splits)

lemma recommend_retention_core:
  fixes usable bpd :: rat
  assumes "0 < usable" and "0 < bpd"
  defines "hot \<equiv> min 1 (usable / bpd)"
  shows "0 < hot" and "hot * bpd \<le> usable"
proof -
  show "0 < hot" using assms by simp
  have "hot \<le> usable / bpd" by (simp add: hot_def)
  then show "hot * bpd \<le> usable" using assms(2) by (simp add: pos_le_divide_eq)
qed



text \<open>
  An enabled configuration that \<open>from_environment\<close> returns is complete: every connection
  setting is present and non-empty, the serving storage is persistent, and the profile
  resolves, to the topology \<open>topology_from_environment\<close> reports.
\<close>

theorem from_environment_enabled_complete:
  assumes "from_environment env = Inr c" and "enabled c"
  shows "truthy_text (clickhouse_url c) \<and> truthy_text (fos_bucket c) \<and>
    truthy_text (archive_manifest_dsn c) \<and> truthy_text (worker_queue_url c) \<and>
    persistent_storage c \<and>
    (\<exists>tp. resolve_topology_profile (profile c) = Inr tp \<and> tp_name tp = profile c \<and>
          topology_from_environment env = Inr tp)"
proof -
  from assms have v: "validate_config c = Inr ()" and p: "profile c = env_get env ''HIGH_SCALE_PROFILE'' ''local''"
    by (auto simp: from_environment_def Let_def ebind_Inr_iff)
  with assms(2) obtain tp where tp: "resolve_topology_profile (profile c) = Inr tp"
    by (auto simp: validate_config_ok_iff is_ok_iff)
  moreover from tp have "tp_name tp = profile c"
    by (auto simp: resolve_topology_profile_def build_topology_profile_def split: if_splits)
  ultimately show ?thesis using v p assms(2)
    by (simp add: validate_config_ok_iff topology_from_environment_def)
qed

theorem from_environment_enabled_complete_witness:
  "\<exists>c. from_environment
     [(''HIGH_SCALE_ENABLED'', ''True''), (''HIGH_SCALE_CLICKHOUSE_URL'', ''u''),
      (''HIGH_SCALE_FOS_BUCKET'', ''b''), (''HIGH_SCALE_ARCHIVE_MANIFEST_DSN'', ''d''),
      (''HIGH_SCALE_WORKER_QUEUE_URL'', ''q''), (''HIGH_SCALE_PROFILE'', ''portable-production'')] = Inr c
   \<and> enabled c \<and> truthy_text (worker_queue_url c)"
proof -
  let ?env = "[(''HIGH_SCALE_ENABLED'', ''True''), (''HIGH_SCALE_CLICKHOUSE_URL'', ''u''),
      (''HIGH_SCALE_FOS_BUCKET'', ''b''), (''HIGH_SCALE_ARCHIVE_MANIFEST_DSN'', ''d''),
      (''HIGH_SCALE_WORKER_QUEUE_URL'', ''q''), (''HIGH_SCALE_PROFILE'', ''portable-production'')]"
  have "is_ok (from_environment ?env) \<and> (case from_environment ?env of Inr c \<Rightarrow> enabled c | _ \<Rightarrow> False)"
    by code_simp
  then obtain c where "from_environment ?env = Inr c" and "enabled c"
    by (auto simp: is_ok_iff)
  then show ?thesis using from_environment_enabled_complete by blast
qed

end
