(* ===== verification/Manifests.thy ===== *)
theory Manifests
  imports Json_Model Topology
begin

text \<open>
  Archive manifests, their JSON documents, the batch checkpoint and the event identities
  (\<open>backend/high_scale/archive/manifests.py\<close>).

  Parameters that stand for code outside the repository: \<open>sha\<close> (the hexadecimal SHA-256 of
  a text), \<open>dumps\<close>/\<open>loads\<close> (JSON), \<open>isoformat\<close>/\<open>fromisoformat\<close> (datetime text) and the
  Parquet writer. Byte strings have a type variable \<open>'b\<close>. The legacy argument swap of
  \<open>ArchiveSourceEntry.__post_init__\<close> concerns untyped callers and has no counterpart.
\<close>

subsection \<open>Data\<close>

record archive_source_object =
  so_service_id :: string
  so_domain :: string
  so_object_key :: string
  so_checksum :: string
  so_size_bytes :: int
  so_version :: "string option"

record archive_artifact =
  art_uri :: string
  art_checksum :: string
  art_size_bytes :: int
  art_row_count :: int
  art_byte_count :: int
  art_canonical_digest :: string
  art_schema_version :: string
  art_transform_version :: string

record archive_source_entry =
  se_key :: string
  se_checksum :: string
  se_size_bytes :: int
  se_row_start :: int
  se_row_count :: int
  se_deletion_deadline :: timestamp
  se_version :: "string option"

record archive_manifest =
  am_manifest_id :: string
  am_artifact :: archive_artifact
  am_coverage_start :: timestamp
  am_coverage_end :: timestamp
  am_retention_deadline :: timestamp
  am_deletion_authorization_deadline :: timestamp
  am_archive_epoch :: int
  am_service_id :: string
  am_domain :: string
  am_sources :: "archive_source_entry list"
  am_source :: archive_source_object

definition or_text :: "string option \<Rightarrow> string \<Rightarrow> string" where
  "or_text v d = (case v of None \<Rightarrow> d | Some t \<Rightarrow> if t = [] then d else t)"

definition mk_manifest ::
  "string \<Rightarrow> archive_source_object option \<Rightarrow> archive_artifact option \<Rightarrow> timestamp option
     \<Rightarrow> timestamp option \<Rightarrow> timestamp option \<Rightarrow> timestamp option \<Rightarrow> int option
     \<Rightarrow> string option \<Rightarrow> string option \<Rightarrow> archive_source_entry list option \<Rightarrow> archive_manifest result" where
  "mk_manifest manifest_id source artifact cov_start cov_end retention del_deadline epoch
       service_id domain sources =
     (case (artifact, cov_start, cov_end, retention, del_deadline, epoch) of
        (Some art, Some cs, Some ce, Some rd, Some dd, Some ep) \<Rightarrow>
          (let resolved_sources =
                 (case sources of
                    Some ss \<Rightarrow> ss
                  | None \<Rightarrow>
                      (case source of
                         Some s \<Rightarrow> [\<lparr>se_key = so_object_key s, se_checksum = so_checksum s,
                                    se_size_bytes = so_size_bytes s, se_row_start = 0,
                                    se_row_count = art_row_count art, se_deletion_deadline = dd,
                                    se_version = so_version s\<rparr>]
                       | None \<Rightarrow> []));
               sid = or_text service_id (case source of Some s \<Rightarrow> so_service_id s | None \<Rightarrow> []);
               dom = or_text domain (case source of Some s \<Rightarrow> so_domain s | None \<Rightarrow> ''request'');
               resolved_source =
                 (case source of
                    Some s \<Rightarrow> Some s
                  | None \<Rightarrow>
                      (case resolved_sources of
                         [] \<Rightarrow> None
                       | first # _ \<Rightarrow>
                           if sid = [] then None
                           else Some \<lparr>so_service_id = sid, so_domain = dom, so_object_key = se_key first,
                                      so_checksum = se_checksum first, so_size_bytes = se_size_bytes first,
                                      so_version = se_version first\<rparr>))
           in case resolved_source of
                None \<Rightarrow> Inl (TypeError ''ArchiveManifest requires either source or non-empty sources'')
              | Some src \<Rightarrow>
                  Inr \<lparr>am_manifest_id = manifest_id, am_artifact = art, am_coverage_start = cs,
                       am_coverage_end = ce, am_retention_deadline = rd,
                       am_deletion_authorization_deadline = dd, am_archive_epoch = ep,
                       am_service_id = sid, am_domain = dom, am_sources = resolved_sources,
                       am_source = src\<rparr>)
      | _ \<Rightarrow> Inl (TypeError ''ArchiveManifest missing required artifact, coverage, or retention parameters''))"

definition total_source_rows :: "archive_manifest \<Rightarrow> int" where
  "total_source_rows m = sum_list (map se_row_count (am_sources m))"

definition validate_manifest :: "archive_manifest \<Rightarrow> unit result" where
  "validate_manifest m =
     ebind (first_failing
       [(am_coverage_start m \<le> am_coverage_end m, ''archive coverage end precedes coverage start''),
        (am_coverage_end m \<le> am_retention_deadline m, ''retention deadline precedes archive coverage''),
        (am_retention_deadline m \<le> am_deletion_authorization_deadline m,
         ''deletion authorization precedes retention deadline''),
        (0 \<le> am_archive_epoch m, ''archive epoch must be non-negative''),
        (0 \<le> art_row_count (am_artifact m) \<and> 0 \<le> art_byte_count (am_artifact m),
         ''archive counts must be non-negative'')])
     (\<lambda>_. ensure (total_source_rows m \<le> art_row_count (am_artifact m))
            (ValueError (''total source row count '' @ show_int (total_source_rows m)
               @ '' exceeds artifact row_count '' @ show_int (art_row_count (am_artifact m)))))"

definition is_source_eligible_for_deletion :: "archive_manifest \<Rightarrow> string \<Rightarrow> timestamp \<Rightarrow> bool result" where
  "is_source_eligible_for_deletion m object_key now =
     (case fetchone (filter (\<lambda>s. se_key s = object_key) (am_sources m)) of
        Some s \<Rightarrow> Inr (se_deletion_deadline s \<le> now)
      | None \<Rightarrow> Inl (KeyError (''source key '' @ object_key @ '' not found in manifest'')))"

record serving_watermark =
  sw_service_id :: string
  sw_domain :: string
  sw_owner_epoch :: int
  sw_coverage_start :: "timestamp option"
  sw_coverage_end :: "timestamp option"
  last_accepted_cursor :: "string option"
  last_archived_event_id :: "string option"
  last_visible_event_id :: "string option"
  exact :: bool

definition validate_watermark :: "serving_watermark \<Rightarrow> unit result" where
  "validate_watermark w =
     (if sw_owner_epoch w < 0 then Inl (ValueError ''owner epoch must be non-negative'')
      else case (sw_coverage_start w, sw_coverage_end w) of
        (Some s, Some e) \<Rightarrow> ensure (s \<le> e) (ValueError ''watermark coverage end precedes coverage start'')
      | _ \<Rightarrow> Inr ())"

lemma validate_manifest_ok_iff:
  "validate_manifest m = Inr u \<longleftrightarrow>
     am_coverage_start m \<le> am_coverage_end m \<and> am_coverage_end m \<le> am_retention_deadline m \<and>
     am_retention_deadline m \<le> am_deletion_authorization_deadline m \<and> 0 \<le> am_archive_epoch m \<and>
     0 \<le> art_row_count (am_artifact m) \<and> 0 \<le> art_byte_count (am_artifact m) \<and>
     total_source_rows m \<le> art_row_count (am_artifact m)"
  by (auto simp: validate_manifest_def ebind_Inr_iff first_failing_ok_iff)

subsection \<open>Manifest documents\<close>

definition source_object_json :: "archive_source_object \<Rightarrow> json" where
  "source_object_json s =
     JObj [(''checksum'', JStr (so_checksum s)), (''domain'', JStr (so_domain s)),
           (''object_key'', JStr (so_object_key s)), (''service_id'', JStr (so_service_id s)),
           (''size_bytes'', JInt (so_size_bytes s)), (''version'', opt_str (so_version s))]"

definition artifact_json :: "archive_artifact \<Rightarrow> json" where
  "artifact_json a =
     JObj [(''byte_count'', JInt (art_byte_count a)), (''canonical_digest'', JStr (art_canonical_digest a)),
           (''checksum'', JStr (art_checksum a)), (''row_count'', JInt (art_row_count a)),
           (''schema_version'', JStr (art_schema_version a)), (''size_bytes'', JInt (art_size_bytes a)),
           (''transform_version'', JStr (art_transform_version a)), (''uri'', JStr (art_uri a))]"

definition source_entry_json :: "(timestamp \<Rightarrow> string) \<Rightarrow> archive_source_entry \<Rightarrow> json" where
  "source_entry_json isoformat s =
     JObj [(''checksum'', JStr (se_checksum s)), (''deletion_deadline'', JStr (isoformat (se_deletion_deadline s))),
           (''key'', JStr (se_key s)), (''row_count'', JInt (se_row_count s)),
           (''row_start'', JInt (se_row_start s)), (''size_bytes'', JInt (se_size_bytes s)),
           (''version'', opt_str (se_version s))]"

text \<open>\<open>asdict(manifest)\<close> with \<open>_json_default\<close> for the datetimes, members in key order.\<close>

definition manifest_json :: "(timestamp \<Rightarrow> string) \<Rightarrow> archive_manifest \<Rightarrow> json" where
  "manifest_json isoformat m =
     JObj [(''archive_epoch'', JInt (am_archive_epoch m)),
           (''artifact'', artifact_json (am_artifact m)),
           (''coverage_end'', JStr (isoformat (am_coverage_end m))),
           (''coverage_start'', JStr (isoformat (am_coverage_start m))),
           (''deletion_authorization_deadline'', JStr (isoformat (am_deletion_authorization_deadline m))),
           (''domain'', JStr (am_domain m)),
           (''manifest_id'', JStr (am_manifest_id m)),
           (''retention_deadline'', JStr (isoformat (am_retention_deadline m))),
           (''service_id'', JStr (am_service_id m)),
           (''source'', source_object_json (am_source m)),
           (''sources'', JList (map (source_entry_json isoformat) (am_sources m)))]"

definition item_str :: "row \<Rightarrow> string \<Rightarrow> string result" where
  "item_str r k = ebind (json_item r k) as_str"

definition item_int :: "row \<Rightarrow> string \<Rightarrow> int result" where
  "item_int r k = ebind (json_item r k) as_int"

definition item_time :: "(string \<Rightarrow> timestamp result) \<Rightarrow> row \<Rightarrow> string \<Rightarrow> timestamp result" where
  "item_time fromisoformat r k = ebind (item_str r k) fromisoformat"

text \<open>\<open>Cls(**members)\<close>: every required field, no unknown one.\<close>

definition check_kwargs :: "string list \<Rightarrow> string list \<Rightarrow> row \<Rightarrow> unit result" where
  "check_kwargs required optional r =
     ensure (list_all (\<lambda>k. k \<in> set (map fst r)) required
             \<and> list_all (\<lambda>k. k \<in> set (required @ optional)) (map fst r))
       (TypeError ''unexpected or missing keyword argument'')"

definition source_object_from_json :: "json \<Rightarrow> archive_source_object result" where
  "source_object_from_json j =
     ebind (as_obj j) (\<lambda>r.
     ebind (check_kwargs [''service_id'', ''domain'', ''object_key'', ''checksum'', ''size_bytes''] [''version''] r) (\<lambda>_.
     ebind (item_str r ''service_id'') (\<lambda>sid.
     ebind (item_str r ''domain'') (\<lambda>dom.
     ebind (item_str r ''object_key'') (\<lambda>key.
     ebind (item_str r ''checksum'') (\<lambda>cs.
     ebind (item_int r ''size_bytes'') (\<lambda>sz.
     ebind (as_opt_str (row_get r ''version'')) (\<lambda>v.
       Inr \<lparr>so_service_id = sid, so_domain = dom, so_object_key = key, so_checksum = cs,
            so_size_bytes = sz, so_version = v\<rparr>))))))))"

definition artifact_from_json :: "json \<Rightarrow> archive_artifact result" where
  "artifact_from_json j =
     ebind (as_obj j) (\<lambda>r.
     ebind (check_kwargs [''uri'', ''checksum'', ''size_bytes'', ''row_count'', ''byte_count'',
                          ''canonical_digest'', ''schema_version'', ''transform_version''] [] r) (\<lambda>_.
     ebind (item_str r ''uri'') (\<lambda>uri.
     ebind (item_str r ''checksum'') (\<lambda>cs.
     ebind (item_int r ''size_bytes'') (\<lambda>sz.
     ebind (item_int r ''row_count'') (\<lambda>rc.
     ebind (item_int r ''byte_count'') (\<lambda>bc.
     ebind (item_str r ''canonical_digest'') (\<lambda>cd.
     ebind (item_str r ''schema_version'') (\<lambda>sv.
     ebind (item_str r ''transform_version'') (\<lambda>tv.
       Inr \<lparr>art_uri = uri, art_checksum = cs, art_size_bytes = sz, art_row_count = rc, art_byte_count = bc,
            art_canonical_digest = cd, art_schema_version = sv, art_transform_version = tv\<rparr>))))))))))"

definition source_entry_from_json :: "(string \<Rightarrow> timestamp result) \<Rightarrow> json \<Rightarrow> archive_source_entry result" where
  "source_entry_from_json fromisoformat j =
     ebind (as_obj j) (\<lambda>r.
     ebind (item_str r ''key'') (\<lambda>key.
     ebind (item_str r ''checksum'') (\<lambda>cs.
     ebind (item_int r ''size_bytes'') (\<lambda>sz.
     ebind (item_int r ''row_start'') (\<lambda>rs.
     ebind (item_int r ''row_count'') (\<lambda>rc.
     ebind (item_time fromisoformat r ''deletion_deadline'') (\<lambda>dd.
     ebind (as_opt_str (row_get r ''version'')) (\<lambda>v.
       Inr \<lparr>se_key = key, se_checksum = cs, se_size_bytes = sz, se_row_start = rs, se_row_count = rc,
            se_deletion_deadline = dd, se_version = v\<rparr>))))))))"

definition manifest_from_json :: "(string \<Rightarrow> timestamp result) \<Rightarrow> json \<Rightarrow> archive_manifest result" where
  "manifest_from_json fromisoformat j =
     ebind (as_obj j) (\<lambda>raw.
     ebind (case row_get raw ''sources'' of
              JList (s # ss) \<Rightarrow> ebind (map_result (source_entry_from_json fromisoformat) (s # ss)) (\<lambda>es. Inr (Some es))
            | v \<Rightarrow> if json_truthy v then Inl (TypeError ''expected a list of sources'') else Inr None) (\<lambda>sources.
     ebind (item_str raw ''manifest_id'') (\<lambda>mid.
     ebind (if json_truthy (row_get raw ''source'')
            then ebind (source_object_from_json (row_get raw ''source'')) (\<lambda>s. Inr (Some s))
            else Inr None) (\<lambda>source.
     ebind (ebind (json_item raw ''artifact'') artifact_from_json) (\<lambda>art.
     ebind (item_time fromisoformat raw ''coverage_start'') (\<lambda>cs.
     ebind (item_time fromisoformat raw ''coverage_end'') (\<lambda>ce.
     ebind (item_time fromisoformat raw ''retention_deadline'') (\<lambda>rd.
     ebind (item_time fromisoformat raw ''deletion_authorization_deadline'') (\<lambda>dd.
     ebind (item_int raw ''archive_epoch'') (\<lambda>ep.
     ebind (as_opt_str (row_get raw ''service_id'')) (\<lambda>sid.
     ebind (as_opt_str (row_get raw ''domain'')) (\<lambda>dom.
       mk_manifest mid source (Some art) (Some cs) (Some ce) (Some rd) (Some dd) (Some ep) sid dom sources))))))))))))"

text \<open>A manifest whose document reads back as itself.\<close>

definition self_contained :: "archive_manifest \<Rightarrow> bool" where
  "self_contained m \<longleftrightarrow> am_sources m \<noteq> [] \<and> am_service_id m \<noteq> [] \<and> am_domain m \<noteq> []"

lemma source_object_json_roundtrip: "source_object_from_json (source_object_json s) = Inr s"
  by (simp add: source_object_from_json_def source_object_json_def check_kwargs_def item_str_def
      item_int_def json_item_def row_get_def)

lemma artifact_json_roundtrip: "artifact_from_json (artifact_json a) = Inr a"
  by (simp add: artifact_from_json_def artifact_json_def check_kwargs_def item_str_def
      item_int_def json_item_def row_get_def)

lemma source_entry_json_roundtrip:
  assumes "\<And>t. fromisoformat (isoformat t) = Inr t"
  shows "source_entry_from_json fromisoformat (source_entry_json isoformat e) = Inr e"
  by (simp add: source_entry_from_json_def source_entry_json_def item_str_def item_time_def
      item_int_def json_item_def row_get_def assms)

lemma source_object_json_truthy: "json_truthy (source_object_json s)"
  by (simp add: source_object_json_def json_truthy_def)

lemma canonical_source_entry: "canonical_json (source_entry_json isof e)"
  by (simp add: source_entry_json_def)

lemma canonical_manifest_json: "canonical_json (manifest_json isof m)"
  by (simp add: manifest_json_def artifact_json_def source_object_json_def list_all_iff
      canonical_source_entry)

lemma manifest_json_roundtrip:
  assumes iso: "\<And>t. fromisoformat (isoformat t) = Inr t" and "self_contained m"
  shows "manifest_from_json fromisoformat (manifest_json isoformat m) = Inr m"
proof -
  from assms(2) obtain e es where es: "am_sources m = e # es"
    and sid: "am_service_id m \<noteq> []" and dom: "am_domain m \<noteq> []"
    by (auto simp: self_contained_def neq_Nil_conv)
  have entries: "map_result (source_entry_from_json fromisoformat)
      (map (source_entry_json isoformat) (am_sources m)) = Inr (map (\<lambda>x. x) (am_sources m))"
    by (rule map_result_map) (simp add: source_entry_json_roundtrip iso)
  let ?raw = "case manifest_json isoformat m of JObj r \<Rightarrow> r"
  have raw: "as_obj (manifest_json isoformat m) = Inr ?raw"
    and items: "row_get ?raw ''sources'' = JList (map (source_entry_json isoformat) (am_sources m))"
      "row_get ?raw ''source'' = source_object_json (am_source m)"
      "json_item ?raw ''artifact'' = Inr (artifact_json (am_artifact m))"
      "item_str ?raw ''manifest_id'' = Inr (am_manifest_id m)"
      "item_int ?raw ''archive_epoch'' = Inr (am_archive_epoch m)"
      "row_get ?raw ''service_id'' = opt_str (Some (am_service_id m))"
      "row_get ?raw ''domain'' = opt_str (Some (am_domain m))"
      "item_time fromisoformat ?raw ''coverage_start'' = Inr (am_coverage_start m)"
      "item_time fromisoformat ?raw ''coverage_end'' = Inr (am_coverage_end m)"
      "item_time fromisoformat ?raw ''retention_deadline'' = Inr (am_retention_deadline m)"
      "item_time fromisoformat ?raw ''deletion_authorization_deadline'' =
         Inr (am_deletion_authorization_deadline m)"
    by (simp_all add: manifest_json_def row_get_def json_item_def item_str_def item_int_def
        item_time_def iso opt_str_def)
  show ?thesis unfolding manifest_from_json_def raw
    using entries es sid dom
    by (simp add: items source_object_json_truthy source_object_json_roundtrip
        artifact_json_roundtrip mk_manifest_def or_text_def del: map_result.simps)
qed

subsection \<open>Batch checkpoint\<close>

fun parquet_safe_value :: "json \<Rightarrow> json" where
  "parquet_safe_value (JObj r) =
     (if r = [] then JNull else JObj (map (\<lambda>(k, v). (k, parquet_safe_value v)) r))"
| "parquet_safe_value (JList xs) = JList (map parquet_safe_value xs)"
| "parquet_safe_value v = v"

definition all_keys :: "row list \<Rightarrow> string list" where
  "all_keys events = sort (remdups (concat (map (map fst) events)))"

text \<open>One event over the union of all keys, in key order.\<close>

definition canonical_event :: "string list \<Rightarrow> row \<Rightarrow> row" where
  "canonical_event keys event = map (\<lambda>k. (k, parquet_safe_value (row_get event k))) keys"

definition event_digest :: "(json \<Rightarrow> string) \<Rightarrow> (string \<Rightarrow> string) \<Rightarrow> row list \<Rightarrow> string" where
  "event_digest dumps sha events =
     ''sha256:'' @ sha (concat (map (\<lambda>e. dumps (JObj (canonical_event (all_keys events) e)) @ [CHR 0x0A]) events))"

fun source_entries :: "int \<Rightarrow> timestamp \<Rightarrow> (archive_source_object \<times> row list) list \<Rightarrow> archive_source_entry list" where
  "source_entries offset deadline [] = []"
| "source_entries offset deadline ((s, events) # rest) =
     \<lparr>se_key = so_object_key s, se_checksum = so_checksum s, se_size_bytes = so_size_bytes s,
      se_row_start = offset, se_row_count = int (length events), se_deletion_deadline = deadline,
      se_version = so_version s\<rparr> # source_entries (offset + int (length events)) deadline rest"

definition manifest_identity ::
  "string \<Rightarrow> string \<Rightarrow> (archive_source_object \<times> row list) list \<Rightarrow> string \<Rightarrow> json" where
  "manifest_identity service_id domain batches artifact_checksum =
     (case batches of
        [(s, _)] \<Rightarrow> JList [JStr service_id, JStr domain, JStr (so_object_key s), JStr (so_checksum s),
                         JStr artifact_checksum]
      | _ \<Rightarrow> JList [JStr service_id, JStr domain, JList (map (JStr \<circ> so_object_key \<circ> fst) batches),
                    JList (map (JStr \<circ> so_checksum \<circ> fst) batches), JStr artifact_checksum])"

text \<open>The digests and encoders of the checkpoint: libraries outside the repository.\<close>

record 'b checkpoint_env =
  ck_dumps :: "json \<Rightarrow> string"
  ck_sha :: "string \<Rightarrow> string"
  ck_parquet :: "row list \<Rightarrow> 'b"
  ck_checksum :: "'b \<Rightarrow> string"
  ck_size :: "'b \<Rightarrow> int"

definition write_batch_archive_checkpoint ::
  "'b checkpoint_env \<Rightarrow> string \<Rightarrow> string \<Rightarrow> string \<Rightarrow> (archive_source_object \<times> row list) list \<Rightarrow> int
     \<Rightarrow> string \<Rightarrow> string \<Rightarrow> timestamp \<Rightarrow> timestamp \<Rightarrow> int \<Rightarrow> int \<Rightarrow> (archive_manifest \<times> 'b) result" where
  "write_batch_archive_checkpoint env out_root service_id domain batches archive_epoch schema_version
       transform_version cov_start cov_end retention_seconds deletion_grace_seconds =
     (if batches = [] \<or> sum_list (map (length \<circ> snd) batches) = 0
        then Inl (ValueError ''archive checkpoint cannot be empty'')
      else if \<not> list_all (\<lambda>(s, _). so_service_id s = service_id \<and> so_domain s = domain) batches
        then Inl (ValueError ''source identity does not match archive batch'')
      else if cov_end < cov_start then Inl (ValueError ''archive coverage end precedes coverage start'')
      else if archive_epoch < 0 then Inl (ValueError ''archive epoch must be non-negative'')
      else if retention_seconds < 0 \<or> deletion_grace_seconds < 0
        then Inl (ValueError ''retention and deletion grace periods must be non-negative'')
      else
        (let deadline = cov_end + 1000000 * (retention_seconds + deletion_grace_seconds);
             entries = source_entries 0 deadline batches;
             all_events = concat (map snd batches);
             canonical = map (canonical_event (all_keys all_events)) all_events;
             digest = event_digest (ck_dumps env) (ck_sha env) canonical;
             token = take 16 (ck_sha env (join_with '':''
                       (map (\<lambda>(s, _). so_object_key s @ '':'' @ so_checksum s) batches)));
             artifact_bytes = ck_parquet env canonical;
             checksum = ck_checksum env artifact_bytes;
             artifact = \<lparr>art_uri = ''file://'' @ out_root @ ''/'' @ service_id @ ''-'' @ domain @ ''-'' @ token @ ''.parquet'',
                         art_checksum = checksum, art_size_bytes = ck_size env artifact_bytes,
                         art_row_count = int (length all_events),
                         art_byte_count = sum_list (map (\<lambda>e. int (length (ck_dumps env (JObj e)))) canonical),
                         art_canonical_digest = digest, art_schema_version = schema_version,
                         art_transform_version = transform_version\<rparr>;
             manifest_id = ck_sha env (ck_dumps env (manifest_identity service_id domain batches checksum))
         in ebind (mk_manifest manifest_id None (Some artifact) (Some cov_start) (Some cov_end)
                     (Some (cov_end + 1000000 * retention_seconds)) (Some deadline) (Some archive_epoch)
                     (Some service_id) (Some domain) (Some entries)) (\<lambda>manifest.
            ebind (validate_manifest manifest) (\<lambda>_. Inr (manifest, artifact_bytes)))))"

subsection \<open>Event identities\<close>

definition IDENTITY_FIELDS :: "string list" where
  "IDENTITY_FIELDS = [''service_id'', ''domain'', ''source_object_key'', ''source_object_version'',
                      ''line_ordinal'', ''transform_version'']"

text \<open>\<open>str\<close> on the values that pass the checks of \<open>build_event_id\<close> (\<open>bool\<close> is an \<open>int\<close> in Python).\<close>

definition py_str :: "json \<Rightarrow> string" where
  "py_str v = (case v of JStr s \<Rightarrow> s | JInt i \<Rightarrow> show_int i | JBool b \<Rightarrow> (if b then ''True'' else ''False'') | _ \<Rightarrow> [])"

definition ordinal_ok :: "json \<Rightarrow> bool" where
  "ordinal_ok v = (case v of JInt i \<Rightarrow> 0 \<le> i | JBool _ \<Rightarrow> True | _ \<Rightarrow> False)"

definition identity_text_ok :: "json \<Rightarrow> bool" where
  "identity_text_ok v = (case v of JStr s \<Rightarrow> s \<noteq> [] | _ \<Rightarrow> False)"

definition event_identity_payload :: "row \<Rightarrow> string" where
  "event_identity_payload values =
     join_with ''|'' (map (\<lambda>f. length_prefixed (py_str (row_get values f))) IDENTITY_FIELDS)"

definition with_domain :: "row \<Rightarrow> string option \<Rightarrow> row" where
  "with_domain r domain =
     (case domain of None \<Rightarrow> r | Some d \<Rightarrow> (''domain'', JStr d) # filter (\<lambda>(k, _). k \<noteq> ''domain'') r)"

definition build_event_id :: "(string \<Rightarrow> string) \<Rightarrow> row \<Rightarrow> string option \<Rightarrow> string result" where
  "build_event_id sha_uuid r domain =
     (let values = with_domain r domain;
          missing = filter (\<lambda>f. map_of values f = None) IDENTITY_FIELDS
      in if missing \<noteq> [] then Inl (ValueError (''event identity missing fields: '' @ join_with '', '' missing))
         else if \<not> ordinal_ok (row_get values ''line_ordinal'')
           then Inl (ValueError ''line_ordinal must be a non-negative integer'')
         else if \<not> list_all (\<lambda>f. f = ''line_ordinal'' \<or> identity_text_ok (row_get values f)) IDENTITY_FIELDS
           then Inl (ValueError ''event identity string fields must be non-empty strings'')
         else Inr (sha_uuid (event_identity_payload values)))"

definition build_request_event_id :: "(string \<Rightarrow> string) \<Rightarrow> row \<Rightarrow> string result" where
  "build_request_event_id sha_uuid r = build_event_id sha_uuid r (Some ''request'')"

definition sub_ordinal_tag :: "json \<Rightarrow> string" where
  "sub_ordinal_tag v =
     (case v of JInt i \<Rightarrow> (if 0 < i then '':'' @ show_int i else [])
      | JBool b \<Rightarrow> (if b then '':True'' else []) | _ \<Rightarrow> [])"

definition build_rum_event_id :: "(string \<Rightarrow> string) \<Rightarrow> row \<Rightarrow> string \<Rightarrow> int option \<Rightarrow> string result" where
  "build_rum_event_id sha_uuid r rum_kind sub_ordinal =
     (if rum_kind \<noteq> ''vitals'' \<and> rum_kind \<noteq> ''errors''
        then Inl (ValueError ''rum_kind must be vitals or errors'')
      else let resolved = (case sub_ordinal of Some i \<Rightarrow> JInt i | None \<Rightarrow> row_get r ''sub_ordinal'')
           in build_event_id sha_uuid r (Some (''rum:'' @ rum_kind @ sub_ordinal_tag resolved)))"

definition build_cmcd_projection_key :: "(string \<Rightarrow> string) \<Rightarrow> row \<Rightarrow> string result" where
  "build_cmcd_projection_key sha_uuid r =
     (case row_get r ''request_event_id'' of
        JStr s \<Rightarrow> if s = [] then Inl (ValueError ''CMCD projection requires request_event_id'')
                 else Inr (sha_uuid (''4:cmcd|'' @ length_prefixed s))
      | _ \<Rightarrow> Inl (ValueError ''CMCD projection requires request_event_id''))"

definition build_batch_id_from_manifest_id :: "(string \<Rightarrow> string) \<Rightarrow> string \<Rightarrow> string result" where
  "build_batch_id_from_manifest_id sha_uuid manifest_id =
     (if manifest_id = [] then Inl (ValueError ''manifest_id must be a non-empty string'')
      else Inr (sha_uuid (''8:manifest|'' @ length_prefixed manifest_id)))"

subsection \<open>Properties of the checkpoint\<close>

lemma parquet_safe_value_idem: "parquet_safe_value (parquet_safe_value v) = parquet_safe_value v"
proof (induction v rule: parquet_safe_value.induct)
  case (1 r)
  show ?case
  proof (cases "r = []")
    case False
    with 1 show ?thesis by (auto simp: case_prod_unfold)
  qed simp
next
  case (2 xs)
  then show ?case by simp
qed simp_all

lemma in_all_keys: "k \<in> set (all_keys evs) \<longleftrightarrow> (\<exists>e \<in> set evs. k \<in> set (map fst e))"
  by (auto simp: all_keys_def)

lemma map_fst_canonical: "map fst (canonical_event ks e) = ks"
  by (simp add: canonical_event_def comp_def)

lemma row_get_canonical: "k \<in> set ks \<Longrightarrow> row_get (canonical_event ks e) k = parquet_safe_value (row_get e k)"
  by (simp add: row_get_def canonical_event_def map_of_map_restrict restrict_map_def
      map_of_eq_None_iff image_image)

lemma canonical_event_idem: "canonical_event ks (canonical_event ks e) = canonical_event ks e"
proof -
  have "canonical_event ks (canonical_event ks e)
      = map (\<lambda>k. (k, parquet_safe_value (row_get (canonical_event ks e) k))) ks"
    by (rule canonical_event_def)
  also have "\<dots> = map (\<lambda>k. (k, parquet_safe_value (row_get e k))) ks"
    by (simp add: row_get_canonical parquet_safe_value_idem cong: map_cong)
  finally show ?thesis by (simp only: canonical_event_def)
qed

lemma all_keys_canonical:
  assumes "evs \<noteq> []"
  shows "all_keys (map (canonical_event (all_keys evs)) evs) = all_keys evs"
proof -
  let ?c = "map (canonical_event (all_keys evs)) evs"
  have "k \<in> set (all_keys ?c) \<longleftrightarrow> k \<in> set (all_keys evs)" for k
  proof -
    have "k \<in> set (all_keys ?c) \<longleftrightarrow> (\<exists>e \<in> set evs. k \<in> set (map fst (canonical_event (all_keys evs) e)))"
      unfolding in_all_keys [of _ ?c] by simp
    also have "\<dots> \<longleftrightarrow> k \<in> set (all_keys evs)"
      unfolding map_fst_canonical using assms by (cases evs) auto
    finally show ?thesis .
  qed
  then have "set (all_keys ?c) = set (all_keys evs)" by blast
  moreover have "sorted (all_keys es) \<and> distinct (all_keys es)" for es
    by (simp add: all_keys_def)
  ultimately show ?thesis by (metis sorted_distinct_set_unique)
qed

lemma digest_of_canonical:
  "event_digest dumps sha (map (canonical_event (all_keys evs)) evs) = event_digest dumps sha evs"
proof (cases "evs = []")
  case False
  then show ?thesis
    by (simp add: event_digest_def all_keys_canonical canonical_event_idem comp_def)
qed simp

text \<open>
  The digest recorded in the manifest is computed over canonical events; replay
  recomputes it over whatever rows it reads. Both agree on an archived batch: digesting the
  canonical events gives the digest of the original ones, so canonicalisation is invisible
  to the replay check.
\<close>

theorem event_digest_canonical:
  "event_digest dumps sha (map (canonical_event (all_keys evs)) evs) = event_digest dumps sha evs"
  by (rule digest_of_canonical)

text \<open>The entries of a checkpoint cut the artifact's rows into the sources' own events.\<close>

lemma source_entries_deadline: "e \<in> set (source_entries off d bs) \<Longrightarrow> se_deletion_deadline e = d"
  by (induction off d bs rule: source_entries.induct) auto

lemma length_source_entries [simp]: "length (source_entries off d bs) = length bs"
  by (induction off d bs rule: source_entries.induct) auto

lemma source_entries_total:
  "sum_list (map se_row_count (source_entries off d bs)) = int (length (concat (map snd bs)))"
  by (induction off d bs rule: source_entries.induct) auto

lemma source_entries_slice:
  assumes "i < length bs" and "length pre = nat off" and "0 \<le> off"
  shows "let e = source_entries off d bs ! i in
    take (nat (se_row_count e)) (drop (nat (se_row_start e)) (pre @ concat (map snd bs))) = snd (bs ! i)
    \<and> se_key e = so_object_key (fst (bs ! i)) \<and> se_checksum e = so_checksum (fst (bs ! i))"
  using assms
proof (induction off d bs arbitrary: i pre rule: source_entries.induct)
  case (1 off d)
  then show ?case by simp
next
  case (2 off d s evs rest)
  show ?case
  proof (cases i)
    case 0
    with 2 show ?thesis by simp
  next
    case (Suc k)
    have "length (pre @ evs) = nat (off + int (length evs))" using 2(3,4) by simp
    from 2(1) [OF _ this] Suc 2(2,4) show ?thesis by (simp add: Let_def)
  qed
qed

text \<open>What a successful checkpoint returns.\<close>

lemma write_checkpoint_cases:
  assumes "write_batch_archive_checkpoint env out_root sid dmn bs ep sv tv cs ce ret grace = Inr (m, a)"
  defines "dl \<equiv> ce + 1000000 * (ret + grace)" and "evs \<equiv> concat (map snd bs)"
  shows "bs \<noteq> []" and "evs \<noteq> []" and "sid \<noteq> []"
    and "list_all (\<lambda>(s, _). so_service_id s = sid \<and> so_domain s = dmn) bs"
    and "am_sources m = source_entries 0 dl bs" and "am_service_id m = sid"
    and "am_domain m = or_text (Some dmn) ''request''"
    and "am_deletion_authorization_deadline m = dl"
    and "art_row_count (am_artifact m) = int (length evs)"
    and "art_checksum (am_artifact m) = ck_checksum env a"
    and "art_size_bytes (am_artifact m) = ck_size env a"
    and "a = ck_parquet env (map (canonical_event (all_keys evs)) evs)"
    and "art_canonical_digest (am_artifact m) = event_digest (ck_dumps env) (ck_sha env) evs"
    and "validate_manifest m = Inr ()"
    and "am_source m = (let e = hd (am_sources m) in
           \<lparr>so_service_id = sid, so_domain = or_text (Some dmn) ''request'', so_object_key = se_key e,
            so_checksum = se_checksum e, so_size_bytes = se_size_bytes e, so_version = se_version e\<rparr>)"
    and "am_coverage_start m = cs" and "am_coverage_end m = ce" and "am_archive_epoch m = ep"
    and "0 \<le> ret" and "0 \<le> grace"
proof -
  have nonzero: "sum_list (map (length \<circ> snd) bs) \<noteq> 0 \<Longrightarrow> concat (map snd bs) \<noteq> []"
    by (induction bs) auto
  note unf = assms(1) [unfolded write_batch_archive_checkpoint_def Let_def mk_manifest_def digest_of_canonical,
      folded evs_def dl_def]
  show "bs \<noteq> []" and "evs \<noteq> []"
    using unf nonzero by (auto simp: evs_def split: if_splits)
  then obtain b bs' where bs: "bs = b # bs'" by (cases bs) auto
  obtain e es where es: "source_entries 0 dl bs = e # es"
    by (cases b) (simp add: bs)
  show "sid \<noteq> []" using unf
    by (auto simp: es ebind_Inr_iff or_text_def split: if_splits)
  then show "list_all (\<lambda>(s, _). so_service_id s = sid \<and> so_domain s = dmn) bs"
    and "am_sources m = source_entries 0 dl bs" and "am_service_id m = sid"
    and "am_domain m = or_text (Some dmn) ''request''"
    and "am_deletion_authorization_deadline m = dl"
    and "art_row_count (am_artifact m) = int (length evs)"
    and "art_checksum (am_artifact m) = ck_checksum env a"
    and "art_size_bytes (am_artifact m) = ck_size env a"
    and "a = ck_parquet env (map (canonical_event (all_keys evs)) evs)"
    and "art_canonical_digest (am_artifact m) = event_digest (ck_dumps env) (ck_sha env) evs"
    and "validate_manifest m = Inr ()"
    and "am_source m = (let e = hd (am_sources m) in
           \<lparr>so_service_id = sid, so_domain = or_text (Some dmn) ''request'', so_object_key = se_key e,
            so_checksum = se_checksum e, so_size_bytes = se_size_bytes e, so_version = se_version e\<rparr>)"
    and "am_coverage_start m = cs" and "am_coverage_end m = ce" and "am_archive_epoch m = ep"
    and "0 \<le> ret" and "0 \<le> grace"
    using unf by (auto simp: es ebind_Inr_iff or_text_def Let_def split: if_splits)
qed

text \<open>
  C10. A batch checkpoint accounts for every row: it has one entry per source, in order; each
  entry's row range cuts exactly that source's events out of the artifact's events; the row
  counts of the entries add up to the artifact's; every entry carries the manifest's deletion
  deadline, which lies after retention plus grace; and the manifest passes its own validation.
\<close>

theorem checkpoint_accounts_for_rows:
  assumes "write_batch_archive_checkpoint env out_root sid dmn bs ep sv tv cs ce ret grace = Inr (m, a)"
  defines "evs \<equiv> concat (map snd bs)"
  shows "length (am_sources m) = length bs
    \<and> (\<forall>i < length bs. let e = am_sources m ! i in
         take (nat (se_row_count e)) (drop (nat (se_row_start e)) evs) = snd (bs ! i)
         \<and> se_key e = so_object_key (fst (bs ! i)) \<and> se_checksum e = so_checksum (fst (bs ! i)))
    \<and> total_source_rows m = art_row_count (am_artifact m)
    \<and> art_row_count (am_artifact m) = int (length evs)
    \<and> (\<forall>e \<in> set (am_sources m). se_deletion_deadline e = ce + 1000000 * (ret + grace))
    \<and> ce \<le> am_deletion_authorization_deadline m
    \<and> validate_manifest m = Inr ()"
proof -
  note ck = write_checkpoint_cases [OF assms(1), folded evs_def]
  have "let e = source_entries 0 d bs ! i in
      take (nat (se_row_count e)) (drop (nat (se_row_start e)) evs) = snd (bs ! i)
      \<and> se_key e = so_object_key (fst (bs ! i)) \<and> se_checksum e = so_checksum (fst (bs ! i))"
    if "i < length bs" for i d
    using source_entries_slice [OF that, of "[]" 0 d] by (simp add: evs_def)
  moreover have "total_source_rows m = int (length evs)"
    by (simp add: total_source_rows_def ck(5) source_entries_total evs_def)
  moreover have "ce \<le> am_deletion_authorization_deadline m"
    using ck(8,19,20) by simp
  ultimately show ?thesis
    by (simp add: ck(5,9,14) source_entries_deadline)
qed

definition example_env :: "row list checkpoint_env" where
  "example_env = \<lparr>ck_dumps = (\<lambda>_. ''{}''), ck_sha = (\<lambda>t. ''d'' @ t), ck_parquet = (\<lambda>rs. rs),
     ck_checksum = (\<lambda>_. ''sha256:x''), ck_size = (\<lambda>rs. int (length rs))\<rparr>"

definition example_batches :: "(archive_source_object \<times> row list) list" where
  "example_batches =
     [(\<lparr>so_service_id = ''svc'', so_domain = ''request'', so_object_key = ''k1'', so_checksum = ''c1'',
        so_size_bytes = 10, so_version = None\<rparr>, [[(''url'', JStr ''/a'')], [(''url'', JStr ''/b'')]]),
      (\<lparr>so_service_id = ''svc'', so_domain = ''request'', so_object_key = ''k2'', so_checksum = ''c2'',
        so_size_bytes = 20, so_version = Some ''v''\<rparr>, [[(''host'', JStr ''h'')]])]"

theorem checkpoint_accounts_for_rows_witness:
  "\<exists>m a. write_batch_archive_checkpoint example_env ''r'' ''svc'' ''request'' example_batches 0 ''s'' ''t'' 5 7 10 20
       = Inr (m, a)
     \<and> length (am_sources m) = 2 \<and> total_source_rows m = art_row_count (am_artifact m)"
proof -
  have "is_ok (write_batch_archive_checkpoint example_env ''r'' ''svc'' ''request'' example_batches 0 ''s'' ''t'' 5 7 10 20)"
    by code_simp
  then obtain m a where ok:
    "write_batch_archive_checkpoint example_env ''r'' ''svc'' ''request'' example_batches 0 ''s'' ''t'' 5 7 10 20 = Inr (m, a)"
    by (auto simp: is_ok_iff)
  have "length example_batches = 2" by (simp add: example_batches_def)
  with checkpoint_accounts_for_rows [OF ok] ok show ?thesis by auto
qed

subsection \<open>Properties of event identities\<close>

lemma show_int_not_bool: "show_int i \<noteq> ''True''" "show_int i \<noteq> ''False''"
proof -
  have "hd (show_int i) \<noteq> CHR ''T'' \<and> hd (show_int i) \<noteq> CHR ''F''"
  proof (cases "i < 0")
    case False
    then have hd: "hd (show_int i) \<in> set (show_nat (nat i))"
      by (simp add: show_int_def show_nat_nonempty)
    show ?thesis using show_nat_digits [OF hd] by auto
  qed (simp add: show_int_def)
  then show "show_int i \<noteq> ''True''" and "show_int i \<noteq> ''False''" by auto
qed

lemma ordinal_text_inj: "ordinal_ok v \<Longrightarrow> ordinal_ok w \<Longrightarrow> py_str v = py_str w \<Longrightarrow> v = w"
  using show_int_not_bool show_int_not_bool [symmetric]
  by (auto simp: ordinal_ok_def py_str_def show_int_inj split: json.splits if_splits)

lemma identity_text_inj: "identity_text_ok v \<Longrightarrow> identity_text_ok w \<Longrightarrow> py_str v = py_str w \<Longrightarrow> v = w"
  by (auto simp: identity_text_ok_def py_str_def split: json.splits)

lemma event_identity_payload_inj:
  "event_identity_payload v = event_identity_payload w \<longleftrightarrow>
     (\<forall>f \<in> set IDENTITY_FIELDS. py_str (row_get v f) = py_str (row_get w f))"
proof
  assume "event_identity_payload v = event_identity_payload w"
  then have "join_with ''|'' (map length_prefixed (map (\<lambda>f. py_str (row_get v f)) IDENTITY_FIELDS))
      = join_with ''|'' (map length_prefixed (map (\<lambda>f. py_str (row_get w f)) IDENTITY_FIELDS))"
    by (simp add: event_identity_payload_def comp_def)
  from join_prefixed_inj [OF _ this]
  show "\<forall>f \<in> set IDENTITY_FIELDS. py_str (row_get v f) = py_str (row_get w f)" by simp
next
  assume "\<forall>f \<in> set IDENTITY_FIELDS. py_str (row_get v f) = py_str (row_get w f)"
  then show "event_identity_payload v = event_identity_payload w"
    unfolding event_identity_payload_def by (intro arg_cong [where f = "join_with ''|''"] map_cong) auto
qed

lemma build_event_id_accepts:
  assumes "build_event_id sha_uuid r d = Inr i"
  shows "ordinal_ok (row_get (with_domain r d) ''line_ordinal'')"
    and "f \<in> set IDENTITY_FIELDS \<Longrightarrow> f = ''line_ordinal'' \<or> identity_text_ok (row_get (with_domain r d) f)"
    and "i = sha_uuid (event_identity_payload (with_domain r d))"
  using assms by (auto simp: build_event_id_def Let_def list_all_iff split: if_splits)

lemma event_id_agree:
  assumes "build_event_id sha_uuid r d = Inr i" and "build_event_id sha_uuid r' d' = Inr i"
    and no_collision: "sha_uuid (event_identity_payload (with_domain r d))
        = sha_uuid (event_identity_payload (with_domain r' d'))
      \<Longrightarrow> event_identity_payload (with_domain r d) = event_identity_payload (with_domain r' d')"
    and "f \<in> set IDENTITY_FIELDS"
  shows "row_get (with_domain r d) f = row_get (with_domain r' d') f"
proof -
  note acc = build_event_id_accepts [OF assms(1)] and acc' = build_event_id_accepts [OF assms(2)]
  from acc(3) acc'(3) no_collision have "py_str (row_get (with_domain r d) f) = py_str (row_get (with_domain r' d') f)"
    using assms(4) by (auto simp: event_identity_payload_inj)
  with acc(1,2) acc'(1,2) assms(4) show ?thesis
    by (cases "f = ''line_ordinal''") (auto intro: ordinal_text_inj identity_text_inj)
qed

text \<open>
  C13. Event ids identify events: two rows that receive the same event id agree on every
  identity field (service, domain, source object and version, line ordinal, transform),
  provided the digest has no collision on their two payloads.
\<close>

theorem event_id_identifies:
  assumes "build_event_id sha_uuid r d = Inr i" and "build_event_id sha_uuid r' d' = Inr i"
    and no_collision: "sha_uuid (event_identity_payload (with_domain r d))
        = sha_uuid (event_identity_payload (with_domain r' d'))
      \<Longrightarrow> event_identity_payload (with_domain r d) = event_identity_payload (with_domain r' d')"
    and "f \<in> set IDENTITY_FIELDS"
  shows "row_get (with_domain r d) f = row_get (with_domain r' d') f"
  by (rule event_id_agree [OF assms])

definition example_row :: row where
  "example_row = [(''service_id'', JStr ''s''), (''source_object_key'', JStr ''k''),
     (''source_object_version'', JStr ''v''), (''line_ordinal'', JInt 3), (''transform_version'', JStr ''t'')]"

theorem event_id_identifies_witness:
  "row_get (with_domain example_row (Some ''request'')) ''line_ordinal''
   = row_get (with_domain ((''url'', JStr ''/'') # example_row) (Some ''request'')) ''line_ordinal''"
proof (rule event_id_identifies [where sha_uuid = "\<lambda>p. p"])
  show "build_event_id (\<lambda>p. p) example_row (Some ''request'')
      = Inr ''1:s|7:request|1:k|1:v|1:3|1:t''"
    by code_simp
  show "build_event_id (\<lambda>p. p) ((''url'', JStr ''/'') # example_row) (Some ''request'')
      = Inr ''1:s|7:request|1:k|1:v|1:3|1:t''"
    by code_simp
qed (simp_all add: IDENTITY_FIELDS_def)

end
