(* ===== verification/Clickhouse_Rows.thy ===== *)
theory Clickhouse_Rows
  imports Manifests
begin

text \<open>
  From event rows to ClickHouse rows: \<open>archive/clickhouse_batch.py\<close> up to \<open>_rows_for_domain\<close>,
  and the table and column allowlists of \<open>core/clickhouse/constants.py\<close>.

  A cell of a ClickHouse row is a \<open>ch_value\<close>; \<open>CRaw\<close> is a decoded value that the aggregate adapter passes on as it is. The external functions the mapping calls are
  fields of \<open>batch_env\<close>: \<open>uuid5\<close>, SHA-256, \<open>json.dumps\<close> with sorted keys, \<open>datetime.fromisoformat\<close>
  (as the instant in UTC; text without an offset is read as UTC), \<open>str\<close> on a decoded value and
  \<open>float\<close> on a text. Numbers in a decoded row are finite (\<open>Json_Model\<close>), so \<open>math.isfinite\<close> only
  matters for what \<open>float\<close> reads. The main lemmas say that the mapping yields one row per event,
  that every row has the width of the domain's column list, and that every row carries the
  service and the batch it belongs to: what the adapter counts rows by.
\<close>

subsection \<open>Tables and columns\<close>

definition CLICKHOUSE_FACT_TABLE :: string where
  "CLICKHOUSE_FACT_TABLE = ''log_facts''"

definition CLICKHOUSE_FACT_COLUMNS :: "string list" where
  "CLICKHOUSE_FACT_COLUMNS =
     [''service_id'', ''batch_id'', ''source_identity'', ''row_ordinal'', ''generation'',
      ''timestamp'', ''country'', ''ip'', ''url'', ''conn_requests'']"

definition CLICKHOUSE_HIGH_SCALE_TABLES :: "string list" where
  "CLICKHOUSE_HIGH_SCALE_TABLES =
     [''high_scale_batch_publications'', ''request_facts'', ''request_aggregates'',
      ''rum_vitals_facts'', ''rum_error_facts'', ''cmcd_projection_facts'',
      ''rum_vitals_aggregates'', ''rum_error_aggregates'', ''cmcd_aggregates'',
      ''origin_minute_summary'', ''origin_minute_dimensions'', ''performance_minute_dimensions'',
      ''performance_minute_summary'', ''performance_scatter_samples'',
      ''security_minute_dimensions'', ''network_minute_dimensions'']"

definition CLICKHOUSE_HIGH_SCALE_COLUMNS :: "string list" where
  "CLICKHOUSE_HIGH_SCALE_COLUMNS =
     [''batch_id'', ''service_id'', ''domain'', ''generation'', ''batch_digest'', ''expected_rows'',
      ''visible_rows'', ''quorum_acked'', ''publication_state'', ''manifest_version'',
      ''updated_at'', ''event_id'', ''event_timestamp'', ''ingest_timestamp'', ''source_object_key'',
      ''source_object_version'', ''line_ordinal'', ''transform_version'', ''country'', ''client_ip'',
      ''url'', ''custom_fields'', ''cmcd'', ''client_id'', ''request_event_id'', ''metric_name'',
      ''metric_value'', ''metric_rating'', ''pathname'', ''error_message'', ''error_file'',
      ''projection_key'', ''request_count'', ''event_count'', ''error_count'', ''session_count'',
      ''value_sum'', ''bucket_start'', ''dimension'', ''value'', ''requests'', ''misses'',
      ''passes'', ''origin_5xx'', ''status_count'', ''origin_bytes'', ''latency_count'',
      ''ttlb_count'', ''overhead_count'', ''origin_bytes_count'', ''latency_p50_us'',
      ''latency_p75_us'', ''latency_p95_us'', ''latency_p99_us'', ''ttlb_p50_us'', ''ttlb_p95_us'',
      ''cdn_overhead_p50_us'', ''origin_bytes_p50'', ''latency_sk_v'', ''latency_sk_w'',
      ''ttlb_sk_v'', ''ttlb_sk_w'', ''overhead_sk_v'', ''overhead_sk_w'', ''origin_bytes_sk_v'',
      ''origin_bytes_sk_w'', ''asn'', ''browser'', ''os'', ''device'', ''city'', ''region'', ''pop'',
      ''tls'', ''ttfb'', ''error_line'', ''error_col'', ''latency_sum_ms'', ''latency_p50_ms'',
      ''latency_p95_ms'', ''latency_p99_ms'', ''wellknown_bot_name'', ''bot_category'',
      ''verified_count'', ''impersonator_count'', ''unverified_count'', ''c_speed'', ''errors'',
      ''tcp_rtt_count'', ''tcp_rtt_sum'', ''tcp_rtt_p50_us'', ''tcp_rtt_p95_us'', ''tcp_rtt_p99_us'',
      ''ttfb_p50_us'', ''ttfb_p95_us'', ''ploss_sum'', ''ploss_count'', ''component_count'',
      ''edge_processing_sum_ms'', ''origin_wait_sum_ms'', ''origin_download_sum_ms'',
      ''client_download_sum_ms'', ''sample_key'', ''origin_ms'', ''edge_ms'', ''cache'']"

definition CLICKHOUSE_ALLOWED_TABLES :: "string list" where
  "CLICKHOUSE_ALLOWED_TABLES = CLICKHOUSE_FACT_TABLE # CLICKHOUSE_HIGH_SCALE_TABLES"

definition CLICKHOUSE_TABLE_COLUMNS :: "string \<Rightarrow> string list" where
  "CLICKHOUSE_TABLE_COLUMNS table =
     (if table \<in> set CLICKHOUSE_HIGH_SCALE_TABLES then CLICKHOUSE_HIGH_SCALE_COLUMNS
      else if table = CLICKHOUSE_FACT_TABLE then CLICKHOUSE_FACT_COLUMNS else [])"

definition DOMAIN_TABLES :: "(string \<times> string) list" where
  "DOMAIN_TABLES =
     [(''request'', ''request_facts''), (''rum_vitals'', ''rum_vitals_facts''),
      (''rum_errors'', ''rum_error_facts''), (''cmcd'', ''cmcd_projection_facts'')]"

definition COMMON_FACT_COLUMNS :: "string list" where
  "COMMON_FACT_COLUMNS =
     [''service_id'', ''event_id'', ''event_timestamp'', ''ingest_timestamp'', ''source_object_key'',
      ''source_object_version'', ''line_ordinal'', ''transform_version'', ''batch_id'', ''publication_state'']"

definition RUM_ENV_TAIL_COLUMNS :: "string list" where
  "RUM_ENV_TAIL_COLUMNS = [''browser'', ''os'', ''device'', ''city'', ''region'', ''pop'', ''tls'', ''ttfb'']"

definition DOMAIN_COLUMNS :: "(string \<times> string list) list" where
  "DOMAIN_COLUMNS =
     [(''request'', COMMON_FACT_COLUMNS @ [''country'', ''client_ip'', ''url'', ''custom_fields'', ''cmcd'']),
      (''rum_vitals'', COMMON_FACT_COLUMNS
         @ [''client_id'', ''request_event_id'', ''metric_name'', ''metric_value'', ''metric_rating'',
            ''pathname'', ''country''] @ RUM_ENV_TAIL_COLUMNS),
      (''rum_errors'', COMMON_FACT_COLUMNS
         @ [''client_id'', ''request_event_id'', ''error_message'', ''error_file'', ''pathname'', ''country'',
            ''error_line'', ''error_col''] @ RUM_ENV_TAIL_COLUMNS),
      (''cmcd'', [''service_id'', ''projection_key'', ''request_event_id'', ''event_timestamp'', ''batch_id'',
                ''publication_state'', ''cmcd'', ''country'', ''asn''])]"

subsection \<open>Batches\<close>

datatype ch_value =
    CNull
  | CStr string
  | CInt int
  | CFloat rat
  | CTime timestamp
  | CMap "(string \<times> string) list"
  | CRaw json

datatype py_float = Finite rat | NonFinite

record batch_env =
  be_uuid5 :: "string \<Rightarrow> string \<Rightarrow> string"
  be_sha256 :: "string \<Rightarrow> string"
  be_sha_uuid :: "string \<Rightarrow> string"
  be_dumps :: "json \<Rightarrow> string"
  be_fromiso :: "string \<Rightarrow> timestamp result"
  be_str :: "json \<Rightarrow> string"
  be_float :: "string \<Rightarrow> py_float option"

record high_scale_batch =
  hb_batch_id :: string
  hb_service_id :: string
  hb_domain :: string
  hb_generation :: string
  hb_rows :: "row list"

definition batch_digest :: "batch_env \<Rightarrow> high_scale_batch \<Rightarrow> string" where
  "batch_digest env batch =
     ''sha256:'' @ be_sha256 env (join_with [char_of (10 :: nat)] (map (\<lambda>r. be_dumps env (JObj r)) (hb_rows batch)))"

definition BATCH_NAMESPACE :: string where
  "BATCH_NAMESPACE = ''f3e6bd14-9df9-5f8a-9d92-7a4f1fd36d9a''"

definition EVENT_NAMESPACE :: string where
  "EVENT_NAMESPACE = ''8e5d1e37-4e66-5b66-9f4c-73d7c4a3f0d8''"

definition batch_uuid :: "batch_env \<Rightarrow> high_scale_batch \<Rightarrow> string" where
  "batch_uuid env batch =
     be_uuid5 env BATCH_NAMESPACE
       (join_with [char_of (0 :: nat)] [hb_service_id batch, hb_domain batch, hb_generation batch, hb_batch_id batch])"

subsection \<open>Reading the fields of an event\<close>

definition event_uuid :: "batch_env \<Rightarrow> json \<Rightarrow> string \<Rightarrow> string result" where
  "event_uuid env v field =
     (case v of
        JStr s \<Rightarrow> if s = [] then Inl (ValueError (field @ '' must be a non-empty string''))
                 else Inr (be_uuid5 env EVENT_NAMESPACE (field @ '':'' @ s))
      | _ \<Rightarrow> Inl (ValueError (field @ '' must be a non-empty string'')))"

definition get_default :: "row \<Rightarrow> string \<Rightarrow> json \<Rightarrow> json" where
  "get_default r k d = (case map_of r k of None \<Rightarrow> d | Some v \<Rightarrow> v)"

definition required_string :: "row \<Rightarrow> string \<Rightarrow> string option \<Rightarrow> string result" where
  "required_string r field dflt =
     (case get_default r field (opt_str dflt) of
        JStr s \<Rightarrow> Inr s
      | _ \<Rightarrow> Inl (ValueError (field @ '' must be a string'')))"

definition required_nonnegative_int :: "row \<Rightarrow> string \<Rightarrow> int result" where
  "required_nonnegative_int r field =
     (case row_get r field of
        JInt i \<Rightarrow> if i < 0 then Inl (ValueError (field @ '' must be a non-negative integer'')) else Inr i
      | _ \<Rightarrow> Inl (ValueError (field @ '' must be a non-negative integer'')))"

text \<open>
  \<open>range_value\<close> on text: blank text is \<open>None\<close>, and \<open>Z\<close> is replaced wherever it occurs before the
  text is read. \<open>_timestamp\<close> then takes an attribute of the \<open>None\<close>.
\<close>

definition replace_zulu :: "string \<Rightarrow> string" where
  "replace_zulu s = concat (map (\<lambda>c. if c = CHR ''Z'' then ''+00:00'' else [c]) s)"

definition range_value :: "batch_env \<Rightarrow> string \<Rightarrow> timestamp option result" where
  "range_value env s =
     (let stripped = py_strip s
      in if stripped = [] then Inr None
         else ebind (be_fromiso env (replace_zulu stripped)) (\<lambda>t. Inr (Some t)))"

definition timestamp_of :: "batch_env \<Rightarrow> row \<Rightarrow> string \<Rightarrow> timestamp result" where
  "timestamp_of env r field =
     (case row_get r field of
        JStr s \<Rightarrow>
          (case range_value env s of
             Inl (ValueError _) \<Rightarrow> Inl (ValueError (field @ '' must be an ISO timestamp''))
           | Inl e \<Rightarrow> Inl e
           | Inr None \<Rightarrow> Inl (OtherError ''AttributeError'')
           | Inr (Some t) \<Rightarrow> Inr t)
      | _ \<Rightarrow> Inl (ValueError (field @ '' must be an ISO timestamp'')))"

definition text_value :: "batch_env \<Rightarrow> json \<Rightarrow> string" where
  "text_value env v = (case v of JNull \<Rightarrow> [] | JBool _ \<Rightarrow> [] | _ \<Rightarrow> py_strip (be_str env v))"

fun first_text :: "batch_env \<Rightarrow> row \<Rightarrow> string list \<Rightarrow> string" where
  "first_text env r [] = []"
| "first_text env r (k # ks) =
     (let t = text_value env (row_get r k) in if t \<noteq> [] then t else first_text env r ks)"

definition finite_value :: "batch_env \<Rightarrow> json \<Rightarrow> rat option" where
  "finite_value env v =
     (case v of
        JNull \<Rightarrow> None
      | JBool _ \<Rightarrow> None
      | _ \<Rightarrow> (case be_float env (py_strip (be_str env v)) of Some (Finite q) \<Rightarrow> Some q | _ \<Rightarrow> None))"

definition TEXT_ALIASES :: "(string \<times> string list) list" where
  "TEXT_ALIASES =
     [(''country'', [''country'', ''geo_country_code'']), (''browser'', [''browser'']), (''os'', [''os'']),
      (''device'', [''device'']), (''city'', [''city'', ''geo_city'']), (''region'', [''region'', ''geo_region'']),
      (''pop'', [''pop'', ''server_pop'']), (''tls'', [''tls'', ''tls_version''])]"

definition TTFB_KEYS :: "string list" where
  "TTFB_KEYS = [''ttfb'', ''time_to_first_byte'']"

fun first_finite :: "batch_env \<Rightarrow> row \<Rightarrow> string list \<Rightarrow> rat option" where
  "first_finite env r [] = None"
| "first_finite env r (k # ks) =
     (case finite_value env (row_get r k) of Some q \<Rightarrow> Some q | None \<Rightarrow> first_finite env r ks)"

definition rum_environment :: "batch_env \<Rightarrow> row \<Rightarrow> (string \<times> ch_value) list" where
  "rum_environment env r =
     map (\<lambda>(name, keys). (name, CStr (first_text env r keys))) TEXT_ALIASES
     @ [(''ttfb'', case first_finite env r TTFB_KEYS of None \<Rightarrow> CNull | Some q \<Rightarrow> CFloat q)]"

fun position :: "batch_env \<Rightarrow> row \<Rightarrow> string list \<Rightarrow> int" where
  "position env r [] = 0"
| "position env r (k # ks) =
     (case finite_value env (row_get r k) of
        Some q \<Rightarrow> if 0 \<le> q then \<lfloor>q\<rfloor> else position env r ks
      | None \<Rightarrow> position env r ks)"

definition rum_error_position :: "batch_env \<Rightarrow> row \<Rightarrow> int \<times> int" where
  "rum_error_position env r =
     (position env r [''rum_error_line'', ''error_line''], position env r [''rum_error_col'', ''error_col''])"

definition ch_get :: "(string \<times> ch_value) list \<Rightarrow> string \<Rightarrow> ch_value" where
  "ch_get r k = (case map_of r k of None \<Rightarrow> CNull | Some v \<Rightarrow> v)"

definition rum_environment_values :: "batch_env \<Rightarrow> row \<Rightarrow> bool \<Rightarrow> ch_value list" where
  "rum_environment_values env r with_error_position =
     (let e = rum_environment env r; (line, col) = rum_error_position env r
      in ch_get e ''country'' # (if with_error_position then [CInt line, CInt col] else [])
         @ map (ch_get e) RUM_ENV_TAIL_COLUMNS)"

definition optional_asn :: "json \<Rightarrow> ch_value" where
  "optional_asn v = (case v of JInt i \<Rightarrow> if 0 < i then CInt i else CNull | _ \<Rightarrow> CNull)"

definition string_item :: "string \<Rightarrow> string \<times> json \<Rightarrow> (string \<times> string) result" where
  "string_item field kv =
     (case snd kv of
        JStr s \<Rightarrow> Inr (fst kv, s)
      | _ \<Rightarrow> Inl (ValueError (field @ '' keys and values must be strings'')))"

definition string_map_value :: "json \<Rightarrow> string \<Rightarrow> (string \<times> string) list result" where
  "string_map_value v field =
     (if \<not> json_truthy v then Inr []
      else case v of
             JObj items \<Rightarrow> map_result (string_item field) items
           | _ \<Rightarrow> Inl (ValueError (field @ '' must be a mapping'')))"

definition string_map :: "row \<Rightarrow> string \<Rightarrow> (string \<times> string) list result" where
  "string_map r field = string_map_value (row_get r field) field"

definition CORE_FACT_KEYS :: "string list" where
  "CORE_FACT_KEYS =
     [''event_id'', ''timestamp'', ''ingest_timestamp'', ''source_object_key'', ''source_object_version'',
      ''line_ordinal'', ''transform_version'', ''country'', ''client_ip'', ''ip'', ''url'', ''custom_fields'',
      ''cmcd'', ''service_id'', ''domain'', ''raw_json'', ''waf_req_id'', ''ngwaf_bot_verification_state'']"

text \<open>\<open>d[k] = v\<close> on a Python dict: the position of an existing key is kept, a new key goes last.\<close>

fun dict_set :: "'k \<Rightarrow> 'v \<Rightarrow> ('k \<times> 'v) list \<Rightarrow> ('k \<times> 'v) list" where
  "dict_set k v [] = [(k, v)]"
| "dict_set k v ((k', v') # d) = (if k' = k then (k, v) # d else (k', v') # dict_set k v d)"

definition custom_value :: "json \<Rightarrow> bool" where
  "custom_value v =
     (case v of JStr s \<Rightarrow> s \<noteq> [] | JInt _ \<Rightarrow> True | JFloat _ \<Rightarrow> True | JBool _ \<Rightarrow> True | _ \<Rightarrow> False)"

definition extract_custom_fields :: "batch_env \<Rightarrow> row \<Rightarrow> (string \<times> string) list result" where
  "extract_custom_fields env r =
     ebind (string_map r ''custom_fields'') (\<lambda>base.
     Inr (foldl (\<lambda>d (k, v).
                   if k \<notin> set CORE_FACT_KEYS \<and> \<not> startswith k ''_'' \<and> custom_value v
                   then dict_set k (be_str env v) d else d) base r))"

subsection \<open>The rows of a domain\<close>

definition common_values :: "batch_env \<Rightarrow> high_scale_batch \<Rightarrow> row \<Rightarrow> string \<Rightarrow> ch_value list result" where
  "common_values env batch r uuid =
     ebind (ensure (identity_text_ok (row_get r ''event_id'')) (ValueError ''event_id must be a non-empty string'')) (\<lambda>_.
     ebind (timestamp_of env r ''timestamp'') (\<lambda>ts.
     ebind (event_uuid env (row_get r ''event_id'') ''event_id'') (\<lambda>eid.
     ebind (if map_of r ''ingest_timestamp'' \<noteq> None then timestamp_of env r ''ingest_timestamp'' else Inr ts) (\<lambda>its.
     ebind (required_string r ''source_object_key'' None) (\<lambda>sk.
     ebind (required_string r ''source_object_version'' None) (\<lambda>sv.
     ebind (required_nonnegative_int r ''line_ordinal'') (\<lambda>ln.
     ebind (required_string r ''transform_version'' None) (\<lambda>tv.
     Inr [CStr (hb_service_id batch), CStr eid, CTime ts, CTime its, CStr sk, CStr sv, CInt ln, CStr tv,
          CStr uuid, CStr ''visible'']))))))))"

definition row_matches_serving_domain :: "string \<Rightarrow> row \<Rightarrow> bool" where
  "row_matches_serving_domain domain r =
     (if domain \<in> {''rum_vitals'', ''rum_errors''} \<and> row_get r ''_rum_kind'' \<noteq> JNull
           \<and> row_get r ''_rum_kind'' \<noteq> JStr (if domain = ''rum_vitals'' then ''vitals'' else ''errors'')
      then False
      else if domain = ''rum_vitals''
        then (case row_get r ''metric_value'' of JInt _ \<Rightarrow> True | JFloat _ \<Rightarrow> True | _ \<Rightarrow> False)
      else if domain = ''rum_errors'' then identity_text_ok (row_get r ''error_message'')
      else True)"

text \<open>\<open>row.get(a) or row.get(b)\<close>\<close>

definition get_or :: "row \<Rightarrow> string \<Rightarrow> string \<Rightarrow> json" where
  "get_or r a b = (if json_truthy (row_get r a) then row_get r a else row_get r b)"

definition request_values :: "batch_env \<Rightarrow> high_scale_batch \<Rightarrow> string \<Rightarrow> row \<Rightarrow> ch_value list result" where
  "request_values env batch uuid r =
     ebind (common_values env batch r uuid) (\<lambda>common.
     ebind (required_string r ''country'' (Some [])) (\<lambda>country.
     ebind (required_string [(''client_ip'', get_or r ''client_ip'' ''ip'')] ''client_ip'' (Some [])) (\<lambda>ip.
     ebind (required_string r ''url'' (Some [])) (\<lambda>url.
     ebind (extract_custom_fields env r) (\<lambda>custom.
     ebind (string_map r ''cmcd'') (\<lambda>cmcd.
     Inr (common @ [CStr country, CStr ip, CStr url, CMap custom, CMap cmcd])))))))"

definition metric_number :: "json \<Rightarrow> rat result" where
  "metric_number v =
     (case v of JInt i \<Rightarrow> Inr (of_int i) | JFloat q \<Rightarrow> Inr q
      | _ \<Rightarrow> Inl (ValueError ''metric_value must be finite''))"

definition rum_tail :: "batch_env \<Rightarrow> string \<Rightarrow> row \<Rightarrow> ch_value list result" where
  "rum_tail env domain r =
     (if domain = ''rum_vitals'' then
        ebind (metric_number (row_get r ''metric_value'')) (\<lambda>q.
        ebind (required_string r ''metric_name'' None) (\<lambda>name.
        ebind (required_string r ''metric_rating'' (Some [])) (\<lambda>rating.
        ebind (required_string r ''pathname'' (Some [])) (\<lambda>path.
        Inr ([CStr name, CFloat q, CStr rating, CStr path] @ rum_environment_values env r False)))))
      else
        ebind (required_string r ''error_message'' (Some [])) (\<lambda>msg.
        ebind (required_string r ''error_file'' (Some [])) (\<lambda>file.
        ebind (required_string r ''pathname'' (Some [])) (\<lambda>path.
        Inr ([CStr msg, CStr file, CStr path] @ rum_environment_values env r True)))))"

definition rum_values :: "batch_env \<Rightarrow> high_scale_batch \<Rightarrow> string \<Rightarrow> row \<Rightarrow> ch_value list result" where
  "rum_values env batch uuid r =
     ebind (common_values env batch r uuid) (\<lambda>common.
     ebind (if row_get r ''request_event_id'' = JNull then Inr CNull
            else ebind (event_uuid env (row_get r ''request_event_id'') ''request_event_id'') (\<lambda>u. Inr (CStr u))) (\<lambda>req.
     ebind (required_string r ''client_id'' (Some [])) (\<lambda>client.
     ebind (rum_tail env (hb_domain batch) r) (\<lambda>tail.
     Inr (common @ [CStr client, req] @ tail)))))"

definition cmcd_values :: "batch_env \<Rightarrow> high_scale_batch \<Rightarrow> string \<Rightarrow> row \<Rightarrow> ch_value list result" where
  "cmcd_values env batch uuid r =
     ebind (ensure (identity_text_ok (row_get r ''request_event_id''))
              (ValueError ''request_event_id must be a non-empty string'')) (\<lambda>_.
     ebind (if json_truthy (row_get r ''projection_key'') then Inr (row_get r ''projection_key'')
            else ebind (build_cmcd_projection_key (be_sha_uuid env) [(''request_event_id'', row_get r ''request_event_id'')])
                   (\<lambda>k. Inr (JStr k))) (\<lambda>pk.
     ebind (event_uuid env pk ''projection_key'') (\<lambda>pu.
     ebind (event_uuid env (row_get r ''request_event_id'') ''request_event_id'') (\<lambda>ru.
     ebind (timestamp_of env r ''timestamp'') (\<lambda>ts.
     ebind (string_map_value (get_default r ''fields'' (row_get r ''cmcd'')) ''cmcd'') (\<lambda>cmcd.
     ebind (required_string r ''country'' (Some [])) (\<lambda>country.
     Inr [CStr (hb_service_id batch), CStr pu, CStr ru, CTime ts, CStr uuid, CStr ''visible'', CMap cmcd,
          CStr country, optional_asn (row_get r ''asn'')])))))))"

definition rows_for_domain :: "batch_env \<Rightarrow> high_scale_batch \<Rightarrow> string \<Rightarrow> ch_value list list result" where
  "rows_for_domain env batch uuid =
     (if hb_domain batch = ''request'' then map_result (request_values env batch uuid) (hb_rows batch)
      else if hb_domain batch \<in> {''rum_vitals'', ''rum_errors''} then map_result (rum_values env batch uuid) (hb_rows batch)
      else if hb_domain batch = ''cmcd'' then map_result (cmcd_values env batch uuid) (hb_rows batch)
      else Inr [])"

subsection \<open>What the mapping guarantees\<close>

text \<open>The width of a mapped row, and the columns the adapter selects a batch by.\<close>

definition batch_row_ok :: "high_scale_batch \<Rightarrow> string \<Rightarrow> string list \<Rightarrow> ch_value list \<Rightarrow> bool" where
  "batch_row_ok batch uuid columns vs \<longleftrightarrow>
     length vs = length columns
     \<and> ch_get (zip columns vs) ''service_id'' = CStr (hb_service_id batch)
     \<and> ch_get (zip columns vs) ''batch_id'' = CStr uuid"

lemma map_result_all:
  assumes "map_result f xs = Inr ys" and "\<And>x y. x \<in> set xs \<Longrightarrow> f x = Inr y \<Longrightarrow> P y"
  shows "list_all P ys"
  using assms
proof (induction xs arbitrary: ys)
  case (Cons x xs)
  then obtain y zs where "f x = Inr y" "map_result f xs = Inr zs" "ys = y # zs"
    by (auto simp: ebind_Inr_iff)
  moreover have "list_all P zs"
    by (rule Cons.IH [OF \<open>map_result f xs = Inr zs\<close>]) (auto intro: Cons.prems(2))
  ultimately show ?case using Cons.prems(2) [of x y] by simp
qed simp

lemma common_values_shape:
  assumes "common_values env batch r uuid = Inr vs"
  obtains e t i k v n w where
    "vs = [CStr (hb_service_id batch), CStr e, CTime t, CTime i, CStr k, CStr v, CInt n, CStr w, CStr uuid, CStr ''visible'']"
  using assms by (auto simp: common_values_def ebind_Inr_iff)

lemma request_values_ok:
  assumes "request_values env batch uuid r = Inr vs" and "map_of DOMAIN_COLUMNS ''request'' = Some columns"
  shows "batch_row_ok batch uuid columns vs"
  using assms
  by (auto simp: request_values_def ebind_Inr_iff batch_row_ok_def DOMAIN_COLUMNS_def COMMON_FACT_COLUMNS_def ch_get_def
      elim!: common_values_shape)

lemma rum_environment_values_length:
  "length (rum_environment_values env r b) = (if b then 11 else 9)"
  by (simp add: rum_environment_values_def RUM_ENV_TAIL_COLUMNS_def Let_def split: prod.splits)

lemma rum_tail_length:
  "rum_tail env d r = Inr vs \<Longrightarrow> length vs = (if d = ''rum_vitals'' then 13 else 14)"
  by (auto simp: rum_tail_def ebind_Inr_iff rum_environment_values_length split: if_splits)

lemma rum_values_ok:
  assumes "rum_values env batch uuid r = Inr vs" and "hb_domain batch \<in> {''rum_vitals'', ''rum_errors''}"
    and "map_of DOMAIN_COLUMNS (hb_domain batch) = Some columns"
  shows "batch_row_ok batch uuid columns vs"
  using assms
  by (auto simp: rum_values_def ebind_Inr_iff batch_row_ok_def DOMAIN_COLUMNS_def COMMON_FACT_COLUMNS_def ch_get_def
      RUM_ENV_TAIL_COLUMNS_def elim!: common_values_shape dest!: rum_tail_length)

lemma cmcd_values_ok:
  assumes "cmcd_values env batch uuid r = Inr vs" and "map_of DOMAIN_COLUMNS ''cmcd'' = Some columns"
  shows "batch_row_ok batch uuid columns vs"
  using assms
  by (auto simp: cmcd_values_def ebind_Inr_iff batch_row_ok_def DOMAIN_COLUMNS_def ch_get_def)

lemma domain_columns_domains:
  "map_of DOMAIN_COLUMNS d = Some columns \<Longrightarrow> d \<in> {''request'', ''rum_vitals'', ''rum_errors'', ''cmcd''}"
  by (auto simp: DOMAIN_COLUMNS_def split: if_splits)

lemma rows_for_domain_ok:
  assumes "rows_for_domain env batch uuid = Inr mapped" and "map_of DOMAIN_COLUMNS (hb_domain batch) = Some columns"
  shows "list_all (batch_row_ok batch uuid columns) mapped"
proof -
  from domain_columns_domains [OF assms(2)] consider
      "hb_domain batch = ''request''" | "hb_domain batch \<in> {''rum_vitals'', ''rum_errors''}" | "hb_domain batch = ''cmcd''"
    by blast
  then show ?thesis
  proof cases
    case 1
    with assms show ?thesis by (auto simp: rows_for_domain_def elim!: map_result_all intro: request_values_ok)
  next
    case 2
    then have "hb_domain batch \<noteq> ''request''" by auto
    with 2 assms show ?thesis
      by (simp add: rows_for_domain_def) (rule map_result_all, assumption, rule rum_values_ok, auto)
  next
    case 3
    with assms show ?thesis by (auto simp: rows_for_domain_def elim!: map_result_all intro: cmcd_values_ok)
  qed
qed

lemma rows_for_domain_length:
  assumes "rows_for_domain env batch uuid = Inr mapped" and "map_of DOMAIN_COLUMNS (hb_domain batch) \<noteq> None"
  shows "length mapped = length (hb_rows batch)"
proof -
  from assms(2) have "hb_domain batch \<in> {''request'', ''rum_vitals'', ''rum_errors'', ''cmcd''}"
    using domain_columns_domains by blast
  with assms(1) show ?thesis by (auto simp: rows_for_domain_def dest: map_result_length)
qed

text \<open>Every fact table is allowlisted, no two domains share one, and none is the publication table.\<close>

lemma domain_tables_ok:
  assumes "map_of DOMAIN_TABLES d = Some table"
  shows "table \<in> set CLICKHOUSE_HIGH_SCALE_TABLES" and "table \<in> set CLICKHOUSE_ALLOWED_TABLES"
    and "table \<noteq> ''high_scale_batch_publications''"
  using assms by (auto simp: DOMAIN_TABLES_def CLICKHOUSE_HIGH_SCALE_TABLES_def CLICKHOUSE_ALLOWED_TABLES_def split: if_splits)

lemma domain_tables_inj:
  "map_of DOMAIN_TABLES d = Some table \<Longrightarrow> map_of DOMAIN_TABLES d' = Some table \<Longrightarrow> d = d'"
  by (auto simp: DOMAIN_TABLES_def split: if_splits)

lemma domain_columns_ok:
  assumes "map_of DOMAIN_COLUMNS d = Some columns"
  shows "columns \<noteq> []" and "distinct columns" and "set columns \<subseteq> set CLICKHOUSE_HIGH_SCALE_COLUMNS"
  using assms
  by (auto simp: DOMAIN_COLUMNS_def COMMON_FACT_COLUMNS_def RUM_ENV_TAIL_COLUMNS_def CLICKHOUSE_HIGH_SCALE_COLUMNS_def
      split: if_splits)

lemma domain_columns_tables: "map_of DOMAIN_TABLES d = Some table \<Longrightarrow> \<exists>columns. map_of DOMAIN_COLUMNS d = Some columns"
  by (auto simp: DOMAIN_TABLES_def DOMAIN_COLUMNS_def split: if_splits)

text \<open>A request event without a client address does not map, although the call passes a default.\<close>

lemma request_values_without_ip:
  assumes "\<not> json_truthy (row_get r ''client_ip'')" and "row_get r ''ip'' = JNull"
  shows "\<exists>e. request_values env batch uuid r = Inl e"
proof -
  from assms have "required_string [(''client_ip'', get_or r ''client_ip'' ''ip'')] ''client_ip'' (Some [])
      = Inl (ValueError ''client_ip must be a string'')"
    by (simp add: required_string_def get_or_def get_default_def)
  then show ?thesis
    by (cases "common_values env batch r uuid"; cases "required_string r ''country'' (Some [])")
      (simp_all add: request_values_def)
qed

end
