(* ===== verification/Control_Plane.thy ===== *)
theory Control_Plane
  imports Manifests
begin

text \<open>
  The PostgreSQL control plane (\<open>backend/high_scale/postgres_control/control_plane.py\<close>):
  ownership epochs, source cursors, the source object ledger, archive manifests, serving
  batch manifests and deletion authorizations.

  The database is a record of tables; a table is the list of its rows. Every operation is
  one transaction of type \<open>control_db \<Rightarrow> ('a \<times> control_db) result\<close>: an exception leaves
  the database as it was. \<open>SELECT ... FOR UPDATE\<close> takes row locks, so transactions on one
  service are serialised and an interleaving of workers is a sequence of operations.
  Parameters: \<open>clk\<close> is the database's \<open>clock_timestamp()\<close> during the transaction, \<open>observed\<close> is
  \<open>_observed_utc(now)\<close>, \<open>sha\<close> the hexadecimal SHA-256. The constraints of \<open>SCHEMA_DDL\<close> that the
  Python code does not check itself raise \<open>IntegrityError\<close>. Text is ordered by character code
  (the C collation); \<open>BIGINT\<close> counters are integers. The column \<open>sources_json\<close> holds the document
  that its text encodes.
\<close>

subsection \<open>Rows\<close>

datatype source_status =
  Discovered | Claimed | Appended | Archived | Acknowledged | SourceDeleted | SourceMissing

definition status_text :: "source_status \<Rightarrow> string" where
  "status_text s = (case s of Discovered \<Rightarrow> ''discovered'' | Claimed \<Rightarrow> ''claimed'' | Appended \<Rightarrow> ''appended''
     | Archived \<Rightarrow> ''archived'' | Acknowledged \<Rightarrow> ''acknowledged'' | SourceDeleted \<Rightarrow> ''source_deleted''
     | SourceMissing \<Rightarrow> ''source_missing'')"

record owner_epoch_record =
  oe_service_id :: string
  oe_owner_epoch :: int
  oe_current_owner :: string
  oe_previous_owner :: "string option"
  oe_source_cursor :: string
  oe_drain_complete :: bool
  oe_cutover_committed :: bool
  oe_rollback_allowed :: bool

record ownership_row = owner_epoch_record +
  oe_updated_at :: timestamp

record source_cursor_row =
  sc_service_id :: string
  sc_domain :: string
  sc_source_cursor :: string
  sc_reinspection_cursor :: string
  sc_forward_pages :: int
  sc_updated_at :: timestamp

record partition_cursor_row =
  pc_service_id :: string
  pc_domain :: string
  pc_partition_id :: string
  pc_source_cursor :: string
  pc_updated_at :: timestamp

record source_object_record =
  src_object_id :: string
  src_service_id :: string
  src_domain :: string
  src_object_key :: string
  src_checksum :: string
  src_size_bytes :: int
  src_version :: "string option"
  src_status :: source_status
  src_owner :: "string option"
  src_lease_until :: "timestamp option"
  src_lease_generation :: int
  src_archive_manifest_id :: "string option"
  src_owner_epoch :: "int option"
  src_malformed_rows :: int
  src_accepted_rows :: int
  src_last_error :: "string option"

record source_object_row = source_object_record +
  src_discovered_at :: timestamp
  src_updated_at :: timestamp

record archive_manifest_row =
  mr_manifest_id :: string
  mr_service_id :: string
  mr_domain :: string
  mr_source_key :: string
  mr_source_checksum :: string
  mr_source_size :: int
  mr_source_version :: "string option"
  mr_artifact_uri :: string
  mr_artifact_checksum :: string
  mr_artifact_size :: int
  mr_row_count :: int
  mr_byte_count :: int
  mr_canonical_digest :: string
  mr_schema_version :: string
  mr_transform_version :: string
  mr_coverage_start :: timestamp
  mr_coverage_end :: timestamp
  mr_retention_deadline :: timestamp
  mr_deletion_authorization_deadline :: timestamp
  mr_archive_epoch :: int
  mr_owner_epoch :: int
  mr_state :: archive_state
  mr_sources_json :: "json option"
  mr_archive_expired_at :: "timestamp option"
  mr_updated_at :: timestamp

record manifest_source_row =
  ms_manifest_id :: string
  ms_source_key :: string
  ms_source_checksum :: string
  ms_source_size :: int
  ms_source_version :: "string option"
  ms_row_start :: int
  ms_row_count :: int
  ms_deletion_deadline :: timestamp

datatype publication_status = Pending | Visible

record batch_manifest =
  bm_batch_id :: string
  bm_service_id :: string
  bm_domain :: string
  bm_generation :: string
  bm_digest :: string
  bm_expected_rows :: int
  bm_status :: publication_status
  bm_visible_rows :: int

record publication_row = batch_manifest +
  bm_updated_at :: timestamp

record deletion_authorization =
  da_object_id :: string
  da_manifest_id :: string
  da_owner_epoch :: int
  da_authorized_at :: timestamp

record deletion_authorization_row = deletion_authorization +
  da_consumed_at :: "timestamp option"

record source_claim =
  cl_object_id :: string
  cl_claimed :: bool
  cl_lease_generation :: int

record archive_manifest_record =
  amr_manifest :: archive_manifest
  amr_state :: archive_state
  amr_owner_epoch :: int

record control_db =
  ownership :: "ownership_row table"
  source_cursors :: "source_cursor_row table"
  partition_cursors :: "partition_cursor_row table"
  source_objects :: "source_object_row table"
  archive_manifests :: "archive_manifest_row table"
  manifest_sources :: "manifest_source_row table"
  publication_manifests :: "publication_row table"
  deletion_authorizations :: "deletion_authorization_row table"

text \<open>\<open>create_schema\<close> on an empty database.\<close>

definition create_schema :: control_db where
  "create_schema = \<lparr>ownership = [], source_cursors = [], partition_cursors = [], source_objects = [],
     archive_manifests = [], manifest_sources = [], publication_manifests = [], deletion_authorizations = []\<rparr>"

definition INITIAL_SOURCE_CURSOR :: string where
  "INITIAL_SOURCE_CURSOR = ''__initial__''"

definition RUM_SOURCE_DOMAINS :: "string list" where
  "RUM_SOURCE_DOMAINS = [''rum_vitals'', ''rum_errors'']"

type_synonym 'a txn = "control_db \<Rightarrow> ('a \<times> control_db) result"

subsection \<open>Row decoding and shared checks\<close>

definition owner_from_row :: "ownership_row \<Rightarrow> owner_epoch_record" where
  "owner_from_row r =
     \<lparr>oe_service_id = oe_service_id r, oe_owner_epoch = oe_owner_epoch r, oe_current_owner = oe_current_owner r,
      oe_previous_owner = oe_previous_owner r, oe_source_cursor = oe_source_cursor r,
      oe_drain_complete = oe_drain_complete r, oe_cutover_committed = oe_cutover_committed r,
      oe_rollback_allowed = oe_rollback_allowed r\<rparr>"

definition source_from_row :: "source_object_row \<Rightarrow> source_object_record" where
  "source_from_row r =
     \<lparr>src_object_id = src_object_id r, src_service_id = src_service_id r, src_domain = src_domain r,
      src_object_key = src_object_key r, src_checksum = src_checksum r, src_size_bytes = src_size_bytes r,
      src_version = src_version r, src_status = src_status r, src_owner = src_owner r,
      src_lease_until = src_lease_until r, src_lease_generation = src_lease_generation r,
      src_archive_manifest_id = src_archive_manifest_id r, src_owner_epoch = src_owner_epoch r,
      src_malformed_rows = src_malformed_rows r, src_accepted_rows = src_accepted_rows r,
      src_last_error = src_last_error r\<rparr>"

definition parse_iso_or_dt :: "(string \<Rightarrow> timestamp result) \<Rightarrow> json \<Rightarrow> timestamp \<Rightarrow> timestamp result" where
  "parse_iso_or_dt fromisoformat v fallback = (if v = JNull then Inr fallback else ebind (as_str v) fromisoformat)"

definition entry_from_item :: "(string \<Rightarrow> timestamp result) \<Rightarrow> timestamp \<Rightarrow> json \<Rightarrow> archive_source_entry result" where
  "entry_from_item fromisoformat fallback_deadline item =
     ebind (as_obj item) (\<lambda>r.
     ebind (item_str r ''key'') (\<lambda>key.
     ebind (item_str r ''checksum'') (\<lambda>cs.
     ebind (item_int r ''size_bytes'') (\<lambda>sz.
     ebind (item_int r ''row_start'') (\<lambda>rs.
     ebind (item_int r ''row_count'') (\<lambda>rc.
     ebind (parse_iso_or_dt fromisoformat (row_get r ''deletion_deadline'') fallback_deadline) (\<lambda>dd.
     ebind (as_opt_str (row_get r ''version'')) (\<lambda>v.
       Inr \<lparr>se_key = key, se_checksum = cs, se_size_bytes = sz, se_row_start = rs, se_row_count = rc,
            se_deletion_deadline = dd, se_version = v\<rparr>))))))))"

definition entry_from_source_row :: "timestamp \<Rightarrow> manifest_source_row \<Rightarrow> archive_source_entry" where
  "entry_from_source_row fallback_deadline sr =
     \<lparr>se_key = ms_source_key sr, se_checksum = ms_source_checksum sr, se_size_bytes = ms_source_size sr,
      se_row_start = ms_row_start sr, se_row_count = ms_row_count sr,
      se_deletion_deadline = fallback_deadline, se_version = ms_source_version sr\<rparr>"

definition archive_from_row ::
  "(string \<Rightarrow> timestamp result) \<Rightarrow> archive_manifest_row \<Rightarrow> manifest_source_row list \<Rightarrow> archive_manifest_record result" where
  "archive_from_row fromisoformat row source_rows =
     (let source = \<lparr>so_service_id = mr_service_id row, so_domain = mr_domain row, so_object_key = mr_source_key row,
                    so_checksum = mr_source_checksum row, so_size_bytes = mr_source_size row,
                    so_version = mr_source_version row\<rparr>;
          artifact = \<lparr>art_uri = mr_artifact_uri row, art_checksum = mr_artifact_checksum row,
                      art_size_bytes = mr_artifact_size row, art_row_count = mr_row_count row,
                      art_byte_count = mr_byte_count row, art_canonical_digest = mr_canonical_digest row,
                      art_schema_version = mr_schema_version row, art_transform_version = mr_transform_version row\<rparr>;
          fallback_deadline = mr_deletion_authorization_deadline row
      in ebind (case mr_sources_json row of
                  Some (JList items) \<Rightarrow> map_result (entry_from_item fromisoformat fallback_deadline) items
                | Some _ \<Rightarrow> Inl (TypeError ''sources_json is not a list'')
                | None \<Rightarrow> Inr (map (entry_from_source_row fallback_deadline) source_rows)) (\<lambda>resolved_sources.
         ebind (mk_manifest (mr_manifest_id row) (Some source) (Some artifact) (Some (mr_coverage_start row))
                  (Some (mr_coverage_end row)) (Some (mr_retention_deadline row))
                  (Some (mr_deletion_authorization_deadline row)) (Some (mr_archive_epoch row))
                  (Some (so_service_id source)) (Some (so_domain source)) (Some resolved_sources)) (\<lambda>manifest.
         Inr \<lparr>amr_manifest = manifest, amr_state = mr_state row, amr_owner_epoch = mr_owner_epoch row\<rparr>)))"

definition check_epoch_value :: "int \<Rightarrow> int \<Rightarrow> unit result" where
  "check_epoch_value actual expected =
     ensure (actual = expected)
       (ValueError ''owner epoch mismatch: stale owner epoch; owner epoch does not match fence'')"

definition source_object_id :: "(string \<Rightarrow> string) \<Rightarrow> string \<Rightarrow> string \<Rightarrow> string \<Rightarrow> string \<Rightarrow> string" where
  "source_object_id sha service_id domain object_key checksum =
     sha (join_with [CHR 0x00] [service_id, domain, object_key, checksum])"

definition require_text :: "string \<Rightarrow> string \<Rightarrow> unit result" where
  "require_text v name = ensure (v \<noteq> []) (ValueError (name @ '' is required''))"

fun require_texts :: "(string \<times> string) list \<Rightarrow> unit result" where
  "require_texts [] = Inr ()"
| "require_texts ((name, v) # others) = ebind (require_text v name) (\<lambda>_. require_texts others)"

definition fetch_required :: "'r option \<Rightarrow> string \<Rightarrow> 'r result" where
  "fetch_required row key = (case row of None \<Rightarrow> Inl (KeyError key) | Some r \<Rightarrow> Inr r)"

definition owner_row :: "control_db \<Rightarrow> string \<Rightarrow> ownership_row option" where
  "owner_row db service_id = fetchone (sql_select (\<lambda>r. oe_service_id r = service_id) (ownership db))"

definition source_row :: "control_db \<Rightarrow> string \<Rightarrow> string \<Rightarrow> source_object_row option" where
  "source_row db service_id object_key =
     fetchone (sql_select (\<lambda>r. (src_service_id r, src_object_key r) = (service_id, object_key)) (source_objects db))"

definition manifest_row :: "control_db \<Rightarrow> string \<Rightarrow> archive_manifest_row option" where
  "manifest_row db manifest_id =
     fetchone (sql_select (\<lambda>r. mr_manifest_id r = manifest_id) (archive_manifests db))"

definition get_owner :: "control_db \<Rightarrow> string \<Rightarrow> owner_epoch_record result" where
  "get_owner db service_id =
     ebind (fetch_required (owner_row db service_id) service_id) (\<lambda>r. Inr (owner_from_row r))"

definition fenced_owner :: "control_db \<Rightarrow> string \<Rightarrow> int \<Rightarrow> string option \<Rightarrow> string \<Rightarrow> owner_epoch_record result" where
  "fenced_owner db service_id expected_owner_epoch expected_owner fence_name =
     ebind (get_owner db service_id) (\<lambda>owner.
     ebind (check_epoch_value (oe_owner_epoch owner) expected_owner_epoch) (\<lambda>_.
     ebind (ensure (case expected_owner of None \<Rightarrow> True | Some w \<Rightarrow> oe_current_owner owner = w)
              (ValueError (''owner does not match '' @ fence_name @ '' fence''))) (\<lambda>_.
     Inr owner)))"

definition locked_source :: "control_db \<Rightarrow> string \<Rightarrow> string \<Rightarrow> source_object_record result" where
  "locked_source db service_id object_key =
     ebind (fetch_required (source_row db service_id object_key) object_key) (\<lambda>r. Inr (source_from_row r))"

definition get_archive_manifest ::
  "(string \<Rightarrow> timestamp result) \<Rightarrow> control_db \<Rightarrow> string \<Rightarrow> archive_manifest_record result" where
  "get_archive_manifest fromisoformat db manifest_id =
     ebind (fetch_required (manifest_row db manifest_id) manifest_id) (\<lambda>r. archive_from_row fromisoformat r [])"

definition upsert_domain_cursor ::
  "timestamp \<Rightarrow> string \<Rightarrow> string \<Rightarrow> string \<Rightarrow> string option \<Rightarrow> int option \<Rightarrow> control_db \<Rightarrow> control_db result" where
  "upsert_domain_cursor clk service_id domain cursor reinspection_cursor forward_pages db =
     (let matches = (\<lambda>r. (sc_service_id r, sc_domain r) = (service_id, domain));
          exists_row = sql_select matches (source_cursors db) \<noteq> []
      in case (reinspection_cursor, forward_pages) of
           (None, None) \<Rightarrow>
             Inr (db\<lparr>source_cursors :=
               if exists_row
               then sql_update matches (\<lambda>r. r\<lparr>sc_source_cursor := cursor, sc_updated_at := clk\<rparr>) (source_cursors db)
               else sql_insert \<lparr>sc_service_id = service_id, sc_domain = domain, sc_source_cursor = cursor,
                                sc_reinspection_cursor = INITIAL_SOURCE_CURSOR, sc_forward_pages = 0,
                                sc_updated_at = clk\<rparr> (source_cursors db)\<rparr>)
         | (Some rc, Some fp) \<Rightarrow>
             (let rc' = (if rc = [] then INITIAL_SOURCE_CURSOR else rc)
              in ebind (ensure (0 \<le> fp) (IntegrityError ''forward_pages_since_reinspection'')) (\<lambda>_.
                 Inr (db\<lparr>source_cursors :=
                   if exists_row
                   then sql_update matches
                          (\<lambda>r. r\<lparr>sc_source_cursor := cursor, sc_reinspection_cursor := rc', sc_forward_pages := fp,
                                 sc_updated_at := clk\<rparr>) (source_cursors db)
                   else sql_insert \<lparr>sc_service_id = service_id, sc_domain = domain, sc_source_cursor = cursor,
                                    sc_reinspection_cursor = rc', sc_forward_pages = fp,
                                    sc_updated_at = clk\<rparr> (source_cursors db)\<rparr>)))
         | _ \<Rightarrow> Inl (ValueError ''reinspection cursor and page count must be updated together''))"

subsection \<open>Ownership and cursors\<close>

definition initialize_owner :: "timestamp \<Rightarrow> string \<Rightarrow> string \<Rightarrow> string \<Rightarrow> owner_epoch_record txn" where
  "initialize_owner clk service_id owner cursor db =
     ebind (require_texts [(''service_id'', service_id), (''owner'', owner), (''source_cursor'', cursor)]) (\<lambda>_.
     (let db' = (case owner_row db service_id of
                   Some _ \<Rightarrow> db
                 | None \<Rightarrow> db\<lparr>ownership := sql_insert
                     \<lparr>oe_service_id = service_id, oe_owner_epoch = 1, oe_current_owner = owner,
                      oe_previous_owner = None, oe_source_cursor = cursor, oe_drain_complete = False,
                      oe_cutover_committed = False, oe_rollback_allowed = False, oe_updated_at = clk\<rparr>
                     (ownership db)\<rparr>)
      in ebind (get_owner db' service_id) (\<lambda>current_row. Inr (current_row, db'))))"

definition owner_op :: "string \<Rightarrow> owner_epoch_record txn" where
  "owner_op service_id db =
     ebind (require_text service_id ''service_id'') (\<lambda>_.
     ebind (get_owner db service_id) (\<lambda>current_row. Inr (current_row, db)))"

definition advance_source_cursor ::
  "timestamp \<Rightarrow> string \<Rightarrow> string \<Rightarrow> string \<Rightarrow> int \<Rightarrow> string option \<Rightarrow> string option \<Rightarrow> int option
     \<Rightarrow> owner_epoch_record txn" where
  "advance_source_cursor clk service_id cursor expected_owner expected_owner_epoch domain
       reinspection_cursor forward_pages db =
     ebind (require_texts [(''source_cursor'', cursor), (''expected_owner'', expected_owner)]) (\<lambda>_.
     ebind (ensure (case forward_pages of None \<Rightarrow> True | Some n \<Rightarrow> 0 \<le> n)
              (ValueError ''forward_pages_since_reinspection cannot be negative'')) (\<lambda>_.
     ebind (fenced_owner db service_id expected_owner_epoch (Some expected_owner) ''cursor'') (\<lambda>current.
     case domain of
       Some d \<Rightarrow>
         ebind (require_text d ''domain'') (\<lambda>_.
         ebind (upsert_domain_cursor clk service_id d cursor reinspection_cursor forward_pages db) (\<lambda>db'.
         Inr (current, db')))
     | None \<Rightarrow>
         (let db' = db\<lparr>ownership := sql_update
                (\<lambda>r. oe_service_id r = service_id \<and> oe_owner_epoch r = expected_owner_epoch
                     \<and> oe_current_owner r = expected_owner)
                (\<lambda>r. r\<lparr>oe_source_cursor := cursor, oe_updated_at := clk\<rparr>) (ownership db)\<rparr>
          in ebind (get_owner db' service_id) (\<lambda>current_row. Inr (current_row, db'))))))"

definition cursor_row :: "control_db \<Rightarrow> string \<Rightarrow> string \<Rightarrow> source_cursor_row option" where
  "cursor_row db service_id domain =
     fetchone (sql_select (\<lambda>r. (sc_service_id r, sc_domain r) = (service_id, domain)) (source_cursors db))"

definition source_reinspection_state_for :: "string \<Rightarrow> string \<Rightarrow> (string \<times> int) txn" where
  "source_reinspection_state_for service_id domain db =
     ebind (require_texts [(''service_id'', service_id), (''domain'', domain)]) (\<lambda>_.
     ebind (ensure (domain \<in> set RUM_SOURCE_DOMAINS)
              (ValueError ''only RUM source domains support reinspection'')) (\<lambda>_.
     Inr (case cursor_row db service_id domain of
            None \<Rightarrow> (INITIAL_SOURCE_CURSOR, 0)
          | Some r \<Rightarrow> (sc_reinspection_cursor r, sc_forward_pages r), db)))"

definition advance_reinspection_state ::
  "timestamp \<Rightarrow> string \<Rightarrow> string \<Rightarrow> string \<Rightarrow> int \<Rightarrow> string \<Rightarrow> int \<Rightarrow> unit txn" where
  "advance_reinspection_state clk service_id domain reinspection_cursor forward_pages expected_owner
       expected_owner_epoch db =
     ebind (require_texts [(''service_id'', service_id), (''domain'', domain),
              (''reinspection_cursor'', reinspection_cursor), (''expected_owner'', expected_owner)]) (\<lambda>_.
     ebind (ensure (domain \<in> set RUM_SOURCE_DOMAINS)
              (ValueError ''only RUM source domains support reinspection'')) (\<lambda>_.
     ebind (ensure (0 \<le> forward_pages)
              (ValueError ''forward_pages_since_reinspection cannot be negative'')) (\<lambda>_.
     ebind (fenced_owner db service_id expected_owner_epoch (Some expected_owner) ''reinspection cursor'') (\<lambda>_.
     ebind (ensure (cursor_row db service_id domain \<noteq> None)
              (RuntimeError ''RUM reinspection cursor state disappeared during update'')) (\<lambda>_.
     Inr ((), db\<lparr>source_cursors := sql_update (\<lambda>r. (sc_service_id r, sc_domain r) = (service_id, domain))
            (\<lambda>r. r\<lparr>sc_reinspection_cursor := reinspection_cursor, sc_forward_pages := forward_pages,
                   sc_updated_at := clk\<rparr>) (source_cursors db)\<rparr>))))))"

definition source_cursor_for :: "string \<Rightarrow> string \<Rightarrow> string txn" where
  "source_cursor_for service_id domain db =
     ebind (require_text domain ''domain'') (\<lambda>_.
     Inr (case cursor_row db service_id domain of None \<Rightarrow> INITIAL_SOURCE_CURSOR | Some r \<Rightarrow> sc_source_cursor r, db))"

definition source_op :: "string \<Rightarrow> string \<Rightarrow> source_object_record txn" where
  "source_op service_id object_key db = ebind (locked_source db service_id object_key) (\<lambda>s. Inr (s, db))"

definition expired_claims :: "timestamp \<Rightarrow> string \<Rightarrow> string \<Rightarrow> int \<Rightarrow> source_object_record list txn" where
  "expired_claims clk service_id domain limit db =
     ebind (require_texts [(''service_id'', service_id), (''domain'', domain)]) (\<lambda>_.
     ebind (ensure (0 < limit) (ValueError ''limit must be positive'')) (\<lambda>_.
     Inr (map source_from_row (take (nat limit)
            (sort_key (\<lambda>r. (the_default 0 (src_lease_until r), src_object_key r))
              (sql_select (\<lambda>r. src_service_id r = service_id \<and> src_domain r = domain \<and> src_status r = Claimed
                   \<and> (case src_lease_until r of None \<Rightarrow> False | Some t \<Rightarrow> t \<le> clk)) (source_objects db)))), db)))"

definition begin_drain :: "timestamp \<Rightarrow> string \<Rightarrow> string \<Rightarrow> owner_epoch_record txn" where
  "begin_drain clk service_id expected_owner db =
     ebind (require_text expected_owner ''expected_owner'') (\<lambda>_.
     ebind (get_owner db service_id) (\<lambda>current.
     ebind (ensure (oe_current_owner current = expected_owner \<and> \<not> oe_cutover_committed current)
              (ValueError ''owner does not match drain fence'')) (\<lambda>_.
     (let db' = db\<lparr>ownership := sql_update (\<lambda>r. oe_service_id r = service_id)
            (\<lambda>r. r\<lparr>oe_drain_complete := False, oe_rollback_allowed := False, oe_updated_at := clk\<rparr>) (ownership db)\<rparr>
      in ebind (get_owner db' service_id) (\<lambda>current_row. Inr (current_row, db'))))))"

definition rollback :: "timestamp \<Rightarrow> string \<Rightarrow> int \<Rightarrow> owner_epoch_record txn" where
  "rollback clk service_id expected_epoch db =
     ebind (fenced_owner db service_id expected_epoch None ''owner'') (\<lambda>current.
     case oe_previous_owner current of
       None \<Rightarrow> Inl (ValueError ''rollback fence is not satisfied'')
     | Some previous \<Rightarrow>
         ebind (ensure (oe_rollback_allowed current \<and> previous \<noteq> [])
                  (ValueError ''rollback fence is not satisfied'')) (\<lambda>_.
         (let db' = db\<lparr>ownership := sql_update (\<lambda>r. oe_service_id r = service_id)
                (\<lambda>r. r\<lparr>oe_owner_epoch := oe_owner_epoch r + 1,
                       oe_current_owner := the_default [] (oe_previous_owner r), oe_previous_owner := None,
                       oe_cutover_committed := False, oe_rollback_allowed := False, oe_updated_at := clk\<rparr>)
                (ownership db)\<rparr>
          in ebind (get_owner db' service_id) (\<lambda>current_row. Inr (current_row, db')))))"

subsection \<open>Source objects\<close>

definition discover_source ::
  "(string \<Rightarrow> string) \<Rightarrow> timestamp \<Rightarrow> string \<Rightarrow> string \<Rightarrow> string \<Rightarrow> string \<Rightarrow> int \<Rightarrow> string option \<Rightarrow> string \<Rightarrow> int
     \<Rightarrow> source_object_record txn" where
  "discover_source sha clk service_id domain object_key checksum size_bytes version expected_owner
       expected_owner_epoch db =
     ebind (require_texts [(''service_id'', service_id), (''domain'', domain), (''object_key'', object_key),
              (''checksum'', checksum)]) (\<lambda>_.
     ebind (ensure (0 \<le> size_bytes) (ValueError ''size_bytes must be non-negative'')) (\<lambda>_.
     ebind (require_text expected_owner ''expected_owner'') (\<lambda>_.
     ebind (ensure (0 < expected_owner_epoch) (ValueError ''owner epoch must be positive'')) (\<lambda>_.
     (let object_id = source_object_id sha service_id domain object_key checksum
      in ebind (fenced_owner db service_id expected_owner_epoch (Some expected_owner) ''source discovery'') (\<lambda>_.
         ebind (case source_row db service_id object_key of
                  Some _ \<Rightarrow> Inr db
                | None \<Rightarrow>
                    if sql_select (\<lambda>r. src_object_id r = object_id) (source_objects db) \<noteq> []
                    then Inl (IntegrityError ''high_scale_source_objects_pkey'')
                    else Inr (db\<lparr>source_objects := sql_insert
                      \<lparr>src_object_id = object_id, src_service_id = service_id, src_domain = domain,
                       src_object_key = object_key, src_checksum = checksum, src_size_bytes = size_bytes,
                       src_version = version, src_status = Discovered, src_owner = None, src_lease_until = None,
                       src_lease_generation = 0, src_archive_manifest_id = None, src_owner_epoch = None,
                       src_malformed_rows = 0, src_accepted_rows = 0, src_last_error = None,
                       src_discovered_at = clk, src_updated_at = clk\<rparr> (source_objects db)\<rparr>)) (\<lambda>db'.
         case source_row db' service_id object_key of
           None \<Rightarrow> Inl (RuntimeError ''source discovery insert did not produce a row'')
         | Some row \<Rightarrow>
             (let source = source_from_row row
              in ebind (ensure (src_checksum source = checksum \<and> src_version source = version)
                          (ValueError (''source identity changed for '' @ object_key))) (\<lambda>_.
                 Inr (source, db')))))))))) "

definition lease_active :: "timestamp option \<Rightarrow> timestamp \<Rightarrow> bool" where
  "lease_active lease observed = (case lease of None \<Rightarrow> False | Some t \<Rightarrow> observed < t)"

definition claimable :: "source_status \<Rightarrow> bool" where
  "claimable s \<longleftrightarrow> s = Discovered \<or> s = Claimed"

definition claim_source ::
  "timestamp \<Rightarrow> string \<Rightarrow> string \<Rightarrow> string \<Rightarrow> string \<Rightarrow> int \<Rightarrow> duration \<Rightarrow> timestamp \<Rightarrow> source_claim txn" where
  "claim_source clk service_id object_key worker_id expected_owner expected_owner_epoch lease observed db =
     ebind (require_texts [(''worker_id'', worker_id), (''expected_owner'', expected_owner)]) (\<lambda>_.
     ebind (ensure (0 < expected_owner_epoch \<and> 0 < lease)
              (ValueError ''owner epoch and lease duration must be positive'')) (\<lambda>_.
     ebind (fenced_owner db service_id expected_owner_epoch (Some expected_owner) ''source claim'') (\<lambda>_.
     ebind (locked_source db service_id object_key) (\<lambda>source.
     ebind (ensure (src_status source \<noteq> SourceDeleted)
              (ValueError (''source object is already deleted: '' @ object_key))) (\<lambda>_.
     ebind (ensure (claimable (src_status source))
              (ValueError (''source object is not claimable: '' @ object_key))) (\<lambda>_.
     if lease_active (src_lease_until source) observed
     then Inr (\<lparr>cl_object_id = src_object_id source, cl_claimed = (src_owner source = Some worker_id),
                cl_lease_generation = src_lease_generation source\<rparr>, db)
     else
       (let generation = src_lease_generation source + 1
        in Inr (\<lparr>cl_object_id = src_object_id source, cl_claimed = True, cl_lease_generation = generation\<rparr>,
                db\<lparr>source_objects := sql_update (\<lambda>r. src_object_id r = src_object_id source)
                  (\<lambda>r. r\<lparr>src_status := Claimed, src_owner := Some worker_id, src_lease_until := Some (observed + lease),
                         src_lease_generation := generation, src_owner_epoch := Some expected_owner_epoch,
                         src_updated_at := clk\<rparr>) (source_objects db)\<rparr>))))))))"

text \<open>The loop of \<open>claim_sources_batch\<close>: rows the worker already holds, and keys free to take.\<close>

definition claim_candidates :: "string \<Rightarrow> string list \<Rightarrow> control_db \<Rightarrow> source_object_row list" where
  "claim_candidates service_id object_keys db =
     filter (\<lambda>r. claimable (src_status r))
       (sql_select (\<lambda>r. src_service_id r = service_id \<and> src_object_key r \<in> set object_keys) (source_objects db))"

definition held_rows :: "string \<Rightarrow> timestamp \<Rightarrow> source_object_row list \<Rightarrow> source_object_row list" where
  "held_rows worker_id observed rows =
     filter (\<lambda>r. lease_active (src_lease_until r) observed \<and> src_owner r = Some worker_id) rows"

definition keys_to_claim :: "timestamp \<Rightarrow> source_object_row list \<Rightarrow> string list" where
  "keys_to_claim observed rows = map src_object_key (filter (\<lambda>r. \<not> lease_active (src_lease_until r) observed) rows)"

definition claim_keys ::
  "timestamp \<Rightarrow> string \<Rightarrow> string list \<Rightarrow> string \<Rightarrow> timestamp \<Rightarrow> int \<Rightarrow> control_db \<Rightarrow> control_db" where
  "claim_keys clk service_id keys worker_id lease_until expected_owner_epoch db =
     db\<lparr>source_objects := sql_update (\<lambda>r. src_service_id r = service_id \<and> src_object_key r \<in> set keys)
       (\<lambda>r. r\<lparr>src_status := Claimed, src_owner := Some worker_id, src_lease_until := Some lease_until,
              src_lease_generation := src_lease_generation r + 1,
              src_owner_epoch := Some expected_owner_epoch, src_updated_at := clk\<rparr>) (source_objects db)\<rparr>"

definition claim_sources_batch ::
  "timestamp \<Rightarrow> string \<Rightarrow> string list \<Rightarrow> string \<Rightarrow> duration \<Rightarrow> int \<Rightarrow> string option \<Rightarrow> timestamp
     \<Rightarrow> source_object_record list txn" where
  "claim_sources_batch clk service_id object_keys worker_id lease expected_owner_epoch expected_owner observed db =
     ebind (require_texts [(''service_id'', service_id), (''worker_id'', worker_id)]) (\<lambda>_.
     ebind (ensure (0 < expected_owner_epoch \<and> 0 < lease)
              (ValueError ''owner epoch and lease duration must be positive'')) (\<lambda>_.
     ebind (fenced_owner db service_id expected_owner_epoch expected_owner ''source claim'') (\<lambda>_.
     if object_keys = [] then Inr ([], db)
     else
       (let rows = claim_candidates service_id object_keys db;
            held = map source_from_row (held_rows worker_id observed rows);
            keys = keys_to_claim observed rows
        in if keys = [] then Inr (held, db)
           else
             (let db' = claim_keys clk service_id keys worker_id (observed + lease) expected_owner_epoch db
              in Inr (held @ map source_from_row (sql_select
                        (\<lambda>r. src_service_id r = service_id \<and> src_object_key r \<in> set keys) (source_objects db')),
                      db'))))))"

definition mark_source_missing ::
  "string \<Rightarrow> string \<Rightarrow> string \<Rightarrow> int \<Rightarrow> string \<Rightarrow> timestamp \<Rightarrow> unit txn" where
  "mark_source_missing service_id object_key expected_owner expected_owner_epoch err observed db =
     ebind (require_text expected_owner ''expected_owner'') (\<lambda>_.
     ebind (ensure (0 < expected_owner_epoch) (ValueError ''owner epoch must be positive'')) (\<lambda>_.
     ebind (ensure (err \<noteq> []) (ValueError ''an error description is required to mark a source missing'')) (\<lambda>_.
     ebind (fenced_owner db service_id expected_owner_epoch (Some expected_owner) ''source-missing'') (\<lambda>_.
     ebind (locked_source db service_id object_key) (\<lambda>source.
     if src_status source = SourceMissing then Inr ((), db)
     else ebind (ensure (src_status source \<notin> {Acknowledged, SourceDeleted})
              (ValueError (''cannot mark a durably archived source missing: '' @ object_key))) (\<lambda>_.
       Inr ((), db\<lparr>source_objects := sql_update (\<lambda>r. src_object_id r = src_object_id source)
              (\<lambda>r. r\<lparr>src_status := SourceMissing, src_last_error := Some err, src_lease_until := None,
                     src_updated_at := observed\<rparr>) (source_objects db)\<rparr>)))))))"

definition record_source_counts :: "timestamp \<Rightarrow> string \<Rightarrow> string \<Rightarrow> int \<Rightarrow> int \<Rightarrow> int \<Rightarrow> unit txn" where
  "record_source_counts clk service_id object_key accepted malformed expected_owner_epoch db =
     ebind (ensure (0 \<le> min accepted malformed) (ValueError ''ledger counts must be non-negative'')) (\<lambda>_.
     ebind (fenced_owner db service_id expected_owner_epoch None ''owner'') (\<lambda>_.
     ebind (locked_source db service_id object_key) (\<lambda>source.
     ebind (ensure (src_status source = Claimed \<and> src_owner_epoch source = Some expected_owner_epoch)
              (RuntimeError (''stale or missing claim for '' @ object_key))) (\<lambda>_.
     Inr ((), db\<lparr>source_objects := sql_update
            (\<lambda>r. src_object_id r = src_object_id source \<and> src_status r = Claimed
                 \<and> src_owner_epoch r = Some expected_owner_epoch)
            (\<lambda>r. r\<lparr>src_accepted_rows := accepted, src_malformed_rows := malformed, src_updated_at := clk\<rparr>)
            (source_objects db)\<rparr>)))))"

subsection \<open>Serving batch manifests\<close>

definition batch_from_row :: "publication_row \<Rightarrow> batch_manifest" where
  "batch_from_row r =
     \<lparr>bm_batch_id = bm_batch_id r, bm_service_id = bm_service_id r, bm_domain = bm_domain r,
      bm_generation = bm_generation r, bm_digest = bm_digest r, bm_expected_rows = bm_expected_rows r,
      bm_status = bm_status r, bm_visible_rows = bm_visible_rows r\<rparr>"

definition get_batch_manifest :: "string \<Rightarrow> batch_manifest option txn" where
  "get_batch_manifest batch_id db =
     ebind (require_text batch_id ''batch_id'') (\<lambda>_.
     Inr (map_option batch_from_row
            (fetchone (sql_select (\<lambda>r. bm_batch_id r = batch_id) (publication_manifests db))), db))"

definition put_batch_manifest :: "timestamp \<Rightarrow> batch_manifest \<Rightarrow> unit txn" where
  "put_batch_manifest clk m db =
     ebind (ensure (0 \<le> bm_expected_rows m \<and> 0 \<le> bm_visible_rows m)
              (IntegrityError ''high_scale_publication_manifests'')) (\<lambda>_.
     Inr ((), db\<lparr>publication_manifests :=
       (if sql_select (\<lambda>r. bm_batch_id r = bm_batch_id m) (publication_manifests db) \<noteq> []
        then sql_update (\<lambda>r. bm_batch_id r = bm_batch_id m)
               (\<lambda>r. r\<lparr>bm_visible_rows := bm_visible_rows m, bm_status := bm_status m, bm_updated_at := clk\<rparr>)
               (publication_manifests db)
        else sql_insert
               \<lparr>bm_batch_id = bm_batch_id m, bm_service_id = bm_service_id m, bm_domain = bm_domain m,
                bm_generation = bm_generation m, bm_digest = bm_digest m, bm_expected_rows = bm_expected_rows m,
                bm_status = bm_status m, bm_visible_rows = bm_visible_rows m, bm_updated_at = clk\<rparr>
               (publication_manifests db))\<rparr>))"

subsection \<open>Archive manifests\<close>

definition source_item :: "archive_source_entry \<Rightarrow> json" where
  "source_item s =
     JObj [(''key'', JStr (se_key s)), (''checksum'', JStr (se_checksum s)), (''size_bytes'', JInt (se_size_bytes s)),
           (''row_start'', JInt (se_row_start s)), (''row_count'', JInt (se_row_count s)),
           (''version'', opt_str (se_version s))]"

definition manifest_to_row ::
  "timestamp \<Rightarrow> archive_manifest \<Rightarrow> string \<Rightarrow> string \<Rightarrow> int \<Rightarrow> archive_state \<Rightarrow> archive_manifest_row" where
  "manifest_to_row clk m service_id domain owner_epoch state =
     (let s = am_source m; art = am_artifact m in
      \<lparr>mr_manifest_id = am_manifest_id m, mr_service_id = service_id, mr_domain = domain,
       mr_source_key = so_object_key s, mr_source_checksum = so_checksum s, mr_source_size = so_size_bytes s,
       mr_source_version = so_version s, mr_artifact_uri = art_uri art, mr_artifact_checksum = art_checksum art,
       mr_artifact_size = art_size_bytes art, mr_row_count = art_row_count art, mr_byte_count = art_byte_count art,
       mr_canonical_digest = art_canonical_digest art, mr_schema_version = art_schema_version art,
       mr_transform_version = art_transform_version art, mr_coverage_start = am_coverage_start m,
       mr_coverage_end = am_coverage_end m, mr_retention_deadline = am_retention_deadline m,
       mr_deletion_authorization_deadline = am_deletion_authorization_deadline m,
       mr_archive_epoch = am_archive_epoch m, mr_owner_epoch = owner_epoch, mr_state = state,
       mr_sources_json = (if am_sources m = [] then None else Some (JList (map source_item (am_sources m)))),
       mr_archive_expired_at = None, mr_updated_at = clk\<rparr>)"

text \<open>The \<open>CHECK\<close> constraints of the manifest tables that \<open>validate\<close> does not imply.\<close>

definition manifest_row_ok :: "archive_manifest_row \<Rightarrow> bool" where
  "manifest_row_ok r \<longleftrightarrow>
     0 \<le> mr_source_size r \<and> 0 \<le> mr_artifact_size r \<and> 0 \<le> mr_row_count r \<and> 0 \<le> mr_byte_count r
     \<and> 0 \<le> mr_archive_epoch r \<and> 0 < mr_owner_epoch r \<and> mr_coverage_start r \<le> mr_coverage_end r
     \<and> mr_coverage_end r \<le> mr_retention_deadline r
     \<and> mr_retention_deadline r \<le> mr_deletion_authorization_deadline r"

definition manifest_source_ok :: "manifest_source_row \<Rightarrow> bool" where
  "manifest_source_ok r \<longleftrightarrow> 0 \<le> ms_source_size r \<and> 0 \<le> ms_row_start r \<and> 0 \<le> ms_row_count r"

definition entry_to_row :: "archive_manifest \<Rightarrow> archive_source_entry \<Rightarrow> manifest_source_row" where
  "entry_to_row m e =
     \<lparr>ms_manifest_id = am_manifest_id m, ms_source_key = se_key e, ms_source_checksum = se_checksum e,
      ms_source_size = se_size_bytes e, ms_source_version = se_version e, ms_row_start = se_row_start e,
      ms_row_count = se_row_count e, ms_deletion_deadline = am_deletion_authorization_deadline m\<rparr>"

fun insert_manifest_sources :: "manifest_source_row list \<Rightarrow> manifest_source_row table \<Rightarrow> manifest_source_row table result" where
  "insert_manifest_sources [] t = Inr t"
| "insert_manifest_sources (r # rs) t =
     (if \<not> manifest_source_ok r then Inl (IntegrityError ''high_scale_archive_manifest_sources'')
      else insert_manifest_sources rs
        (if sql_select (\<lambda>q. (ms_manifest_id q, ms_source_key q) = (ms_manifest_id r, ms_source_key r)) t \<noteq> []
         then t else sql_insert r t))"

definition register_archive_manifest ::
  "(string \<Rightarrow> timestamp result) \<Rightarrow> timestamp \<Rightarrow> archive_manifest \<Rightarrow> int \<Rightarrow> archive_state \<Rightarrow> archive_manifest_record txn" where
  "register_archive_manifest fromisoformat clk m owner_epoch state db =
     ebind (validate_manifest m) (\<lambda>_.
     ebind (ensure (0 < owner_epoch) (ValueError ''owner epoch must be positive'')) (\<lambda>_.
     (let service_id = or_text (Some (am_service_id m)) (so_service_id (am_source m));
          domain = or_text (Some (am_domain m)) (or_text (Some (so_domain (am_source m))) ''request'');
          row = manifest_to_row clk m service_id domain owner_epoch state
      in ebind (ensure (service_id \<noteq> []) (ValueError ''service_id is required on manifest'')) (\<lambda>_.
         ebind (fenced_owner db service_id owner_epoch None ''owner'') (\<lambda>_.
         ebind (ensure (manifest_row_ok row) (IntegrityError ''high_scale_archive_manifests'')) (\<lambda>_.
         (let manifests = (if manifest_row db (am_manifest_id m) \<noteq> None then archive_manifests db
                           else sql_insert row (archive_manifests db))
          in ebind (insert_manifest_sources (map (entry_to_row m) (am_sources m)) (manifest_sources db)) (\<lambda>entries.
             (let db' = db\<lparr>archive_manifests := manifests, manifest_sources := entries\<rparr>
              in ebind (get_archive_manifest fromisoformat db' (am_manifest_id m)) (\<lambda>result.
                 ebind (ensure (amr_manifest result = m \<and> amr_owner_epoch result = owner_epoch)
                          (ValueError ''archive manifest identity changed'')) (\<lambda>_.
                 Inr (result, db')))))))))))) "

definition transition_archive_manifest ::
  "(string \<Rightarrow> timestamp result) \<Rightarrow> timestamp \<Rightarrow> string \<Rightarrow> archive_state \<Rightarrow> archive_state \<Rightarrow> int
     \<Rightarrow> archive_manifest_record txn" where
  "transition_archive_manifest fromisoformat clk manifest_id expected_state next_state expected_owner_epoch db =
     ebind (validate_archive_transition expected_state next_state) (\<lambda>_.
     ebind (get_archive_manifest fromisoformat db manifest_id) (\<lambda>result.
     ebind (check_epoch_value (amr_owner_epoch result) expected_owner_epoch) (\<lambda>_.
     ebind (ensure (amr_state result = expected_state)
              (ValueError ''archive state does not match transition fence'')) (\<lambda>_.
     (let db' = db\<lparr>archive_manifests := sql_update
            (\<lambda>r. mr_manifest_id r = manifest_id \<and> mr_owner_epoch r = expected_owner_epoch \<and> mr_state r = expected_state)
            (\<lambda>r. r\<lparr>mr_state := next_state, mr_updated_at := clk\<rparr>) (archive_manifests db)\<rparr>
      in ebind (get_archive_manifest fromisoformat db' manifest_id) (\<lambda>updated. Inr (updated, db')))))))"

definition archive_manifest_op :: "(string \<Rightarrow> timestamp result) \<Rightarrow> string \<Rightarrow> archive_manifest_record txn" where
  "archive_manifest_op fromisoformat manifest_id db =
     ebind (require_text manifest_id ''manifest_id'') (\<lambda>_.
     ebind (get_archive_manifest fromisoformat db manifest_id) (\<lambda>r. Inr (r, db)))"

definition decode_manifests ::
  "(string \<Rightarrow> timestamp result) \<Rightarrow> archive_manifest_row list \<Rightarrow> archive_manifest list result" where
  "decode_manifests fromisoformat rows =
     ebind (map_result (\<lambda>r. archive_from_row fromisoformat r []) rows) (\<lambda>rs. Inr (map amr_manifest rs))"

definition manifests_covering ::
  "(string \<Rightarrow> timestamp result) \<Rightarrow> string \<Rightarrow> string \<Rightarrow> timestamp \<Rightarrow> timestamp \<Rightarrow> archive_manifest list txn" where
  "manifests_covering fromisoformat service_id domain start stop db =
     ebind (require_texts [(''service_id'', service_id), (''domain'', domain)]) (\<lambda>_.
     ebind (ensure (start < stop) (ValueError ''manifest coverage range must have end after start'')) (\<lambda>_.
     ebind (decode_manifests fromisoformat (sort_key mr_coverage_start (sql_select
              (\<lambda>r. mr_service_id r = service_id \<and> mr_domain r = domain \<and> mr_archive_expired_at r = None
                   \<and> start < mr_coverage_end r \<and> mr_coverage_start r < stop) (archive_manifests db)))) (\<lambda>ms.
     Inr (ms, db))))"

definition deletable_sources :: "timestamp \<Rightarrow> string \<Rightarrow> int \<Rightarrow> source_object_record list txn" where
  "deletable_sources clk service_id limit db =
     ebind (require_text service_id ''service_id'') (\<lambda>_.
     ebind (ensure (0 < limit) (ValueError ''limit must be positive'')) (\<lambda>_.
     Inr (map source_from_row (take (nat limit) (sort_key src_discovered_at (sql_select
            (\<lambda>o1. src_service_id o1 = service_id \<and> src_status o1 \<in> {Archived, Acknowledged}
              \<and> list_ex (\<lambda>m. Some (mr_manifest_id m) = src_archive_manifest_id o1
                   \<and> mr_state m \<in> {MANIFEST_COMMITTED, DELETION_ELIGIBLE}
                   \<and> mr_deletion_authorization_deadline m \<le> clk) (archive_manifests db))
            (source_objects db)))), db)))"

definition DAY :: duration where
  "DAY = 24 * 3600 * 1000000"

definition expirable_archive_manifests ::
  "(string \<Rightarrow> timestamp result) \<Rightarrow> timestamp \<Rightarrow> string \<Rightarrow> (string \<times> int) list \<Rightarrow> int \<Rightarrow> archive_manifest list txn" where
  "expirable_archive_manifests fromisoformat clk service_id domain_retention_days limit db =
     ebind (require_text service_id ''service_id'') (\<lambda>_.
     ebind (ensure (0 < limit) (ValueError ''limit must be positive'')) (\<lambda>_.
     (let windows = filter (\<lambda>(_, days). 0 < days) domain_retention_days
      in if windows = [] then Inr ([], db)
         else ebind (decode_manifests fromisoformat (take (nat limit) (sort_key mr_coverage_end (sql_select
                (\<lambda>r. mr_service_id r = service_id \<and> mr_state r = SOURCE_DELETED \<and> mr_archive_expired_at r = None
                     \<and> list_ex (\<lambda>(d, days). mr_domain r = d \<and> mr_coverage_end r < clk - days * DAY) windows)
                (archive_manifests db))))) (\<lambda>ms. Inr (ms, db)))))"

record archive_storage =
  live_bytes :: int
  live_objects :: int
  expired_30d_bytes :: int

definition archive_storage_summary :: "timestamp \<Rightarrow> string \<Rightarrow> archive_storage txn" where
  "archive_storage_summary clk service_id db =
     ebind (require_text service_id ''service_id'') (\<lambda>_.
     (let rows = sql_select (\<lambda>r. mr_service_id r = service_id \<and> mr_state r \<noteq> ARTIFACT_UPLOADING) (archive_manifests db);
          live = filter (\<lambda>r. mr_archive_expired_at r = None) rows;
          recent = filter (\<lambda>r. case mr_archive_expired_at r of None \<Rightarrow> False | Some t \<Rightarrow> clk - 30 * DAY < t) rows
      in Inr (\<lparr>live_bytes = sum_list (map mr_artifact_size live), live_objects = int (length live) * 3,
               expired_30d_bytes = sum_list (map mr_artifact_size recent)\<rparr>, db)))"

definition mark_archive_expired :: "timestamp \<Rightarrow> string \<Rightarrow> unit txn" where
  "mark_archive_expired clk manifest_id db =
     ebind (require_text manifest_id ''manifest_id'') (\<lambda>_.
     Inr ((), db\<lparr>archive_manifests := sql_update
            (\<lambda>r. mr_manifest_id r = manifest_id \<and> mr_archive_expired_at r = None)
            (\<lambda>r. r\<lparr>mr_archive_expired_at := Some clk, mr_updated_at := clk\<rparr>) (archive_manifests db)\<rparr>))"

subsection \<open>Acknowledgement, failure and deletion\<close>

definition upsert_partition_cursor ::
  "timestamp \<Rightarrow> string \<Rightarrow> string \<Rightarrow> string \<Rightarrow> string \<Rightarrow> control_db \<Rightarrow> control_db" where
  "upsert_partition_cursor clk service_id domain partition_id cursor db =
     (let matches = (\<lambda>r. (pc_service_id r, pc_domain r, pc_partition_id r) = (service_id, domain, partition_id))
      in db\<lparr>partition_cursors :=
           (if sql_select matches (partition_cursors db) \<noteq> []
            then sql_update matches (\<lambda>r. r\<lparr>pc_source_cursor := cursor, pc_updated_at := clk\<rparr>) (partition_cursors db)
            else sql_insert \<lparr>pc_service_id = service_id, pc_domain = domain, pc_partition_id = partition_id,
                             pc_source_cursor = cursor, pc_updated_at = clk\<rparr> (partition_cursors db))\<rparr>)"

definition acknowledge_sources_batch ::
  "timestamp \<Rightarrow> string \<Rightarrow> string list \<Rightarrow> string \<Rightarrow> int \<Rightarrow> string option \<Rightarrow> string \<Rightarrow> string \<Rightarrow> unit txn" where
  "acknowledge_sources_batch clk service_id object_keys manifest_id expected_owner_epoch next_cursor domain
       partition_id db =
     ebind (require_texts [(''service_id'', service_id), (''manifest_id'', manifest_id)]) (\<lambda>_.
     ebind (ensure (0 < expected_owner_epoch) (ValueError ''owner epoch must be positive'')) (\<lambda>_.
     ebind (fenced_owner db service_id expected_owner_epoch None ''owner'') (\<lambda>_.
     (let db1 = (if object_keys = [] then db
                 else db\<lparr>source_objects := sql_update
                   (\<lambda>r. src_service_id r = service_id \<and> src_object_key r \<in> set object_keys)
                   (\<lambda>r. r\<lparr>src_status := Acknowledged, src_archive_manifest_id := Some manifest_id,
                          src_lease_until := None, src_updated_at := clk\<rparr>) (source_objects db)\<rparr>)
      in case next_cursor of
           None \<Rightarrow> Inr ((), db1)
         | Some cursor \<Rightarrow>
             (let db2 = upsert_partition_cursor clk service_id domain partition_id cursor db1
              in if partition_id = ''default''
                 then ebind (upsert_domain_cursor clk service_id domain cursor None None db2) (\<lambda>db3. Inr ((), db3))
                 else Inr ((), db2))))))"

definition fail_sources_batch :: "timestamp \<Rightarrow> string \<Rightarrow> string list \<Rightarrow> int \<Rightarrow> string \<Rightarrow> unit txn" where
  "fail_sources_batch clk service_id object_keys expected_owner_epoch err db =
     ebind (require_texts [(''service_id'', service_id), (''error'', err)]) (\<lambda>_.
     ebind (ensure (0 < expected_owner_epoch) (ValueError ''owner epoch must be positive'')) (\<lambda>_.
     ebind (fenced_owner db service_id expected_owner_epoch None ''owner'') (\<lambda>_.
     Inr ((), if object_keys = [] then db
              else db\<lparr>source_objects := sql_update
                (\<lambda>r. src_service_id r = service_id \<and> src_object_key r \<in> set object_keys
                     \<and> src_status r = Claimed \<and> src_owner_epoch r = Some expected_owner_epoch)
                (\<lambda>r. r\<lparr>src_status := Discovered, src_owner := None, src_lease_until := None,
                       src_last_error := Some err, src_updated_at := clk\<rparr>) (source_objects db)\<rparr>))))"

definition authorization_row :: "control_db \<Rightarrow> string \<Rightarrow> string \<Rightarrow> deletion_authorization_row option" where
  "authorization_row db object_id manifest_id =
     fetchone (sql_select (\<lambda>r. (da_object_id r, da_manifest_id r) = (object_id, manifest_id)) (deletion_authorizations db))"

definition authorization_from_row :: "deletion_authorization_row \<Rightarrow> deletion_authorization" where
  "authorization_from_row r =
     \<lparr>da_object_id = da_object_id r, da_manifest_id = da_manifest_id r, da_owner_epoch = da_owner_epoch r,
      da_authorized_at = da_authorized_at r\<rparr>"

definition authorize_source_delete ::
  "(string \<Rightarrow> timestamp result) \<Rightarrow> timestamp \<Rightarrow> string \<Rightarrow> string \<Rightarrow> string \<Rightarrow> int \<Rightarrow> bool \<Rightarrow> timestamp
     \<Rightarrow> deletion_authorization txn" where
  "authorize_source_delete fromisoformat clk service_id object_key manifest_id expected_owner_epoch
       replay_lease_active observed db =
     ebind (ensure (\<not> replay_lease_active) (ValueError ''source deletion blocked by active replay lease'')) (\<lambda>_.
     ebind (fenced_owner db service_id expected_owner_epoch None ''owner'') (\<lambda>_.
     ebind (locked_source db service_id object_key) (\<lambda>source.
     ebind (ensure (src_status source \<in> {Archived, Acknowledged} \<and> src_archive_manifest_id source = Some manifest_id
                    \<and> src_owner_epoch source = Some expected_owner_epoch)
              (ValueError (''source deletion is not authorized for '' @ object_key))) (\<lambda>_.
     ebind (get_archive_manifest fromisoformat db manifest_id) (\<lambda>m.
     ebind (ensure (so_object_key (am_source (amr_manifest m)) = object_key
                    \<or> list_ex (\<lambda>s. se_key s = object_key) (am_sources (amr_manifest m)))
              (ValueError ''archive manifest does not match source'')) (\<lambda>_.
     ebind (ensure (amr_state m = DELETION_ELIGIBLE)
              (ValueError ''archive manifest is not deletion eligible'')) (\<lambda>_.
     ebind (ensure (am_deletion_authorization_deadline (amr_manifest m) \<le> observed)
              (ValueError ''source deletion grace period has not elapsed'')) (\<lambda>_.
     (let db' = (if authorization_row db (src_object_id source) manifest_id \<noteq> None then db
                 else db\<lparr>deletion_authorizations := sql_insert
                   \<lparr>da_object_id = src_object_id source, da_manifest_id = manifest_id,
                    da_owner_epoch = expected_owner_epoch, da_authorized_at = clk, da_consumed_at = None\<rparr>
                   (deletion_authorizations db)\<rparr>)
      in case authorization_row db' (src_object_id source) manifest_id of
           None \<Rightarrow> Inl (ValueError ''source deletion authorization was already consumed'')
         | Some row \<Rightarrow>
             ebind (ensure (da_consumed_at row = None)
                      (ValueError ''source deletion authorization was already consumed'')) (\<lambda>_.
             Inr (authorization_from_row row, db'))))))))))) "

text \<open>The two updates of a deletion, and the end of a manifest whose sources are all deleted.\<close>

definition deleted_db :: "timestamp \<Rightarrow> string \<Rightarrow> string \<Rightarrow> control_db \<Rightarrow> control_db" where
  "deleted_db clk object_id manifest_id db =
     db\<lparr>source_objects := sql_update (\<lambda>r. src_object_id r = object_id)
          (\<lambda>r. r\<lparr>src_status := SourceDeleted, src_lease_until := None, src_updated_at := clk\<rparr>) (source_objects db),
        deletion_authorizations := sql_update
          (\<lambda>r. da_object_id r = object_id \<and> da_manifest_id r = manifest_id \<and> da_consumed_at r = None)
          (\<lambda>r. r\<lparr>da_consumed_at := Some clk\<rparr>) (deletion_authorizations db)\<rparr>"

definition finish_manifest ::
  "timestamp \<Rightarrow> string \<Rightarrow> string \<Rightarrow> int \<Rightarrow> archive_manifest_record \<Rightarrow> control_db \<Rightarrow> control_db" where
  "finish_manifest clk service_id manifest_id expected_owner_epoch m db =
     (let source_keys = map se_key (am_sources (amr_manifest m));
          all_deleted = (source_keys = [] \<or> sql_select
            (\<lambda>r. src_service_id r = service_id \<and> src_object_key r \<in> set source_keys \<and> src_status r \<noteq> SourceDeleted)
            (source_objects db) = [])
      in if amr_state m = DELETION_ELIGIBLE \<and> all_deleted
         then db\<lparr>archive_manifests := sql_update
                (\<lambda>r. mr_manifest_id r = manifest_id \<and> mr_owner_epoch r = expected_owner_epoch)
                (\<lambda>r. r\<lparr>mr_state := SOURCE_DELETED, mr_updated_at := clk\<rparr>) (archive_manifests db)\<rparr>
         else db)"

definition mark_source_deleted ::
  "(string \<Rightarrow> timestamp result) \<Rightarrow> timestamp \<Rightarrow> string \<Rightarrow> string \<Rightarrow> string \<Rightarrow> int \<Rightarrow> unit txn" where
  "mark_source_deleted fromisoformat clk service_id object_key manifest_id expected_owner_epoch db =
     ebind (fenced_owner db service_id expected_owner_epoch None ''owner'') (\<lambda>_.
     ebind (locked_source db service_id object_key) (\<lambda>source.
     if src_status source = SourceDeleted \<and> src_archive_manifest_id source = Some manifest_id then Inr ((), db)
     else
       ebind (ensure (src_status source \<in> {Archived, Acknowledged} \<and> src_archive_manifest_id source = Some manifest_id)
                (ValueError (''source deletion was not authorized for '' @ object_key))) (\<lambda>_.
       ebind (ensure (sql_select (\<lambda>r. da_object_id r = src_object_id source \<and> da_manifest_id r = manifest_id
                        \<and> da_owner_epoch r = expected_owner_epoch \<and> da_consumed_at r = None)
                        (deletion_authorizations db) \<noteq> [])
                (ValueError (''source deletion was not authorized for '' @ object_key))) (\<lambda>_.
       (let db1 = deleted_db clk (src_object_id source) manifest_id db
        in ebind (get_archive_manifest fromisoformat db1 manifest_id) (\<lambda>m.
           Inr ((), finish_manifest clk service_id manifest_id expected_owner_epoch m db1)))))))"

subsection \<open>Operational snapshot\<close>

text \<open>Ages are microseconds; the code reports the same quantities as seconds.\<close>

record publication_summary =
  pub_pending :: int
  pub_published_rows :: int
  pub_lag :: duration

record operational_snapshot_record =
  snap_source_objects :: "(string \<times> string \<times> int) list"
  snap_source_age :: "(string \<times> duration) list"
  snap_publications :: "(string \<times> publication_summary) list"

definition group_keys :: "('r \<Rightarrow> 'k::linorder) \<Rightarrow> 'r list \<Rightarrow> 'k list" where
  "group_keys f rows = sort (remdups (map f rows))"

definition operational_snapshot :: "timestamp \<Rightarrow> string \<Rightarrow> operational_snapshot_record txn" where
  "operational_snapshot clk service_id db =
     ebind (require_text service_id ''service_id'') (\<lambda>_.
     (let objects = sql_select (\<lambda>r. src_service_id r = service_id) (source_objects db);
          status_key = (\<lambda>r. (src_domain r, status_text (src_status r)));
          backlog = filter (\<lambda>r. src_status r \<in> {Discovered, Claimed, Appended, Archived}) objects;
          batches = sql_select (\<lambda>r. bm_service_id r = service_id) (publication_manifests db);
          age = (\<lambda>stamps. max 0 (if stamps = [] then 0 else clk - Min (set stamps)))
      in Inr (\<lparr>snap_source_objects = map (\<lambda>k. (fst k, snd k, int (length (filter (\<lambda>r. status_key r = k) objects))))
                 (group_keys status_key objects),
               snap_source_age = map (\<lambda>d. (d, age (map src_updated_at (filter (\<lambda>r. src_domain r = d) backlog))))
                 (group_keys src_domain backlog),
               snap_publications = map (\<lambda>d.
                  (let rows = filter (\<lambda>r. bm_domain r = d) batches;
                       waiting = filter (\<lambda>r. bm_status r = Pending) rows
                   in (d, \<lparr>pub_pending = int (length waiting),
                           pub_published_rows = sum_list (map bm_visible_rows (filter (\<lambda>r. bm_status r = Visible) rows)),
                           pub_lag = age (map bm_updated_at waiting)\<rparr>)))
                 (group_keys bm_domain batches)\<rparr>, db)))"

end
