(* ===== verification/Control_Plane_Inv.thy ===== *)
theory Control_Plane_Inv
  imports Control_Plane
begin

text \<open>
  The control plane as a state machine: one step per operation that writes, the invariant of
  the reachable databases, the order in which epochs, lease generations and archive states
  advance, and the theorems on fencing, leases, registration and deletion.
\<close>

subsection \<open>Keys\<close>

abbreviation source_key :: "source_object_row \<Rightarrow> string \<times> string" where
  "source_key r \<equiv> (src_service_id r, src_object_key r)"

abbreviation source_id :: "source_object_row \<Rightarrow> string" where
  "source_id r \<equiv> src_object_id r"

abbreviation cursor_key :: "source_cursor_row \<Rightarrow> string \<times> string" where
  "cursor_key r \<equiv> (sc_service_id r, sc_domain r)"

abbreviation authorization_key :: "deletion_authorization_row \<Rightarrow> string \<times> string" where
  "authorization_key r \<equiv> (da_object_id r, da_manifest_id r)"

interpretation own_tab: keyed_table "oe_service_id :: ownership_row \<Rightarrow> string" .
interpretation cur_tab: keyed_table cursor_key .
interpretation src_tab: keyed_table source_key .
interpretation sid_tab: keyed_table source_id .
interpretation man_tab: keyed_table "mr_manifest_id :: archive_manifest_row \<Rightarrow> string" .
interpretation auth_tab: keyed_table authorization_key .
interpretation bat_tab: keyed_table "bm_batch_id :: publication_row \<Rightarrow> string" .

lemma row_lookups:
  "owner_row db k = own_tab.lookup k (ownership db)"
  "cursor_row db s d = cur_tab.lookup (s, d) (source_cursors db)"
  "source_row db s k = src_tab.lookup (s, k) (source_objects db)"
  "manifest_row db m = man_tab.lookup m (archive_manifests db)"
  "authorization_row db i m = auth_tab.lookup (i, m) (deletion_authorizations db)"
  by (simp_all add: owner_row_def cursor_row_def source_row_def manifest_row_def authorization_row_def
      own_tab.lookup_def cur_tab.lookup_def src_tab.lookup_def man_tab.lookup_def auth_tab.lookup_def)

lemma select_nonempty: "sql_select p t \<noteq> [] \<longleftrightarrow> (\<exists>r \<in> set t. p r)"
  by (simp add: sql_select_def filter_empty_conv)

subsection \<open>Fences\<close>

lemma get_owner_Inr_iff: "get_owner db s = Inr w \<longleftrightarrow> (\<exists>r. owner_row db s = Some r \<and> w = owner_from_row r)"
  by (auto simp: get_owner_def fetch_required_def ebind_Inr_iff split: option.splits)

lemma fenced_owner_Inr_iff:
  "fenced_owner db s e w f = Inr x \<longleftrightarrow>
     (\<exists>r. owner_row db s = Some r \<and> x = owner_from_row r \<and> oe_owner_epoch r = e
        \<and> (case w of None \<Rightarrow> True | Some n \<Rightarrow> oe_current_owner r = n))"
  by (auto simp: fenced_owner_def get_owner_Inr_iff ebind_Inr_iff check_epoch_value_def owner_from_row_def
      split: option.splits)

lemma locked_source_Inr_iff:
  "locked_source db s k = Inr x \<longleftrightarrow> (\<exists>r. source_row db s k = Some r \<and> x = source_from_row r)"
  by (auto simp: locked_source_def fetch_required_def ebind_Inr_iff split: option.splits)

lemma source_from_row_simps [simp]:
  "src_object_id (source_from_row r) = src_object_id r"
  "src_object_key (source_from_row r) = src_object_key r"
  "src_service_id (source_from_row r) = src_service_id r"
  "src_status (source_from_row r) = src_status r"
  "src_owner (source_from_row r) = src_owner r"
  "src_lease_until (source_from_row r) = src_lease_until r"
  "src_lease_generation (source_from_row r) = src_lease_generation r"
  "src_archive_manifest_id (source_from_row r) = src_archive_manifest_id r"
  "src_owner_epoch (source_from_row r) = src_owner_epoch r"
  "src_checksum (source_from_row r) = src_checksum r"
  "src_version (source_from_row r) = src_version r"
  by (simp_all add: source_from_row_def)

lemma archive_from_row_Inr:
  assumes "archive_from_row fi r [] = Inr x"
  shows "amr_state x = mr_state r" and "amr_owner_epoch x = mr_owner_epoch r"
    and "am_manifest_id (amr_manifest x) = mr_manifest_id r"
    and "am_deletion_authorization_deadline (amr_manifest x) = mr_deletion_authorization_deadline r"
    and "so_object_key (am_source (amr_manifest x)) = mr_source_key r"
  using assms
  by (auto simp: archive_from_row_def ebind_Inr_iff mk_manifest_def Let_def split: if_splits option.splits json.splits list.splits)

lemma get_archive_manifest_Inr_iff:
  "get_archive_manifest fi db m = Inr x \<longleftrightarrow> (\<exists>r. manifest_row db m = Some r \<and> archive_from_row fi r [] = Inr x)"
  by (auto simp: get_archive_manifest_def fetch_required_def ebind_Inr_iff split: option.splits)

lemmas fence_simps = get_owner_Inr_iff fenced_owner_Inr_iff locked_source_Inr_iff get_archive_manifest_Inr_iff

subsection \<open>Progress\<close>

text \<open>Rows never disappear; what may change in a row, and in which direction.\<close>

definition rows_advance :: "('r \<Rightarrow> 'r \<Rightarrow> bool) \<Rightarrow> 'r table \<Rightarrow> 'r table \<Rightarrow> bool" where
  "rows_advance R t t' \<longleftrightarrow> (\<forall>r \<in> set t. \<exists>r' \<in> set t'. R r r')"

lemma rows_advance_refl: "(\<And>r. R r r) \<Longrightarrow> rows_advance R t t"
  by (auto simp: rows_advance_def)

lemma rows_advance_insert: "(\<And>r. R r r) \<Longrightarrow> rows_advance R t (sql_insert x t)"
  by (auto simp: rows_advance_def table_simps)

lemma rows_advance_update:
  assumes "\<And>r. R r r" and "\<And>r. r \<in> set t \<Longrightarrow> p r \<Longrightarrow> R r (f r)"
  shows "rows_advance R t (sql_update p f t)"
  unfolding rows_advance_def
proof
  fix r
  assume r: "r \<in> set t"
  then have "(if p r then f r else r) \<in> set (sql_update p f t)" by (auto simp: in_sql_update)
  moreover have "R r (if p r then f r else r)" using assms r by simp
  ultimately show "\<exists>r' \<in> set (sql_update p f t). R r r'" by blast
qed

lemma rows_advance_trans:
  assumes "rows_advance R t t'" and "rows_advance R t' t''" and "\<And>a b c. R a b \<Longrightarrow> R b c \<Longrightarrow> R a c"
  shows "rows_advance R t t''"
  using assms unfolding rows_advance_def by blast

definition owner_advance :: "ownership_row \<Rightarrow> ownership_row \<Rightarrow> bool" where
  "owner_advance r r' \<longleftrightarrow> oe_service_id r' = oe_service_id r \<and> oe_owner_epoch r \<le> oe_owner_epoch r'"

definition source_advance :: "source_object_row \<Rightarrow> source_object_row \<Rightarrow> bool" where
  "source_advance r r' \<longleftrightarrow>
     src_object_id r' = src_object_id r \<and> source_key r' = source_key r \<and> src_checksum r' = src_checksum r
     \<and> src_version r' = src_version r \<and> src_size_bytes r' = src_size_bytes r
     \<and> src_lease_generation r \<le> src_lease_generation r'"

definition manifest_advance :: "archive_manifest_row \<Rightarrow> archive_manifest_row \<Rightarrow> bool" where
  "manifest_advance r r' \<longleftrightarrow>
     mr_state r \<le> mr_state r' \<and> (mr_archive_expired_at r = None \<or> mr_archive_expired_at r' = mr_archive_expired_at r)
     \<and> r'\<lparr>mr_state := mr_state r, mr_archive_expired_at := mr_archive_expired_at r, mr_updated_at := mr_updated_at r\<rparr> = r"

definition authorization_advance :: "deletion_authorization_row \<Rightarrow> deletion_authorization_row \<Rightarrow> bool" where
  "authorization_advance r r' \<longleftrightarrow>
     (da_consumed_at r = None \<or> da_consumed_at r' = da_consumed_at r) \<and> r'\<lparr>da_consumed_at := da_consumed_at r\<rparr> = r"

definition db_advance :: "control_db \<Rightarrow> control_db \<Rightarrow> bool" where
  "db_advance db db' \<longleftrightarrow>
     rows_advance owner_advance (ownership db) (ownership db')
     \<and> rows_advance source_advance (source_objects db) (source_objects db')
     \<and> rows_advance manifest_advance (archive_manifests db) (archive_manifests db')
     \<and> rows_advance authorization_advance (deletion_authorizations db) (deletion_authorizations db')"

lemma advance_refl [simp]:
  "owner_advance r r" "source_advance s s" "manifest_advance m m" "authorization_advance a a"
  by (simp_all add: owner_advance_def source_advance_def manifest_advance_def authorization_advance_def)

lemma db_advance_refl [simp]: "db_advance db db"
  by (simp add: db_advance_def rows_advance_refl)

lemma manifest_advance_trans: "manifest_advance a b \<Longrightarrow> manifest_advance b c \<Longrightarrow> manifest_advance a c"
proof -
  assume ab: "manifest_advance a b" and bc: "manifest_advance b c"
  have "c\<lparr>mr_state := mr_state b, mr_archive_expired_at := mr_archive_expired_at b, mr_updated_at := mr_updated_at b\<rparr> = b"
    using bc by (simp add: manifest_advance_def)
  then have "c\<lparr>mr_state := mr_state a, mr_archive_expired_at := mr_archive_expired_at a, mr_updated_at := mr_updated_at a\<rparr>
      = b\<lparr>mr_state := mr_state a, mr_archive_expired_at := mr_archive_expired_at a, mr_updated_at := mr_updated_at a\<rparr>"
    by (metis (no_types, lifting) archive_manifest_row.surjective archive_manifest_row.update_convs(22,24,25))
  with ab bc show ?thesis by (auto simp: manifest_advance_def)
qed

lemma manifest_advance_columns:
  assumes "manifest_advance m m'"
  shows "mr_manifest_id m' = mr_manifest_id m" and "mr_state m \<le> mr_state m'"
    and "mr_deletion_authorization_deadline m' = mr_deletion_authorization_deadline m"
    and "mr_owner_epoch m' = mr_owner_epoch m"
proof -
  have eq: "m'\<lparr>mr_state := mr_state m, mr_archive_expired_at := mr_archive_expired_at m, mr_updated_at := mr_updated_at m\<rparr> = m"
    using assms by (simp add: manifest_advance_def)
  show "mr_manifest_id m' = mr_manifest_id m"
    and "mr_deletion_authorization_deadline m' = mr_deletion_authorization_deadline m"
    and "mr_owner_epoch m' = mr_owner_epoch m"
    using arg_cong [OF eq, of mr_manifest_id] arg_cong [OF eq, of mr_deletion_authorization_deadline]
      arg_cong [OF eq, of mr_owner_epoch] by simp_all
  show "mr_state m \<le> mr_state m'" using assms by (simp add: manifest_advance_def)
qed

lemma authorization_advance_trans:
  "authorization_advance a b \<Longrightarrow> authorization_advance b c \<Longrightarrow> authorization_advance a c"
  unfolding authorization_advance_def
  by (cases a; cases b; cases c) auto

lemma db_advance_trans:
  assumes "db_advance a b" and "db_advance b c"
  shows "db_advance a c"
proof -
  have "rows_advance owner_advance (ownership a) (ownership c)"
    using assms by (auto simp: db_advance_def owner_advance_def intro: rows_advance_trans)
  moreover have "rows_advance source_advance (source_objects a) (source_objects c)"
    using assms by (auto simp: db_advance_def source_advance_def intro: rows_advance_trans)
  moreover have "rows_advance manifest_advance (archive_manifests a) (archive_manifests c)"
    using assms by (auto simp: db_advance_def intro: rows_advance_trans manifest_advance_trans)
  moreover have "rows_advance authorization_advance (deletion_authorizations a) (deletion_authorizations c)"
    using assms by (auto simp: db_advance_def intro: rows_advance_trans authorization_advance_trans)
  ultimately show ?thesis by (simp add: db_advance_def)
qed

subsection \<open>The invariant\<close>

definition source_row_ok :: "source_object_row \<Rightarrow> bool" where
  "source_row_ok r \<longleftrightarrow>
     0 \<le> src_lease_generation r \<and> 0 \<le> src_size_bytes r \<and> 0 \<le> src_accepted_rows r \<and> 0 \<le> src_malformed_rows r
     \<and> (src_status r = Claimed \<longrightarrow> src_owner r \<noteq> None \<and> src_lease_until r \<noteq> None \<and> src_owner_epoch r \<noteq> None)"

text \<open>A deleted source carries the manifest whose deletion authorization was consumed for it.\<close>

definition deletion_backed :: "control_db \<Rightarrow> source_object_row \<Rightarrow> bool" where
  "deletion_backed db r \<longleftrightarrow>
     (\<exists>a \<in> set (deletion_authorizations db). da_object_id a = src_object_id r
        \<and> src_archive_manifest_id r = Some (da_manifest_id a) \<and> da_consumed_at a \<noteq> None)"

definition authorization_ok :: "control_db \<Rightarrow> deletion_authorization_row \<Rightarrow> bool" where
  "authorization_ok db a \<longleftrightarrow>
     (\<exists>r \<in> set (source_objects db). src_object_id r = da_object_id a)
     \<and> (\<exists>m \<in> set (archive_manifests db). mr_manifest_id m = da_manifest_id a \<and> DELETION_ELIGIBLE \<le> mr_state m)"

definition keys_unique :: "control_db \<Rightarrow> bool" where
  "keys_unique db \<longleftrightarrow>
     own_tab.uniq (ownership db) \<and> cur_tab.uniq (source_cursors db) \<and> src_tab.uniq (source_objects db)
     \<and> sid_tab.uniq (source_objects db) \<and> man_tab.uniq (archive_manifests db)
     \<and> auth_tab.uniq (deletion_authorizations db) \<and> bat_tab.uniq (publication_manifests db)"

definition db_inv :: "control_db \<Rightarrow> bool" where
  "db_inv db \<longleftrightarrow>
     keys_unique db
     \<and> list_all (\<lambda>r. 0 < oe_owner_epoch r) (ownership db)
     \<and> list_all source_row_ok (source_objects db)
     \<and> list_all manifest_row_ok (archive_manifests db)
     \<and> list_all (\<lambda>b. 0 \<le> bm_expected_rows b \<and> 0 \<le> bm_visible_rows b) (publication_manifests db)
     \<and> (\<forall>a \<in> set (deletion_authorizations db). authorization_ok db a)
     \<and> (\<forall>r \<in> set (source_objects db). src_status r = SourceDeleted \<longrightarrow> deletion_backed db r)"

lemma db_inv_empty: "db_inv create_schema"
  by (simp add: db_inv_def create_schema_def keys_unique_def)

lemma authorization_ok_advance:
  assumes "authorization_ok db a" and "db_advance db db'"
  shows "authorization_ok db' a"
proof -
  from assms obtain r m where "r \<in> set (source_objects db)" "src_object_id r = da_object_id a"
      "m \<in> set (archive_manifests db)" "mr_manifest_id m = da_manifest_id a" "DELETION_ELIGIBLE \<le> mr_state m"
    by (auto simp: authorization_ok_def)
  with assms(2) obtain r' m' where "r' \<in> set (source_objects db')" "source_advance r r'"
      "m' \<in> set (archive_manifests db')" "manifest_advance m m'"
    unfolding db_advance_def rows_advance_def by blast
  moreover have "mr_manifest_id m' = mr_manifest_id m" "mr_state m \<le> mr_state m'"
    using manifest_advance_columns [OF \<open>manifest_advance m m'\<close>] by simp_all
  ultimately show ?thesis unfolding authorization_ok_def
    using \<open>src_object_id r = da_object_id a\<close> \<open>mr_manifest_id m = da_manifest_id a\<close> \<open>DELETION_ELIGIBLE \<le> mr_state m\<close>
    by (auto simp: source_advance_def intro!: bexI [of _ r'] bexI [of _ m'])
qed

text \<open>One lemma for each kind of write.\<close>

lemma inv_source_update:
  assumes inv: "db_inv db"
    and same: "\<And>r. src_object_id (f r) = src_object_id r \<and> source_key (f r) = source_key r"
    and ok: "\<And>r. r \<in> set (source_objects db) \<Longrightarrow> p r \<Longrightarrow> source_row_ok r \<Longrightarrow> source_row_ok (f r)"
    and del: "\<And>r. r \<in> set (source_objects db) \<Longrightarrow> p r \<Longrightarrow> src_status (f r) = SourceDeleted \<Longrightarrow> deletion_backed db (f r)"
  shows "db_inv (db\<lparr>source_objects := sql_update p f (source_objects db)\<rparr>)" (is "db_inv ?db")
proof -
  have "src_tab.uniq (sql_update p f (source_objects db))"
    using inv same by (intro src_tab.uniq_update) (simp_all add: db_inv_def keys_unique_def)
  moreover have "sid_tab.uniq (sql_update p f (source_objects db))"
    using inv same by (intro sid_tab.uniq_update) (simp_all add: db_inv_def keys_unique_def)
  moreover have "list_all source_row_ok (sql_update p f (source_objects db))"
    using inv ok by (intro list_all_sql_update) (auto simp: db_inv_def)
  moreover have "authorization_ok ?db a" if "a \<in> set (deletion_authorizations db)" for a
  proof -
    from inv that have a: "authorization_ok db a" by (simp add: db_inv_def)
    then obtain r where "r \<in> set (source_objects db)" "src_object_id r = da_object_id a"
      by (auto simp: authorization_ok_def)
    then have "(if p r then f r else r) \<in> set (source_objects ?db)"
        "src_object_id (if p r then f r else r) = da_object_id a"
      using same by (auto simp: in_sql_update)
    with a show ?thesis unfolding authorization_ok_def by auto
  qed
  moreover have "deletion_backed ?db r" if "r \<in> set (sql_update p f (source_objects db))" "src_status r = SourceDeleted" for r
    using that(1)
  proof (cases rule: in_sql_updateE)
    case (changed r0)
    with del that show ?thesis by (auto simp: deletion_backed_def)
  next
    case kept
    with inv that show ?thesis by (auto simp: db_inv_def deletion_backed_def)
  qed
  ultimately show ?thesis using inv by (simp add: db_inv_def keys_unique_def)
qed

lemma inv_source_insert:
  assumes inv: "db_inv db" and "src_tab.lookup (source_key x) (source_objects db) = None"
    and "sid_tab.lookup (source_id x) (source_objects db) = None"
    and "source_row_ok x" and "src_status x \<noteq> SourceDeleted"
  shows "db_inv (db\<lparr>source_objects := sql_insert x (source_objects db)\<rparr>)"
  using assms
  by (auto simp: db_inv_def keys_unique_def table_simps src_tab.uniq_insert sid_tab.uniq_insert
      authorization_ok_def deletion_backed_def)

lemma inv_ownership:
  assumes "db_inv db" and "own_tab.uniq t" and "list_all (\<lambda>r. 0 < oe_owner_epoch r) t"
  shows "db_inv (db\<lparr>ownership := t\<rparr>)"
  using assms by (simp add: db_inv_def keys_unique_def authorization_ok_def deletion_backed_def)

lemma inv_cursors:
  assumes "db_inv db" and "cur_tab.uniq t"
  shows "db_inv (db\<lparr>source_cursors := t\<rparr>)"
  using assms by (simp add: db_inv_def keys_unique_def authorization_ok_def deletion_backed_def)

lemma inv_partition_cursors: "db_inv db \<Longrightarrow> db_inv (db\<lparr>partition_cursors := t\<rparr>)"
  by (simp add: db_inv_def keys_unique_def authorization_ok_def deletion_backed_def)

lemma inv_batches:
  assumes "db_inv db" and "bat_tab.uniq t"
    and "list_all (\<lambda>b. 0 \<le> bm_expected_rows b \<and> 0 \<le> bm_visible_rows b) t"
  shows "db_inv (db\<lparr>publication_manifests := t\<rparr>)"
  using assms by (simp add: db_inv_def keys_unique_def authorization_ok_def deletion_backed_def)

lemma inv_manifests:
  assumes "db_inv db" and "man_tab.uniq t" and "list_all manifest_row_ok t"
    and "rows_advance manifest_advance (archive_manifests db) t"
  shows "db_inv (db\<lparr>archive_manifests := t\<rparr>)"
proof -
  have "db_advance db (db\<lparr>archive_manifests := t\<rparr>)"
    using assms(4) by (simp add: db_advance_def rows_advance_refl)
  with assms show ?thesis
    by (auto simp: db_inv_def keys_unique_def deletion_backed_def intro: authorization_ok_advance)
qed

lemma inv_manifest_sources: "db_inv db \<Longrightarrow> db_inv (db\<lparr>manifest_sources := t\<rparr>)"
  by (simp add: db_inv_def keys_unique_def authorization_ok_def deletion_backed_def)

subsection \<open>Every write keeps the invariant and advances\<close>

definition safe_step :: "control_db \<Rightarrow> control_db \<Rightarrow> bool" where
  "safe_step db db' \<longleftrightarrow> (db_inv db \<longrightarrow> db_inv db' \<and> db_advance db db')"

lemma safe_step_refl [simp]: "safe_step db db"
  by (simp add: safe_step_def)

lemma safe_step_trans: "safe_step a b \<Longrightarrow> safe_step b c \<Longrightarrow> safe_step a c"
  by (auto simp: safe_step_def intro: db_advance_trans)

lemma safe_source_update:
  assumes "\<And>r. src_object_id (f r) = src_object_id r \<and> source_key (f r) = source_key r
      \<and> src_checksum (f r) = src_checksum r \<and> src_version (f r) = src_version r \<and> src_size_bytes (f r) = src_size_bytes r"
    and "\<And>r. db_inv db \<Longrightarrow> r \<in> set (source_objects db) \<Longrightarrow> p r \<Longrightarrow> source_row_ok r \<Longrightarrow>
      source_row_ok (f r) \<and> src_lease_generation r \<le> src_lease_generation (f r)"
    and "\<And>r. db_inv db \<Longrightarrow> r \<in> set (source_objects db) \<Longrightarrow> p r \<Longrightarrow> src_status (f r) = SourceDeleted \<Longrightarrow>
      deletion_backed db (f r)"
  shows "safe_step db (db\<lparr>source_objects := sql_update p f (source_objects db)\<rparr>)"
  unfolding safe_step_def
proof
  assume inv: "db_inv db"
  then have ok: "\<And>r. r \<in> set (source_objects db) \<Longrightarrow> source_row_ok r"
    by (auto simp: db_inv_def list_all_iff)
  have "rows_advance source_advance (source_objects db) (sql_update p f (source_objects db))"
    using assms(1) assms(2) [OF inv] ok by (intro rows_advance_update) (auto simp: source_advance_def)
  moreover have "db_inv (db\<lparr>source_objects := sql_update p f (source_objects db)\<rparr>)"
    using assms(1) assms(2) [OF inv] assms(3) [OF inv] by (intro inv_source_update [OF inv]) auto
  ultimately show "db_inv (db\<lparr>source_objects := sql_update p f (source_objects db)\<rparr>)
      \<and> db_advance db (db\<lparr>source_objects := sql_update p f (source_objects db)\<rparr>)"
    by (simp add: db_advance_def rows_advance_refl)
qed

lemma safe_ownership_update:
  assumes "\<And>r. oe_service_id (f r) = oe_service_id r \<and> oe_owner_epoch r \<le> oe_owner_epoch (f r)"
  shows "safe_step db (db\<lparr>ownership := sql_update p f (ownership db)\<rparr>)"
  unfolding safe_step_def
proof
  assume inv: "db_inv db"
  have "own_tab.uniq (sql_update p f (ownership db))"
    using inv assms by (intro own_tab.uniq_update) (auto simp: db_inv_def keys_unique_def)
  moreover have "list_all (\<lambda>r. 0 < oe_owner_epoch r) (sql_update p f (ownership db))"
  proof (rule list_all_sql_update)
    show "list_all (\<lambda>r. 0 < oe_owner_epoch r) (ownership db)" using inv by (simp add: db_inv_def)
    show "0 < oe_owner_epoch (f r)" if "0 < oe_owner_epoch r" for r using that assms [of r] by simp
  qed
  moreover have "rows_advance owner_advance (ownership db) (sql_update p f (ownership db))"
    using assms by (intro rows_advance_update) (simp_all add: owner_advance_def)
  ultimately show "db_inv (db\<lparr>ownership := sql_update p f (ownership db)\<rparr>)
      \<and> db_advance db (db\<lparr>ownership := sql_update p f (ownership db)\<rparr>)"
    using inv by (simp add: inv_ownership db_advance_def rows_advance_refl)
qed

lemma safe_manifest_update:
  assumes "\<And>r. r \<in> set (archive_manifests db) \<Longrightarrow> p r \<Longrightarrow> mr_state r \<le> s r"
  shows "safe_step db (db\<lparr>archive_manifests :=
      sql_update p (\<lambda>r. r\<lparr>mr_state := s r, mr_updated_at := clk\<rparr>) (archive_manifests db)\<rparr>)"
  unfolding safe_step_def
proof
  let ?f = "\<lambda>r. r\<lparr>mr_state := s r, mr_updated_at := clk\<rparr>"
  assume inv: "db_inv db"
  have adv: "rows_advance manifest_advance (archive_manifests db) (sql_update p ?f (archive_manifests db))"
    using assms by (intro rows_advance_update) (auto simp: manifest_advance_def)
  have "list_all manifest_row_ok (sql_update p ?f (archive_manifests db))"
    using inv by (intro list_all_sql_update) (auto simp: db_inv_def manifest_row_ok_def)
  then have "db_inv (db\<lparr>archive_manifests := sql_update p ?f (archive_manifests db)\<rparr>)"
    using inv adv by (intro inv_manifests man_tab.uniq_update) (auto simp: db_inv_def keys_unique_def)
  with adv show "db_inv (db\<lparr>archive_manifests := sql_update p ?f (archive_manifests db)\<rparr>)
      \<and> db_advance db (db\<lparr>archive_manifests := sql_update p ?f (archive_manifests db)\<rparr>)"
    by (simp add: db_advance_def rows_advance_refl)
qed

lemma inv_keys:
  assumes "db_inv db"
  shows "own_tab.uniq (ownership db)" and "cur_tab.uniq (source_cursors db)" and "src_tab.uniq (source_objects db)"
    and "sid_tab.uniq (source_objects db)" and "man_tab.uniq (archive_manifests db)"
    and "auth_tab.uniq (deletion_authorizations db)" and "bat_tab.uniq (publication_manifests db)"
  using assms by (simp_all add: db_inv_def keys_unique_def)

lemma inv_epochs: "db_inv db \<Longrightarrow> list_all (\<lambda>r. 0 < oe_owner_epoch r) (ownership db)"
  by (simp add: db_inv_def)

lemma safe_cursors:
  assumes "cur_tab.uniq (source_cursors db) \<Longrightarrow> cur_tab.uniq t"
  shows "safe_step db (db\<lparr>source_cursors := t\<rparr>)"
  using assms by (auto simp: safe_step_def db_advance_def rows_advance_refl dest: inv_keys(2) intro: inv_cursors)

lemma safe_upsert_domain_cursor:
  assumes "upsert_domain_cursor clk s d c rc fp db = Inr db'"
  shows "safe_step db db'"
proof -
  have upd: "safe_step db (db\<lparr>source_cursors := sql_update p f (source_cursors db)\<rparr>)"
    if "\<And>r. cursor_key (f r) = cursor_key r" for p f
    using that by (intro safe_cursors cur_tab.uniq_update) auto
  have ins: "safe_step db (db\<lparr>source_cursors := sql_insert x (source_cursors db)\<rparr>)"
    if "sql_select (\<lambda>r. cursor_key r = cursor_key x) (source_cursors db) = []" for x
    using that by (intro safe_cursors cur_tab.uniq_insert) (auto simp: cur_tab.lookup_def)
  show ?thesis using assms
    by (auto simp: upsert_domain_cursor_def Let_def ebind_Inr_iff split: option.splits if_splits intro!: upd ins)
qed

lemma safe_upsert_partition_cursor: "safe_step db (upsert_partition_cursor clk s d p c db)"
  by (auto simp: safe_step_def upsert_partition_cursor_def Let_def db_advance_def rows_advance_refl
      intro!: inv_partition_cursors)

lemma safe_initialize_owner:
  assumes "initialize_owner clk s w c db = Inr (x, db')"
  shows "safe_step db db'"
proof (cases "owner_row db s")
  case None
  with assms have db': "db' = db\<lparr>ownership := sql_insert
      \<lparr>oe_service_id = s, oe_owner_epoch = 1, oe_current_owner = w, oe_previous_owner = None, oe_source_cursor = c,
       oe_drain_complete = False, oe_cutover_committed = False, oe_rollback_allowed = False, oe_updated_at = clk\<rparr>
      (ownership db)\<rparr>"
    by (auto simp: initialize_owner_def ebind_Inr_iff Let_def)
  show ?thesis unfolding safe_step_def db'
    using None by (auto simp: row_lookups table_simps db_advance_def rows_advance_refl rows_advance_insert inv_keys
        inv_epochs intro!: inv_ownership own_tab.uniq_insert)
next
  case (Some r)
  with assms show ?thesis by (auto simp: initialize_owner_def ebind_Inr_iff Let_def)
qed

lemma safe_advance_source_cursor:
  assumes "advance_source_cursor clk s c w e d rc fp db = Inr (x, db')"
  shows "safe_step db db'"
  using assms
  by (auto simp: advance_source_cursor_def ebind_Inr_iff Let_def split: option.splits
      intro: safe_upsert_domain_cursor intro!: safe_ownership_update)

lemma safe_advance_reinspection_state:
  assumes "advance_reinspection_state clk s d rc fp w e db = Inr (x, db')"
  shows "safe_step db db'"
proof -
  from assms have db': "db' = db\<lparr>source_cursors := sql_update (\<lambda>r. cursor_key r = (s, d))
      (\<lambda>r. r\<lparr>sc_reinspection_cursor := rc, sc_forward_pages := fp, sc_updated_at := clk\<rparr>) (source_cursors db)\<rparr>"
    by (auto simp: advance_reinspection_state_def ebind_Inr_iff)
  show ?thesis unfolding db' by (intro safe_cursors cur_tab.uniq_update) auto
qed

lemma safe_begin_drain: "begin_drain clk s w db = Inr (x, db') \<Longrightarrow> safe_step db db'"
  by (auto simp: begin_drain_def ebind_Inr_iff Let_def intro!: safe_ownership_update)

lemma safe_rollback: "rollback clk s e db = Inr (x, db') \<Longrightarrow> safe_step db db'"
  by (auto simp: rollback_def ebind_Inr_iff Let_def split: option.splits intro!: safe_ownership_update)

lemma safe_discover_source:
  assumes "discover_source sha clk s d k c sz v w e db = Inr (x, db')"
  shows "safe_step db db'"
proof (cases "source_row db s k")
  case None
  define new where "new = \<lparr>src_object_id = source_object_id sha s d k c, src_service_id = s, src_domain = d,
     src_object_key = k, src_checksum = c, src_size_bytes = sz, src_version = v, src_status = Discovered,
     src_owner = None, src_lease_until = None, src_lease_generation = 0, src_archive_manifest_id = None,
     src_owner_epoch = None, src_malformed_rows = 0, src_accepted_rows = 0, src_last_error = None,
     src_discovered_at = clk, src_updated_at = clk\<rparr>"
  from assms None have "0 \<le> sz" "sql_select (\<lambda>r. src_object_id r = src_object_id new) (source_objects db) = []"
      and db': "db' = db\<lparr>source_objects := sql_insert new (source_objects db)\<rparr>"
    by (auto simp: discover_source_def ebind_Inr_iff Let_def new_def split: if_splits option.splits)
  then show ?thesis unfolding safe_step_def db'
    using None by (auto simp: row_lookups new_def sid_tab.lookup_def source_row_ok_def db_advance_def rows_advance_refl
        rows_advance_insert intro!: inv_source_insert)
next
  case (Some r)
  with assms show ?thesis
    by (auto simp: discover_source_def ebind_Inr_iff Let_def split: if_splits)
qed

lemma claimed_generation:
  assumes "db_inv db" and "source_row db s k = Some row" and "r \<in> set (source_objects db)"
    and "src_object_id r = src_object_id row"
  shows "r = row"
proof -
  from assms(2) have "row \<in> set (source_objects db)" by (simp add: row_lookups src_tab.lookup_Some_in)
  with assms show ?thesis by (blast intro: sid_tab.uniq_inj inv_keys(4))
qed

lemma safe_claim_source:
  assumes "claim_source clk s k w ow e l obs db = Inr (x, db')"
  shows "safe_step db db'"
proof -
  from assms obtain row where row: "source_row db s k = Some row"
    and db': "db' = db \<or> db' = db\<lparr>source_objects := sql_update (\<lambda>r. src_object_id r = src_object_id row)
        (\<lambda>r. r\<lparr>src_status := Claimed, src_owner := Some w, src_lease_until := Some (obs + l),
               src_lease_generation := src_lease_generation row + 1, src_owner_epoch := Some e,
               src_updated_at := clk\<rparr>) (source_objects db)\<rparr>"
    by (auto simp: claim_source_def ebind_Inr_iff locked_source_Inr_iff Let_def split: if_splits)
  from db' show ?thesis
  proof
    assume "db' = db\<lparr>source_objects := sql_update (\<lambda>r. src_object_id r = src_object_id row)
        (\<lambda>r. r\<lparr>src_status := Claimed, src_owner := Some w, src_lease_until := Some (obs + l),
               src_lease_generation := src_lease_generation row + 1, src_owner_epoch := Some e,
               src_updated_at := clk\<rparr>) (source_objects db)\<rparr>"
    then show ?thesis
      by (auto simp: source_row_ok_def dest!: claimed_generation [OF _ row] intro!: safe_source_update)
  qed simp
qed

lemma claim_sources_batch_run:
  assumes "claim_sources_batch clk s ks w l e ow t db = Inr (x, db')"
  shows "(x, db') = (let rows = claim_candidates s ks db; held = map source_from_row (held_rows w t rows);
      keys = keys_to_claim t rows; db1 = claim_keys clk s keys w (t + l) e db
    in if ks = [] then ([], db) else if keys = [] then (held, db)
       else (held @ map source_from_row (sql_select
               (\<lambda>r. src_service_id r = s \<and> src_object_key r \<in> set keys) (source_objects db1)), db1))"
proof -
  from assms have "(if ks = [] then Inr ([], db)
     else
       (let rows = claim_candidates s ks db;
            held = map source_from_row (held_rows w t rows);
            keys = keys_to_claim t rows
        in if keys = [] then Inr (held, db)
           else
             (let db' = claim_keys clk s keys w (t + l) e db
              in Inr (held @ map source_from_row (sql_select
                        (\<lambda>r. src_service_id r = s \<and> src_object_key r \<in> set keys) (source_objects db')),
                      db')))) = (Inr (x, db') :: (source_object_record list \<times> control_db) result)"
    unfolding claim_sources_batch_def ebind_Inr_iff by (elim exE conjE) assumption
  then show ?thesis unfolding Let_def
    by (cases "ks = []"; cases "keys_to_claim t (claim_candidates s ks db) = []"; simp only: if_True if_False sum.inject simp_thms)
qed

lemma claim_sources_batch_cases:
  assumes "claim_sources_batch clk s ks w l e ow t db = Inr (x, db')"
  obtains (none) "x = []" "db' = db"
    | (held) "x = map source_from_row (held_rows w t (claim_candidates s ks db))" "db' = db"
    | (taken) "x = map source_from_row (held_rows w t (claim_candidates s ks db)) @ map source_from_row (sql_select
         (\<lambda>r. src_service_id r = s \<and> src_object_key r \<in> set (keys_to_claim t (claim_candidates s ks db)))
         (source_objects db'))"
       "db' = claim_keys clk s (keys_to_claim t (claim_candidates s ks db)) w (t + l) e db"
proof (cases "ks = [] \<or> keys_to_claim t (claim_candidates s ks db) = []")
  case True
  with claim_sources_batch_run [OF assms] none held show thesis
    by (cases "ks = []") (simp_all add: Let_def)
next
  case False
  with claim_sources_batch_run [OF assms] show thesis
    by (intro taken) (simp_all add: Let_def)
qed

lemma safe_claim_keys: "safe_step db (claim_keys clk s ks w t e db)"
  by (auto simp: claim_keys_def source_row_ok_def intro!: safe_source_update)

lemma safe_claim_sources_batch:
  assumes "claim_sources_batch clk s ks w l e ow obs db = Inr (x, db')"
  shows "safe_step db db'"
  using assms by (cases rule: claim_sources_batch_cases) (simp_all add: safe_claim_keys)

lemma safe_mark_source_missing: "mark_source_missing s k w e err obs db = Inr (x, db') \<Longrightarrow> safe_step db db'"
  by (auto simp: mark_source_missing_def ebind_Inr_iff source_row_ok_def split: if_splits intro!: safe_source_update)

lemma safe_record_source_counts: "record_source_counts clk s k a m e db = Inr (x, db') \<Longrightarrow> safe_step db db'"
  by (auto simp: record_source_counts_def ebind_Inr_iff source_row_ok_def intro!: safe_source_update)

lemma safe_fail_sources_batch: "fail_sources_batch clk s ks e err db = Inr (x, db') \<Longrightarrow> safe_step db db'"
  by (auto simp: fail_sources_batch_def ebind_Inr_iff source_row_ok_def split: if_splits intro!: safe_source_update)

lemma safe_acknowledge_sources_batch:
  assumes "acknowledge_sources_batch clk s ks m e nc d p db = Inr (x, db')"
  shows "safe_step db db'"
proof -
  define db1 where "db1 = (if ks = [] then db else db\<lparr>source_objects := sql_update
      (\<lambda>r. src_service_id r = s \<and> src_object_key r \<in> set ks)
      (\<lambda>r. r\<lparr>src_status := Acknowledged, src_archive_manifest_id := Some m, src_lease_until := None,
             src_updated_at := clk\<rparr>) (source_objects db)\<rparr>)"
  have ack: "safe_step db db1"
    by (auto simp: db1_def source_row_ok_def intro!: safe_source_update)
  from assms consider "db' = db1"
    | c where "db' = upsert_partition_cursor clk s d p c db1"
    | c where "upsert_domain_cursor clk s d c None None (upsert_partition_cursor clk s d p c db1) = Inr db'"
    by (auto simp: acknowledge_sources_batch_def ebind_Inr_iff Let_def db1_def [symmetric] split: option.splits if_splits)
  then show ?thesis
    by cases (use ack in \<open>blast intro: safe_step_trans safe_upsert_partition_cursor safe_upsert_domain_cursor\<close>)+
qed

lemma safe_put_batch_manifest:
  assumes "put_batch_manifest clk b db = Inr (x, db')"
  shows "safe_step db db'"
proof -
  let ?t = "publication_manifests db"
  let ?ok = "\<lambda>b. 0 \<le> bm_expected_rows b \<and> 0 \<le> bm_visible_rows b"
  define upd where "upd = sql_update (\<lambda>r. bm_batch_id r = bm_batch_id b)
     (\<lambda>r. r\<lparr>bm_visible_rows := bm_visible_rows b, bm_status := bm_status b, bm_updated_at := clk\<rparr>) ?t"
  define new where "new = \<lparr>bm_batch_id = bm_batch_id b, bm_service_id = bm_service_id b, bm_domain = bm_domain b,
     bm_generation = bm_generation b, bm_digest = bm_digest b, bm_expected_rows = bm_expected_rows b,
     bm_status = bm_status b, bm_visible_rows = bm_visible_rows b, bm_updated_at = clk\<rparr>"
  from assms have nn: "0 \<le> bm_expected_rows b" "0 \<le> bm_visible_rows b"
    and db': "db' = db\<lparr>publication_manifests :=
       if sql_select (\<lambda>r. bm_batch_id r = bm_batch_id b) ?t \<noteq> [] then upd else sql_insert new ?t\<rparr>"
    by (auto simp: put_batch_manifest_def ebind_Inr_iff upd_def new_def)
  have step: "safe_step db (db\<lparr>publication_manifests := t\<rparr>)"
    if "bat_tab.uniq ?t \<Longrightarrow> bat_tab.uniq t" "list_all ?ok ?t \<Longrightarrow> list_all ?ok t" for t
    using that by (auto simp: safe_step_def db_advance_def rows_advance_refl inv_keys intro!: inv_batches)
      (simp add: db_inv_def)
  show ?thesis unfolding db'
  proof (cases "sql_select (\<lambda>r. bm_batch_id r = bm_batch_id b) ?t \<noteq> []")
    case True
    have "safe_step db (db\<lparr>publication_manifests := upd\<rparr>)" unfolding upd_def
      using nn by (intro step bat_tab.uniq_update list_all_sql_update) auto
    with True show "safe_step db (db\<lparr>publication_manifests :=
       if sql_select (\<lambda>r. bm_batch_id r = bm_batch_id b) ?t \<noteq> [] then upd else sql_insert new ?t\<rparr>)" by simp
  next
    case False
    then have "safe_step db (db\<lparr>publication_manifests := sql_insert new ?t\<rparr>)"
      using nn by (intro step bat_tab.uniq_insert) (auto simp: new_def bat_tab.lookup_def table_simps)
    with False show "safe_step db (db\<lparr>publication_manifests :=
       if sql_select (\<lambda>r. bm_batch_id r = bm_batch_id b) ?t \<noteq> [] then upd else sql_insert new ?t\<rparr>)" by simp
  qed
qed

lemma safe_transition_archive_manifest:
  assumes "transition_archive_manifest fi clk m a b e db = Inr (x, db')"
  shows "safe_step db db'"
proof -
  from assms have "a < b" and db': "db' = db\<lparr>archive_manifests := sql_update
      (\<lambda>r. mr_manifest_id r = m \<and> mr_owner_epoch r = e \<and> mr_state r = a)
      (\<lambda>r. r\<lparr>mr_state := b, mr_updated_at := clk\<rparr>) (archive_manifests db)\<rparr>"
    by (auto simp: transition_archive_manifest_def ebind_Inr_iff Let_def dest: validate_archive_transition_less)
  then show ?thesis unfolding db' by (intro safe_manifest_update) auto
qed

lemma safe_mark_archive_expired:
  assumes "mark_archive_expired clk m db = Inr (x, db')"
  shows "safe_step db db'"
proof -
  let ?p = "\<lambda>r. mr_manifest_id r = m \<and> mr_archive_expired_at r = None"
  let ?f = "\<lambda>r. r\<lparr>mr_archive_expired_at := Some clk, mr_updated_at := clk\<rparr>"
  from assms have db': "db' = db\<lparr>archive_manifests := sql_update ?p ?f (archive_manifests db)\<rparr>"
    by (auto simp: mark_archive_expired_def ebind_Inr_iff)
  have adv: "rows_advance manifest_advance (archive_manifests db) (sql_update ?p ?f (archive_manifests db))"
    by (intro rows_advance_update) (auto simp: manifest_advance_def)
  have "list_all manifest_row_ok (sql_update ?p ?f (archive_manifests db))" if "db_inv db"
    using that by (intro list_all_sql_update) (auto simp: db_inv_def manifest_row_ok_def)
  with adv show ?thesis unfolding safe_step_def db'
    by (auto simp: db_advance_def rows_advance_refl inv_keys intro!: inv_manifests man_tab.uniq_update)
qed

lemma safe_register_archive_manifest:
  assumes "register_archive_manifest fi clk m e st db = Inr (x, db')"
  shows "safe_step db db'"
proof -
  from assms obtain s d t where ok: "manifest_row_ok (manifest_to_row clk m s d e st)"
    and db': "db' = db\<lparr>archive_manifests :=
        (if manifest_row db (am_manifest_id m) \<noteq> None then archive_manifests db
         else sql_insert (manifest_to_row clk m s d e st) (archive_manifests db)), manifest_sources := t\<rparr>"
    by (auto simp: register_archive_manifest_def ebind_Inr_iff Let_def)
  have mid: "mr_manifest_id (manifest_to_row clk m s d e st) = am_manifest_id m"
    by (simp add: manifest_to_row_def Let_def)
  show ?thesis
  proof (cases "manifest_row db (am_manifest_id m)")
    case None
    have "db_inv (db\<lparr>archive_manifests := sql_insert (manifest_to_row clk m s d e st) (archive_manifests db)\<rparr>)"
      if inv: "db_inv db"
      using inv None ok mid
      by (intro inv_manifests man_tab.uniq_insert rows_advance_insert)
        (auto simp: inv_keys row_lookups table_simps, simp add: db_inv_def)
    then have "db_inv (db\<lparr>archive_manifests := sql_insert (manifest_to_row clk m s d e st) (archive_manifests db),
        manifest_sources := t\<rparr>)" if "db_inv db"
      using that by (intro inv_manifest_sources) blast
    with None show ?thesis unfolding safe_step_def db'
      by (auto simp: db_advance_def rows_advance_refl rows_advance_insert)
  next
    case (Some r)
    then show ?thesis unfolding safe_step_def db'
      by (auto simp: db_advance_def rows_advance_refl intro: inv_manifest_sources)
  qed
qed

lemma authorize_source_delete_cases:
  assumes "authorize_source_delete fi clk s k m e lease obs db = Inr (x, db')"
  obtains row man where "\<not> lease" "source_row db s k = Some row" "src_status row \<in> {Archived, Acknowledged}"
    "src_archive_manifest_id row = Some m" "src_owner_epoch row = Some e"
    "manifest_row db m = Some man" "mr_state man = DELETION_ELIGIBLE"
    "mr_deletion_authorization_deadline man \<le> obs"
    "\<exists>w. owner_row db s = Some w \<and> oe_owner_epoch w = e"
    "db' = db \<or> authorization_row db (src_object_id row) m = None \<and>
       db' = db\<lparr>deletion_authorizations := sql_insert
         \<lparr>da_object_id = src_object_id row, da_manifest_id = m, da_owner_epoch = e, da_authorized_at = clk,
          da_consumed_at = None\<rparr> (deletion_authorizations db)\<rparr>"
    "\<exists>a. authorization_row db' (src_object_id row) m = Some a \<and> da_consumed_at a = None
       \<and> x = authorization_from_row a"
proof -
  from assms obtain row rec where r: "\<not> lease" "source_row db s k = Some row" "src_status row \<in> {Archived, Acknowledged}"
    "src_archive_manifest_id row = Some m" "src_owner_epoch row = Some e"
    and rec: "get_archive_manifest fi db m = Inr rec" "amr_state rec = DELETION_ELIGIBLE"
      "am_deletion_authorization_deadline (amr_manifest rec) \<le> obs"
    and w: "\<exists>w. owner_row db s = Some w \<and> oe_owner_epoch w = e"
    and db': "db' = db \<or> authorization_row db (src_object_id row) m = None \<and>
       db' = db\<lparr>deletion_authorizations := sql_insert
         \<lparr>da_object_id = src_object_id row, da_manifest_id = m, da_owner_epoch = e, da_authorized_at = clk,
          da_consumed_at = None\<rparr> (deletion_authorizations db)\<rparr>"
    and a: "\<exists>a. authorization_row db' (src_object_id row) m = Some a \<and> da_consumed_at a = None
       \<and> x = authorization_from_row a"
    by (auto simp: authorize_source_delete_def ebind_Inr_iff locked_source_Inr_iff fenced_owner_Inr_iff Let_def
        split: option.splits if_splits)
  from rec(1) obtain man where "manifest_row db m = Some man" "archive_from_row fi man [] = Inr rec"
    by (auto simp: get_archive_manifest_Inr_iff)
  with archive_from_row_Inr [of fi man rec] rec r w db' a that show thesis by auto
qed

lemma safe_authorize_source_delete:
  assumes "authorize_source_delete fi clk s k m e lease obs db = Inr (x, db')"
  shows "safe_step db db'"
  using assms
proof (cases rule: authorize_source_delete_cases)
  case (1 row man)
  define new where "new = \<lparr>da_object_id = src_object_id row, da_manifest_id = m, da_owner_epoch = e,
     da_authorized_at = clk, da_consumed_at = (None :: timestamp option)\<rparr>"
  have "row \<in> set (source_objects db)" "man \<in> set (archive_manifests db)" "mr_manifest_id man = m"
    using 1 by (auto simp: row_lookups dest: src_tab.lookup_Some_in man_tab.lookup_Some_in man_tab.lookup_Some_pk)
  with 1 have new: "authorization_ok db new"
    by (auto simp: authorization_ok_def new_def)
  from 1(10) show ?thesis
  proof
    assume db': "authorization_row db (src_object_id row) m = None \<and>
       db' = db\<lparr>deletion_authorizations := sql_insert
         \<lparr>da_object_id = src_object_id row, da_manifest_id = m, da_owner_epoch = e, da_authorized_at = clk,
          da_consumed_at = None\<rparr> (deletion_authorizations db)\<rparr>"
    then have fresh: "auth_tab.lookup (authorization_key new) (deletion_authorizations db) = None"
      and db': "db' = db\<lparr>deletion_authorizations := sql_insert new (deletion_authorizations db)\<rparr>"
      by (simp_all add: row_lookups new_def)
    have "db_inv db'" if "db_inv db"
      using that new auth_tab.uniq_insert [OF inv_keys(6) [OF that] fresh] unfolding db'
      by (auto simp: db_inv_def keys_unique_def table_simps authorization_ok_def deletion_backed_def)
    then show ?thesis by (simp add: safe_step_def db' db_advance_def rows_advance_refl rows_advance_insert)
  qed simp
qed

lemma mark_source_deleted_cases:
  assumes "mark_source_deleted fi clk s k m e db = Inr (x, db')"
  obtains (again) row where "source_row db s k = Some row" "src_status row = SourceDeleted"
      "src_archive_manifest_id row = Some m" "db' = db"
    | (marked) row a rec where "source_row db s k = Some row" "src_status row \<in> {Archived, Acknowledged}"
      "src_archive_manifest_id row = Some m" "a \<in> set (deletion_authorizations db)"
      "authorization_key a = (src_object_id row, m)" "da_consumed_at a = None"
      "get_archive_manifest fi (deleted_db clk (src_object_id row) m db) m = Inr rec"
      "db' = finish_manifest clk s m e rec (deleted_db clk (src_object_id row) m db)"
proof -
  from assms obtain row where row: "source_row db s k = Some row"
    by (auto simp: mark_source_deleted_def ebind_Inr_iff locked_source_Inr_iff)
  show thesis
  proof (cases "src_status row = SourceDeleted \<and> src_archive_manifest_id row = Some m")
    case True
    with assms row show thesis
      by (intro again) (auto simp: mark_source_deleted_def ebind_Inr_iff locked_source_Inr_iff)
  next
    case False
    with assms row show thesis
      by (auto simp: mark_source_deleted_def ebind_Inr_iff locked_source_Inr_iff Let_def select_nonempty intro: marked)
  qed
qed

lemma archive_state_top: "st \<le> SOURCE_DELETED"
  by (cases st) (simp_all add: less_eq_archive_state_def)

lemma safe_finish_manifest: "safe_step db (finish_manifest clk s m e rec db)"
  by (auto simp: finish_manifest_def Let_def archive_state_top intro!: safe_manifest_update)

lemma safe_deleted_db:
  assumes row: "source_row db s k = Some row" and "src_archive_manifest_id row = Some m"
    and a: "a \<in> set (deletion_authorizations db)" "authorization_key a = (src_object_id row, m)"
      "da_consumed_at a = None"
  shows "safe_step db (deleted_db clk (src_object_id row) m db)"
proof -
  let ?p = "\<lambda>r. da_object_id r = src_object_id row \<and> da_manifest_id r = m \<and> da_consumed_at r = None"
  let ?f = "\<lambda>r. r\<lparr>da_consumed_at := Some clk\<rparr>"
  let ?auths = "sql_update ?p ?f (deletion_authorizations db)"
  let ?db1 = "db\<lparr>deletion_authorizations := ?auths\<rparr>"
  have adv: "rows_advance authorization_advance (deletion_authorizations db) ?auths"
    by (intro rows_advance_update) (auto simp: authorization_advance_def)
  have consumed: "?f a \<in> set ?auths" using a by (auto simp: in_sql_update)
  have "db_inv ?db1" if inv: "db_inv db"
  proof -
    have "auth_tab.uniq ?auths" by (intro auth_tab.uniq_update inv_keys(6) [OF inv]) simp
    moreover have "authorization_ok ?db1 x" if "x \<in> set ?auths" for x
    proof -
      from that obtain y where y: "y \<in> set (deletion_authorizations db)"
        "da_object_id x = da_object_id y" "da_manifest_id x = da_manifest_id y"
        by (auto simp: in_sql_update split: if_splits)
      with inv have "authorization_ok db y" by (simp add: db_inv_def)
      with y show ?thesis by (simp add: authorization_ok_def)
    qed
    moreover have "deletion_backed ?db1 r" if "deletion_backed db r" for r
    proof -
      from that obtain x where "x \<in> set (deletion_authorizations db)" "da_object_id x = src_object_id r"
        "src_archive_manifest_id r = Some (da_manifest_id x)" "da_consumed_at x \<noteq> None"
        by (auto simp: deletion_backed_def)
      then show ?thesis by (auto simp: deletion_backed_def in_sql_update intro!: bexI [of _ x])
    qed
    ultimately show ?thesis using inv by (simp add: db_inv_def keys_unique_def)
  qed
  with adv have s1: "safe_step db ?db1"
    by (simp add: safe_step_def db_advance_def rows_advance_refl)
  have only: "r = row" if "db_inv ?db1" "r \<in> set (source_objects db)" "src_object_id r = src_object_id row" for r
    using claimed_generation [OF that(1), of s k row r] row that by (simp add: row_lookups)
  have s2: "safe_step ?db1 (deleted_db clk (src_object_id row) m db)"
  proof -
    have eq: "deleted_db clk (src_object_id row) m db = ?db1\<lparr>source_objects := sql_update
        (\<lambda>r. src_object_id r = src_object_id row)
        (\<lambda>r. r\<lparr>src_status := SourceDeleted, src_lease_until := None, src_updated_at := clk\<rparr>) (source_objects ?db1)\<rparr>"
      by (simp add: deleted_db_def)
    have "deletion_backed ?db1 (r\<lparr>src_status := SourceDeleted, src_lease_until := None, src_updated_at := clk\<rparr>)"
      if "r = row" for r
      using that consumed a assms(2) by (auto simp: deletion_backed_def intro!: bexI [of _ "?f a"])
    then show ?thesis unfolding eq
      by (intro safe_source_update) (auto simp: source_row_ok_def dest!: only)
  qed
  from s1 s2 show ?thesis by (rule safe_step_trans)
qed

lemma safe_mark_source_deleted:
  assumes "mark_source_deleted fi clk s k m e db = Inr (x, db')"
  shows "safe_step db db'"
  using assms
proof (cases rule: mark_source_deleted_cases)
  case (marked row a rec)
  then show ?thesis by (auto intro: safe_step_trans safe_deleted_db safe_finish_manifest)
qed simp

subsection \<open>The state machine\<close>

text \<open>One rule per operation that writes. Worker interleavings are sequences of these steps.\<close>

inductive control_step :: "control_db \<Rightarrow> control_db \<Rightarrow> bool" where
  step_initialize: "initialize_owner clk s w c db = Inr (o1, db') \<Longrightarrow> control_step db db'"
| step_cursor: "advance_source_cursor clk s c w e d rc fp db = Inr (o1, db') \<Longrightarrow> control_step db db'"
| step_reinspection: "advance_reinspection_state clk s d1 rc1 fp1 w e db = Inr (u, db') \<Longrightarrow> control_step db db'"
| step_drain: "begin_drain clk s w db = Inr (o1, db') \<Longrightarrow> control_step db db'"
| step_rollback: "rollback clk s e db = Inr (o1, db') \<Longrightarrow> control_step db db'"
| step_discover: "discover_source sha clk s d1 k c sz v w e db = Inr (src, db') \<Longrightarrow> control_step db db'"
| step_claim: "claim_source clk s k w ow e l obs db = Inr (cl, db') \<Longrightarrow> control_step db db'"
| step_claim_batch: "claim_sources_batch clk s ks w l e ow1 obs db = Inr (srcs, db') \<Longrightarrow> control_step db db'"
| step_missing: "mark_source_missing s k w e err obs db = Inr (u, db') \<Longrightarrow> control_step db db'"
| step_counts: "record_source_counts clk s k na nm e db = Inr (u, db') \<Longrightarrow> control_step db db'"
| step_put_batch: "put_batch_manifest clk b db = Inr (u, db') \<Longrightarrow> control_step db db'"
| step_register: "register_archive_manifest fi clk m e st db = Inr (rec, db') \<Longrightarrow> control_step db db'"
| step_transition: "transition_archive_manifest fi clk mid st st' e db = Inr (rec, db') \<Longrightarrow> control_step db db'"
| step_expired: "mark_archive_expired clk mid db = Inr (u, db') \<Longrightarrow> control_step db db'"
| step_acknowledge: "acknowledge_sources_batch clk s ks mid e nc d1 p db = Inr (u, db') \<Longrightarrow> control_step db db'"
| step_fail: "fail_sources_batch clk s ks e err db = Inr (u, db') \<Longrightarrow> control_step db db'"
| step_authorize: "authorize_source_delete fi clk s k mid e lease obs db = Inr (auth, db') \<Longrightarrow> control_step db db'"
| step_deleted: "mark_source_deleted fi clk s k mid e db = Inr (u, db') \<Longrightarrow> control_step db db'"

lemma control_step_safe: "control_step db db' \<Longrightarrow> safe_step db db'"
  by (induction rule: control_step.induct)
    (fact safe_initialize_owner safe_advance_source_cursor safe_advance_reinspection_state safe_begin_drain
      safe_rollback safe_discover_source safe_claim_source safe_claim_sources_batch safe_mark_source_missing
      safe_record_source_counts safe_put_batch_manifest safe_register_archive_manifest
      safe_transition_archive_manifest safe_mark_archive_expired safe_acknowledge_sources_batch
      safe_fail_sources_batch safe_authorize_source_delete safe_mark_source_deleted)+

abbreviation control_steps :: "control_db \<Rightarrow> control_db \<Rightarrow> bool" where
  "control_steps \<equiv> control_step\<^sup>*\<^sup>*"

lemma control_steps_safe: "control_steps db db' \<Longrightarrow> safe_step db db'"
  by (induction rule: rtranclp_induct) (auto intro: safe_step_trans control_step_safe)

lemma reachable_inv: "control_steps create_schema db \<Longrightarrow> db_inv db"
  using control_steps_safe db_inv_empty by (auto simp: safe_step_def)

subsection \<open>Properties of the control plane\<close>

text \<open>A database with one owner and one discovered source, for the examples.\<close>

definition example_fi :: "string \<Rightarrow> timestamp result" where
  "example_fi t = Inl (ValueError ''Invalid isoformat string'')"

definition example_owner :: ownership_row where
  "example_owner = \<lparr>oe_service_id = ''svc'', oe_owner_epoch = 1, oe_current_owner = ''high_scale'',
     oe_previous_owner = None, oe_source_cursor = ''c0'', oe_drain_complete = False, oe_cutover_committed = False,
     oe_rollback_allowed = False, oe_updated_at = 5\<rparr>"

definition example_source :: source_object_row where
  "example_source = \<lparr>src_object_id = ''svc'' @ [CHR 0x00] @ ''request'' @ [CHR 0x00] @ ''k1'' @ [CHR 0x00] @ ''c1'',
     src_service_id = ''svc'', src_domain = ''request'', src_object_key = ''k1'', src_checksum = ''c1'',
     src_size_bytes = 10, src_version = None, src_status = Discovered, src_owner = None, src_lease_until = None,
     src_lease_generation = 0, src_archive_manifest_id = None, src_owner_epoch = None, src_malformed_rows = 0,
     src_accepted_rows = 0, src_last_error = None, src_discovered_at = 6, src_updated_at = 6\<rparr>"

definition example_db :: control_db where
  "example_db = create_schema\<lparr>ownership := [example_owner], source_objects := [example_source]\<rparr>"

lemma example_db_reachable: "control_steps create_schema example_db"
proof -
  have "initialize_owner 5 ''svc'' ''high_scale'' ''c0'' create_schema =
      Inr (owner_from_row example_owner, create_schema\<lparr>ownership := [example_owner]\<rparr>)"
    by code_simp
  then have "control_step create_schema (create_schema\<lparr>ownership := [example_owner]\<rparr>)"
    by (rule step_initialize)
  moreover have "discover_source (\<lambda>t. t) 6 ''svc'' ''request'' ''k1'' ''c1'' 10 None ''high_scale'' 1
      (create_schema\<lparr>ownership := [example_owner]\<rparr>) = Inr (source_from_row example_source, example_db)"
    by code_simp
  then have "control_step (create_schema\<lparr>ownership := [example_owner]\<rparr>) example_db"
    by (rule step_discover)
  ultimately show ?thesis by (meson rtranclp.rtrancl_into_rtrancl rtranclp.rtrancl_refl)
qed

text \<open>
  C3. Every database the control plane can reach has unique keys, positive epochs, leased rows
  with owner, lease and epoch, manifests within the bounds of the schema, authorizations only for
  known sources and deletion-eligible manifests, and deleted sources only with a consumed
  authorization.
\<close>

theorem control_plane_invariant:
  assumes "control_steps create_schema db"
  shows "db_inv db"
  using assms by (rule reachable_inv)

theorem control_plane_invariant_witness: "db_inv example_db"
  by (rule control_plane_invariant) (rule example_db_reachable)

text \<open>
  The control plane only moves forward: from a reachable database no sequence of operations
  removes a row, lowers an owner epoch or a lease generation, changes the identity of a source,
  moves an archive manifest back or alters its content, or takes back a consumed authorization.
\<close>

theorem control_plane_advances:
  assumes "control_steps create_schema db" and "control_steps db db'"
  shows "db_advance db db'"
  using control_steps_safe [OF assms(2)] reachable_inv [OF assms(1)] by (simp add: safe_step_def)

theorem control_plane_advances_witness:
  "\<exists>db'. control_steps example_db db' \<and> db_advance example_db db'
     \<and> (\<exists>r \<in> set (source_objects db'). src_lease_generation r = 1)"
proof -
  define db' where "db' = example_db\<lparr>source_objects := [example_source\<lparr>src_status := Claimed, src_owner := Some ''w1'',
    src_lease_until := Some 110, src_lease_generation := 1, src_owner_epoch := Some 1, src_updated_at := 8\<rparr>]\<rparr>"
  have "claim_source 8 ''svc'' ''k1'' ''w1'' ''high_scale'' 1 100 10 example_db =
      Inr (\<lparr>cl_object_id = src_object_id example_source, cl_claimed = True, cl_lease_generation = 1\<rparr>, db')"
    unfolding db'_def by code_simp
  then have "control_steps example_db db'" by (auto dest: step_claim)
  moreover from this have "db_advance example_db db'"
    by (rule control_plane_advances [OF example_db_reachable])
  ultimately show ?thesis by (auto simp: db'_def)
qed

text \<open>
  C5. Epoch fencing: a worker that still holds an earlier (or any other) owner epoch is refused
  by every fenced operation, and since a refused operation raises, nothing it does reaches the
  database.
\<close>

theorem stale_epoch_refused:
  assumes "owner_row db s = Some w" and "oe_owner_epoch w \<noteq> e"
  shows "\<not> is_ok (advance_source_cursor clk s c ow e d rc fp db)
    \<and> \<not> is_ok (advance_reinspection_state clk s d1 rc1 fp1 ow e db)
    \<and> \<not> is_ok (rollback clk s e db)
    \<and> \<not> is_ok (discover_source sha clk s d1 k ck sz v ow e db)
    \<and> \<not> is_ok (claim_source clk s k wk ow e l obs db)
    \<and> \<not> is_ok (claim_sources_batch clk s ks wk l e ow1 obs db)
    \<and> \<not> is_ok (mark_source_missing s k ow e err obs db)
    \<and> \<not> is_ok (record_source_counts clk s k na nm e db)
    \<and> \<not> is_ok (acknowledge_sources_batch clk s ks mid e nc d1 p db)
    \<and> \<not> is_ok (fail_sources_batch clk s ks e err db)
    \<and> \<not> is_ok (authorize_source_delete fi clk s k mid e lease obs db)
    \<and> \<not> is_ok (mark_source_deleted fi clk s k mid e db)
    \<and> (am_service_id m = s \<and> s \<noteq> [] \<longrightarrow> \<not> is_ok (register_archive_manifest fi clk m e st db))"
proof -
  have stale: "fenced_owner db s e who f \<noteq> Inr x" for who f x
    using assms by (auto simp: fenced_owner_Inr_iff)
  show ?thesis
    by (simp add: advance_source_cursor_def advance_reinspection_state_def rollback_def discover_source_def
        claim_source_def claim_sources_batch_def mark_source_missing_def record_source_counts_def
        acknowledge_sources_batch_def fail_sources_batch_def authorize_source_delete_def mark_source_deleted_def
        register_archive_manifest_def or_text_def is_ok_ebind Let_def stale)
qed

theorem stale_epoch_refused_witness:
  "\<not> is_ok (claim_source 8 ''svc'' ''k1'' ''w1'' ''high_scale'' 2 100 10 example_db)"
proof -
  have "owner_row example_db ''svc'' = Some example_owner" and "oe_owner_epoch example_owner \<noteq> 2"
    by (simp_all add: example_db_def owner_row_def sql_select_def example_owner_def)
  from stale_epoch_refused [where clk = 8 and k = "''k1''" and wk = "''w1''" and ow = "''high_scale''" and l = 100
      and obs = 10, OF this, THEN conjunct2, THEN conjunct2, THEN conjunct2, THEN conjunct2, THEN conjunct1]
  show ?thesis .
qed

lemma batch_claim_row:
  assumes inv: "db_inv db" and row: "source_row db s k = Some row"
    and active: "lease_active (src_lease_until row) t" and other: "src_owner row \<noteq> Some w"
    and run: "claim_sources_batch clk s ks w l e ow t db = Inr (srcs, db')"
  shows "k \<notin> src_object_key ` set srcs \<and> source_row db' s k = Some row"
proof -
  let ?rows = "claim_candidates s ks db"
  have in_rows: "r = row" if "r \<in> set ?rows" "src_object_key r = k" for r
    using that row src_tab.lookup_in [OF inv_keys(3) [OF inv], of r]
    by (auto simp: claim_candidates_def sql_select_def row_lookups)
  with active have k: "k \<notin> set (keys_to_claim t ?rows)" by (auto simp: keys_to_claim_def)
  have held: "k \<notin> src_object_key ` set (held_rows w t ?rows)"
    using in_rows other by (auto simp: held_rows_def)
  from run show ?thesis
  proof (cases rule: claim_sources_batch_cases)
    case none
    with row show ?thesis by simp
  next
    case held
    with \<open>k \<notin> src_object_key ` set (held_rows w t ?rows)\<close> row show ?thesis by (auto simp: image_image)
  next
    case taken
    have "src_object_key row = k" using src_tab.lookup_Some_pk [OF row [unfolded row_lookups]] by simp
    then have "source_row db' s k = Some row"
      using row k unfolding taken(2) claim_keys_def by (simp add: row_lookups src_tab.lookup_update)
    moreover have "k \<notin> src_object_key ` set srcs"
      using held k unfolding taken(1) by (auto simp: sql_select_def)
    ultimately show ?thesis by simp
  qed
qed

lemma claim_source_row:
  assumes inv: "db_inv db" and run: "claim_source clk s k w ow e l t db = Inr (c, db')" and "cl_claimed c"
  shows "\<exists>row L. source_row db' s k = Some row \<and> claimable (src_status row) \<and> src_owner row = Some w
    \<and> src_lease_until row = Some L \<and> t < L"
proof -
  from run obtain row where row: "source_row db s k = Some row" and cl: "claimable (src_status row)" and "0 < l"
    and cases: "lease_active (src_lease_until row) t \<and> db' = db \<and> cl_claimed c = (src_owner row = Some w)
      \<or> \<not> lease_active (src_lease_until row) t \<and> db' = db\<lparr>source_objects := sql_update (\<lambda>r. src_object_id r = src_object_id row)
        (\<lambda>r. r\<lparr>src_status := Claimed, src_owner := Some w, src_lease_until := Some (t + l),
               src_lease_generation := src_lease_generation row + 1, src_owner_epoch := Some e,
               src_updated_at := clk\<rparr>) (source_objects db)\<rparr>"
    by (auto simp: claim_source_def ebind_Inr_iff locked_source_Inr_iff Let_def split: if_splits)
  from cases show ?thesis
  proof
    assume "lease_active (src_lease_until row) t \<and> db' = db \<and> cl_claimed c = (src_owner row = Some w)"
    with row cl \<open>cl_claimed c\<close> show ?thesis by (auto simp: lease_active_def split: option.splits)
  next
    assume "\<not> lease_active (src_lease_until row) t \<and> db' = db\<lparr>source_objects :=
        sql_update (\<lambda>r. src_object_id r = src_object_id row)
        (\<lambda>r. r\<lparr>src_status := Claimed, src_owner := Some w, src_lease_until := Some (t + l),
               src_lease_generation := src_lease_generation row + 1, src_owner_epoch := Some e,
               src_updated_at := clk\<rparr>) (source_objects db)\<rparr>"
    with row \<open>0 < l\<close> show ?thesis by (simp add: row_lookups src_tab.lookup_update claimable_def)
  qed
qed



subsection \<open>Registration\<close>

text \<open>What \<open>register_archive_manifest\<close> can store and return unchanged.\<close>

definition registrable :: "archive_manifest \<Rightarrow> bool" where
  "registrable m \<longleftrightarrow>
     am_manifest_id m \<noteq> [] \<and> am_service_id m \<noteq> [] \<and> am_domain m \<noteq> [] \<and> am_sources m \<noteq> []
     \<and> so_service_id (am_source m) = am_service_id m \<and> so_domain (am_source m) = am_domain m
     \<and> 0 \<le> so_size_bytes (am_source m) \<and> 0 \<le> art_size_bytes (am_artifact m)
     \<and> list_all (\<lambda>e. se_deletion_deadline e = am_deletion_authorization_deadline m
          \<and> 0 \<le> se_size_bytes e \<and> 0 \<le> se_row_start e \<and> 0 \<le> se_row_count e) (am_sources m)"

lemma entry_from_source_item:
  "se_deletion_deadline e = dl \<Longrightarrow> entry_from_item fi dl (source_item e) = Inr e"
  by (simp add: entry_from_item_def source_item_def item_str_def item_int_def json_item_def row_get_def
      parse_iso_or_dt_def)

lemma manifest_row_decodes:
  assumes "registrable m"
  shows "archive_from_row fi (manifest_to_row clk m (am_service_id m) (am_domain m) e st) []
    = Inr \<lparr>amr_manifest = m, amr_state = st, amr_owner_epoch = e\<rparr>"
proof -
  have "map_result (entry_from_item fi (am_deletion_authorization_deadline m)) (map source_item (am_sources m))
      = Inr (map (\<lambda>x. x) (am_sources m))"
    using assms by (intro map_result_map entry_from_source_item) (auto simp: registrable_def list_all_iff)
  with assms show ?thesis
    by (auto simp: archive_from_row_def manifest_to_row_def registrable_def mk_manifest_def or_text_def Let_def)
qed

lemma manifest_row_ok_registrable:
  assumes "registrable m" and "validate_manifest m = Inr ()" and "0 < e"
  shows "manifest_row_ok (manifest_to_row clk m (am_service_id m) (am_domain m) e st)"
  using assms by (auto simp: manifest_row_ok_def manifest_to_row_def registrable_def validate_manifest_ok_iff Let_def)

lemma insert_manifest_sources_ok:
  "list_all manifest_source_ok rs \<Longrightarrow> \<exists>t'. insert_manifest_sources rs t = Inr t'
     \<and> set t \<subseteq> set t' \<and> (\<forall>r \<in> set rs. \<exists>q \<in> set t'. (ms_manifest_id q, ms_source_key q) = (ms_manifest_id r, ms_source_key r))"
proof (induction rs arbitrary: t)
  case (Cons r rs)
  define t1 where "t1 = (if sql_select (\<lambda>q. (ms_manifest_id q, ms_source_key q) = (ms_manifest_id r, ms_source_key r)) t \<noteq> []
     then t else sql_insert r t)"
  obtain t' where t': "insert_manifest_sources rs t1 = Inr t'" "set t1 \<subseteq> set t'"
    "\<forall>r \<in> set rs. \<exists>q \<in> set t'. (ms_manifest_id q, ms_source_key q) = (ms_manifest_id r, ms_source_key r)"
    using Cons.IH [of t1] Cons.prems by auto
  have "\<exists>q \<in> set t1. (ms_manifest_id q, ms_source_key q) = (ms_manifest_id r, ms_source_key r)" "set t \<subseteq> set t1"
    by (auto simp: t1_def select_nonempty table_simps)
  moreover have "insert_manifest_sources (r # rs) t = Inr t'"
    using t'(1) Cons.prems unfolding t1_def by simp
  ultimately show ?case using t'(2,3) by auto
qed simp

lemma insert_manifest_sources_again:
  "list_all manifest_source_ok rs \<Longrightarrow>
   \<forall>r \<in> set rs. \<exists>q \<in> set t. (ms_manifest_id q, ms_source_key q) = (ms_manifest_id r, ms_source_key r) \<Longrightarrow>
   insert_manifest_sources rs t = Inr t"
  by (induction rs) (auto simp: select_nonempty)

text \<open>
  Registering a manifest stores it faithfully: a valid manifest under the current epoch is
  stored and returned with the requested state, reading it by id returns the same manifest, and
  registering it again, in whatever state, changes nothing and returns the stored record.
\<close>

theorem register_roundtrip:
  assumes "registrable m" and "validate_manifest m = Inr ()" and "0 < e"
    and "owner_row db (am_service_id m) = Some w" and "oe_owner_epoch w = e"
    and "manifest_row db (am_manifest_id m) = None"
  shows "\<exists>db'. register_archive_manifest fi clk m e st db = Inr (\<lparr>amr_manifest = m, amr_state = st, amr_owner_epoch = e\<rparr>, db')
    \<and> archive_manifest_op fi (am_manifest_id m) db' = Inr (\<lparr>amr_manifest = m, amr_state = st, amr_owner_epoch = e\<rparr>, db')
    \<and> register_archive_manifest fi clk' m e st' db' = Inr (\<lparr>amr_manifest = m, amr_state = st, amr_owner_epoch = e\<rparr>, db')"
proof -
  let ?row = "manifest_to_row clk m (am_service_id m) (am_domain m) e st"
  let ?rec = "\<lparr>amr_manifest = m, amr_state = st, amr_owner_epoch = e\<rparr>"
  note reg = assms(1) [unfolded registrable_def]
  have entries_ok: "list_all manifest_source_ok (map (entry_to_row m) (am_sources m))"
    using reg by (auto simp: list_all_iff manifest_source_ok_def entry_to_row_def)
  then obtain t where t: "insert_manifest_sources (map (entry_to_row m) (am_sources m)) (manifest_sources db) = Inr t"
    and present: "\<forall>r \<in> set (map (entry_to_row m) (am_sources m)).
       \<exists>q \<in> set t. (ms_manifest_id q, ms_source_key q) = (ms_manifest_id r, ms_source_key r)"
    using insert_manifest_sources_ok by blast
  define db' where "db' = db\<lparr>archive_manifests := sql_insert ?row (archive_manifests db), manifest_sources := t\<rparr>"
  have id: "mr_manifest_id ?row = am_manifest_id m" by (simp add: manifest_to_row_def Let_def)
  have row: "manifest_row db' (am_manifest_id m) = Some ?row"
    using assms(6) man_tab.lookup_insert_same [of ?row] by (simp add: row_lookups db'_def id)
  then have get: "get_archive_manifest fi db' (am_manifest_id m) = Inr ?rec"
    by (simp add: get_archive_manifest_def fetch_required_def manifest_row_decodes [OF assms(1)])
  have fence: "fenced_owner d (am_service_id m) e None f = Inr (owner_from_row w)" if "ownership d = ownership db" for d f
    using assms(4,5) that by (simp add: fenced_owner_Inr_iff owner_row_def)
  have texts: "or_text (Some (am_service_id m)) x = am_service_id m" "or_text (Some (am_domain m)) x = am_domain m" for x
    using reg by (simp_all add: or_text_def)
  have "register_archive_manifest fi clk m e st db = Inr (?rec, db')"
    using assms reg t get fence [of db] manifest_row_ok_registrable [OF assms(1-3)]
    by (simp add: register_archive_manifest_def texts db'_def Let_def)
  moreover have "register_archive_manifest fi clk' m e st' db' = Inr (?rec, db')"
    using assms reg row get fence [of db'] manifest_row_ok_registrable [OF assms(1-3)]
      insert_manifest_sources_again [OF entries_ok, of t] present
    by (simp add: register_archive_manifest_def texts Let_def) (simp add: db'_def)
  moreover have "archive_manifest_op fi (am_manifest_id m) db' = Inr (?rec, db')"
    using reg get by (simp add: archive_manifest_op_def require_text_def)
  ultimately show ?thesis by blast
qed

definition example_archive :: archive_manifest where
  "example_archive = \<lparr>am_manifest_id = ''m1'',
     am_artifact = \<lparr>art_uri = ''s3://archive/m1.parquet'', art_checksum = ''sha256:x'', art_size_bytes = 3,
       art_row_count = 2, art_byte_count = 9, art_canonical_digest = ''d'', art_schema_version = ''1'',
       art_transform_version = ''1''\<rparr>,
     am_coverage_start = 10, am_coverage_end = 20, am_retention_deadline = 30,
     am_deletion_authorization_deadline = 40, am_archive_epoch = 1, am_service_id = ''svc'', am_domain = ''request'',
     am_sources = [\<lparr>se_key = ''k1'', se_checksum = ''c1'', se_size_bytes = 10, se_row_start = 0, se_row_count = 2,
                    se_deletion_deadline = 40, se_version = None\<rparr>],
     am_source = \<lparr>so_service_id = ''svc'', so_domain = ''request'', so_object_key = ''k1'', so_checksum = ''c1'',
                  so_size_bytes = 10, so_version = None\<rparr>\<rparr>"

theorem register_roundtrip_witness:
  "\<exists>db'. register_archive_manifest example_fi 7 example_archive 1 MANIFEST_COMMITTED example_db
       = Inr (\<lparr>amr_manifest = example_archive, amr_state = MANIFEST_COMMITTED, amr_owner_epoch = 1\<rparr>, db')"
proof -
  have "registrable example_archive" "validate_manifest example_archive = Inr ()" "(0 :: int) < 1"
    "owner_row example_db (am_service_id example_archive) = Some example_owner" "oe_owner_epoch example_owner = 1"
    "manifest_row example_db (am_manifest_id example_archive) = None"
    by code_simp+
  from register_roundtrip [OF this] show ?thesis by blast
qed

subsection \<open>Deletion\<close>

definition after :: "('a \<times> control_db) result \<Rightarrow> control_db" where
  "after r = (case r of Inr (_, db) \<Rightarrow> db | Inl _ \<Rightarrow> create_schema)"

lemma after_ok: "is_ok r \<Longrightarrow> \<exists>x. r = Inr (x, after r)"
  by (auto simp: is_ok_iff after_def)

text \<open>The example source claimed, archived and acknowledged, its manifest eligible, then authorized and deleted.\<close>

definition example_registered :: control_db where
  "example_registered = after (register_archive_manifest example_fi 7 example_archive 1 MANIFEST_COMMITTED example_db)"

definition example_claimed :: control_db where
  "example_claimed = after (claim_source 8 ''svc'' ''k1'' ''w1'' ''high_scale'' 1 100 10 example_registered)"

definition example_acknowledged :: control_db where
  "example_acknowledged =
     after (acknowledge_sources_batch 11 ''svc'' [''k1''] ''m1'' 1 (Some ''c1'') ''request'' ''default'' example_claimed)"

definition example_eligible :: control_db where
  "example_eligible =
     after (transition_archive_manifest example_fi 45 ''m1'' MANIFEST_COMMITTED DELETION_ELIGIBLE 1 example_acknowledged)"

definition example_authorized :: control_db where
  "example_authorized =
     after (authorize_source_delete example_fi 46 ''svc'' ''k1'' ''m1'' 1 False 46 example_eligible)"

definition example_deleted :: control_db where
  "example_deleted = after (mark_source_deleted example_fi 47 ''svc'' ''k1'' ''m1'' 1 example_authorized)"

lemma example_run:
  "is_ok (register_archive_manifest example_fi 7 example_archive 1 MANIFEST_COMMITTED example_db)"
  "is_ok (claim_source 8 ''svc'' ''k1'' ''w1'' ''high_scale'' 1 100 10 example_registered)"
  "is_ok (acknowledge_sources_batch 11 ''svc'' [''k1''] ''m1'' 1 (Some ''c1'') ''request'' ''default'' example_claimed)"
  "is_ok (transition_archive_manifest example_fi 45 ''m1'' MANIFEST_COMMITTED DELETION_ELIGIBLE 1 example_acknowledged)"
  "is_ok (authorize_source_delete example_fi 46 ''svc'' ''k1'' ''m1'' 1 False 46 example_eligible)"
  "is_ok (mark_source_deleted example_fi 47 ''svc'' ''k1'' ''m1'' 1 example_authorized)"
  by code_simp+

lemma example_eligible_reachable: "control_steps create_schema example_eligible"
proof -
  have "control_step example_db example_registered" "control_step example_registered example_claimed"
    "control_step example_claimed example_acknowledged" "control_step example_acknowledged example_eligible"
    using example_run(1-4) [THEN after_ok]
    unfolding example_registered_def [symmetric] example_claimed_def [symmetric] example_acknowledged_def [symmetric]
      example_eligible_def [symmetric]
    by (blast intro: step_register step_claim step_acknowledge step_transition)+
  with example_db_reachable show ?thesis by (meson rtranclp.rtrancl_into_rtrancl)
qed

lemma example_authorized_reachable: "control_steps create_schema example_authorized"
proof -
  have "control_step example_eligible example_authorized"
    using example_run(5) [THEN after_ok] unfolding example_authorized_def [symmetric] by (blast intro: step_authorize)
  with example_eligible_reachable show ?thesis by (rule rtranclp.rtrancl_into_rtrancl)
qed

lemma example_deleted_reachable: "control_steps create_schema example_deleted"
proof -
  have "control_step example_authorized example_deleted"
    using example_run(6) [THEN after_ok] unfolding example_deleted_def [symmetric] by (blast intro: step_deleted)
  with example_authorized_reachable show ?thesis by (rule rtranclp.rtrancl_into_rtrancl)
qed



lemma authorization_certifies_row:
  assumes "authorize_source_delete fi clk s k mid e lease obs db = Inr (auth, db')"
  shows "\<exists>row. source_row db s k = Some row \<and> authorization_row db' (src_object_id row) mid \<noteq> None"
  using assms by (cases rule: authorize_source_delete_cases) auto

text \<open>
  What an authorization certifies: when \<open>authorize_source_delete\<close> returns, no replay lease
  was active, the epoch is the owner's, the source is archived or acknowledged under the given
  manifest and epoch, the manifest is deletion eligible and lists the source, the grace period has
  elapsed at the observed time, and the returned authorization is stored and not yet consumed.
\<close>

theorem authorization_certifies:
  assumes "authorize_source_delete fi clk s k mid e lease obs db = Inr (auth, db')"
  shows "\<not> lease \<and> (\<exists>w. owner_row db s = Some w \<and> oe_owner_epoch w = e)
    \<and> (\<exists>row. source_row db s k = Some row \<and> src_status row \<in> {Archived, Acknowledged}
        \<and> src_archive_manifest_id row = Some mid \<and> src_owner_epoch row = Some e
        \<and> (\<exists>a. authorization_row db' (src_object_id row) mid = Some a \<and> da_consumed_at a = None
              \<and> auth = authorization_from_row a))
    \<and> (\<exists>m. get_archive_manifest fi db mid = Inr m \<and> amr_state m = DELETION_ELIGIBLE
        \<and> (so_object_key (am_source (amr_manifest m)) = k \<or> k \<in> se_key ` set (am_sources (amr_manifest m)))
        \<and> am_deletion_authorization_deadline (amr_manifest m) \<le> obs)"
proof -
  from assms have "\<exists>m. get_archive_manifest fi db mid = Inr m \<and> amr_state m = DELETION_ELIGIBLE
        \<and> (so_object_key (am_source (amr_manifest m)) = k \<or> k \<in> se_key ` set (am_sources (amr_manifest m)))
        \<and> am_deletion_authorization_deadline (amr_manifest m) \<le> obs"
    by (auto simp: authorize_source_delete_def ebind_Inr_iff list_ex_iff Let_def split: option.splits if_splits)
  moreover from assms have "\<not> lease \<and> (\<exists>w. owner_row db s = Some w \<and> oe_owner_epoch w = e)
    \<and> (\<exists>row. source_row db s k = Some row \<and> src_status row \<in> {Archived, Acknowledged}
        \<and> src_archive_manifest_id row = Some mid \<and> src_owner_epoch row = Some e
        \<and> (\<exists>a. authorization_row db' (src_object_id row) mid = Some a \<and> da_consumed_at a = None
              \<and> auth = authorization_from_row a))"
    by (cases rule: authorize_source_delete_cases) blast
  ultimately show ?thesis by blast
qed

theorem authorization_certifies_witness:
  "\<exists>auth db' m. authorize_source_delete example_fi 46 ''svc'' ''k1'' ''m1'' 1 False 46 example_eligible = Inr (auth, db')
     \<and> get_archive_manifest example_fi example_eligible ''m1'' = Inr m
     \<and> am_deletion_authorization_deadline (amr_manifest m) \<le> 46"
proof -
  from example_run(5) obtain auth db' where
    run: "authorize_source_delete example_fi 46 ''svc'' ''k1'' ''m1'' 1 False 46 example_eligible = Inr (auth, db')"
    by (auto simp: is_ok_iff)
  from authorization_certifies [OF run] run show ?thesis by blast
qed

lemma finish_manifest_simps [simp]:
  "source_objects (finish_manifest clk s m e rec db) = source_objects db"
  "ownership (finish_manifest clk s m e rec db) = ownership db"
  "deletion_authorizations (finish_manifest clk s m e rec db) = deletion_authorizations db"
  by (simp_all add: finish_manifest_def Let_def)

lemma deleted_db_simps [simp]:
  "ownership (deleted_db clk i m db) = ownership db"
  "archive_manifests (deleted_db clk i m db) = archive_manifests db"
  by (simp_all add: deleted_db_def)

lemma finish_manifest_state:
  assumes "manifest_row (finish_manifest clk s m e rec db) m = Some x'" and "manifest_row db m = Some x"
    and "mr_state x' \<noteq> mr_state x"
  shows "\<forall>r \<in> set (source_objects db). src_service_id r = s \<and> src_object_key r \<in> se_key ` set (am_sources (amr_manifest rec))
    \<longrightarrow> src_status r = SourceDeleted"
proof -
  have "finish_manifest clk s m e rec db \<noteq> db" using assms by auto
  then have "am_sources (amr_manifest rec) = [] \<or> sql_select (\<lambda>r. src_service_id r = s
      \<and> src_object_key r \<in> se_key ` set (am_sources (amr_manifest rec)) \<and> src_status r \<noteq> SourceDeleted)
      (source_objects db) = []"
    by (auto simp: finish_manifest_def Let_def split: if_splits)
  then show ?thesis by (auto simp: sql_select_def filter_empty_conv)
qed

lemma mark_source_deleted_row:
  assumes "mark_source_deleted fi clk s k m e db = Inr (u, db')"
  shows "ownership db' = ownership db
    \<and> (\<exists>row. source_row db' s k = Some row \<and> src_status row = SourceDeleted \<and> src_archive_manifest_id row = Some m)"
  using assms
proof (cases rule: mark_source_deleted_cases)
  case (marked row a rec)
  then have "source_row db' s k = Some (row\<lparr>src_status := SourceDeleted, src_lease_until := None, src_updated_at := clk\<rparr>)"
    by (simp add: row_lookups deleted_db_def src_tab.lookup_update)
  with marked(3,8) show ?thesis by simp
qed auto

text \<open>
  Marking a source deleted takes effect once: when the call returns the source is deleted
  under the given manifest, a second call with the same arguments at any later time returns and
  changes nothing, and the manifest changes state only when every source it lists is deleted.
\<close>

theorem mark_source_deleted_once:
  assumes "control_steps create_schema db" and "mark_source_deleted fi clk s k m e db = Inr (u, db')"
  shows "(\<exists>row. source_row db' s k = Some row \<and> src_status row = SourceDeleted \<and> src_archive_manifest_id row = Some m)
    \<and> mark_source_deleted fi clk' s k m e db' = Inr ((), db')
    \<and> (\<forall>x x' rec. manifest_row db m = Some x \<and> manifest_row db' m = Some x' \<and> mr_state x' \<noteq> mr_state x
         \<and> archive_from_row fi x [] = Inr rec \<longrightarrow>
         (\<forall>r \<in> set (source_objects db'). src_service_id r = s \<and> src_object_key r \<in> se_key ` set (am_sources (amr_manifest rec))
            \<longrightarrow> src_status r = SourceDeleted))"
proof -
  note row = mark_source_deleted_row [OF assms(2)]
  from assms(2) obtain w where "fenced_owner db s e None ''owner'' = Inr w"
    by (auto simp: mark_source_deleted_def ebind_Inr_iff)
  then have "fenced_owner db' s e None ''owner'' = Inr w"
    using row by (simp add: fenced_owner_Inr_iff owner_row_def)
  with row have again: "mark_source_deleted fi clk' s k m e db' = Inr ((), db')"
    by (auto simp: mark_source_deleted_def locked_source_def fetch_required_def)
  have "\<forall>r \<in> set (source_objects db'). src_service_id r = s \<and> src_object_key r \<in> se_key ` set (am_sources (amr_manifest rec))
      \<longrightarrow> src_status r = SourceDeleted"
    if x: "manifest_row db m = Some x" "manifest_row db' m = Some x'" "mr_state x' \<noteq> mr_state x"
      "archive_from_row fi x [] = Inr rec" for x x' rec
    using assms(2)
  proof (cases rule: mark_source_deleted_cases)
    case (marked src a rec')
    have mid: "manifest_row (deleted_db clk (src_object_id src) m db) m = Some x" using x(1) by (simp add: row_lookups)
    with marked(7) x(4) have "rec' = rec" by (auto simp: get_archive_manifest_Inr_iff)
    with finish_manifest_state [OF x(2) [unfolded marked(8)] mid x(3)] marked(8) show ?thesis by simp
  qed (use x in auto)
  with row again show ?thesis by blast
qed

theorem mark_source_deleted_once_witness:
  "mark_source_deleted example_fi 47 ''svc'' ''k1'' ''m1'' 1 example_authorized = Inr ((), example_deleted)
   \<and> mark_source_deleted example_fi 99 ''svc'' ''k1'' ''m1'' 1 example_deleted = Inr ((), example_deleted)"
proof -
  from after_ok [OF example_run(6)] have
    run: "mark_source_deleted example_fi 47 ''svc'' ''k1'' ''m1'' 1 example_authorized = Inr ((), example_deleted)"
    by (simp add: example_deleted_def)
  from mark_source_deleted_once [OF example_authorized_reachable run] run show ?thesis by blast
qed

text \<open>
  The deletion sweep sees only what may be deleted: \<open>deletable_sources\<close> returns at most
  \<open>limit\<close> sources of the service, each archived or acknowledged under a manifest that is
  committed or eligible and whose deletion deadline has passed, and when fewer than \<open>limit\<close> are
  returned every such source is among them.
\<close>

theorem deletable_sources_exact:
  assumes "deletable_sources clk s limit db = Inr (srcs, db')"
  defines "due \<equiv> \<lambda>o1. src_service_id o1 = s \<and> src_status o1 \<in> {Archived, Acknowledged}
      \<and> (\<exists>m \<in> set (archive_manifests db). Some (mr_manifest_id m) = src_archive_manifest_id o1
           \<and> mr_state m \<in> {MANIFEST_COMMITTED, DELETION_ELIGIBLE} \<and> mr_deletion_authorization_deadline m \<le> clk)"
  shows "db' = db \<and> int (length srcs) \<le> limit
    \<and> set srcs \<subseteq> source_from_row ` {o1 \<in> set (source_objects db). due o1}
    \<and> (int (length srcs) < limit \<longrightarrow> set srcs = source_from_row ` {o1 \<in> set (source_objects db). due o1})"
proof -
  define rows where "rows = sort_key src_discovered_at (sql_select due (source_objects db))"
  from assms(1) have lim: "0 < limit" and db': "db' = db" and srcs: "srcs = map source_from_row (take (nat limit) rows)"
    by (auto simp: deletable_sources_def ebind_Inr_iff rows_def due_def list_ex_iff)
  have set_rows: "set rows = {o1 \<in> set (source_objects db). due o1}"
    by (auto simp: rows_def sql_select_def)
  have "int (length srcs) \<le> limit" using lim by (simp add: srcs)
  moreover have "set srcs \<subseteq> source_from_row ` set rows" using set_take_subset [of "nat limit" rows] by (auto simp: srcs)
  moreover have "set srcs = source_from_row ` set rows" if "int (length srcs) < limit"
    using that by (auto simp: srcs)
  ultimately show ?thesis using db' set_rows by simp
qed

theorem deletable_sources_exact_witness:
  "deletable_sources 50 ''svc'' 5 example_acknowledged
     = Inr (map source_from_row (source_objects example_acknowledged), example_acknowledged)
   \<and> int (length (map source_from_row (source_objects example_acknowledged))) \<le> 5"
proof -
  have run: "deletable_sources 50 ''svc'' 5 example_acknowledged
     = Inr (map source_from_row (source_objects example_acknowledged), example_acknowledged)"
    by code_simp
  from deletable_sources_exact [OF run] run show ?thesis by blast
qed

end
