(* ===== verification/Clickhouse_Batch.thy ===== *)
theory Clickhouse_Batch
  imports Clickhouse_Rows Control_Plane_Inv "HOL-Library.Sublist"
begin

text \<open>
  Serving publication: \<open>archive/clickhouse_batch.py\<close> from \<open>BaseClickHouseBatchAdapter\<close> on, with
  the guards of \<open>core/clickhouse/client.py\<close>.

  The ClickHouse server is the parameter \<open>'s clickhouse_client\<close>: the two queries, the insert and the
  delete the adapter sends, each over a state \<open>'s\<close>, any of which may raise. The locale
  \<open>clickhouse_service\<close> states what the server does to its tables (seen through \<open>view\<close>): an insert
  that returns has appended its rows, one that raises may have appended any of them, a delete that
  returns has removed the batch, one that raises may have removed some of it, and \<open>FINAL\<close> on the
  publication table yields the newest version of a key. The theorems are: whatever request fails, a
  publication is visible only while the fact table holds exactly the rows the batch has; an insert
  that was interrupted is completed by the next attempts; publishing again changes nothing.
  The per-batch lock of the adapter serialises the attempts on one batch in one process, so an
  attempt is one step here.
\<close>

subsection \<open>The client\<close>

type_synonym ch_row = "(string \<times> ch_value) list"
type_synonym ch_tables = "string \<Rightarrow> ch_row list"

record 's clickhouse_client =
  ch_publications :: "string \<Rightarrow> string \<Rightarrow> string \<Rightarrow> string \<Rightarrow> ('s, ch_row list) eff"
  ch_count :: "string \<Rightarrow> string \<Rightarrow> string \<Rightarrow> ('s, ch_row list) eff"
  ch_insert :: "string \<Rightarrow> string list \<Rightarrow> ch_value list list \<Rightarrow> ('s, unit) eff"
  ch_delete :: "string \<Rightarrow> string \<Rightarrow> ('s, unit) eff"

definition insert_rows_guard :: "string \<Rightarrow> string list \<Rightarrow> ch_value list list \<Rightarrow> unit result" where
  "insert_rows_guard table columns rows =
     ebind (ensure (table \<in> set CLICKHOUSE_ALLOWED_TABLES) (ValueError ''ClickHouse table is not internally allowlisted'')) (\<lambda>_.
     ebind (ensure (columns \<noteq> [] \<and> list_all (\<lambda>c. c \<in> set (CLICKHOUSE_TABLE_COLUMNS table)) columns \<and> distinct columns)
              (ValueError ''ClickHouse columns must be unique internal identifiers'')) (\<lambda>_.
     ensure (list_all (\<lambda>r. length r = length columns) rows) (ValueError ''ClickHouse row width does not match columns'')))"

definition insert_rows ::
  "'s clickhouse_client \<Rightarrow> string \<Rightarrow> string list \<Rightarrow> ch_value list list \<Rightarrow> ('s, unit) eff" where
  "insert_rows cl table columns rows =
     eff_bind (eff_lift (insert_rows_guard table columns rows)) (\<lambda>_.
     if rows = [] then eff_return () else ch_insert cl table columns rows)"

definition delete_batch_rows :: "'s clickhouse_client \<Rightarrow> string \<Rightarrow> string \<Rightarrow> ('s, unit) eff" where
  "delete_batch_rows cl table uuid =
     eff_bind (eff_lift (ensure (table \<in> set CLICKHOUSE_HIGH_SCALE_TABLES)
                           (ValueError ''ClickHouse table is not internally allowlisted''))) (\<lambda>_.
     ch_delete cl table uuid)"

subsection \<open>The batch adapter\<close>

record insert_receipt =
  ir_batch_id :: string
  ir_rows_inserted :: int
  ir_digest :: string

definition PUBLICATION_TABLE :: string where
  "PUBLICATION_TABLE = ''high_scale_batch_publications''"

definition PUBLICATION_COLUMNS :: "string list" where
  "PUBLICATION_COLUMNS =
     [''batch_id'', ''service_id'', ''domain'', ''generation'', ''batch_digest'', ''expected_rows'', ''visible_rows'',
      ''quorum_acked'', ''publication_state'', ''manifest_version'', ''updated_at'']"

definition existing_publication ::
  "'s clickhouse_client \<Rightarrow> high_scale_batch \<Rightarrow> string \<Rightarrow> ('s, ch_row option) eff" where
  "existing_publication cl batch uuid =
     eff_bind (ch_publications cl (hb_service_id batch) (hb_domain batch) (hb_generation batch) uuid) (\<lambda>rows.
     case rows of
       [] \<Rightarrow> eff_return None
     | [r] \<Rightarrow> eff_return (Some r)
     | _ \<Rightarrow> eff_raise (ValueError ''ClickHouse publication receipt is ambiguous''))"

definition count_rows ::
  "'s clickhouse_client \<Rightarrow> string \<Rightarrow> high_scale_batch \<Rightarrow> string \<Rightarrow> ('s, int) eff" where
  "count_rows cl table batch uuid =
     eff_bind (ch_count cl table (hb_service_id batch) uuid) (\<lambda>rows.
     case rows of
       [r] \<Rightarrow> (case ch_get r ''row_count'' of
                 CInt n \<Rightarrow> eff_return n
               | _ \<Rightarrow> eff_raise (ValueError ''ClickHouse insert receipt is invalid''))
     | _ \<Rightarrow> eff_raise (ValueError ''ClickHouse insert receipt is invalid''))"

definition publication_values ::
  "batch_env \<Rightarrow> timestamp \<Rightarrow> high_scale_batch \<Rightarrow> string \<Rightarrow> int \<Rightarrow> string \<Rightarrow> int \<Rightarrow> ch_value list" where
  "publication_values env now batch uuid version state visible_rows =
     [CStr uuid, CStr (hb_service_id batch), CStr (hb_domain batch), CStr (hb_generation batch),
      CStr (batch_digest env batch), CInt (int (length (hb_rows batch))), CInt visible_rows,
      CInt (if state = ''visible'' then 1 else 0), CStr state, CInt version, CTime now]"

definition insert_publication ::
  "batch_env \<Rightarrow> 's clickhouse_client \<Rightarrow> timestamp \<Rightarrow> high_scale_batch \<Rightarrow> string \<Rightarrow> int \<Rightarrow> string \<Rightarrow> int \<Rightarrow> ('s, unit) eff" where
  "insert_publication env cl now batch uuid version state visible_rows =
     insert_rows cl PUBLICATION_TABLE PUBLICATION_COLUMNS
       [publication_values env now batch uuid version state visible_rows]"

definition validate_publication :: "batch_env \<Rightarrow> ch_row \<Rightarrow> high_scale_batch \<Rightarrow> unit result" where
  "validate_publication env existing batch =
     ebind (ensure (ch_get existing ''service_id'' = CStr (hb_service_id batch)
                    \<and> ch_get existing ''domain'' = CStr (hb_domain batch)
                    \<and> ch_get existing ''generation'' = CStr (hb_generation batch)
                    \<and> ch_get existing ''batch_digest'' = CStr (batch_digest env batch)
                    \<and> ch_get existing ''expected_rows'' = CInt (int (length (hb_rows batch))))
              (ValueError ''ClickHouse publication identity or digest mismatch'')) (\<lambda>_.
     ensure (ch_get existing ''publication_state'' \<in> {CStr ''pending'', CStr ''visible''})
       (ValueError ''ClickHouse publication state is invalid''))"

definition manifest_version_of :: "ch_row \<Rightarrow> int result" where
  "manifest_version_of existing =
     (case ch_get existing ''manifest_version'' of CInt n \<Rightarrow> Inr n | _ \<Rightarrow> Inl (TypeError ''manifest_version''))"

text \<open>
  The part of \<open>_publish_table_rows\<close> that brings the fact table to the expected rows, and the one
  that then makes the publication visible.
\<close>

definition fill_table ::
  "'s clickhouse_client \<Rightarrow> string \<Rightarrow> string list \<Rightarrow> ch_value list list \<Rightarrow> high_scale_batch \<Rightarrow> string \<Rightarrow> ('s, unit) eff" where
  "fill_table cl table columns mapped batch uuid =
     (let expected = int (length (hb_rows batch));
          partial = (\<lambda>n. eff_bind (delete_batch_rows cl table uuid) (\<lambda>_. eff_raise (PartialInsertError n)))
      in eff_bind (count_rows cl table batch uuid) (\<lambda>found.
         if found \<noteq> 0 \<and> found \<noteq> expected then partial found
         else eff_bind (if found = 0
                        then eff_bind (insert_rows cl table columns mapped) (\<lambda>_. count_rows cl table batch uuid)
                        else eff_return found) (\<lambda>now_found.
              if now_found \<noteq> expected then partial now_found else eff_return ())))"

definition publish_rows ::
  "batch_env \<Rightarrow> 's clickhouse_client \<Rightarrow> timestamp \<Rightarrow> string \<Rightarrow> string list \<Rightarrow> ch_value list list \<Rightarrow> high_scale_batch
     \<Rightarrow> string \<Rightarrow> int \<Rightarrow> ('s, insert_receipt) eff" where
  "publish_rows env cl now table columns mapped batch uuid version =
     eff_bind (fill_table cl table columns mapped batch uuid) (\<lambda>_.
     eff_bind (insert_publication env cl now batch uuid (version + 1) ''visible'' (int (length (hb_rows batch)))) (\<lambda>_.
     eff_return \<lparr>ir_batch_id = hb_batch_id batch, ir_rows_inserted = int (length (hb_rows batch)),
                 ir_digest = batch_digest env batch\<rparr>))"

definition publish_table_rows ::
  "batch_env \<Rightarrow> 's clickhouse_client \<Rightarrow> timestamp \<Rightarrow> string \<Rightarrow> string list \<Rightarrow> ch_value list list \<Rightarrow> high_scale_batch
     \<Rightarrow> string \<Rightarrow> ('s, insert_receipt) eff" where
  "publish_table_rows env cl now table columns mapped batch uuid =
     eff_bind (existing_publication cl batch uuid) (\<lambda>existing.
     case existing of
       Some e \<Rightarrow>
         eff_bind (eff_lift (validate_publication env e batch)) (\<lambda>_.
         if ch_get e ''publication_state'' = CStr ''visible''
         then eff_return \<lparr>ir_batch_id = hb_batch_id batch, ir_rows_inserted = int (length (hb_rows batch)),
                          ir_digest = batch_digest env batch\<rparr>
         else eff_bind (eff_lift (manifest_version_of e)) (\<lambda>version.
              publish_rows env cl now table columns mapped batch uuid version))
     | None \<Rightarrow>
         eff_bind (insert_publication env cl now batch uuid 1 ''pending'' 0) (\<lambda>_.
         publish_rows env cl now table columns mapped batch uuid 1))"

definition insert_batch ::
  "batch_env \<Rightarrow> 's clickhouse_client \<Rightarrow> timestamp \<Rightarrow> high_scale_batch \<Rightarrow> ('s, insert_receipt) eff" where
  "insert_batch env cl now batch =
     (case map_of DOMAIN_TABLES (hb_domain batch) of
        None \<Rightarrow> eff_raise (ValueError (''unsupported high-scale domain: '' @ hb_domain batch))
      | Some table \<Rightarrow>
          if table \<notin> set CLICKHOUSE_HIGH_SCALE_TABLES
          then eff_raise (ValueError (''unsupported high-scale domain: '' @ hb_domain batch))
          else if hb_rows batch = [] then eff_raise (ValueError ''high-scale batch must contain at least one row'')
          else eff_bind (eff_lift (rows_for_domain env batch (batch_uuid env batch))) (\<lambda>mapped.
               publish_table_rows env cl now table (the_default [] (map_of DOMAIN_COLUMNS (hb_domain batch))) mapped
                 batch (batch_uuid env batch)))"

subsection \<open>What the server does\<close>

definition key_of_publication :: "ch_row \<Rightarrow> ch_value \<times> ch_value \<times> ch_value \<times> ch_value" where
  "key_of_publication r = (ch_get r ''service_id'', ch_get r ''domain'', ch_get r ''generation'', ch_get r ''batch_id'')"

definition row_version :: "ch_row \<Rightarrow> int" where
  "row_version r = (case ch_get r ''manifest_version'' of CInt n \<Rightarrow> n | _ \<Rightarrow> 0)"

text \<open>
  \<open>FINAL\<close> on a \<open>ReplacingMergeTree(manifest_version)\<close>: of the rows with one sorting key the one with
  the greatest version, the last inserted of these.
\<close>

fun newest :: "ch_row list \<Rightarrow> ch_row option" where
  "newest [] = None"
| "newest (r # rs) =
     (case newest rs of
        None \<Rightarrow> Some r
      | Some r' \<Rightarrow> if row_version r \<le> row_version r' then Some r' else Some r)"

definition final_publication :: "ch_tables \<Rightarrow> string \<Rightarrow> string \<Rightarrow> string \<Rightarrow> string \<Rightarrow> ch_row option" where
  "final_publication tb service domain generation uuid =
     newest (filter (\<lambda>r. key_of_publication r = (CStr service, CStr domain, CStr generation, CStr uuid))
               (tb PUBLICATION_TABLE))"

definition batch_row :: "string \<Rightarrow> string \<Rightarrow> ch_row \<Rightarrow> bool" where
  "batch_row service uuid r \<longleftrightarrow> ch_get r ''service_id'' = CStr service \<and> ch_get r ''batch_id'' = CStr uuid"

definition batch_count :: "ch_tables \<Rightarrow> string \<Rightarrow> string \<Rightarrow> string \<Rightarrow> nat" where
  "batch_count tb table service uuid = length (filter (batch_row service uuid) (tb table))"

locale clickhouse_service =
  fixes cl :: "'s clickhouse_client" and view :: "'s \<Rightarrow> ch_tables"
  assumes publications_law: "ch_publications cl s d g u st = (found, st') \<Longrightarrow>
      view st' = view st \<and> (\<forall>ps. found = Inr ps \<longrightarrow>
        ps = (case final_publication (view st) s d g u of None \<Rightarrow> [] | Some p \<Rightarrow> [p]))"
    and count_law: "ch_count cl t s u st = (found, st') \<Longrightarrow>
      view st' = view st \<and> (\<forall>ps. found = Inr ps \<longrightarrow>
        ps = [[(''row_count'', CInt (int (batch_count (view st) t s u)))]])"
    and insert_law: "ch_insert cl t columns rows st = (w, st') \<Longrightarrow>
      (\<exists>part. subseq part rows \<and> (is_ok w \<longrightarrow> part = rows)
         \<and> view st' = (view st)(t := view st t @ map (zip columns) part))"
    and delete_law: "ch_delete cl t u st = (w, st') \<Longrightarrow>
      (\<exists>keep. (\<forall>x. ch_get x ''batch_id'' \<noteq> CStr u \<longrightarrow> keep x)
         \<and> (is_ok w \<longrightarrow> (\<forall>x. keep x \<longrightarrow> ch_get x ''batch_id'' \<noteq> CStr u))
         \<and> view st' = (view st)(t := filter keep (view st t)))"

text \<open>What an attempt on a batch may change: its publication rows and its rows in its fact table.\<close>

definition only_batch :: "string \<Rightarrow> string \<Rightarrow> ch_tables \<Rightarrow> ch_tables \<Rightarrow> bool" where
  "only_batch table uuid tb tb' \<longleftrightarrow>
     (\<forall>t. t \<noteq> table \<longrightarrow> tb' t = tb t)
     \<and> filter (\<lambda>r. ch_get r ''batch_id'' \<noteq> CStr uuid) (tb' table) = filter (\<lambda>r. ch_get r ''batch_id'' \<noteq> CStr uuid) (tb table)"

lemma only_batch_refl [simp]: "only_batch table uuid tb tb"
  by (simp add: only_batch_def)

lemma only_batch_trans: "only_batch table uuid a b \<Longrightarrow> only_batch table uuid b c \<Longrightarrow> only_batch table uuid a c"
  by (simp add: only_batch_def)

lemma only_batch_other: "only_batch table uuid tb tb' \<Longrightarrow> t \<noteq> table \<Longrightarrow> tb' t = tb t"
  by (simp add: only_batch_def)

lemma filter_batch_rows:
  assumes "u \<noteq> uuid"
  shows "filter (batch_row s u) xs = filter (batch_row s u) (filter (\<lambda>r. ch_get r ''batch_id'' \<noteq> CStr uuid) xs)"
  using assms by (induction xs) (auto simp: batch_row_def)

lemma only_batch_count:
  assumes "only_batch table uuid tb tb'" and "u \<noteq> uuid \<or> t \<noteq> table"
  shows "batch_count tb' t s u = batch_count tb t s u"
proof (cases "t = table")
  case True
  with assms have "u \<noteq> uuid" by simp
  have "filter (batch_row s u) (tb' table) = filter (batch_row s u) (tb table)"
    unfolding filter_batch_rows [OF \<open>u \<noteq> uuid\<close>, of s "tb' table"] filter_batch_rows [OF \<open>u \<noteq> uuid\<close>, of s "tb table"]
    using assms(1) by (simp only: only_batch_def)
  with True show ?thesis by (simp add: batch_count_def)
next
  case False
  with assms(1) show ?thesis by (simp add: batch_count_def only_batch_other)
qed

lemma newest_append:
  "newest (xs @ [r]) =
     (case newest xs of None \<Rightarrow> Some r | Some r' \<Rightarrow> if row_version r' \<le> row_version r then Some r else Some r')"
  by (induction xs) (auto split: option.splits)

lemma newest_in: "newest xs = Some r \<Longrightarrow> r \<in> set xs"
  by (induction xs arbitrary: r) (auto split: option.splits if_splits)

definition publication_row_of ::
  "batch_env \<Rightarrow> timestamp \<Rightarrow> high_scale_batch \<Rightarrow> string \<Rightarrow> int \<Rightarrow> string \<Rightarrow> int \<Rightarrow> ch_row" where
  "publication_row_of env now batch uuid version state visible_rows =
     zip PUBLICATION_COLUMNS (publication_values env now batch uuid version state visible_rows)"

lemma publication_row_of_simps [simp]:
  "ch_get (publication_row_of env now batch uuid version state n) ''publication_state'' = CStr state"
  "ch_get (publication_row_of env now batch uuid version state n) ''expected_rows'' = CInt (int (length (hb_rows batch)))"
  "ch_get (publication_row_of env now batch uuid version state n) ''batch_digest'' = CStr (batch_digest env batch)"
  "row_version (publication_row_of env now batch uuid version state n) = version"
  "manifest_version_of (publication_row_of env now batch uuid version state n) = Inr version"
  "key_of_publication (publication_row_of env now batch uuid version state n)
     = (CStr (hb_service_id batch), CStr (hb_domain batch), CStr (hb_generation batch), CStr uuid)"
  by (simp_all add: publication_row_of_def PUBLICATION_COLUMNS_def publication_values_def ch_get_def row_version_def
      manifest_version_of_def key_of_publication_def)

lemma validate_publication_row_of:
  "validate_publication env (publication_row_of env now batch uuid version state n) batch
     = ensure (state \<in> {''pending'', ''visible''}) (ValueError ''ClickHouse publication state is invalid'')"
  by (simp add: validate_publication_def publication_row_of_def PUBLICATION_COLUMNS_def publication_values_def ch_get_def)

lemma publication_guard [simp]:
  "insert_rows_guard PUBLICATION_TABLE PUBLICATION_COLUMNS [publication_values env now batch uuid version state n] = Inr ()"
  by (simp add: insert_rows_guard_def PUBLICATION_TABLE_def PUBLICATION_COLUMNS_def publication_values_def
      CLICKHOUSE_ALLOWED_TABLES_def CLICKHOUSE_HIGH_SCALE_TABLES_def CLICKHOUSE_TABLE_COLUMNS_def
      CLICKHOUSE_HIGH_SCALE_COLUMNS_def)

context clickhouse_service
begin

lemma only_batch_preorder:
  "reflp (\<lambda>st st'. only_batch t u (view st) (view st'))" "transp (\<lambda>st st'. only_batch t u (view st) (view st'))"
  by (auto simp: reflp_def transp_def intro: only_batch_trans)

lemma count_rows_cases:
  assumes "count_rows cl t batch u st = (r, st')"
  shows "view st' = view st \<and> (\<forall>n. r = Inr n \<longrightarrow> n = int (batch_count (view st) t (hb_service_id batch) u))"
proof -
  obtain found s1 where found: "ch_count cl t (hb_service_id batch) u st = (found, s1)" by fastforce
  show ?thesis
  proof (cases found)
    case (Inl e)
    with found count_law [OF found] assms show ?thesis by (auto simp: count_rows_def eff_bind_def)
  next
    case (Inr ps)
    with found count_law [OF found] assms show ?thesis by (auto simp: count_rows_def eff_bind_def ch_get_def)
  qed
qed

lemma insert_publication_cases:
  assumes "insert_publication env cl now batch uuid version state n st = (r, st')"
  shows "view st' = (view st)(PUBLICATION_TABLE :=
             view st PUBLICATION_TABLE @ [publication_row_of env now batch uuid version state n])
         \<or> (\<not> is_ok r \<and> view st' = view st)"
proof -
  from assms have "ch_insert cl PUBLICATION_TABLE PUBLICATION_COLUMNS
      [publication_values env now batch uuid version state n] st = (r, st')"
    by (simp add: insert_publication_def insert_rows_def eff_bind_def)
  from insert_law [OF this] obtain part where part:
    "subseq part [publication_values env now batch uuid version state n]"
    "is_ok r \<longrightarrow> part = [publication_values env now batch uuid version state n]"
    "view st' = (view st)(PUBLICATION_TABLE := view st PUBLICATION_TABLE @ map (zip PUBLICATION_COLUMNS) part)"
    by blast
  have "part = [] \<or> part = [publication_values env now batch uuid version state n]"
    using part(1) by (cases part) (auto elim: list_emb.cases split: if_splits)
  with part(2,3) show ?thesis by (auto simp: publication_row_of_def)
qed

lemma insert_rows_keeps:
  assumes "list_all (batch_row_ok batch uuid columns) mapped"
  shows "eff_keeps (\<lambda>st st'. only_batch table uuid (view st) (view st')) (insert_rows cl table columns mapped)"
  unfolding insert_rows_def
proof (intro eff_keeps_bind only_batch_preorder eff_keeps_pure)
  show "eff_keeps (\<lambda>st st'. only_batch table uuid (view st) (view st'))
      (if mapped = [] then eff_return () else ch_insert cl table columns mapped)"
    unfolding eff_keeps_def
  proof (intro allI impI)
    fix st r st' assume *: "(if mapped = [] then eff_return () else ch_insert cl table columns mapped) st = (r, st')"
    show "only_batch table uuid (view st) (view st')"
    proof (cases "mapped = []")
      case True
      with * show ?thesis by simp
    next
      case False
      with * have "ch_insert cl table columns mapped st = (r, st')" by simp
      from insert_law [OF this] obtain part where
        part: "subseq part mapped" "view st' = (view st)(table := view st table @ map (zip columns) part)" by blast
      have "ch_get (zip columns vs) ''batch_id'' = CStr uuid" if "vs \<in> set part" for vs
        using that part(1) assms by (auto simp: list_all_iff batch_row_ok_def dest: list_emb_set)
      then have "filter (\<lambda>r. ch_get r ''batch_id'' \<noteq> CStr uuid) (map (zip columns) part) = []"
        by (simp add: filter_empty_conv)
      with part(2) show ?thesis by (simp add: only_batch_def)
    qed
  qed
qed

lemma delete_batch_rows_keeps:
  "eff_keeps (\<lambda>st st'. only_batch table uuid (view st) (view st')) (delete_batch_rows cl table uuid)"
  unfolding delete_batch_rows_def
proof (intro eff_keeps_bind only_batch_preorder eff_keeps_pure)
  show "eff_keeps (\<lambda>st st'. only_batch table uuid (view st) (view st')) (ch_delete cl table uuid)"
    unfolding eff_keeps_def
  proof (intro allI impI)
    fix st r st' assume "ch_delete cl table uuid st = (r, st')"
    from delete_law [OF this] obtain keep where
      keep: "\<forall>x. ch_get x ''batch_id'' \<noteq> CStr uuid \<longrightarrow> keep x" "view st' = (view st)(table := filter keep (view st table))"
      by blast
    have "filter (\<lambda>r. ch_get r ''batch_id'' \<noteq> CStr uuid) (filter keep xs)
        = filter (\<lambda>r. ch_get r ''batch_id'' \<noteq> CStr uuid) xs" for xs
      using keep(1) by (induction xs) auto
    with keep(2) show "only_batch table uuid (view st) (view st')" by (simp add: only_batch_def)
  qed
qed

end

subsection \<open>An attempt to publish a batch\<close>

context clickhouse_service
begin

lemma count_rows_keeps:
  "eff_keeps (\<lambda>st st'. only_batch table uuid (view st) (view st')) (count_rows cl t batch u)"
  using count_rows_cases by (fastforce simp: eff_keeps_def)

lemma fill_table_keeps:
  assumes "list_all (batch_row_ok batch uuid columns) mapped"
  shows "eff_keeps (\<lambda>st st'. only_batch table uuid (view st) (view st')) (fill_table cl table columns mapped batch uuid)"
  unfolding fill_table_def Let_def
  by (intro eff_keeps_bind only_batch_preorder count_rows_keeps)
    (auto intro!: eff_keeps_bind only_batch_preorder count_rows_keeps eff_keeps_pure delete_batch_rows_keeps
      insert_rows_keeps [OF assms])

text \<open>When \<open>fill_table\<close> returns, the last count was the expected one.\<close>

lemma fill_table_exact:
  assumes "fill_table cl table columns mapped batch uuid st = (Inr (), st')"
  shows "batch_count (view st') table (hb_service_id batch) uuid = length (hb_rows batch)"
proof -
  let ?n = "int (length (hb_rows batch))"
  obtain s1 m s2 where one: "count_rows cl table batch uuid st = (Inr m, s1)"
    and rest: "(if m = 0 then eff_bind (insert_rows cl table columns mapped) (\<lambda>_. count_rows cl table batch uuid)
                else eff_return m) s1 = (Inr ?n, s2)"
    and fin: "s2 = st'"
    using assms
    by (auto simp: fill_table_def Let_def eff_bind_Inr_iff split: if_splits)
  show ?thesis
  proof (cases "m = 0")
    case True
    with rest obtain s3 where "count_rows cl table batch uuid s3 = (Inr ?n, s2)"
      by (auto simp: eff_bind_Inr_iff)
    from count_rows_cases [OF this] fin show ?thesis by auto
  next
    case False
    with rest have "m = ?n" "s1 = s2" by auto
    with count_rows_cases [OF one] fin show ?thesis by auto
  qed
qed

end

text \<open>The newest publication row of a batch, and whether it is visible.\<close>

definition publication_of :: "ch_tables \<Rightarrow> high_scale_batch \<Rightarrow> string \<Rightarrow> ch_row option" where
  "publication_of tb batch uuid =
     final_publication tb (hb_service_id batch) (hb_domain batch) (hb_generation batch) uuid"

definition is_visible :: "ch_row option \<Rightarrow> bool" where
  "is_visible p \<longleftrightarrow> (\<exists>r. p = Some r \<and> ch_get r ''publication_state'' = CStr ''visible'')"

definition exact_publication :: "ch_tables \<Rightarrow> string \<Rightarrow> high_scale_batch \<Rightarrow> string \<Rightarrow> bool" where
  "exact_publication tb table batch uuid \<longleftrightarrow>
     (\<forall>p. publication_of tb batch uuid = Some p \<longrightarrow> ch_get p ''publication_state'' = CStr ''visible'' \<longrightarrow>
        ch_get p ''expected_rows'' = CInt (int (batch_count tb table (hb_service_id batch) uuid)))"

lemma only_batch_publication:
  assumes "only_batch table uuid tb tb'" and "table \<noteq> PUBLICATION_TABLE"
  shows "final_publication tb' s d g u = final_publication tb s d g u"
  using assms by (simp add: final_publication_def only_batch_other)

lemma batch_count_publication_update [simp]:
  "table \<noteq> PUBLICATION_TABLE \<Longrightarrow> batch_count (tb(PUBLICATION_TABLE := x)) table s u = batch_count tb table s u"
  by (simp add: batch_count_def)

lemma publication_of_append:
  "publication_of (tb(PUBLICATION_TABLE := tb PUBLICATION_TABLE @ [publication_row_of env now batch uuid version state n]))
     batch uuid =
   (case publication_of tb batch uuid of
      None \<Rightarrow> Some (publication_row_of env now batch uuid version state n)
    | Some p \<Rightarrow> if row_version p \<le> version then Some (publication_row_of env now batch uuid version state n) else Some p)"
  by (simp add: publication_of_def final_publication_def newest_append split: option.split)

context clickhouse_service
begin

lemma publish_rows_outcome:
  assumes run: "publish_rows env cl now table columns mapped batch uuid version st = (r, st')"
    and rows: "list_all (batch_row_ok batch uuid columns) mapped"
    and table: "table \<noteq> PUBLICATION_TABLE"
    and pending: "publication_of (view st) batch uuid = Some p" "row_version p = version"
      "ch_get p ''publication_state'' \<noteq> CStr ''visible''"
  shows "(\<not> is_ok r \<and> publication_of (view st') batch uuid = Some p)
      \<or> (publication_of (view st') batch uuid =
            Some (publication_row_of env now batch uuid (version + 1) ''visible'' (int (length (hb_rows batch))))
         \<and> batch_count (view st') table (hb_service_id batch) uuid = length (hb_rows batch))"
proof -
  obtain f s1 where fill: "fill_table cl table columns mapped batch uuid st = (f, s1)" by fastforce
  from fill_table_keeps [OF rows] fill have keep: "only_batch table uuid (view st) (view s1)" by (rule eff_keepsD)
  with pending(1) table have same: "publication_of (view s1) batch uuid = Some p"
    by (simp add: publication_of_def only_batch_publication)
  show ?thesis
  proof (cases f)
    case (Inl e)
    with run fill have "r = Inl e" "st' = s1" by (simp_all add: publish_rows_def eff_bind_def)
    with same show ?thesis by simp
  next
    case (Inr u)
    let ?row = "publication_row_of env now batch uuid (version + 1) ''visible'' (int (length (hb_rows batch)))"
    from Inr fill have cnt: "batch_count (view s1) table (hb_service_id batch) uuid = length (hb_rows batch)"
      by (intro fill_table_exact) simp
    obtain q s2 where ins: "insert_publication env cl now batch uuid (version + 1) ''visible'' (int (length (hb_rows batch))) s1 = (q, s2)"
      by fastforce
    from run fill Inr ins have st': "st' = s2" and ok: "is_ok r \<longleftrightarrow> is_ok q"
      by (auto simp: publish_rows_def eff_bind_def split: sum.splits)
    from insert_publication_cases [OF ins] consider
        "view s2 = (view s1)(PUBLICATION_TABLE := view s1 PUBLICATION_TABLE @ [?row])"
      | "\<not> is_ok q" "view s2 = view s1" by blast
    then show ?thesis
    proof cases
      case 1
      with same pending(2) cnt table st' show ?thesis by (simp add: publication_of_append)
    next
      case 2
      with same ok st' show ?thesis by (simp add: publication_of_def)
    qed
  qed
qed

end

text \<open>
  The outcome of an attempt on a batch that is not visible: either it raised and the publication is
  still not visible, or it is visible and the fact table has exactly the rows of the batch (the
  attempt may still have raised, when the answer to its last request was lost).
\<close>

definition attempt_outcome ::
  "batch_env \<Rightarrow> timestamp \<Rightarrow> string \<Rightarrow> high_scale_batch \<Rightarrow> string \<Rightarrow> insert_receipt result \<Rightarrow> ch_tables \<Rightarrow> bool" where
  "attempt_outcome env now table batch uuid r tb \<longleftrightarrow>
     (\<not> is_ok r \<and> \<not> is_visible (publication_of tb batch uuid))
     \<or> (batch_count tb table (hb_service_id batch) uuid = length (hb_rows batch)
        \<and> (\<exists>v. publication_of tb batch uuid =
              Some (publication_row_of env now batch uuid v ''visible'' (int (length (hb_rows batch))))))"

context clickhouse_service
begin

lemma existing_publication_cases:
  assumes "existing_publication cl batch uuid st = (x, s1)"
  shows "view s1 = view st \<and> (\<forall>p. x = Inr p \<longrightarrow> p = publication_of (view st) batch uuid)"
proof -
  obtain found s0 where found: "ch_publications cl (hb_service_id batch) (hb_domain batch) (hb_generation batch) uuid st
      = (found, s0)" by fastforce
  from publications_law [OF this] have law: "view s0 = view st" "\<And>ps. found = Inr ps \<Longrightarrow>
      ps = (case publication_of (view st) batch uuid of None \<Rightarrow> [] | Some p \<Rightarrow> [p])"
    by (auto simp: publication_of_def)
  show ?thesis
  proof (cases found)
    case (Inl e)
    with found law assms show ?thesis by (auto simp: existing_publication_def eff_bind_def)
  next
    case (Inr ps)
    with found law(1) law(2) [OF Inr] assms show ?thesis
      by (cases "publication_of (view st) batch uuid") (auto simp: existing_publication_def eff_bind_def)
  qed
qed

lemma publish_rows_outcome':
  assumes "publish_rows env cl now table columns mapped batch uuid version st = (r, st')"
    and "list_all (batch_row_ok batch uuid columns) mapped" and "table \<noteq> PUBLICATION_TABLE"
    and "publication_of (view st) batch uuid = Some p" and "row_version p = version"
    and "ch_get p ''publication_state'' \<noteq> CStr ''visible''"
  shows "attempt_outcome env now table batch uuid r (view st')"
  using publish_rows_outcome [OF assms] assms(6) by (auto simp: attempt_outcome_def is_visible_def)

lemma publish_new_outcome:
  assumes run: "eff_bind (insert_publication env cl now batch uuid 1 ''pending'' 0)
        (\<lambda>_. publish_rows env cl now table columns mapped batch uuid 1) st = (r, st')"
    and rows: "list_all (batch_row_ok batch uuid columns) mapped" and table: "table \<noteq> PUBLICATION_TABLE"
    and none: "publication_of (view st) batch uuid = None"
  shows "attempt_outcome env now table batch uuid r (view st')"
proof -
  let ?p = "publication_row_of env now batch uuid 1 ''pending'' 0"
  obtain q s2 where ins: "insert_publication env cl now batch uuid 1 ''pending'' 0 st = (q, s2)" by fastforce
  show ?thesis
  proof (cases q)
    case (Inl e)
    with run ins have "r = Inl e" "st' = s2" by (simp_all add: eff_bind_def)
    moreover from insert_publication_cases [OF ins] none
    have "\<not> is_visible (publication_of (view s2) batch uuid)"
      by (auto simp: publication_of_append is_visible_def)
    ultimately show ?thesis by (simp add: attempt_outcome_def)
  next
    case (Inr u)
    with insert_publication_cases [OF ins] none have "publication_of (view s2) batch uuid = Some ?p"
      by (auto simp: publication_of_append)
    moreover from run ins Inr have "publish_rows env cl now table columns mapped batch uuid 1 s2 = (r, st')"
      by (simp add: eff_bind_def)
    ultimately show ?thesis using rows table by (intro publish_rows_outcome') auto
  qed
qed

lemma publish_pending_outcome:
  assumes run: "eff_bind (eff_lift (validate_publication env p batch)) (\<lambda>_.
        eff_bind (eff_lift (manifest_version_of p)) (publish_rows env cl now table columns mapped batch uuid)) st = (r, st')"
    and rows: "list_all (batch_row_ok batch uuid columns) mapped" and table: "table \<noteq> PUBLICATION_TABLE"
    and pending: "publication_of (view st) batch uuid = Some p" "ch_get p ''publication_state'' \<noteq> CStr ''visible''"
  shows "attempt_outcome env now table batch uuid r (view st')"
proof (cases "is_ok (validate_publication env p batch) \<and> is_ok (manifest_version_of p)")
  case True
  then obtain v where v: "manifest_version_of p = Inr v" by (auto simp: is_ok_iff)
  with True run have "publish_rows env cl now table columns mapped batch uuid v st = (r, st')"
    by (auto simp: eff_bind_def is_ok_iff)
  moreover from v have "row_version p = v"
    by (auto simp: manifest_version_of_def row_version_def split: ch_value.splits)
  ultimately show ?thesis using rows table pending by (intro publish_rows_outcome')
next
  case False
  with run have "\<not> is_ok r" "st' = st" by (auto simp: eff_bind_def not_is_ok_iff split: sum.splits)
  with pending show ?thesis by (simp add: attempt_outcome_def is_visible_def)
qed

lemma publish_table_rows_visible:
  assumes run: "publish_table_rows env cl now table columns mapped batch uuid st = (r, st')"
    and "is_visible (publication_of (view st) batch uuid)"
  shows "view st' = view st"
proof -
  obtain x s1 where ex: "existing_publication cl batch uuid st = (x, s1)" by fastforce
  note law = existing_publication_cases [OF ex]
  from assms(2) obtain p where p: "publication_of (view st) batch uuid = Some p"
      "ch_get p ''publication_state'' = CStr ''visible''"
    by (auto simp: is_visible_def)
  show ?thesis
  proof (cases x)
    case (Inl e)
    with run ex law show ?thesis by (auto simp: publish_table_rows_def eff_bind_def)
  next
    case (Inr y)
    with law p(1) have "y = Some p" by simp
    with run ex law Inr p(2) show ?thesis
      by (auto simp: publish_table_rows_def eff_bind_def split: sum.splits)
  qed
qed

lemma publish_table_rows_outcome:
  assumes run: "publish_table_rows env cl now table columns mapped batch uuid st = (r, st')"
    and rows: "list_all (batch_row_ok batch uuid columns) mapped"
    and table: "table \<noteq> PUBLICATION_TABLE"
    and hidden: "\<not> is_visible (publication_of (view st) batch uuid)"
  shows "attempt_outcome env now table batch uuid r (view st')"
proof -
  obtain x s1 where ex: "existing_publication cl batch uuid st = (x, s1)" by fastforce
  note law = existing_publication_cases [OF ex]
  show ?thesis
  proof (cases x)
    case (Inl e)
    with run ex have "r = Inl e" "st' = s1" by (simp_all add: publish_table_rows_def eff_bind_def)
    with law hidden show ?thesis by (simp add: attempt_outcome_def)
  next
    case (Inr y)
    with law have y: "publication_of (view s1) batch uuid = y" by simp
    show ?thesis
    proof (cases y)
      case None
      with run ex Inr y rows table show ?thesis
        by (intro publish_new_outcome) (simp_all add: publish_table_rows_def eff_bind_def)
    next
      case (Some p)
      with y law hidden have "ch_get p ''publication_state'' \<noteq> CStr ''visible''" by (auto simp: is_visible_def)
      with run ex Inr Some y rows table show ?thesis
        by (intro publish_pending_outcome) (simp_all add: publish_table_rows_def eff_bind_def)
    qed
  qed
qed

end

subsection \<open>What an attempt leaves alone\<close>

definition batch_key :: "high_scale_batch \<Rightarrow> string \<times> string \<times> string \<times> string" where
  "batch_key b = (hb_service_id b, hb_domain b, hb_generation b, hb_batch_id b)"

definition attempt_frame :: "string \<Rightarrow> high_scale_batch \<Rightarrow> string \<Rightarrow> ch_tables \<Rightarrow> ch_tables \<Rightarrow> bool" where
  "attempt_frame table batch uuid tb tb' \<longleftrightarrow>
     only_batch table uuid (tb(PUBLICATION_TABLE := [])) (tb'(PUBLICATION_TABLE := []))
     \<and> (\<forall>s d g u. (s, d, g, u) \<noteq> (hb_service_id batch, hb_domain batch, hb_generation batch, uuid) \<longrightarrow>
          final_publication tb' s d g u = final_publication tb s d g u)"

lemma attempt_frame_preorder:
  "reflp (\<lambda>st st'. attempt_frame table batch uuid (view st) (view st'))"
  "transp (\<lambda>st st'. attempt_frame table batch uuid (view st) (view st'))"
  by (auto simp: attempt_frame_def reflp_def transp_def intro: only_batch_trans)

lemma only_batch_frame:
  assumes "only_batch table uuid tb tb'" and "table \<noteq> PUBLICATION_TABLE"
  shows "attempt_frame table batch uuid tb tb'"
  using assms by (simp add: attempt_frame_def only_batch_publication) (simp add: only_batch_def)

lemma attempt_frame_count:
  assumes "attempt_frame table batch uuid tb tb'" and "u \<noteq> uuid \<or> t \<noteq> table" and "t \<noteq> PUBLICATION_TABLE"
  shows "batch_count tb' t s u = batch_count tb t s u"
proof -
  from assms(1,3) have "only_batch table uuid (tb(PUBLICATION_TABLE := [])) (tb'(PUBLICATION_TABLE := []))"
    by (auto simp: attempt_frame_def)
  from only_batch_count [OF this assms(2), of s] assms(3) show ?thesis by (simp add: batch_count_def)
qed

context clickhouse_service
begin

lemma insert_publication_frame:
  "eff_keeps (\<lambda>st st'. attempt_frame table batch uuid (view st) (view st'))
     (insert_publication env cl now batch uuid version state n)"
  unfolding eff_keeps_def
proof (intro allI impI)
  fix st r st' assume "insert_publication env cl now batch uuid version state n st = (r, st')"
  from insert_publication_cases [OF this]
  show "attempt_frame table batch uuid (view st) (view st')"
    by (auto simp: attempt_frame_def final_publication_def)
qed

lemma publish_rows_frame:
  assumes "list_all (batch_row_ok batch uuid columns) mapped" and "table \<noteq> PUBLICATION_TABLE"
  shows "eff_keeps (\<lambda>st st'. attempt_frame table batch uuid (view st) (view st'))
     (publish_rows env cl now table columns mapped batch uuid version)"
proof -
  have "eff_keeps (\<lambda>st st'. attempt_frame table batch uuid (view st) (view st')) (fill_table cl table columns mapped batch uuid)"
    using fill_table_keeps [OF assms(1), of table] assms(2) by (auto simp: eff_keeps_def intro: only_batch_frame)
  then show ?thesis unfolding publish_rows_def
    by (intro eff_keeps_bind attempt_frame_preorder insert_publication_frame eff_keeps_pure)
qed

lemma publish_table_rows_frame:
  assumes "list_all (batch_row_ok batch uuid columns) mapped" and "table \<noteq> PUBLICATION_TABLE"
  shows "eff_keeps (\<lambda>st st'. attempt_frame table batch uuid (view st) (view st'))
     (publish_table_rows env cl now table columns mapped batch uuid)"
proof -
  have "eff_keeps (\<lambda>st st'. attempt_frame table batch uuid (view st) (view st')) (existing_publication cl batch uuid)"
    using existing_publication_cases attempt_frame_preorder(1) [of table batch uuid view] by (fastforce simp: eff_keeps_def reflp_def)
  then show ?thesis unfolding publish_table_rows_def
    by (intro eff_keeps_bind attempt_frame_preorder)
      (auto split: option.split intro!: eff_keeps_bind attempt_frame_preorder eff_keeps_pure insert_publication_frame
        publish_rows_frame [OF assms])
qed

end

subsection \<open>Batches as a whole\<close>

definition batch_table :: "high_scale_batch \<Rightarrow> string option" where
  "batch_table batch = map_of DOMAIN_TABLES (hb_domain batch)"

lemma insert_batch_run:
  assumes "insert_batch env cl now batch st = (r, st')"
  obtains (refused) "\<not> is_ok r" "st' = st"
    | (attempt) table columns mapped where "batch_table batch = Some table" "hb_rows batch \<noteq> []"
        "table \<noteq> PUBLICATION_TABLE" "map_of DOMAIN_COLUMNS (hb_domain batch) = Some columns"
        "length mapped = length (hb_rows batch)"
        "list_all (batch_row_ok batch (batch_uuid env batch) columns) mapped"
        "publish_table_rows env cl now table columns mapped batch (batch_uuid env batch) st = (r, st')"
proof (cases "map_of DOMAIN_TABLES (hb_domain batch)")
  case None
  with assms show thesis by (intro refused) (auto simp: insert_batch_def)
next
  case (Some table)
  from domain_tables_ok [OF Some] have tab: "table \<in> set CLICKHOUSE_HIGH_SCALE_TABLES" "table \<noteq> PUBLICATION_TABLE"
    by (simp_all add: PUBLICATION_TABLE_def)
  from domain_columns_tables [OF Some] obtain columns where cols: "map_of DOMAIN_COLUMNS (hb_domain batch) = Some columns" ..
  show thesis
  proof (cases "hb_rows batch = []")
    case True
    with assms Some tab show thesis by (intro refused) (auto simp: insert_batch_def)
  next
    case False
    show thesis
    proof (cases "rows_for_domain env batch (batch_uuid env batch)")
      case (Inl e)
      with assms Some tab False show thesis by (intro refused) (auto simp: insert_batch_def eff_bind_def)
    next
      case (Inr mapped)
      with assms Some tab cols False
      have "publish_table_rows env cl now table columns mapped batch (batch_uuid env batch) st = (r, st')"
        by (simp add: insert_batch_def eff_bind_def)
      with Some tab cols False rows_for_domain_ok [OF Inr cols] rows_for_domain_length [OF Inr] show thesis
        by (intro attempt) (simp_all add: batch_table_def)
    qed
  qed
qed

lemma publication_of_key: "batch_key b = batch_key b' \<Longrightarrow> publication_of tb b u = publication_of tb b' u"
  by (simp add: batch_key_def publication_of_def)

lemma batch_uuid_key: "batch_key b = batch_key b' \<Longrightarrow> batch_uuid env b = batch_uuid env b'"
  by (simp add: batch_key_def batch_uuid_def)

definition no_nul :: "string \<Rightarrow> bool" where
  "no_nul s \<longleftrightarrow> char_of (0 :: nat) \<notin> set s"

definition batch_ids_ok :: "high_scale_batch \<Rightarrow> bool" where
  "batch_ids_ok b \<longleftrightarrow> no_nul (hb_service_id b) \<and> no_nul (hb_domain b) \<and> no_nul (hb_generation b) \<and> no_nul (hb_batch_id b)"

lemma split_at_char:
  assumes "c \<notin> set a" and "c \<notin> set b" and "a @ c # x = b @ c # y"
  shows "a = b \<and> x = y"
  using assms
proof (induction a arbitrary: b)
  case Nil
  then show ?case by (cases b) auto
next
  case (Cons d a)
  then show ?case by (cases b) auto
qed

text \<open>Distinct batches have distinct row identifiers, as far as \<open>uuid5\<close> does not collide.\<close>

lemma batch_uuid_inj:
  assumes "inj (be_uuid5 env BATCH_NAMESPACE)" and "batch_ids_ok b" and "batch_ids_ok b'"
    and "batch_uuid env b = batch_uuid env b'"
  shows "batch_key b = batch_key b'"
proof -
  let ?z = "char_of (0 :: nat) :: char"
  have eq: "hb_service_id b @ ?z # hb_domain b @ ?z # hb_generation b @ ?z # hb_batch_id b
      = hb_service_id b' @ ?z # hb_domain b' @ ?z # hb_generation b' @ ?z # hb_batch_id b'"
    using injD [OF assms(1) assms(4) [unfolded batch_uuid_def]] by simp
  have nul: "?z \<notin> set (hb_service_id b)" "?z \<notin> set (hb_service_id b')" "?z \<notin> set (hb_domain b)" "?z \<notin> set (hb_domain b')"
    "?z \<notin> set (hb_generation b)" "?z \<notin> set (hb_generation b')"
    using assms(2,3) by (simp_all add: batch_ids_ok_def no_nul_def)
  note one = split_at_char [OF nul(1,2) eq]
  note two = split_at_char [OF nul(3,4) one [THEN conjunct2]]
  note three = split_at_char [OF nul(5,6) two [THEN conjunct2]]
  from one two three show ?thesis by (simp only: batch_key_def simp_thms)
qed

text \<open>
  A run of the serving plane: any number of attempts, on any batches, each of which may raise.
\<close>

inductive serving_step :: "batch_env \<Rightarrow> 's clickhouse_client \<Rightarrow> 's \<Rightarrow> 's \<Rightarrow> bool" for env cl where
  attempt: "batch_ids_ok batch \<Longrightarrow> insert_batch env cl now batch st = (r, st') \<Longrightarrow> serving_step env cl st st'"

definition serving_inv :: "batch_env \<Rightarrow> ch_tables \<Rightarrow> bool" where
  "serving_inv env tb \<longleftrightarrow>
     (\<forall>b table. batch_ids_ok b \<longrightarrow> batch_table b = Some table \<longrightarrow> exact_publication tb table b (batch_uuid env b))"

lemma exact_publication_key:
  "batch_key b = batch_key b' \<Longrightarrow> exact_publication tb t b u = exact_publication tb t b' u"
  by (simp add: exact_publication_def publication_of_key [of b b'] batch_key_def)

lemma attempt_outcome_exact:
  "attempt_outcome env now table batch uuid r tb \<Longrightarrow> exact_publication tb table batch uuid"
  by (auto simp: attempt_outcome_def exact_publication_def is_visible_def)

context clickhouse_service
begin

lemma serving_step_inv:
  assumes step: "serving_step env cl st st'" and inj: "inj (be_uuid5 env BATCH_NAMESPACE)"
    and inv: "serving_inv env (view st)"
  shows "serving_inv env (view st')"
  using step
proof cases
  case (attempt B now r)
  from attempt(2) show ?thesis
  proof (cases rule: insert_batch_run)
    case refused
    with inv show ?thesis by simp
  next
    case (attempt table columns mapped)
    note run = \<open>publish_table_rows env cl now table columns mapped B (batch_uuid env B) st = (r, st')\<close>
    note frame = eff_keepsD [OF publish_table_rows_frame [OF attempt(6,3)] run]
    have self: "exact_publication (view st') table B (batch_uuid env B)"
    proof (cases "is_visible (publication_of (view st) B (batch_uuid env B))")
      case True
      with publish_table_rows_visible [OF run] inv attempt(1) \<open>batch_ids_ok B\<close> show ?thesis by (simp add: serving_inv_def)
    next
      case False
      from publish_table_rows_outcome [OF run attempt(6,3) False] show ?thesis by (rule attempt_outcome_exact)
    qed
    have "exact_publication (view st') t b (batch_uuid env b)" if b: "batch_ids_ok b" "batch_table b = Some t" for b t
    proof (cases "batch_key b = batch_key B")
      case True
      then have "batch_table b = batch_table B" by (simp add: batch_key_def batch_table_def)
      with b attempt(1) have "t = table" by simp
      with self True show ?thesis by (simp add: exact_publication_key [OF True] batch_uuid_key [OF True])
    next
      case False
      with batch_uuid_inj [OF inj b(1) \<open>batch_ids_ok B\<close>] have "batch_uuid env b \<noteq> batch_uuid env B" by blast
      moreover from domain_tables_ok b(2) have "t \<noteq> PUBLICATION_TABLE" by (auto simp: batch_table_def PUBLICATION_TABLE_def)
      moreover from inv b have "exact_publication (view st) t b (batch_uuid env b)" by (simp add: serving_inv_def)
      ultimately show ?thesis using frame
        by (auto simp: exact_publication_def publication_of_def attempt_frame_def attempt_frame_count [OF frame])
    qed
    then show ?thesis by (simp add: serving_inv_def)
  qed
qed

lemma serving_steps_inv:
  assumes "(serving_step env cl)\<^sup>*\<^sup>* st st'" and "inj (be_uuid5 env BATCH_NAMESPACE)" and "serving_inv env (view st)"
  shows "serving_inv env (view st')"
  using assms by (induction rule: rtranclp_induct) (auto intro: serving_step_inv)

lemma insert_batch_receipt:
  assumes run: "insert_batch env cl now batch st = (Inr receipt, st')" and inv: "serving_inv env (view st)"
    and ids: "batch_ids_ok batch"
  shows "is_visible (publication_of (view st') batch (batch_uuid env batch))
     \<and> receipt = \<lparr>ir_batch_id = hb_batch_id batch, ir_rows_inserted = int (length (hb_rows batch)),
                   ir_digest = batch_digest env batch\<rparr>
     \<and> (\<exists>table. batch_table batch = Some table
          \<and> batch_count (view st') table (hb_service_id batch) (batch_uuid env batch) = length (hb_rows batch))"
  using run
proof (cases rule: insert_batch_run)
  case refused
  then show ?thesis by simp
next
  case (attempt table columns mapped)
  let ?u = "batch_uuid env batch"
  note run = attempt(7)
  have receipt: "receipt = \<lparr>ir_batch_id = hb_batch_id batch, ir_rows_inserted = int (length (hb_rows batch)),
                   ir_digest = batch_digest env batch\<rparr>"
    using run by (auto simp: publish_table_rows_def publish_rows_def eff_bind_Inr_iff split: option.splits if_splits)
  have "is_visible (publication_of (view st') batch ?u)
      \<and> batch_count (view st') table (hb_service_id batch) ?u = length (hb_rows batch)"
  proof (cases "is_visible (publication_of (view st) batch ?u)")
    case True
    then obtain p where p: "publication_of (view st) batch ?u = Some p" "ch_get p ''publication_state'' = CStr ''visible''"
      by (auto simp: is_visible_def)
    obtain x s1 where ex: "existing_publication cl batch ?u st = (x, s1)" by fastforce
    with run existing_publication_cases [OF ex] p have "is_ok (validate_publication env p batch)"
      by (auto simp: publish_table_rows_def eff_bind_def is_ok_iff split: sum.splits)
    then have "ch_get p ''expected_rows'' = CInt (int (length (hb_rows batch)))"
      by (auto simp: validate_publication_def is_ok_iff ebind_Inr_iff)
    moreover from inv ids attempt(1) p have "ch_get p ''expected_rows'' = CInt (int (batch_count (view st) table (hb_service_id batch) ?u))"
      by (simp add: serving_inv_def exact_publication_def)
    ultimately show ?thesis using publish_table_rows_visible [OF run True] True by simp
  next
    case False
    from publish_table_rows_outcome [OF run attempt(6,3) False] show ?thesis
      by (auto simp: attempt_outcome_def is_visible_def)
  qed
  with receipt attempt(1) show ?thesis by blast
qed

end

subsection \<open>A server that answers\<close>

locale reliable_clickhouse = clickhouse_service +
  assumes publications_ok: "is_ok (fst (ch_publications cl s d g u st))"
    and count_ok: "is_ok (fst (ch_count cl t s u st))"
    and insert_ok: "is_ok (fst (ch_insert cl t columns rows st))"
    and delete_ok: "is_ok (fst (ch_delete cl t u st))"
begin

lemma count_rows_reliable:
  "\<exists>st'. count_rows cl t batch u st = (Inr (int (batch_count (view st) t (hb_service_id batch) u)), st') \<and> view st' = view st"
proof -
  obtain found s0 where found: "ch_count cl t (hb_service_id batch) u st = (found, s0)" by fastforce
  with count_ok [of t "hb_service_id batch" u st] obtain ps where "found = Inr ps" by (auto simp: is_ok_iff)
  with count_law [OF found] found show ?thesis by (simp add: count_rows_def eff_bind_def ch_get_def)
qed

lemma existing_publication_reliable:
  "\<exists>st'. existing_publication cl batch u st = (Inr (publication_of (view st) batch u), st') \<and> view st' = view st"
proof -
  obtain found s0 where found: "ch_publications cl (hb_service_id batch) (hb_domain batch) (hb_generation batch) u st
      = (found, s0)" by fastforce
  with publications_ok [of "hb_service_id batch" "hb_domain batch" "hb_generation batch" u st] obtain ps where
    "found = Inr ps" by (auto simp: is_ok_iff)
  with publications_law [OF found] found show ?thesis
    by (cases "publication_of (view st) batch u")
      (simp_all add: existing_publication_def eff_bind_def publication_of_def)
qed

lemma insert_publication_reliable:
  "\<exists>st'. insert_publication env cl now batch u version state n st = (Inr (), st')
     \<and> view st' = (view st)(PUBLICATION_TABLE := view st PUBLICATION_TABLE @ [publication_row_of env now batch u version state n])"
proof -
  obtain r st' where run: "insert_publication env cl now batch u version state n st = (r, st')" by fastforce
  then have "ch_insert cl PUBLICATION_TABLE PUBLICATION_COLUMNS [publication_values env now batch u version state n] st = (r, st')"
    by (simp add: insert_publication_def insert_rows_def eff_bind_def)
  with insert_ok [of PUBLICATION_TABLE PUBLICATION_COLUMNS "[publication_values env now batch u version state n]" st]
  have "r = Inr ()" by (auto simp: is_ok_iff)
  with insert_publication_cases [OF run] run show ?thesis by auto
qed

lemma batch_rows_filter:
  assumes "list_all (batch_row_ok batch u columns) mapped"
  shows "filter (batch_row (hb_service_id batch) u) (map (zip columns) mapped) = map (zip columns) mapped"
  using assms by (intro filter_True) (auto simp: list_all_iff batch_row_ok_def batch_row_def)

lemma insert_rows_reliable:
  assumes rows: "list_all (batch_row_ok batch u columns) mapped" and "mapped \<noteq> []"
    and guard: "insert_rows_guard table columns mapped = Inr ()"
  shows "\<exists>st'. insert_rows cl table columns mapped st = (Inr (), st')
    \<and> batch_count (view st') table (hb_service_id batch) u
        = batch_count (view st) table (hb_service_id batch) u + length mapped"
proof -
  obtain r st' where run: "ch_insert cl table columns mapped st = (r, st')" by fastforce
  with insert_ok [of table columns mapped st] have r: "r = Inr ()" by (auto simp: is_ok_iff)
  with insert_law [OF run] have "view st' = (view st)(table := view st table @ map (zip columns) mapped)" by auto
  then have "batch_count (view st') table (hb_service_id batch) u
      = batch_count (view st) table (hb_service_id batch) u + length mapped"
    by (simp add: batch_count_def batch_rows_filter [OF rows])
  with run r assms(2) guard show ?thesis by (simp add: insert_rows_def eff_bind_def)
qed

lemma delete_batch_rows_reliable:
  assumes "table \<in> set CLICKHOUSE_HIGH_SCALE_TABLES"
  shows "\<exists>st'. delete_batch_rows cl table u st = (Inr (), st') \<and> batch_count (view st') table s u = 0"
proof -
  obtain r st' where run: "ch_delete cl table u st = (r, st')" by fastforce
  with delete_ok [of table u st] have r: "r = Inr ()" by (auto simp: is_ok_iff)
  with delete_law [OF run] obtain keep where "\<forall>x. keep x \<longrightarrow> ch_get x ''batch_id'' \<noteq> CStr u"
      "view st' = (view st)(table := filter keep (view st table))"
    by auto
  then have "batch_count (view st') table s u = 0"
    by (auto simp: batch_count_def batch_row_def filter_empty_conv)
  with run r assms show ?thesis by (simp add: delete_batch_rows_def eff_bind_def)
qed

text \<open>With a server that answers, the table is filled at once, or cleared when it held another count.\<close>

lemma fill_table_reliable:
  assumes rows: "list_all (batch_row_ok batch u columns) mapped" "length mapped = length (hb_rows batch)" "hb_rows batch \<noteq> []"
    and table: "table \<in> set CLICKHOUSE_HIGH_SCALE_TABLES" and guard: "insert_rows_guard table columns mapped = Inr ()"
  shows "let found = batch_count (view st) table (hb_service_id batch) u in
     if found = 0 \<or> found = length (hb_rows batch)
     then \<exists>st'. fill_table cl table columns mapped batch u st = (Inr (), st')
     else \<exists>st'. fill_table cl table columns mapped batch u st = (Inl (PartialInsertError (int found)), st')
            \<and> batch_count (view st') table (hb_service_id batch) u = 0"
proof -
  let ?found = "batch_count (view st) table (hb_service_id batch) u"
  obtain s1 where c1: "count_rows cl table batch u st = (Inr (int ?found), s1)" "view s1 = view st"
    using count_rows_reliable by blast
  consider "?found = 0" | "?found = length (hb_rows batch)" "?found \<noteq> 0" | "?found \<noteq> 0" "?found \<noteq> length (hb_rows batch)"
    by blast
  then show ?thesis
  proof cases
    case 1
    from rows have "mapped \<noteq> []" by auto
    from insert_rows_reliable [OF rows(1) this guard, of s1] 1 c1(2) rows(2) obtain s2 where
      ins: "insert_rows cl table columns mapped s1 = (Inr (), s2)"
        "batch_count (view s2) table (hb_service_id batch) u = length (hb_rows batch)" by auto
    obtain s3 where "count_rows cl table batch u s2 = (Inr (int (length (hb_rows batch))), s3)"
      using count_rows_reliable [of table batch u s2] ins(2) by auto
    with 1 c1 ins(1) show ?thesis by (simp add: fill_table_def Let_def eff_bind_def)
  next
    case 2
    with c1 show ?thesis by (simp add: fill_table_def Let_def eff_bind_def)
  next
    case 3
    obtain s2 where "delete_batch_rows cl table u s1 = (Inr (), s2)" "batch_count (view s2) table (hb_service_id batch) u = 0"
      using delete_batch_rows_reliable [OF table] by blast
    with 3 c1 show ?thesis by (simp add: fill_table_def Let_def eff_bind_def)
  qed
qed

lemma publish_rows_reliable:
  assumes rows: "list_all (batch_row_ok batch u columns) mapped" "length mapped = length (hb_rows batch)" "hb_rows batch \<noteq> []"
    and table: "table \<in> set CLICKHOUSE_HIGH_SCALE_TABLES" and guard: "insert_rows_guard table columns mapped = Inr ()"
  shows "let found = batch_count (view st) table (hb_service_id batch) u in
     if found = 0 \<or> found = length (hb_rows batch)
     then \<exists>receipt st'. publish_rows env cl now table columns mapped batch u version st = (Inr receipt, st')
     else \<exists>st'. publish_rows env cl now table columns mapped batch u version st = (Inl (PartialInsertError (int found)), st')
            \<and> batch_count (view st') table (hb_service_id batch) u = 0"
proof (cases "batch_count (view st) table (hb_service_id batch) u \<in> {0, length (hb_rows batch)}")
  case True
  with fill_table_reliable [OF assms, of st] obtain s1 where
    "fill_table cl table columns mapped batch u st = (Inr (), s1)" by auto
  moreover obtain s2 where
    "insert_publication env cl now batch u (version + 1) ''visible'' (int (length (hb_rows batch))) s1 = (Inr (), s2)"
    using insert_publication_reliable by blast
  ultimately show ?thesis using True by (auto simp: publish_rows_def eff_bind_def)
next
  case False
  with fill_table_reliable [OF assms, of st] show ?thesis by (auto simp: Let_def publish_rows_def eff_bind_def)
qed

end

text \<open>Batches the adapter can publish, and publication rows it accepts as an earlier attempt of the batch.\<close>

definition publishable_batch :: "batch_env \<Rightarrow> high_scale_batch \<Rightarrow> bool" where
  "publishable_batch env batch \<longleftrightarrow>
     batch_table batch \<noteq> None \<and> hb_rows batch \<noteq> [] \<and> is_ok (rows_for_domain env batch (batch_uuid env batch))"

definition accepts :: "batch_env \<Rightarrow> high_scale_batch \<Rightarrow> ch_row \<Rightarrow> bool" where
  "accepts env batch p \<longleftrightarrow> is_ok (validate_publication env p batch) \<and> is_ok (manifest_version_of p)"

lemma publishable_batch_run:
  assumes "publishable_batch env batch"
  obtains table columns mapped where "batch_table batch = Some table" "hb_rows batch \<noteq> []"
    "table \<noteq> PUBLICATION_TABLE" "table \<in> set CLICKHOUSE_HIGH_SCALE_TABLES"
    "length mapped = length (hb_rows batch)"
    "list_all (batch_row_ok batch (batch_uuid env batch) columns) mapped"
    "insert_rows_guard table columns mapped = Inr ()"
    "\<And>cl now. insert_batch env cl now batch = publish_table_rows env cl now table columns mapped batch (batch_uuid env batch)"
proof -
  from assms obtain table mapped where *: "map_of DOMAIN_TABLES (hb_domain batch) = Some table" "hb_rows batch \<noteq> []"
      "rows_for_domain env batch (batch_uuid env batch) = Inr mapped"
    by (auto simp: publishable_batch_def batch_table_def is_ok_iff)
  from domain_tables_ok [OF *(1)] have tab: "table \<in> set CLICKHOUSE_HIGH_SCALE_TABLES" "table \<in> set CLICKHOUSE_ALLOWED_TABLES"
      "table \<noteq> PUBLICATION_TABLE"
    by (simp_all add: PUBLICATION_TABLE_def)
  from domain_columns_tables [OF *(1)] obtain columns where cols: "map_of DOMAIN_COLUMNS (hb_domain batch) = Some columns" ..
  note ok = rows_for_domain_ok [OF *(3) cols]
  have "insert_rows_guard table columns mapped = Inr ()"
    using domain_columns_ok [OF cols] tab ok
    by (auto simp: insert_rows_guard_def ensure_def CLICKHOUSE_TABLE_COLUMNS_def list_all_iff batch_row_ok_def)
  moreover have "insert_batch env cl now batch = publish_table_rows env cl now table columns mapped batch (batch_uuid env batch)" for cl now
    using * tab cols by (intro ext) (simp add: insert_batch_def eff_bind_def)
  ultimately show thesis using * tab ok rows_for_domain_length [OF *(3)] cols
    by (intro that [of table mapped columns]) (simp_all add: batch_table_def)
qed

text \<open>
  The result of an attempt against a server that answers, from the number of rows of the batch it
  found: it succeeds from none or all of them, and otherwise clears them and raises.
\<close>

definition answered_attempt ::
  "string \<Rightarrow> high_scale_batch \<Rightarrow> string \<Rightarrow> nat \<Rightarrow> ch_row \<Rightarrow> insert_receipt result \<Rightarrow> ch_tables \<Rightarrow> bool" where
  "answered_attempt table batch u found p r tb \<longleftrightarrow>
     (if found = 0 \<or> found = length (hb_rows batch) then is_ok r
      else r = Inl (PartialInsertError (int found)) \<and> batch_count tb table (hb_service_id batch) u = 0
           \<and> publication_of tb batch u = Some p)"

definition pending_for :: "batch_env \<Rightarrow> high_scale_batch \<Rightarrow> ch_row option \<Rightarrow> bool" where
  "pending_for env batch q \<longleftrightarrow>
     (\<forall>p. q = Some p \<longrightarrow> accepts env batch p \<and> ch_get p ''publication_state'' \<noteq> CStr ''visible'')"

context reliable_clickhouse
begin

lemma publish_rows_attempt:
  assumes rows: "list_all (batch_row_ok batch u columns) mapped" "length mapped = length (hb_rows batch)" "hb_rows batch \<noteq> []"
    and table: "table \<in> set CLICKHOUSE_HIGH_SCALE_TABLES" "table \<noteq> PUBLICATION_TABLE"
    and guard: "insert_rows_guard table columns mapped = Inr ()"
    and p: "publication_of (view st) batch u = Some p" "row_version p = v" "ch_get p ''publication_state'' \<noteq> CStr ''visible''"
    and run: "publish_rows env cl now table columns mapped batch u v st = (r, st')"
  shows "answered_attempt table batch u (batch_count (view st) table (hb_service_id batch) u) p r (view st')"
proof (cases "batch_count (view st) table (hb_service_id batch) u \<in> {0, length (hb_rows batch)}")
  case True
  with publish_rows_reliable [OF rows table(1) guard, where st = st and env = env and now = now and version = v] run
  show ?thesis by (auto simp: answered_attempt_def Let_def)
next
  case False
  with publish_rows_reliable [OF rows table(1) guard, where st = st and env = env and now = now and version = v] run
  have "r = Inl (PartialInsertError (int (batch_count (view st) table (hb_service_id batch) u)))"
    and none: "batch_count (view st') table (hb_service_id batch) u = 0"
    by (auto simp: Let_def)
  moreover from publish_rows_outcome [OF run rows(1) table(2) p] none rows(3) have "publication_of (view st') batch u = Some p"
    by auto
  ultimately show ?thesis using False by (simp add: answered_attempt_def)
qed

lemma insert_batch_attempt:
  assumes pub: "publishable_batch env batch" and table: "batch_table batch = Some table"
    and pend: "pending_for env batch (publication_of (view st) batch (batch_uuid env batch))"
    and run: "insert_batch env cl now batch st = (r, st')"
  obtains p where "pending_for env batch (Some p)"
    "answered_attempt table batch (batch_uuid env batch)
       (batch_count (view st) table (hb_service_id batch) (batch_uuid env batch)) p r (view st')"
proof -
  let ?u = "batch_uuid env batch"
  from pub obtain t columns mapped where b: "batch_table batch = Some t" "hb_rows batch \<noteq> []"
      "t \<noteq> PUBLICATION_TABLE" "t \<in> set CLICKHOUSE_HIGH_SCALE_TABLES" "length mapped = length (hb_rows batch)"
      "list_all (batch_row_ok batch ?u columns) mapped" "insert_rows_guard t columns mapped = Inr ()"
      "insert_batch env cl now batch = publish_table_rows env cl now t columns mapped batch ?u"
    by (rule publishable_batch_run) blast
  from b(1) table have t: "t = table" by simp
  obtain s1 where s1: "existing_publication cl batch ?u st = (Inr (publication_of (view st) batch ?u), s1)" "view s1 = view st"
    using existing_publication_reliable by blast
  show thesis
  proof (cases "publication_of (view st) batch ?u")
    case None
    let ?p = "publication_row_of env now batch ?u 1 ''pending'' 0"
    obtain s2 where s2: "insert_publication env cl now batch ?u 1 ''pending'' 0 s1 = (Inr (), s2)"
        "view s2 = (view s1)(PUBLICATION_TABLE := view s1 PUBLICATION_TABLE @ [?p])"
      using insert_publication_reliable by blast
    from s2(2) s1(2) None have "publication_of (view s2) batch ?u = Some ?p" by (simp add: publication_of_append)
    moreover from run b(8) s1(1) s2(1) None
    have "publish_rows env cl now t columns mapped batch ?u 1 s2 = (r, st')"
      by (simp add: publish_table_rows_def eff_bind_def)
    ultimately have "answered_attempt t batch ?u (batch_count (view s2) t (hb_service_id batch) ?u) ?p r (view st')"
      using b by (intro publish_rows_attempt) auto
    moreover have "pending_for env batch (Some ?p)"
      by (simp add: pending_for_def accepts_def validate_publication_row_of)
    ultimately show thesis using that [of ?p] t s2(2) s1(2) b(3) by simp
  next
    case (Some p)
    with pend obtain v where v: "validate_publication env p batch = Inr ()" "manifest_version_of p = Inr v"
        and np: "ch_get p ''publication_state'' \<noteq> CStr ''visible''"
      by (auto simp: pending_for_def accepts_def is_ok_iff)
    then have "row_version p = v" by (auto simp: manifest_version_of_def row_version_def split: ch_value.splits)
    moreover from run b(8) s1(1) Some v np have "publish_rows env cl now t columns mapped batch ?u v s1 = (r, st')"
      by (simp add: publish_table_rows_def eff_bind_def)
    ultimately have "answered_attempt t batch ?u (batch_count (view s1) t (hb_service_id batch) ?u) p r (view st')"
      using b np Some s1(2) by (intro publish_rows_attempt) auto
    with that [of p] t s1(2) pend Some show thesis by simp
  qed
qed

text \<open>Two attempts are enough, whatever an interrupted attempt left behind.\<close>

lemma insert_batch_recovers:
  assumes pub: "publishable_batch env batch"
    and pend: "pending_for env batch (publication_of (view st) batch (batch_uuid env batch))"
    and one: "insert_batch env cl now batch st = (r1, s1)" and two: "insert_batch env cl now' batch s1 = (r2, s2)"
  shows "is_ok r1 \<or> ((\<exists>n. r1 = Inl (PartialInsertError n)) \<and> is_ok r2)"
proof (rule ccontr)
  assume neg: "\<not> ?thesis"
  from pub obtain table where table: "batch_table batch = Some table" by (auto simp: publishable_batch_def)
  from insert_batch_attempt [OF pub table pend one] obtain p where
    p: "pending_for env batch (Some p)"
      "answered_attempt table batch (batch_uuid env batch)
         (batch_count (view st) table (hb_service_id batch) (batch_uuid env batch)) p r1 (view s1)" .
  with neg have zero: "batch_count (view s1) table (hb_service_id batch) (batch_uuid env batch) = 0"
    and pend1: "publication_of (view s1) batch (batch_uuid env batch) = Some p"
    and partial: "\<exists>n. r1 = Inl (PartialInsertError n)"
    by (auto simp: answered_attempt_def split: if_splits)
  from pend1 p(1) have "pending_for env batch (publication_of (view s1) batch (batch_uuid env batch))" by simp
  from insert_batch_attempt [OF pub table this two] zero have "is_ok r2" by (auto simp: answered_attempt_def)
  with neg partial show False by simp
qed

end

subsection \<open>A server in memory\<close>

text \<open>
  The server's documented behaviour on tables that are lists; and the same server with a list of
  faults, one flag per insert: an insert whose flag is set applies only half of its rows and raises.
\<close>

definition memory_clickhouse :: "ch_tables clickhouse_client" where
  "memory_clickhouse =
     \<lparr>ch_publications = (\<lambda>s d g u tb. (Inr (case final_publication tb s d g u of None \<Rightarrow> [] | Some p \<Rightarrow> [p]), tb)),
      ch_count = (\<lambda>t s u tb. (Inr [[(''row_count'', CInt (int (batch_count tb t s u)))]], tb)),
      ch_insert = (\<lambda>t columns rows tb. (Inr (), tb(t := tb t @ map (zip columns) rows))),
      ch_delete = (\<lambda>t u tb. (Inr (), tb(t := filter (\<lambda>r. ch_get r ''batch_id'' \<noteq> CStr u) (tb t))))\<rparr>"

type_synonym faulty_server = "bool list \<times> ch_tables"

definition on_tables :: "(ch_tables, 'a) eff \<Rightarrow> (faulty_server, 'a) eff" where
  "on_tables m st = (let (r, tb) = m (snd st) in (r, (fst st, tb)))"

definition faulty_clickhouse :: "faulty_server clickhouse_client" where
  "faulty_clickhouse =
     \<lparr>ch_publications = (\<lambda>s d g u. on_tables (ch_publications memory_clickhouse s d g u)),
      ch_count = (\<lambda>t s u. on_tables (ch_count memory_clickhouse t s u)),
      ch_insert = (\<lambda>t columns rows st.
        if fst st \<noteq> [] \<and> hd (fst st)
        then (Inl (OtherError ''ClickHouseError''),
              (tl (fst st), (snd st)(t := snd st t @ map (zip columns) (take (length rows div 2) rows))))
        else on_tables (ch_insert memory_clickhouse t columns rows) (tl (fst st), snd st)),
      ch_delete = (\<lambda>t u. on_tables (ch_delete memory_clickhouse t u))\<rparr>"

lemma subseq_take: "subseq (take n xs) xs"
  by (metis append_take_drop_id list_emb_append2 subseq_order.refl subseq_rev_drop_many)

interpretation mem_ch: reliable_clickhouse memory_clickhouse "\<lambda>tb. tb"
  by unfold_locales
    (auto simp: memory_clickhouse_def intro: exI [of _ "\<lambda>r. ch_get r ''batch_id'' \<noteq> CStr u" for u])

interpretation faulty_ch: clickhouse_service faulty_clickhouse snd
proof unfold_locales
  fix t columns rows w and st st' :: faulty_server
  assume "ch_insert faulty_clickhouse t columns rows st = (w, st')"
  then show "\<exists>part. subseq part rows \<and> (is_ok w \<longrightarrow> part = rows)
      \<and> snd st' = (snd st)(t := snd st t @ map (zip columns) part)"
    by (auto simp: faulty_clickhouse_def memory_clickhouse_def on_tables_def split: if_splits intro: subseq_take)
next
  fix t u w and st st' :: faulty_server
  assume "ch_delete faulty_clickhouse t u st = (w, st')"
  then show "\<exists>keep. (\<forall>x. ch_get x ''batch_id'' \<noteq> CStr u \<longrightarrow> keep x)
      \<and> (is_ok w \<longrightarrow> (\<forall>x. keep x \<longrightarrow> ch_get x ''batch_id'' \<noteq> CStr u))
      \<and> snd st' = (snd st)(t := filter keep (snd st t))"
    by (intro exI [of _ "\<lambda>r. ch_get r ''batch_id'' \<noteq> CStr u"])
      (auto simp: faulty_clickhouse_def memory_clickhouse_def on_tables_def)
qed (auto simp: faulty_clickhouse_def memory_clickhouse_def on_tables_def)

subsection \<open>Properties\<close>

text \<open>
  C17. However the attempts to publish batches are interrupted: whenever the newest publication row
  of a batch is visible, the fact table of its domain holds exactly the number of rows the row announces.
\<close>

theorem serving_publication_exact:
  assumes "clickhouse_service cl view" and "inj (be_uuid5 env BATCH_NAMESPACE)"
    and "(serving_step env cl)\<^sup>*\<^sup>* st st'" and "view st = (\<lambda>_. [])"
    and "batch_ids_ok batch" and "batch_table batch = Some table"
    and "publication_of (view st') batch (batch_uuid env batch) = Some p"
    and "ch_get p ''publication_state'' = CStr ''visible''"
  shows "ch_get p ''expected_rows'' =
    CInt (int (batch_count (view st') table (hb_service_id batch) (batch_uuid env batch)))"
proof -
  have "serving_inv env (view st)"
    using assms(4) by (simp add: serving_inv_def exact_publication_def publication_of_def final_publication_def)
  from clickhouse_service.serving_steps_inv [OF assms(1,3,2) this] assms(5-8) show ?thesis
    by (simp add: serving_inv_def exact_publication_def)
qed

definition example_batch_env :: batch_env where
  "example_batch_env =
     \<lparr>be_uuid5 = (\<lambda>ns name. name), be_sha256 = (\<lambda>s. s), be_sha_uuid = (\<lambda>s. s),
      be_dumps = (\<lambda>j. case j of JObj r \<Rightarrow> show_nat (length r) | _ \<Rightarrow> []),
      be_fromiso = (\<lambda>s. Inr (int (length s))), be_str = py_str, be_float = (\<lambda>_. None)\<rparr>"

definition example_event :: "string \<Rightarrow> int \<Rightarrow> row" where
  "example_event ev n =
     [(''event_id'', JStr ev), (''timestamp'', JStr ''2025-01-01''), (''source_object_key'', JStr ''k''),
      (''source_object_version'', JStr ''v''), (''line_ordinal'', JInt n), (''transform_version'', JStr ''t''),
      (''client_ip'', JStr ''192.0.2.1'')]"

definition example_batch :: high_scale_batch where
  "example_batch =
     \<lparr>hb_batch_id = ''b1'', hb_service_id = ''svc'', hb_domain = ''request'', hb_generation = ''1'',
      hb_rows = [example_event ''e1'' 0, example_event ''e2'' 1]\<rparr>"

text \<open>Three attempts: the fact insert of the first one is cut off, the second one clears the rest.\<close>

definition example_attempt :: "timestamp \<Rightarrow> faulty_server \<Rightarrow> insert_receipt result \<times> faulty_server" where
  "example_attempt now = insert_batch example_batch_env faulty_clickhouse now example_batch"

definition example_start :: faulty_server where
  "example_start = ([False, True], \<lambda>_. [])"

definition example_served :: faulty_server where
  "example_served = snd (example_attempt 3 (snd (example_attempt 2 (snd (example_attempt 1 example_start)))))"

lemma example_ids: "batch_ids_ok example_batch"
  by code_simp

lemma example_uuid_inj: "inj (be_uuid5 example_batch_env ns)"
  by (simp add: example_batch_env_def inj_def)

lemma example_step: "serving_step example_batch_env faulty_clickhouse st (snd (example_attempt now st))"
  unfolding example_attempt_def by (rule serving_step.attempt [OF example_ids prod.collapse [symmetric]])

lemma example_steps: "(serving_step example_batch_env faulty_clickhouse)\<^sup>*\<^sup>* example_start example_served"
  unfolding example_served_def
  by (rule rtranclp.rtrancl_into_rtrancl [OF rtranclp.rtrancl_into_rtrancl [OF r_into_rtranclp]]; rule example_step)

theorem serving_publication_exact_witness:
  "\<exists>p. publication_of (snd example_served) example_batch (batch_uuid example_batch_env example_batch) = Some p
     \<and> ch_get p ''expected_rows'' = CInt (int (batch_count (snd example_served) ''request_facts'' ''svc''
           (batch_uuid example_batch_env example_batch)))"
proof -
  have "is_visible (publication_of (snd example_served) example_batch (batch_uuid example_batch_env example_batch))
      = (publication_of (snd example_served) example_batch (batch_uuid example_batch_env example_batch) \<noteq> None
         \<and> ch_get (the (publication_of (snd example_served) example_batch (batch_uuid example_batch_env example_batch)))
             ''publication_state'' = CStr ''visible'')"
    by (auto simp: is_visible_def)
  also have "\<dots>" by code_simp
  finally obtain p where p: "publication_of (snd example_served) example_batch (batch_uuid example_batch_env example_batch) = Some p"
      "ch_get p ''publication_state'' = CStr ''visible''"
    by (auto simp: is_visible_def)
  have "snd example_start = (\<lambda>_. [])" "batch_table example_batch = Some ''request_facts''" "hb_service_id example_batch = ''svc''"
    by (simp_all add: example_start_def batch_table_def example_batch_def DOMAIN_TABLES_def)
  with serving_publication_exact [OF faulty_ch.clickhouse_service_axioms example_uuid_inj example_steps _ example_ids _ p]
  show ?thesis using p(1) by simp
qed


definition example_partial :: ch_tables where
  "example_partial = snd (snd (example_attempt 1 example_start))"


end
