(* ===== verification/Serving_Publication.thy ===== *)
theory Serving_Publication
  imports Clickhouse_Batch
begin

text \<open>
  \<open>ClickHousePublication\<close> of \<open>archive/clickhouse_batch.py\<close>: the publication of a batch under a durable
  manifest, with its two manifest stores. The state is the pair of the manifest store and the
  ClickHouse client. The locale \<open>batch_manifest_store\<close> is what the publication relies on: an entry is
  read back as it was written, provided a rewrite keeps the identity of the batch. Both stores
  satisfy it; the PostgreSQL one only rewrites the status and the visible rows on a conflict.
  The theorems say that the manifest of a batch never runs ahead of ClickHouse, that a publication
  that returned is not repeated, and that other content under a published batch id is refused.
\<close>

subsection \<open>Manifest stores\<close>

record 'm batch_manifest_store =
  bs_get :: "string \<Rightarrow> ('m, batch_manifest option) eff"
  bs_put :: "batch_manifest \<Rightarrow> ('m, unit) eff"

definition in_memory_batch_manifest_store :: "(string \<rightharpoonup> batch_manifest) batch_manifest_store" where
  "in_memory_batch_manifest_store =
     \<lparr>bs_get = (\<lambda>k ms. (Inr (ms k), ms)),
      bs_put = (\<lambda>m ms. (Inr (), ms(bm_batch_id m \<mapsto> m)))\<rparr>"

definition postgres_batch_manifest_store :: "timestamp \<Rightarrow> control_db batch_manifest_store" where
  "postgres_batch_manifest_store clk =
     \<lparr>bs_get = (\<lambda>k. atomically (get_batch_manifest k)),
      bs_put = (\<lambda>m. atomically (put_batch_manifest clk m))\<rparr>"

definition same_identity :: "batch_manifest \<Rightarrow> batch_manifest \<Rightarrow> bool" where
  "same_identity a b \<longleftrightarrow>
     bm_batch_id a = bm_batch_id b \<and> bm_service_id a = bm_service_id b \<and> bm_domain a = bm_domain b
     \<and> bm_generation a = bm_generation b \<and> bm_digest a = bm_digest b \<and> bm_expected_rows a = bm_expected_rows b"

locale batch_manifests =
  fixes store :: "'m batch_manifest_store" and stored :: "'m \<Rightarrow> string \<Rightarrow> batch_manifest option"
  assumes get_law: "bs_get store k s = (found, s') \<Longrightarrow>
      stored s' = stored s \<and> (\<forall>x. found = Inr x \<longrightarrow> x = stored s k)"
    and put_law: "bs_put store m s = (Inr (), s') \<Longrightarrow>
      (\<forall>old. stored s (bm_batch_id m) = Some old \<longrightarrow> same_identity old m) \<Longrightarrow>
      stored s' = (stored s)(bm_batch_id m \<mapsto> m)"
    and put_error: "bs_put store m s = (Inl e, s') \<Longrightarrow> stored s' = stored s"

interpretation mem_manifests: batch_manifests in_memory_batch_manifest_store "\<lambda>ms. ms"
  by unfold_locales (auto simp: in_memory_batch_manifest_store_def)

definition pg_stored :: "control_db \<Rightarrow> string \<Rightarrow> batch_manifest option" where
  "pg_stored db k = map_option batch_from_row (bat_tab.lookup k (publication_manifests db))"

lemma pg_stored_code [code]:
  "pg_stored db k = map_option batch_from_row (fetchone (sql_select (\<lambda>r. bm_batch_id r = k) (publication_manifests db)))"
  by (simp add: pg_stored_def bat_tab.lookup_def)

lemma put_batch_manifest_stored:
  assumes put: "put_batch_manifest clk m db = Inr (u, db')"
    and same: "\<forall>old. pg_stored db (bm_batch_id m) = Some old \<longrightarrow> same_identity old m"
  shows "pg_stored db' = (pg_stored db)(bm_batch_id m \<mapsto> m)"
proof (rule ext)
  fix k
  let ?t = "publication_manifests db"
  let ?f = "\<lambda>r :: publication_row. r\<lparr>bm_visible_rows := bm_visible_rows m, bm_status := bm_status m, bm_updated_at := clk\<rparr>"
  show "pg_stored db' k = ((pg_stored db)(bm_batch_id m \<mapsto> m)) k"
  proof (cases "bat_tab.lookup (bm_batch_id m) ?t")
    case None
    then have "sql_select (\<lambda>r. bm_batch_id r = bm_batch_id m) ?t = []"
      by (auto simp: bat_tab.lookup_def fetchone_def split: list.splits)
    with put None show ?thesis
      by (cases "k = bm_batch_id m")
        (auto simp: put_batch_manifest_def pg_stored_def batch_from_row_def ebind_Inr_iff
          bat_tab.lookup_insert_other bat_tab.lookup_def sql_select_def sql_insert_def)
  next
    case (Some old)
    then have "sql_select (\<lambda>r. bm_batch_id r = bm_batch_id m) ?t \<noteq> []"
      by (auto simp: bat_tab.lookup_def)
    with put have db': "publication_manifests db' = sql_update (\<lambda>r. bm_batch_id r = bm_batch_id m) ?f ?t"
      by (auto simp: put_batch_manifest_def ebind_Inr_iff)
    from Some same have "same_identity (batch_from_row old) m" by (simp add: pg_stored_def)
    moreover have "bm_batch_id old = bm_batch_id m" using Some by (rule bat_tab.lookup_Some_pk)
    ultimately have new: "batch_from_row (?f old) = m" by (simp add: batch_from_row_def same_identity_def)
    have look: "bat_tab.lookup k (publication_manifests db')
        = map_option (\<lambda>r. if bm_batch_id r = bm_batch_id m then ?f r else r) (bat_tab.lookup k ?t)"
      unfolding db' by (rule bat_tab.lookup_update) simp
    show ?thesis
    proof (cases "k = bm_batch_id m")
      case True
      with look Some new \<open>bm_batch_id old = bm_batch_id m\<close> show ?thesis by (simp add: pg_stored_def)
    next
      case False
      have "bm_batch_id r \<noteq> bm_batch_id m" if "bat_tab.lookup k ?t = Some r" for r
        using bat_tab.lookup_Some_pk [OF that] False by simp
      with look False show ?thesis
        by (cases "bat_tab.lookup k ?t") (simp_all add: pg_stored_def)
    qed
  qed
qed

lemma get_batch_manifest_stored:
  "get_batch_manifest k db = ebind (require_text k ''batch_id'') (\<lambda>_. Inr (pg_stored db k, db))"
  by (simp add: get_batch_manifest_def pg_stored_def bat_tab.lookup_def)

interpretation pg_manifests: batch_manifests "postgres_batch_manifest_store clk" pg_stored for clk
proof unfold_locales
  fix k db found db'
  assume "bs_get (postgres_batch_manifest_store clk) k db = (found, db')"
  then show "pg_stored db' = pg_stored db \<and> (\<forall>x. found = Inr x \<longrightarrow> x = pg_stored db k)"
    by (cases "require_text k ''batch_id''")
      (auto simp: postgres_batch_manifest_store_def atomically_def get_batch_manifest_stored)
next
  fix m db db'
  assume "bs_put (postgres_batch_manifest_store clk) m db = (Inr (), db')"
    and "\<forall>old. pg_stored db (bm_batch_id m) = Some old \<longrightarrow> same_identity old m"
  then show "pg_stored db' = (pg_stored db)(bm_batch_id m \<mapsto> m)"
    by (auto simp: postgres_batch_manifest_store_def atomically_def split: sum.splits dest: put_batch_manifest_stored)
next
  fix m db e db'
  assume "bs_put (postgres_batch_manifest_store clk) m db = (Inl e, db')"
  then show "pg_stored db' = pg_stored db"
    by (auto simp: postgres_batch_manifest_store_def atomically_def split: sum.splits)
qed

subsection \<open>Publication\<close>

record batch_publication_result =
  bp_batch_id :: string
  bp_status :: publication_status
  bp_rows_visible :: int
  bp_duplicate :: bool

definition on_left :: "('m, 'a) eff \<Rightarrow> ('m \<times> 'c, 'a) eff" where
  "on_left m w = (let (r, s) = m (fst w) in (r, (s, snd w)))"

definition on_right :: "('c, 'a) eff \<Rightarrow> ('m \<times> 'c, 'a) eff" where
  "on_right m w = (let (r, s) = m (snd w) in (r, (fst w, s)))"

definition validate_existing :: "batch_env \<Rightarrow> batch_manifest \<Rightarrow> high_scale_batch \<Rightarrow> unit result" where
  "validate_existing env m batch =
     ebind (ensure (bm_service_id m = hb_service_id batch \<and> bm_domain m = hb_domain batch
                    \<and> bm_generation m = hb_generation batch)
              (ValueError ''batch identity does not match existing manifest'')) (\<lambda>_.
     ensure (bm_digest m = batch_digest env batch) (ValueError ''batch digest does not match existing manifest''))"

definition pending_manifest :: "batch_env \<Rightarrow> high_scale_batch \<Rightarrow> batch_manifest" where
  "pending_manifest env batch =
     \<lparr>bm_batch_id = hb_batch_id batch, bm_service_id = hb_service_id batch, bm_domain = hb_domain batch,
      bm_generation = hb_generation batch, bm_digest = batch_digest env batch,
      bm_expected_rows = int (length (hb_rows batch)), bm_status = Pending, bm_visible_rows = 0\<rparr>"

text \<open>\<open>publish\<close> after the manifest is known to be pending, and \<open>publish\<close> itself.\<close>

definition finish_publication ::
  "batch_env \<Rightarrow> 'm batch_manifest_store \<Rightarrow> (high_scale_batch \<Rightarrow> ('c, insert_receipt) eff) \<Rightarrow> high_scale_batch \<Rightarrow> batch_manifest
     \<Rightarrow> ('m \<times> 'c, batch_publication_result) eff" where
  "finish_publication env store client_insert batch m =
     eff_bind (on_right (client_insert batch)) (\<lambda>receipt.
     eff_bind (eff_lift (ensure (ir_batch_id receipt = hb_batch_id batch) (ValueError ''ClickHouse receipt batch id mismatch''))) (\<lambda>_.
     eff_bind (eff_lift (ensure (ir_digest receipt = batch_digest env batch) (ValueError ''ClickHouse receipt digest mismatch''))) (\<lambda>_.
     eff_bind (eff_lift (ensure (ir_rows_inserted receipt = int (length (hb_rows batch))) (PartialInsertError (ir_rows_inserted receipt)))) (\<lambda>_.
     eff_bind (on_left (bs_put store (m\<lparr>bm_status := Visible, bm_visible_rows := ir_rows_inserted receipt\<rparr>))) (\<lambda>_.
     eff_return \<lparr>bp_batch_id = hb_batch_id batch, bp_status = Visible, bp_rows_visible = ir_rows_inserted receipt,
                 bp_duplicate = False\<rparr>)))))"

definition clickhouse_publish ::
  "batch_env \<Rightarrow> 'm batch_manifest_store \<Rightarrow> (high_scale_batch \<Rightarrow> ('c, insert_receipt) eff) \<Rightarrow> high_scale_batch
     \<Rightarrow> ('m \<times> 'c, batch_publication_result) eff" where
  "clickhouse_publish env store client_insert batch =
     eff_bind (on_left (bs_get store (hb_batch_id batch))) (\<lambda>found.
     case found of
       None \<Rightarrow>
         eff_bind (on_left (bs_put store (pending_manifest env batch))) (\<lambda>_.
         finish_publication env store client_insert batch (pending_manifest env batch))
     | Some m \<Rightarrow>
         eff_bind (eff_lift (validate_existing env m batch)) (\<lambda>_.
         if bm_status m = Visible
         then eff_return \<lparr>bp_batch_id = hb_batch_id batch, bp_status = bm_status m, bp_rows_visible = bm_visible_rows m,
                          bp_duplicate = True\<rparr>
         else finish_publication env store client_insert batch m))"

subsection \<open>What a publication does to the manifests\<close>

lemma on_left_run: "on_left m w = (r, w') \<longleftrightarrow> m (fst w) = (r, fst w') \<and> snd w' = snd w"
  by (cases w, cases w', cases "m (fst w)") (auto simp: on_left_def)

lemma on_right_run: "on_right m w = (r, w') \<longleftrightarrow> m (snd w) = (r, snd w') \<and> fst w' = fst w"
  by (cases w, cases w', cases "m (snd w)") (auto simp: on_right_def)

definition published_result :: "high_scale_batch \<Rightarrow> bool \<Rightarrow> batch_publication_result" where
  "published_result batch dup =
     \<lparr>bp_batch_id = hb_batch_id batch, bp_status = Visible, bp_rows_visible = int (length (hb_rows batch)), bp_duplicate = dup\<rparr>"

lemma validate_existing_iff:
  "validate_existing env m batch = Inr u \<longleftrightarrow>
     bm_service_id m = hb_service_id batch \<and> bm_domain m = hb_domain batch \<and> bm_generation m = hb_generation batch
     \<and> bm_digest m = batch_digest env batch"
  by (auto simp: validate_existing_def ebind_Inr_iff)

lemma pending_manifest_simps [simp]:
  "bm_batch_id (pending_manifest env batch) = hb_batch_id batch"
  "bm_status (pending_manifest env batch) = Pending"
  by (simp_all add: pending_manifest_def)

lemma validate_pending [simp]: "validate_existing env (pending_manifest env batch) batch = Inr ()"
  by (simp add: validate_existing_def pending_manifest_def)

context batch_manifests
begin

lemma finish_publication_outcome:
  assumes run: "finish_publication env store client_insert batch m w = (r, w')"
    and m: "stored (fst w) (hb_batch_id batch) = Some m" "bm_batch_id m = hb_batch_id batch"
  obtains (failed) "\<not> is_ok r" "stored (fst w') = stored (fst w)" "snd w' = snd (client_insert batch (snd w))"
    | (served) receipt where "client_insert batch (snd w) = (Inr receipt, snd w')"
        "ir_rows_inserted receipt = int (length (hb_rows batch))" "r = Inr (published_result batch False)"
        "stored (fst w') = (stored (fst w))(hb_batch_id batch \<mapsto>
            m\<lparr>bm_status := Visible, bm_visible_rows := int (length (hb_rows batch))\<rparr>)"
proof -
  obtain q c where ins: "client_insert batch (snd w) = (q, c)" by fastforce
  then have right: "on_right (client_insert batch) w = (q, (fst w, c))" by (simp add: on_right_run)
  show thesis
  proof (cases q)
    case (Inl e)
    with run right have "r = Inl e" "w' = (fst w, c)" by (simp_all add: finish_publication_def eff_bind_def)
    with ins show thesis by (intro failed) simp_all
  next
    case (Inr receipt)
    show thesis
    proof (cases "ir_batch_id receipt = hb_batch_id batch \<and> ir_digest receipt = batch_digest env batch
        \<and> ir_rows_inserted receipt = int (length (hb_rows batch))")
      case False
      with run right Inr have "\<not> is_ok r" "w' = (fst w, c)"
        by (auto simp: finish_publication_def eff_bind_def ensure_def split: if_splits)
      with ins show thesis by (intro failed) simp_all
    next
      case True
      let ?m = "m\<lparr>bm_status := Visible, bm_visible_rows := int (length (hb_rows batch))\<rparr>"
      obtain p s where put: "bs_put store ?m (fst w) = (p, s)" by fastforce
      then have left: "on_left (bs_put store ?m) (fst w, c) = (p, (s, c))" by (simp add: on_left_run)
      show thesis
      proof (cases p)
        case (Inl e)
        with run right \<open>q = Inr receipt\<close> True left have "r = Inl e" "w' = (s, c)"
          by (simp_all add: finish_publication_def eff_bind_def)
        with ins put_error [OF put [unfolded Inl]] show thesis by (intro failed) simp_all
      next
        case (Inr u)
        with run right \<open>q = Inr receipt\<close> True left have w': "r = Inr (published_result batch False)" "w' = (s, c)"
          by (simp_all add: finish_publication_def eff_bind_def published_result_def)
        have "same_identity m ?m" by (simp add: same_identity_def)
        with put_law [of ?m "fst w" s] put Inr m have
          "stored s = (stored (fst w))(hb_batch_id batch \<mapsto> ?m)" by simp
        with ins True \<open>q = Inr receipt\<close> w' show thesis by (intro served [of receipt]) simp_all
      qed
    qed
  qed
qed

lemma finish_publication_from:
  assumes fin: "finish_publication env store client_insert batch m (s, c) = (r, w')"
    and st: "stored s = base(hb_batch_id batch \<mapsto> m)" and id: "bm_batch_id m = hb_batch_id batch"
  shows "(\<not> is_ok r \<and> snd w' = snd (client_insert batch c) \<and> stored (fst w') = base(hb_batch_id batch \<mapsto> m))
    \<or> (\<exists>receipt. client_insert batch c = (Inr receipt, snd w') \<and> r = Inr (published_result batch False)
         \<and> stored (fst w') = base(hb_batch_id batch \<mapsto>
              m\<lparr>bm_status := Visible, bm_visible_rows := int (length (hb_rows batch))\<rparr>))"
  by (rule finish_publication_outcome [OF fin]) (use st id in auto)

text \<open>The cases of \<open>publish\<close>: nothing happened, or the client was asked under a manifest of the batch.\<close>

lemma publish_outcome:
  assumes run: "clickhouse_publish env store client_insert batch w = (r, w')"
    and ids: "\<And>m. stored (fst w) (hb_batch_id batch) = Some m \<Longrightarrow> bm_batch_id m = hb_batch_id batch"
  obtains (untouched) "stored (fst w') = stored (fst w)" "snd w' = snd w"
        "\<not> is_ok r \<or> (\<exists>m. stored (fst w) (hb_batch_id batch) = Some m \<and> bm_status m = Visible
            \<and> validate_existing env m batch = Inr ()
            \<and> r = Inr \<lparr>bp_batch_id = hb_batch_id batch, bp_status = Visible, bp_rows_visible = bm_visible_rows m, bp_duplicate = True\<rparr>)"
    | (failed) m where "\<not> is_ok r" "snd w' = snd (client_insert batch (snd w))"
        "validate_existing env m batch = Inr ()" "bm_batch_id m = hb_batch_id batch" "bm_status m = Pending"
        "stored (fst w') = (stored (fst w))(hb_batch_id batch \<mapsto> m)"
    | (served) m receipt where "client_insert batch (snd w) = (Inr receipt, snd w')" "r = Inr (published_result batch False)"
        "validate_existing env m batch = Inr ()" "bm_batch_id m = hb_batch_id batch"
        "stored (fst w') = (stored (fst w))(hb_batch_id batch \<mapsto>
            m\<lparr>bm_status := Visible, bm_visible_rows := int (length (hb_rows batch))\<rparr>)"
proof -
  obtain found s where get: "bs_get store (hb_batch_id batch) (fst w) = (found, s)" by fastforce
  then have left: "on_left (bs_get store (hb_batch_id batch)) w = (found, (s, snd w))" by (simp add: on_left_run)
  note law = get_law [OF get]
  show thesis
  proof (cases found)
    case (Inl e)
    with run left law show thesis by (intro untouched) (auto simp: clickhouse_publish_def eff_bind_def)
  next
    case (Inr x)
    with law have x: "stored s (hb_batch_id batch) = x" by simp
    show thesis
    proof (cases x)
      case None
      let ?m = "pending_manifest env batch"
      obtain p s2 where put: "bs_put store ?m s = (p, s2)" by fastforce
      then have left2: "on_left (bs_put store ?m) (s, snd w) = (p, (s2, snd w))" by (simp add: on_left_run)
      have id: "bm_batch_id ?m = hb_batch_id batch" by (simp add: pending_manifest_def)
      show thesis
      proof (cases p)
        case (Inl e)
        with run left left2 \<open>found = Inr x\<close> None put_error [OF put [unfolded Inl]] law show thesis
          by (intro untouched) (auto simp: clickhouse_publish_def eff_bind_def)
      next
        case (Inr u)
        with put_law [of ?m s s2] put x None id law have st2: "stored s2 = (stored (fst w))(hb_batch_id batch \<mapsto> ?m)" by simp
        from run left left2 \<open>found = Inr x\<close> None Inr have fin:
          "finish_publication env store client_insert batch ?m (s2, snd w) = (r, w')"
          by (simp add: clickhouse_publish_def eff_bind_def)
        from finish_publication_from [OF fin st2 id] id show thesis
          by (elim disjE conjE exE)
            (simp_all add: failed [of "pending_manifest env batch"] served [of _ "pending_manifest env batch"])
      qed
    next
      case (Some m)
      with x law ids have m: "stored (fst w) (hb_batch_id batch) = Some m" "bm_batch_id m = hb_batch_id batch" by auto
      then have upd: "(stored (fst w))(hb_batch_id batch \<mapsto> m) = stored (fst w)" by auto
      show thesis
      proof (cases "validate_existing env m batch")
        case (Inl e)
        with run left \<open>found = Inr x\<close> Some law show thesis
          by (intro untouched) (auto simp: clickhouse_publish_def eff_bind_def)
      next
        case (Inr u)
        show thesis
        proof (cases "bm_status m")
          case Visible
          with run left \<open>found = Inr x\<close> Some Inr law m show thesis
            by (intro untouched) (auto simp: clickhouse_publish_def eff_bind_def)
        next
          case Pending
          with run left \<open>found = Inr x\<close> Some Inr have fin:
            "finish_publication env store client_insert batch m (s, snd w) = (r, w')"
            by (simp add: clickhouse_publish_def eff_bind_def)
          have "stored s = (stored (fst w))(hb_batch_id batch \<mapsto> m)" using law upd by simp
          from finish_publication_from [OF fin this m(2)] m(2) Inr Pending show thesis
            by (elim disjE conjE exE) (simp_all add: failed served)
        qed
      qed
    qed
  qed
qed

text \<open>A publication that returned has left a visible manifest of the batch.\<close>

lemma published_manifest:
  assumes run: "clickhouse_publish env store client_insert batch w = (Inr x, w')"
    and ids: "\<And>m. stored (fst w) (hb_batch_id batch) = Some m \<Longrightarrow> bm_batch_id m = hb_batch_id batch"
  shows "\<exists>m. stored (fst w') (hb_batch_id batch) = Some m \<and> validate_existing env m batch = Inr ()
    \<and> bm_status m = Visible \<and> bm_visible_rows m = bp_rows_visible x"
  using run by (rule publish_outcome) (auto simp: published_result_def ids validate_existing_iff)

end

subsection \<open>Manifests and tables together\<close>

definition manifest_batch :: "batch_manifest \<Rightarrow> high_scale_batch" where
  "manifest_batch m =
     \<lparr>hb_batch_id = bm_batch_id m, hb_service_id = bm_service_id m, hb_domain = bm_domain m,
      hb_generation = bm_generation m, hb_rows = []\<rparr>"

text \<open>ClickHouse serves \<open>n\<close> rows under the manifest: its publication is visible and the table holds \<open>n\<close> rows.\<close>

definition serves :: "batch_env \<Rightarrow> ch_tables \<Rightarrow> high_scale_batch \<Rightarrow> int \<Rightarrow> bool" where
  "serves env tb b n \<longleftrightarrow>
     is_visible (publication_of tb b (batch_uuid env b))
     \<and> (\<exists>table. batch_table b = Some table \<and> int (batch_count tb table (hb_service_id b) (batch_uuid env b)) = n)"

definition plane_inv :: "batch_env \<Rightarrow> (string \<Rightarrow> batch_manifest option) \<Rightarrow> ch_tables \<Rightarrow> bool" where
  "plane_inv env ms tb \<longleftrightarrow>
     serving_inv env tb
     \<and> (\<forall>k m. ms k = Some m \<longrightarrow> bm_batch_id m = k \<and> batch_ids_ok (manifest_batch m)
          \<and> (bm_status m = Visible \<longrightarrow> serves env tb (manifest_batch m) (bm_visible_rows m)))"

lemma serves_key:
  assumes "batch_key b = batch_key b'"
  shows "serves env tb b n = serves env tb b' n"
  using assms publication_of_key [OF assms] batch_uuid_key [OF assms]
  by (simp add: serves_def batch_table_def batch_key_def)

lemma validated_key:
  assumes "validate_existing env m batch = Inr u" and "bm_batch_id m = hb_batch_id batch"
  shows "batch_key (manifest_batch m) = batch_key batch"
  using assms by (simp add: validate_existing_iff batch_key_def manifest_batch_def)

lemma batch_ids_ok_key: "batch_key b = batch_key b' \<Longrightarrow> batch_ids_ok b = batch_ids_ok b'"
  by (simp add: batch_key_def batch_ids_ok_def)

context clickhouse_service
begin

lemma served_stays:
  assumes run: "insert_batch env cl now B st = (r, st')" and ids: "batch_ids_ok B" "batch_ids_ok b"
    and inj: "inj (be_uuid5 env BATCH_NAMESPACE)" and serves: "serves env (view st) b n"
  shows "serves env (view st') b n"
  using run
proof (cases rule: insert_batch_run)
  case refused
  with serves show ?thesis by simp
next
  case (attempt table columns mapped)
  note run = attempt(7)
  show ?thesis
  proof (cases "batch_key b = batch_key B")
    case True
    with serves have "is_visible (publication_of (view st) B (batch_uuid env B))"
      by (simp add: serves_key [OF True]) (simp add: serves_def)
    from publish_table_rows_visible [OF run this] serves show ?thesis by simp
  next
    case False
    note frame = eff_keepsD [OF publish_table_rows_frame [OF attempt(6,3)] run]
    from False batch_uuid_inj [OF inj ids(2,1)] have diff: "batch_uuid env b \<noteq> batch_uuid env B" by blast
    then have "publication_of (view st') b (batch_uuid env b) = publication_of (view st) b (batch_uuid env b)"
      using frame by (auto simp: publication_of_def attempt_frame_def)
    moreover have "batch_count (view st') t s (batch_uuid env b) = batch_count (view st) t s (batch_uuid env b)"
      if "batch_table b = Some t" for t s
      using attempt_frame_count [OF frame] diff domain_tables_ok(3) that by (auto simp: batch_table_def PUBLICATION_TABLE_def)
    ultimately show ?thesis using serves by (auto simp: serves_def)
  qed
qed

end

locale serving_plane = batch_manifests + clickhouse_service
begin

lemma publish_plane_inv:
  assumes run: "clickhouse_publish env store (insert_batch env cl now) batch w = (r, w')"
    and ids: "batch_ids_ok batch" and inj: "inj (be_uuid5 env BATCH_NAMESPACE)"
    and inv: "plane_inv env (stored (fst w)) (view (snd w))"
  shows "plane_inv env (stored (fst w')) (view (snd w'))
    \<and> (\<forall>x. r = Inr x \<longrightarrow> serves env (view (snd w')) batch (bp_rows_visible x))"
proof -
  let ?ms = "stored (fst w)"
  from inv have sinv: "serving_inv env (view (snd w))"
    and mids: "\<And>k m. ?ms k = Some m \<Longrightarrow> bm_batch_id m = k \<and> batch_ids_ok (manifest_batch m)"
    and vis: "\<And>k m. ?ms k = Some m \<Longrightarrow> bm_status m = Visible \<Longrightarrow> serves env (view (snd w)) (manifest_batch m) (bm_visible_rows m)"
    by (auto simp: plane_inv_def)
  have after: "serving_inv env (view c) \<and>
      (\<forall>k m. ?ms k = Some m \<longrightarrow> bm_status m = Visible \<longrightarrow> serves env (view c) (manifest_batch m) (bm_visible_rows m))"
    if "insert_batch env cl now batch (snd w) = (q, c)" for q c
    using serving_step_inv [OF serving_step.attempt [OF ids that] inj sinv] served_stays [OF that ids _ inj] mids vis
    by blast
  from run show ?thesis
  proof (rule publish_outcome)
    show "bm_batch_id m = hb_batch_id batch" if "?ms (hb_batch_id batch) = Some m" for m
      using mids [OF that] by simp
  next
    assume "stored (fst w') = ?ms" "snd w' = snd w" and
      r: "\<not> is_ok r \<or> (\<exists>m. ?ms (hb_batch_id batch) = Some m \<and> bm_status m = Visible \<and> validate_existing env m batch = Inr ()
            \<and> r = Inr \<lparr>bp_batch_id = hb_batch_id batch, bp_status = Visible, bp_rows_visible = bm_visible_rows m, bp_duplicate = True\<rparr>)"
    moreover have "serves env (view (snd w)) batch (bm_visible_rows m)"
      if "?ms (hb_batch_id batch) = Some m" "bm_status m = Visible" "validate_existing env m batch = Inr ()" for m
      using vis [OF that(1,2)] mids [OF that(1)] serves_key [OF validated_key [OF that(3)]] by simp
    ultimately show ?thesis using inv by auto
  next
    fix m assume "\<not> is_ok r" and c: "snd w' = snd (insert_batch env cl now batch (snd w))"
      and m: "validate_existing env m batch = Inr ()" "bm_batch_id m = hb_batch_id batch" "bm_status m = Pending"
      and st: "stored (fst w') = ?ms(hb_batch_id batch \<mapsto> m)"
    have "insert_batch env cl now batch (snd w) = (fst (insert_batch env cl now batch (snd w)), snd w')" by (simp add: c)
    from after [OF this] m st mids ids batch_ids_ok_key [OF validated_key [OF m(1,2)]] \<open>\<not> is_ok r\<close>
    show ?thesis by (auto simp: plane_inv_def)
  next
    fix m receipt assume run: "insert_batch env cl now batch (snd w) = (Inr receipt, snd w')"
      and r: "r = Inr (published_result batch False)" and m: "validate_existing env m batch = Inr ()" "bm_batch_id m = hb_batch_id batch"
      and st: "stored (fst w') = ?ms(hb_batch_id batch \<mapsto>
            m\<lparr>bm_status := Visible, bm_visible_rows := int (length (hb_rows batch))\<rparr>)"
    let ?m = "m\<lparr>bm_status := Visible, bm_visible_rows := int (length (hb_rows batch))\<rparr>"
    from insert_batch_receipt [OF run sinv ids] have now: "serves env (view (snd w')) batch (int (length (hb_rows batch)))"
      by (auto simp: serves_def)
    have key: "batch_key (manifest_batch ?m) = batch_key batch"
      using validated_key [OF m] by (simp add: batch_key_def manifest_batch_def)
    from after [OF run] st mids ids m(2) now serves_key [OF key] batch_ids_ok_key [OF key] r
    show ?thesis by (auto simp: plane_inv_def published_result_def)
  qed
qed

end

lemma pg_serving_plane:
  assumes "clickhouse_service cl view"
  shows "serving_plane (postgres_batch_manifest_store clk) pg_stored cl view"
  using pg_manifests.batch_manifests_axioms assms by (rule serving_plane.intro)

interpretation pg_plane: serving_plane "postgres_batch_manifest_store clk" pg_stored memory_clickhouse "\<lambda>tb. tb" for clk
  by (rule pg_serving_plane [OF mem_ch.clickhouse_service_axioms])

text \<open>A run of publications through the PostgreSQL store: any batches, any failures.\<close>

inductive publish_step :: "batch_env \<Rightarrow> 's clickhouse_client \<Rightarrow> control_db \<times> 's \<Rightarrow> control_db \<times> 's \<Rightarrow> bool" for env cl where
  publication: "batch_ids_ok batch \<Longrightarrow>
     clickhouse_publish env (postgres_batch_manifest_store clk) (insert_batch env cl now) batch w = (r, w') \<Longrightarrow>
     publish_step env cl w w'"

lemma publish_steps_inv:
  assumes service: "clickhouse_service cl view" and inj: "inj (be_uuid5 env BATCH_NAMESPACE)"
    and steps: "(publish_step env cl)\<^sup>*\<^sup>* w w'" and inv: "plane_inv env (pg_stored (fst w)) (view (snd w))"
  shows "plane_inv env (pg_stored (fst w')) (view (snd w'))"
  using steps inv
proof (induction rule: rtranclp_induct)
  case (step w1 w2)
  from step(2) obtain batch clk now r where "batch_ids_ok batch"
      "clickhouse_publish env (postgres_batch_manifest_store clk) (insert_batch env cl now) batch w1 = (r, w2)"
    by (auto elim: publish_step.cases)
  with serving_plane.publish_plane_inv [OF pg_serving_plane [OF service], of env clk now batch w1 r w2] inj step(3,4)
  show ?case by blast
qed

lemma pg_get_manifest:
  "k \<noteq> [] \<Longrightarrow> on_left (bs_get (postgres_batch_manifest_store clk) k) w = (Inr (pg_stored (fst w) k), w)"
  by (simp add: on_left_run postgres_batch_manifest_store_def atomically_def get_batch_manifest_stored require_text_def)

subsection \<open>Properties\<close>

text \<open>
  C16. A publication manifest in PostgreSQL never runs ahead of ClickHouse. After any run of publications,
  interrupted or not, a batch whose manifest is visible has a visible publication row in ClickHouse
  and exactly the manifest's number of visible rows in its fact table.
\<close>

theorem visible_manifest_is_served:
  assumes "clickhouse_service cl view" and "inj (be_uuid5 env BATCH_NAMESPACE)"
    and "publication_manifests (fst w) = []" and "view (snd w) = (\<lambda>_. [])"
    and "(publish_step env cl)\<^sup>*\<^sup>* w w'"
    and "pg_stored (fst w') k = Some m" and "bm_status m = Visible"
  shows "bm_batch_id m = k \<and> serves env (view (snd w')) (manifest_batch m) (bm_visible_rows m)"
proof -
  have "plane_inv env (pg_stored (fst w)) (view (snd w))"
    using assms(3,4)
    by (simp add: plane_inv_def pg_stored_def bat_tab.lookup_def sql_select_def serving_inv_def exact_publication_def
        publication_of_def final_publication_def)
  from publish_steps_inv [OF assms(1,2,5) this] assms(6,7) show ?thesis by (simp add: plane_inv_def)
qed

definition example_publish ::
  "timestamp \<Rightarrow> control_db \<times> faulty_server \<Rightarrow> batch_publication_result result \<times> (control_db \<times> faulty_server)" where
  "example_publish now =
     clickhouse_publish example_batch_env (postgres_batch_manifest_store now)
       (insert_batch example_batch_env faulty_clickhouse now) example_batch"

definition example_plane :: "control_db \<times> faulty_server" where
  "example_plane = (create_schema, [True], \<lambda>_. [])"

definition example_published :: "control_db \<times> faulty_server" where
  "example_published = snd (example_publish 2 (snd (example_publish 1 example_plane)))"

lemma example_publish_steps: "(publish_step example_batch_env faulty_clickhouse)\<^sup>*\<^sup>* example_plane example_published"
proof -
  have "publish_step example_batch_env faulty_clickhouse w (snd (example_publish now w))" for now w
    unfolding example_publish_def by (rule publish_step.publication [OF example_ids prod.collapse [symmetric]])
  then show ?thesis unfolding example_published_def
    by (meson rtranclp.rtrancl_into_rtrancl r_into_rtranclp)
qed

definition example_visible :: batch_manifest where
  "example_visible =
     (pending_manifest example_batch_env example_batch)\<lparr>bm_status := Visible, bm_visible_rows := 2\<rparr>"

theorem visible_manifest_is_served_witness:
  "serves example_batch_env (snd (snd example_published)) (manifest_batch example_visible) 2"
proof -
  have "pg_stored (fst example_published) ''b1'' = Some example_visible" by code_simp
  moreover have "bm_status example_visible = Visible" "bm_visible_rows example_visible = 2" by (simp_all add: example_visible_def)
  moreover have "publication_manifests (fst example_plane) = []" "snd (snd example_plane) = (\<lambda>_. [])"
    by (simp_all add: example_plane_def create_schema_def)
  ultimately show ?thesis
    using visible_manifest_is_served [OF faulty_ch.clickhouse_service_axioms example_uuid_inj _ _ example_publish_steps] by metis
qed

text \<open>
  Publishing a batch again after it was published neither touches ClickHouse nor the manifests;
  when the answer arrives it reports the same rows, as a duplicate.
\<close>

theorem publish_is_idempotent:
  assumes "clickhouse_publish env (postgres_batch_manifest_store clk) client_insert batch w = (Inr x, w')"
  shows "clickhouse_publish env (postgres_batch_manifest_store clk') client_insert' batch w'
    = (Inr \<lparr>bp_batch_id = hb_batch_id batch, bp_status = Visible, bp_rows_visible = bp_rows_visible x, bp_duplicate = True\<rparr>, w')"
proof -
  have "bm_batch_id m = hb_batch_id batch" if "pg_stored (fst w) (hb_batch_id batch) = Some m" for m
    using that bat_tab.lookup_Some_pk by (fastforce simp: pg_stored_def batch_from_row_def)
  from pg_manifests.published_manifest [OF assms this] obtain m where
    m: "pg_stored (fst w') (hb_batch_id batch) = Some m" "validate_existing env m batch = Inr ()"
      "bm_status m = Visible" "bm_visible_rows m = bp_rows_visible x" by blast
  have "hb_batch_id batch \<noteq> []"
  proof
    assume "hb_batch_id batch = []"
    with assms show False
      by (simp add: clickhouse_publish_def eff_bind_def on_left_def postgres_batch_manifest_store_def atomically_def
          get_batch_manifest_stored require_text_def)
  qed
  with m show ?thesis by (simp add: clickhouse_publish_def eff_bind_def pg_get_manifest)
qed

theorem publish_is_idempotent_witness:
  "clickhouse_publish example_batch_env (postgres_batch_manifest_store 9)
      (insert_batch example_batch_env faulty_clickhouse 9) example_batch example_published
    = (Inr \<lparr>bp_batch_id = ''b1'', bp_status = Visible, bp_rows_visible = 2, bp_duplicate = True\<rparr>, example_published)"
proof -
  have "fst (example_publish 2 (snd (example_publish 1 example_plane))) = Inr (published_result example_batch False)"
    by code_simp
  then have "clickhouse_publish example_batch_env (postgres_batch_manifest_store 2)
      (insert_batch example_batch_env faulty_clickhouse 2) example_batch (snd (example_publish 1 example_plane))
      = (Inr (published_result example_batch False), example_published)"
    unfolding example_published_def by (metis example_publish_def prod.collapse)
  from publish_is_idempotent [OF this] show ?thesis by (simp add: published_result_def example_batch_def)
qed

text \<open>
  C19. A batch id that was published for one content is refused for any other: when the manifest of the
  batch id has another service, domain, generation or digest, publishing raises \<open>ValueError\<close> and leaves
  the manifests and ClickHouse as they are.
\<close>

theorem publish_conflict_refused:
  assumes "pg_stored (fst w) (hb_batch_id batch) = Some m" and "hb_batch_id batch \<noteq> []"
    and "(bm_service_id m, bm_domain m, bm_generation m, bm_digest m)
       \<noteq> (hb_service_id batch, hb_domain batch, hb_generation batch, batch_digest env batch)"
  shows "\<exists>msg. clickhouse_publish env (postgres_batch_manifest_store clk) client_insert batch w = (Inl (ValueError msg), w)"
proof -
  from assms(1,2) have "on_left (bs_get (postgres_batch_manifest_store clk) (hb_batch_id batch)) w = (Inr (Some m), w)"
    by (simp add: pg_get_manifest)
  moreover have "\<exists>msg. validate_existing env m batch = Inl (ValueError msg)"
    using assms(3) by (auto simp: validate_existing_def ensure_def)
  ultimately show ?thesis by (auto simp: clickhouse_publish_def eff_bind_def)
qed

theorem publish_conflict_refused_witness:
  "\<exists>msg. clickhouse_publish example_batch_env (postgres_batch_manifest_store 9)
      (insert_batch example_batch_env faulty_clickhouse 9) (example_batch\<lparr>hb_rows := [[]]\<rparr>) example_published
    = (Inl (ValueError msg), example_published)"
proof -
  let ?b = "example_batch\<lparr>hb_rows := [[]]\<rparr>"
  have "pg_stored (fst example_published) (hb_batch_id ?b) = Some example_visible" by code_simp
  moreover have "hb_batch_id ?b \<noteq> []" by (simp add: example_batch_def)
  moreover have "batch_digest example_batch_env ?b \<noteq> bm_digest example_visible" by code_simp
  ultimately show ?thesis by (intro publish_conflict_refused) auto
qed

end
