(* ===== verification/Json_Text.thy ===== *)
theory Json_Text
  imports Json_Model
begin

text \<open>
  The JSON text of Python's \<open>json\<close> module: \<open>json.dumps(value, sort_keys=True,
  separators=(",", ":"))\<close> with its default \<open>ensure_ascii\<close>, and \<open>json.loads\<close>. Text and
  encoded bytes are the same list of characters, since the encoder writes ASCII only. The
  printed form of a float is a parameter (\<open>float_repr\<close>); the reader takes numbers without
  fraction and exponent as integers and others as exact rationals. A \<open>\u\<close> escape beyond the 256
  characters of \<open>char\<close> has no counterpart and is reported as an error, and so are \<open>NaN\<close> and the
  infinities, which no rational represents.

  The reader recurses on fuel: each nesting level costs two units and consumes at least one
  character, so \<open>json_loads\<close> starts with twice the length of the text plus two.
\<close>

subsection \<open>Writing\<close>

definition hex_digit :: "nat \<Rightarrow> char" where
  "hex_digit d = char_of (if d < 10 then 48 + d else 87 + d)"

definition u_escape :: "char \<Rightarrow> string" where
  "u_escape c = (let n = of_char c :: nat in
     [CHR 0x5C, CHR ''u'', CHR ''0'', CHR ''0'', hex_digit (n div 16), hex_digit (n mod 16)])"

definition escape_char :: "char \<Rightarrow> string" where
  "escape_char c =
     (if c = CHR 0x22 then [CHR 0x5C, CHR 0x22]
      else if c = CHR 0x5C then [CHR 0x5C, CHR 0x5C]
      else if c = CHR 0x0A then [CHR 0x5C, CHR ''n'']
      else if c = CHR 0x0D then [CHR 0x5C, CHR ''r'']
      else if c = CHR 0x09 then [CHR 0x5C, CHR ''t'']
      else if c = CHR 0x0C then [CHR 0x5C, CHR ''f'']
      else if c = CHR 0x08 then [CHR 0x5C, CHR ''b'']
      else let n = of_char c :: nat in if 32 \<le> n \<and> n \<le> 126 then [c] else u_escape c)"

definition json_string :: "string \<Rightarrow> string" where
  "json_string s = CHR 0x22 # concat (map escape_char s) @ [CHR 0x22]"

fun json_dumps :: "(rat \<Rightarrow> string) \<Rightarrow> json \<Rightarrow> string" where
  "json_dumps float_repr JNull = ''null''"
| "json_dumps float_repr (JBool b) = (if b then ''true'' else ''false'')"
| "json_dumps float_repr (JInt i) = show_int i"
| "json_dumps float_repr (JFloat q) = float_repr q"
| "json_dumps float_repr (JStr s) = json_string s"
| "json_dumps float_repr (JList xs) = ''['' @ join_with '','' (map (json_dumps float_repr) xs) @ '']''"
| "json_dumps float_repr (JObj r) =
     ''{'' @ join_with '','' (map (\<lambda>(k, t). json_string k @ '':'' @ t)
       (sort_key fst (map (\<lambda>(k, v). (k, json_dumps float_repr v)) r))) @ ''}''"

subsection \<open>Reading\<close>

definition json_error :: "'a result" where
  "json_error = Inl (ValueError ''JSONDecodeError'')"

definition json_space :: "char \<Rightarrow> bool" where
  "json_space c \<longleftrightarrow> c \<in> {CHR 0x20, CHR 0x09, CHR 0x0A, CHR 0x0D}"

definition skip_space :: "string \<Rightarrow> string" where
  "skip_space s = dropWhile json_space s"

definition hex_value :: "char \<Rightarrow> nat option" where
  "hex_value c = (let n = of_char c :: nat in
     if 48 \<le> n \<and> n \<le> 57 then Some (n - 48)
     else if 97 \<le> n \<and> n \<le> 102 then Some (n - 87)
     else if 65 \<le> n \<and> n \<le> 70 then Some (n - 55) else None)"

definition hex4 :: "char \<Rightarrow> char \<Rightarrow> char \<Rightarrow> char \<Rightarrow> nat option" where
  "hex4 a b c d =
     (case (hex_value a, hex_value b, hex_value c, hex_value d) of
        (Some w, Some x, Some y, Some z) \<Rightarrow> Some (((w * 16 + x) * 16 + y) * 16 + z)
      | _ \<Rightarrow> None)"

definition simple_escape :: "char \<Rightarrow> char option" where
  "simple_escape c = map_of [(CHR 0x22, CHR 0x22), (CHR 0x5C, CHR 0x5C), (CHR ''/'', CHR ''/''),
     (CHR ''b'', CHR 0x08), (CHR ''f'', CHR 0x0C), (CHR ''n'', CHR 0x0A), (CHR ''r'', CHR 0x0D),
     (CHR ''t'', CHR 0x09)] c"

text \<open>The rest of a string after its opening quote; a raw control character is refused.\<close>

fun read_string :: "string \<Rightarrow> (string \<times> string) result" where
  "read_string [] = json_error"
| "read_string (c # s) =
     (if c = CHR 0x22 then Inr ([], s)
      else if c = CHR 0x5C then
        (case s of
           [] \<Rightarrow> json_error
         | e # s' \<Rightarrow>
             if e = CHR ''u'' then
               (case s' of
                  w # x # y # z # s'' \<Rightarrow>
                    (case hex4 w x y z of
                       None \<Rightarrow> json_error
                     | Some n \<Rightarrow>
                         if n < 256 then ebind (read_string s'') (\<lambda>(t, rest). Inr (char_of n # t, rest))
                         else Inl (OtherError ''character beyond the model''))
                | _ \<Rightarrow> json_error)
             else (case simple_escape e of
                     None \<Rightarrow> json_error
                   | Some d \<Rightarrow> ebind (read_string s') (\<lambda>(t, rest). Inr (d # t, rest))))
      else if (of_char c :: nat) < 32 then json_error
      else ebind (read_string s) (\<lambda>(t, rest). Inr (c # t, rest)))"

definition is_digit :: "char \<Rightarrow> bool" where
  "is_digit c = (let n = of_char c :: nat in 48 \<le> n \<and> n \<le> 57)"

text \<open>The number grammar: sign, \<open>0\<close> or digits without a leading zero, fraction, exponent.\<close>

definition read_frac :: "string \<Rightarrow> string \<times> string" where
  "read_frac s =
     (case s of
        c # d # s' \<Rightarrow> if c = CHR ''.'' \<and> is_digit d then (takeWhile is_digit (d # s'), dropWhile is_digit (d # s'))
                    else ([], s)
      | _ \<Rightarrow> ([], s))"

definition read_exp :: "string \<Rightarrow> int option \<times> string" where
  "read_exp s =
     (case s of
        e # s' \<Rightarrow>
          if e = CHR ''e'' \<or> e = CHR ''E'' then
            (let (neg, ds) = (case s' of g # s'' \<Rightarrow> if g = CHR ''-'' then (True, s'')
                                               else if g = CHR ''+'' then (False, s'') else (False, s')
                              | [] \<Rightarrow> (False, []));
                 digits = takeWhile is_digit ds
             in if digits = [] then (None, s)
                else (Some (if neg then - int (read_nat digits) else int (read_nat digits)), dropWhile is_digit ds))
          else (None, s)
      | [] \<Rightarrow> (None, s))"

definition pow10 :: "int \<Rightarrow> rat" where
  "pow10 e = (if 0 \<le> e then 10 ^ nat e else 1 / 10 ^ nat (- e))"

definition number_value :: "bool \<Rightarrow> string \<Rightarrow> string \<Rightarrow> int option \<Rightarrow> json" where
  "number_value neg whole fraction expo =
     (if fraction = [] \<and> expo = None
      then JInt (if neg then - int (read_nat whole) else int (read_nat whole))
      else let m = (of_nat (read_nat whole) + of_nat (read_nat fraction) / 10 ^ length fraction :: rat)
                     * pow10 (case expo of None \<Rightarrow> 0 | Some e \<Rightarrow> e)
           in JFloat (if neg then - m else m))"

definition read_number :: "string \<Rightarrow> (json \<times> string) result" where
  "read_number s =
     (let (neg, u) = (case s of c # s' \<Rightarrow> if c = CHR ''-'' then (True, s') else (False, s) | [] \<Rightarrow> (False, s));
          digits = takeWhile is_digit u;
          whole = (case digits of c # _ \<Rightarrow> if c = CHR ''0'' then ''0'' else digits | [] \<Rightarrow> [])
      in if whole = [] then json_error
         else (let (fraction, v) = read_frac (drop (length whole) u);
                   (expo, w) = read_exp v
               in Inr (number_value neg whole fraction expo, w)))"

fun read_value :: "nat \<Rightarrow> string \<Rightarrow> (json \<times> string) result"
  and read_elements :: "nat \<Rightarrow> string \<Rightarrow> (json list \<times> string) result"
  and read_members :: "nat \<Rightarrow> string \<Rightarrow> (row \<times> string) result" where
  "read_value 0 s = Inl (OtherError ''out of fuel'')"
| "read_value (Suc n) s =
     (if startswith s ''null'' then Inr (JNull, drop 4 s)
      else if startswith s ''true'' then Inr (JBool True, drop 4 s)
      else if startswith s ''false'' then Inr (JBool False, drop 5 s)
      else case s of
        [] \<Rightarrow> json_error
      | c # s' \<Rightarrow>
          if c = CHR 0x22 then ebind (read_string s') (\<lambda>(t, rest). Inr (JStr t, rest))
          else if c = CHR ''['' then
            (case skip_space s' of
               [] \<Rightarrow> json_error
             | d # s'' \<Rightarrow> if d = CHR '']'' then Inr (JList [], s'')
                         else ebind (read_elements n (d # s'')) (\<lambda>(xs, rest). Inr (JList xs, rest)))
          else if c = CHR ''{'' then
            (case skip_space s' of
               [] \<Rightarrow> json_error
             | d # s'' \<Rightarrow> if d = CHR ''}'' then Inr (JObj [], s'')
                         else ebind (read_members n (d # s'')) (\<lambda>(r, rest). Inr (JObj r, rest)))
          else read_number s)"
| "read_elements 0 s = Inl (OtherError ''out of fuel'')"
| "read_elements (Suc n) s =
     ebind (read_value n s) (\<lambda>(v, s1).
       case skip_space s1 of
         [] \<Rightarrow> json_error
       | c # s2 \<Rightarrow>
           if c = CHR '']'' then Inr ([v], s2)
           else if c = CHR '','' then ebind (read_elements n (skip_space s2)) (\<lambda>(vs, rest). Inr (v # vs, rest))
           else json_error)"
| "read_members 0 s = Inl (OtherError ''out of fuel'')"
| "read_members (Suc n) s =
     (case s of
        [] \<Rightarrow> json_error
      | q # s0 \<Rightarrow>
          if q \<noteq> CHR 0x22 then json_error
          else ebind (read_string s0) (\<lambda>(k, s1).
            case skip_space s1 of
              [] \<Rightarrow> json_error
            | c # s2 \<Rightarrow>
                if c \<noteq> CHR '':'' then json_error
                else ebind (read_value n (skip_space s2)) (\<lambda>(v, s3).
                  case skip_space s3 of
                    [] \<Rightarrow> json_error
                  | d # s4 \<Rightarrow>
                      if d = CHR ''}'' then Inr ([(k, v)], s4)
                      else if d = CHR '','' then
                        ebind (read_members n (skip_space s4)) (\<lambda>(r, rest). Inr ((k, v) # r, rest))
                      else json_error)))"

text \<open>A later member of the same name replaces the value and keeps the first position, as in a Python dict.\<close>

fun dict_of :: "row \<Rightarrow> row \<Rightarrow> row" where
  "dict_of acc [] = acc"
| "dict_of acc ((k, v) # r) =
     dict_of (if k \<in> set (map fst acc) then map (\<lambda>(k', v'). if k' = k then (k', v) else (k', v')) acc
              else acc @ [(k, v)]) r"

fun json_dicts :: "json \<Rightarrow> json" where
  "json_dicts (JList xs) = JList (map json_dicts xs)"
| "json_dicts (JObj r) = JObj (dict_of [] (map (\<lambda>(k, v). (k, json_dicts v)) r))"
| "json_dicts j = j"

definition json_loads :: "string \<Rightarrow> json result" where
  "json_loads s =
     ebind (read_value (2 * length s + 2) (skip_space s)) (\<lambda>(v, rest).
       if skip_space rest = [] then Inr (json_dicts v) else json_error)"

subsection \<open>Reading back what was written\<close>

lemma hex_value_hex_digit: "d < 16 \<Longrightarrow> hex_value (hex_digit d) = Some d"
  by (simp add: hex_value_def hex_digit_def)

lemma hex4_u_escape:
  "hex4 (CHR ''0'') (CHR ''0'') (hex_digit (of_char c div 16)) (hex_digit (of_char c mod 16)) = Some (of_char c)"
proof -
  have "(of_char c :: nat) < 256" by simp
  then have "(of_char c :: nat) div 16 < 16" by linarith
  then have "hex_value (hex_digit (of_char c div 16)) = Some (of_char c div 16)"
    and "hex_value (hex_digit (of_char c mod 16)) = Some (of_char c mod 16)"
    by (simp_all add: hex_value_hex_digit)
  then show ?thesis by (simp add: hex4_def hex_value_def)
qed

lemma read_string_escape:
  "read_string (escape_char c @ s) = ebind (read_string s) (\<lambda>(t, rest). Inr (c # t, rest))"
proof (cases "c \<in> {CHR 0x22, CHR 0x5C, CHR 0x0A, CHR 0x0D, CHR 0x09, CHR 0x0C, CHR 0x08}")
  case True
  then show ?thesis by (auto simp: escape_char_def simple_escape_def)
next
  case False
  show ?thesis
  proof (cases "32 \<le> (of_char c :: nat) \<and> (of_char c :: nat) \<le> 126")
    case True
    with False show ?thesis by (simp add: escape_char_def)
  next
    case ctrl: False
    then have e: "escape_char c = u_escape c" using False by (auto simp: escape_char_def Let_def)
    have "(of_char c :: nat) < 256" by simp
    then show ?thesis by (simp add: e u_escape_def Let_def hex4_u_escape)
  qed
qed

lemma read_string_escaped: "read_string (concat (map escape_char s) @ CHR 0x22 # rest) = Inr (s, rest)"
  by (induction s) (simp_all add: read_string_escape)

text \<open>Numbers.\<close>

definition value_ends :: "string \<Rightarrow> bool" where
  "value_ends rest \<longleftrightarrow> rest = [] \<or> hd rest \<in> {CHR '','', CHR '']'', CHR ''}''}"

lemma is_digit_show_nat: "c \<in> set (show_nat n) \<Longrightarrow> is_digit c"
  using show_nat_digits [of c n] by (simp add: is_digit_def)

lemma show_nat_no_leading_zero: "show_nat n = CHR ''0'' # ds \<Longrightarrow> ds = []"
proof (induction n arbitrary: ds rule: show_nat.induct)
  case (1 n)
  show ?case
  proof (cases "n < 10")
    case True
    with 1(2) show ?thesis by (simp add: show_nat.simps [of n])
  next
    case False
    obtain d ds' where d: "show_nat (n div 10) = d # ds'"
      using show_nat_nonempty [of "n div 10"] by (cases "show_nat (n div 10)") auto
    with 1(2) False have "d = CHR ''0''" by (simp add: show_nat.simps [of n])
    with 1(1) [OF False] d have "show_nat (n div 10) = ''0''" by simp
    then have "read_nat (show_nat (n div 10)) = 0" by (simp add: read_nat_def read_digit_def)
    with False show ?thesis by simp
  qed
qed

lemma take_digits_show_nat:
  assumes "value_ends rest"
  shows "takeWhile is_digit (show_nat n @ rest) = show_nat n"
    and "dropWhile is_digit (show_nat n @ rest) = rest"
proof -
  have "takeWhile is_digit rest = [] \<and> dropWhile is_digit rest = rest"
    using assms by (cases rest) (auto simp: value_ends_def is_digit_def)
  then show "takeWhile is_digit (show_nat n @ rest) = show_nat n"
    and "dropWhile is_digit (show_nat n @ rest) = rest"
    using is_digit_show_nat [of _ n] by (simp_all add: takeWhile_append2 dropWhile_append2)
qed

lemma number_stops: "value_ends rest \<Longrightarrow> read_frac rest = ([], rest) \<and> read_exp rest = (None, rest)"
  by (auto simp: value_ends_def read_frac_def read_exp_def split: list.splits)

lemma read_number_show_nat:
  assumes "value_ends rest"
  shows "read_number (show_nat n @ rest) = Inr (JInt (int n), rest)"
    and "read_number (CHR ''-'' # show_nat n @ rest) = Inr (JInt (- int n), rest)"
proof -
  obtain d ds where d: "show_nat n = d # ds"
    using show_nat_nonempty [of n] by (cases "show_nat n") auto
  then have "d \<noteq> CHR ''-''" using show_nat_no_minus [of n] by auto
  moreover have whole: "(if d = CHR ''0'' then ''0'' else d # ds) = d # ds"
    using show_nat_no_leading_zero [of n ds] d by auto
  moreover note take_digits_show_nat [OF assms, of n] number_stops [OF assms] read_nat_show_nat [of n]
  ultimately show "read_number (show_nat n @ rest) = Inr (JInt (int n), rest)"
    and "read_number (CHR ''-'' # show_nat n @ rest) = Inr (JInt (- int n), rest)"
    unfolding d by (simp_all add: read_number_def number_value_def Let_def split: if_splits)
qed

lemma read_number_show_int:
  assumes "value_ends rest"
  shows "read_number (show_int i @ rest) = Inr (JInt i, rest)"
  using read_number_show_nat [OF assms] by (cases "i < 0") (simp_all add: show_int_def)

subsection \<open>Documents\<close>

definition reads_back :: "(rat \<Rightarrow> string) \<Rightarrow> json \<Rightarrow> bool" where
  "reads_back float_repr j \<longleftrightarrow>
     (\<forall>n rest. value_ends rest \<longrightarrow> 2 * length (json_dumps float_repr j) \<le> n \<longrightarrow>
        read_value (Suc n) (json_dumps float_repr j @ rest) = Inr (j, rest))"

lemma reads_backD:
  "reads_back fr j \<Longrightarrow> value_ends rest \<Longrightarrow> 2 * length (json_dumps fr j) < n \<Longrightarrow>
     read_value n (json_dumps fr j @ rest) = Inr (j, rest)"
  by (cases n) (auto simp: reads_back_def)

lemma dumps_head:
  assumes "canonical_json j"
  obtains d ds where "json_dumps fr j = d # ds" "\<not> json_space d" "d \<noteq> CHR '']''"
proof (cases j)
  case (JInt i)
  obtain d ds where d: "show_nat (nat \<bar>i\<bar>) = d # ds"
    using show_nat_nonempty [of "nat \<bar>i\<bar>"] by (cases "show_nat (nat \<bar>i\<bar>)") auto
  with show_nat_digits [of d "nat \<bar>i\<bar>"] have "\<not> json_space d" "d \<noteq> CHR '']''"
    by (auto simp: json_space_def)
  with JInt d that show thesis
    by (cases "i < 0") (auto simp: show_int_def json_space_def)
next
  case (JBool b)
  with that show thesis by (cases b) (auto simp: json_space_def)
qed (use assms that in \<open>auto simp: json_space_def json_string_def\<close>)

lemma skip_space_dumps:
  assumes "canonical_json j"
  shows "skip_space (json_dumps fr j @ rest) = json_dumps fr j @ rest"
  using assms by (rule dumps_head [where fr = fr]) (simp add: skip_space_def)

lemma join_with_Cons: "join_with sep (s # ss) = s @ (if ss = [] then [] else sep @ join_with sep ss)"
  by (cases ss) simp_all

lemma read_elements_back:
  assumes "xs \<noteq> []" and "\<And>x. x \<in> set xs \<Longrightarrow> reads_back fr x \<and> canonical_json x"
    and "2 * length (join_with '','' (map (json_dumps fr) xs)) + 1 < n"
  shows "read_elements n (join_with '','' (map (json_dumps fr) xs) @ CHR '']'' # rest) = Inr (xs, rest)"
  using assms
proof (induction xs arbitrary: n)
  case (Cons x xs)
  then obtain n' where n: "n = Suc n'" by (cases n) auto
  let ?tail = "if xs = [] then CHR '']'' # rest
    else CHR '','' # join_with '','' (map (json_dumps fr) xs) @ CHR '']'' # rest"
  have shape: "join_with '','' (map (json_dumps fr) (x # xs)) @ CHR '']'' # rest = json_dumps fr x @ ?tail"
    by (simp add: join_with_Cons)
  have x: "read_value n' (json_dumps fr x @ ?tail) = Inr (x, ?tail)"
    using Cons.prems n by (intro reads_backD) (auto simp: value_ends_def join_with_Cons split: if_splits)
  show ?case
  proof (cases "xs = []")
    case True
    with x n show ?thesis by (simp add: skip_space_def json_space_def)
  next
    case False
    then obtain y ys where xs: "xs = y # ys" by (cases xs) auto
    have "skip_space (join_with '','' (map (json_dumps fr) xs) @ CHR '']'' # rest)
        = join_with '','' (map (json_dumps fr) xs) @ CHR '']'' # rest"
      using Cons.prems(2) [of y] skip_space_dumps [of y fr] xs by (simp add: join_with_Cons)
    moreover have "read_elements n' (join_with '','' (map (json_dumps fr) xs) @ CHR '']'' # rest) = Inr (xs, rest)"
      using Cons.prems n False by (intro Cons.IH) (auto simp: join_with_Cons)
    ultimately show ?thesis unfolding shape using x n False
      by (simp add: skip_space_def [of "_ # _"] json_space_def)
  qed
qed simp

definition member_text :: "(rat \<Rightarrow> string) \<Rightarrow> string \<times> json \<Rightarrow> string" where
  "member_text fr kv = json_string (fst kv) @ '':'' @ json_dumps fr (snd kv)"

lemma read_members_back:
  assumes "r \<noteq> []" and "\<And>k v. (k, v) \<in> set r \<Longrightarrow> reads_back fr v \<and> canonical_json v"
    and "2 * length (join_with '','' (map (member_text fr) r)) + 1 < n"
  shows "read_members n (join_with '','' (map (member_text fr) r) @ CHR ''}'' # rest) = Inr (r, rest)"
  using assms
proof (induction r arbitrary: n)
  case (Cons kv r)
  obtain k v where kv: "kv = (k, v)" by (cases kv)
  from Cons.prems obtain n' where n: "n = Suc n'" by (cases n) auto
  let ?tail = "if r = [] then CHR ''}'' # rest
    else CHR '','' # join_with '','' (map (member_text fr) r) @ CHR ''}'' # rest"
  have shape: "join_with '','' (map (member_text fr) (kv # r)) @ CHR ''}'' # rest =
      CHR 0x22 # concat (map escape_char k) @ CHR 0x22 # CHR '':'' # json_dumps fr v @ ?tail"
    by (simp add: join_with_Cons kv member_text_def json_string_def)
  have v: "reads_back fr v" "canonical_json v" using Cons.prems(2) [of k v] kv by auto
  have x: "read_value n' (json_dumps fr v @ ?tail) = Inr (v, ?tail)"
    using Cons.prems n v kv
    by (intro reads_backD) (auto simp: value_ends_def join_with_Cons member_text_def split: if_splits)
  have step: "read_members n (join_with '','' (map (member_text fr) (kv # r)) @ CHR ''}'' # rest) =
      (if r = [] then Inr ([(k, v)], rest)
       else ebind (read_members n' (skip_space (join_with '','' (map (member_text fr) r) @ CHR ''}'' # rest)))
              (\<lambda>(r', rest'). Inr ((k, v) # r', rest')))"
    unfolding shape n using x
    by (simp add: read_string_escaped skip_space_dumps [OF v(2)] skip_space_def [of "_ # _"] json_space_def)
  show ?case
  proof (cases "r = []")
    case False
    then obtain kv' r' where r: "r = kv' # r'" by (cases r) auto
    have "skip_space (join_with '','' (map (member_text fr) r) @ CHR ''}'' # rest)
        = join_with '','' (map (member_text fr) r) @ CHR ''}'' # rest"
      by (simp add: r join_with_Cons member_text_def json_string_def skip_space_def json_space_def)
    moreover have "read_members n' (join_with '','' (map (member_text fr) r) @ CHR ''}'' # rest) = Inr (r, rest)"
      using Cons.prems n False by (intro Cons.IH) (auto simp: join_with_Cons)
    ultimately show ?thesis using step False kv by simp
  qed (use step kv in simp)
qed simp

lemma dumps_obj_canonical:
  assumes "sorted_wrt (<) (map fst r)"
  shows "json_dumps fr (JObj r) = ''{'' @ join_with '','' (map (member_text fr) r) @ ''}''"
proof -
  have "sorted (map fst (map (\<lambda>(k, v). (k, json_dumps fr v)) r))"
    using assms by (simp add: strict_sorted_iff comp_def case_prod_unfold)
  then have "sort_key fst (map (\<lambda>(k, v). (k, json_dumps fr v)) r) = map (\<lambda>(k, v). (k, json_dumps fr v)) r"
    by (rule sort_key_id_if_sorted)
  then show ?thesis by (simp add: comp_def case_prod_unfold member_text_def [abs_def])
qed

lemma canonical_reads_back: "canonical_json j \<Longrightarrow> reads_back fr j"
proof (induction j)
  case (JInt i)
  have "read_value (Suc n) (show_int i @ rest) = read_number (show_int i @ rest)" for n rest
    using show_nat_nonempty [of "nat \<bar>i\<bar>"] show_nat_digits [of "hd (show_nat (nat \<bar>i\<bar>))" "nat \<bar>i\<bar>"]
    by (cases "show_nat (nat \<bar>i\<bar>)") (auto simp: show_int_def)
  then show ?case by (simp add: reads_back_def read_number_show_int)
next
  case (JStr s)
  then show ?case by (simp add: reads_back_def json_string_def read_string_escaped)
next
  case (JList xs)
  show ?case
  proof (cases "xs = []")
    case False
    have xs: "\<And>x. x \<in> set xs \<Longrightarrow> reads_back fr x \<and> canonical_json x"
      using JList by (auto simp: list_all_iff)
    obtain y ys where y: "xs = y # ys" using False by (cases xs) auto
    have "canonical_json y" using xs [of y] y by simp
    then obtain d ds where d: "json_dumps fr y = d # ds" "\<not> json_space d" "d \<noteq> CHR '']''"
      by (rule dumps_head [where fr = fr])
    have "read_value (Suc n) (json_dumps fr (JList xs) @ rest) = Inr (JList xs, rest)"
      if "2 * length (json_dumps fr (JList xs)) \<le> n" for n rest
      using read_elements_back [OF False xs, of n rest] that y d
      by (simp add: join_with_Cons skip_space_def)
    then show ?thesis by (simp only: reads_back_def) blast
  qed (simp add: reads_back_def skip_space_def json_space_def)
next
  case (JObj r)
  then have sorted: "sorted_wrt (<) (map fst r)"
    and r: "\<And>k v. (k, v) \<in> set r \<Longrightarrow> reads_back fr v \<and> canonical_json v"
    by (auto simp: list_all_iff)
  show ?case
  proof (cases "r = []")
    case False
    then obtain kv r' where kv: "r = kv # r'" by (cases r) auto
    have "read_value (Suc n) (json_dumps fr (JObj r) @ rest) = Inr (JObj r, rest)"
      if "2 * length (json_dumps fr (JObj r)) \<le> n" for n rest
      using read_members_back [where fr = fr and n = n and rest = rest, OF False r] that kv
      unfolding dumps_obj_canonical [OF sorted]
      by (simp add: join_with_Cons member_text_def [of _ kv] json_string_def skip_space_def json_space_def)
    then show ?thesis by (simp only: reads_back_def) blast
  qed (simp add: reads_back_def skip_space_def json_space_def)
qed (auto simp: reads_back_def)

lemma dict_of_distinct: "distinct (map fst (acc @ r)) \<Longrightarrow> dict_of acc r = acc @ r"
  by (induction acc r rule: dict_of.induct) auto

lemma json_dicts_canonical: "canonical_json j \<Longrightarrow> json_dicts j = j"
proof (induction j)
  case (JList xs)
  then show ?case by (simp add: list_all_iff map_idI)
next
  case (JObj r)
  then have "map (\<lambda>(k, v). (k, json_dicts v)) r = r"
    by (intro map_idI) (auto simp: list_all_iff)
  moreover have "distinct (map fst r)"
    using JObj.prems by (simp add: strict_sorted_iff)
  ultimately show ?case by (simp add: dict_of_distinct)
qed simp_all

text \<open>Every canonical document reads back as itself: the module satisfies the codec contract.\<close>

interpretation json_text: json_codec "json_dumps float_repr" json_loads
proof
  fix j :: json
  assume j: "canonical_json j"
  have "value_ends []" by (simp add: value_ends_def)
  from reads_backD [OF canonical_reads_back [OF j] this, of float_repr "2 * length (json_dumps float_repr j) + 2"]
  have "read_value (2 * length (json_dumps float_repr j) + 2) (json_dumps float_repr j) = Inr (j, [])"
    by (simp del: read_value.simps)
  moreover have "skip_space (json_dumps float_repr j) = json_dumps float_repr j"
    using skip_space_dumps [OF j, of float_repr "[]"] by simp
  ultimately show "json_loads (json_dumps float_repr j) = Inr j"
    unfolding json_loads_def
    by (simp add: json_dicts_canonical [OF j] skip_space_def [of "[]"] del: read_value.simps)
qed

end
