(* ===== verification/Decoder.thy ===== *)
theory Decoder
  imports Clickhouse_Rows Json_Text
begin

text \<open>
  The source-object decoder: \<open>high_scale/query.py\<close> from \<open>DeadLetterRecord\<close> to \<open>_event_id\<close>. Bytes are
  lists of characters, and the records are ASCII. External functions are fields of \<open>decode_env\<close>:
  gzip and zstandard (\<open>None\<close> when they reject the bytes), \<open>str\<close> and \<open>float\<close>, \<open>parse_qs\<close> of the query of
  a URL, the field catalogue (the type class of a log field) and the two extractors of Faro metrics of
  \<open>core/rum_ingest.py\<close>. \<open>json.loads\<close> is the reader of \<open>Json_Text\<close>. A number that \<open>float\<close> reads as
  not finite is recorded as \<open>JNull\<close>, which the checks of the serving domain reject in the same way.
  The theorems show that no line is lost, that event ids do not repeat within an object, and what
  happens to a line that raises half-way.
\<close>

subsection \<open>Payloads and lines\<close>

datatype duck_class = DuckInt | DuckFloat | DuckBool | DuckText | DuckOther

type_synonym qparams = "(string \<times> string list) list"

record decode_env =
  de_gunzip :: "string \<Rightarrow> string option"
  de_unzstd :: "string \<Rightarrow> string option"
  de_str :: "json \<Rightarrow> string"
  de_float :: "string \<Rightarrow> py_float option"
  de_parse_qs :: "string \<Rightarrow> qparams option"
  de_try_get :: "string \<Rightarrow> duck_class option"
  de_faro_metrics :: "row \<Rightarrow> row \<Rightarrow> row list result"
  de_query_metrics :: "qparams \<Rightarrow> row \<Rightarrow> row list result"
  de_sha_uuid :: "string \<Rightarrow> string"

record dead_letter =
  dl_source_object_key :: string
  dl_line_ordinal :: nat
  dl_raw_line :: string
  dl_reason :: string

record decode_result =
  dr_source :: archive_source_object
  dr_events :: "row list"
  dr_dead_letters :: "dead_letter list"
  dr_decoded_rows :: int
  dr_accepted_rows :: int
  dr_quarantined_rows :: int

definition decode_payload :: "decode_env \<Rightarrow> string \<Rightarrow> string result" where
  "decode_payload env payload =
     (if take 2 payload = [CHR 0x1F, CHR 0x8B]
        then (case de_gunzip env payload of None \<Rightarrow> Inl (ValueError ''source gzip payload is invalid'') | Some b \<Rightarrow> Inr b)
      else if take 4 payload = [CHR 0x28, CHR 0xB5, CHR 0x2F, CHR 0xFD]
        then (case de_unzstd env payload of None \<Rightarrow> Inl (ValueError ''source zstd payload is invalid'') | Some b \<Rightarrow> Inr b)
      else Inr payload)"

text \<open>\<open>bytes.splitlines\<close>: lines end with LF, CR or CR LF; a last line without an end counts.\<close>

fun splitlines :: "string \<Rightarrow> string list" where
  "splitlines [] = []"
| "splitlines (c # s) =
     (if c = CHR 0x0A then [] # splitlines s
      else if c = CHR 0x0D
        then (case s of d # s' \<Rightarrow> if d = CHR 0x0A then [] # splitlines s' else [] # splitlines s | [] \<Rightarrow> [[]])
      else (case splitlines s of [] \<Rightarrow> [[c]] | l # ls \<Rightarrow> (c # l) # ls))"

definition bytes_space :: "char \<Rightarrow> bool" where
  "bytes_space c \<longleftrightarrow> c \<in> {CHR 0x20, CHR 0x09, CHR 0x0A, CHR 0x0B, CHR 0x0C, CHR 0x0D}"

definition blank_line :: "string \<Rightarrow> bool" where
  "blank_line l \<longleftrightarrow> list_all bytes_space l"

subsection \<open>Values of a record\<close>

definition blank :: "json \<Rightarrow> bool" where
  "blank v \<longleftrightarrow> v = JNull \<or> v = JStr []"

definition is_jstr :: "json \<Rightarrow> bool" where
  "is_jstr v \<longleftrightarrow> (case v of JStr _ \<Rightarrow> True | _ \<Rightarrow> False)"

definition is_jbool :: "json \<Rightarrow> bool" where
  "is_jbool v \<longleftrightarrow> (case v of JBool _ \<Rightarrow> True | _ \<Rightarrow> False)"

text \<open>\<open>r.get(a) or r.get(b) or d\<close>\<close>

definition get_or2 :: "row \<Rightarrow> string \<Rightarrow> string \<Rightarrow> json \<Rightarrow> json" where
  "get_or2 r a b d = (if json_truthy (get_or r a b) then get_or r a b else d)"

definition or_value :: "json \<Rightarrow> json \<Rightarrow> json" where
  "or_value v w = (if json_truthy v then v else w)"

text \<open>\<open>int\<close> and \<open>float\<close> of a decoded value.\<close>

definition int_of_json :: "json \<Rightarrow> int result" where
  "int_of_json v =
     (case v of
        JInt i \<Rightarrow> Inr i
      | JBool b \<Rightarrow> Inr (if b then 1 else 0)
      | JFloat q \<Rightarrow> Inr (if 0 \<le> q then \<lfloor>q\<rfloor> else - \<lfloor>- q\<rfloor>)
      | JStr s \<Rightarrow> (case py_int s of None \<Rightarrow> Inl (ValueError ''invalid literal for int()'') | Some i \<Rightarrow> Inr i)
      | _ \<Rightarrow> Inl (TypeError ''int() argument''))"

definition float_of_json :: "decode_env \<Rightarrow> json \<Rightarrow> py_float result" where
  "float_of_json env v =
     (case v of
        JInt i \<Rightarrow> Inr (Finite (of_int i))
      | JBool b \<Rightarrow> Inr (Finite (if b then 1 else 0))
      | JFloat q \<Rightarrow> Inr (Finite q)
      | JStr s \<Rightarrow> (case de_float env s of None \<Rightarrow> Inl (ValueError ''could not convert string to float'') | Some f \<Rightarrow> Inr f)
      | _ \<Rightarrow> Inl (TypeError ''float() argument''))"

definition json_of_float :: "py_float \<Rightarrow> json" where
  "json_of_float f = (case f of Finite q \<Rightarrow> JFloat q | NonFinite \<Rightarrow> JNull)"

text \<open>\<open>d.update(other)\<close>\<close>

definition dict_update :: "row \<Rightarrow> row \<Rightarrow> row" where
  "dict_update d other = foldl (\<lambda>acc (k, v). dict_set k v acc) d other"

definition text_or_empty :: "decode_env \<Rightarrow> json \<Rightarrow> string" where
  "text_or_empty env v = (if v = JNull then [] else de_str env v)"

subsection \<open>Serving fields\<close>

definition rum_querystring_params :: "decode_env \<Rightarrow> row \<Rightarrow> qparams result" where
  "rum_querystring_params env event =
     (case get_or2 event ''url'' ''rum_raw_query'' (JStr []) of
        JStr s \<Rightarrow> if s = [] then Inr [] else Inr (the_default [] (de_parse_qs env s))
      | _ \<Rightarrow> Inl (OtherError ''AttributeError''))"

definition first_qparam :: "qparams \<Rightarrow> string \<Rightarrow> json" where
  "first_qparam qp key = JStr (case map_of qp key of Some (v # _) \<Rightarrow> v | _ \<Rightarrow> [])"

definition FIELD_ALIASES :: "(string \<times> string) list" where
  "FIELD_ALIASES =
     [(''resp_body_size'', ''resp_bytes''), (''req_body_size'', ''req_size''), (''response_bytes'', ''resp_bytes''),
      (''status_code'', ''status''), (''client_ip'', ''ip'')]"

definition META_KEYS :: "string list" where
  "META_KEYS = [''service_id'', ''domain'', ''source_object_key'', ''source_object_version'', ''line_ordinal'',
     ''transform_version'', ''raw_json'', ''event_id'', ''custom_fields'', ''cmcd'']"

text \<open>\<open>event[name][key] = value\<close> where \<open>event[name]\<close> must be a dict.\<close>

definition set_in :: "string \<Rightarrow> string \<Rightarrow> string \<Rightarrow> row \<Rightarrow> row result" where
  "set_in name key value event =
     (case row_get event name of
        JObj d \<Rightarrow> Inr (dict_set name (JObj (dict_set key (JStr value) d)) event)
      | _ \<Rightarrow> Inl (TypeError ''object does not support item assignment''))"

definition typed_value :: "decode_env \<Rightarrow> duck_class \<Rightarrow> json \<Rightarrow> json" where
  "typed_value env cls v =
     (case cls of
        DuckInt \<Rightarrow> if blank v then v else (case int_of_json v of Inr i \<Rightarrow> JInt i | Inl _ \<Rightarrow> v)
      | DuckFloat \<Rightarrow> if blank v then v else (case float_of_json env v of Inr f \<Rightarrow> json_of_float f | Inl _ \<Rightarrow> v)
      | DuckBool \<Rightarrow> (case v of
            JStr s \<Rightarrow> JBool (py_lower s \<in> {''true'', ''1'', ''t'', ''yes''})
          | JNull \<Rightarrow> JNull
          | _ \<Rightarrow> JBool (json_truthy v))
      | DuckText \<Rightarrow> (case v of JNull \<Rightarrow> JNull | JStr s \<Rightarrow> JStr s | _ \<Rightarrow> JStr (de_str env v))
      | DuckOther \<Rightarrow> v)"

definition normalize_request_key :: "decode_env \<Rightarrow> string \<Rightarrow> row \<Rightarrow> row result" where
  "normalize_request_key env k event =
     (let v = row_get event k
      in if startswith k ''cmcd_'' \<or> startswith k ''cmcd.''
         then ebind (set_in ''cmcd'' k (text_or_empty env v) event) (\<lambda>event1.
              if drop 5 k \<noteq> [] then set_in ''cmcd'' (drop 5 k) (text_or_empty env v) event1 else Inr event1)
         else case (case de_try_get env k of
                      Some c \<Rightarrow> Some c
                    | None \<Rightarrow> de_try_get env (the_default [] (map_of FIELD_ALIASES k))) of
                Some cls \<Rightarrow> Inr (dict_set k (typed_value env cls v) event)
              | None \<Rightarrow>
                  if k \<in> {''timestamp'', ''time_stamp'', ''client_ip'', ''ip'', ''url'', ''fastly_pop''} then Inr event
                  else set_in ''custom_fields'' k (text_or_empty env v) event)"

fun normalize_request_keys :: "decode_env \<Rightarrow> string list \<Rightarrow> row \<Rightarrow> row result" where
  "normalize_request_keys env [] event = Inr event"
| "normalize_request_keys env (k # ks) event =
     ebind (normalize_request_key env k event) (normalize_request_keys env ks)"

definition setdefault :: "string \<Rightarrow> json \<Rightarrow> row \<Rightarrow> row" where
  "setdefault k v event = (if map_of event k = None then event @ [(k, v)] else event)"

definition normalize_request :: "decode_env \<Rightarrow> row \<Rightarrow> row result" where
  "normalize_request env event =
     (let event1 = setdefault ''cmcd'' (JObj []) (setdefault ''custom_fields'' (JObj []) event)
      in normalize_request_keys env (filter (\<lambda>k. k \<notin> set META_KEYS) (map fst event1)) event1)"

definition metric_json :: "decode_env \<Rightarrow> json \<Rightarrow> json result" where
  "metric_json env raw =
     (if blank raw then Inr JNull
      else case raw of
             JInt _ \<Rightarrow> ebind (float_of_json env raw) (\<lambda>f. Inr (json_of_float f))
           | JFloat _ \<Rightarrow> ebind (float_of_json env raw) (\<lambda>f. Inr (json_of_float f))
           | JStr _ \<Rightarrow> ebind (float_of_json env raw) (\<lambda>f. Inr (json_of_float f))
           | _ \<Rightarrow> Inr JNull)"

definition normalize_rum_vitals :: "decode_env \<Rightarrow> row \<Rightarrow> row result" where
  "normalize_rum_vitals env event =
     (let client = get_or2 event ''rum_cid'' ''client_id'' (JStr []);
          name = get_or2 event ''rum_metric_name'' ''metric_name'' (JStr []);
          raw = get_default event ''rum_metric_value'' (row_get event ''metric_value'');
          rating = get_or2 event ''rum_metric_rating'' ''metric_rating'' (JStr []);
          path = get_or2 event ''rum_pathname'' ''pathname'' (JStr [])
      in ebind (if \<not> json_truthy name \<or> blank raw then rum_querystring_params env event else Inr []) (\<lambda>qp.
         (let pick = (\<lambda>v key. if qp = [] then v else or_value v (first_qparam qp key));
              name = pick name ''rum_metric_name'';
              raw = (if qp \<noteq> [] \<and> blank raw then first_qparam qp ''rum_metric_value'' else raw);
              rating = pick rating ''rum_metric_rating''; client = pick client ''cid''; path = pick path ''rum_pathname''
          in ebind (metric_json env raw) (\<lambda>metric.
             Inr (dict_update event
                    [(''client_id'', client), (''metric_name'', name), (''metric_value'', metric),
                     (''metric_rating'', rating), (''pathname'', path)])))))"

text \<open>\<open>int(raw)\<close> under \<open>try\<close>: an unreadable position leaves the event as it is.\<close>

definition set_position :: "string \<Rightarrow> json \<Rightarrow> row \<Rightarrow> row" where
  "set_position key raw event =
     (if blank raw then event
      else case int_of_json raw of Inr i \<Rightarrow> dict_set key (JInt i) event | Inl _ \<Rightarrow> event)"

definition normalize_rum_errors :: "decode_env \<Rightarrow> row \<Rightarrow> row result" where
  "normalize_rum_errors env event =
     (let client = get_or2 event ''rum_cid'' ''client_id'' (JStr []);
          msg = get_or2 event ''rum_error_message'' ''error_message'' (JStr []);
          file = get_or2 event ''rum_error_file'' ''error_file'' (JStr []);
          path = get_or2 event ''rum_pathname'' ''pathname'' (JStr []);
          line = get_default event ''rum_error_line'' (row_get event ''error_line'');
          col = get_default event ''rum_error_col'' (row_get event ''error_col'')
      in ebind (if row_get event ''_rum_kind'' \<noteq> JStr ''vitals'' \<and> (\<not> json_truthy msg \<or> blank line \<or> blank col)
                then rum_querystring_params env event else Inr []) (\<lambda>qp.
         (let pick = (\<lambda>v key. if qp = [] then v else or_value v (first_qparam qp key));
              msg = pick msg ''rum_error_message''; file = pick file ''rum_error_file'';
              line = (if qp \<noteq> [] \<and> blank line then first_qparam qp ''rum_error_line'' else line);
              col = (if qp \<noteq> [] \<and> blank col then first_qparam qp ''rum_error_col'' else col);
              client = pick client ''cid''; path = pick path ''rum_pathname'';
              event1 = dict_update event [(''client_id'', client), (''error_message'', msg)];
              is_error = row_get event1 ''_rum_kind'' = JStr ''errors''
                 \<or> get_default event1 ''rum_metric_name'' (row_get event1 ''metric_name'') = JStr ''exception''
                 \<or> json_truthy (row_get event1 ''rum_error_stack'') \<or> json_truthy (row_get event1 ''error_stack'')
                 \<or> json_truthy file;
              event2 = (if \<not> json_truthy msg \<and> is_error then dict_set ''error_message'' (JStr ''Unknown error'') event1
                        else event1);
              event3 = dict_update event2 [(''error_file'', file), (''pathname'', path)]
          in Inr (set_position ''error_col'' col (set_position ''error_line'' line event3)))))"

definition normalize_serving_fields :: "decode_env \<Rightarrow> string \<Rightarrow> row \<Rightarrow> row result" where
  "normalize_serving_fields env domain event =
     (if domain = ''request'' then normalize_request env event
      else if domain = ''rum_vitals'' then normalize_rum_vitals env event
      else if domain = ''rum_errors'' then normalize_rum_errors env event
      else Inr event)"

subsection \<open>Faro bodies\<close>

definition is_faro_exception_metric :: "row \<Rightarrow> bool" where
  "is_faro_exception_metric m \<longleftrightarrow> row_get m ''metric_name'' = JStr ''exception'' \<or> json_truthy (row_get m ''error_message'')"

definition faro_position :: "json \<Rightarrow> json" where
  "faro_position raw = (if blank raw then JInt 0 else case int_of_json raw of Inr i \<Rightarrow> JInt i | Inl _ \<Rightarrow> JInt 0)"

definition faro_error_fields :: "row \<Rightarrow> row result" where
  "faro_error_fields m =
     (let msg = or_value (row_get m ''error_message'') (JStr ''Unknown error'');
          file = or_value (row_get m ''error_file'') (JStr ''unknown.js'');
          line = faro_position (row_get m ''error_line''); col = faro_position (row_get m ''error_col'')
      in ebind (ensure (is_jstr msg) (ValueError ''Faro error_message must be text'')) (\<lambda>_.
         Inr [(''error_message'', msg), (''rum_error_message'', msg), (''error_file'', file), (''rum_error_file'', file),
              (''error_line'', line), (''rum_error_line'', line), (''error_col'', col), (''rum_error_col'', col),
              (''metric_name'', JStr []), (''rum_metric_name'', JStr []), (''metric_value'', JNull),
              (''rum_metric_value'', JNull), (''metric_rating'', JStr []), (''rum_metric_rating'', JStr [])]))"

definition faro_vital_fields :: "decode_env \<Rightarrow> row \<Rightarrow> row result" where
  "faro_vital_fields env m =
     (let raw = row_get m ''metric_value''; name = or_value (row_get m ''metric_name'') (JStr ''unknown'');
          rating = or_value (row_get m ''metric_rating'') (JStr [])
      in if blank raw \<or> is_jbool raw then Inl (ValueError ''Faro metric_value must be finite'')
         else ebind (float_of_json env raw) (\<lambda>f.
              case f of
                NonFinite \<Rightarrow> Inl (ValueError ''Faro metric_value must be finite'')
              | Finite q \<Rightarrow>
                  Inr [(''metric_name'', name), (''rum_metric_name'', name), (''metric_value'', JFloat q),
                       (''rum_metric_value'', JFloat q), (''metric_rating'', rating), (''rum_metric_rating'', rating),
                       (''error_message'', JStr []), (''rum_error_message'', JStr []), (''error_file'', JStr []),
                       (''rum_error_file'', JStr []), (''error_line'', JInt 0), (''rum_error_line'', JInt 0),
                       (''error_col'', JInt 0), (''rum_error_col'', JInt 0)]))"

definition faro_row :: "decode_env \<Rightarrow> row \<Rightarrow> row \<Rightarrow> row result" where
  "faro_row env rec0 m =
     (let is_exc = is_faro_exception_metric m;
          pick = (\<lambda>key d. or_value (row_get m key) (or_value (row_get rec0 key) (JStr d)));
          cid = or_value (row_get m ''cid'') (get_or2 rec0 ''rum_cid'' ''cid'' (JStr []));
          path = or_value (row_get m ''pathname'') (or_value (row_get rec0 ''rum_pathname'') (JStr ''/''));
          base = [(''_rum_kind'', JStr (if is_exc then ''errors'' else ''vitals'')), (''client_id'', cid), (''rum_cid'', cid),
                  (''pathname'', path), (''rum_pathname'', path), (''browser'', pick ''browser'' ''Chrome''),
                  (''os'', pick ''os'' ''macOS''), (''device'', pick ''device'' ''Desktop'')]
      in ebind (if is_exc then faro_error_fields m else faro_vital_fields env m) (\<lambda>fields.
         Inr (base @ fields)))"

text \<open>The \<open>try\<close> around a Faro body turns \<open>ValueError\<close>, \<open>TypeError\<close> and \<open>AttributeError\<close> into one error.\<close>

definition faro_body :: "decode_env \<Rightarrow> json \<Rightarrow> row \<Rightarrow> row list result" where
  "faro_body env raw_body rec0 =
     (case ebind (case raw_body of JStr s \<Rightarrow> json_loads s | _ \<Rightarrow> Inr raw_body) (\<lambda>payload.
           ebind (case payload of JStr s \<Rightarrow> json_loads s | _ \<Rightarrow> Inr payload) (\<lambda>payload.
           case payload of
             JObj p \<Rightarrow> de_faro_metrics env p rec0
           | _ \<Rightarrow> Inl (ValueError ''Faro RUM body must be an object''))) of
        Inl (ValueError _) \<Rightarrow> Inl (ValueError ''invalid Faro RUM body'')
      | Inl (TypeError _) \<Rightarrow> Inl (ValueError ''invalid Faro RUM body'')
      | Inl (OtherError e) \<Rightarrow> if e = ''AttributeError'' then Inl (ValueError ''invalid Faro RUM body'') else Inl (OtherError e)
      | r \<Rightarrow> r)"

definition expand_faro_rum_events :: "decode_env \<Rightarrow> row \<Rightarrow> string \<Rightarrow> row list result" where
  "expand_faro_rum_events env rec0 domain =
     ebind (if json_truthy (row_get rec0 ''rum_body'') then faro_body env (row_get rec0 ''rum_body'') rec0
            else ebind (rum_querystring_params env rec0) (\<lambda>qp.
                 if qp = [] then Inr [] else de_query_metrics env qp rec0)) (\<lambda>extracted.
     (let items = filter (\<lambda>m. is_faro_exception_metric m = (domain \<noteq> ''rum_vitals'')) extracted;
          selected = (if items \<noteq> [] then items else extracted)
      in map_result (faro_row env rec0) selected))"

subsection \<open>Decoding\<close>

definition event_id_of :: "decode_env \<Rightarrow> row \<Rightarrow> string \<Rightarrow> int option \<Rightarrow> string result" where
  "event_id_of env event domain sub =
     (if domain = ''request'' then build_request_event_id (de_sha_uuid env) event
      else if domain = ''rum_vitals'' then build_rum_event_id (de_sha_uuid env) event ''vitals'' sub
      else if domain = ''rum_errors'' then build_rum_event_id (de_sha_uuid env) event ''errors'' sub
      else build_event_id (de_sha_uuid env) event (Some domain))"

definition base_meta :: "archive_source_object \<Rightarrow> string \<Rightarrow> string \<Rightarrow> nat \<Rightarrow> string \<Rightarrow> row" where
  "base_meta source domain transform_version ordinal raw =
     [(''service_id'', JStr (so_service_id source)), (''domain'', JStr domain),
      (''source_object_key'', JStr (so_object_key source)),
      (''source_object_version'', JStr (or_text (so_version source) (so_checksum source))),
      (''line_ordinal'', JInt (int ordinal)), (''transform_version'', JStr transform_version), (''raw_json'', JStr raw)]"

definition finish_event ::
  "decode_env \<Rightarrow> string \<Rightarrow> row \<Rightarrow> int option \<Rightarrow> row result" where
  "finish_event env domain event sub =
     ebind (event_id_of env event domain sub) (\<lambda>eid. Inr (dict_set ''event_id'' (JStr eid) event))"

text \<open>
  The events of one line, and the exception that ended it: an expanded record that raises keeps the
  events it has already appended.
\<close>

fun faro_events ::
  "decode_env \<Rightarrow> string \<Rightarrow> row \<Rightarrow> row \<Rightarrow> int \<Rightarrow> row list \<Rightarrow> row list \<times> py_error option" where
  "faro_events env domain value meta sub [] = ([], None)"
| "faro_events env domain value meta sub (f # fs) =
     (case ebind (normalize_serving_fields env domain (dict_update (dict_update value f) meta)) (\<lambda>event.
           finish_event env domain event (Some sub)) of
        Inl e \<Rightarrow> ([], Some e)
      | Inr event \<Rightarrow>
          (case faro_events env domain value meta (sub + 1) fs of (events, err) \<Rightarrow> (event # events, err)))"

definition is_rum :: "string \<Rightarrow> bool" where
  "is_rum domain \<longleftrightarrow> domain = ''rum_vitals'' \<or> domain = ''rum_errors''"

definition single_event :: "decode_env \<Rightarrow> string \<Rightarrow> row \<Rightarrow> row \<Rightarrow> row result" where
  "single_event env domain value meta =
     ebind (normalize_serving_fields env domain (dict_update value meta)) (\<lambda>event.
     ebind (if is_rum domain \<and> \<not> row_matches_serving_domain domain event
            then (let sibling = (if domain = ''rum_vitals'' then ''rum_errors'' else ''rum_vitals'')
                  in ebind (normalize_serving_fields env sibling value) (\<lambda>other.
                     ensure (row_matches_serving_domain sibling other)
                       (ValueError ''RUM record has neither a valid metric nor an error discriminator'')))
            else Inr ()) (\<lambda>_.
     finish_event env domain event None))"

definition parse_record :: "string \<Rightarrow> row result" where
  "parse_record raw =
     ebind (json_loads raw) (\<lambda>v.
     case v of JObj value \<Rightarrow> Inr value | _ \<Rightarrow> Inl (ValueError ''record is not a JSON object''))"

definition decode_line ::
  "decode_env \<Rightarrow> archive_source_object \<Rightarrow> string \<Rightarrow> string \<Rightarrow> nat \<Rightarrow> string \<Rightarrow> row list \<times> py_error option" where
  "decode_line env source domain transform_version ordinal raw =
     (case parse_record raw of
        Inl e \<Rightarrow> ([], Some e)
      | Inr value \<Rightarrow>
          (let meta = base_meta source domain transform_version ordinal raw
           in case (if is_rum domain then expand_faro_rum_events env value domain else Inr []) of
                Inl e \<Rightarrow> ([], Some e)
              | Inr [] \<Rightarrow> (case single_event env domain value meta of Inl e \<Rightarrow> ([], Some e) | Inr ev \<Rightarrow> ([ev], None))
              | Inr fs \<Rightarrow> faro_events env domain value meta 0 fs))"

fun error_text :: "py_error \<Rightarrow> string" where
  "error_text (ValueError m) = m"
| "error_text (KeyError m) = m"
| "error_text (TypeError m) = m"
| "error_text (RuntimeError m) = m"
| "error_text (IntegrityError m) = m"
| "error_text (PartialInsertError n) = ''partial ClickHouse insert: '' @ show_int n @ '' rows''"
| "error_text (SourceObjectMissingError m) = m"
| "error_text (OtherError m) = m"

fun quarantines :: "py_error \<Rightarrow> bool" where
  "quarantines (ValueError _) = True"
| "quarantines (TypeError _) = True"
| "quarantines _ = False"

fun decode_lines ::
  "decode_env \<Rightarrow> archive_source_object \<Rightarrow> string \<Rightarrow> string \<Rightarrow> nat \<Rightarrow> string list \<Rightarrow> (row list \<times> dead_letter list) result" where
  "decode_lines env source domain tv n [] = Inr ([], [])"
| "decode_lines env source domain tv n (raw # ls) =
     (if blank_line raw then decode_lines env source domain tv (Suc n) ls
      else case decode_line env source domain tv n raw of
             (events, None) \<Rightarrow>
               ebind (decode_lines env source domain tv (Suc n) ls) (\<lambda>(es, ds). Inr (events @ es, ds))
           | (events, Some e) \<Rightarrow>
               if quarantines e
               then ebind (decode_lines env source domain tv (Suc n) ls) (\<lambda>(es, ds).
                    Inr (events @ es,
                         \<lparr>dl_source_object_key = so_object_key source, dl_line_ordinal = n, dl_raw_line = raw,
                          dl_reason = error_text e\<rparr> # ds))
               else Inl e)"

definition decode_source_object ::
  "decode_env \<Rightarrow> archive_source_object \<Rightarrow> string \<Rightarrow> string \<Rightarrow> string option \<Rightarrow> decode_result result" where
  "decode_source_object env source payload transform_version domain =
     (let selected = or_text domain (so_domain source)
      in ebind (ensure (selected \<in> {''request'', ''rum_vitals'', ''rum_errors''})
                  (ValueError ''source decoder supports request, rum_vitals, and rum_errors domains'')) (\<lambda>_.
         ebind (decode_payload env payload) (\<lambda>raw.
         (let ls = splitlines raw
          in ebind (decode_lines env source selected transform_version 0 ls) (\<lambda>(events, dead).
             Inr \<lparr>dr_source = source, dr_events = events, dr_dead_letters = dead, dr_decoded_rows = int (length ls),
                  dr_accepted_rows = int (length events), dr_quarantined_rows = int (length dead)\<rparr>)))))"

subsection \<open>The identity of an event survives normalisation\<close>

lemma map_of_dict_set [simp]: "map_of (dict_set k v d) = (map_of d)(k \<mapsto> v)"
  by (induction k v d rule: dict_set.induct) auto

lemma row_get_dict_set: "row_get (dict_set k v d) f = (if f = k then v else row_get d f)"
  by (simp add: row_get_def)

lemma dict_update_Cons: "dict_update d ((k, v) # other) = dict_update (dict_set k v d) other"
  by (simp add: dict_update_def)

lemma row_get_dict_update_other: "f \<notin> fst ` set other \<Longrightarrow> row_get (dict_update d other) f = row_get d f"
proof (induction other arbitrary: d)
  case Nil
  show ?case by (simp add: dict_update_def)
next
  case (Cons kv other)
  then show ?case by (cases kv) (auto simp: dict_update_Cons row_get_dict_set)
qed

lemma row_get_dict_update:
  "distinct (map fst other) \<Longrightarrow> (f, v) \<in> set other \<Longrightarrow> row_get (dict_update d other) f = v"
proof (induction other arbitrary: d)
  case (Cons kv other)
  show ?case
  proof (cases "kv = (f, v)")
    case True
    with Cons.prems show ?thesis by (auto simp: dict_update_Cons row_get_dict_update_other row_get_dict_set)
  next
    case False
    with Cons show ?thesis by (cases kv) (auto simp: dict_update_Cons)
  qed
qed simp

definition KEPT_KEYS :: "string list" where
  "KEPT_KEYS = [''service_id'', ''domain'', ''source_object_key'', ''source_object_version'', ''line_ordinal'',
     ''transform_version'', ''raw_json'']"

lemma kept_meta: "f \<in> set KEPT_KEYS \<Longrightarrow> f \<in> set META_KEYS \<and> f \<noteq> ''custom_fields'' \<and> f \<noteq> ''cmcd'' \<and> f \<noteq> ''event_id''"
  by (auto simp: KEPT_KEYS_def META_KEYS_def)

lemma set_in_kept:
  assumes "set_in name key value event = Inr event'" and "f \<noteq> name"
  shows "row_get event' f = row_get event f"
  using assms by (auto simp: set_in_def row_get_dict_set split: json.splits)

lemma normalize_request_key_kept:
  assumes "normalize_request_key env k event = Inr event'" and "k \<notin> set META_KEYS" and "f \<in> set KEPT_KEYS"
  shows "row_get event' f = row_get event f"
proof -
  note kept = kept_meta [OF assms(3)]
  with assms(2) have "f \<noteq> k" by auto
  show ?thesis
  proof (cases "startswith k ''cmcd_'' \<or> startswith k ''cmcd.''")
    case True
    let ?t = "text_or_empty env (row_get event k)"
    from True assms(1) obtain e1 where e1: "set_in ''cmcd'' k ?t event = Inr e1"
        "(if drop 5 k \<noteq> [] then set_in ''cmcd'' (drop 5 k) ?t e1 else Inr e1) = Inr event'"
      by (simp only: normalize_request_key_def Let_def if_True ebind_Inr_iff) blast
    have "row_get event' f = row_get e1 f" using e1(2) kept by (auto split: if_splits intro: set_in_kept)
    with set_in_kept [OF e1(1)] kept show ?thesis by simp
  next
    case False
    let ?cls = "case de_try_get env k of Some c \<Rightarrow> Some c
        | None \<Rightarrow> de_try_get env (the_default [] (map_of FIELD_ALIASES k))"
    show ?thesis
    proof (cases ?cls)
      case (Some c)
      with False assms(1) have "event' = dict_set k (typed_value env c (row_get event k)) event"
        by (simp only: normalize_request_key_def Let_def if_False option.case sum.inject)
      with \<open>f \<noteq> k\<close> show ?thesis by (simp add: row_get_dict_set)
    next
      case None
      with False assms(1) have "event' = event \<or> set_in ''custom_fields'' k (text_or_empty env (row_get event k)) event = Inr event'"
        by (simp only: normalize_request_key_def Let_def if_False option.case split: if_splits) simp_all
      with kept show ?thesis by (auto intro: set_in_kept)
    qed
  qed
qed

lemma normalize_request_keys_kept:
  assumes "normalize_request_keys env ks event = Inr event'" and "set ks \<inter> set META_KEYS = {}" and "f \<in> set KEPT_KEYS"
  shows "row_get event' f = row_get event f"
  using assms
proof (induction ks arbitrary: event)
  case (Cons k ks)
  then obtain e1 where "normalize_request_key env k event = Inr e1" "normalize_request_keys env ks e1 = Inr event'"
    by (auto simp: ebind_Inr_iff)
  with Cons normalize_request_key_kept [of env k event e1 f] show ?case by auto
qed simp

lemma setdefault_other: "f \<noteq> k \<Longrightarrow> row_get (setdefault k v event) f = row_get event f"
  by (auto simp: setdefault_def row_get_def map_add_def split: option.splits)

lemma set_position_other: "f \<noteq> k \<Longrightarrow> row_get (set_position k raw event) f = row_get event f"
  by (auto simp: set_position_def row_get_dict_set split: sum.splits)

lemma normalize_kept:
  assumes "normalize_serving_fields env domain event = Inr event'" and "f \<in> set KEPT_KEYS"
  shows "row_get event' f = row_get event f"
proof -
  have rum: "f \<notin> {''client_id'', ''metric_name'', ''metric_value'', ''metric_rating'', ''pathname'', ''error_message'',
      ''error_file'', ''error_line'', ''error_col''}"
    using assms(2) by (auto simp: KEPT_KEYS_def)
  consider "domain = ''request''" | "domain = ''rum_vitals''" | "domain = ''rum_errors''"
    | "domain \<notin> {''request'', ''rum_vitals'', ''rum_errors''}" by blast
  then show ?thesis
  proof cases
    case 1
    with assms(1) have "normalize_request env event = Inr event'" by (simp add: normalize_serving_fields_def)
    from normalize_request_keys_kept [OF this [unfolded normalize_request_def Let_def] _ assms(2)] kept_meta [OF assms(2)]
    show ?thesis by (auto simp: setdefault_other)
  next
    case 2
    with assms(1) rum show ?thesis
      by (auto simp: normalize_serving_fields_def normalize_rum_vitals_def Let_def ebind_Inr_iff row_get_dict_update_other)
  next
    case 3
    with assms(1) rum show ?thesis
      by (auto simp: normalize_serving_fields_def normalize_rum_errors_def Let_def ebind_Inr_iff row_get_dict_update_other
          set_position_other row_get_dict_set)
  next
    case 4
    with assms(1) show ?thesis by (auto simp: normalize_serving_fields_def)
  qed
qed

text \<open>An event of a line carries the line's metadata.\<close>

definition of_line :: "archive_source_object \<Rightarrow> string \<Rightarrow> string \<Rightarrow> nat \<Rightarrow> string \<Rightarrow> row \<Rightarrow> bool" where
  "of_line source domain tv n raw event \<longleftrightarrow> (\<forall>(f, v) \<in> set (base_meta source domain tv n raw). row_get event f = v)"

lemma base_meta_keys: "map fst (base_meta source domain tv n raw) = KEPT_KEYS"
  by (simp add: base_meta_def KEPT_KEYS_def)

lemma distinct_kept: "distinct KEPT_KEYS"
  by (simp add: KEPT_KEYS_def)

lemma normalized_of_line:
  assumes "normalize_serving_fields env d (dict_update value (base_meta source domain tv n raw)) = Inr event"
    and "finish_event env d' event sub = Inr event'"
  shows "of_line source domain tv n raw event'"
proof -
  have "row_get event' f = v" if fv: "(f, v) \<in> set (base_meta source domain tv n raw)" for f v
  proof -
    have kept: "f \<in> set KEPT_KEYS" using fv base_meta_keys [of source domain tv n raw] by (metis fst_conv image_eqI list.set_map)
    from row_get_dict_update [OF _ fv] base_meta_keys [of source domain tv n raw] distinct_kept
    have "row_get (dict_update value (base_meta source domain tv n raw)) f = v" by simp
    with normalize_kept [OF assms(1) kept] have "row_get event f = v" by simp
    with assms(2) kept_meta [OF kept] show ?thesis by (auto simp: finish_event_def ebind_Inr_iff row_get_dict_set)
  qed
  then show ?thesis by (auto simp: of_line_def)
qed

lemma faro_events_of_line:
  "faro_events env d value (base_meta source domain tv n raw) sub fs = (events, err) \<Longrightarrow> ev \<in> set events
     \<Longrightarrow> of_line source domain tv n raw ev"
proof (induction fs arbitrary: sub events err)
  case (Cons f fs)
  show ?case
  proof (cases "ebind (normalize_serving_fields env d (dict_update (dict_update value f) (base_meta source domain tv n raw)))
      (\<lambda>event. finish_event env d event (Some sub))")
    case (Inl e)
    with Cons.prems show ?thesis by simp
  next
    case (Inr event)
    obtain es e where rest: "faro_events env d value (base_meta source domain tv n raw) (sub + 1) fs = (es, e)" by fastforce
    with Cons.prems Inr have "ev = event \<or> ev \<in> set es" by auto
    with Inr Cons.IH [OF rest] show ?thesis by (auto simp: ebind_Inr_iff intro: normalized_of_line)
  qed
qed simp

lemma single_event_of_line:
  "single_event env domain value (base_meta source domain tv n raw) = Inr ev \<Longrightarrow> of_line source domain tv n raw ev"
  by (auto simp: single_event_def ebind_Inr_iff intro: normalized_of_line)

lemma decode_line_run:
  assumes "decode_line env source domain tv n raw = (events, err)"
  obtains (failed) e where "events = []" "err = Some e"
    | (single) v0 ev where "single_event env domain v0 (base_meta source domain tv n raw) = Inr ev"
        "events = [ev]" "err = None" "parse_record raw = Inr v0"
    | (faro) v0 fs where "fs \<noteq> []" "is_rum domain" "parse_record raw = Inr v0"
        "faro_events env domain v0 (base_meta source domain tv n raw) 0 fs = (events, err)"
proof (cases "parse_record raw")
  case (Inl e)
  with assms show thesis by (intro failed [of e]) (auto simp: decode_line_def)
next
  case (Inr v0)
  let ?x = "if is_rum domain then expand_faro_rum_events env v0 domain else Inr []"
  show thesis
  proof (cases ?x)
    case (Inl e)
    with assms Inr show thesis by (intro failed [of e]) (auto simp: decode_line_def Let_def)
  next
    case (Inr fs)
    note fs = this
    show thesis
    proof (cases fs)
      case Nil
      show thesis
      proof (cases "single_event env domain v0 (base_meta source domain tv n raw)")
        case (Inl e)
        with assms \<open>parse_record raw = Inr v0\<close> fs Nil show thesis by (intro failed [of e]) (auto simp: decode_line_def Let_def)
      next
        case (Inr ev)
        with assms \<open>parse_record raw = Inr v0\<close> fs Nil show thesis by (intro single [of v0 ev]) (auto simp: decode_line_def Let_def)
      qed
    next
      case (Cons f fs')
      with fs have "is_rum domain" by (auto split: if_splits)
      with Cons assms \<open>parse_record raw = Inr v0\<close> fs show thesis
        by (intro faro [of fs v0]) (auto simp: decode_line_def Let_def)
    qed
  qed
qed

lemma decode_line_of_line:
  assumes "decode_line env source domain tv n raw = (events, err)" and "ev \<in> set events"
  shows "of_line source domain tv n raw ev"
  using assms(1)
proof (cases rule: decode_line_run)
  case (single v0 ev')
  with assms(2) show ?thesis by (auto intro: single_event_of_line)
next
  case (faro v0 fs)
  with assms(2) show ?thesis by (auto intro: faro_events_of_line)
qed (use assms(2) in simp)

text \<open>A line that does not raise has an event.\<close>

lemma faro_events_nonempty:
  "faro_events env d v0 meta sub fs = (events, None) \<Longrightarrow> fs \<noteq> [] \<Longrightarrow> events \<noteq> []"
  by (cases fs) (auto split: sum.splits prod.splits)

lemma decode_line_nonempty:
  assumes "decode_line env source domain tv n raw = (events, None)"
  shows "events \<noteq> []"
  using assms by (cases rule: decode_line_run) (auto dest: faro_events_nonempty)

subsection \<open>No line is lost\<close>

text \<open>Line \<open>n\<close> of the object is accounted for: by an event that carries it, or by its dead letter.\<close>

definition accounted :: "archive_source_object \<Rightarrow> string \<Rightarrow> string \<Rightarrow> row list \<Rightarrow> dead_letter list \<Rightarrow> nat \<Rightarrow> string \<Rightarrow> bool" where
  "accounted source domain tv events dead n raw \<longleftrightarrow>
     (\<exists>ev \<in> set events. of_line source domain tv n raw ev)
     \<or> (\<exists>d \<in> set dead. dl_line_ordinal d = n \<and> dl_raw_line d = raw \<and> dl_source_object_key d = so_object_key source)"

lemma decode_lines_Cons:
  assumes "decode_lines env source domain tv n (raw # ls) = Inr (events, dead)"
  obtains (blank) "blank_line raw" "decode_lines env source domain tv (Suc n) ls = Inr (events, dead)"
    | (line) here err es ds where "\<not> blank_line raw" "decode_line env source domain tv n raw = (here, err)"
        "decode_lines env source domain tv (Suc n) ls = Inr (es, ds)" "events = here @ es"
        "err = None \<Longrightarrow> dead = ds"
        "\<And>e. err = Some e \<Longrightarrow> quarantines e \<and> dead = \<lparr>dl_source_object_key = so_object_key source, dl_line_ordinal = n,
            dl_raw_line = raw, dl_reason = error_text e\<rparr> # ds"
proof (cases "blank_line raw")
  case True
  with assms show thesis by (intro blank) simp_all
next
  case False
  obtain here err where run: "decode_line env source domain tv n raw = (here, err)" by fastforce
  show thesis
  proof (cases err)
    case None
    with assms False run obtain es ds where "decode_lines env source domain tv (Suc n) ls = Inr (es, ds)"
        "events = here @ es" "dead = ds"
      by (auto simp: ebind_Inr_iff)
    with False run None show thesis by (intro line [of here err es ds]) auto
  next
    case (Some e)
    with assms False run obtain es ds where "decode_lines env source domain tv (Suc n) ls = Inr (es, ds)" "quarantines e"
        "events = here @ es" "dead = \<lparr>dl_source_object_key = so_object_key source, dl_line_ordinal = n,
            dl_raw_line = raw, dl_reason = error_text e\<rparr> # ds"
      by (auto simp: ebind_Inr_iff split: if_splits)
    with False run Some show thesis by (intro line [of here err es ds]) auto
  qed
qed

lemma accounted_mono:
  "accounted source domain tv events dead n raw \<Longrightarrow> set events \<subseteq> set events' \<Longrightarrow> set dead \<subseteq> set dead'
     \<Longrightarrow> accounted source domain tv events' dead' n raw"
  by (auto simp: accounted_def)

lemma decode_lines_accounted:
  assumes "decode_lines env source domain tv n ls = Inr (events, dead)" and "i < length ls" and "\<not> blank_line (ls ! i)"
  shows "accounted source domain tv events dead (n + i) (ls ! i)"
  using assms
proof (induction ls arbitrary: n i events dead)
  case (Cons raw ls)
  from Cons.prems(1) show ?case
  proof (cases rule: decode_lines_Cons)
    case blank
    with Cons.prems obtain j where "i = Suc j" by (cases i) auto
    with Cons.IH [OF blank(2)] Cons.prems show ?thesis by simp
  next
    case (line here err es ds)
    show ?thesis
    proof (cases i)
      case 0
      show ?thesis
      proof (cases err)
        case None
        from decode_line_nonempty [OF line(2) [unfolded None]] obtain ev where "ev \<in> set here" by (cases here) auto
        with decode_line_of_line [OF line(2)] line(4) 0 show ?thesis by (auto simp: accounted_def)
      next
        case (Some e)
        with line(6) 0 show ?thesis by (simp add: accounted_def)
      qed
    next
      case (Suc j)
      have "set ds \<subseteq> set dead" using line(5,6) by (cases err) auto
      with Cons.IH [OF line(3), of j] Cons.prems Suc line(4) show ?thesis by (auto intro: accounted_mono)
    qed
  qed
qed simp

text \<open>Dead letters and events come from the lines of the object, dead letters in line order.\<close>

lemma decode_lines_dead:
  assumes "decode_lines env source domain tv n ls = Inr (events, dead)"
  shows "sorted_wrt (<) (map dl_line_ordinal dead)
    \<and> (\<forall>d \<in> set dead. n \<le> dl_line_ordinal d \<and> dl_line_ordinal d < n + length ls
          \<and> dl_raw_line d = ls ! (dl_line_ordinal d - n) \<and> \<not> blank_line (dl_raw_line d))"
  using assms
proof (induction ls arbitrary: n events dead)
  case (Cons raw ls)
  from Cons.prems show ?case
  proof (cases rule: decode_lines_Cons)
    case blank
    from Cons.IH [OF blank(2)] show ?thesis by (auto simp: nth_Cons' Suc_le_eq)
  next
    case (line here err es ds)
    from Cons.IH [OF line(3)] line(1,5,6) show ?thesis
      by (cases err) (auto simp: nth_Cons' Suc_le_eq)
  qed
qed simp

lemma decode_lines_events:
  assumes "decode_lines env source domain tv n ls = Inr (events, dead)" and "ev \<in> set events"
  shows "\<exists>i < length ls. of_line source domain tv (n + i) (ls ! i) ev"
  using assms
proof (induction ls arbitrary: n events dead)
  case (Cons raw ls)
  from Cons.prems(1) show ?case
  proof (cases rule: decode_lines_Cons)
    case blank
    from Cons.IH [OF blank(2) Cons.prems(2)] obtain i where "i < length ls" "of_line source domain tv (Suc n + i) (ls ! i) ev"
      by blast
    then show ?thesis by (intro exI [of _ "Suc i"]) simp
  next
    case (line here err es ds)
    show ?thesis
    proof (cases "ev \<in> set here")
      case True
      with decode_line_of_line [OF line(2)] show ?thesis by (intro exI [of _ 0]) simp
    next
      case False
      with Cons.prems(2) line(4) have "ev \<in> set es" by simp
      from Cons.IH [OF line(3) this] obtain i where "i < length ls" "of_line source domain tv (Suc n + i) (ls ! i) ev"
        by blast
      then show ?thesis by (intro exI [of _ "Suc i"]) simp
    qed
  qed
qed simp

subsection \<open>Event ids do not repeat\<close>

definition event_id_json :: "row \<Rightarrow> json" where
  "event_id_json ev = row_get ev ''event_id''"

definition rum_tag :: "string \<Rightarrow> int \<Rightarrow> string" where
  "rum_tag domain sub = ''rum:'' @ (if domain = ''rum_vitals'' then ''vitals'' else ''errors'') @ sub_ordinal_tag (JInt sub)"

definition identified :: "decode_env \<Rightarrow> string \<Rightarrow> nat \<Rightarrow> int option \<Rightarrow> row \<Rightarrow> bool" where
  "identified env domain n sub ev \<longleftrightarrow>
     (\<exists>event tag i. build_event_id (de_sha_uuid env) event (Some tag) = Inr i \<and> event_id_json ev = JStr i
        \<and> row_get event ''line_ordinal'' = JInt (int n) \<and> (\<forall>s. sub = Some s \<longrightarrow> tag = rum_tag domain s))"

lemma row_get_with_domain: "row_get (with_domain r (Some d)) f = (if f = ''domain'' then JStr d else row_get r f)"
proof -
  have "map_of (filter (\<lambda>(k, _). k \<noteq> ''domain'') r) f = (if f = ''domain'' then None else map_of r f)"
    by (induction r) auto
  then show ?thesis by (simp add: row_get_def with_domain_def)
qed

lemma rum_tag_inj: "0 \<le> s \<Longrightarrow> 0 \<le> s' \<Longrightarrow> rum_tag domain s = rum_tag domain s' \<Longrightarrow> s = s'"
  by (auto simp: rum_tag_def sub_ordinal_tag_def show_int_inj split: if_splits)

lemma identified_inj:
  assumes "inj (de_sha_uuid env)" and "identified env domain n sub ev" and "identified env domain n' sub' ev'"
    and "event_id_json ev = event_id_json ev'"
  shows "n = n' \<and> (\<forall>s s'. sub = Some s \<longrightarrow> sub' = Some s' \<longrightarrow> 0 \<le> s \<longrightarrow> 0 \<le> s' \<longrightarrow> s = s')"
proof -
  from assms(2) obtain e t i where e: "build_event_id (de_sha_uuid env) e (Some t) = Inr i" "event_id_json ev = JStr i"
      "row_get e ''line_ordinal'' = JInt (int n)" "\<And>s. sub = Some s \<Longrightarrow> t = rum_tag domain s"
    by (auto simp: identified_def)
  from assms(3) obtain e' t' i' where e': "build_event_id (de_sha_uuid env) e' (Some t') = Inr i'" "event_id_json ev' = JStr i'"
      "row_get e' ''line_ordinal'' = JInt (int n')" "\<And>s. sub' = Some s \<Longrightarrow> t' = rum_tag domain s"
    by (auto simp: identified_def)
  from assms(4) e(2) e'(2) have "i' = i" by simp
  have agree: "row_get (with_domain e (Some t)) f = row_get (with_domain e' (Some t')) f" if "f \<in> set IDENTITY_FIELDS" for f
    using event_id_agree [OF e(1) e'(1) [unfolded \<open>i' = i\<close>] _ that] assms(1) by (auto dest: injD)
  from agree [of "''line_ordinal''"] e(3) e'(3) have "n = n'" by (simp add: IDENTITY_FIELDS_def row_get_with_domain)
  moreover from agree [of "''domain''"] have "t = t'" by (simp add: IDENTITY_FIELDS_def row_get_with_domain)
  ultimately show ?thesis using e(4) e'(4) rum_tag_inj by blast
qed

lemma finish_event_identified:
  assumes "normalize_serving_fields env d (dict_update v0 (base_meta source domain tv n raw)) = Inr event"
    and "finish_event env d event sub = Inr ev" and "d \<in> {''request'', ''rum_vitals'', ''rum_errors''}"
    and "sub = None \<or> is_rum d"
  shows "identified env d n sub ev"
proof -
  from assms(2) obtain i where i: "event_id_of env event d sub = Inr i" "event_id_json ev = JStr i"
    by (auto simp: finish_event_def ebind_Inr_iff event_id_json_def row_get_dict_set)
  have "''line_ordinal'' \<in> set KEPT_KEYS" by (simp add: KEPT_KEYS_def)
  from normalize_kept [OF assms(1) this]
  have ord: "row_get event ''line_ordinal'' = JInt (int n)"
    by (simp add: base_meta_def row_get_dict_update)
  from i(1) assms(3,4) obtain tag where "build_event_id (de_sha_uuid env) event (Some tag) = Inr i"
      "\<And>s. sub = Some s \<Longrightarrow> tag = rum_tag d s"
    by (auto simp: event_id_of_def build_request_event_id_def build_rum_event_id_def rum_tag_def is_rum_def Let_def)
  with i(2) ord show ?thesis by (auto simp: identified_def)
qed

lemma faro_events_identified:
  assumes "faro_events env d v0 (base_meta source domain tv n raw) sub fs = (events, err)" and "is_rum d" and "j < length events"
  shows "identified env d n (Some (sub + int j)) (events ! j)"
  using assms(1,3)
proof (induction fs arbitrary: sub events err j)
  case (Cons f fs)
  show ?case
  proof (cases "ebind (normalize_serving_fields env d (dict_update (dict_update v0 f) (base_meta source domain tv n raw)))
      (\<lambda>event. finish_event env d event (Some sub))")
    case (Inl e)
    with Cons.prems show ?thesis by simp
  next
    case (Inr ev)
    obtain es e where rest: "faro_events env d v0 (base_meta source domain tv n raw) (sub + 1) fs = (es, e)" by fastforce
    with Cons.prems(1) Inr have events: "events = ev # es" by simp
    show ?thesis
    proof (cases j)
      case 0
      from Inr assms(2) have "identified env d n (Some sub) ev"
        by (auto simp: ebind_Inr_iff is_rum_def intro: finish_event_identified)
      with 0 events show ?thesis by simp
    next
      case (Suc k)
      with Cons.IH [OF rest, of k] Cons.prems(2) events show ?thesis by (simp add: add.assoc)
    qed
  qed
qed simp

lemma decode_line_identified:
  assumes "decode_line env source domain tv n raw = (events, err)" and "domain \<in> {''request'', ''rum_vitals'', ''rum_errors''}"
    and "inj (de_sha_uuid env)"
  shows "(\<forall>ev \<in> set events. \<exists>sub. identified env domain n sub ev) \<and> distinct (map event_id_json events)"
  using assms(1)
proof (cases rule: decode_line_run)
  case (single v0 ev)
  then have "identified env domain n None ev"
    using assms(2) by (auto simp: single_event_def ebind_Inr_iff intro: finish_event_identified)
  with single show ?thesis by auto
next
  case (faro v0 fs)
  note ident = faro_events_identified [OF faro(4) faro(2)]
  have "event_id_json (events ! i) \<noteq> event_id_json (events ! j)" if "i < length events" "j < length events" "i \<noteq> j" for i j
    using identified_inj [OF assms(3) ident [OF that(1)] ident [OF that(2)]] that(3) by auto
  then have "distinct (map event_id_json events)" by (auto simp: distinct_conv_nth)
  with ident show ?thesis by (metis in_set_conv_nth)
qed simp

lemma decode_lines_identified:
  assumes "decode_lines env source domain tv n ls = Inr (events, dead)" and "domain \<in> {''request'', ''rum_vitals'', ''rum_errors''}"
    and "inj (de_sha_uuid env)"
  shows "(\<forall>ev \<in> set events. \<exists>m sub. n \<le> m \<and> identified env domain m sub ev) \<and> distinct (map event_id_json events)"
  using assms(1)
proof (induction ls arbitrary: n events dead)
  case (Cons raw ls)
  from Cons.prems show ?case
  proof (cases rule: decode_lines_Cons)
    case blank
    from Cons.IH [OF blank(2)] show ?thesis by (meson Suc_leD)
  next
    case (line here err es ds)
    note one = decode_line_identified [OF line(2) assms(2,3)] and rest = Cons.IH [OF line(3)]
    have "event_id_json a \<noteq> event_id_json b" if "a \<in> set here" "b \<in> set es" for a b
    proof
      assume eq: "event_id_json a = event_id_json b"
      from one that(1) obtain s where "identified env domain n s a" by blast
      moreover from rest that(2) obtain m s' where "Suc n \<le> m" "identified env domain m s' b" by blast
      ultimately show False using identified_inj [OF assms(3) _ _ eq] by fastforce
    qed
    then have "distinct (map event_id_json events)" using one rest line(4) by auto
    moreover have "\<exists>m sub. n \<le> m \<and> identified env domain m sub ev" if "ev \<in> set events" for ev
      using that line(4) one rest by (metis Suc_leD Un_iff order_refl set_append)
    ultimately show ?thesis by blast
  qed
qed simp

subsection \<open>Properties\<close>

lemma decode_source_object_run:
  assumes "decode_source_object env source payload tv domain = Inr res"
  obtains raw where "decode_payload env payload = Inr raw"
    "or_text domain (so_domain source) \<in> {''request'', ''rum_vitals'', ''rum_errors''}"
    "decode_lines env source (or_text domain (so_domain source)) tv 0 (splitlines raw) = Inr (dr_events res, dr_dead_letters res)"
    "dr_decoded_rows res = int (length (splitlines raw))" "dr_accepted_rows res = int (length (dr_events res))"
    "dr_quarantined_rows res = int (length (dr_dead_letters res))"
  using assms by (auto simp: decode_source_object_def Let_def ebind_Inr_iff)

text \<open>
  C14. The decoder loses nothing. Every line of the decompressed object that is not blank is either in an
  event that carries its text, ordinal and source, or in a dead letter with its bytes; every event comes from a
  line; every line has at most one dead letter; and the reported counts are those of the lists.
\<close>

theorem decode_is_lossless:
  assumes "decode_source_object env source payload tv domain = Inr res"
  shows "\<exists>raw. decode_payload env payload = Inr raw
    \<and> (\<forall>i < length (splitlines raw). \<not> blank_line (splitlines raw ! i) \<longrightarrow>
         accounted source (or_text domain (so_domain source)) tv (dr_events res) (dr_dead_letters res) i (splitlines raw ! i))
    \<and> (\<forall>ev \<in> set (dr_events res). \<exists>i < length (splitlines raw).
         of_line source (or_text domain (so_domain source)) tv i (splitlines raw ! i) ev)
    \<and> sorted_wrt (<) (map dl_line_ordinal (dr_dead_letters res))
    \<and> (\<forall>d \<in> set (dr_dead_letters res). dl_line_ordinal d < length (splitlines raw)
         \<and> dl_raw_line d = splitlines raw ! dl_line_ordinal d)
    \<and> dr_accepted_rows res = int (length (dr_events res)) \<and> dr_quarantined_rows res = int (length (dr_dead_letters res))"
proof -
  from assms obtain raw where raw: "decode_payload env payload = Inr raw"
      "decode_lines env source (or_text domain (so_domain source)) tv 0 (splitlines raw) = Inr (dr_events res, dr_dead_letters res)"
      "dr_accepted_rows res = int (length (dr_events res))" "dr_quarantined_rows res = int (length (dr_dead_letters res))"
    by (rule decode_source_object_run)
  note dead = decode_lines_dead [OF raw(2)]
  have "accounted source (or_text domain (so_domain source)) tv (dr_events res) (dr_dead_letters res) i (splitlines raw ! i)"
    if "i < length (splitlines raw)" "\<not> blank_line (splitlines raw ! i)" for i
    using decode_lines_accounted [OF raw(2) that] by simp
  moreover have "\<exists>i < length (splitlines raw). of_line source (or_text domain (so_domain source)) tv i (splitlines raw ! i) ev"
    if "ev \<in> set (dr_events res)" for ev
    using decode_lines_events [OF raw(2) that] by simp
  ultimately show ?thesis using raw dead by auto
qed

definition example_decode_env :: decode_env where
  "example_decode_env =
     \<lparr>de_gunzip = (\<lambda>_. None), de_unzstd = (\<lambda>_. None), de_str = py_str, de_float = (\<lambda>_. None), de_parse_qs = (\<lambda>_. Some []),
      de_try_get = (\<lambda>_. None), de_faro_metrics = (\<lambda>_ _. Inr []), de_query_metrics = (\<lambda>_ _. Inr []), de_sha_uuid = (\<lambda>p. p)\<rparr>"

definition example_object :: archive_source_object where
  "example_object = \<lparr>so_service_id = ''svc'', so_domain = ''request'', so_object_key = ''k1'', so_checksum = ''c1'',
     so_size_bytes = 28, so_version = None\<rparr>"

definition example_payload :: string where
  \<open>example_payload = ''{"url":"/a"}'' @ [CHR 0x0A, CHR 0x0A] @ ''x'' @ [CHR 0x0A] @ ''{"url":"/b"}''\<close>

definition example_decoded :: decode_result where
  "example_decoded = projr (decode_source_object example_decode_env example_object example_payload ''t1'' None)"

lemma example_decode: "decode_source_object example_decode_env example_object example_payload ''t1'' None = Inr example_decoded"
proof -
  have "is_ok (decode_source_object example_decode_env example_object example_payload ''t1'' None)" by code_simp
  then show ?thesis by (auto simp: example_decoded_def is_ok_iff)
qed

theorem decode_is_lossless_witness:
  "accounted example_object ''request'' ''t1'' (dr_events example_decoded) (dr_dead_letters example_decoded) 2 ''x''
   \<and> dr_accepted_rows example_decoded = 2"
proof -
  have "\<exists>raw. decode_payload example_decode_env example_payload = Inr raw
    \<and> (\<forall>i < length (splitlines raw). \<not> blank_line (splitlines raw ! i) \<longrightarrow>
         accounted example_object ''request'' ''t1'' (dr_events example_decoded) (dr_dead_letters example_decoded) i (splitlines raw ! i))
    \<and> dr_accepted_rows example_decoded = int (length (dr_events example_decoded))"
    using decode_is_lossless [OF example_decode] by (auto simp: or_text_def example_object_def)
  moreover have "decode_payload example_decode_env example_payload = Inr example_payload" by code_simp
  moreover have "2 < length (splitlines example_payload)" "splitlines example_payload ! 2 = ''x''" "\<not> blank_line ''x''"
    by code_simp+
  moreover have "length (dr_events example_decoded) = 2" by code_simp
  ultimately show ?thesis by auto
qed

text \<open>
  The events decoded from one source object have distinct event ids (as far as the digest does not collide),
  also when a RUM record expands to several events.
\<close>

theorem decoded_event_ids_distinct:
  assumes "decode_source_object env source payload tv domain = Inr res" and "inj (de_sha_uuid env)"
  shows "distinct (map event_id_json (dr_events res)) \<and> (\<forall>ev \<in> set (dr_events res). \<exists>i. event_id_json ev = JStr i)"
proof -
  from assms(1) obtain raw where
      "or_text domain (so_domain source) \<in> {''request'', ''rum_vitals'', ''rum_errors''}"
      "decode_lines env source (or_text domain (so_domain source)) tv 0 (splitlines raw) = Inr (dr_events res, dr_dead_letters res)"
    by (rule decode_source_object_run)
  from decode_lines_identified [OF this(2,1) assms(2)] show ?thesis by (auto simp: identified_def)
qed

theorem decoded_event_ids_distinct_witness:
  "distinct (map event_id_json (dr_events example_decoded)) \<and> length (dr_events example_decoded) = 2"
proof -
  have "length (dr_events example_decoded) = 2" by code_simp
  moreover have "inj (de_sha_uuid example_decode_env)" by (simp add: example_decode_env_def inj_def)
  ultimately show ?thesis using decoded_event_ids_distinct [OF example_decode] by simp
qed

text \<open>
  One record can make a whole source object undecodable. In a RUM object, a line whose record has no body and
  a \<open>url\<close> that is truthy but not text raises \<open>AttributeError\<close>, which is not one of the exceptions that quarantine
  a line: however good the other lines are, decoding raises and nothing of the object is accepted.
\<close>

theorem rum_url_not_text_fails_object:
  assumes "is_rum (or_text domain (so_domain source))" and "decode_payload env payload = Inr raw"
    and "i < length (splitlines raw)" and "\<not> blank_line (splitlines raw ! i)"
    and "parse_record (splitlines raw ! i) = Inr rec0" and "\<not> json_truthy (row_get rec0 ''rum_body'')"
    and "json_truthy (row_get rec0 ''url'')" and "\<not> is_jstr (row_get rec0 ''url'')"
  shows "\<not> is_ok (decode_source_object env source payload tv domain)"
proof
  assume "is_ok (decode_source_object env source payload tv domain)"
  then obtain res where res: "decode_source_object env source payload tv domain = Inr res" by (auto simp: is_ok_iff)
  let ?d = "or_text domain (so_domain source)"
  from res assms(2) have lines: "decode_lines env source ?d tv 0 (splitlines raw) = Inr (dr_events res, dr_dead_letters res)"
    by (auto elim: decode_source_object_run)
  have "rum_querystring_params env rec0 = Inl (OtherError ''AttributeError'')"
    using assms(7,8) by (auto simp: rum_querystring_params_def get_or2_def get_or_def is_jstr_def split: json.splits)
  then have raises: "decode_line env source ?d tv n (splitlines raw ! i) = ([], Some (OtherError ''AttributeError''))" for n
    using assms(1,5,6) by (simp add: decode_line_def Let_def expand_faro_rum_events_def)
  have "False" if "decode_lines env source ?d tv n ls = Inr (events, dead)" "j < length ls" "ls ! j = splitlines raw ! i"
    for n ls events dead j
    using that
  proof (induction ls arbitrary: n j events dead)
    case (Cons l ls)
    from Cons.prems(1) show ?case
    proof (cases rule: decode_lines_Cons)
      case blank
      with Cons.prems(3) assms(4) obtain k where "j = Suc k" by (cases j) auto
      with Cons.IH [OF blank(2), of k] Cons.prems(2,3) show ?thesis by simp
    next
      case (line here err es ds)
      show ?thesis
      proof (cases j)
        case 0
        with Cons.prems(3) raises [of n] line(2,6) show ?thesis by auto
      next
        case (Suc k)
        with Cons.IH [OF line(3), of k] Cons.prems(2,3) show ?thesis by simp
      qed
    qed
  qed simp
  from this [OF lines assms(3) refl] show False .
qed

theorem rum_url_not_text_fails_object_witness:
  \<open>\<not> is_ok (decode_source_object example_decode_env (example_object\<lparr>so_domain := ''rum_vitals''\<rparr>) ''{"url":1}'' ''t1'' None)\<close>
  by (rule rum_url_not_text_fails_object [where i = 0 and raw = \<open>''{"url":1}''\<close> and ?rec0.0 = "[(''url'', JInt 1)]"]) code_simp+

end
