(* ===== verification/Aggregates.thy ===== *)
theory Aggregates
  imports Serving_Publication Decoder
begin

text \<open>
  Minute aggregates: \<open>ingest_controller/service.py\<close> from \<open>DIMENSIONS_BY_DOMAIN\<close> to
  \<open>AggregateBatchAdapter\<close>, with \<open>bucket\<close> of \<open>_common.py\<close>. The counts of a batch are an association list
  in the order a Python \<open>Counter\<close> keeps its keys; \<open>isof\<close> prints an instant (\<open>datetime.isoformat\<close>). Times
  without an offset are read as UTC, the zone the worker runs in. Values of projection rows are handed
  to the driver as they are (\<open>CRaw\<close>). The theorems: the counts are exactly the occurrences, nothing is
  counted twice, and an aggregate publication is visible only with all of its rows.
\<close>

subsection \<open>Counting\<close>

definition DIMENSIONS_BY_DOMAIN :: "(string \<times> string list) list" where
  "DIMENSIONS_BY_DOMAIN =
     [(''request'',
        [''url'', ''country'', ''client_ip'', ''asn'', ''host'', ''method'', ''status'', ''cache'', ''proto'', ''ua'',
         ''referer'', ''cookie_session'', ''resp_header_content_encoding'', ''ttl'', ''age'', ''hits'', ''digest'',
         ''city'', ''region'', ''metro'', ''transport'', ''c_speed'', ''c_type'', ''pop'', ''backend'', ''edge'',
         ''server_region'', ''tls'', ''is_ipv6'', ''conn_requests'', ''waf'', ''waf_resp'', ''waf_ms'', ''p_type'',
         ''p_desc'', ''ja3'', ''ja4'', ''tls_ciphers_sha'', ''io_input_format'', ''io_output_format'']),
      (''rum_vitals'', [''metric_name'']), (''rum_errors'', [''error_message'']), (''cmcd'', [''cmcd_session''])]"

definition SOURCE_FIELD_OVERRIDES :: "(string \<times> string) list" where
  "SOURCE_FIELD_OVERRIDES = [(''client_ip'', ''ip''), (''cmcd_session'', ''sid'')]"

definition MINUTE :: duration where
  "MINUTE = 60 * 1000000"

definition floor_minute :: "timestamp \<Rightarrow> timestamp" where
  "floor_minute t = t - t mod MINUTE"

definition bucket :: "batch_env \<Rightarrow> json \<Rightarrow> timestamp option result" where
  "bucket env v =
     (case v of
        JStr s \<Rightarrow>
          (case be_fromiso env (replace_zulu s) of
             Inl (ValueError _) \<Rightarrow> Inr None
           | Inl e \<Rightarrow> Inl e
           | Inr t \<Rightarrow> Inr (Some (floor_minute t)))
      | _ \<Rightarrow> Inr None)"

type_synonym count_key = "string \<times> string \<times> timestamp"

definition count_up :: "count_key \<Rightarrow> (count_key \<times> int) list \<Rightarrow> (count_key \<times> int) list" where
  "count_up k counts = dict_set k (the_default 0 (map_of counts k) + 1) counts"

definition dimension_value :: "batch_env \<Rightarrow> row \<Rightarrow> string \<Rightarrow> string" where
  "dimension_value env r dimension =
     be_str env (get_default r (the_default dimension (map_of SOURCE_FIELD_OVERRIDES dimension)) (JStr []))"

definition count_row :: "batch_env \<Rightarrow> string list \<Rightarrow> timestamp \<Rightarrow> row \<Rightarrow> (count_key \<times> int) list \<Rightarrow> (count_key \<times> int) list" where
  "count_row env dimensions bkt r counts =
     foldl (\<lambda>c d. count_up (d, dimension_value env r d, bkt) c) counts dimensions"

fun count_rows_into ::
  "batch_env \<Rightarrow> string list \<Rightarrow> row list \<Rightarrow> (count_key \<times> int) list \<Rightarrow> (count_key \<times> int) list result" where
  "count_rows_into env dimensions [] counts = Inr counts"
| "count_rows_into env dimensions (r # rs) counts =
     ebind (bucket env (row_get r ''timestamp'')) (\<lambda>b.
     case b of
       None \<Rightarrow> count_rows_into env dimensions rs counts
     | Some bkt \<Rightarrow> count_rows_into env dimensions rs (count_row env dimensions bkt r counts))"

definition count_to_row :: "(timestamp \<Rightarrow> string) \<Rightarrow> count_key \<times> int \<Rightarrow> row" where
  "count_to_row isof c =
     (case c of ((dimension, v, bkt), n) \<Rightarrow>
        [(''dimension'', JStr dimension), (''value'', JStr v), (''bucket_start'', JStr (isof bkt)), (''count'', JInt n)])"

definition compute_dimension_counts ::
  "batch_env \<Rightarrow> (timestamp \<Rightarrow> string) \<Rightarrow> string \<Rightarrow> row list \<Rightarrow> row list result" where
  "compute_dimension_counts env isof domain rows =
     (case map_of DIMENSIONS_BY_DOMAIN domain of
        None \<Rightarrow> Inl (ValueError (''unsupported aggregate write domain: '' @ domain))
      | Some dimensions \<Rightarrow>
          ebind (count_rows_into env dimensions rows []) (\<lambda>counts. Inr (map (count_to_row isof) counts)))"

subsection \<open>The aggregate adapter\<close>

definition AGGREGATE_TABLES :: "(string \<times> string \<times> string) list" where
  "AGGREGATE_TABLES =
     [(''request_aggregate'', ''request_aggregates'', ''request_count''),
      (''rum_vitals_aggregate'', ''rum_vitals_aggregates'', ''event_count''),
      (''rum_errors_aggregate'', ''rum_error_aggregates'', ''error_count''),
      (''cmcd_aggregate'', ''cmcd_aggregates'', ''event_count'')]"

definition ORIGIN_COLUMNS :: "(string \<times> string \<times> string list) list" where
  "ORIGIN_COLUMNS =
     [(''origin_summary'', ''origin_minute_summary'',
        [''requests'', ''misses'', ''passes'', ''origin_5xx'', ''status_count'', ''origin_bytes'', ''latency_count'',
         ''ttlb_count'', ''overhead_count'', ''origin_bytes_count'', ''latency_p50_us'', ''latency_p75_us'',
         ''latency_p95_us'', ''latency_p99_us'', ''ttlb_p50_us'', ''ttlb_p95_us'', ''cdn_overhead_p50_us'',
         ''origin_bytes_p50'', ''latency_sk_v'', ''latency_sk_w'', ''ttlb_sk_v'', ''ttlb_sk_w'', ''overhead_sk_v'',
         ''overhead_sk_w'', ''origin_bytes_sk_v'', ''origin_bytes_sk_w'']),
      (''origin_dimensions'', ''origin_minute_dimensions'',
        [''dimension'', ''value'', ''requests'', ''origin_5xx'', ''origin_bytes'', ''latency_count'', ''latency_p50_us'',
         ''latency_p95_us'', ''latency_p99_us'', ''latency_sk_v'', ''latency_sk_w'']),
      (''performance_dimensions'', ''performance_minute_dimensions'',
        [''dimension'', ''value'', ''requests'', ''latency_count'', ''latency_sum_ms'', ''latency_p50_ms'',
         ''latency_p95_ms'', ''latency_p99_ms'']),
      (''performance_summary'', ''performance_minute_summary'',
        [''component_count'', ''edge_processing_sum_ms'', ''origin_wait_sum_ms'', ''origin_download_sum_ms'',
         ''client_download_sum_ms'']),
      (''performance_scatter'', ''performance_scatter_samples'', [''sample_key'', ''origin_ms'', ''edge_ms'', ''cache'']),
      (''security_dimensions'', ''security_minute_dimensions'',
        [''dimension'', ''value'', ''requests'', ''wellknown_bot_name'', ''bot_category'', ''verified_count'',
         ''impersonator_count'', ''unverified_count'']),
      (''network_dimensions'', ''network_minute_dimensions'',
        [''dimension'', ''value'', ''c_speed'', ''requests'', ''errors'', ''tcp_rtt_count'', ''tcp_rtt_sum'',
         ''tcp_rtt_p50_us'', ''tcp_rtt_p95_us'', ''tcp_rtt_p99_us'', ''ploss_sum'', ''ploss_count'', ''ttfb_p50_us'',
         ''ttfb_p95_us''])]"

text \<open>The rows of a batch carry \<open>bucket_start\<close> as text.\<close>

definition bucket_start_value :: "batch_env \<Rightarrow> json \<Rightarrow> timestamp result" where
  "bucket_start_value env v = be_fromiso env (be_str env v)"

definition projection_values :: "batch_env \<Rightarrow> string list \<Rightarrow> high_scale_batch \<Rightarrow> string \<Rightarrow> row \<Rightarrow> ch_value list result" where
  "projection_values env metric_columns batch uuid r =
     ebind (json_item r ''bucket_start'') (\<lambda>b.
     ebind (bucket_start_value env b) (\<lambda>t.
     ebind (map_result (json_item r) metric_columns) (\<lambda>ms.
     Inr ([CStr (hb_service_id batch), CTime t] @ map CRaw ms @ [CStr uuid, CStr ''visible'']))))"

definition count_of :: "json \<Rightarrow> int result" where
  "count_of v =
     (case v of
        JInt i \<Rightarrow> Inr i
      | JBool b \<Rightarrow> Inr (if b then 1 else 0)
      | JFloat q \<Rightarrow> Inr (if 0 \<le> q then \<lfloor>q\<rfloor> else \<lceil>q\<rceil>)
      | JStr s \<Rightarrow> (case py_int s of None \<Rightarrow> Inl (ValueError ''invalid literal for int()'') | Some i \<Rightarrow> Inr i)
      | _ \<Rightarrow> Inl (TypeError ''int() argument''))"

definition aggregate_values :: "batch_env \<Rightarrow> high_scale_batch \<Rightarrow> string \<Rightarrow> row \<Rightarrow> ch_value list result" where
  "aggregate_values env batch uuid r =
     ebind (json_item r ''bucket_start'') (\<lambda>b.
     ebind (bucket_start_value env b) (\<lambda>t.
     ebind (json_item r ''dimension'') (\<lambda>d.
     ebind (json_item r ''value'') (\<lambda>v.
     ebind (json_item r ''count'') (\<lambda>c.
     ebind (count_of c) (\<lambda>n.
     Inr [CStr (hb_service_id batch), CTime t, CStr (be_str env d), CStr (be_str env v), CInt n, CStr uuid,
          CStr ''visible'']))))))"

definition insert_aggregate_locked ::
  "batch_env \<Rightarrow> 's clickhouse_client \<Rightarrow> timestamp \<Rightarrow> high_scale_batch \<Rightarrow> string \<Rightarrow> ('s, insert_receipt) eff" where
  "insert_aggregate_locked env cl now batch uuid =
     (case map_of ORIGIN_COLUMNS (hb_domain batch) of
        Some (table, metric_columns) \<Rightarrow>
          eff_bind (eff_lift (map_result (projection_values env metric_columns batch uuid) (hb_rows batch))) (\<lambda>mapped.
          publish_table_rows env cl now table
            ([''service_id'', ''bucket_start''] @ metric_columns @ [''batch_id'', ''publication_state'']) mapped batch uuid)
      | None \<Rightarrow>
          (case map_of AGGREGATE_TABLES (hb_domain batch) of
             Some (table, metric_col) \<Rightarrow>
               eff_bind (eff_lift (map_result (aggregate_values env batch uuid) (hb_rows batch))) (\<lambda>mapped.
               publish_table_rows env cl now table
                 [''service_id'', ''bucket_start'', ''dimension'', ''value'', metric_col, ''batch_id'', ''publication_state'']
                 mapped batch uuid)
           | None \<Rightarrow> eff_raise (KeyError (hb_domain batch))))"

definition insert_aggregate ::
  "batch_env \<Rightarrow> 's clickhouse_client \<Rightarrow> timestamp \<Rightarrow> high_scale_batch \<Rightarrow> ('s, insert_receipt) eff" where
  "insert_aggregate env cl now batch =
     (if map_of AGGREGATE_TABLES (hb_domain batch) = None \<and> map_of ORIGIN_COLUMNS (hb_domain batch) = None
        then eff_raise (ValueError (''unsupported aggregate domain: '' @ hb_domain batch))
      else if hb_rows batch = [] then eff_raise (ValueError ''aggregate batch must contain at least one row'')
      else insert_aggregate_locked env cl now batch (batch_uuid env batch))"

subsection \<open>The counts are the occurrences\<close>

definition occurrences :: "batch_env \<Rightarrow> string \<Rightarrow> string \<Rightarrow> timestamp \<Rightarrow> row list \<Rightarrow> nat" where
  "occurrences env d v bkt rows =
     length (filter (\<lambda>r. bucket env (row_get r ''timestamp'') = Inr (Some bkt) \<and> dimension_value env r d = v) rows)"

definition tally :: "(count_key \<times> int) list \<Rightarrow> count_key \<Rightarrow> int" where
  "tally counts k = the_default 0 (map_of counts k)"

definition counts_ok :: "string list \<Rightarrow> (count_key \<times> int) list \<Rightarrow> bool" where
  "counts_ok dimensions counts \<longleftrightarrow> distinct (map fst counts) \<and> (\<forall>(k, n) \<in> set counts. fst k \<in> set dimensions \<and> 0 < n)"

lemma set_dict_set: "set (dict_set k v d) \<subseteq> insert (k, v) (set d)"
  by (induction k v d rule: dict_set.induct) auto

lemma fst_dict_set: "fst ` set (dict_set k v d) = insert k (fst ` set d)"
  by (induction k v d rule: dict_set.induct) auto

lemma distinct_dict_set: "distinct (map fst d) \<Longrightarrow> distinct (map fst (dict_set k v d))"
proof (induction k v d rule: dict_set.induct)
  case (2 k v k' v' d)
  then show ?case using fst_dict_set [of k v d] by (auto simp flip: set_map)
qed simp

lemma tally_count_up [simp]: "tally (count_up k c) k' = tally c k' + (if k' = k then 1 else 0)"
  by (simp add: tally_def count_up_def)

lemma counts_ok_count_up: "counts_ok dims c \<Longrightarrow> fst k \<in> set dims \<Longrightarrow> counts_ok dims (count_up k c)"
proof -
  assume ok: "counts_ok dims c" and k: "fst k \<in> set dims"
  have "0 < tally c k + 1"
    using ok by (cases "map_of c k") (auto simp: tally_def counts_ok_def dest!: map_of_SomeD)
  with ok k set_dict_set [of k "tally c k + 1" c] show ?thesis
    by (auto simp: counts_ok_def count_up_def tally_def distinct_dict_set)
qed

lemma count_row_tally:
  assumes "distinct dims"
  shows "tally (count_row env dims bkt r c) (d, v, b) =
    tally c (d, v, b) + (if d \<in> set dims \<and> v = dimension_value env r d \<and> b = bkt then 1 else 0)"
  using assms
proof (induction dims arbitrary: c)
  case (Cons x dims)
  then show ?case
    using Cons.IH [of "count_up (x, dimension_value env r x, bkt) c"] by (auto simp: count_row_def)
qed (simp add: count_row_def)

lemma count_row_ok: "counts_ok dims c \<Longrightarrow> counts_ok dims (count_row env dims bkt r c)"
proof -
  have "counts_ok dims c \<Longrightarrow> set ds \<subseteq> set dims \<Longrightarrow> counts_ok dims (count_row env ds bkt r c)" for ds
    by (induction ds arbitrary: c) (simp_all add: count_row_def counts_ok_count_up)
  then show "counts_ok dims c \<Longrightarrow> counts_ok dims (count_row env dims bkt r c)" by simp
qed

lemma count_rows_spec:
  assumes "count_rows_into env dims rows c = Inr c'" and "distinct dims" and "counts_ok dims c"
  shows "counts_ok dims c'
    \<and> (\<forall>d v b. tally c' (d, v, b) = tally c (d, v, b) + (if d \<in> set dims then int (occurrences env d v b rows) else 0))"
  using assms
proof (induction rows arbitrary: c)
  case Nil
  then show ?case by (simp add: occurrences_def)
next
  case (Cons r rows)
  from Cons.prems(1) obtain x where x: "bucket env (row_get r ''timestamp'') = Inr x" by (auto simp: ebind_Inr_iff)
  show ?case
  proof (cases x)
    case None
    with Cons x show ?thesis by (simp add: occurrences_def)
  next
    case (Some bkt)
    with Cons.prems x have "count_rows_into env dims rows (count_row env dims bkt r c) = Inr c'" by simp
    from Cons.IH [OF this Cons.prems(2) count_row_ok [OF Cons.prems(3)]] x Some show ?thesis
      by (auto simp: count_row_tally [OF Cons.prems(2)] occurrences_def)
  qed
qed

lemma tally_member:
  assumes "counts_ok dims c"
  shows "(k, n) \<in> set c \<longleftrightarrow> tally c k = n \<and> 0 < n"
proof
  assume "(k, n) \<in> set c"
  with assms show "tally c k = n \<and> 0 < n" by (auto simp: tally_def counts_ok_def)
next
  assume "tally c k = n \<and> 0 < n"
  then have "map_of c k = Some n" by (cases "map_of c k") (auto simp: tally_def)
  then show "(k, n) \<in> set c" by (rule map_of_SomeD)
qed

lemma dimensions_distinct: "map_of DIMENSIONS_BY_DOMAIN domain = Some dims \<Longrightarrow> distinct dims"
  by (auto simp: DIMENSIONS_BY_DOMAIN_def split: if_splits)

lemma count_to_row_inj: "inj isof \<Longrightarrow> inj (count_to_row isof)"
  by (auto simp: inj_def count_to_row_def)

subsection \<open>Aggregate rows belong to their batch\<close>

definition aggregate_table :: "string \<Rightarrow> string option" where
  "aggregate_table domain =
     (case map_of ORIGIN_COLUMNS domain of
        Some (table, _) \<Rightarrow> Some table
      | None \<Rightarrow> map_option fst (map_of AGGREGATE_TABLES domain))"

lemma aggregate_tables_ok: "aggregate_table domain = Some table \<Longrightarrow> table \<noteq> PUBLICATION_TABLE"
  by (auto simp: aggregate_table_def ORIGIN_COLUMNS_def AGGREGATE_TABLES_def PUBLICATION_TABLE_def split: if_splits)

lemma map_of_zip_middle:
  assumes "length ms = length cols" and "k \<notin> set cols"
  shows "map_of (zip (cols @ ks) (ms @ vs)) k = map_of (zip ks vs) k"
  using assms by (induction ms cols rule: list_induct2) auto

lemma projection_values_ok:
  assumes "projection_values env cols batch uuid r = Inr vs" and "''service_id'' \<notin> set cols" and "''batch_id'' \<notin> set cols"
  shows "batch_row_ok batch uuid ([''service_id'', ''bucket_start''] @ cols @ [''batch_id'', ''publication_state'']) vs"
proof -
  from assms(1) obtain t ms where vs: "vs = [CStr (hb_service_id batch), CTime t] @ map CRaw ms @ [CStr uuid, CStr ''visible'']"
      and ms: "map_result (json_item r) cols = Inr ms"
    by (auto simp: projection_values_def ebind_Inr_iff)
  from map_result_length [OF ms] have len: "length (map CRaw ms) = length cols" by simp
  show ?thesis
    using map_of_zip_middle [OF len assms(3), of "[''batch_id'', ''publication_state'']" "[CStr uuid, CStr ''visible'']"] len
    by (simp add: vs batch_row_ok_def ch_get_def)
qed

lemma origin_columns_ok:
  "map_of ORIGIN_COLUMNS domain = Some (table, cols) \<Longrightarrow> ''service_id'' \<notin> set cols \<and> ''batch_id'' \<notin> set cols"
  by (auto simp: ORIGIN_COLUMNS_def split: if_splits)

lemma aggregate_values_ok:
  assumes "aggregate_values env batch uuid r = Inr vs" and "metric_col \<notin> {''service_id'', ''batch_id''}"
  shows "batch_row_ok batch uuid
    [''service_id'', ''bucket_start'', ''dimension'', ''value'', metric_col, ''batch_id'', ''publication_state''] vs"
  using assms by (auto simp: aggregate_values_def ebind_Inr_iff batch_row_ok_def ch_get_def)

lemma aggregate_columns_ok: "map_of AGGREGATE_TABLES domain = Some (table, col) \<Longrightarrow> col \<notin> {''service_id'', ''batch_id''}"
  by (auto simp: AGGREGATE_TABLES_def split: if_splits)

text \<open>An insert is refused before anything is sent, or it is an attempt with rows of the batch.\<close>

lemma insert_aggregate_run:
  assumes "insert_aggregate env cl now batch st = (r, st')"
  obtains (refused) "\<not> is_ok r" "st' = st"
    | (attempt) table columns mapped where "aggregate_table (hb_domain batch) = Some table"
        "list_all (batch_row_ok batch (batch_uuid env batch) columns) mapped"
        "publish_table_rows env cl now table columns mapped batch (batch_uuid env batch) st = (r, st')"
proof (cases "(map_of AGGREGATE_TABLES (hb_domain batch) = None \<and> map_of ORIGIN_COLUMNS (hb_domain batch) = None)
    \<or> hb_rows batch = []")
  case True
  with assms show thesis by (intro refused) (auto simp: insert_aggregate_def split: if_splits)
next
  case False
  let ?u = "batch_uuid env batch"
  from False assms have run: "insert_aggregate_locked env cl now batch ?u st = (r, st')"
    by (auto simp: insert_aggregate_def split: if_splits)
  show thesis
  proof (cases "map_of ORIGIN_COLUMNS (hb_domain batch)")
    case (Some tc)
    obtain table cols where tc: "tc = (table, cols)" by (cases tc)
    show thesis
    proof (cases "map_result (projection_values env cols batch ?u) (hb_rows batch)")
      case (Inl e)
      with run Some tc show thesis by (intro refused) (auto simp: insert_aggregate_locked_def eff_bind_def)
    next
      case (Inr mapped)
      from Inr have "list_all (batch_row_ok batch ?u ([''service_id'', ''bucket_start''] @ cols @ [''batch_id'', ''publication_state''])) mapped"
        by (rule map_result_all) (use origin_columns_ok [of "hb_domain batch" table cols] Some tc in \<open>blast intro: projection_values_ok\<close>)
      with run Some tc Inr show thesis
        by (intro attempt [of table _ mapped]) (auto simp: insert_aggregate_locked_def eff_bind_def aggregate_table_def)
    qed
  next
    case None
    with False obtain table col where tc: "map_of AGGREGATE_TABLES (hb_domain batch) = Some (table, col)" by auto
    show thesis
    proof (cases "map_result (aggregate_values env batch ?u) (hb_rows batch)")
      case (Inl e)
      with run None tc show thesis by (intro refused) (auto simp: insert_aggregate_locked_def eff_bind_def)
    next
      case (Inr mapped)
      from Inr have "list_all (batch_row_ok batch ?u
          [''service_id'', ''bucket_start'', ''dimension'', ''value'', col, ''batch_id'', ''publication_state'']) mapped"
        by (rule map_result_all) (use aggregate_columns_ok [OF tc] in \<open>blast intro: aggregate_values_ok\<close>)
      with run None tc Inr show thesis
        by (intro attempt [of table _ mapped]) (auto simp: insert_aggregate_locked_def eff_bind_def aggregate_table_def)
    qed
  qed
qed

subsection \<open>Properties\<close>

text \<open>
  C21. The minute aggregates of a batch are exact. There is at most one row per dimension, value and
  minute, and its count is the number of events of the batch with that value in that minute; a
  dimension and value that occur have a row, whatever the order of the events.
\<close>

theorem dimension_counts_exact:
  assumes "compute_dimension_counts env isof domain rows = Inr out" and "inj isof"
    and "map_of DIMENSIONS_BY_DOMAIN domain = Some dims"
  shows "distinct out
    \<and> (\<forall>d v b n. count_to_row isof ((d, v, b), n) \<in> set out \<longleftrightarrow>
          d \<in> set dims \<and> n = int (occurrences env d v b rows) \<and> 0 < n)"
proof -
  from assms(1,3) obtain c where c: "count_rows_into env dims rows [] = Inr c" and out: "out = map (count_to_row isof) c"
    by (auto simp: compute_dimension_counts_def ebind_Inr_iff)
  from count_rows_spec [OF c dimensions_distinct [OF assms(3)]] have ok: "counts_ok dims c"
    and spec: "\<And>d v b. tally c (d, v, b) = (if d \<in> set dims then int (occurrences env d v b rows) else 0)"
    by (auto simp: counts_ok_def tally_def)
  have "distinct c" using ok by (auto simp: counts_ok_def distinct_map)
  then have "distinct out" unfolding out using count_to_row_inj [OF assms(2)] by (simp add: distinct_map inj_on_subset [OF _ subset_UNIV])
  moreover have "count_to_row isof ((d, v, b), n) \<in> set out \<longleftrightarrow>
      d \<in> set dims \<and> n = int (occurrences env d v b rows) \<and> 0 < n" for d v b n
  proof -
    have "count_to_row isof ((d, v, b), n) \<in> set out \<longleftrightarrow> ((d, v, b), n) \<in> set c"
      unfolding out using count_to_row_inj [OF assms(2)] by (auto simp: inj_image_mem_iff)
    also have "\<dots> \<longleftrightarrow> tally c (d, v, b) = n \<and> 0 < n" by (rule tally_member [OF ok])
    finally show ?thesis using spec [of d v b] by auto
  qed
  ultimately show ?thesis by blast
qed

text \<open>A sample with two events of one minute, one of the next and one without a time.\<close>

definition example_iso_text :: "timestamp \<Rightarrow> string" where
  "example_iso_text t = show_int t"

definition example_count_env :: batch_env where
  "example_count_env = example_batch_env\<lparr>be_fromiso := (\<lambda>s. if s = ''t1'' then Inr 60000001 else if s = ''t2'' then Inr 61000000
     else if s = ''t3'' then Inr 120000000 else Inl (ValueError ''Invalid isoformat string'')),
     be_str := (\<lambda>v. case v of JStr s \<Rightarrow> s | _ \<Rightarrow> [])\<rparr>"

definition example_vital :: "string \<Rightarrow> string \<Rightarrow> row" where
  "example_vital t m = [(''timestamp'', JStr t), (''metric_name'', JStr m)]"

definition example_vitals :: "row list" where
  "example_vitals = [example_vital ''t1'' ''LCP'', example_vital ''t3'' ''LCP'', example_vital ''t2'' ''LCP'', example_vital ''now'' ''LCP'']"

theorem dimension_counts_exact_witness:
  "\<exists>out. compute_dimension_counts example_count_env example_iso_text ''rum_vitals'' example_vitals = Inr out
     \<and> count_to_row example_iso_text ((''metric_name'', ''LCP'', 60000000), 2) \<in> set out
     \<and> count_to_row example_iso_text ((''metric_name'', ''LCP'', 60000000), 1) \<notin> set out"
proof -
  define out where "out = map (count_to_row example_iso_text)
    [((''metric_name'', ''LCP'', 60000000), 2), ((''metric_name'', ''LCP'', 120000000), 1)]"
  have "count_rows_into example_count_env [''metric_name''] example_vitals [] =
      Inr [((''metric_name'', ''LCP'', 60000000), 2), ((''metric_name'', ''LCP'', 120000000), 1)]" by code_simp
  then have run: "compute_dimension_counts example_count_env example_iso_text ''rum_vitals'' example_vitals = Inr out"
    by (simp add: out_def compute_dimension_counts_def DIMENSIONS_BY_DOMAIN_def)
  have "inj example_iso_text" by (auto simp: inj_def example_iso_text_def show_int_inj)
  note exact = dimension_counts_exact [OF run this, of "[''metric_name'']"]
  have "occurrences example_count_env ''metric_name'' ''LCP'' 60000000 example_vitals = 2" by code_simp
  with exact run show ?thesis by (auto simp: DIMENSIONS_BY_DOMAIN_def)
qed

text \<open>
  A failed insert of aggregates is never visible in part. Whatever request fails, after an attempt on
  an aggregate batch that was not visible either the attempt has raised and the batch is still not
  visible, or it is visible and its table holds exactly as many rows as the batch has.
\<close>

theorem aggregate_publication_exact:
  assumes "clickhouse_service cl view" and "aggregate_table (hb_domain batch) = Some table"
    and "\<not> is_visible (publication_of (view st) batch (batch_uuid env batch))"
    and "insert_aggregate env cl now batch st = (r, st')"
  shows "\<not> is_ok r \<and> \<not> is_visible (publication_of (view st') batch (batch_uuid env batch))
    \<or> is_visible (publication_of (view st') batch (batch_uuid env batch))
       \<and> batch_count (view st') table (hb_service_id batch) (batch_uuid env batch) = length (hb_rows batch)"
  using assms(4)
proof (cases rule: insert_aggregate_run)
  case refused
  with assms(3) show ?thesis by simp
next
  case (attempt t columns mapped)
  with assms(2) have "t = table" by simp
  with clickhouse_service.publish_table_rows_outcome [OF assms(1) attempt(3,2) _ assms(3)]
      aggregate_tables_ok [OF attempt(1)] show ?thesis
    by (auto simp: attempt_outcome_def is_visible_def)
qed

definition example_aggregates :: high_scale_batch where
  "example_aggregates = \<lparr>hb_batch_id = ''a1'', hb_service_id = ''svc'', hb_domain = ''rum_vitals_aggregate'', hb_generation = ''1'',
     hb_rows = [[(''dimension'', JStr ''metric_name''), (''value'', JStr ''LCP''), (''bucket_start'', JStr ''t3''), (''count'', JInt 1)]]\<rparr>"

theorem aggregate_publication_exact_witness:
  "let st' = snd (insert_aggregate example_count_env memory_clickhouse 5 example_aggregates (\<lambda>_. []));
       u = batch_uuid example_count_env example_aggregates
   in is_visible (publication_of st' example_aggregates u) \<and> batch_count st' ''rum_vitals_aggregates'' ''svc'' u = 1"
proof -
  let ?run = "insert_aggregate example_count_env memory_clickhouse 5 example_aggregates (\<lambda>_. [])"
  have "is_ok (fst ?run)" by code_simp
  moreover have "\<not> is_visible (publication_of (\<lambda>_. []) example_aggregates (batch_uuid example_count_env example_aggregates))"
    by (simp add: is_visible_def publication_of_def final_publication_def)
  moreover have "aggregate_table (hb_domain example_aggregates) = Some ''rum_vitals_aggregates''" by code_simp
  ultimately show ?thesis
    using aggregate_publication_exact [OF mem_ch.clickhouse_service_axioms _ _ prod.collapse [symmetric],
        of example_aggregates "''rum_vitals_aggregates''" "\<lambda>_. []" example_count_env 5]
    by (auto simp: example_aggregates_def Let_def)
qed

end
