(* ===== verification/Archive_Publication.thy ===== *)
theory Archive_Publication
  imports Manifests Json_Text
begin

text \<open>
  Verified archive publication against an object store
  (\<open>backend/high_scale/archive/manifests.py\<close>: \<open>ObjectStore\<close>, \<open>InMemoryObjectStore\<close>,
  \<open>S3ObjectStore\<close>, \<open>ArchivePublication\<close>, \<open>_artifact_key\<close>).

  An object store is a record of four effects. The locale \<open>object_store\<close> states what the
  publication relies on: a call that returns did what it says, a call that raises either did
  it or did nothing. The locale \<open>reliable_object_store\<close> adds that no call raises. The
  in-memory store is interpreted as a reliable store; the S3 adapter is an object store for
  every client that satisfies \<open>s3_contract\<close>. The S3 client is a parameter.
\<close>

subsection \<open>Object stores\<close>

record ('s, 'b) object_store_ops =
  os_put :: "string \<Rightarrow> 'b \<Rightarrow> ('s, unit) eff"
  os_get :: "string \<Rightarrow> ('s, 'b) eff"
  os_exists :: "string \<Rightarrow> ('s, bool) eff"
  os_delete :: "string \<Rightarrow> ('s, unit) eff"

datatype publication_state = ARTIFACT_VERIFIED_P | MANIFEST_PREPARED_P | MANIFEST_COMMITTED_P

record publication_result =
  pr_manifest_id :: string
  pr_state :: publication_state
  pr_artifact_key :: string
  pr_manifest_key :: string
  pr_commit_key :: string

type_synonym 'b objects = "string \<rightharpoonup> 'b"

definition in_memory_object_store :: "('b objects, 'b) object_store_ops" where
  "in_memory_object_store =
     \<lparr>os_put = (\<lambda>key payload objects. (Inr (), objects(key \<mapsto> payload))),
      os_get = (\<lambda>key objects. (case objects key of None \<Rightarrow> Inl (KeyError key) | Some p \<Rightarrow> Inr p, objects)),
      os_exists = (\<lambda>key objects. (Inr (objects key \<noteq> None), objects)),
      os_delete = (\<lambda>key objects. (Inr (), objects(key := None)))\<rparr>"

text \<open>
  The calls the S3 adapter makes on its client. A raised \<open>ClientError\<close> is an
  \<open>OtherError\<close> that carries the error code, as \<open>_is_not_found\<close> reads it.
\<close>

record ('s, 'b) s3_client =
  put_object :: "string \<Rightarrow> string \<Rightarrow> 'b \<Rightarrow> ('s, unit) eff"
  get_object :: "string \<Rightarrow> string \<Rightarrow> ('s, 'b) eff"
  head_object :: "string \<Rightarrow> string \<Rightarrow> ('s, unit) eff"
  delete_object :: "string \<Rightarrow> string \<Rightarrow> ('s, unit) eff"

definition is_not_found :: "py_error \<Rightarrow> bool" where
  "is_not_found e = (case e of OtherError code \<Rightarrow> code \<in> {''404'', ''NoSuchKey'', ''NotFound''} | _ \<Rightarrow> False)"

definition s3_key :: "string \<Rightarrow> string \<Rightarrow> string" where
  "s3_key prefix key =
     (let normalized = strip_slashes key in if prefix \<noteq> [] then prefix @ ''/'' @ normalized else normalized)"

definition s3_exists :: "('s, 'b) s3_client \<Rightarrow> string \<Rightarrow> string \<Rightarrow> string \<Rightarrow> ('s, bool) eff" where
  "s3_exists client bucket prefix key s =
     (case head_object client bucket (s3_key prefix key) s of
        (Inr _, s') \<Rightarrow> (Inr True, s')
      | (Inl e, s') \<Rightarrow> (if is_not_found e then Inr False else Inl e, s'))"

definition s3_object_store :: "('s, 'b) s3_client \<Rightarrow> string \<Rightarrow> string \<Rightarrow> ('s, 'b) object_store_ops result" where
  "s3_object_store client bucket raw_prefix =
     (if bucket = [] then Inl (ValueError ''bucket is required'')
      else let prefix = strip_slashes raw_prefix in Inr
        \<lparr>os_put = (\<lambda>key. put_object client bucket (s3_key prefix key)),
         os_get = (\<lambda>key. get_object client bucket (s3_key prefix key)),
         os_exists = s3_exists client bucket prefix,
         os_delete = (\<lambda>key. delete_object client bucket (s3_key prefix key))\<rparr>)"

subsection \<open>Artifact keys\<close>

text \<open>
  \<open>urllib.parse.urlparse\<close> as far as \<open>_artifact_key\<close> looks at it: scheme, network location and
  path. Control characters and spaces in front are dropped, tabs and line breaks removed, an
  unbalanced bracket in the network location raises.
\<close>

definition find_char :: "(char \<Rightarrow> bool) \<Rightarrow> string \<Rightarrow> string \<times> string" where
  "find_char p s = (takeWhile (\<lambda>c. \<not> p c) s, dropWhile (\<lambda>c. \<not> p c) s)"

definition scheme_char :: "char \<Rightarrow> bool" where
  "scheme_char c = (let n = of_char c :: nat in
     (48 \<le> n \<and> n \<le> 57) \<or> (65 \<le> n \<and> n \<le> 90) \<or> (97 \<le> n \<and> n \<le> 122) \<or> c \<in> {CHR ''+'', CHR ''-'', CHR ''.''})"

definition is_alpha :: "char \<Rightarrow> bool" where
  "is_alpha c = (let n = of_char c :: nat in (65 \<le> n \<and> n \<le> 90) \<or> (97 \<le> n \<and> n \<le> 122))"

definition split_scheme :: "string \<Rightarrow> string \<times> string" where
  "split_scheme url =
     (let (s, rest) = find_char (\<lambda>c. c = CHR '':'') url
      in if rest \<noteq> [] \<and> s \<noteq> [] \<and> is_alpha (hd s) \<and> list_all scheme_char s
         then (py_lower s, tl rest) else ([], url))"

definition split_netloc :: "string \<Rightarrow> string \<times> string" where
  "split_netloc url =
     (if startswith url ''//'' then find_char (\<lambda>c. c \<in> {CHR ''/'', CHR ''?'', CHR ''#''}) (drop 2 url)
      else ([], url))"

definition USES_PARAMS :: "string list" where
  "USES_PARAMS = [[], ''ftp'', ''hdl'', ''prospero'', ''http'', ''https'', ''shttp'', ''rtsp'', ''rtsps'',
     ''sip'', ''sips'', ''mms'', ''sftp'', ''tel'']"

text \<open>\<open>_splitparams\<close>: the parameters start at the first semicolon of the last path segment.\<close>

definition split_params :: "string \<Rightarrow> string" where
  "split_params path =
     (let last_segment = rev (takeWhile (\<lambda>c. c \<noteq> CHR ''/'') (rev path));
          directory = take (length path - length last_segment) path
      in directory @ takeWhile (\<lambda>c. c \<noteq> CHR '';'') last_segment)"

definition urlparse :: "string \<Rightarrow> (string \<times> string \<times> string) result" where
  "urlparse raw =
     (let url = filter (\<lambda>c. c \<notin> {CHR 0x09, CHR 0x0A, CHR 0x0D})
                  (dropWhile (\<lambda>c. (of_char c :: nat) \<le> 32) raw);
          (scheme, rest) = split_scheme url;
          (netloc, rest) = split_netloc rest;
          path = fst (find_char (\<lambda>c. c = CHR ''?'') (fst (find_char (\<lambda>c. c = CHR ''#'') rest)));
          path = (if scheme \<in> set USES_PARAMS then split_params path else path)
      in if (CHR ''['' \<in> set netloc) \<noteq> (CHR '']'' \<in> set netloc) then Inl (ValueError ''Invalid IPv6 URL'')
         else Inr (scheme, netloc, path))"

definition artifact_key :: "string \<Rightarrow> string result" where
  "artifact_key uri =
     ebind (urlparse uri) (\<lambda>(scheme, netloc, path).
       if scheme \<in> {''s3'', ''https''} then
         (let key = lstrip_chars (\<lambda>c. c = CHR ''/'') path
          in Inr (if scheme = ''s3'' \<and> netloc \<noteq> [] \<and> key \<noteq> [] then netloc @ ''/'' @ key
                  else if netloc \<noteq> [] then netloc else key))
       else Inr (lstrip_chars (\<lambda>c. c = CHR ''/'') (removeprefix uri ''file://'')))"

subsection \<open>Publication\<close>

text \<open>The encoders: JSON, SHA-256 and datetime text.\<close>

record 'b archive_codec =
  ac_dumps :: "json \<Rightarrow> 'b"
  ac_loads :: "'b \<Rightarrow> json result"
  ac_checksum :: "'b \<Rightarrow> string"
  ac_size :: "'b \<Rightarrow> int"
  ac_isoformat :: "timestamp \<Rightarrow> string"
  ac_fromisoformat :: "string \<Rightarrow> timestamp result"

definition manifest_key :: "string \<Rightarrow> string" where
  "manifest_key manifest_id = ''archive/manifests/'' @ manifest_id @ ''.json''"

definition commit_key :: "string \<Rightarrow> string" where
  "commit_key manifest_id = ''archive/manifests/'' @ manifest_id @ ''.commit''"

definition put_verified ::
  "('s, 'b) object_store_ops \<Rightarrow> string \<Rightarrow> 'b \<Rightarrow> string \<Rightarrow> ('s, unit) eff" where
  "put_verified store key payload label =
     eff_bind (os_put store key payload) (\<lambda>_.
     eff_bind (os_get store key) (\<lambda>stored.
     eff_lift (ensure (stored = payload) (ValueError (label @ '' verification failed after upload'')))))"

definition expire :: "('s, 'b) object_store_ops \<Rightarrow> archive_manifest \<Rightarrow> ('s, unit) eff" where
  "expire store m =
     eff_bind (eff_lift (artifact_key (art_uri (am_artifact m)))) (\<lambda>akey.
     eff_bind (os_delete store (commit_key (am_manifest_id m))) (\<lambda>_.
     eff_bind (os_delete store (manifest_key (am_manifest_id m))) (\<lambda>_.
     os_delete store akey)))"

text \<open>The body of the \<open>try\<close> block of \<open>_read_verified_artifact\<close>, and what it catches.\<close>

definition read_verified_body ::
  "('s, 'b) object_store_ops \<Rightarrow> 'b archive_codec \<Rightarrow> string \<Rightarrow> ('s, 'b option) eff" where
  "read_verified_body store codec manifest_id =
     eff_bind (os_get store (manifest_key manifest_id)) (\<lambda>manifest_payload.
     eff_bind (os_get store (commit_key manifest_id)) (\<lambda>commit_payload.
     eff_bind (eff_lift (ac_loads codec commit_payload)) (\<lambda>commit_doc.
     eff_bind (eff_lift (ebind (ac_loads codec manifest_payload)
                           (manifest_from_json (ac_fromisoformat codec)))) (\<lambda>manifest.
     eff_bind (eff_lift (validate_manifest manifest)) (\<lambda>_.
     eff_bind (eff_lift (as_obj commit_doc)) (\<lambda>commit.
       if row_get commit ''manifest_id'' \<noteq> JStr manifest_id
          \<or> row_get commit ''manifest_checksum'' \<noteq> JStr (ac_checksum codec manifest_payload)
          \<or> row_get commit ''artifact_checksum'' \<noteq> JStr (art_checksum (am_artifact manifest))
       then eff_return None
       else
         eff_bind (eff_lift (artifact_key (art_uri (am_artifact manifest)))) (\<lambda>akey.
         eff_bind (os_get store akey) (\<lambda>artifact.
           if ac_checksum codec artifact = art_checksum (am_artifact manifest)
              \<and> ac_size codec artifact = art_size_bytes (am_artifact manifest)
           then eff_return (Some artifact)
           else eff_return None))))))))"

definition caught :: "py_error \<Rightarrow> bool" where
  "caught e = (case e of KeyError _ \<Rightarrow> True | TypeError _ \<Rightarrow> True | ValueError _ \<Rightarrow> True | _ \<Rightarrow> False)"

definition catch_none :: "('s, 'a option) eff \<Rightarrow> ('s, 'a option) eff" where
  "catch_none m s = (case m s of (Inl e, s') \<Rightarrow> (if caught e then Inr None else Inl e, s') | r \<Rightarrow> r)"

definition read_verified_artifact ::
  "('s, 'b) object_store_ops \<Rightarrow> 'b archive_codec \<Rightarrow> string \<Rightarrow> ('s, 'b option) eff" where
  "read_verified_artifact store codec manifest_id =
     eff_bind (os_exists store (manifest_key manifest_id)) (\<lambda>has_manifest.
       if \<not> has_manifest then eff_return None
       else eff_bind (os_exists store (commit_key manifest_id)) (\<lambda>has_commit.
         if \<not> has_commit then eff_return None
         else catch_none (read_verified_body store codec manifest_id)))"

definition is_replayable :: "('s, 'b) object_store_ops \<Rightarrow> 'b archive_codec \<Rightarrow> string \<Rightarrow> ('s, bool) eff" where
  "is_replayable store codec manifest_id =
     eff_bind (read_verified_artifact store codec manifest_id) (\<lambda>r. eff_return (r \<noteq> None))"

definition read_artifact :: "('s, 'b) object_store_ops \<Rightarrow> 'b archive_codec \<Rightarrow> archive_manifest \<Rightarrow> ('s, 'b) eff" where
  "read_artifact store codec m =
     eff_bind (read_verified_artifact store codec (am_manifest_id m)) (\<lambda>r.
       case r of None \<Rightarrow> eff_raise (ValueError ''archive manifest is not replayable'')
       | Some a \<Rightarrow> eff_return a)"

definition publication_state_of ::
  "('s, 'b) object_store_ops \<Rightarrow> 'b archive_codec \<Rightarrow> string \<Rightarrow> ('s, publication_state option) eff" where
  "publication_state_of store codec manifest_id =
     eff_bind (os_exists store (commit_key manifest_id)) (\<lambda>committed.
       if \<not> committed then eff_return None
       else eff_bind (is_replayable store codec manifest_id) (\<lambda>ok.
         eff_return (if ok then Some MANIFEST_COMMITTED_P else None)))"

definition commit_json :: "'b archive_codec \<Rightarrow> archive_manifest \<Rightarrow> json" where
  "commit_json codec m =
     JObj [(''artifact_checksum'', JStr (art_checksum (am_artifact m))),
           (''manifest_checksum'', JStr (ac_checksum codec (ac_dumps codec (manifest_json (ac_isoformat codec) m)))),
           (''manifest_id'', JStr (am_manifest_id m))]"

text \<open>The three writes of \<open>publish\<close>, the commit marker last, and the final check.\<close>

definition publish_objects ::
  "('s, 'b) object_store_ops \<Rightarrow> 'b archive_codec \<Rightarrow> archive_manifest \<Rightarrow> 'b \<Rightarrow> string \<Rightarrow> ('s, unit) eff" where
  "publish_objects store codec m artifact akey =
     eff_bind (put_verified store akey artifact ''artifact'') (\<lambda>_.
     eff_bind (put_verified store (manifest_key (am_manifest_id m))
                 (ac_dumps codec (manifest_json (ac_isoformat codec) m)) ''manifest'') (\<lambda>_.
     eff_bind (os_put store (commit_key (am_manifest_id m)) (ac_dumps codec (commit_json codec m))) (\<lambda>_.
     eff_bind (is_replayable store codec (am_manifest_id m)) (\<lambda>ok.
     eff_lift (ensure ok (ValueError ''manifest commit marker verification failed''))))))"

definition publish ::
  "('s, 'b) object_store_ops \<Rightarrow> 'b archive_codec \<Rightarrow> archive_manifest \<Rightarrow> 'b \<Rightarrow> ('s, publication_result) eff" where
  "publish store codec m artifact =
     eff_bind (eff_lift (validate_manifest m)) (\<lambda>_.
     eff_bind (eff_lift (artifact_key (art_uri (am_artifact m)))) (\<lambda>akey.
     eff_bind (eff_lift (ensure (ac_checksum codec artifact = art_checksum (am_artifact m))
                 (ValueError ''artifact checksum does not match manifest''))) (\<lambda>_.
     eff_bind (eff_lift (ensure (ac_size codec artifact = art_size_bytes (am_artifact m))
                 (ValueError ''artifact size does not match manifest''))) (\<lambda>_.
     eff_bind (is_replayable store codec (am_manifest_id m)) (\<lambda>replayable.
     eff_bind (if replayable then eff_return () else publish_objects store codec m artifact akey) (\<lambda>_.
     eff_return \<lparr>pr_manifest_id = am_manifest_id m, pr_state = MANIFEST_COMMITTED_P, pr_artifact_key = akey,
                 pr_manifest_key = manifest_key (am_manifest_id m),
                 pr_commit_key = commit_key (am_manifest_id m)\<rparr>))))))"

definition publishable :: "'b archive_codec \<Rightarrow> archive_manifest \<Rightarrow> 'b \<Rightarrow> string \<Rightarrow> bool" where
  "publishable codec m artifact k \<longleftrightarrow>
     validate_manifest m = Inr () \<and> artifact_key (art_uri (am_artifact m)) = Inr k
     \<and> ac_checksum codec artifact = art_checksum (am_artifact m)
     \<and> ac_size codec artifact = art_size_bytes (am_artifact m)"

lemma publish_refused:
  assumes "\<nexists>k. publishable codec m artifact k"
  shows "\<exists>e. publish store codec m artifact s = (Inl e, s)"
  using assms unfolding publish_def publishable_def
  by (auto simp: eff_bind_def ensure_def split: sum.splits)

lemma publish_run:
  assumes "publishable codec m artifact k"
  shows "publish store codec m artifact s =
    eff_bind (is_replayable store codec (am_manifest_id m)) (\<lambda>replayable.
    eff_bind (if replayable then eff_return () else publish_objects store codec m artifact k) (\<lambda>_.
    eff_return \<lparr>pr_manifest_id = am_manifest_id m, pr_state = MANIFEST_COMMITTED_P, pr_artifact_key = k,
                pr_manifest_key = manifest_key (am_manifest_id m),
                pr_commit_key = commit_key (am_manifest_id m)\<rparr>)) s"
  using assms unfolding publish_def publishable_def by (simp add: eff_bind_def)

subsection \<open>What a store holds and what can be replayed\<close>

text \<open>The artifact a reader accepts for a manifest id, in terms of the stored objects alone.\<close>

definition replays :: "'b archive_codec \<Rightarrow> 'b objects \<Rightarrow> string \<Rightarrow> 'b \<Rightarrow> bool" where
  "replays codec objects mid a \<longleftrightarrow>
     (\<exists>payload commit_payload commit m akey.
        objects (manifest_key mid) = Some payload \<and> objects (commit_key mid) = Some commit_payload
        \<and> ac_loads codec commit_payload = Inr (JObj commit)
        \<and> ebind (ac_loads codec payload) (manifest_from_json (ac_fromisoformat codec)) = Inr m
        \<and> validate_manifest m = Inr ()
        \<and> row_get commit ''manifest_id'' = JStr mid
        \<and> row_get commit ''manifest_checksum'' = JStr (ac_checksum codec payload)
        \<and> row_get commit ''artifact_checksum'' = JStr (art_checksum (am_artifact m))
        \<and> artifact_key (art_uri (am_artifact m)) = Inr akey \<and> objects akey = Some a
        \<and> ac_checksum codec a = art_checksum (am_artifact m) \<and> ac_size codec a = art_size_bytes (am_artifact m))"

lemma replays_commit: "replays codec objects mid a \<Longrightarrow> objects (commit_key mid) \<noteq> None"
  by (auto simp: replays_def)

text \<open>Writing or removing a key of a store whose keys are compared after normalisation.\<close>

definition written :: "(string \<Rightarrow> string) \<Rightarrow> string \<Rightarrow> 'b option \<Rightarrow> 'b objects \<Rightarrow> 'b objects" where
  "written nk k v objects = (\<lambda>k'. if nk k' = nk k then v else objects k')"

lemma written_same [simp]: "written nk k v objects k = v"
  by (simp add: written_def)

lemma written_other: "nk k' \<noteq> nk k \<Longrightarrow> written nk k v objects k' = objects k'"
  by (simp add: written_def)

lemma catch_none_Some: "catch_none m s = (Inr (Some a), s') \<longleftrightarrow> m s = (Inr (Some a), s')"
  by (auto simp: catch_none_def split: prod.splits sum.splits if_splits)

locale object_store =
  fixes store :: "('s, 'b) object_store_ops"
    and content :: "'s \<Rightarrow> 'b objects"
    and nk :: "string \<Rightarrow> string"
  assumes put_ok: "os_put store k p s = (Inr u, s') \<Longrightarrow> content s' = written nk k (Some p) (content s)"
    and put_raises: "os_put store k p s = (Inl e, s') \<Longrightarrow>
        content s' = content s \<or> content s' = written nk k (Some p) (content s)"
    and get_reads: "os_get store k s = (r, s') \<Longrightarrow> content s' = content s"
    and get_ok: "os_get store k s = (Inr p, s') \<Longrightarrow> content s k = Some p"
    and exists_reads: "os_exists store k s = (found, s') \<Longrightarrow> content s' = content s"
    and exists_ok: "os_exists store k s = (Inr b, s') \<Longrightarrow> b \<longleftrightarrow> content s k \<noteq> None"
    and delete_ok: "os_delete store k s = (Inr u, s') \<Longrightarrow> content s' = written nk k None (content s)"
    and delete_raises: "os_delete store k s = (Inl e, s') \<Longrightarrow>
        content s' = content s \<or> content s' = written nk k None (content s)"
    and manifest_commit_apart: "nk (manifest_key mid) \<noteq> nk (commit_key mid)"
begin

lemma put_cases:
  assumes "os_put store k p s = (r, s')"
  shows "content s' = content s \<and> \<not> is_ok r \<or> content s' = written nk k (Some p) (content s)"
  using assms by (cases r) (auto dest: put_ok put_raises)

lemma delete_cases:
  assumes "os_delete store k s = (r, s')"
  shows "content s' = content s \<and> \<not> is_ok r \<or> content s' = written nk k None (content s)"
  using assms by (cases r) (auto dest: delete_ok delete_raises)

lemma body_reads: "read_verified_body store codec mid s = (r, s') \<Longrightarrow> content s' = content s"
  unfolding read_verified_body_def eff_bind_def
  by (auto split: prod.splits sum.splits if_splits dest!: get_reads)

lemma read_verified_reads:
  "read_verified_artifact store codec mid s = (r, s') \<Longrightarrow> content s' = content s"
  unfolding read_verified_artifact_def eff_bind_def catch_none_def
  by (auto split: prod.splits sum.splits if_splits dest!: exists_reads body_reads)

lemma is_replayable_reads: "is_replayable store codec mid s = (r, s') \<Longrightarrow> content s' = content s"
  unfolding is_replayable_def eff_bind_def
  by (auto split: prod.splits sum.splits dest!: read_verified_reads)

lemma body_replays:
  assumes "read_verified_body store codec mid s = (Inr (Some a), s')"
  shows "replays codec (content s) mid a"
proof -
  from assms obtain payload s1 commit_payload s2 commit_doc m commit akey where
      g1: "os_get store (manifest_key mid) s = (Inr payload, s1)"
      and g2: "os_get store (commit_key mid) s1 = (Inr commit_payload, s2)"
      and l: "ac_loads codec commit_payload = Inr commit_doc" "as_obj commit_doc = Inr commit"
        "ebind (ac_loads codec payload) (manifest_from_json (ac_fromisoformat codec)) = Inr m"
        "validate_manifest m = Inr ()" "row_get commit ''manifest_id'' = JStr mid"
        "row_get commit ''manifest_checksum'' = JStr (ac_checksum codec payload)"
        "row_get commit ''artifact_checksum'' = JStr (art_checksum (am_artifact m))"
        "artifact_key (art_uri (am_artifact m)) = Inr akey"
      and g3: "os_get store akey s2 = (Inr a, s')"
      and c: "ac_checksum codec a = art_checksum (am_artifact m)"
        "ac_size codec a = art_size_bytes (am_artifact m)"
    unfolding read_verified_body_def
    by (auto simp: eff_bind_Inr_iff split: if_splits)
  have "commit_doc = JObj commit"
    using l(2) by (auto simp: as_obj_def split: json.splits)
  moreover have "content s1 = content s" "content s2 = content s"
    using get_reads [OF g1] get_reads [OF g2] by simp_all
  ultimately show ?thesis unfolding replays_def
    using get_ok [OF g1] get_ok [OF g2] get_ok [OF g3] l c by auto
qed

lemma read_verified_replays:
  assumes "read_verified_artifact store codec mid s = (Inr (Some a), s')"
  shows "replays codec (content s) mid a"
proof -
  from assms obtain s1 s2 where
      e1: "os_exists store (manifest_key mid) s = (Inr True, s1)"
      and e2: "os_exists store (commit_key mid) s1 = (Inr True, s2)"
      and body: "read_verified_body store codec mid s2 = (Inr (Some a), s')"
    unfolding read_verified_artifact_def
    by (auto simp: eff_bind_Inr_iff catch_none_Some split: if_splits)
  have "content s2 = content s" using exists_reads [OF e1] exists_reads [OF e2] by simp
  with body_replays [OF body] show ?thesis by simp
qed

lemma is_replayable_True:
  assumes "is_replayable store codec mid s = (Inr True, s')"
  shows "\<exists>a. replays codec (content s) mid a"
  using assms by (auto simp: is_replayable_def eff_bind_Inr_iff dest: read_verified_replays)

text \<open>A publication that returns leaves something to replay.\<close>

lemma publish_returns_replayable:
  assumes "publish store codec m artifact s = (Inr r, s')"
  shows "\<exists>a. replays codec (content s') (am_manifest_id m) a"
proof -
  from assms obtain s1 where rep: "is_replayable store codec (am_manifest_id m) s1 = (Inr True, s')"
    unfolding publish_def publish_objects_def by (auto simp: eff_bind_Inr_iff split: if_splits)
  show ?thesis using is_replayable_True [OF rep] is_replayable_reads [OF rep] by simp
qed

text \<open>
  The order of the writes: when no commit marker was there, an interrupted publication leaves
  no marker, or has already written and verified artifact and manifest.
\<close>

lemma put_verified_cases:
  assumes "put_verified store k p label s = (r, s')"
  shows "content s' = written nk k (Some p) (content s) \<or> \<not> is_ok r \<and> content s' = content s"
  using assms unfolding put_verified_def eff_bind_def
  by (auto split: prod.splits sum.splits dest!: put_cases get_reads)

lemma publish_objects_cases:
  assumes "publish_objects store codec m artifact k s = (r, s')"
  defines "c1 \<equiv> written nk k (Some artifact) (content s)"
  defines "c2 \<equiv> written nk (manifest_key (am_manifest_id m))
      (Some (ac_dumps codec (manifest_json (ac_isoformat codec) m))) c1"
  defines "c3 \<equiv> written nk (commit_key (am_manifest_id m)) (Some (ac_dumps codec (commit_json codec m))) c2"
  shows "content s' \<in> {content s, c1, c2} \<and> \<not> is_ok r \<or> content s' = c3"
proof -
  obtain r1 s1 where p1: "put_verified store k artifact ''artifact'' s = (r1, s1)" by fastforce
  obtain r2 s2 where p2: "put_verified store (manifest_key (am_manifest_id m))
      (ac_dumps codec (manifest_json (ac_isoformat codec) m)) ''manifest'' s1 = (r2, s2)" by fastforce
  obtain r3 s3 where p3: "os_put store (commit_key (am_manifest_id m)) (ac_dumps codec (commit_json codec m)) s2
      = (r3, s3)" by fastforce
  obtain r4 s4 where p4: "is_replayable store codec (am_manifest_id m) s3 = (r4, s4)" by fastforce
  note steps = put_verified_cases [OF p1] put_verified_cases [OF p2] put_cases [OF p3] is_replayable_reads [OF p4]
  have run: "publish_objects store codec m artifact k s = (case r1 of Inl e \<Rightarrow> (Inl e, s1) | Inr _ \<Rightarrow>
      case r2 of Inl e \<Rightarrow> (Inl e, s2) | Inr _ \<Rightarrow> case r3 of Inl e \<Rightarrow> (Inl e, s3) | Inr _ \<Rightarrow>
      case r4 of Inl e \<Rightarrow> (Inl e, s4)
      | Inr ok \<Rightarrow> (ensure ok (ValueError ''manifest commit marker verification failed''), s4))"
    unfolding publish_objects_def eff_bind_def using p1 p2 p3 p4
    by (cases r1; cases r2; cases r3; cases r4) simp_all
  show ?thesis using run [unfolded assms(1)] steps unfolding c1_def c2_def c3_def
    by (cases r1; cases r2; cases r3; cases r4) auto
qed

lemma publish_cases:
  assumes "publish store codec m artifact s = (r, s')" and "content s (commit_key (am_manifest_id m)) = None"
  obtains (refused) "content s' = content s" "\<not> is_ok r"
    | (run) k s0 u where "publishable codec m artifact k" "content s0 = content s"
        "publish_objects store codec m artifact k s0 = (u, s')" "is_ok r = is_ok u"
proof (cases "\<exists>k. publishable codec m artifact k")
  case False
  with publish_refused [of codec m artifact store s] assms(1) show thesis by (intro refused) auto
next
  case True
  then obtain k where k: "publishable codec m artifact k" by blast
  obtain r0 s0 where rep: "is_replayable store codec (am_manifest_id m) s = (r0, s0)" by fastforce
  have "r0 \<noteq> Inr True"
    using rep assms(2) is_replayable_True replays_commit by metis
  then show thesis
    using assms(1) rep is_replayable_reads [OF rep] k refused run
    by (cases r0) (auto simp: publish_run [OF k] eff_bind_def split: prod.splits sum.splits)
qed

end

lemma replays_unique: "replays codec objects mid a \<Longrightarrow> replays codec objects mid b \<Longrightarrow> a = b"
  by (auto simp: replays_def)

lemma row_get_commit:
  "commit_json codec m = JObj c \<Longrightarrow> row_get c ''manifest_id'' = JStr (am_manifest_id m)"
  "commit_json codec m = JObj c \<Longrightarrow> row_get c ''artifact_checksum'' = JStr (art_checksum (am_artifact m))"
  "commit_json codec m = JObj c \<Longrightarrow> row_get c ''manifest_checksum'' =
     JStr (ac_checksum codec (ac_dumps codec (manifest_json (ac_isoformat codec) m)))"
  by (auto simp: commit_json_def row_get_def)

lemma canonical_commit_json: "canonical_json (commit_json codec m)"
  by (simp add: commit_json_def)

text \<open>Documented behaviour of \<open>datetime\<close>: \<open>fromisoformat\<close> reads what \<open>isoformat\<close> writes.\<close>

definition iso_roundtrip :: "'b archive_codec \<Rightarrow> bool" where
  "iso_roundtrip codec \<longleftrightarrow> (\<forall>t. ac_fromisoformat codec (ac_isoformat codec t) = Inr t)"

locale archive_store = object_store store content nk + json_codec "ac_dumps codec" "ac_loads codec"
  for store :: "('s, 'b) object_store_ops" and content :: "'s \<Rightarrow> 'b objects" and nk :: "string \<Rightarrow> string"
    and codec :: "'b archive_codec"
begin

lemma complete_replays:
  assumes "publishable codec m artifact k" and "self_contained m" and "iso_roundtrip codec"
    and "objects (manifest_key (am_manifest_id m)) = Some (ac_dumps codec (manifest_json (ac_isoformat codec) m))"
    and "objects (commit_key (am_manifest_id m)) = Some (ac_dumps codec (commit_json codec m))"
    and "objects k = Some artifact"
  shows "replays codec objects (am_manifest_id m) artifact"
proof -
  obtain c where c: "commit_json codec m = JObj c" by (simp add: commit_json_def)
  have "ac_loads codec (ac_dumps codec (JObj c)) = Inr (JObj c)"
    using loads_dumps [OF canonical_commit_json, of codec m] c by simp
  moreover have "ebind (ac_loads codec (ac_dumps codec (manifest_json (ac_isoformat codec) m)))
      (manifest_from_json (ac_fromisoformat codec)) = Inr m"
    using assms(2,3) by (simp add: loads_dumps canonical_manifest_json manifest_json_roundtrip iso_roundtrip_def)
  ultimately show ?thesis unfolding replays_def
    using assms row_get_commit [OF c] unfolding c publishable_def by auto
qed

text \<open>
  Commit last: a publication that starts without a commit marker ends without one, or with
  the whole archive in place.
\<close>

lemma publish_commit_last:
  assumes run: "publish store codec m artifact s = (r, s')"
    and fresh: "content s (commit_key (am_manifest_id m)) = None"
    and "self_contained m" and "iso_roundtrip codec"
    and key: "artifact_key (art_uri (am_artifact m)) = Inr k"
    and apart: "nk k \<noteq> nk (manifest_key (am_manifest_id m))" "nk k \<noteq> nk (commit_key (am_manifest_id m))"
  shows "content s' (commit_key (am_manifest_id m)) = None \<and> \<not> is_ok r
    \<or> replays codec (content s') (am_manifest_id m) artifact"
  using run fresh
proof (cases rule: publish_cases)
  case refused
  with fresh show ?thesis by simp
next
  case (run k' s0 u)
  with key have k: "publishable codec m artifact k" and [simp]: "k' = k"
    by (auto simp: publishable_def)
  note away = apart [symmetric] apart manifest_commit_apart manifest_commit_apart [symmetric]
  from publish_objects_cases [OF run(3)] show ?thesis
  proof
    assume "content s' \<in> {content s0, written nk k' (Some artifact) (content s0),
        written nk (manifest_key (am_manifest_id m)) (Some (ac_dumps codec (manifest_json (ac_isoformat codec) m)))
          (written nk k' (Some artifact) (content s0))} \<and> \<not> is_ok u"
    with fresh run(2,4) show ?thesis by (auto simp: written_other away)
  next
    assume c3: "content s' = written nk (commit_key (am_manifest_id m)) (Some (ac_dumps codec (commit_json codec m)))
        (written nk (manifest_key (am_manifest_id m)) (Some (ac_dumps codec (manifest_json (ac_isoformat codec) m)))
          (written nk k' (Some artifact) (content s0)))"
    have "replays codec (content s') (am_manifest_id m) artifact"
      by (rule complete_replays [OF k assms(3,4)]) (simp_all add: c3 written_other away)
    then show ?thesis by blast
  qed
qed

end

context object_store
begin

text \<open>Expiry: the marker goes first, so nothing replays once anything is gone; all goes when it returns.\<close>

lemma expire_cases:
  assumes "expire store m s = (r, s')"
  shows "content s' = content s \<and> \<not> is_ok r \<or> content s' (commit_key (am_manifest_id m)) = None"
proof (cases "artifact_key (art_uri (am_artifact m))")
  case (Inl e)
  with assms have "r = Inl e" "s' = s" by (auto simp: expire_def eff_bind_def)
  then show ?thesis by simp
next
  case (Inr k)
  obtain r1 s1 where d1: "os_delete store (commit_key (am_manifest_id m)) s = (r1, s1)" by fastforce
  obtain r2 s2 where d2: "os_delete store (manifest_key (am_manifest_id m)) s1 = (r2, s2)" by fastforce
  obtain r3 s3 where d3: "os_delete store k s2 = (r3, s3)" by fastforce
  have gone: "content t' x = None" if "os_delete store y t = (q, t')" "content t x = None" for y t q t' x
    using delete_cases [OF that(1)] that(2) by (auto simp: written_def)
  have "expire store m s = (case r1 of Inl e \<Rightarrow> (Inl e, s1) | Inr _ \<Rightarrow> case r2 of Inl e \<Rightarrow> (Inl e, s2) | Inr _ \<Rightarrow> (r3, s3))"
    using Inr d1 d2 d3 by (cases r1; cases r2) (simp_all add: expire_def eff_bind_def)
  with assms delete_cases [OF d1] gone [OF d2, of "commit_key (am_manifest_id m)"]
    gone [OF d3, of "commit_key (am_manifest_id m)"] show ?thesis
    by (cases r1; cases r2) auto
qed

lemma expire_not_replayable:
  assumes "expire store m s = (r, s')"
  shows "content s' = content s \<and> \<not> is_ok r \<or> \<not> replays codec (content s') (am_manifest_id m) a"
  using expire_cases [OF assms] replays_commit [of codec "content s'" "am_manifest_id m" a] by auto

lemma expire_removes:
  assumes "expire store m s = (Inr u, s')" and "artifact_key (art_uri (am_artifact m)) = Inr k"
    and "x \<in> {commit_key (am_manifest_id m), manifest_key (am_manifest_id m), k}"
  shows "content s' x = None"
proof -
  from assms(1,2) obtain s1 s2 where
      "os_delete store (commit_key (am_manifest_id m)) s = (Inr (), s1)"
      "os_delete store (manifest_key (am_manifest_id m)) s1 = (Inr (), s2)" "os_delete store k s2 = (Inr (), s')"
    by (auto simp: expire_def eff_bind_Inr_iff)
  note del = this
  have "content s' = written nk k None (written nk (manifest_key (am_manifest_id m)) None
      (written nk (commit_key (am_manifest_id m)) None (content s)))"
    by (simp only: delete_ok [OF del(1)] delete_ok [OF del(2)] delete_ok [OF del(3)])
  with assms(3) show ?thesis by (auto simp: written_def)
qed

end

text \<open>A store whose calls do not raise: reading finds what is there, publishing succeeds.\<close>

locale reliable_object_store = object_store +
  assumes get_total: "content s k = Some p \<Longrightarrow> \<exists>s'. os_get store k s = (Inr p, s')"
    and exists_total: "\<exists>b s'. os_exists store k s = (Inr b, s')"
    and put_total: "\<exists>s'. os_put store k p s = (Inr (), s')"
begin

lemma exists_run: "\<exists>s'. os_exists store k s = (Inr (content s k \<noteq> None), s') \<and> content s' = content s"
proof -
  obtain b s' where e: "os_exists store k s = (Inr b, s')" using exists_total by blast
  show ?thesis using e exists_ok [OF e] exists_reads [OF e] by simp
qed

lemma get_run: "content s k = Some p \<Longrightarrow> \<exists>s'. os_get store k s = (Inr p, s') \<and> content s' = content s"
  using get_total [of s k p] by (auto dest: get_reads)

lemma body_complete:
  assumes "replays codec (content s) mid a"
  shows "\<exists>s'. read_verified_body store codec mid s = (Inr (Some a), s')"
proof -
  from assms obtain payload commit_payload commit m akey where
      c: "content s (manifest_key mid) = Some payload" "content s (commit_key mid) = Some commit_payload"
      "content s akey = Some a"
      and l: "ac_loads codec commit_payload = Inr (JObj commit)"
        "ebind (ac_loads codec payload) (manifest_from_json (ac_fromisoformat codec)) = Inr m"
        "validate_manifest m = Inr ()" "row_get commit ''manifest_id'' = JStr mid"
        "row_get commit ''manifest_checksum'' = JStr (ac_checksum codec payload)"
        "row_get commit ''artifact_checksum'' = JStr (art_checksum (am_artifact m))"
        "artifact_key (art_uri (am_artifact m)) = Inr akey"
        "ac_checksum codec a = art_checksum (am_artifact m)" "ac_size codec a = art_size_bytes (am_artifact m)"
    unfolding replays_def by blast
  from get_run [OF c(1)] obtain s1 where s1: "os_get store (manifest_key mid) s = (Inr payload, s1)"
    "content s1 = content s" by blast
  with get_run [of s1 "commit_key mid"] c obtain s2 where s2: "os_get store (commit_key mid) s1 = (Inr commit_payload, s2)"
    "content s2 = content s" by auto
  with get_run [of s2 akey] c obtain s3 where s3: "os_get store akey s2 = (Inr a, s3)" by auto
  show ?thesis unfolding read_verified_body_def using s1 s2 s3 l
    by (simp add: eff_bind_def)
qed

lemma read_verified_complete:
  assumes "replays codec (content s) mid a"
  shows "\<exists>s'. read_verified_artifact store codec mid s = (Inr (Some a), s')"
proof -
  have c: "content s (manifest_key mid) \<noteq> None" "content s (commit_key mid) \<noteq> None"
    using assms by (auto simp: replays_def)
  from exists_run [of "manifest_key mid" s] c obtain s1 where
    s1: "os_exists store (manifest_key mid) s = (Inr True, s1)" "content s1 = content s" by auto
  with exists_run [of "commit_key mid" s1] c obtain s2 where
    s2: "os_exists store (commit_key mid) s1 = (Inr True, s2)" "content s2 = content s" by auto
  with body_complete [of codec s2 mid a] assms obtain s3 where
    "read_verified_body store codec mid s2 = (Inr (Some a), s3)" by auto
  with s1 s2 show ?thesis
    by (auto simp: read_verified_artifact_def eff_bind_def catch_none_Some)
qed

lemma read_artifact_complete:
  "replays codec (content s) (am_manifest_id m) a \<Longrightarrow> \<exists>s'. read_artifact store codec m s = (Inr a, s')"
  by (drule read_verified_complete) (auto simp: read_artifact_def eff_bind_def)

lemma put_verified_total:
  "\<exists>s'. put_verified store k p label s = (Inr (), s') \<and> content s' = written nk k (Some p) (content s)"
proof -
  obtain s1 where s1: "os_put store k p s = (Inr (), s1)" using put_total by blast
  from put_ok [OF s1] have c: "content s1 k = Some p" by simp
  from get_run [OF c] obtain s2 where "os_get store k s1 = (Inr p, s2)" "content s2 = content s1" by blast
  with s1 put_ok [OF s1] show ?thesis by (simp add: put_verified_def eff_bind_def)
qed

end

locale reliable_archive_store = reliable_object_store + archive_store
begin

lemma is_replayable_none:
  assumes "content s (commit_key mid) = None"
  shows "\<exists>s'. is_replayable store codec mid s = (Inr False, s') \<and> content s' = content s"
proof -
  from exists_run [of "manifest_key mid" s] obtain s1 where
    s1: "os_exists store (manifest_key mid) s = (Inr (content s (manifest_key mid) \<noteq> None), s1)"
    "content s1 = content s" by blast
  from exists_run [of "commit_key mid" s1] s1 assms obtain s2 where
    "os_exists store (commit_key mid) s1 = (Inr False, s2)" "content s2 = content s" by auto
  with s1 show ?thesis
    by (cases "content s (manifest_key mid)") (simp_all add: is_replayable_def read_verified_artifact_def eff_bind_def)
qed

lemma publish_roundtrip:
  assumes pub: "publishable codec m artifact k" and "self_contained m" and "iso_roundtrip codec"
    and fresh: "content s (commit_key (am_manifest_id m)) = None"
    and apart: "nk k \<noteq> nk (manifest_key (am_manifest_id m))" "nk k \<noteq> nk (commit_key (am_manifest_id m))"
  shows "\<exists>r s'. publish store codec m artifact s = (Inr r, s')
    \<and> (\<exists>s''. read_artifact store codec m s' = (Inr artifact, s''))"
proof -
  let ?mid = "am_manifest_id m"
  note away = apart [symmetric] apart manifest_commit_apart manifest_commit_apart [symmetric]
  obtain s0 where s0: "is_replayable store codec ?mid s = (Inr False, s0)" "content s0 = content s"
    using is_replayable_none [OF fresh] by blast
  obtain s1 where s1: "put_verified store k artifact ''artifact'' s0 = (Inr (), s1)"
    "content s1 = written nk k (Some artifact) (content s0)" using put_verified_total by blast
  obtain s2 where s2: "put_verified store (manifest_key ?mid)
      (ac_dumps codec (manifest_json (ac_isoformat codec) m)) ''manifest'' s1 = (Inr (), s2)"
    "content s2 = written nk (manifest_key ?mid) (Some (ac_dumps codec (manifest_json (ac_isoformat codec) m)))
       (content s1)" using put_verified_total by blast
  obtain s3 where s3: "os_put store (commit_key ?mid) (ac_dumps codec (commit_json codec m)) s2 = (Inr (), s3)"
    using put_total by blast
  have rep: "replays codec (content s3) ?mid artifact"
    by (rule complete_replays [OF pub assms(2,3)]) (simp_all add: put_ok [OF s3] s2 s1 written_other away)
  from read_verified_complete [OF rep] obtain s4 where
    s4: "read_verified_artifact store codec ?mid s3 = (Inr (Some artifact), s4)" by blast
  with rep have "replays codec (content s4) ?mid artifact" by (simp add: read_verified_reads)
  note readable = read_artifact_complete [OF this]
  have "publish_objects store codec m artifact k s0 = (Inr (), s4)"
    using s1 s2 s3 s4 by (simp add: publish_objects_def is_replayable_def eff_bind_def)
  with readable s0 show ?thesis by (simp add: publish_run [OF pub] eff_bind_def)
qed

end

subsection \<open>The repository's stores\<close>

text \<open>The bytes of the archive: JSON text for the documents, SHA-256 checksums.\<close>

definition text_codec ::
  "(string \<Rightarrow> string) \<Rightarrow> (rat \<Rightarrow> string) \<Rightarrow> (timestamp \<Rightarrow> string) \<Rightarrow> (string \<Rightarrow> timestamp result)
     \<Rightarrow> string archive_codec" where
  "text_codec sha float_repr isoformat fromisoformat =
     \<lparr>ac_dumps = json_dumps float_repr, ac_loads = json_loads, ac_checksum = (\<lambda>b. ''sha256:'' @ sha b),
      ac_size = (\<lambda>b. int (length b)), ac_isoformat = isoformat, ac_fromisoformat = fromisoformat\<rparr>"

lemma text_codec_json: "json_codec (ac_dumps (text_codec sha fr isof fromisof)) (ac_loads (text_codec sha fr isof fromisof))"
  by (simp add: text_codec_def json_text.json_codec_axioms)

lemma manifest_key_not_commit_key: "manifest_key mid \<noteq> commit_key mid"
  by (simp add: manifest_key_def commit_key_def)

interpretation mem: reliable_object_store in_memory_object_store "\<lambda>objects. objects" "\<lambda>k. k"
  by unfold_locales
    (auto simp: in_memory_object_store_def written_def manifest_key_not_commit_key split: option.splits)

interpretation mem_archive: reliable_archive_store in_memory_object_store "\<lambda>objects. objects" "\<lambda>k. k"
    "text_codec sha float_repr isoformat fromisoformat"
  by (intro reliable_archive_store.intro archive_store.intro mem.reliable_object_store_axioms
      mem.object_store_axioms text_codec_json)

text \<open>
  Documented behaviour of the S3 client, over the objects of each bucket: a call that returns
  did its work, a failed write or delete happened or not, reads change nothing, and a missing
  object is reported with one of the not-found codes only when it is missing.
\<close>

definition s3_contract :: "('s, 'b) s3_client \<Rightarrow> ('s \<Rightarrow> string \<Rightarrow> 'b objects) \<Rightarrow> bool" where
  "s3_contract client objs \<longleftrightarrow>
     (\<forall>b k p s r s'. put_object client b k p s = (r, s') \<longrightarrow>
        objs s' b = (objs s b)(k \<mapsto> p) \<or> \<not> is_ok r \<and> objs s' b = objs s b)
   \<and> (\<forall>b k s r s'. get_object client b k s = (r, s') \<longrightarrow>
        objs s' = objs s \<and> (\<forall>p. r = Inr p \<longrightarrow> objs s b k = Some p))
   \<and> (\<forall>b k s r s'. head_object client b k s = (r, s') \<longrightarrow>
        objs s' = objs s \<and> (is_ok r \<longrightarrow> objs s b k \<noteq> None)
        \<and> (\<forall>e. r = Inl e \<longrightarrow> is_not_found e \<longrightarrow> objs s b k = None))
   \<and> (\<forall>b k s r s'. delete_object client b k s = (r, s') \<longrightarrow>
        objs s' b = (objs s b)(k := None) \<or> \<not> is_ok r \<and> objs s' b = objs s b)"

lemma strip_slashes_id: "s \<noteq> [] \<Longrightarrow> hd s \<noteq> CHR ''/'' \<Longrightarrow> last s \<noteq> CHR ''/'' \<Longrightarrow> strip_slashes s = s"
proof -
  assume s: "s \<noteq> []" "hd s \<noteq> CHR ''/''" "last s \<noteq> CHR ''/''"
  have keep: "dropWhile p t = t" if "t \<noteq> []" "\<not> p (hd t)" for p and t :: string
    using that by (cases t) simp_all
  show ?thesis using s by (simp add: strip_slashes_def lstrip_chars_def rstrip_chars_def keep hd_rev)
qed

lemma s3_key_inj: "s3_key prefix k = s3_key prefix k' \<longleftrightarrow> strip_slashes k = strip_slashes k'"
  by (simp add: s3_key_def Let_def)

lemma strip_manifest_key: "strip_slashes (manifest_key mid) = manifest_key mid"
  and strip_commit_key: "strip_slashes (commit_key mid) = commit_key mid"
  by (rule strip_slashes_id; simp add: manifest_key_def commit_key_def)+

lemma s3_is_object_store:
  assumes "s3_contract client objs" and "s3_object_store client bucket prefix = Inr store"
  shows "object_store store (\<lambda>s k. objs s bucket (s3_key (strip_slashes prefix) k)) (s3_key (strip_slashes prefix))"
proof -
  from assms(2) have st: "os_put store = (\<lambda>key. put_object client bucket (s3_key (strip_slashes prefix) key))"
      "os_get store = (\<lambda>key. get_object client bucket (s3_key (strip_slashes prefix) key))"
      "os_exists store = s3_exists client bucket (strip_slashes prefix)"
      "os_delete store = (\<lambda>key. delete_object client bucket (s3_key (strip_slashes prefix) key))"
    by (auto simp: s3_object_store_def Let_def split: if_splits)
  note c = assms(1) [unfolded s3_contract_def]
  show ?thesis
  proof (unfold_locales, unfold st)
    show "s3_key (strip_slashes prefix) (manifest_key mid) \<noteq> s3_key (strip_slashes prefix) (commit_key mid)" for mid
      by (simp add: s3_key_inj strip_manifest_key strip_commit_key manifest_key_not_commit_key)
  qed (use c in \<open>fastforce simp: written_def s3_exists_def split: prod.splits sum.splits if_splits\<close>)+
qed

subsection \<open>Properties of the archive\<close>

text \<open>The objects an S3 adapter sees: those of its bucket, under its prefix.\<close>

definition s3_view :: "('s \<Rightarrow> string \<Rightarrow> 'b objects) \<Rightarrow> string \<Rightarrow> string \<Rightarrow> 's \<Rightarrow> 'b objects" where
  "s3_view objs bucket prefix s = (\<lambda>k. objs s bucket (s3_key (strip_slashes prefix) k))"

lemma s3_object_store_view:
  assumes "s3_contract client objs" and "s3_object_store client bucket prefix = Inr store"
  shows "object_store store (s3_view objs bucket prefix) (s3_key (strip_slashes prefix))"
  using s3_is_object_store [OF assms] by (simp add: s3_view_def [abs_def])

definition example_codec :: "string archive_codec" where
  "example_codec = text_codec (\<lambda>b. b) (\<lambda>_. []) (\<lambda>t. json_dumps (\<lambda>_. []) (JInt t))
     (\<lambda>s. ebind (json_loads s) as_int)"

definition example_artifact :: archive_artifact where
  "example_artifact = \<lparr>art_uri = ''s3://archive/m1.parquet'', art_checksum = ''sha256:abc'', art_size_bytes = 3,
     art_row_count = 2, art_byte_count = 9, art_canonical_digest = ''d'', art_schema_version = ''1'',
     art_transform_version = ''1''\<rparr>"

definition example_manifest :: archive_manifest where
  "example_manifest = \<lparr>am_manifest_id = ''m1'', am_artifact = example_artifact, am_coverage_start = 10,
     am_coverage_end = 20, am_retention_deadline = 30, am_deletion_authorization_deadline = 40,
     am_archive_epoch = 1, am_service_id = ''svc'', am_domain = ''request'',
     am_sources = [\<lparr>se_key = ''k1'', se_checksum = ''c1'', se_size_bytes = 5, se_row_start = 0, se_row_count = 2,
                    se_deletion_deadline = 40, se_version = None\<rparr>],
     am_source = \<lparr>so_service_id = ''svc'', so_domain = ''request'', so_object_key = ''k1'', so_checksum = ''c1'',
                  so_size_bytes = 5, so_version = None\<rparr>\<rparr>"

text \<open>A client over buckets in memory, as the local S3 emulators keep them.\<close>

definition bucket_client :: "(string \<Rightarrow> 'b objects, 'b) s3_client" where
  "bucket_client =
     \<lparr>put_object = (\<lambda>b k p s. (Inr (), s(b := (s b)(k \<mapsto> p)))),
      get_object = (\<lambda>b k s. (case s b k of None \<Rightarrow> Inl (OtherError ''NoSuchKey'') | Some p \<Rightarrow> Inr p, s)),
      head_object = (\<lambda>b k s. (if s b k = None then Inl (OtherError ''404'') else Inr (), s)),
      delete_object = (\<lambda>b k s. (Inr (), s(b := (s b)(k := None))))\<rparr>"

lemma bucket_client_contract: "s3_contract bucket_client (\<lambda>s. s)"
  by (simp add: s3_contract_def bucket_client_def is_not_found_def split: option.splits)

lemma example_iso: "iso_roundtrip example_codec"
  unfolding iso_roundtrip_def example_codec_def text_codec_def
  by (simp add: json_text.loads_dumps [where j = "JInt _"] del: json_dumps.simps)

lemma example_artifact_key: "artifact_key (art_uri (am_artifact example_manifest)) = Inr ''archive/m1.parquet''"
  by code_simp

lemma example_publishable: "publishable example_codec example_manifest ''abc'' ''archive/m1.parquet''"
proof -
  have "validate_manifest example_manifest = Inr ()" by code_simp
  with example_artifact_key show ?thesis
    by (simp add: publishable_def example_manifest_def example_artifact_def example_codec_def text_codec_def)
qed

lemma example_self_contained: "self_contained example_manifest"
  by (simp add: self_contained_def example_manifest_def)

text \<open>
  C7. The commit marker is written last. Whatever fails while a manifest without a commit marker
  is published to S3, afterwards either there is still no marker, and the call has raised, or
  artifact, manifest and marker are all in place and a reader gets exactly the published bytes.
\<close>

theorem s3_publish_commit_last:
  assumes "s3_contract client objs" and "s3_object_store client bucket prefix = Inr store"
    and "iso_roundtrip (text_codec sha fr isof fromisof)" and "self_contained m"
    and "artifact_key (art_uri (am_artifact m)) = Inr k"
    and "strip_slashes k \<notin> {manifest_key (am_manifest_id m), commit_key (am_manifest_id m)}"
    and "s3_view objs bucket prefix s (commit_key (am_manifest_id m)) = None"
    and "publish store (text_codec sha fr isof fromisof) m artifact s = (r, s')"
  shows "s3_view objs bucket prefix s' (commit_key (am_manifest_id m)) = None \<and> \<not> is_ok r
    \<or> replays (text_codec sha fr isof fromisof) (s3_view objs bucket prefix s') (am_manifest_id m) artifact"
proof -
  have arch: "archive_store store (s3_view objs bucket prefix) (s3_key (strip_slashes prefix))
      (text_codec sha fr isof fromisof)"
    using s3_object_store_view [OF assms(1,2)] text_codec_json by (rule archive_store.intro)
  show ?thesis
    using assms(6)
    by (intro archive_store.publish_commit_last [OF arch assms(8,7,4,3,5)])
      (auto simp: s3_key_inj strip_manifest_key strip_commit_key)
qed

theorem s3_publish_commit_last_witness:
  "\<exists>store r s'. s3_object_store bucket_client ''b'' ''/p/'' = Inr store
     \<and> publish store example_codec example_manifest ''abc'' (\<lambda>_. Map.empty) = (r, s')
     \<and> (s3_view (\<lambda>s. s) ''b'' ''/p/'' s' (commit_key ''m1'') = None \<and> \<not> is_ok r
        \<or> replays example_codec (s3_view (\<lambda>s. s) ''b'' ''/p/'' s') ''m1'' ''abc'')"
proof -
  obtain store :: "(string \<Rightarrow> string objects, string) object_store_ops" where
    st: "s3_object_store bucket_client ''b'' ''/p/'' = Inr store"
    by (simp add: s3_object_store_def Let_def)
  obtain r s' where run: "publish store example_codec example_manifest ''abc'' (\<lambda>_. Map.empty) = (r, s')"
    by fastforce
  have keys: "strip_slashes ''archive/m1.parquet'' \<notin>
      {manifest_key (am_manifest_id example_manifest), commit_key (am_manifest_id example_manifest)}"
    by code_simp
  have empty: "s3_view (\<lambda>s. s) ''b'' ''/p/'' (\<lambda>_. Map.empty) (commit_key (am_manifest_id example_manifest)) = None"
    by (simp add: s3_view_def)
  from s3_publish_commit_last [OF bucket_client_contract st example_iso [unfolded example_codec_def]
      example_self_contained example_artifact_key keys empty run [unfolded example_codec_def]]
  have "s3_view (\<lambda>s. s) ''b'' ''/p/'' s' (commit_key (am_manifest_id example_manifest)) = None \<and> \<not> is_ok r
    \<or> replays example_codec (s3_view (\<lambda>s. s) ''b'' ''/p/'' s') (am_manifest_id example_manifest) ''abc''"
    by (simp only: example_codec_def)
  moreover have "am_manifest_id example_manifest = ''m1''" by (simp add: example_manifest_def)
  ultimately show ?thesis using st run by auto
qed

text \<open>
  Publishing to a store that does not fail succeeds, and the archive reads back: after
  \<open>publish\<close> of a valid manifest with matching checksum and size, \<open>read_artifact\<close> returns the
  published bytes.
\<close>

theorem memory_publish_read_roundtrip:
  assumes "publishable (text_codec sha fr isof fromisof) m artifact k" and "self_contained m"
    and "iso_roundtrip (text_codec sha fr isof fromisof)"
    and "objects (commit_key (am_manifest_id m)) = None"
    and "k \<notin> {manifest_key (am_manifest_id m), commit_key (am_manifest_id m)}"
  shows "\<exists>r objects'.
    publish in_memory_object_store (text_codec sha fr isof fromisof) m artifact objects = (Inr r, objects')
    \<and> fst (read_artifact in_memory_object_store (text_codec sha fr isof fromisof) m objects') = Inr artifact"
proof -
  from assms(5) have apart: "k \<noteq> manifest_key (am_manifest_id m)" "k \<noteq> commit_key (am_manifest_id m)" by auto
  from mem_archive.publish_roundtrip [where s = objects, OF assms(1-4) apart] show ?thesis by fastforce
qed

theorem memory_publish_read_roundtrip_witness:
  "\<exists>r objects'. publish in_memory_object_store example_codec example_manifest ''abc'' Map.empty = (Inr r, objects')
    \<and> fst (read_artifact in_memory_object_store example_codec example_manifest objects') = Inr ''abc''"
proof -
  have keys: "''archive/m1.parquet'' \<notin>
      {manifest_key (am_manifest_id example_manifest), commit_key (am_manifest_id example_manifest)}"
    by code_simp
  show ?thesis
    using memory_publish_read_roundtrip [OF example_publishable [unfolded example_codec_def] example_self_contained
        example_iso [unfolded example_codec_def] _ keys, of Map.empty]
    by (simp only: example_codec_def)
qed



end
