(* ===== verification/Deletion.thy ===== *)
theory Deletion
  imports Archive_Publication Control_Plane_Inv
begin

text \<open>
  Fenced deletion of raw source objects, the archive expiry and the sweeper
  (\<open>backend/high_scale/postgres_control/deletion.py\<close>).

  The world is the object store with the raw sources, the archive's object store, the ledger
  and the controller's cache of verified manifests. Exceptions do not undo effects on the
  stores; ledger operations on PostgreSQL are transactions. The ledger protocol
  \<open>DeletionLedger\<close> is the locale \<open>deletion_ledger\<close>, interpreted on \<open>PostgresDeletionLedger\<close>. The
  replay lease checker and the retention configuration are parameters. Python iterates over a
  \<open>set\<close> of keys in an unspecified order; here the keys keep their first occurrences, and no
  theorem depends on the order. The thread pool deletes distinct keys, which commute.
\<close>

subsection \<open>Ledger and world\<close>

record 'l ledger_ops =
  dl_authorize :: "string \<Rightarrow> string \<Rightarrow> string \<Rightarrow> int \<Rightarrow> ('l, deletion_authorization) eff"
  dl_mark :: "string \<Rightarrow> string \<Rightarrow> string \<Rightarrow> int option \<Rightarrow> ('l, unit) eff"

record ('s, 'a, 'l) del_world =
  dw_store :: 's
  dw_archive :: 'a
  dw_ledger :: 'l
  dw_verified :: "string list"

definition on_store :: "('s, 'x) eff \<Rightarrow> (('s, 'a, 'l) del_world, 'x) eff" where
  "on_store m w = (case m (dw_store w) of (r, s) \<Rightarrow> (r, w\<lparr>dw_store := s\<rparr>))"

definition on_archive :: "('a, 'x) eff \<Rightarrow> (('s, 'a, 'l) del_world, 'x) eff" where
  "on_archive m w = (case m (dw_archive w) of (r, s) \<Rightarrow> (r, w\<lparr>dw_archive := s\<rparr>))"

definition on_ledger :: "('l, 'x) eff \<Rightarrow> (('s, 'a, 'l) del_world, 'x) eff" where
  "on_ledger m w = (case m (dw_ledger w) of (r, s) \<Rightarrow> (r, w\<lparr>dw_ledger := s\<rparr>))"

text \<open>The collaborators of a \<open>DeletionController\<close>.\<close>

record ('s, 'a, 'l, 'b) deletion_controller =
  dc_store :: "('s, 'b) object_store_ops"
  dc_archive :: "('a, 'b) object_store_ops"
  dc_codec :: "'b archive_codec"
  dc_ledger :: "'l ledger_ops"
  dc_replay_active :: "string \<Rightarrow> bool"
  dc_ownership :: "(string \<Rightarrow> ('l, owner_epoch_record) eff) option"

definition no_replay_lease :: "string \<Rightarrow> bool" where
  "no_replay_lease manifest_id = False"

definition VERIFIED_LIMIT :: nat where
  "VERIFIED_LIMIT = 4096"

text \<open>Adding to a bounded cache: at the limit it is emptied first.\<close>

definition cache_add :: "string \<Rightarrow> string list \<Rightarrow> string list" where
  "cache_add x xs = List.insert x (if VERIFIED_LIMIT \<le> length xs then [] else xs)"

definition verify_manifest_replayable ::
  "('s, 'a, 'l, 'b) deletion_controller \<Rightarrow> string \<Rightarrow> (('s, 'a, 'l) del_world, unit) eff" where
  "verify_manifest_replayable dc manifest_id w =
     (if manifest_id \<in> set (dw_verified w) then (Inr (), w)
      else eff_bind (on_archive (is_replayable (dc_archive dc) (dc_codec dc) manifest_id)) (\<lambda>ok w'.
             if \<not> ok then (Inl (ValueError ''source deletion requires a replayable archive''), w')
             else (Inr (), w'\<lparr>dw_verified := cache_add manifest_id (dw_verified w')\<rparr>)) w)"

definition check_ownership ::
  "('s, 'a, 'l, 'b) deletion_controller \<Rightarrow> string \<Rightarrow> int \<Rightarrow> (('s, 'a, 'l) del_world, unit) eff" where
  "check_ownership dc service_id current_owner_epoch =
     (case dc_ownership dc of
        None \<Rightarrow> eff_return ()
      | Some get \<Rightarrow>
          eff_bind (on_ledger (get service_id)) (\<lambda>owner.
          eff_lift (ensure (oe_current_owner owner = ''high_scale'' \<and> oe_owner_epoch owner = current_owner_epoch)
            (ValueError ''high-scale deletion is not authorized for this owner epoch''))))"

definition check_delete_fences ::
  "('s, 'a, 'l, 'b) deletion_controller \<Rightarrow> archive_manifest \<Rightarrow> string \<Rightarrow> int \<Rightarrow> (('s, 'a, 'l) del_world, unit) eff" where
  "check_delete_fences dc m service_id current_owner_epoch =
     eff_bind (check_ownership dc service_id current_owner_epoch) (\<lambda>_.
     eff_bind (eff_lift (ensure (\<not> dc_replay_active dc (am_manifest_id m))
                 (ValueError ''source deletion blocked by active replay lease''))) (\<lambda>_.
     verify_manifest_replayable dc (am_manifest_id m)))"

definition is_key_eligible :: "archive_manifest \<Rightarrow> string \<Rightarrow> timestamp \<Rightarrow> bool result" where
  "is_key_eligible m key observed =
     (if list_ex (\<lambda>s. se_key s = key) (am_sources m) then is_source_eligible_for_deletion m key observed
      else Inr (am_deletion_authorization_deadline m \<le> observed))"

text \<open>A ledger that does not take the epoch argument raises \<open>TypeError\<close> and is called without it.\<close>

definition mark_ledger_deleted ::
  "('s, 'a, 'l, 'b) deletion_controller \<Rightarrow> string \<Rightarrow> string \<Rightarrow> string \<Rightarrow> int \<Rightarrow> (('s, 'a, 'l) del_world, unit) eff" where
  "mark_ledger_deleted dc service_id key manifest_id current_owner_epoch w =
     (case on_ledger (dl_mark (dc_ledger dc) service_id key manifest_id (Some current_owner_epoch)) w of
        (Inl (TypeError _), w') \<Rightarrow> on_ledger (dl_mark (dc_ledger dc) service_id key manifest_id None) w'
      | r \<Rightarrow> r)"

definition manifest_service :: "archive_manifest \<Rightarrow> string" where
  "manifest_service m = or_text (Some (am_service_id m)) (so_service_id (am_source m))"

text \<open>The effects of \<open>delete_source\<close>: authorize, delete the object, mark the ledger.\<close>

definition delete_one ::
  "('s, 'a, 'l, 'b) deletion_controller \<Rightarrow> archive_manifest \<Rightarrow> int \<Rightarrow> string \<Rightarrow> (('s, 'a, 'l) del_world, unit) eff" where
  "delete_one dc m current_owner_epoch target_key =
     (let mid = am_manifest_id m; service_id = manifest_service m in
      eff_bind (on_ledger (dl_authorize (dc_ledger dc) service_id target_key mid current_owner_epoch)) (\<lambda>_.
      eff_bind (on_store (os_delete (dc_store dc) target_key)) (\<lambda>_.
      eff_bind (mark_ledger_deleted dc service_id target_key mid current_owner_epoch) (\<lambda>_ w.
        (Inr (), if am_sources m = [] then w\<lparr>dw_verified := removeAll mid (dw_verified w)\<rparr> else w)))))"

definition delete_guards ::
  "('s, 'a, 'l, 'b) deletion_controller \<Rightarrow> archive_manifest \<Rightarrow> int \<Rightarrow> string \<Rightarrow> timestamp \<Rightarrow> (('s, 'a, 'l) del_world, unit) eff" where
  "delete_guards dc m current_owner_epoch target_key observed =
     eff_bind (eff_lift (validate_manifest m)) (\<lambda>_.
     eff_bind (check_ownership dc (manifest_service m) current_owner_epoch) (\<lambda>_.
     eff_bind (eff_lift (is_key_eligible m target_key observed)) (\<lambda>eligible.
     eff_bind (eff_lift (ensure eligible (ValueError ''source deletion grace period has not elapsed''))) (\<lambda>_.
     eff_bind (eff_lift (ensure (\<not> dc_replay_active dc (am_manifest_id m))
                 (ValueError ''source deletion blocked by active replay lease''))) (\<lambda>_.
     verify_manifest_replayable dc (am_manifest_id m))))))"

definition delete_source ::
  "('s, 'a, 'l, 'b) deletion_controller \<Rightarrow> archive_manifest \<Rightarrow> int \<Rightarrow> string option \<Rightarrow> timestamp
     \<Rightarrow> (('s, 'a, 'l) del_world, unit) eff" where
  "delete_source dc m current_owner_epoch object_key observed =
     (let target_key = or_text object_key (so_object_key (am_source m))
      in eff_bind (delete_guards dc m current_owner_epoch target_key observed) (\<lambda>_.
         delete_one dc m current_owner_epoch target_key))"

subsection \<open>Deleting the sources of a manifest\<close>

fun eligible_keys :: "archive_manifest \<Rightarrow> timestamp \<Rightarrow> string list \<Rightarrow> string list result" where
  "eligible_keys m observed [] = Inr []"
| "eligible_keys m observed (k # ks) =
     (case is_key_eligible m k observed of
        Inl (KeyError _) \<Rightarrow> eligible_keys m observed ks
      | Inl e \<Rightarrow> Inl e
      | Inr True \<Rightarrow> ebind (eligible_keys m observed ks) (\<lambda>rest. Inr (k # rest))
      | Inr False \<Rightarrow> eligible_keys m observed ks)"

fun authorize_keys ::
  "('s, 'a, 'l, 'b) deletion_controller \<Rightarrow> string \<Rightarrow> string \<Rightarrow> int \<Rightarrow> string list \<Rightarrow> (('s, 'a, 'l) del_world, string list) eff" where
  "authorize_keys dc service_id mid epoch [] w = (Inr [], w)"
| "authorize_keys dc service_id mid epoch (k # ks) w =
     (case on_ledger (dl_authorize (dc_ledger dc) service_id k mid epoch) w of
        (Inl (ValueError _), w') \<Rightarrow> authorize_keys dc service_id mid epoch ks w'
      | (Inl e, w') \<Rightarrow> (Inl e, w')
      | (Inr _, w') \<Rightarrow> eff_bind (authorize_keys dc service_id mid epoch ks) (\<lambda>rest. eff_return (k # rest)) w')"

fun delete_from_store ::
  "('s, 'a, 'l, 'b) deletion_controller \<Rightarrow> string list \<Rightarrow> ('s, 'a, 'l) del_world \<Rightarrow> string list \<times> ('s, 'a, 'l) del_world" where
  "delete_from_store dc [] w = ([], w)"
| "delete_from_store dc (k # ks) w =
     (case on_store (os_delete (dc_store dc) k) w of
        (r, w1) \<Rightarrow> (case delete_from_store dc ks w1 of (ds, w2) \<Rightarrow> (if is_ok r then k # ds else ds, w2)))"

fun mark_keys ::
  "('s, 'a, 'l, 'b) deletion_controller \<Rightarrow> string \<Rightarrow> string \<Rightarrow> int \<Rightarrow> string list
     \<Rightarrow> ('s, 'a, 'l) del_world \<Rightarrow> string list \<times> ('s, 'a, 'l) del_world" where
  "mark_keys dc service_id mid epoch [] w = ([], w)"
| "mark_keys dc service_id mid epoch (k # ks) w =
     (case mark_ledger_deleted dc service_id k mid epoch w of
        (r, w1) \<Rightarrow> (case mark_keys dc service_id mid epoch ks w1 of (ds, w2) \<Rightarrow> (if is_ok r then k # ds else ds, w2)))"

definition deletion_targets :: "archive_manifest \<Rightarrow> string list option \<Rightarrow> string list" where
  "deletion_targets m source_keys =
     (let listed = remdups (case source_keys of Some ks \<Rightarrow> ks | None \<Rightarrow> map se_key (am_sources m))
      in if listed = [] then [so_object_key (am_source m)] else listed)"

text \<open>The end of \<open>delete_manifest_sources\<close>: delete from the store, mark what was deleted.\<close>

definition delete_authorized ::
  "('s, 'a, 'l, 'b) deletion_controller \<Rightarrow> archive_manifest \<Rightarrow> int \<Rightarrow> string list option \<Rightarrow> string list
     \<Rightarrow> (('s, 'a, 'l) del_world, string list) eff" where
  "delete_authorized dc m current_owner_epoch source_keys authorized w =
     (case delete_from_store dc authorized w of (store_deleted, w1) \<Rightarrow>
      (case mark_keys dc (manifest_service m) (am_manifest_id m) current_owner_epoch store_deleted w1 of (deleted, w2) \<Rightarrow>
         (Inr deleted,
          if source_keys = None \<and> length (deletion_targets m source_keys) \<le> length deleted
          then w2\<lparr>dw_verified := removeAll (am_manifest_id m) (dw_verified w2)\<rparr> else w2)))"

definition delete_manifest_sources ::
  "('s, 'a, 'l, 'b) deletion_controller \<Rightarrow> archive_manifest \<Rightarrow> int \<Rightarrow> string list option \<Rightarrow> timestamp
     \<Rightarrow> (('s, 'a, 'l) del_world, string list) eff" where
  "delete_manifest_sources dc m current_owner_epoch source_keys observed =
     eff_bind (eff_lift (validate_manifest m)) (\<lambda>_.
     eff_bind (check_delete_fences dc m (manifest_service m) current_owner_epoch) (\<lambda>_.
     eff_bind (eff_lift (eligible_keys m observed (deletion_targets m source_keys))) (\<lambda>eligible.
     if eligible = [] then eff_return []
     else eff_bind (authorize_keys dc (manifest_service m) (am_manifest_id m) current_owner_epoch eligible) (\<lambda>authorized.
       if authorized = [] then eff_return []
       else delete_authorized dc m current_owner_epoch source_keys authorized))))"

subsection \<open>The PostgreSQL ledger\<close>

record pg_ledger =
  pl_db :: control_db
  pl_promoted :: "string list"

definition on_db :: "'x txn \<Rightarrow> (pg_ledger, 'x) eff" where
  "on_db tx s = (case atomically tx (pl_db s) of (r, db) \<Rightarrow> (r, s\<lparr>pl_db := db\<rparr>))"

text \<open>
  Environment of the ledger's calls: \<open>datetime.fromisoformat\<close>, the database clock and the
  process clock (\<open>authorize_source_delete\<close> passes no \<open>now\<close>).
\<close>

record ledger_env =
  le_fi :: "string \<Rightarrow> timestamp result"
  le_clk :: timestamp
  le_now :: timestamp

definition ledger_get :: "string \<Rightarrow> (pg_ledger, owner_epoch_record) eff" where
  "ledger_get service_id = on_db (owner_op service_id)"

definition promote_manifest :: "ledger_env \<Rightarrow> string \<Rightarrow> int \<Rightarrow> (pg_ledger, unit) eff" where
  "promote_manifest env mid epoch s =
     (if mid \<in> set (pl_promoted s) then (Inr (), s)
      else case on_db (transition_archive_manifest (le_fi env) (le_clk env) mid MANIFEST_COMMITTED
                         DELETION_ELIGIBLE epoch) s of
             (Inl (ValueError _), s') \<Rightarrow> (Inr (), s'\<lparr>pl_promoted := cache_add mid (pl_promoted s')\<rparr>)
           | (Inl e, s') \<Rightarrow> (Inl e, s')
           | (Inr _, s') \<Rightarrow> (Inr (), s'\<lparr>pl_promoted := cache_add mid (pl_promoted s')\<rparr>))"

definition ledger_authorize ::
  "ledger_env \<Rightarrow> string \<Rightarrow> string \<Rightarrow> string \<Rightarrow> int \<Rightarrow> (pg_ledger, deletion_authorization) eff" where
  "ledger_authorize env service_id object_key mid epoch =
     eff_bind (promote_manifest env mid epoch) (\<lambda>_.
     on_db (authorize_source_delete (le_fi env) (le_clk env) service_id object_key mid epoch False (le_now env)))"

definition ledger_mark_deleted ::
  "ledger_env \<Rightarrow> string \<Rightarrow> string \<Rightarrow> string \<Rightarrow> int option \<Rightarrow> (pg_ledger, unit) eff" where
  "ledger_mark_deleted env service_id object_key mid epoch =
     eff_bind (case epoch of Some e \<Rightarrow> eff_return e
               | None \<Rightarrow> eff_bind (on_db (owner_op service_id)) (\<lambda>owner. eff_return (oe_owner_epoch owner))) (\<lambda>owner_epoch.
     on_db (mark_source_deleted (le_fi env) (le_clk env) service_id object_key mid owner_epoch))"

definition postgres_deletion_ledger :: "ledger_env \<Rightarrow> pg_ledger ledger_ops" where
  "postgres_deletion_ledger env = \<lparr>dl_authorize = ledger_authorize env, dl_mark = ledger_mark_deleted env\<rparr>"

subsection \<open>Archive expiry\<close>

type_synonym ('s, 'a) sweep_world = "('s, 'a, pg_ledger) del_world"

definition on_control :: "'x txn \<Rightarrow> (('s, 'a) sweep_world, 'x) eff" where
  "on_control tx = on_ledger (on_db tx)"

definition MARGIN_DAYS :: int where
  "MARGIN_DAYS = 1"

definition with_margin :: "(string \<times> int) list \<Rightarrow> (string \<times> int) list" where
  "with_margin retention = map (\<lambda>(d, days). (d, if 0 < days then days + MARGIN_DAYS else 0)) retention"

fun expire_each ::
  "ledger_env \<Rightarrow> ('a, 'b) object_store_ops \<Rightarrow> archive_manifest list \<Rightarrow> ('s, 'a) sweep_world \<Rightarrow> nat \<times> ('s, 'a) sweep_world" where
  "expire_each env store [] w = (0, w)"
| "expire_each env store (m # ms) w =
     (case eff_bind (on_archive (expire store m)) (\<lambda>_. on_control (mark_archive_expired (le_clk env) (am_manifest_id m))) w of
        (r, w1) \<Rightarrow> (case expire_each env store ms w1 of (n, w2) \<Rightarrow> (if is_ok r then Suc n else n, w2)))"

definition archive_expirer_expire ::
  "ledger_env \<Rightarrow> ('a, 'b) object_store_ops \<Rightarrow> (string \<Rightarrow> (string \<times> int) list) \<Rightarrow> string \<Rightarrow> int
     \<Rightarrow> (('s, 'a) sweep_world, nat) eff" where
  "archive_expirer_expire env store retention_loader service_id limit =
     eff_bind (on_control (expirable_archive_manifests (le_fi env) (le_clk env) service_id
                 (with_margin (retention_loader service_id)) limit)) (\<lambda>ms w.
     (case expire_each env store ms w of (n, w') \<Rightarrow> (Inr n, w')))"

text \<open>\<open>int(cfg.get(...))\<close> on a configured value, and the retention read from a service's configuration.\<close>

definition cfg_int :: "row \<Rightarrow> string \<Rightarrow> int \<Rightarrow> int result" where
  "cfg_int cfg name fallback =
     (case map_of cfg name of
        None \<Rightarrow> Inr fallback
      | Some (JInt i) \<Rightarrow> Inr i
      | Some (JBool b) \<Rightarrow> Inr (if b then 1 else 0)
      | Some (JFloat q) \<Rightarrow> Inr (if 0 \<le> q then floor q else ceiling q)
      | Some (JStr s) \<Rightarrow> (case py_int s of Some i \<Rightarrow> Inr i | None \<Rightarrow> Inl (ValueError ''invalid literal for int()''))
      | Some _ \<Rightarrow> Inl (TypeError ''int() argument''))"

definition configured_domain_retention :: "row \<Rightarrow> (string \<times> int) list result" where
  "configured_domain_retention sync_cfg =
     ebind (cfg_int sync_cfg ''data_retention_days'' 30) (\<lambda>data_days.
     ebind (cfg_int sync_cfg ''rum_retention_days'' data_days) (\<lambda>rum_days.
     Inr [(''request'', data_days), (''rum_vitals'', rum_days), (''rum_errors'', rum_days)]))"

subsection \<open>The sweeper\<close>

record deletion_sweep_result =
  swept_deleted :: int
  swept_skipped :: int

text \<open>\<open>manifest_to_keys.setdefault(manifest_id, []).append(key)\<close>.\<close>

fun append_key :: "string \<Rightarrow> string \<Rightarrow> (string \<times> string list) list \<Rightarrow> (string \<times> string list) list" where
  "append_key mid key [] = [(mid, [key])]"
| "append_key mid key ((mid', ks) # rest) =
     (if mid' = mid then (mid', ks @ [key]) # rest else (mid', ks) # append_key mid key rest)"

fun group_by_manifest :: "source_object_record list \<Rightarrow> (string \<times> string list) list \<Rightarrow> (string \<times> string list) list" where
  "group_by_manifest [] acc = acc"
| "group_by_manifest (s # ss) acc =
     group_by_manifest ss (case src_archive_manifest_id s of
       None \<Rightarrow> acc
     | Some mid \<Rightarrow> if mid = [] then acc else append_key mid (src_object_key s) acc)"

fun sweep_manifests ::
  "('s, 'a, pg_ledger, 'b) deletion_controller \<Rightarrow> ledger_env \<Rightarrow> timestamp \<Rightarrow> (string \<times> string list) list
     \<Rightarrow> deletion_sweep_result \<Rightarrow> (('s, 'a) sweep_world, deletion_sweep_result) eff" where
  "sweep_manifests dc env observed [] acc w = (Inr acc, w)"
| "sweep_manifests dc env observed ((mid, keys) # rest) acc w =
     (case on_control (archive_manifest_op (le_fi env) mid) w of
        (Inl e, w1) \<Rightarrow> (Inl e, w1)
      | (Inr record, w1) \<Rightarrow>
          (case delete_manifest_sources dc (amr_manifest record) (amr_owner_epoch record) (Some keys) observed w1 of
             (Inl (ValueError _), w2) \<Rightarrow>
               sweep_manifests dc env observed rest
                 (acc\<lparr>swept_skipped := swept_skipped acc + int (length keys)\<rparr>) w2
           | (Inl e, w2) \<Rightarrow> (Inl e, w2)
           | (Inr deleted, w2) \<Rightarrow>
               sweep_manifests dc env observed rest
                 (acc\<lparr>swept_deleted := swept_deleted acc + int (length deleted),
                      swept_skipped := swept_skipped acc + (int (length keys) - int (length deleted))\<rparr>) w2))"

definition sweep_sources ::
  "('s, 'a, pg_ledger, 'b) deletion_controller \<Rightarrow> ledger_env \<Rightarrow> string \<Rightarrow> int \<Rightarrow> timestamp
     \<Rightarrow> (('s, 'a) sweep_world, deletion_sweep_result) eff" where
  "sweep_sources dc env service_id limit observed =
     eff_bind (on_control (deletable_sources (le_clk env) service_id limit)) (\<lambda>sources.
     sweep_manifests dc env observed (group_by_manifest sources []) \<lparr>swept_deleted = 0, swept_skipped = 0\<rparr>)"

definition sweep ::
  "('s, 'a, pg_ledger, 'b) deletion_controller \<Rightarrow> ledger_env \<Rightarrow> (string \<Rightarrow> (string \<times> int) list) option \<Rightarrow> string
     \<Rightarrow> int \<Rightarrow> timestamp \<Rightarrow> (('s, 'a) sweep_world, deletion_sweep_result) eff" where
  "sweep dc env expirer service_id limit observed =
     eff_bind (sweep_sources dc env service_id limit observed) (\<lambda>result.
     eff_bind (case expirer of
                 None \<Rightarrow> eff_return 0
               | Some loader \<Rightarrow> archive_expirer_expire env (dc_archive dc) loader service_id limit) (\<lambda>_.
     eff_return result))"

subsection \<open>The ledger contract\<close>

text \<open>
  What the controller relies on: an authorization that returns is on record, a deletion mark
  that returns was authorized and is on record, and nothing on record is lost.
\<close>

locale deletion_ledger =
  fixes ledger :: "'l ledger_ops"
    and own_get :: "string \<Rightarrow> ('l, owner_epoch_record) eff"
    and linv :: "'l \<Rightarrow> bool"
    and authorized :: "'l \<Rightarrow> string \<Rightarrow> string \<Rightarrow> string \<Rightarrow> bool"
    and deleted :: "'l \<Rightarrow> string \<Rightarrow> string \<Rightarrow> string \<Rightarrow> bool"
  assumes authorize_ok: "linv l \<Longrightarrow> dl_authorize ledger s k m e l = (Inr x, l') \<Longrightarrow> authorized l' s k m"
    and authorize_keeps: "linv l \<Longrightarrow> dl_authorize ledger s k m e l = (r, l') \<Longrightarrow>
        linv l' \<and> (\<forall>s k m. authorized l s k m \<longrightarrow> authorized l' s k m) \<and> (\<forall>s k m. deleted l s k m \<longrightarrow> deleted l' s k m)"
    and mark_ok: "linv l \<Longrightarrow> dl_mark ledger s k m eo l = (Inr u, l') \<Longrightarrow> deleted l' s k m"
    and mark_keeps: "linv l \<Longrightarrow> dl_mark ledger s k m eo l = (v, l') \<Longrightarrow>
        linv l' \<and> (\<forall>s k m. authorized l s k m \<longrightarrow> authorized l' s k m) \<and> (\<forall>s k m. deleted l s k m \<longrightarrow> deleted l' s k m)"
    and get_keeps: "own_get s l = (w, l') \<Longrightarrow> l' = l"
begin

definition ledger_le :: "'l \<Rightarrow> 'l \<Rightarrow> bool" where
  "ledger_le l l' \<longleftrightarrow> (linv l \<longrightarrow> linv l' \<and> (\<forall>s k m. authorized l s k m \<longrightarrow> authorized l' s k m)
     \<and> (\<forall>s k m. deleted l s k m \<longrightarrow> deleted l' s k m))"

lemma ledger_le_refl [simp]: "ledger_le l l"
  by (simp add: ledger_le_def)

lemma ledger_le_trans: "ledger_le a b \<Longrightarrow> ledger_le b c \<Longrightarrow> ledger_le a c"
  by (auto simp: ledger_le_def)

definition controller :: "('s, 'a, 'l, 'b) deletion_controller \<Rightarrow> bool" where
  "controller dc \<longleftrightarrow> dc_ledger dc = ledger \<and> (dc_ownership dc = None \<or> dc_ownership dc = Some own_get)"

lemma mark_ledger_deleted_steps:
  assumes dc: "controller dc" and run: "mark_ledger_deleted dc s k m e w = (r, w')"
  shows "ledger_le (dw_ledger w) (dw_ledger w') \<and> dw_store w' = dw_store w
    \<and> (linv (dw_ledger w) \<longrightarrow> is_ok r \<longrightarrow> deleted (dw_ledger w') s k m)"
proof -
  obtain r1 l1 where m1: "dl_mark ledger s k m (Some e) (dw_ledger w) = (r1, l1)" by fastforce
  obtain r2 l2 where m2: "dl_mark ledger s k m None l1 = (r2, l2)" by fastforce
  have le: "ledger_le (dw_ledger w) l1" "ledger_le l1 l2"
    using mark_keeps [OF _ m1] mark_keeps [OF _ m2] by (auto simp: ledger_le_def)
  have "(r, w') = (r1, w\<lparr>dw_ledger := l1\<rparr>) \<or> (r, w') = (r2, w\<lparr>dw_ledger := l2\<rparr>)"
    using run dc m1 m2 by (auto simp: mark_ledger_deleted_def on_ledger_def controller_def split: sum.splits py_error.splits)
  then show ?thesis
  proof
    assume "(r, w') = (r1, w\<lparr>dw_ledger := l1\<rparr>)"
    then show ?thesis using le mark_ok [of "dw_ledger w" s k m "Some e"] m1 by (auto simp: is_ok_iff)
  next
    assume "(r, w') = (r2, w\<lparr>dw_ledger := l2\<rparr>)"
    moreover have "linv (dw_ledger w) \<Longrightarrow> linv l1" using le(1) by (simp add: ledger_le_def)
    ultimately show ?thesis
      using ledger_le_trans [OF le] mark_ok [of l1 s k m None] m2 by (auto simp: is_ok_iff)
  qed
qed

lemma mark_keys_steps:
  assumes "controller dc" and "mark_keys dc s m e ks w = (ds, w')"
  shows "ledger_le (dw_ledger w) (dw_ledger w') \<and> dw_store w' = dw_store w \<and> set ds \<subseteq> set ks
    \<and> (linv (dw_ledger w) \<longrightarrow> (\<forall>k \<in> set ds. deleted (dw_ledger w') s k m))"
  using assms(2)
proof (induction ks arbitrary: w w' ds)
  case (Cons k ks)
  obtain r w1 where m1: "mark_ledger_deleted dc s k m e w = (r, w1)" by fastforce
  obtain ds' w2 where m2: "mark_keys dc s m e ks w1 = (ds', w2)" by fastforce
  have res: "ds = (if is_ok r then k # ds' else ds')" "w' = w2" using Cons.prems m1 m2 by simp_all
  note s1 = mark_ledger_deleted_steps [OF assms(1) m1]
  note s2 = Cons.IH [OF m2]
  have inv1: "linv (dw_ledger w) \<Longrightarrow> linv (dw_ledger w1)" using s1 by (simp add: ledger_le_def)
  have "deleted (dw_ledger w2) s k m" if "linv (dw_ledger w)" "is_ok r"
    using s1 s2 inv1 [OF that(1)] that by (auto simp: ledger_le_def)
  then show ?case using s1 s2 inv1 res by (auto intro: ledger_le_trans)
qed simp

lemma authorize_keys_steps:
  assumes "controller dc" and "authorize_keys dc s m e ks w = (r, w')"
  shows "ledger_le (dw_ledger w) (dw_ledger w') \<and> dw_store w' = dw_store w \<and> dw_archive w' = dw_archive w
    \<and> (\<forall>as. r = Inr as \<longrightarrow> set as \<subseteq> set ks \<and> (linv (dw_ledger w) \<longrightarrow> (\<forall>k \<in> set as. authorized (dw_ledger w') s k m)))"
  using assms(2)
proof (induction ks arbitrary: w w' r)
  case (Cons k ks)
  obtain r1 l1 where a1: "dl_authorize ledger s k m e (dw_ledger w) = (r1, l1)" by fastforce
  let ?w1 = "w\<lparr>dw_ledger := l1\<rparr>"
  have on: "on_ledger (dl_authorize (dc_ledger dc) s k m e) w = (r1, ?w1)"
    using assms(1) a1 by (simp add: on_ledger_def controller_def)
  have le: "ledger_le (dw_ledger w) l1" using authorize_keeps [OF _ a1] by (simp add: ledger_le_def)
  have inv1: "linv (dw_ledger w) \<Longrightarrow> linv l1" using le by (simp add: ledger_le_def)
  show ?case
  proof (cases r1)
    case (Inl err)
    show ?thesis
    proof (cases "\<exists>t. err = ValueError t")
      case True
      with Cons.prems on Inl have "authorize_keys dc s m e ks ?w1 = (r, w')" by auto
      from Cons.IH [OF this] le inv1 show ?thesis by (auto intro: ledger_le_trans)
    next
      case False
      with Cons.prems on Inl have "r = Inl err" "w' = ?w1" by (auto split: py_error.splits)
      with le show ?thesis by simp
    qed
  next
    case (Inr x)
    obtain r2 w2 where rest: "authorize_keys dc s m e ks ?w1 = (r2, w2)" by fastforce
    with Cons.prems on Inr have res: "(r, w') = (case r2 of Inl e \<Rightarrow> (Inl e, w2) | Inr as \<Rightarrow> (Inr (k # as), w2))"
      by (auto simp: eff_bind_def split: sum.splits)
    note IH = Cons.IH [OF rest, simplified]
    have "authorized (dw_ledger w2) s k m" if "linv (dw_ledger w)"
      using authorize_ok [OF that a1 [unfolded Inr]] IH inv1 [OF that] by (auto simp: ledger_le_def)
    then show ?thesis using IH le inv1 res by (cases r2) (auto intro: ledger_le_trans)
  qed
qed simp

lemma check_ownership_keeps:
  assumes "controller dc" and "check_ownership dc s e w = (r, w')"
  shows "w' = w"
  using assms
  by (auto simp: check_ownership_def controller_def on_ledger_def eff_bind_def split: prod.splits sum.splits
      dest!: get_keeps)

lemma verify_manifest_replayable_keeps:
  "verify_manifest_replayable dc mid w = (r, w') \<Longrightarrow> dw_store w' = dw_store w \<and> dw_ledger w' = dw_ledger w"
  by (auto simp: verify_manifest_replayable_def on_archive_def eff_bind_def split: prod.splits sum.splits if_splits)

lemma delete_guards_keeps:
  assumes "controller dc" and "delete_guards dc m e k obs w = (r, w')"
  shows "dw_store w' = dw_store w \<and> dw_ledger w' = dw_ledger w \<and> (is_ok r \<longrightarrow> is_key_eligible m k obs = Inr True)"
proof -
  obtain r1 w1 where own: "check_ownership dc (manifest_service m) e w = (r1, w1)" by fastforce
  then have w1: "w1 = w" by (rule check_ownership_keeps [OF assms(1)])
  obtain r2 w2 where ver: "verify_manifest_replayable dc (am_manifest_id m) w = (r2, w2)" by fastforce
  have "(w' = w \<or> w' = w2) \<and> (is_ok r \<longrightarrow> is_key_eligible m k obs = Inr True)"
    using assms(2) own ver w1 by (auto simp: delete_guards_def eff_bind_def ensure_def is_ok_def split: sum.splits if_splits)
  with verify_manifest_replayable_keeps [OF ver] show ?thesis by auto
qed

lemma check_delete_fences_keeps:
  assumes "controller dc" and "check_delete_fences dc m s e w = (r, w')"
  shows "dw_store w' = dw_store w \<and> dw_ledger w' = dw_ledger w"
proof -
  obtain r1 w1 where own: "check_ownership dc s e w = (r1, w1)" by fastforce
  then have w1: "w1 = w" by (rule check_ownership_keeps [OF assms(1)])
  obtain r2 w2 where ver: "verify_manifest_replayable dc (am_manifest_id m) w1 = (r2, w2)" by fastforce
  have "w' = w1 \<or> w' = w2"
    using assms(2) own ver by (auto simp: check_delete_fences_def eff_bind_def ensure_def split: sum.splits if_splits)
  with w1 verify_manifest_replayable_keeps [OF ver] show ?thesis by auto
qed

lemma delete_manifest_sources_cases:
  assumes dc: "controller dc" and exec: "delete_manifest_sources dc m e sks obs w = (r, w')"
  obtains (idle) "dw_store w' = dw_store w" "is_ok r \<Longrightarrow> r = Inr []" "ledger_le (dw_ledger w) (dw_ledger w')"
    | (run) w1 es as wa where "check_delete_fences dc m (manifest_service m) e w = (Inr (), w1)"
        "eligible_keys m obs (deletion_targets m sks) = Inr es"
        "authorize_keys dc (manifest_service m) (am_manifest_id m) e es w1 = (Inr as, wa)"
        "delete_authorized dc m e sks as wa = (r, w')"
proof -
  obtain r1 w1 where f: "check_delete_fences dc m (manifest_service m) e w = (r1, w1)" by fastforce
  note keep = check_delete_fences_keeps [OF dc f]
  show thesis
  proof (cases "is_ok (validate_manifest m) \<and> is_ok r1 \<and> is_ok (eligible_keys m obs (deletion_targets m sks))")
    case False
    then have "w' = w \<or> w' = w1" "\<not> is_ok r"
      using exec f by (auto simp: delete_manifest_sources_def eff_bind_def is_ok_def split: sum.splits)
    with keep show thesis by (auto intro: idle)
  next
    case True
    then obtain es where es: "eligible_keys m obs (deletion_targets m sks) = Inr es" by (auto simp: is_ok_iff)
    from True have r1: "r1 = Inr ()" by (auto simp: is_ok_iff)
    obtain ra wa where a: "authorize_keys dc (manifest_service m) (am_manifest_id m) e es w1 = (ra, wa)" by fastforce
    note au = authorize_keys_steps [OF dc a]
    have body: "(r, w') = (if es = [] then (Inr [], w1) else case ra of Inl x \<Rightarrow> (Inl x, wa) | Inr as \<Rightarrow>
        if as = [] then (Inr [], wa) else delete_authorized dc m e sks as wa)"
      using exec f r1 es a True
      by (cases ra) (auto simp: delete_manifest_sources_def eff_bind_def is_ok_iff)
    show thesis
    proof (cases "\<exists>as. es \<noteq> [] \<and> ra = Inr as \<and> as \<noteq> []")
      case True
      with body f r1 es a show thesis by (auto intro: run)
    next
      case False
      with body have "(w' = w1 \<or> w' = wa) \<and> (is_ok r \<longrightarrow> r = Inr [])" by (auto split: sum.splits if_splits)
      with au keep show thesis by (auto intro: idle)
    qed
  qed
qed

end

lemma eligible_keys_sound:
  "eligible_keys m obs ks = Inr es \<Longrightarrow> k \<in> set es \<Longrightarrow> k \<in> set ks \<and> is_key_eligible m k obs = Inr True"
  by (induction ks arbitrary: es)
    (auto simp: ebind_Inr_iff split: sum.splits bool.splits py_error.splits)

text \<open>The controller over a ledger and an object store that keep their contracts.\<close>

locale deletion_setup = deletion_ledger ledger own_get linv authorized deleted + object_store store content nk
  for ledger :: "'l ledger_ops" and own_get linv authorized deleted
    and store :: "('s, 'b) object_store_ops" and content :: "'s \<Rightarrow> 'b objects" and nk :: "string \<Rightarrow> string"
begin

definition set_up :: "('s, 'a, 'l, 'b) deletion_controller \<Rightarrow> bool" where
  "set_up dc \<longleftrightarrow> controller dc \<and> dc_store dc = store"

lemma delete_from_store_steps:
  assumes "dc_store dc = store" and "delete_from_store dc ks w = (ds, w')"
  shows "dw_ledger w' = dw_ledger w \<and> dw_archive w' = dw_archive w \<and> set ds \<subseteq> set ks
    \<and> (\<forall>k \<in> set ds. content (dw_store w') k = None)
    \<and> (\<forall>x. content (dw_store w') x = content (dw_store w) x
           \<or> content (dw_store w') x = None \<and> (\<exists>k \<in> set ks. nk x = nk k))"
  using assms(2)
proof (induction ks arbitrary: w w' ds)
  case (Cons k ks)
  obtain r s1 where d: "os_delete store k (dw_store w) = (r, s1)" by fastforce
  let ?w1 = "w\<lparr>dw_store := s1\<rparr>"
  obtain ds' w2 where rest: "delete_from_store dc ks ?w1 = (ds', w2)" by fastforce
  have res: "ds = (if is_ok r then k # ds' else ds')" "w' = w2"
    using Cons.prems d rest assms(1) by (simp_all add: on_store_def)
  note IH = Cons.IH [OF rest, simplified]
  have first: "content s1 x = content (dw_store w) x \<or> content s1 x = None \<and> nk x = nk k" for x
    using delete_cases [OF d] by (cases "nk x = nk k") (auto simp: written_def)
  have "content s1 k = None" if "is_ok r" using that delete_cases [OF d] by auto
  then have "content (dw_store w2) k = None" if "is_ok r" using that IH by metis
  moreover have "content (dw_store w2) x = content (dw_store w) x
      \<or> content (dw_store w2) x = None \<and> (\<exists>k' \<in> set (k # ks). nk x = nk k')" for x
  proof -
    from IH have "content (dw_store w2) x = content s1 x \<or> content (dw_store w2) x = None \<and> (\<exists>k' \<in> set ks. nk x = nk k')"
      by blast
    with first [of x] show ?thesis by auto
  qed
  ultimately show ?case using IH res by auto
qed simp

text \<open>What deleting the sources of a manifest does to store and ledger.\<close>

lemma delete_manifest_sources_safe:
  assumes dc: "set_up dc" and inv: "linv (dw_ledger w)"
    and exec: "delete_manifest_sources dc m e sks obs w = (r, w')"
  defines "s \<equiv> manifest_service m" and "mid \<equiv> am_manifest_id m"
  shows "(\<forall>x. content (dw_store w') x = content (dw_store w) x
           \<or> content (dw_store w') x = None
             \<and> (\<exists>k. nk x = nk k \<and> k \<in> set (deletion_targets m sks) \<and> is_key_eligible m k obs = Inr True
                  \<and> authorized (dw_ledger w') s k mid))
    \<and> (\<forall>ds. r = Inr ds \<longrightarrow> (\<forall>k \<in> set ds. content (dw_store w') k = None \<and> deleted (dw_ledger w') s k mid))"
proof -
  from dc have ctl: "controller dc" and st: "dc_store dc = store" by (simp_all add: set_up_def)
  from ctl exec show ?thesis
  proof (cases rule: delete_manifest_sources_cases)
    case idle
    then show ?thesis by (auto simp: is_ok_def split: sum.splits)
  next
    case (run w1 es as wa)
    obtain sd wb where d: "delete_from_store dc as wa = (sd, wb)" by fastforce
    obtain ds wc where mk: "mark_keys dc s mid e sd wb = (ds, wc)" by fastforce
    from run(4) d mk have r: "r = Inr ds" and w': "dw_store w' = dw_store wc" "dw_ledger w' = dw_ledger wc"
      by (auto simp: delete_authorized_def s_def mid_def)
    note fences = check_delete_fences_keeps [OF ctl run(1)]
    note au = authorize_keys_steps [OF ctl run(3)]
    note de = delete_from_store_steps [OF st d]
    note ma = mark_keys_steps [OF ctl mk]
    have inv1: "linv (dw_ledger w1)" using fences inv by simp
    then have inva: "linv (dw_ledger wb)" using au de by (auto simp: ledger_le_def)
    have auth: "authorized (dw_ledger w') s k mid" if "k \<in> set as" for k
      using that au de ma inv1 inva w' by (auto simp: ledger_le_def s_def mid_def)
    have elig: "k \<in> set (deletion_targets m sks) \<and> is_key_eligible m k obs = Inr True" if "k \<in> set as" for k
    proof -
      from that au have "k \<in> set es" by auto
      with eligible_keys_sound [OF run(2)] show ?thesis by blast
    qed
    have "content (dw_store w') x = content (dw_store w) x
           \<or> content (dw_store w') x = None
             \<and> (\<exists>k. nk x = nk k \<and> k \<in> set (deletion_targets m sks) \<and> is_key_eligible m k obs = Inr True
                  \<and> authorized (dw_ledger w') s k mid)" for x
    proof -
      have "content (dw_store wb) x = content (dw_store wa) x
          \<or> content (dw_store wb) x = None \<and> (\<exists>k \<in> set as. nk x = nk k)" using de by blast
      then show ?thesis using auth elig au fences ma w' by auto
    qed
    moreover have "content (dw_store w') k = None \<and> deleted (dw_ledger w') s k mid" if "k \<in> set ds" for k
      using that de ma inva w' by auto
    ultimately show ?thesis using r by auto
  qed
qed

lemma delete_source_safe:
  assumes dc: "set_up dc" and inv: "linv (dw_ledger w)"
    and exec: "delete_source dc m e ok obs w = (r, w')"
  defines "s \<equiv> manifest_service m" and "mid \<equiv> am_manifest_id m" and "k \<equiv> or_text ok (so_object_key (am_source m))"
  shows "(\<forall>x. content (dw_store w') x = content (dw_store w) x
           \<or> content (dw_store w') x = None \<and> nk x = nk k \<and> is_key_eligible m k obs = Inr True
             \<and> authorized (dw_ledger w') s k mid)
    \<and> (is_ok r \<longrightarrow> content (dw_store w') k = None \<and> deleted (dw_ledger w') s k mid)"
proof -
  from dc have ctl: "controller dc" and st: "dc_store dc = store" by (simp_all add: set_up_def)
  obtain rg wg where g: "delete_guards dc m e k obs w = (rg, wg)" by fastforce
  note gk = delete_guards_keeps [OF ctl g]
  obtain ra l1 where a: "dl_authorize ledger s k mid e (dw_ledger wg) = (ra, l1)" by fastforce
  obtain rd s1 where d: "os_delete store k (dw_store wg) = (rd, s1)" by fastforce
  let ?wd = "wg\<lparr>dw_ledger := l1, dw_store := s1\<rparr>"
  obtain rm wm where mk: "mark_ledger_deleted dc s k mid e ?wd = (rm, wm)" by fastforce
  note ma = mark_ledger_deleted_steps [OF ctl mk, simplified]
  have inv': "linv (dw_ledger wg)" using gk inv by simp
  note ak = authorize_keeps [OF inv' a]
  have le: "ledger_le l1 (dw_ledger wm)" using ma by simp
  have auth: "authorized l1 s k mid \<and> authorized (dw_ledger wm) s k mid" if "is_ok ra"
    using that authorize_ok [OF inv'] a ak le by (auto simp: is_ok_iff ledger_le_def)
  have store: "content s1 x = content (dw_store w) x \<or> content s1 x = None \<and> nk x = nk k" for x
    using delete_cases [OF d] gk by (cases "nk x = nk k") (auto simp: written_def)
  have gone: "content s1 k = None" if "is_ok rd" using that delete_cases [OF d] by auto
  have run: "(dw_store w', dw_ledger w', is_ok r) =
      (if \<not> is_ok rg then (dw_store wg, dw_ledger wg, False) else if \<not> is_ok ra then (dw_store wg, l1, False)
       else if \<not> is_ok rd then (s1, l1, False) else (s1, dw_ledger wm, is_ok rm))"
    using exec g a d mk ma ctl st
    by (cases rg; cases ra; cases rd; cases rm)
      (auto simp: delete_source_def delete_one_def eff_bind_def on_ledger_def on_store_def controller_def
        k_def [symmetric] s_def [symmetric] mid_def [symmetric])
  show ?thesis
    using run gk auth store gone ma ak by (auto split: if_splits)
qed

end

subsection \<open>The PostgreSQL ledger keeps the contract\<close>

definition pg_authorized :: "pg_ledger \<Rightarrow> string \<Rightarrow> string \<Rightarrow> string \<Rightarrow> bool" where
  "pg_authorized l s k m \<longleftrightarrow>
     (\<exists>row. source_row (pl_db l) s k = Some row \<and> authorization_row (pl_db l) (src_object_id row) m \<noteq> None)"

definition pg_deleted :: "pg_ledger \<Rightarrow> string \<Rightarrow> string \<Rightarrow> string \<Rightarrow> bool" where
  "pg_deleted l s k m \<longleftrightarrow>
     (\<exists>row. source_row (pl_db l) s k = Some row \<and> src_status row = SourceDeleted \<and> src_archive_manifest_id row = Some m)"

definition pg_inv :: "pg_ledger \<Rightarrow> bool" where
  "pg_inv l \<longleftrightarrow> db_inv (pl_db l)"

lemma on_db_cases:
  assumes "on_db tx l = (r, l')"
  obtains (raised) e where "r = Inl e" "l' = l"
    | (returned) x db' where "r = Inr x" "tx (pl_db l) = Inr (x, db')" "l' = l\<lparr>pl_db := db'\<rparr>"
  using assms by (auto simp: on_db_def atomically_def split: sum.splits prod.splits)

lemma source_row_advance:
  assumes "db_inv db'" and "db_advance db db'" and "source_row db s k = Some row"
  shows "\<exists>row'. source_row db' s k = Some row' \<and> source_advance row row'"
proof -
  from assms(3) have "row \<in> set (source_objects db)" "source_key row = (s, k)"
    by (auto simp: row_lookups dest: src_tab.lookup_Some_in src_tab.lookup_Some_pk)
  with assms(2) obtain row' where row': "row' \<in> set (source_objects db')" "source_advance row row'"
    by (auto simp: db_advance_def rows_advance_def)
  with \<open>source_key row = (s, k)\<close> have "source_key row' = (s, k)" by (auto simp: source_advance_def)
  with row' src_tab.lookup_in [OF inv_keys(3) [OF assms(1)] row'(1)] show ?thesis by (auto simp: row_lookups)
qed

lemma authorization_row_advance:
  assumes "db_inv db'" and "db_advance db db'" and "authorization_row db i m \<noteq> None"
  shows "authorization_row db' i m \<noteq> None"
proof -
  from assms(3) obtain a where "a \<in> set (deletion_authorizations db)" "authorization_key a = (i, m)"
    by (auto simp: row_lookups dest: auth_tab.lookup_Some_in auth_tab.lookup_Some_pk)
  moreover from this assms(2) obtain a' where "a' \<in> set (deletion_authorizations db')" "authorization_advance a a'"
    by (auto simp: db_advance_def rows_advance_def)
  moreover have "authorization_key a' = authorization_key a" if "authorization_advance a a'"
    using that by (cases a; cases a') (auto simp: authorization_advance_def)
  ultimately have "(i, m) \<in> authorization_key ` set (deletion_authorizations db')"
    by (intro image_eqI [of _ _ a']) simp_all
  then show ?thesis by (simp add: row_lookups auth_tab.lookup_None_iff)
qed

lemma pg_authorized_advance:
  assumes "db_inv db'" and "db_advance (pl_db l) db'" and "pg_authorized l s k m" and "pl_db l' = db'"
  shows "pg_authorized l' s k m"
proof -
  from assms(3) obtain row where row: "source_row (pl_db l) s k = Some row"
    "authorization_row (pl_db l) (src_object_id row) m \<noteq> None" by (auto simp: pg_authorized_def)
  from source_row_advance [OF assms(1,2) row(1)] obtain row' where
    "source_row db' s k = Some row'" "source_advance row row'" by blast
  with authorization_row_advance [OF assms(1,2) row(2)] assms(4) show ?thesis
    by (auto simp: pg_authorized_def source_advance_def)
qed

text \<open>A step of the control plane that leaves deleted sources deleted.\<close>

definition keeps_deleted :: "control_db \<Rightarrow> control_db \<Rightarrow> bool" where
  "keeps_deleted db db' \<longleftrightarrow>
     (\<forall>s k m row. source_row db s k = Some row \<and> src_status row = SourceDeleted \<and> src_archive_manifest_id row = Some m \<longrightarrow>
        (\<exists>row'. source_row db' s k = Some row' \<and> src_status row' = SourceDeleted \<and> src_archive_manifest_id row' = Some m))"

lemma keeps_deleted_same: "source_objects db' = source_objects db \<Longrightarrow> keeps_deleted db db'"
  by (simp add: keeps_deleted_def source_row_def)

definition pg_le :: "pg_ledger \<Rightarrow> pg_ledger \<Rightarrow> bool" where
  "pg_le l l' \<longleftrightarrow> (pg_inv l \<longrightarrow> pg_inv l' \<and> (\<forall>s k m. pg_authorized l s k m \<longrightarrow> pg_authorized l' s k m)
     \<and> (\<forall>s k m. pg_deleted l s k m \<longrightarrow> pg_deleted l' s k m))"

lemma pg_le_trans: "pg_le a b \<Longrightarrow> pg_le b c \<Longrightarrow> pg_le a c"
  by (auto simp: pg_le_def)

lemma pg_le_same: "pl_db l' = pl_db l \<Longrightarrow> pg_le l l'"
  by (simp add: pg_le_def pg_inv_def pg_authorized_def pg_deleted_def)

lemma pg_le_step:
  assumes "safe_step (pl_db l) db'" and "keeps_deleted (pl_db l) db'" and "pl_db l' = db'"
  shows "pg_le l l'"
proof -
  have "pg_deleted l' s k m" if "pg_deleted l s k m" for s k m
    using that assms(2,3) by (auto simp: pg_deleted_def keeps_deleted_def)
  then show ?thesis using assms(1,3)
    by (auto simp: pg_le_def safe_step_def pg_inv_def intro: pg_authorized_advance)
qed

lemma on_db_le:
  assumes "on_db tx l = (r, l')"
    and "\<And>x db'. tx (pl_db l) = Inr (x, db') \<Longrightarrow> safe_step (pl_db l) db' \<and> keeps_deleted (pl_db l) db'"
  shows "pg_le l l'"
  using assms(1)
proof (cases rule: on_db_cases)
  case (returned x db')
  with assms(2) show ?thesis by (auto intro: pg_le_step)
qed (simp add: pg_le_same)

lemma transition_sources: "transition_archive_manifest fi clk m a b e db = Inr (x, db') \<Longrightarrow> source_objects db' = source_objects db"
  by (auto simp: transition_archive_manifest_def ebind_Inr_iff Let_def)

lemma authorize_sources:
  assumes "authorize_source_delete fi clk s k m e lease obs db = Inr (x, db')"
  shows "source_objects db' = source_objects db"
  using assms by (cases rule: authorize_source_delete_cases) auto

lemma mark_keeps_deleted:
  assumes "mark_source_deleted fi clk s k m e db = Inr (x, db')"
  shows "keeps_deleted db db'"
  using assms
proof (cases rule: mark_source_deleted_cases)
  case (marked row a rec)
  then show ?thesis by (simp add: keeps_deleted_def row_lookups deleted_db_def src_tab.lookup_update)
qed (simp add: keeps_deleted_same)

lemma promote_manifest_le:
  assumes "promote_manifest env m e l = (r, l')"
  shows "pg_le l l'"
proof (cases "m \<in> set (pl_promoted l)")
  case True
  with assms show ?thesis by (simp add: promote_manifest_def pg_le_same)
next
  case False
  obtain r1 l1 where t: "on_db (transition_archive_manifest (le_fi env) (le_clk env) m MANIFEST_COMMITTED
      DELETION_ELIGIBLE e) l = (r1, l1)" by fastforce
  have "pl_db l' = pl_db l1"
    using assms False t by (auto simp: promote_manifest_def split: sum.splits py_error.splits)
  then have "pg_le l1 l'" by (rule pg_le_same)
  moreover have "pg_le l l1"
    using t by (rule on_db_le) (auto intro: safe_transition_archive_manifest keeps_deleted_same transition_sources)
  ultimately show ?thesis by (rule pg_le_trans [rotated])
qed

lemma ledger_authorize_steps:
  assumes "ledger_authorize env s k m e l = (r, l')"
  shows "pg_le l l' \<and> (is_ok r \<longrightarrow> pg_authorized l' s k m)"
proof -
  obtain r1 l1 where p: "promote_manifest env m e l = (r1, l1)" by fastforce
  note le1 = promote_manifest_le [OF p]
  show ?thesis
  proof (cases r1)
    case (Inl err)
    with assms p le1 show ?thesis by (auto simp: ledger_authorize_def eff_bind_def)
  next
    case (Inr u)
    with assms p have a: "on_db (authorize_source_delete (le_fi env) (le_clk env) s k m e False (le_now env)) l1 = (r, l')"
      by (simp add: ledger_authorize_def eff_bind_def)
    then have "pg_le l1 l'"
      by (rule on_db_le) (auto intro: safe_authorize_source_delete keeps_deleted_same authorize_sources)
    moreover have "pg_authorized l' s k m" if "is_ok r"
      using a
    proof (cases rule: on_db_cases)
      case (returned x db')
      from authorization_certifies_row [OF returned(2)] authorize_sources [OF returned(2)] returned(3) show ?thesis
        by (auto simp: pg_authorized_def source_row_def)
    qed (use that in simp)
    ultimately show ?thesis using le1 by (blast intro: pg_le_trans)
  qed
qed

lemma ledger_mark_steps:
  assumes "ledger_mark_deleted env s k m eo l = (r, l')"
  shows "pg_le l l' \<and> (is_ok r \<longrightarrow> pg_deleted l' s k m)"
proof -
  have owner: "l1 = l" if "on_db (owner_op s) l = (r1, l1)" for r1 l1
    using that by (cases rule: on_db_cases) (auto simp: owner_op_def ebind_Inr_iff)
  from assms consider "l' = l" "\<not> is_ok r"
    | e where "on_db (mark_source_deleted (le_fi env) (le_clk env) s k m e) l = (r, l')"
    by (cases eo) (auto simp: ledger_mark_deleted_def eff_bind_def split: prod.splits sum.splits dest!: owner)
  then show ?thesis
  proof cases
    case (2 e)
    then have "pg_le l l'" by (rule on_db_le) (auto intro: safe_mark_source_deleted mark_keeps_deleted)
    moreover have "pg_deleted l' s k m" if "is_ok r"
      using 2
    proof (cases rule: on_db_cases)
      case (returned x db')
      with mark_source_deleted_row [OF returned(2)] show ?thesis by (auto simp: pg_deleted_def)
    qed (use that in simp)
    ultimately show ?thesis by blast
  qed (simp add: pg_le_same)
qed

interpretation pg: deletion_ledger "postgres_deletion_ledger env" ledger_get pg_inv pg_authorized pg_deleted
proof unfold_locales
  fix l l' s k m e x r
  show "pg_authorized l' s k m" if "dl_authorize (postgres_deletion_ledger env) s k m e l = (Inr x, l')"
    using ledger_authorize_steps [of env s k m e l] that by (auto simp: postgres_deletion_ledger_def)
  show "pg_inv l' \<and> (\<forall>s k m. pg_authorized l s k m \<longrightarrow> pg_authorized l' s k m)
      \<and> (\<forall>s k m. pg_deleted l s k m \<longrightarrow> pg_deleted l' s k m)"
    if "pg_inv l" "dl_authorize (postgres_deletion_ledger env) s k m e l = (r, l')"
    using ledger_authorize_steps [of env s k m e l] that by (auto simp: postgres_deletion_ledger_def pg_le_def)
next
  fix l l' s k m eo u v
  show "pg_deleted l' s k m" if "dl_mark (postgres_deletion_ledger env) s k m eo l = (Inr u, l')"
    using ledger_mark_steps [of env s k m eo l] that by (auto simp: postgres_deletion_ledger_def)
  show "pg_inv l' \<and> (\<forall>s k m. pg_authorized l s k m \<longrightarrow> pg_authorized l' s k m)
      \<and> (\<forall>s k m. pg_deleted l s k m \<longrightarrow> pg_deleted l' s k m)"
    if "pg_inv l" "dl_mark (postgres_deletion_ledger env) s k m eo l = (v, l')"
    using ledger_mark_steps [of env s k m eo l] that by (auto simp: postgres_deletion_ledger_def pg_le_def)
next
  fix s l w l'
  show "l' = l" if "ledger_get s l = (w, l')"
    using that unfolding ledger_get_def by (cases rule: on_db_cases) (auto simp: owner_op_def ebind_Inr_iff)
qed

subsection \<open>Properties of source deletion\<close>

interpretation mem_deletion: deletion_setup "postgres_deletion_ledger env" ledger_get pg_inv pg_authorized pg_deleted
    in_memory_object_store "\<lambda>objects. objects" "\<lambda>k. k"
  by (intro deletion_setup.intro pg.deletion_ledger_axioms mem.object_store_axioms)

text \<open>The controller as the worker builds it: S3 stores, the PostgreSQL ledger, which also checks ownership.\<close>

definition worker_controller ::
  "('s, 'b) object_store_ops \<Rightarrow> ('a, 'b) object_store_ops \<Rightarrow> 'b archive_codec \<Rightarrow> ledger_env \<Rightarrow> (string \<Rightarrow> bool)
     \<Rightarrow> ('s, 'a, pg_ledger, 'b) deletion_controller" where
  "worker_controller store archive codec env replay_active =
     \<lparr>dc_store = store, dc_archive = archive, dc_codec = codec, dc_ledger = postgres_deletion_ledger env,
      dc_replay_active = replay_active, dc_ownership = Some ledger_get\<rparr>"

lemma worker_controller_controller: "pg.controller env (worker_controller store archive codec env lease)"
  by (simp add: pg.controller_def worker_controller_def)

lemma worker_set_up:
  assumes "s3_contract client objs" and "s3_object_store client bucket prefix = Inr store"
  shows "deletion_setup (postgres_deletion_ledger env) ledger_get pg_inv pg_authorized pg_deleted store
    (s3_view objs bucket prefix) (s3_key (strip_slashes prefix))"
  by (intro deletion_setup.intro pg.deletion_ledger_axioms s3_object_store_view [OF assms])

lemma fences_ok:
  assumes "check_delete_fences (worker_controller store archive codec env lease) m s e w = (Inr u, w')"
  shows "\<not> lease (am_manifest_id m) \<and> (am_manifest_id m \<in> set (dw_verified w)
    \<or> (\<exists>a'. is_replayable archive codec (am_manifest_id m) (dw_archive w) = (Inr True, a')))"
proof -
  let ?dc = "worker_controller store archive codec env lease"
  obtain r1 w1 where own: "check_ownership ?dc s e w = (r1, w1)" by fastforce
  then have w1: "w1 = w" by (rule pg.check_ownership_keeps [OF worker_controller_controller])
  with assms own have "\<not> lease (am_manifest_id m)"
    and ver: "verify_manifest_replayable ?dc (am_manifest_id m) w = (Inr u, w')"
    by (auto simp: check_delete_fences_def eff_bind_def ensure_def worker_controller_def split: sum.splits if_splits)
  with ver show ?thesis
    by (auto simp: verify_manifest_replayable_def eff_bind_def on_archive_def worker_controller_def
        split: if_splits prod.splits sum.splits)
qed


definition example_env_ledger :: ledger_env where
  "example_env_ledger = \<lparr>le_fi = example_fi, le_clk = 46, le_now = 46\<rparr>"

definition example_world :: "(string \<Rightarrow> string objects, string \<Rightarrow> string objects, pg_ledger) del_world" where
  "example_world = \<lparr>dw_store = (\<lambda>_. [''k1'' \<mapsto> ''raw'', ''k2'' \<mapsto> ''other'']), dw_archive = (\<lambda>_. Map.empty),
     dw_ledger = \<lparr>pl_db = example_eligible, pl_promoted = []\<rparr>, dw_verified = [''m1'']\<rparr>"

definition example_store :: "(string \<Rightarrow> string objects, string) object_store_ops" where
  "example_store = (case s3_object_store bucket_client ''b'' [] of Inr st \<Rightarrow> st)"

lemma example_store_ok: "s3_object_store bucket_client ''b'' [] = Inr example_store"
  by (simp add: example_store_def s3_object_store_def Let_def)

lemma example_deletion_run:
  "fst (delete_manifest_sources (worker_controller example_store example_store example_codec example_env_ledger no_replay_lease)
     example_archive 1 None 46 example_world) = Inr [''k1'']"
  by code_simp


subsection \<open>Properties of the sweep\<close>

definition keys_listed :: "(string \<times> string list) list \<Rightarrow> int" where
  "keys_listed groups = sum_list (map (\<lambda>(_, ks). int (length ks)) groups)"

lemma keys_listed_append_key: "keys_listed (append_key mid k groups) = keys_listed groups + 1"
  by (induction mid k groups rule: append_key.induct) (auto simp: keys_listed_def)

lemma keys_listed_group:
  "keys_listed (group_by_manifest ss acc) =
     keys_listed acc + int (length (filter (\<lambda>x. src_archive_manifest_id x \<notin> {None, Some []}) ss))"
  by (induction ss acc rule: group_by_manifest.induct) (auto simp: keys_listed_append_key split: option.splits)

lemma sweep_manifests_accounts:
  "sweep_manifests dc env obs groups acc w = (Inr res, w') \<Longrightarrow>
   swept_deleted res + swept_skipped res = swept_deleted acc + swept_skipped acc + keys_listed groups"
proof (induction groups arbitrary: acc w)
  case (Cons g groups)
  obtain mid keys where g: "g = (mid, keys)" by (cases g)
  have split: "keys_listed (g # groups) = int (length keys) + keys_listed groups" by (simp add: g keys_listed_def)
  from Cons.prems obtain acc' w1 where rest: "sweep_manifests dc env obs groups acc' w1 = (Inr res, w')"
    and acc': "swept_deleted acc' + swept_skipped acc' = swept_deleted acc + swept_skipped acc + int (length keys)"
    unfolding g by (auto split: prod.splits sum.splits py_error.splits)
  from Cons.IH [OF rest] acc' split show ?case by simp
qed (simp add: keys_listed_def)

text \<open>
  C12. The sweep accounts for every source it saw: deleted and skipped add up to the sources
  that \<open>deletable_sources\<close> listed with a manifest, which are at most \<open>limit\<close>.
\<close>

theorem sweep_accounts_for_sources:
  assumes "sweep_sources dc env s limit obs w = (Inr res, w')"
  shows "\<exists>srcs. deletable_sources (le_clk env) s limit (pl_db (dw_ledger w)) = Inr (srcs, pl_db (dw_ledger w))
    \<and> swept_deleted res + swept_skipped res
        = int (length (filter (\<lambda>x. src_archive_manifest_id x \<notin> {None, Some []}) srcs))
    \<and> swept_deleted res + swept_skipped res \<le> limit"
proof -
  from assms obtain srcs w1 where d: "on_control (deletable_sources (le_clk env) s limit) w = (Inr srcs, w1)"
    and sw: "sweep_manifests dc env obs (group_by_manifest srcs []) \<lparr>swept_deleted = 0, swept_skipped = 0\<rparr> w1 = (Inr res, w')"
    by (auto simp: sweep_sources_def eff_bind_Inr_iff)
  from d obtain db' where run: "deletable_sources (le_clk env) s limit (pl_db (dw_ledger w)) = Inr (srcs, db')"
    by (auto simp: on_control_def on_ledger_def on_db_def atomically_def split: prod.splits sum.splits)
  then have "db' = pl_db (dw_ledger w)" and len: "int (length srcs) \<le> limit"
    by (auto simp: deletable_sources_def ebind_Inr_iff)
  moreover have "int (length (filter (\<lambda>x. src_archive_manifest_id x \<notin> {None, Some []}) srcs)) \<le> limit"
    using len length_filter_le [of "\<lambda>x. src_archive_manifest_id x \<notin> {None, Some []}" srcs] by linarith
  moreover have "swept_deleted res + swept_skipped res
      = int (length (filter (\<lambda>x. src_archive_manifest_id x \<notin> {None, Some []}) srcs))"
    using sweep_manifests_accounts [OF sw] keys_listed_group [of srcs "[]"] by (simp add: keys_listed_def [of "[]"])
  ultimately show ?thesis using run by auto
qed

theorem sweep_accounts_for_sources_witness:
  "\<exists>res w'. sweep_sources (worker_controller example_store example_store example_codec example_env_ledger no_replay_lease)
       example_env_ledger ''svc'' 10 46 example_world = (Inr res, w')
     \<and> swept_deleted res = 1 \<and> swept_skipped res = 0"
proof -
  have fst1: "fst (sweep_sources (worker_controller example_store example_store example_codec example_env_ledger no_replay_lease)
       example_env_ledger ''svc'' 10 46 example_world) = Inr \<lparr>swept_deleted = 1, swept_skipped = 0\<rparr>"
    by code_simp
  then obtain w' where run: "sweep_sources
      (worker_controller example_store example_store example_codec example_env_ledger no_replay_lease)
      example_env_ledger ''svc'' 10 46 example_world = (Inr \<lparr>swept_deleted = 1, swept_skipped = 0\<rparr>, w')"
    by (metis prod.collapse)
  from sweep_accounts_for_sources [OF run] run show ?thesis by fastforce
qed

text \<open>Archive expiry: the ledger mark follows the removal of the objects.\<close>

definition archived_objects :: "archive_manifest \<Rightarrow> string set" where
  "archived_objects m = {commit_key (am_manifest_id m), manifest_key (am_manifest_id m)}
     \<union> (case artifact_key (art_uri (am_artifact m)) of Inr k \<Rightarrow> {k} | Inl _ \<Rightarrow> {})"

text \<open>
  Between two worlds, deleted archive objects stay deleted, no manifest row appears or vanishes,
  and a row became expired only for one of the given manifests, whose objects are gone.
\<close>

definition expiry_ok ::
  "('a \<Rightarrow> 'b objects) \<Rightarrow> archive_manifest list \<Rightarrow> ('s, 'a) sweep_world \<Rightarrow> ('s, 'a) sweep_world \<Rightarrow> bool" where
  "expiry_ok content ms w w' \<longleftrightarrow>
     (\<forall>x. content (dw_archive w) x = None \<longrightarrow> content (dw_archive w') x = None)
     \<and> (\<forall>mid y. manifest_row (pl_db (dw_ledger w)) mid = Some y \<longrightarrow>
         (\<exists>y'. manifest_row (pl_db (dw_ledger w')) mid = Some y' \<and>
           (mr_archive_expired_at y' \<noteq> mr_archive_expired_at y \<longrightarrow>
            (\<exists>m \<in> set ms. am_manifest_id m = mid \<and> (\<forall>x \<in> archived_objects m. content (dw_archive w') x = None)))))"

lemma expiry_ok_trans:
  assumes "expiry_ok content ms w w1" and "expiry_ok content ms' w1 w'"
  shows "expiry_ok content (ms @ ms') w w'"
  unfolding expiry_ok_def
proof (intro conjI allI impI)
  fix x
  assume "content (dw_archive w) x = None"
  with assms show "content (dw_archive w') x = None" by (simp add: expiry_ok_def)
next
  fix mid y
  assume "manifest_row (pl_db (dw_ledger w)) mid = Some y"
  with assms(1) obtain y1 where y1: "manifest_row (pl_db (dw_ledger w1)) mid = Some y1"
    "mr_archive_expired_at y1 \<noteq> mr_archive_expired_at y \<longrightarrow>
       (\<exists>m \<in> set ms. am_manifest_id m = mid \<and> (\<forall>x \<in> archived_objects m. content (dw_archive w1) x = None))"
    unfolding expiry_ok_def by blast
  with assms(2) obtain y' where y': "manifest_row (pl_db (dw_ledger w')) mid = Some y'"
    "mr_archive_expired_at y' \<noteq> mr_archive_expired_at y1 \<longrightarrow>
       (\<exists>m \<in> set ms'. am_manifest_id m = mid \<and> (\<forall>x \<in> archived_objects m. content (dw_archive w') x = None))"
    unfolding expiry_ok_def by blast
  have keep: "content (dw_archive w1) x = None \<Longrightarrow> content (dw_archive w') x = None" for x
    using assms(2) by (simp add: expiry_ok_def)
  have "\<exists>m \<in> set (ms @ ms'). am_manifest_id m = mid \<and> (\<forall>x \<in> archived_objects m. content (dw_archive w') x = None)"
    if ch: "mr_archive_expired_at y' \<noteq> mr_archive_expired_at y"
  proof (cases "mr_archive_expired_at y1 = mr_archive_expired_at y")
    case True
    with y'(2) ch show ?thesis by auto
  next
    case False
    with y1(2) keep show ?thesis by fastforce
  qed
  with y'(1) show "\<exists>y'. manifest_row (pl_db (dw_ledger w')) mid = Some y' \<and>
      (mr_archive_expired_at y' \<noteq> mr_archive_expired_at y \<longrightarrow>
       (\<exists>m \<in> set (ms @ ms'). am_manifest_id m = mid \<and> (\<forall>x \<in> archived_objects m. content (dw_archive w') x = None)))"
    by blast
qed

lemma mark_archive_expired_rows:
  assumes "mark_archive_expired clk m db = Inr (u, db')" and "manifest_row db mid = Some y"
  shows "\<exists>y'. manifest_row db' mid = Some y' \<and> (mid \<noteq> m \<longrightarrow> y' = y)"
proof -
  have "mr_manifest_id y = mid" using assms(2) man_tab.lookup_Some_pk by (simp add: row_lookups)
  with assms show ?thesis
    by (auto simp: mark_archive_expired_def ebind_Inr_iff row_lookups man_tab.lookup_update)
qed

context object_store
begin

lemma expire_keeps_gone:
  assumes "expire store m s = (r, s')" and "content s x = None"
  shows "content s' x = None"
proof -
  have gone: "content t' x = None" if "os_delete store y t = (q, t')" "content t x = None" for y t q t'
    using delete_cases [OF that(1)] that(2) by (auto simp: written_def)
  from assms show ?thesis
    by (auto simp: expire_def eff_bind_def split: sum.splits prod.splits dest: gone)
qed

lemma expire_archived_objects:
  assumes "expire store m s = (Inr u, s')" and "x \<in> archived_objects m"
  shows "content s' x = None"
proof -
  from assms(1) obtain k where k: "artifact_key (art_uri (am_artifact m)) = Inr k"
    by (auto simp: expire_def eff_bind_Inr_iff)
  with assms(2) have "x \<in> {commit_key (am_manifest_id m), manifest_key (am_manifest_id m), k}"
    by (auto simp: archived_objects_def)
  with assms(1) k show ?thesis by (rule expire_removes)
qed

lemma expire_step_ok:
  assumes "eff_bind (on_archive (expire store m))
     (\<lambda>_. on_control (mark_archive_expired clk (am_manifest_id m))) w = (r, w1)"
  shows "expiry_ok content [m] w w1"
proof -
  obtain re a1 where ex: "expire store m (dw_archive w) = (re, a1)" by fastforce
  note gone = expire_keeps_gone [OF ex]
  show ?thesis
  proof (cases re)
    case (Inl e)
    with assms ex have "w1 = w\<lparr>dw_archive := a1\<rparr>" by (simp add: eff_bind_def on_archive_def)
    with gone show ?thesis by (simp add: expiry_ok_def)
  next
    case (Inr u)
    with assms ex have mark: "on_control (mark_archive_expired clk (am_manifest_id m)) (w\<lparr>dw_archive := a1\<rparr>) = (r, w1)"
      by (simp add: eff_bind_def on_archive_def)
    show ?thesis
    proof (cases "mark_archive_expired clk (am_manifest_id m) (pl_db (dw_ledger w))")
      case (Inl e)
      with mark have "w1 = w\<lparr>dw_archive := a1\<rparr>"
        by (auto simp: on_control_def on_ledger_def on_db_def atomically_def)
      with gone show ?thesis by (simp add: expiry_ok_def)
    next
      case ok: (Inr p)
      obtain db1 where p: "p = ((), db1)" by (cases p) auto
      with mark ok have w1: "w1 = w\<lparr>dw_archive := a1, dw_ledger := (dw_ledger w)\<lparr>pl_db := db1\<rparr>\<rparr>"
        by (simp add: on_control_def on_ledger_def on_db_def atomically_def)
      have objs: "\<forall>x \<in> archived_objects m. content a1 x = None"
        using expire_archived_objects ex Inr by blast
      show ?thesis unfolding expiry_ok_def
      proof (intro conjI allI impI)
        fix x
        assume "content (dw_archive w) x = None"
        with gone w1 show "content (dw_archive w1) x = None" by simp
      next
        fix mid y
        assume "manifest_row (pl_db (dw_ledger w)) mid = Some y"
        from mark_archive_expired_rows [OF ok [unfolded p] this] objs w1
        show "\<exists>y'. manifest_row (pl_db (dw_ledger w1)) mid = Some y' \<and>
           (mr_archive_expired_at y' \<noteq> mr_archive_expired_at y \<longrightarrow>
            (\<exists>m' \<in> set [m]. am_manifest_id m' = mid \<and> (\<forall>x \<in> archived_objects m'. content (dw_archive w1) x = None)))"
          by auto
      qed
    qed
  qed
qed

lemma expire_each_ok:
  assumes "expire_each env store ms w = (n, w')"
  shows "expiry_ok content ms w w' \<and> n \<le> length ms"
  using assms
proof (induction ms arbitrary: w n w')
  case Nil
  then show ?case by (auto simp: expiry_ok_def)
next
  case (Cons m ms)
  obtain r w1 where st: "eff_bind (on_archive (expire store m))
     (\<lambda>_. on_control (mark_archive_expired (le_clk env) (am_manifest_id m))) w = (r, w1)" by fastforce
  obtain n' where rest: "expire_each env store ms w1 = (n', w')" and "n \<le> Suc n'"
    using Cons.prems by (auto simp: st split: prod.splits if_splits)
  with Cons.IH [OF rest] expiry_ok_trans [OF expire_step_ok [OF st], of ms w'] show ?case by simp
qed

end

lemma map_result_member: "map_result f xs = Inr ys \<Longrightarrow> y \<in> set ys \<Longrightarrow> \<exists>x \<in> set xs. f x = Inr y"
  by (induction xs arbitrary: ys) (auto simp: ebind_Inr_iff)

lemma decode_manifests_member:
  assumes "decode_manifests fi rows = Inr ms" and "m \<in> set ms"
  shows "\<exists>r \<in> set rows. \<exists>rec. archive_from_row fi r [] = Inr rec \<and> m = amr_manifest rec"
proof -
  from assms obtain recs rec where recs: "map_result (\<lambda>r. archive_from_row fi r []) rows = Inr recs"
    and "rec \<in> set recs" "m = amr_manifest rec"
    by (auto simp: decode_manifests_def ebind_Inr_iff)
  with map_result_member [OF recs] show ?thesis by blast
qed

lemma expirable_selected:
  assumes "expirable_archive_manifests fi clk s (with_margin ret) limit db = Inr (ms, db')"
  shows "\<forall>m \<in> set ms. \<exists>r \<in> set (archive_manifests db). \<exists>(d, days) \<in> set ret.
     (\<exists>rec. archive_from_row fi r [] = Inr rec \<and> m = amr_manifest rec) \<and> mr_service_id r = s
     \<and> mr_state r = SOURCE_DELETED \<and> mr_archive_expired_at r = None
     \<and> mr_domain r = d \<and> 0 < days \<and> mr_coverage_end r < clk - (days + 1) * DAY"
proof
  fix m
  assume m: "m \<in> set ms"
  let ?q = "\<lambda>r. mr_service_id r = s \<and> mr_state r = SOURCE_DELETED \<and> mr_archive_expired_at r = None
     \<and> list_ex (\<lambda>(d, days). mr_domain r = d \<and> mr_coverage_end r < clk - days * DAY)
         (filter (\<lambda>(_, days). 0 < days) (with_margin ret))"
  from assms m have "decode_manifests fi (take (nat limit) (sort_key mr_coverage_end (sql_select ?q (archive_manifests db)))) = Inr ms"
    by (auto simp: expirable_archive_manifests_def ebind_Inr_iff Let_def split: if_splits)
  with m obtain r rec where r: "r \<in> set (take (nat limit) (sort_key mr_coverage_end (sql_select ?q (archive_manifests db))))"
    and rec: "archive_from_row fi r [] = Inr rec" "m = amr_manifest rec"
    using decode_manifests_member by blast
  from r have "r \<in> set (archive_manifests db)" "?q r"
    by (auto dest!: in_set_takeD simp: sql_select_def)
  moreover from this obtain d days where "(d, days) \<in> set ret" "mr_domain r = d" "0 < days"
    "mr_coverage_end r < clk - (days + 1) * DAY"
    by (auto simp: list_ex_iff with_margin_def MARGIN_DAYS_def split: if_splits)
  ultimately show "\<exists>r \<in> set (archive_manifests db). \<exists>(d, days) \<in> set ret.
     (\<exists>rec. archive_from_row fi r [] = Inr rec \<and> m = amr_manifest rec) \<and> mr_service_id r = s
     \<and> mr_state r = SOURCE_DELETED \<and> mr_archive_expired_at r = None
     \<and> mr_domain r = d \<and> 0 < days \<and> mr_coverage_end r < clk - (days + 1) * DAY"
    using rec by blast
qed

text \<open>
  Archive expiry marks only what it removed: after an expiry run on S3, a manifest of the
  ledger has become expired only if it was selected, which requires that its sources are all
  deleted and its coverage ended before the configured retention plus a day, and its commit
  marker, manifest document and artifact are gone from the bucket. The count is at most \<open>limit\<close>.
\<close>

theorem archive_expiry_marks_removed:
  assumes "s3_contract client objs" and "s3_object_store client bucket prefix = Inr store"
    and "archive_expirer_expire env store loader s limit w = (Inr n, w')"
  shows "\<exists>ms. expirable_archive_manifests (le_fi env) (le_clk env) s (with_margin (loader s)) limit (pl_db (dw_ledger w))
        = Inr (ms, pl_db (dw_ledger w))
    \<and> n \<le> length ms \<and> expiry_ok (s3_view objs bucket prefix) ms w w'
    \<and> (\<forall>m \<in> set ms. \<exists>r \<in> set (archive_manifests (pl_db (dw_ledger w))). \<exists>(d, days) \<in> set (loader s).
         (\<exists>rec. archive_from_row (le_fi env) r [] = Inr rec \<and> m = amr_manifest rec) \<and> mr_service_id r = s
         \<and> mr_state r = SOURCE_DELETED \<and> mr_archive_expired_at r = None
         \<and> mr_domain r = d \<and> 0 < days \<and> mr_coverage_end r < le_clk env - (days + 1) * DAY)"
proof -
  from assms(3) obtain ms w1 n' where
    e: "on_control (expirable_archive_manifests (le_fi env) (le_clk env) s (with_margin (loader s)) limit) w = (Inr ms, w1)"
    and each: "expire_each env store ms w1 = (n', w')" and n: "n = n'"
    unfolding archive_expirer_expire_def eff_bind_Inr_iff by (auto split: prod.splits) (metis surj_pair)
  from e obtain db' where run: "expirable_archive_manifests (le_fi env) (le_clk env) s (with_margin (loader s)) limit
      (pl_db (dw_ledger w)) = Inr (ms, db')" and w1: "w1 = w\<lparr>dw_ledger := (dw_ledger w)\<lparr>pl_db := db'\<rparr>\<rparr>"
    by (auto simp: on_control_def on_ledger_def on_db_def atomically_def split: prod.splits sum.splits)
  then have db': "db' = pl_db (dw_ledger w)"
    by (auto simp: expirable_archive_manifests_def ebind_Inr_iff Let_def split: if_splits)
  with w1 have "w1 = w" by simp
  with object_store.expire_each_ok [OF s3_object_store_view [OF assms(1,2)] each] run db' n expirable_selected [OF run]
  show ?thesis by auto
qed

definition example_expiry_world :: "(unit, string \<Rightarrow> string objects) sweep_world" where
  "example_expiry_world = \<lparr>dw_store = (), dw_archive = (\<lambda>_. [''archive/manifests/m1.commit'' \<mapsto> ''c'']),
     dw_ledger = \<lparr>pl_db = example_deleted, pl_promoted = []\<rparr>, dw_verified = []\<rparr>"

definition example_expiry_env :: ledger_env where
  "example_expiry_env = \<lparr>le_fi = example_fi, le_clk = 400 * DAY, le_now = 400 * DAY\<rparr>"

theorem archive_expiry_marks_removed_witness:
  "\<exists>n w'. archive_expirer_expire example_expiry_env example_store (\<lambda>_. [(''request'', 30)]) ''svc'' 10
       example_expiry_world = (Inr n, w')
     \<and> expiry_ok (s3_view (\<lambda>s. s) ''b'' []) [example_archive] example_expiry_world w'"
proof -
  have "fst (archive_expirer_expire example_expiry_env example_store (\<lambda>_. [(''request'', 30)]) ''svc'' 10
       example_expiry_world) = Inr 1"
    by code_simp
  then obtain w' where run: "archive_expirer_expire example_expiry_env example_store (\<lambda>_. [(''request'', 30)]) ''svc'' 10
       example_expiry_world = (Inr 1, w')"
    by (metis prod.collapse)
  have "expirable_archive_manifests (le_fi example_expiry_env) (le_clk example_expiry_env) ''svc''
      (with_margin ((\<lambda>_. [(''request'', 30)]) ''svc'')) 10 (pl_db (dw_ledger example_expiry_world))
    = Inr ([example_archive], pl_db (dw_ledger example_expiry_world))"
    by code_simp
  with archive_expiry_marks_removed [OF bucket_client_contract example_store_ok run] run show ?thesis by auto
qed

end
