(* ===== verification/Base64.thy ===== *)
theory Base64
  imports Prelude
begin

text \<open>
  Base64 as Python's \<open>base64\<close> module has it: \<open>b64encode\<close> and \<open>urlsafe_b64encode\<close> (which the dead
  letters and the query cursors use) and the lenient decoder behind \<open>urlsafe_b64decode\<close>, which skips
  characters outside the alphabet and stops at a complete padding. Also \<open>_b64\<close> and \<open>_unb64\<close> of
  \<open>high_scale/_common.py\<close>, which drop and restore the padding. Bytes are characters.
\<close>

definition b64_index :: "char \<Rightarrow> nat option" where
  "b64_index c =
     (let n = of_char c :: nat
      in if 65 \<le> n \<and> n \<le> 90 then Some (n - 65)
         else if 97 \<le> n \<and> n \<le> 122 then Some (n - 71)
         else if 48 \<le> n \<and> n \<le> 57 then Some (n + 4)
         else if c = CHR ''+'' \<or> c = CHR ''-'' then Some 62
         else if c = CHR ''/'' \<or> c = CHR ''_'' then Some 63
         else None)"

text \<open>The standard alphabet ends with \<open>+\<close> and \<open>/\<close>, the URL-safe one with \<open>-\<close> and \<open>_\<close>.\<close>

definition b64_letter :: "bool \<Rightarrow> nat \<Rightarrow> char" where
  "b64_letter urlsafe v =
     (if v < 26 then char_of (v + 65) else if v < 52 then char_of (v + 71) else if v < 62 then char_of (v - 4)
      else if v = 62 then (if urlsafe then CHR ''-'' else CHR ''+'')
      else (if urlsafe then CHR ''_'' else CHR ''/''))"

definition byte_of :: "char \<Rightarrow> nat" where
  "byte_of c = of_char c"

fun b64_body :: "bool \<Rightarrow> string \<Rightarrow> string" where
  "b64_body u [] = []"
| "b64_body u [a] = [b64_letter u (byte_of a div 4), b64_letter u (byte_of a mod 4 * 16)]"
| "b64_body u [a, b] =
     [b64_letter u (byte_of a div 4), b64_letter u (byte_of a mod 4 * 16 + byte_of b div 16),
      b64_letter u (byte_of b mod 16 * 4)]"
| "b64_body u (a # b # c # s) =
     b64_letter u (byte_of a div 4) # b64_letter u (byte_of a mod 4 * 16 + byte_of b div 16)
       # b64_letter u (byte_of b mod 16 * 4 + byte_of c div 64) # b64_letter u (byte_of c mod 64) # b64_body u s"

definition b64_padding :: "string \<Rightarrow> string" where
  "b64_padding s = replicate ((3 - length s mod 3) mod 3) (CHR ''='')"

definition b64encode :: "string \<Rightarrow> string" where
  "b64encode s = b64_body False s @ b64_padding s"

definition urlsafe_b64encode :: "string \<Rightarrow> string" where
  "urlsafe_b64encode s = b64_body True s @ b64_padding s"

text \<open>The decoder keeps the position in the group of four, the bits left over and the pads seen.\<close>

fun a2b_base64 :: "nat \<Rightarrow> nat \<Rightarrow> nat \<Rightarrow> string \<Rightarrow> string option" where
  "a2b_base64 q left pads [] = (if q = 0 then Some [] else None)"
| "a2b_base64 q left pads (c # s) =
     (if c = CHR ''=''
      then (if 2 \<le> q then (if 4 \<le> q + pads + 1 then Some [] else a2b_base64 q left (pads + 1) s)
            else a2b_base64 q left pads s)
      else case b64_index c of
             None \<Rightarrow> a2b_base64 q left pads s
           | Some v \<Rightarrow>
               if q = 0 then a2b_base64 1 v 0 s
               else if q = 1 then map_option ((#) (char_of (left * 4 + v div 16))) (a2b_base64 2 (v mod 16) 0 s)
               else if q = 2 then map_option ((#) (char_of (left * 16 + v div 4))) (a2b_base64 3 (v mod 4) 0 s)
               else map_option ((#) (char_of (left * 64 + v))) (a2b_base64 0 0 0 s))"

definition urlsafe_b64decode :: "string \<Rightarrow> string option" where
  "urlsafe_b64decode s = a2b_base64 0 0 0 s"

definition b64 :: "string \<Rightarrow> string" where
  "b64 v = rstrip_chars (\<lambda>c. c = CHR ''='') (urlsafe_b64encode v)"

definition unb64 :: "string \<Rightarrow> string result" where
  "unb64 v =
     (case urlsafe_b64decode (v @ replicate ((4 - length v mod 4) mod 4) (CHR ''='')) of
        None \<Rightarrow> Inl (ValueError ''Incorrect padding'')
      | Some s \<Rightarrow> Inr s)"

subsection \<open>Decoding an encoding\<close>

lemma byte_of_less [simp]: "byte_of c < 256"
  by (simp add: byte_of_def)

lemma char_of_byte_of [simp]: "char_of (byte_of c) = c"
  by (simp add: byte_of_def)

lemma b64_letter_index [simp]: "v < 64 \<Longrightarrow> b64_index (b64_letter u v) = Some v"
  by (auto simp: b64_letter_def b64_index_def Let_def)

lemma b64_letter_other: "b64_index c = None \<Longrightarrow> v < 64 \<Longrightarrow> b64_letter u v \<noteq> c \<and> c \<noteq> b64_letter u v"
  using b64_letter_index [of v u] by auto

lemma b64_letter_no_pad [simp]: "v < 64 \<Longrightarrow> b64_letter u v \<noteq> CHR ''=''" "v < 64 \<Longrightarrow> CHR ''='' \<noteq> b64_letter u v"
  using b64_letter_other [of "CHR ''=''" v u] by (simp_all add: b64_index_def)

lemma b64_parts [simp]:
  "byte_of a div 4 < 64" "byte_of a mod 4 * 16 < 64" "byte_of a mod 4 * 16 + byte_of b div 16 < 64"
  "byte_of b mod 16 * 4 < 64" "byte_of b mod 16 * 4 + byte_of c div 64 < 64" "byte_of c mod 64 < 64"
proof -
  have "byte_of a div 4 < 64" "byte_of b div 16 < 16" "byte_of c div 64 < 4"
    by (simp_all add: less_mult_imp_div_less)
  moreover have "byte_of a mod 4 < 4" "byte_of b mod 16 < 16" "byte_of c mod 64 < 64" by simp_all
  ultimately show "byte_of a div 4 < 64" "byte_of a mod 4 * 16 < 64" "byte_of a mod 4 * 16 + byte_of b div 16 < 64"
    "byte_of b mod 16 * 4 < 64" "byte_of b mod 16 * 4 + byte_of c div 64 < 64" "byte_of c mod 64 < 64"
    by linarith+
qed

lemma b64_carries [simp]:
  "byte_of b div 16 div 16 = 0" "byte_of c div 64 div 4 = 0"
  "byte_of b div 16 mod 16 = byte_of b div 16" "byte_of c div 64 mod 4 = byte_of c div 64"
proof -
  have "byte_of b div 16 < 16" "byte_of c div 64 < 4" by (simp_all add: less_mult_imp_div_less)
  then show "byte_of b div 16 div 16 = 0" "byte_of c div 64 div 4 = 0"
    "byte_of b div 16 mod 16 = byte_of b div 16" "byte_of c div 64 mod 4 = byte_of c div 64" by simp_all
qed

lemma b64_body_no_pad: "CHR ''='' \<notin> set (b64_body u s)"
  by (induction u s rule: b64_body.induct) simp_all

lemma a2b_body: "a2b_base64 0 0 0 (b64_body u s @ b64_padding s) = Some s"
  by (induction u s rule: b64_body.induct) (simp_all add: b64_padding_def numeral_2_eq_2)

lemma b64encode_inj: "b64encode s = b64encode t \<Longrightarrow> s = t"
  using a2b_body [of False s] a2b_body [of False t] unfolding b64encode_def by (metis option.inject)

lemma b64_body_length: "(4 - length (b64_body u s) mod 4) mod 4 = (3 - length s mod 3) mod 3"
proof (induction u s rule: b64_body.induct)
  case (4 u a b c s)
  have "Suc (Suc (Suc (Suc n))) mod 4 = n mod 4" "Suc (Suc (Suc n)) mod 3 = n mod 3" for n
    by presburger+
  with 4 show ?case by simp
qed simp_all

lemma rstrip_replicate: "c \<notin> set s \<Longrightarrow> rstrip_chars (\<lambda>x. x = c) (s @ replicate n c) = s"
proof -
  assume c: "c \<notin> set s"
  have "dropWhile (\<lambda>x. x = c) (rev s) = rev s" using c by (cases "rev s") auto
  then have "dropWhile (\<lambda>x. x = c) (replicate n c @ rev s) = rev s" by (induction n) simp_all
  then show ?thesis by (simp add: rstrip_chars_def)
qed

lemma b64_eq: "b64 v = b64_body True v"
  by (simp add: b64_def urlsafe_b64encode_def b64_padding_def rstrip_replicate b64_body_no_pad)

lemma unb64_b64 [simp]: "unb64 (b64 v) = Inr v"
  using a2b_body [of True v] b64_body_length [of True v]
  by (simp add: unb64_def urlsafe_b64decode_def b64_eq b64_padding_def)

lemma b64_no_dot: "CHR ''.'' \<notin> set (b64 v)"
proof -
  have "CHR ''.'' \<noteq> b64_letter u n" if "n < 64" for u n
    using b64_letter_other [of "CHR ''.''" n u] that by (simp add: b64_index_def)
  then have "CHR ''.'' \<notin> set (b64_body u v)" for u
    by (induction u v rule: b64_body.induct) simp_all
  then show ?thesis by (simp add: b64_eq)
qed

end
