(* ===== verification/Ingest_Controller.thy ===== *)
theory Ingest_Controller
  imports Aggregates Deletion Base64
begin

text \<open>
  \<open>HighScaleIngestController\<close> of \<open>ingest_controller/coordinator.py\<close>, as the worker builds it: with the
  PostgreSQL control plane, whose tables also hold the publication manifests. The code paths for a
  ledger without a control plane are not used by the program.

  The world of a controller is the control database, the archive store and ClickHouse. Every call of
  the control plane is one transaction. The controller has a schedule: before its \<open>n\<close>th call the
  function \<open>ic_peers n\<close> is applied to the database, which stands for whatever other workers, sweepers
  and operators have committed since the call before, and \<open>ic_clock n\<close> is the database clock then.
  The theorems assume of the peers that they are runs of control-plane operations that do not
  withdraw a visible publication. Parameters: the decoder and batch environments, the
  archive codec, the two ClickHouse adapters, the lookup of bot records, and the builders of the
  CMCD, origin, performance, security and network projections.
\<close>

subsection \<open>Descriptors, results, worlds\<close>

record source_descriptor =
  sd_object_key :: string
  sd_checksum :: string
  sd_size_bytes :: int
  sd_version :: "string option"

record batch_ingest_result =
  bi_manifest :: "archive_manifest option"
  bi_publication :: batch_publication_result
  bi_total_events :: int
  bi_quarantined_events :: int
  bi_sources_count :: int
  bi_derived_complete :: bool

record ('a, 'c) ingest_world =
  iw_db :: control_db
  iw_archive :: 'a
  iw_serving :: 'c
  iw_calls :: nat

record bot_record =
  bot_name :: json
  bot_category :: json
  bot_wellknown :: json

record ('a, 'b, 'c) ingest_controller =
  ic_worker_id :: string
  ic_transform_version :: string
  ic_schema_version :: string
  ic_archive_epoch :: int
  ic_retention_seconds :: int
  ic_deletion_grace_seconds :: int
  ic_lease :: duration
  ic_archive :: "('a, 'b) object_store_ops"
  ic_codec :: "'b archive_codec"
  ic_checkpoint :: "'b checkpoint_env"
  ic_root :: string
  ic_decoder :: decode_env
  ic_batch_env :: batch_env
  ic_serving :: "timestamp \<Rightarrow> high_scale_batch \<Rightarrow> ('c, insert_receipt) eff"
  ic_aggregates :: "(timestamp \<Rightarrow> high_scale_batch \<Rightarrow> ('c, insert_receipt) eff) option"
  ic_bots :: "string list \<Rightarrow> (string \<times> bot_record) list option"
  ic_project_cmcd :: "row \<Rightarrow> row option result"
  ic_projections :: "row list \<Rightarrow> (string \<times> row list) list result"
  ic_clock :: "nat \<Rightarrow> timestamp"
  ic_peers :: "nat \<Rightarrow> control_db \<Rightarrow> control_db"

definition HIGH_SCALE_PAGE_MAX_BYTES :: int where
  "HIGH_SCALE_PAGE_MAX_BYTES = 64 * 1024 * 1024"

definition HIGH_SCALE_MAX_DEAD_LETTER_RATIO :: rat where
  "HIGH_SCALE_MAX_DEAD_LETTER_RATIO = 1 / 20"

definition RUM_SIBLING_DOMAIN :: "(string \<times> string) list" where
  "RUM_SIBLING_DOMAIN = [(''rum_vitals'', ''rum_errors''), (''rum_errors'', ''rum_vitals'')]"

text \<open>The checks of the constructor.\<close>

definition check_controller :: "('a, 'b, 'c) ingest_controller \<Rightarrow> unit result" where
  "check_controller ic =
     ebind (ensure (ic_worker_id ic \<noteq> []) (ValueError ''worker identity is required'')) (\<lambda>_.
     ensure (0 < ic_lease ic) (ValueError ''lease duration must be positive''))"

subsection \<open>Calls\<close>

definition control_call ::
  "('a, 'b, 'c) ingest_controller \<Rightarrow> (timestamp \<Rightarrow> 'x txn) \<Rightarrow> (('a, 'c) ingest_world, 'x) eff" where
  "control_call ic tx w =
     (let n = iw_calls w;
          (r, db') = atomically (tx (ic_clock ic n)) (ic_peers ic n (iw_db w))
      in (r, w\<lparr>iw_db := db', iw_calls := Suc n\<rparr>))"

definition publish_call ::
  "('a, 'b, 'c) ingest_controller \<Rightarrow> (timestamp \<Rightarrow> high_scale_batch \<Rightarrow> ('c, insert_receipt) eff) \<Rightarrow> high_scale_batch
     \<Rightarrow> (('a, 'c) ingest_world, batch_publication_result) eff" where
  "publish_call ic client_insert batch w =
     (let n = iw_calls w;
          (r, db', c') = clickhouse_publish (ic_batch_env ic) (postgres_batch_manifest_store (ic_clock ic n))
             (client_insert (ic_clock ic n)) batch (ic_peers ic n (iw_db w), iw_serving w)
      in (r, w\<lparr>iw_db := db', iw_serving := c', iw_calls := Suc n\<rparr>))"

definition archive_call :: "('a, 'x) eff \<Rightarrow> (('a, 'c) ingest_world, 'x) eff" where
  "archive_call m w = (let (r, a) = m (iw_archive w) in (r, w\<lparr>iw_archive := a\<rparr>))"

text \<open>\<open>except Exception as exc: return False, str(exc)\<close>\<close>

definition guarded :: "('w, unit) eff \<Rightarrow> ('w, bool \<times> string option) eff" where
  "guarded m w = (case m w of (Inr _, w') \<Rightarrow> (Inr (True, None), w') | (Inl e, w') \<Rightarrow> (Inr (False, Some (error_text e)), w'))"

definition batch_id_for :: "('a, 'b, 'c) ingest_controller \<Rightarrow> string \<Rightarrow> string result" where
  "batch_id_for ic text_id = build_batch_id_from_manifest_id (be_sha_uuid (ic_batch_env ic)) text_id"

subsection \<open>Derived publications\<close>

fun publish_projections ::
  "('a, 'b, 'c) ingest_controller \<Rightarrow> (timestamp \<Rightarrow> high_scale_batch \<Rightarrow> ('c, insert_receipt) eff) \<Rightarrow> string \<Rightarrow> string \<Rightarrow> int
     \<Rightarrow> (string \<times> row list) list \<Rightarrow> (('a, 'c) ingest_world, unit) eff" where
  "publish_projections ic ins service_id manifest_id owner_epoch [] = eff_return ()"
| "publish_projections ic ins service_id manifest_id owner_epoch ((sub_domain, rows) # ps) =
     eff_bind
       (if rows = [] then eff_return ()
        else eff_bind (eff_lift (batch_id_for ic (manifest_id @ '':'' @ sub_domain))) (\<lambda>sub_id.
             eff_bind (publish_call ic ins \<lparr>hb_batch_id = sub_id, hb_service_id = service_id, hb_domain = sub_domain,
                         hb_generation = show_int owner_epoch, hb_rows = rows\<rparr>) (\<lambda>_. eff_return ())))
       (\<lambda>_. publish_projections ic ins service_id manifest_id owner_epoch ps)"

definition publish_aggregates_batch ::
  "('a, 'b, 'c) ingest_controller \<Rightarrow> string \<Rightarrow> string \<Rightarrow> string \<Rightarrow> int \<Rightarrow> row list
     \<Rightarrow> (('a, 'c) ingest_world, bool \<times> string option) eff" where
  "publish_aggregates_batch ic service_id domain manifest_id owner_epoch events =
     (case ic_aggregates ic of
        None \<Rightarrow> eff_return (True, None)
      | Some ins \<Rightarrow>
          if events = [] then eff_return (True, None)
          else guarded
            (eff_bind (eff_lift (compute_dimension_counts (ic_batch_env ic) (ac_isoformat (ic_codec ic)) domain events)) (\<lambda>counts.
             eff_bind
               (if counts = [] then eff_return ()
                else eff_bind (eff_lift (batch_id_for ic (manifest_id @ '':'' @ domain @ ''_aggregate''))) (\<lambda>agg_id.
                     eff_bind (publish_call ic ins \<lparr>hb_batch_id = agg_id, hb_service_id = service_id,
                                 hb_domain = domain @ ''_aggregate'', hb_generation = show_int owner_epoch,
                                 hb_rows = counts\<rparr>) (\<lambda>_. eff_return ()))) (\<lambda>_.
             if domain = ''request''
             then eff_bind (eff_lift (ic_projections ic events)) (\<lambda>ps.
                  publish_projections ic ins service_id manifest_id owner_epoch ps)
             else eff_return ()))))"

text \<open>Events without CMCD fields and events the projection rejects with \<open>ValueError\<close> are skipped.\<close>

fun cmcd_rows :: "(row \<Rightarrow> row option result) \<Rightarrow> row list \<Rightarrow> row list result" where
  "cmcd_rows project [] = Inr []"
| "cmcd_rows project (e # es) =
     (if \<not> json_truthy (row_get e ''cmcd'') then cmcd_rows project es
      else case project e of
             Inl (ValueError _) \<Rightarrow> cmcd_rows project es
           | Inl err \<Rightarrow> Inl err
           | Inr None \<Rightarrow> cmcd_rows project es
           | Inr (Some p) \<Rightarrow> ebind (cmcd_rows project es) (\<lambda>ps. Inr (p # ps)))"

definition publish_cmcd_projection ::
  "('a, 'b, 'c) ingest_controller \<Rightarrow> string \<Rightarrow> string \<Rightarrow> int \<Rightarrow> row list \<Rightarrow> (('a, 'c) ingest_world, bool \<times> string option) eff" where
  "publish_cmcd_projection ic service_id batch_id owner_epoch events =
     guarded
       (eff_bind (eff_lift (cmcd_rows (ic_project_cmcd ic) events)) (\<lambda>rows.
        if rows = [] then eff_return ()
        else eff_bind (publish_call ic (ic_serving ic) \<lparr>hb_batch_id = batch_id, hb_service_id = service_id, hb_domain = ''cmcd'',
                         hb_generation = show_int owner_epoch, hb_rows = rows\<rparr>) (\<lambda>_. eff_return ())))"

definition publish_sibling ::
  "('a, 'b, 'c) ingest_controller \<Rightarrow> string \<Rightarrow> string \<Rightarrow> string \<Rightarrow> string \<Rightarrow> int \<Rightarrow> row list
     \<Rightarrow> (('a, 'c) ingest_world, bool \<times> string option) eff" where
  "publish_sibling ic service_id sibling sibling_batch_id manifest_id owner_epoch events =
     eff_bind
       (guarded (eff_bind (publish_call ic (ic_serving ic) \<lparr>hb_batch_id = sibling_batch_id, hb_service_id = service_id,
                   hb_domain = sibling, hb_generation = show_int owner_epoch, hb_rows = events\<rparr>) (\<lambda>_. eff_return ())))
       (\<lambda>(ok, err). if ok then publish_aggregates_batch ic service_id sibling manifest_id owner_epoch events
                    else eff_return (ok, err))"

subsection \<open>The control manifest\<close>

definition CONTROL_STATES :: "archive_state list" where
  "CONTROL_STATES = [ARTIFACT_UPLOADING, ARTIFACT_VERIFIED, MANIFEST_PREPARED, MANIFEST_COMMITTED]"

text \<open>The transitions from a registered state to the last of the listed states.\<close>

fun walk_states ::
  "('a, 'b, 'c) ingest_controller \<Rightarrow> string \<Rightarrow> int \<Rightarrow> archive_state \<Rightarrow> archive_state list \<Rightarrow> (('a, 'c) ingest_world, unit) eff" where
  "walk_states ic manifest_id owner_epoch current [] = eff_return ()"
| "walk_states ic manifest_id owner_epoch current (next_state # states) =
     eff_bind (control_call ic (\<lambda>clk. transition_archive_manifest (ac_fromisoformat (ic_codec ic)) clk manifest_id current
                 next_state owner_epoch)) (\<lambda>_.
     walk_states ic manifest_id owner_epoch next_state states)"

definition publish_control_manifest ::
  "('a, 'b, 'c) ingest_controller \<Rightarrow> archive_manifest \<Rightarrow> int \<Rightarrow> (('a, 'c) ingest_world, unit) eff" where
  "publish_control_manifest ic manifest owner_epoch =
     eff_bind (control_call ic (\<lambda>clk. register_archive_manifest (ac_fromisoformat (ic_codec ic)) clk manifest owner_epoch
                 MANIFEST_COMMITTED)) (\<lambda>registered.
     if amr_state registered \<notin> set CONTROL_STATES then eff_raise (ValueError ''archive state is not in list'')
     else walk_states ic (am_manifest_id manifest) owner_epoch (amr_state registered)
            (tl (dropWhile (\<lambda>s. s \<noteq> amr_state registered) CONTROL_STATES)))"

subsection \<open>Bot enrichment\<close>

definition waf_id :: "('a, 'b, 'c) ingest_controller \<Rightarrow> row \<Rightarrow> string" where
  "waf_id ic e = (if json_truthy (row_get e ''waf_req_id'') then de_str (ic_decoder ic) (row_get e ''waf_req_id'') else [])"

definition with_bot :: "bot_record \<Rightarrow> row \<Rightarrow> row" where
  "with_bot b e =
     (let e1 = dict_set ''ngwaf_bot'' (bot_name b) (dict_set ''_ngwaf_bot_name'' (bot_name b) e);
          e2 = dict_set ''_ngwaf_wellknown_bot_name'' (bot_wellknown b) (dict_set ''_ngwaf_bot_category'' (bot_category b) e1);
          e3 = dict_set ''ngwaf_bot_verification_state'' (JStr ''verified'') e2;
          e4 = (if json_truthy (bot_category b) then dict_set ''ngwaf_bot_category'' (bot_category b) e3 else e3)
      in if json_truthy (bot_wellknown b) then dict_set ''ngwaf_wellknown_bot'' (bot_wellknown b) e4 else e4)"

text \<open>A failing lookup leaves the events as they are; of several records for an id the last counts.\<close>

definition enrich_ngwaf_bots :: "('a, 'b, 'c) ingest_controller \<Rightarrow> row list \<Rightarrow> row list" where
  "enrich_ngwaf_bots ic events =
     (let ids = remdups (map (waf_id ic) (filter (\<lambda>e. json_truthy (row_get e ''waf_req_id'')) events))
      in if ids = [] then events
         else case ic_bots ic ids of
                None \<Rightarrow> events
              | Some rows \<Rightarrow>
                  map (\<lambda>e. if waf_id ic e = [] then e
                           else case map_of (rev rows) (waf_id ic e) of None \<Rightarrow> e | Some b \<Rightarrow> with_bot b e) events)"

subsection \<open>One batch\<close>

definition dead_letter_row :: "dead_letter \<Rightarrow> row" where
  "dead_letter_row d =
     [(''_record_kind'', JStr ''dead_letter''), (''source_object_key'', JStr (dl_source_object_key d)),
      (''line_ordinal'', JInt (int (dl_line_ordinal d))), (''raw_line_base64'', JStr (b64encode (dl_raw_line d))),
      (''reason'', JStr (dl_reason d))]"

definition archive_rows :: "decode_result \<Rightarrow> row list" where
  "archive_rows decoded =
     map (dict_set ''_record_kind'' (JStr ''event'')) (dr_events decoded) @ map dead_letter_row (dr_dead_letters decoded)"

definition sibling_events ::
  "('a, 'b, 'c) ingest_controller \<Rightarrow> archive_source_object \<Rightarrow> string \<Rightarrow> string \<Rightarrow> row list result" where
  "sibling_events ic source domain payload =
     (case map_of RUM_SIBLING_DOMAIN domain of
        None \<Rightarrow> Inr []
      | Some sibling \<Rightarrow>
          ebind (decode_source_object (ic_decoder ic) (source\<lparr>so_domain := sibling\<rparr>) payload (ic_transform_version ic)
                   (Some sibling)) (\<lambda>decoded.
          Inr (filter (row_matches_serving_domain sibling) (dr_events decoded))))"

record decoded_batch =
  db_batches :: "(archive_source_object \<times> row list) list"
  db_events :: "row list"
  db_sibling_events :: "row list"
  db_accepted :: int
  db_quarantined :: int

definition archive_source_of :: "string \<Rightarrow> string \<Rightarrow> source_descriptor \<times> string \<Rightarrow> archive_source_object" where
  "archive_source_of service_id domain dp =
     \<lparr>so_service_id = service_id, so_domain = domain, so_object_key = sd_object_key (fst dp),
      so_checksum = sd_checksum (fst dp), so_size_bytes = int (length (snd dp)), so_version = sd_version (fst dp)\<rparr>"

text \<open>The loop over the source objects: decode, record the counts, decode the sibling domain.\<close>

fun decode_sources ::
  "('a, 'b, 'c) ingest_controller \<Rightarrow> string \<Rightarrow> string \<Rightarrow> int \<Rightarrow> (source_descriptor \<times> string) list
     \<Rightarrow> (('a, 'c) ingest_world, decoded_batch) eff" where
  "decode_sources ic service_id domain epoch [] =
     eff_return \<lparr>db_batches = [], db_events = [], db_sibling_events = [], db_accepted = 0, db_quarantined = 0\<rparr>"
| "decode_sources ic service_id domain epoch (dp # dps) =
     (let source = archive_source_of service_id domain dp
      in eff_bind (eff_lift (decode_source_object (ic_decoder ic) source (snd dp) (ic_transform_version ic) (Some domain))) (\<lambda>decoded.
         eff_bind (control_call ic (\<lambda>clk. record_source_counts clk service_id (sd_object_key (fst dp))
                     (dr_accepted_rows decoded) (dr_quarantined_rows decoded) epoch)) (\<lambda>_.
         eff_bind (eff_lift (sibling_events ic source domain (snd dp))) (\<lambda>siblings.
         eff_bind (decode_sources ic service_id domain epoch dps) (\<lambda>more.
         eff_return \<lparr>db_batches = (source, archive_rows decoded) # db_batches more,
                     db_events = dr_events decoded @ db_events more,
                     db_sibling_events = siblings @ db_sibling_events more,
                     db_accepted = dr_accepted_rows decoded + db_accepted more,
                     db_quarantined = dr_quarantined_rows decoded + db_quarantined more\<rparr>)))))"

text \<open>\<open>dataclasses.replace\<close> of the artifact of a manifest runs the constructor again.\<close>

definition replace_artifact :: "archive_manifest \<Rightarrow> archive_artifact \<Rightarrow> archive_manifest result" where
  "replace_artifact m art =
     mk_manifest (am_manifest_id m) (Some (am_source m)) (Some art) (Some (am_coverage_start m)) (Some (am_coverage_end m))
       (Some (am_retention_deadline m)) (Some (am_deletion_authorization_deadline m)) (Some (am_archive_epoch m))
       (Some (am_service_id m)) (Some (am_domain m)) (Some (am_sources m))"

definition checkpoint_batch ::
  "('a, 'b, 'c) ingest_controller \<Rightarrow> string \<Rightarrow> string \<Rightarrow> (archive_source_object \<times> row list) list \<Rightarrow> timestamp
     \<Rightarrow> (archive_manifest \<times> 'b) result" where
  "checkpoint_batch ic service_id domain batches observed =
     ebind (write_batch_archive_checkpoint (ic_checkpoint ic) (ic_root ic) service_id domain batches (ic_archive_epoch ic)
              (ic_schema_version ic) (ic_transform_version ic) observed observed (ic_retention_seconds ic)
              (ic_deletion_grace_seconds ic)) (\<lambda>(local_manifest, artifact).
     ebind (replace_artifact local_manifest ((am_artifact local_manifest)\<lparr>art_uri :=
              ''s3://archive/'' @ am_manifest_id local_manifest @ ''.parquet''\<rparr>)) (\<lambda>manifest.
     Inr (manifest, artifact)))"

text \<open>A manifest that is already registered under the id is used as it was registered.\<close>

definition registered_or_new ::
  "('a, 'b, 'c) ingest_controller \<Rightarrow> archive_manifest \<Rightarrow> (('a, 'c) ingest_world, archive_manifest) eff" where
  "registered_or_new ic manifest w =
     (case control_call ic (\<lambda>_. archive_manifest_op (ac_fromisoformat (ic_codec ic)) (am_manifest_id manifest)) w of
        (Inr registered, w') \<Rightarrow> (Inr (amr_manifest registered), w')
      | (Inl (KeyError _), w') \<Rightarrow> (Inr manifest, w')
      | (Inl e, w') \<Rightarrow> (Inl e, w'))"

definition publish_serving ::
  "('a, 'b, 'c) ingest_controller \<Rightarrow> string \<Rightarrow> string \<Rightarrow> string \<Rightarrow> int \<Rightarrow> row list
     \<Rightarrow> (('a, 'c) ingest_world, batch_publication_result) eff" where
  "publish_serving ic service_id domain batch_id epoch serving_rows =
     (if serving_rows = []
      then eff_return \<lparr>bp_batch_id = batch_id, bp_status = Visible, bp_rows_visible = 0, bp_duplicate = False\<rparr>
      else publish_call ic (ic_serving ic) \<lparr>hb_batch_id = batch_id, hb_service_id = service_id, hb_domain = domain,
             hb_generation = show_int epoch, hb_rows = serving_rows\<rparr>)"

text \<open>The derived publications; the first non-empty error text is the one recorded.\<close>

definition publish_derived ::
  "('a, 'b, 'c) ingest_controller \<Rightarrow> string \<Rightarrow> string \<Rightarrow> string \<Rightarrow> int \<Rightarrow> row list \<Rightarrow> row list
     \<Rightarrow> (('a, 'c) ingest_world, bool \<times> string) eff" where
  "publish_derived ic service_id domain manifest_id epoch events siblings =
     eff_bind (publish_aggregates_batch ic service_id domain manifest_id epoch events) (\<lambda>(agg_ok, agg_err).
     eff_bind
       (if domain = ''request''
        then eff_bind (eff_lift (batch_id_for ic (manifest_id @ '':cmcd''))) (\<lambda>cmcd_id.
             publish_cmcd_projection ic service_id cmcd_id epoch events)
        else eff_return (True, None)) (\<lambda>(cmcd_ok, cmcd_err).
     eff_bind
       (case map_of RUM_SIBLING_DOMAIN domain of
          Some sibling \<Rightarrow>
            if siblings = [] then eff_return (True, None)
            else eff_bind (eff_lift (batch_id_for ic (manifest_id @ '':'' @ sibling))) (\<lambda>sibling_id.
                 publish_sibling ic service_id sibling sibling_id manifest_id epoch siblings)
        | None \<Rightarrow> eff_return (True, None)) (\<lambda>(sibling_ok, sibling_err).
     eff_return (agg_ok \<and> cmcd_ok \<and> sibling_ok,
                 or_text agg_err (or_text cmcd_err (or_text sibling_err ''derived publication failed''))))))"

definition finish_sources ::
  "('a, 'b, 'c) ingest_controller \<Rightarrow> string \<Rightarrow> string \<Rightarrow> string list \<Rightarrow> string \<Rightarrow> int \<Rightarrow> string option \<Rightarrow> string
     \<Rightarrow> bool \<Rightarrow> string \<Rightarrow> (('a, 'c) ingest_world, unit) eff" where
  "finish_sources ic service_id domain keys manifest_id epoch next_cursor partition_id derived_ok derived_err =
     (if derived_ok
      then control_call ic (\<lambda>clk. acknowledge_sources_batch clk service_id keys manifest_id epoch next_cursor domain partition_id)
      else control_call ic (\<lambda>clk. fail_sources_batch clk service_id keys epoch derived_err))"

definition require_owner ::
  "('a, 'b, 'c) ingest_controller \<Rightarrow> string \<Rightarrow> int option \<Rightarrow> (('a, 'c) ingest_world, owner_epoch_record) eff" where
  "require_owner ic service_id epoch =
     eff_bind (control_call ic (\<lambda>_. owner_op service_id)) (\<lambda>owner.
     if oe_current_owner owner \<noteq> ''high_scale'' \<or> (case epoch of None \<Rightarrow> False | Some e \<Rightarrow> oe_owner_epoch owner \<noteq> e)
     then eff_raise (RuntimeError (case epoch of
            None \<Rightarrow> ''high-scale ingest rejected for '' @ service_id @ '': owner is '' @ oe_current_owner owner
          | Some _ \<Rightarrow> ''high-scale owner epoch changed during ingest for '' @ service_id))
     else eff_return owner)"

text \<open>What follows the loop: archive, control manifest, owner fence, serving, derived data, acknowledgement.\<close>

definition store_batch ::
  "('a, 'b, 'c) ingest_controller \<Rightarrow> string \<Rightarrow> string \<Rightarrow> int \<Rightarrow> (archive_source_object \<times> row list) list \<Rightarrow> timestamp
     \<Rightarrow> (('a, 'c) ingest_world, archive_manifest) eff" where
  "store_batch ic service_id domain epoch batches observed =
     eff_bind (eff_lift (checkpoint_batch ic service_id domain batches observed)) (\<lambda>(fresh, artifact).
     eff_bind (registered_or_new ic fresh) (\<lambda>manifest.
     eff_bind (archive_call (publish (ic_archive ic) (ic_codec ic) manifest artifact)) (\<lambda>_.
     eff_bind (publish_control_manifest ic manifest epoch) (\<lambda>_.
     eff_bind (require_owner ic service_id (Some epoch)) (\<lambda>_.
     eff_return manifest)))))"

definition serve_batch ::
  "('a, 'b, 'c) ingest_controller \<Rightarrow> string \<Rightarrow> string \<Rightarrow> int \<Rightarrow> string list \<Rightarrow> string option \<Rightarrow> string \<Rightarrow> decoded_batch
     \<Rightarrow> archive_manifest \<Rightarrow> (('a, 'c) ingest_world, batch_ingest_result) eff" where
  "serve_batch ic service_id domain epoch keys next_cursor partition_id decoded manifest =
     (let events = (if domain = ''request'' then enrich_ngwaf_bots ic (db_events decoded) else db_events decoded);
          mid = am_manifest_id manifest
      in eff_bind (eff_lift (batch_id_for ic mid)) (\<lambda>batch_id.
         eff_bind (publish_serving ic service_id domain batch_id epoch
                     (filter (row_matches_serving_domain domain) events)) (\<lambda>publication.
         eff_bind (publish_derived ic service_id domain mid epoch events (db_sibling_events decoded)) (\<lambda>(derived_ok, derived_err).
         eff_bind (finish_sources ic service_id domain keys mid epoch next_cursor partition_id derived_ok derived_err) (\<lambda>_.
         eff_return \<lparr>bi_manifest = Some manifest, bi_publication = publication, bi_total_events = db_accepted decoded,
                     bi_quarantined_events = db_quarantined decoded, bi_sources_count = int (length keys),
                     bi_derived_complete = derived_ok\<rparr>)))))"

definition ingest_batch ::
  "('a, 'b, 'c) ingest_controller \<Rightarrow> string \<Rightarrow> string \<Rightarrow> (source_descriptor \<times> string) list \<Rightarrow> string option \<Rightarrow> string
     \<Rightarrow> timestamp \<Rightarrow> rat \<Rightarrow> (('a, 'c) ingest_world, batch_ingest_result) eff" where
  "ingest_batch ic service_id domain payloads next_cursor partition_id observed max_ratio =
     (let total_bytes = sum_list (map (\<lambda>dp. int (length (snd dp))) payloads)
      in if payloads = []
         then eff_return \<lparr>bi_manifest = None,
                bi_publication = \<lparr>bp_batch_id = service_id @ '':'' @ domain @ '':empty'', bp_status = Visible,
                                  bp_rows_visible = 0, bp_duplicate = False\<rparr>,
                bi_total_events = 0, bi_quarantined_events = 0, bi_sources_count = 0, bi_derived_complete = True\<rparr>
         else if HIGH_SCALE_PAGE_MAX_BYTES < total_bytes
         then eff_raise (ValueError (''high-scale page size '' @ show_int total_bytes @ '' exceeds maximum''))
         else
           eff_bind (require_owner ic service_id None) (\<lambda>owner.
           (let epoch = oe_owner_epoch owner
            in eff_bind (decode_sources ic service_id domain epoch payloads) (\<lambda>decoded.
               (let total_rows = db_accepted decoded + db_quarantined decoded
                in if 0 < total_rows \<and> max_ratio < of_int (db_quarantined decoded) / of_int total_rows
                   then eff_raise (ValueError ''high-scale dead letter ratio exceeds maximum'')
                   else
                     eff_bind (store_batch ic service_id domain epoch (db_batches decoded) observed) (\<lambda>manifest.
                     serve_batch ic service_id domain epoch (map (sd_object_key \<circ> fst) payloads) next_cursor partition_id
                       decoded manifest))))))"

subsection \<open>Peers and progress\<close>

text \<open>
  What calls of the control plane and of publications do to the database: control-plane operations,
  after which a visible publication is still there as it was.
\<close>

definition plane_le :: "control_db \<Rightarrow> control_db \<Rightarrow> bool" where
  "plane_le db db' \<longleftrightarrow>
     control_steps db db' \<and> (\<forall>k m. pg_stored db k = Some m \<longrightarrow> bm_status m = Visible \<longrightarrow> pg_stored db' k = Some m)"

definition peers_ok :: "('a, 'b, 'c) ingest_controller \<Rightarrow> bool" where
  "peers_ok ic \<longleftrightarrow> (\<forall>n db. plane_le db (ic_peers ic n db))"

lemma plane_le_refl [simp]: "plane_le db db"
  by (simp add: plane_le_def)

lemma plane_le_trans: "plane_le a b \<Longrightarrow> plane_le b c \<Longrightarrow> plane_le a c"
  unfolding plane_le_def by (meson rtranclp_trans)

lemma plane_le_step:
  assumes "control_step db db'" and "publication_manifests db' = publication_manifests db"
  shows "plane_le db db'"
  using assms by (auto simp: plane_le_def pg_stored_def)

lemma plane_le_inv: "plane_le db db' \<Longrightarrow> db_inv db \<Longrightarrow> db_inv db' \<and> db_advance db db'"
  using control_steps_safe by (auto simp: plane_le_def safe_step_def)

text \<open>The operations a controller calls leave the publication manifests alone.\<close>

lemma record_source_counts_le: "record_source_counts clk s k a m e db = Inr (x, db') \<Longrightarrow> plane_le db db'"
  by (rule plane_le_step [OF step_counts]) (auto simp: record_source_counts_def ebind_Inr_iff)

lemma register_archive_manifest_le: "register_archive_manifest fi clk m e st db = Inr (x, db') \<Longrightarrow> plane_le db db'"
  by (rule plane_le_step [OF step_register]) (auto simp: register_archive_manifest_def ebind_Inr_iff Let_def)

lemma transition_archive_manifest_le: "transition_archive_manifest fi clk m a b e db = Inr (x, db') \<Longrightarrow> plane_le db db'"
  by (rule plane_le_step [OF step_transition]) (auto simp: transition_archive_manifest_def ebind_Inr_iff Let_def)

lemma upsert_domain_cursor_publications:
  "upsert_domain_cursor clk s d c rc fp db = Inr db' \<Longrightarrow> publication_manifests db' = publication_manifests db
     \<and> source_objects db' = source_objects db \<and> archive_manifests db' = archive_manifests db"
  by (auto simp: upsert_domain_cursor_def Let_def ebind_Inr_iff split: option.splits)

lemma acknowledge_le: "acknowledge_sources_batch clk s ks m e nc d p db = Inr (x, db') \<Longrightarrow> plane_le db db'"
  by (rule plane_le_step [OF step_acknowledge])
    (auto simp: acknowledge_sources_batch_def upsert_partition_cursor_def ebind_Inr_iff Let_def
      dest!: upsert_domain_cursor_publications split: option.splits if_splits)

lemma fail_sources_le: "fail_sources_batch clk s ks e err db = Inr (x, db') \<Longrightarrow> plane_le db db'"
  by (rule plane_le_step [OF step_fail]) (auto simp: fail_sources_batch_def ebind_Inr_iff split: if_splits)

lemma clickhouse_publish_steps:
  "eff_keeps (\<lambda>w w'. control_steps (fst w) (fst w'))
     (clickhouse_publish env (postgres_batch_manifest_store clk) client_insert batch)"
proof -
  let ?R = "\<lambda>w w' :: control_db \<times> 'c. control_steps (fst w) (fst w')"
  have ord: "reflp ?R" "transp ?R" by (auto simp: reflp_def transp_def)
  have get: "eff_keeps ?R (on_left (bs_get (postgres_batch_manifest_store clk) k))" for k
    by (auto simp: eff_keeps_def on_left_run postgres_batch_manifest_store_def atomically_def get_batch_manifest_stored
        ebind_Inr_iff split: sum.splits)
  have put: "eff_keeps ?R (on_left (bs_put (postgres_batch_manifest_store clk) m))" for m
    by (auto simp: eff_keeps_def on_left_run postgres_batch_manifest_store_def atomically_def split: sum.splits
        intro: step_put_batch)
  have ins: "eff_keeps ?R (on_right m)" for m :: "('c, 'x) eff"
    by (auto simp: eff_keeps_def on_right_run)
  note keeps = eff_keeps_bind [OF ord(2)] eff_keeps_pure [OF ord(1)] get put ins
  show ?thesis unfolding clickhouse_publish_def finish_publication_def
    by (intro keeps) (auto split: option.split intro!: keeps)
qed

lemma pg_stored_id: "pg_stored db k = Some m \<Longrightarrow> bm_batch_id m = k"
  using bat_tab.lookup_Some_pk by (fastforce simp: pg_stored_def batch_from_row_def)

lemma clickhouse_publish_visible:
  assumes "clickhouse_publish env (postgres_batch_manifest_store clk) client_insert batch w = (r, w')"
    and "pg_stored (fst w) (hb_batch_id batch) = Some m" and "bm_status m = Visible"
  shows "w' = w"
proof (cases "hb_batch_id batch = []")
  case True
  with assms(1) show ?thesis
    by (simp add: clickhouse_publish_def eff_bind_def on_left_def postgres_batch_manifest_store_def atomically_def
        get_batch_manifest_stored require_text_def)
next
  case False
  with assms show ?thesis
    by (cases "validate_existing env m batch") (auto simp: clickhouse_publish_def eff_bind_def pg_get_manifest)
qed

lemma clickhouse_publish_le:
  assumes run: "clickhouse_publish env (postgres_batch_manifest_store clk) client_insert batch w = (r, w')"
  shows "plane_le (fst w) (fst w')"
proof -
  have "pg_stored (fst w') k = Some m" if stored: "pg_stored (fst w) k = Some m" "bm_status m = Visible" for k m
  proof (cases "k = hb_batch_id batch")
    case True
    with clickhouse_publish_visible [OF run] stored show ?thesis by simp
  next
    case False
    from run pg_stored_id show ?thesis
      by (rule pg_manifests.publish_outcome) (use stored False in auto)
  qed
  then show ?thesis using eff_keepsD [OF clickhouse_publish_steps run] by (auto simp: plane_le_def)
qed

lemma guarded_le: "eff_keeps R m \<Longrightarrow> eff_keeps R (guarded m)"
  by (auto simp: eff_keeps_def guarded_def split: prod.splits sum.splits)

subsection \<open>What an ingest leaves alone\<close>

text \<open>
  A preorder on databases that the peers and the operations of an ingest respect is respected by the
  ingest as a whole, up to the acknowledgement; and only the archive publication touches the archive.
\<close>

locale ingest_frame =
  fixes ic :: "('a, 'b, 'c) ingest_controller" and le :: "control_db \<Rightarrow> control_db \<Rightarrow> bool"
  assumes le_refl: "le db db" and le_trans: "le db db' \<Longrightarrow> le db' db'' \<Longrightarrow> le db db''"
    and peers_le: "le db (ic_peers ic n db)"
    and counts_le: "record_source_counts clk s k a m e db = Inr (x, db') \<Longrightarrow> le db db'"
    and register_le: "register_archive_manifest fi clk mf e st db = Inr (y, db') \<Longrightarrow> le db db'"
    and transition_le: "transition_archive_manifest fi clk mid st st' e db = Inr (z, db') \<Longrightarrow> le db db'"
    and fail_le: "fail_sources_batch clk s ks e err db = Inr (x, db') \<Longrightarrow> le db db'"
    and published_le: "clickhouse_publish env (postgres_batch_manifest_store clk) ins batch (w :: control_db \<times> 'c) = (r, w') \<Longrightarrow>
          le (fst w) (fst w')"
begin

definition world_le :: "('a, 'c) ingest_world \<Rightarrow> ('a, 'c) ingest_world \<Rightarrow> bool" where
  "world_le w w' \<longleftrightarrow> le (iw_db w) (iw_db w') \<and> iw_archive w' = iw_archive w"

lemma world_le_preorder: "reflp world_le" "transp world_le"
  by (auto simp: reflp_def transp_def world_le_def intro: le_refl le_trans)

lemma control_call_cases:
  assumes "control_call ic tx w = (r, w')"
  obtains (raised) e where "r = Inl e" "le (iw_db w) (iw_db w')" "iw_archive w' = iw_archive w"
    | (returned) x db where "r = Inr x" "le (iw_db w) db" "tx (ic_clock ic (iw_calls w)) db = Inr (x, iw_db w')"
        "iw_archive w' = iw_archive w"
proof -
  let ?db = "ic_peers ic (iw_calls w) (iw_db w)"
  show thesis
  proof (cases "tx (ic_clock ic (iw_calls w)) ?db")
    case (Inl e)
    with assms show thesis by (intro raised [of e]) (auto simp: control_call_def Let_def atomically_def peers_le)
  next
    case (Inr xd)
    with assms show thesis
      by (cases xd) (intro returned [of "fst xd" ?db]; auto simp: control_call_def Let_def atomically_def peers_le)
  qed
qed

lemma control_call_le:
  assumes "\<And>clk db x db'. tx clk db = Inr (x, db') \<Longrightarrow> le db db'"
  shows "eff_keeps world_le (control_call ic tx)"
  unfolding eff_keeps_def
proof (intro allI impI)
  fix w r w' assume "control_call ic tx w = (r, w')"
  then show "world_le w w'"
    by (cases rule: control_call_cases) (auto simp: world_le_def intro: le_trans assms)
qed

lemma publish_call_run:
  assumes "publish_call ic ins batch w = (r, w')"
  obtains db where "le (iw_db w) db" "le db (iw_db w')" "iw_archive w' = iw_archive w"
    "clickhouse_publish (ic_batch_env ic) (postgres_batch_manifest_store (ic_clock ic (iw_calls w)))
       (ins (ic_clock ic (iw_calls w))) batch (db, iw_serving w) = (r, iw_db w', iw_serving w')"
proof -
  let ?db = "ic_peers ic (iw_calls w) (iw_db w)"
  from assms have run: "clickhouse_publish (ic_batch_env ic) (postgres_batch_manifest_store (ic_clock ic (iw_calls w)))
       (ins (ic_clock ic (iw_calls w))) batch (?db, iw_serving w) = (r, iw_db w', iw_serving w')"
    and "iw_archive w' = iw_archive w"
    by (auto simp: publish_call_def Let_def split: prod.splits)
  with published_le [OF run] show thesis by (intro that [of ?db]) (simp_all add: peers_le)
qed

lemma publish_call_le: "eff_keeps world_le (publish_call ic ins batch)"
  unfolding eff_keeps_def world_le_def by (blast elim: publish_call_run intro: le_trans)

lemma reads_le:
  "owner_op s db = Inr (x, db') \<Longrightarrow> le db db'"
  "archive_manifest_op fi m db = Inr (y, db') \<Longrightarrow> le db db'"
  by (auto simp: owner_op_def archive_manifest_op_def ebind_Inr_iff le_refl)

lemma pair_le: "eff_keeps world_le (Pair x)"
  by (simp add: eff_keeps_def world_le_def le_refl)

lemmas world_keeps =
  eff_keeps_bind [OF world_le_preorder(2)] eff_keeps_pure [OF world_le_preorder(1)] pair_le guarded_le publish_call_le
  control_call_le

lemma publish_projections_le: "eff_keeps world_le (publish_projections ic ins s mid e ps)"
proof (induction ps)
  case (Cons p ps)
  then show ?case by (cases p) (auto intro!: world_keeps)
qed (simp add: world_keeps)

lemma publish_aggregates_batch_le: "eff_keeps world_le (publish_aggregates_batch ic s d mid e evs)"
  unfolding publish_aggregates_batch_def
  by (auto split: option.split intro!: world_keeps publish_projections_le)

lemma publish_cmcd_projection_le: "eff_keeps world_le (publish_cmcd_projection ic s b e evs)"
  unfolding publish_cmcd_projection_def by (auto intro!: world_keeps)

lemma publish_sibling_le: "eff_keeps world_le (publish_sibling ic s sib b mid e evs)"
  unfolding publish_sibling_def by (auto intro!: world_keeps publish_aggregates_batch_le)

lemma publish_derived_le: "eff_keeps world_le (publish_derived ic s d mid e evs sibs)"
  unfolding publish_derived_def
  by (auto split: option.split intro!: world_keeps publish_aggregates_batch_le publish_cmcd_projection_le publish_sibling_le)

lemma publish_serving_le: "eff_keeps world_le (publish_serving ic s d b e rows)"
  unfolding publish_serving_def by (auto intro!: world_keeps)

lemma walk_states_le: "eff_keeps world_le (walk_states ic mid e cur sts)"
  by (induction sts arbitrary: cur) (auto intro!: world_keeps intro: transition_le)

lemma publish_control_manifest_le: "eff_keeps world_le (publish_control_manifest ic m e)"
  unfolding publish_control_manifest_def by (auto intro!: world_keeps walk_states_le intro: register_le)

lemma require_owner_le: "eff_keeps world_le (require_owner ic s e)"
  unfolding require_owner_def by (auto intro!: world_keeps intro: reads_le)

lemma decode_sources_le: "eff_keeps world_le (decode_sources ic s d e dps)"
  by (induction dps) (auto simp: Let_def intro!: world_keeps intro: counts_le)

lemma registered_or_new_le: "eff_keeps world_le (registered_or_new ic m)"
proof -
  have "eff_keeps world_le (control_call ic (\<lambda>_. archive_manifest_op (ac_fromisoformat (ic_codec ic)) (am_manifest_id m)))"
    by (rule control_call_le) (rule reads_le)
  then show ?thesis
    by (auto simp: registered_or_new_def eff_keeps_def split: prod.splits sum.splits py_error.splits)
qed

lemma store_batch_le:
  assumes "store_batch ic s d e bs obs w = (r, w')"
  shows "le (iw_db w) (iw_db w')"
proof -
  let ?R = "\<lambda>w w' :: ('a, 'c) ingest_world. le (iw_db w) (iw_db w')"
  have ord: "reflp ?R" "transp ?R" by (auto simp: reflp_def transp_def intro: le_refl le_trans)
  have weaken: "eff_keeps ?R m" if "eff_keeps world_le m" for m :: "(('a, 'c) ingest_world, 'x) eff"
    using that by (auto simp: eff_keeps_def world_le_def)
  have "eff_keeps ?R (archive_call m)" for m :: "('a, 'x) eff"
    by (auto simp: eff_keeps_def archive_call_def le_refl split: prod.splits)
  then have "eff_keeps ?R (store_batch ic s d e bs obs)" unfolding store_batch_def
    by (auto intro!: eff_keeps_bind [OF ord(2)] eff_keeps_pure [OF ord(1)]
        weaken [OF registered_or_new_le] weaken [OF publish_control_manifest_le] weaken [OF require_owner_le])
  with assms show ?thesis by (auto simp: eff_keeps_def)
qed

lemma le_bind:
  assumes "eff_bind m f w = (r, w')" and "\<And>r1 w1. m w = (r1, w1) \<Longrightarrow> le (iw_db w) (iw_db w1)"
    and "\<And>a w1. m w = (Inr a, w1) \<Longrightarrow> f a w1 = (r, w') \<Longrightarrow> le (iw_db w1) (iw_db w')"
  shows "le (iw_db w) (iw_db w')"
proof -
  obtain r1 w1 where run: "m w = (r1, w1)" by (cases "m w")
  show ?thesis
  proof (cases r1)
    case (Inl e)
    with run assms(1,2) show ?thesis by (auto simp: eff_bind_def)
  next
    case (Inr a)
    with run assms(1) have "f a w1 = (r, w')" by (simp add: eff_bind_def)
    with assms(2,3) run Inr show ?thesis by (blast intro: le_trans)
  qed
qed

lemma keeps_db: "eff_keeps world_le m \<Longrightarrow> m w = (r, w') \<Longrightarrow> le (iw_db w) (iw_db w')"
  by (auto simp: eff_keeps_def world_le_def)

lemma finish_sources_le:
  assumes "finish_sources ic s d ks mid e nc p ok err w = (r, w')"
    and "ok \<and> is_ok r \<Longrightarrow> (\<And>clk db x db'. acknowledge_sources_batch clk s ks mid e nc d p db = Inr (x, db') \<Longrightarrow> le db db')"
  shows "le (iw_db w) (iw_db w')"
proof (cases ok)
  case True
  with assms(1) have "control_call ic (\<lambda>clk. acknowledge_sources_batch clk s ks mid e nc d p) w = (r, w')"
    by (simp add: finish_sources_def)
  then show ?thesis
    by (cases rule: control_call_cases) (use True assms(2) in \<open>auto intro: le_trans\<close>)
next
  case False
  have "eff_keeps world_le (control_call ic (\<lambda>clk. fail_sources_batch clk s ks e err))"
    by (rule control_call_le) (rule fail_le)
  with False assms(1) show ?thesis by (auto simp: finish_sources_def intro: keeps_db)
qed

lemma serve_batch_le:
  assumes "serve_batch ic s d e ks nc p dec m w = (r, w')"
    and "\<exists>res. r = Inr res \<and> bi_derived_complete res \<Longrightarrow>
      (\<And>clk db x db'. acknowledge_sources_batch clk s ks (am_manifest_id m) e nc d p db = Inr (x, db') \<Longrightarrow> le db db')"
  shows "le (iw_db w) (iw_db w')"
  using assms(1) unfolding serve_batch_def Let_def
proof (rule le_bind)
  fix bid w1
  let ?evs = "if d = ''request'' then enrich_ngwaf_bots ic (db_events dec) else db_events dec"
  let ?out = "\<lambda>pub ok. \<lparr>bi_manifest = Some m, bi_publication = pub, bi_total_events = db_accepted dec,
    bi_quarantined_events = db_quarantined dec, bi_sources_count = int (length ks), bi_derived_complete = ok\<rparr>"
  assume "eff_bind (publish_serving ic s d bid e (filter (row_matches_serving_domain d) ?evs)) (\<lambda>pub.
      eff_bind (publish_derived ic s d (am_manifest_id m) e ?evs (db_sibling_events dec)) (\<lambda>(ok, err).
      eff_bind (finish_sources ic s d ks (am_manifest_id m) e nc p ok err) (\<lambda>_. eff_return (?out pub ok)))) w1 = (r, w')"
  then show "le (iw_db w1) (iw_db w')"
  proof (elim le_bind keeps_db [OF publish_serving_le] keeps_db [OF publish_derived_le])
    fix pub w2 x w3
    assume run: "(case x of (ok, err) \<Rightarrow>
        eff_bind (finish_sources ic s d ks (am_manifest_id m) e nc p ok err) (\<lambda>_. eff_return (?out pub ok))) w3 = (r, w')"
    obtain ok err where x: "x = (ok, err)" by (cases x)
    obtain r4 w4 where fin: "finish_sources ic s d ks (am_manifest_id m) e nc p ok err w3 = (r4, w4)"
      by (cases "finish_sources ic s d ks (am_manifest_id m) e nc p ok err w3")
    with run have "w' = w4" "is_ok r4 \<Longrightarrow> r = Inr (?out pub ok)" by (auto simp: x eff_bind_def is_ok_iff split: sum.splits)
    with assms(2) show "le (iw_db w3) (iw_db w')" by (intro finish_sources_le [OF fin [folded \<open>w' = w4\<close>]]) auto
  qed
qed (simp add: le_refl)

lemma ingest_batch_le:
  assumes "ingest_batch ic s d dps nc p obs ratio w = (r, w')"
    and "\<exists>res. r = Inr res \<and> bi_derived_complete res \<Longrightarrow>
      (\<And>clk ks mid e db x db'. acknowledge_sources_batch clk s ks mid e nc d p db = Inr (x, db') \<Longrightarrow> le db db')"
  shows "le (iw_db w) (iw_db w')"
proof -
  have "le (iw_db w1) (iw_db w')" if "serve_batch ic s d e ks nc p dec m w1 = (r, w')" for e ks dec m w1
    by (rule serve_batch_le [OF that]) (use assms(2) in auto)
  with assms(1) show ?thesis unfolding ingest_batch_def Let_def
    by (auto split: if_splits simp: le_refl
        elim!: le_bind keeps_db [OF require_owner_le] keeps_db [OF decode_sources_le] store_batch_le)
qed

end

lemma plane_frame: "peers_ok ic \<Longrightarrow> ingest_frame ic plane_le"
  by unfold_locales
    (auto simp: peers_ok_def intro: plane_le_trans record_source_counts_le register_archive_manifest_le
      transition_archive_manifest_le fail_sources_le clickhouse_publish_le)

text \<open>A controller on its own: no peers.\<close>

definition alone :: "('a, 'b, 'c) ingest_controller \<Rightarrow> ('a, 'b, 'c) ingest_controller" where
  "alone ic = ic\<lparr>ic_peers := (\<lambda>_ db. db)\<rparr>"

lemma alone_peers [simp]: "ic_peers (alone ic) n db = db"
  by (simp add: alone_def)

lemma alone_ok [simp]: "peers_ok (alone ic)"
  by (simp add: peers_ok_def)

interpretation alone_plane: ingest_frame "alone ic" plane_le for ic
  by (rule plane_frame [OF alone_ok])

text \<open>The cursor of a (service, domain) pair moves only with an acknowledgement.\<close>

definition same_cursor :: "string \<Rightarrow> string \<Rightarrow> control_db \<Rightarrow> control_db \<Rightarrow> bool" where
  "same_cursor s d db db' \<longleftrightarrow> cursor_row db' s d = cursor_row db s d"

definition peers_keep_cursor :: "('a, 'b, 'c) ingest_controller \<Rightarrow> string \<Rightarrow> string \<Rightarrow> bool" where
  "peers_keep_cursor ic s d \<longleftrightarrow> (\<forall>n db. same_cursor s d db (ic_peers ic n db))"

lemma same_cursors: "source_cursors db' = source_cursors db \<Longrightarrow> same_cursor s d db db'"
  by (simp add: same_cursor_def cursor_row_def)

lemma publish_same_cursor:
  "eff_keeps (\<lambda>w w'. same_cursor s d (fst w) (fst w'))
     (clickhouse_publish env (postgres_batch_manifest_store clk) ins batch)"
proof -
  let ?R = "\<lambda>w w' :: control_db \<times> 'c. same_cursor s d (fst w) (fst w')"
  have ord: "reflp ?R" "transp ?R" by (auto simp: reflp_def transp_def same_cursor_def)
  have get: "eff_keeps ?R (on_left (bs_get (postgres_batch_manifest_store clk) k))" for k
    by (auto simp: eff_keeps_def on_left_run postgres_batch_manifest_store_def atomically_def get_batch_manifest_stored
        ebind_Inr_iff same_cursor_def split: sum.splits)
  have put: "eff_keeps ?R (on_left (bs_put (postgres_batch_manifest_store clk) m))" for m
    by (auto simp: eff_keeps_def on_left_run postgres_batch_manifest_store_def atomically_def put_batch_manifest_def
        ebind_Inr_iff same_cursors split: sum.splits)
  have ins: "eff_keeps ?R (on_right m)" for m :: "('c, 'x) eff"
    by (auto simp: eff_keeps_def on_right_run same_cursor_def)
  note keeps = eff_keeps_bind [OF ord(2)] eff_keeps_pure [OF ord(1)] get put ins
  show ?thesis unfolding clickhouse_publish_def finish_publication_def
    by (intro keeps) (auto split: option.split intro!: keeps)
qed

lemma cursor_frame:
  assumes "peers_keep_cursor ic s d"
  shows "ingest_frame ic (same_cursor s d)"
proof
  show "same_cursor s d db (ic_peers ic n db)" for db n using assms by (simp add: peers_keep_cursor_def)
  show "same_cursor s d (fst w) (fst w')"
    if "clickhouse_publish env (postgres_batch_manifest_store clk) ins batch w = (r, w')" for env clk ins batch w r w'
    using eff_keepsD [OF publish_same_cursor that] .
qed (auto simp: record_source_counts_def register_archive_manifest_def transition_archive_manifest_def fail_sources_batch_def
    ebind_Inr_iff Let_def same_cursor_def cursor_row_def split: if_splits)

interpretation alone_cursor: ingest_frame "alone ic" "same_cursor s d" for ic s d
  by (rule cursor_frame) (simp add: peers_keep_cursor_def same_cursor_def)

subsection \<open>What a batch leaves behind\<close>

lemma source_row_stays:
  assumes "plane_le db db'" and "db_inv db" and "source_row db s k \<noteq> None"
  shows "source_row db' s k \<noteq> None"
  using assms plane_le_inv [OF assms(1,2)] source_row_advance [of db' db s k] by auto

lemma manifest_row_stays:
  assumes "plane_le db db'" and "db_inv db" and "manifest_row db m = Some r"
  shows "\<exists>r'. manifest_row db' m = Some r' \<and> mr_state r \<le> mr_state r'"
proof -
  from plane_le_inv [OF assms(1,2)] have inv: "db_inv db'" and adv: "db_advance db db'" by auto
  from assms(3) have "r \<in> set (archive_manifests db)" "mr_manifest_id r = m"
    by (auto simp: row_lookups dest: man_tab.lookup_Some_in man_tab.lookup_Some_pk)
  with adv obtain r' where r': "r' \<in> set (archive_manifests db')" "manifest_advance r r'"
    by (auto simp: db_advance_def rows_advance_def)
  with manifest_advance_columns [OF r'(2)] \<open>mr_manifest_id r = m\<close> inv show ?thesis
    by (auto simp: row_lookups db_inv_def keys_unique_def intro: man_tab.lookup_in)
qed

lemma record_source_counts_row:
  assumes "record_source_counts clk s k a m e db = Inr (x, db')"
  shows "source_row db' s k \<noteq> None"
proof -
  from assms obtain r where r: "source_row db s k = Some r"
    by (auto simp: record_source_counts_def ebind_Inr_iff fence_simps)
  from assms obtain p f where "source_objects db' = sql_update p f (source_objects db)" "\<And>r. source_key (f r) = source_key r"
    by (auto simp: record_source_counts_def ebind_Inr_iff)
  with r show ?thesis by (simp add: row_lookups src_tab.lookup_update)
qed

lemma acknowledge_rows:
  assumes "acknowledge_sources_batch clk s ks mid e nc d p db = Inr (x, db')" and "k \<in> set ks" and "source_row db s k \<noteq> None"
  shows "\<exists>r. source_row db' s k = Some r \<and> src_status r = Acknowledged \<and> src_archive_manifest_id r = Some mid"
proof -
  let ?f = "\<lambda>r. r\<lparr>src_status := Acknowledged, src_archive_manifest_id := Some mid, src_lease_until := None, src_updated_at := clk\<rparr>"
  have rows: "source_objects db' = sql_update (\<lambda>r. src_service_id r = s \<and> src_object_key r \<in> set ks) ?f (source_objects db)"
    using assms(1,2)
    by (auto simp: acknowledge_sources_batch_def upsert_partition_cursor_def ebind_Inr_iff Let_def
        dest!: upsert_domain_cursor_publications split: option.splits if_splits)
  from assms(3) obtain r where r: "src_tab.lookup (s, k) (source_objects db) = Some r" by (auto simp: row_lookups)
  with src_tab.lookup_Some_pk [OF r] assms(2) show ?thesis
    by (auto simp: row_lookups rows src_tab.lookup_update)
qed

lemma transition_state:
  assumes "transition_archive_manifest fi clk mid a b e db = Inr (x, db')"
  shows "\<exists>r. manifest_row db' mid = Some r \<and> mr_state r = b"
proof -
  let ?p = "\<lambda>r. mr_manifest_id r = mid \<and> mr_owner_epoch r = e \<and> mr_state r = a"
  let ?f = "\<lambda>r. r\<lparr>mr_state := b, mr_updated_at := clk\<rparr>"
  from assms obtain r y where r: "manifest_row db mid = Some r" "archive_from_row fi r [] = Inr y" "amr_state y = a" "amr_owner_epoch y = e"
      and db': "archive_manifests db' = sql_update ?p ?f (archive_manifests db)"
    by (auto simp: transition_archive_manifest_def ebind_Inr_iff Let_def fence_simps check_epoch_value_def)
  from archive_from_row_Inr [OF r(2)] r have "mr_state r = a" "mr_owner_epoch r = e" by simp_all
  moreover have "mr_manifest_id r = mid" using r(1) by (auto simp: row_lookups dest: man_tab.lookup_Some_pk)
  ultimately show ?thesis using r(1) by (simp add: row_lookups db' man_tab.lookup_update)
qed

lemma register_state:
  assumes "register_archive_manifest fi clk m e st db = Inr (x, db')"
  shows "\<exists>r. manifest_row db' (am_manifest_id m) = Some r \<and> mr_state r = amr_state x"
  using assms archive_from_row_Inr
  by (fastforce simp: register_archive_manifest_def ebind_Inr_iff Let_def fence_simps)

definition committed_row :: "control_db \<Rightarrow> string \<Rightarrow> archive_state \<Rightarrow> bool" where
  "committed_row db mid st \<longleftrightarrow> (\<exists>r. manifest_row db mid = Some r \<and> st \<le> mr_state r)"

lemma committed_stays: "plane_le db db' \<Longrightarrow> db_inv db \<Longrightarrow> committed_row db mid st \<Longrightarrow> committed_row db' mid st"
  unfolding committed_row_def using manifest_row_stays by (meson order_trans)

locale plane_ingest = ingest_frame ic plane_le for ic :: "('a, 'b, 'c) ingest_controller"
begin

lemma world_inv:
  assumes "eff_keeps world_le m" and "m w = (r, w')" and "db_inv (iw_db w)"
  shows "plane_le (iw_db w) (iw_db w')" and "iw_archive w' = iw_archive w" and "db_inv (iw_db w')"
proof -
  from eff_keepsD [OF assms(1,2)] have le: "plane_le (iw_db w) (iw_db w') \<and> iw_archive w' = iw_archive w"
    by (simp add: world_le_def)
  then show "plane_le (iw_db w) (iw_db w')" and "iw_archive w' = iw_archive w" by simp_all
  then show "db_inv (iw_db w')" using plane_le_inv assms(3) by blast
qed

lemma control_call_returned:
  assumes "control_call ic tx w = (Inr x, w')" and "db_inv (iw_db w)"
  obtains db where "plane_le (iw_db w) db" "db_inv db" "tx (ic_clock ic (iw_calls w)) db = Inr (x, iw_db w')"
    "iw_archive w' = iw_archive w"
  using assms(1)
proof (cases rule: control_call_cases)
  case (returned y db)
  with plane_le_inv assms(2) show thesis by (intro that [of db]) auto
qed simp

lemma decode_sources_rows:
  assumes "decode_sources ic s d e dps w = (Inr dec, w')" and "db_inv (iw_db w)" and "dp \<in> set dps"
  shows "source_row (iw_db w') s (sd_object_key (fst dp)) \<noteq> None"
  using assms
proof (induction dps arbitrary: w dec)
  case (Cons x dps)
  from Cons.prems(1) obtain decoded :: decode_result and more w1 where
    counts: "control_call ic (\<lambda>clk. record_source_counts clk s (sd_object_key (fst x)) (dr_accepted_rows decoded)
        (dr_quarantined_rows decoded) e) w = (Inr (), w1)"
    and rest: "decode_sources ic s d e dps w1 = (Inr more, w')"
    by (auto simp: Let_def eff_bind_Inr_iff)
  have "eff_keeps world_le (control_call ic (\<lambda>clk. record_source_counts clk s (sd_object_key (fst x)) (dr_accepted_rows decoded)
        (dr_quarantined_rows decoded) e))"
    by (rule control_call_le) (rule counts_le)
  note inv1 = world_inv(3) [OF this counts Cons.prems(2)]
  show ?case
  proof (cases "dp = x")
    case True
    from counts Cons.prems(2) obtain db where "record_source_counts (ic_clock ic (iw_calls w)) s (sd_object_key (fst x))
        (dr_accepted_rows decoded) (dr_quarantined_rows decoded) e db = Inr ((), iw_db w1)"
      by (rule control_call_returned)
    from record_source_counts_row [OF this] source_row_stays [OF world_inv(1) [OF decode_sources_le rest inv1] inv1] True
    show ?thesis by simp
  next
    case False
    with Cons.IH [OF rest inv1] Cons.prems(3) show ?thesis by simp
  qed
qed simp

lemma walk_states_committed:
  assumes "walk_states ic mid e cur sts w = (Inr u, w')" and "db_inv (iw_db w)" and "committed_row (iw_db w) mid cur"
  shows "committed_row (iw_db w') mid (if sts = [] then cur else last sts)"
  using assms
proof (induction sts arbitrary: cur w)
  case (Cons st sts)
  let ?tx = "\<lambda>clk. transition_archive_manifest (ac_fromisoformat (ic_codec ic)) clk mid cur st e"
  from Cons.prems(1) obtain x w1 where step: "control_call ic ?tx w = (Inr x, w1)"
      and rest: "walk_states ic mid e st sts w1 = (Inr u, w')"
    by (auto simp: eff_bind_Inr_iff)
  from step Cons.prems(2) obtain db where db: "plane_le (iw_db w) db" "db_inv db"
      "?tx (ic_clock ic (iw_calls w)) db = Inr (x, iw_db w1)"
    by (rule control_call_returned)
  from transition_state [OF db(3)] have "committed_row (iw_db w1) mid st" by (auto simp: committed_row_def)
  moreover have "db_inv (iw_db w1)" using plane_le_inv [OF transition_le [OF db(3)] db(2)] by simp
  ultimately show ?case using Cons.IH [OF rest] by (auto split: if_splits)
qed simp

lemma control_states_walk:
  assumes "st \<in> set CONTROL_STATES"
  shows "(if tl (dropWhile (\<lambda>s. s \<noteq> st) CONTROL_STATES) = [] then st else last (tl (dropWhile (\<lambda>s. s \<noteq> st) CONTROL_STATES)))
    = MANIFEST_COMMITTED"
  using assms by (auto simp: CONTROL_STATES_def)

lemma publish_control_committed:
  assumes "publish_control_manifest ic m e w = (Inr u, w')" and "db_inv (iw_db w)"
  shows "committed_row (iw_db w') (am_manifest_id m) MANIFEST_COMMITTED"
proof -
  let ?tx = "\<lambda>clk. register_archive_manifest (ac_fromisoformat (ic_codec ic)) clk m e MANIFEST_COMMITTED"
  from assms(1) obtain x w1 where reg: "control_call ic ?tx w = (Inr x, w1)" and st: "amr_state x \<in> set CONTROL_STATES"
      and walk: "walk_states ic (am_manifest_id m) e (amr_state x) (tl (dropWhile (\<lambda>s. s \<noteq> amr_state x) CONTROL_STATES)) w1
        = (Inr u, w')"
    by (auto simp: publish_control_manifest_def eff_bind_Inr_iff split: if_splits)
  from reg assms(2) obtain db where db: "db_inv db" "?tx (ic_clock ic (iw_calls w)) db = Inr (x, iw_db w1)"
    by (rule control_call_returned)
  have "db_inv (iw_db w1)" using plane_le_inv [OF register_le [OF db(2)] db(1)] by simp
  moreover have "committed_row (iw_db w1) (am_manifest_id m) (amr_state x)"
    using register_state [OF db(2)] by (auto simp: committed_row_def)
  ultimately show ?thesis using walk_states_committed [OF walk] control_states_walk [OF st] by simp
qed

lemma store_batch_durable:
  assumes "object_store (ic_archive ic) content nk" and "store_batch ic s d e bs obs w = (Inr m, w')" and "db_inv (iw_db w)"
  shows "(\<exists>a. replays (ic_codec ic) (content (iw_archive w')) (am_manifest_id m) a)
    \<and> committed_row (iw_db w') (am_manifest_id m) MANIFEST_COMMITTED \<and> db_inv (iw_db w')"
proof -
  from assms(2) obtain fresh artifact w1 w2 w3 x u o1 where
    reg: "registered_or_new ic fresh w = (Inr m, w1)"
    and arc: "archive_call (publish (ic_archive ic) (ic_codec ic) m artifact) w1 = (Inr x, w2)"
    and man: "publish_control_manifest ic m e w2 = (Inr u, w3)"
    and own: "require_owner ic s (Some e) w3 = (Inr o1, w')"
    by (auto simp: store_batch_def eff_bind_Inr_iff split: prod.splits)
  from arc obtain a where pub: "publish (ic_archive ic) (ic_codec ic) m artifact (iw_archive w1) = (Inr x, a)"
      and w2: "w2 = w1\<lparr>iw_archive := a\<rparr>"
    by (auto simp: archive_call_def split: prod.splits)
  have inv2: "db_inv (iw_db w2)" using world_inv(3) [OF registered_or_new_le reg assms(3)] by (simp add: w2)
  note w3 = world_inv [OF publish_control_manifest_le man inv2]
  note w' = world_inv [OF require_owner_le own w3(3)]
  from object_store.publish_returns_replayable [OF assms(1) pub] w2 w3(2) w'(2)
  have "\<exists>a. replays (ic_codec ic) (content (iw_archive w')) (am_manifest_id m) a" by simp
  moreover have "committed_row (iw_db w') (am_manifest_id m) MANIFEST_COMMITTED"
    using committed_stays [OF w'(1) w3(3) publish_control_committed [OF man inv2]] .
  ultimately show ?thesis using w'(3) by blast
qed

lemma publish_serving_visible:
  assumes "publish_serving ic s d bid e rows w = (Inr pub, w')"
  shows "bp_batch_id pub = bid \<and> (if rows = [] then bp_rows_visible pub = 0 else
     \<exists>b. pg_stored (iw_db w') bid = Some b \<and> bm_status b = Visible \<and> bm_visible_rows b = bp_rows_visible pub
       \<and> bm_digest b = batch_digest (ic_batch_env ic)
           \<lparr>hb_batch_id = bid, hb_service_id = s, hb_domain = d, hb_generation = show_int e, hb_rows = rows\<rparr>)"
proof (cases "rows = []")
  case True
  with assms show ?thesis by (auto simp: publish_serving_def)
next
  case False
  let ?b = "\<lparr>hb_batch_id = bid, hb_service_id = s, hb_domain = d, hb_generation = show_int e, hb_rows = rows\<rparr>"
  from False assms have "publish_call ic (ic_serving ic) ?b w = (Inr pub, w')" by (simp add: publish_serving_def)
  then obtain db where run: "clickhouse_publish (ic_batch_env ic) (postgres_batch_manifest_store (ic_clock ic (iw_calls w)))
       (ic_serving ic (ic_clock ic (iw_calls w))) ?b (db, iw_serving w) = (Inr pub, iw_db w', iw_serving w')"
    by (rule publish_call_run)
  have id: "bp_batch_id pub = bid"
    using run pg_stored_id by (rule pg_manifests.publish_outcome) (auto simp: published_result_def)
  have "\<exists>m. pg_stored (iw_db w') (hb_batch_id ?b) = Some m \<and> validate_existing (ic_batch_env ic) m ?b = Inr ()
      \<and> bm_status m = Visible \<and> bm_visible_rows m = bp_rows_visible pub"
    using pg_manifests.published_manifest [OF run] pg_stored_id by auto
  with id False show ?thesis by (auto simp: validate_existing_iff)
qed

lemma serve_batch_acknowledged:
  assumes "serve_batch ic s d e ks nc p dec m w = (Inr res, w')" and "db_inv (iw_db w)" and "bi_derived_complete res"
    and "\<And>k. k \<in> set ks \<Longrightarrow> source_row (iw_db w) s k \<noteq> None"
  shows "bi_manifest res = Some m \<and> plane_le (iw_db w) (iw_db w') \<and> iw_archive w' = iw_archive w
    \<and> (\<forall>k \<in> set ks. \<exists>r. source_row (iw_db w') s k = Some r \<and> src_status r = Acknowledged
          \<and> src_archive_manifest_id r = Some (am_manifest_id m))
    \<and> (bp_rows_visible (bi_publication res) = 0 \<or>
        (\<exists>b. pg_stored (iw_db w') (bp_batch_id (bi_publication res)) = Some b \<and> bm_status b = Visible
           \<and> bm_visible_rows b = bp_rows_visible (bi_publication res)))"
proof -
  let ?evs = "if d = ''request'' then enrich_ngwaf_bots ic (db_events dec) else db_events dec"
  from assms(1,3) obtain bid pub err w1 w2 where
    pub: "publish_serving ic s d bid e (filter (row_matches_serving_domain d) ?evs) w = (Inr pub, w1)"
    and der: "publish_derived ic s d (am_manifest_id m) e ?evs (db_sibling_events dec) w1 = (Inr (True, err), w2)"
    and fin: "control_call ic (\<lambda>clk. acknowledge_sources_batch clk s ks (am_manifest_id m) e nc d p) w2 = (Inr (), w')"
    and res: "bi_manifest res = Some m" "bi_publication res = pub"
    unfolding serve_batch_def Let_def by (auto simp: eff_bind_Inr_iff finish_sources_def split: prod.splits)
  note w1 = world_inv [OF publish_serving_le pub assms(2)]
  note w2 = world_inv [OF publish_derived_le der w1(3)]
  from fin w2(3) obtain db where db: "plane_le (iw_db w2) db" "db_inv db"
      "acknowledge_sources_batch (ic_clock ic (iw_calls w2)) s ks (am_manifest_id m) e nc d p db = Inr ((), iw_db w')"
      "iw_archive w' = iw_archive w2"
    by (rule control_call_returned)
  note le2 = plane_le_trans [OF plane_le_trans [OF w1(1) w2(1)] db(1)]
  note le' = plane_le_trans [OF plane_le_trans [OF w2(1) db(1)] acknowledge_le [OF db(3)]]
  have "\<exists>r. source_row (iw_db w') s k = Some r \<and> src_status r = Acknowledged
          \<and> src_archive_manifest_id r = Some (am_manifest_id m)" if "k \<in> set ks" for k
    using acknowledge_rows [OF db(3) that source_row_stays [OF le2 assms(2) assms(4) [OF that]]] .
  moreover have "bp_rows_visible pub = 0 \<or> (\<exists>b. pg_stored (iw_db w') (bp_batch_id pub) = Some b \<and> bm_status b = Visible
      \<and> bm_visible_rows b = bp_rows_visible pub)"
    using publish_serving_visible [OF pub] le' by (auto simp: plane_le_def split: if_splits)
  ultimately show ?thesis using res w1(2) w2(2) db(4) plane_le_trans [OF w1(1) le'] by simp
qed

lemma ingest_batch_stages:
  assumes "ingest_batch ic s d dps nc p obs ratio w = (Inr res, w')" and "dps \<noteq> []" and "db_inv (iw_db w)"
  obtains e dec m w2 w3 where "store_batch ic s d e (db_batches dec) obs w2 = (Inr m, w3)" and "db_inv (iw_db w2)"
    and "serve_batch ic s d e (map (sd_object_key \<circ> fst) dps) nc p dec m w3 = (Inr res, w')" and "db_inv (iw_db w3)"
    and "\<And>k. k \<in> set (map (sd_object_key \<circ> fst) dps) \<Longrightarrow> source_row (iw_db w3) s k \<noteq> None"
proof -
  from assms(1,2) obtain o1 dec m w1 w2 w3 where
    own: "require_owner ic s None w = (Inr o1, w1)"
    and dec: "decode_sources ic s d (oe_owner_epoch o1) dps w1 = (Inr dec, w2)"
    and sto: "store_batch ic s d (oe_owner_epoch o1) (db_batches dec) obs w2 = (Inr m, w3)"
    and ser: "serve_batch ic s d (oe_owner_epoch o1) (map (sd_object_key \<circ> fst) dps) nc p dec m w3 = (Inr res, w')"
    unfolding ingest_batch_def Let_def by (auto simp: eff_bind_Inr_iff split: if_splits)
  note inv1 = world_inv(3) [OF require_owner_le own assms(3)]
  note inv2 = world_inv(3) [OF decode_sources_le dec inv1]
  note le3 = store_batch_le [OF sto]
  show thesis
    using plane_le_inv [OF le3 inv2] decode_sources_rows [OF dec inv1] source_row_stays [OF le3 inv2]
    by (intro that [OF sto inv2 ser]) auto
qed

lemma ingest_batch_acknowledged:
  assumes "ingest_batch ic s d dps nc p obs ratio w = (Inr res, w')" and "dps \<noteq> []" and "db_inv (iw_db w)"
    and "bi_derived_complete res" and "dp \<in> set dps"
  shows "\<exists>r. source_row (iw_db w') s (sd_object_key (fst dp)) = Some r \<and> src_status r = Acknowledged"
  using assms(1-3)
proof (rule ingest_batch_stages)
  fix e dec m w2 w3
  assume "serve_batch ic s d e (map (sd_object_key \<circ> fst) dps) nc p dec m w3 = (Inr res, w')" "db_inv (iw_db w3)"
    and "\<And>k. k \<in> set (map (sd_object_key \<circ> fst) dps) \<Longrightarrow> source_row (iw_db w3) s k \<noteq> None"
  from serve_batch_acknowledged [OF this(1,2) assms(4) this(3)] assms(5) show ?thesis by auto
qed

end

interpretation alone_ingest: plane_ingest "alone ic" for ic
  by unfold_locales

subsection \<open>Properties\<close>


text \<open>An ingest of one object with one good line; a peer registers another service in between.\<close>

definition example_peer :: "nat \<Rightarrow> control_db \<Rightarrow> control_db" where
  "example_peer n db =
     (if n = 2 then (case initialize_owner 8 ''svc2'' ''high_scale'' ''c0'' db of Inr (_, db') \<Rightarrow> db' | Inl _ \<Rightarrow> db) else db)"

definition document_codec :: "json archive_codec" where
  "document_codec = \<lparr>ac_dumps = (\<lambda>j. j), ac_loads = Inr, ac_checksum = (\<lambda>_. ''sha256:c''), ac_size = (\<lambda>_. 3),
     ac_isoformat = (\<lambda>_. ''t''), ac_fromisoformat = (\<lambda>_. Inr 9)\<rparr>"

definition example_controller :: "(json objects, json, ch_tables) ingest_controller" where
  "example_controller =
     \<lparr>ic_worker_id = ''w1'', ic_transform_version = ''t1'', ic_schema_version = ''s1'', ic_archive_epoch = 0,
      ic_retention_seconds = 0, ic_deletion_grace_seconds = 900, ic_lease = 300, ic_archive = in_memory_object_store,
      ic_codec = document_codec,
      ic_checkpoint = \<lparr>ck_dumps = (\<lambda>_. ''d''), ck_sha = (\<lambda>_. ''m1''), ck_parquet = (\<lambda>rows. JList (map JObj rows)),
                       ck_checksum = (\<lambda>_. ''sha256:c''), ck_size = (\<lambda>_. 3)\<rparr>,
      ic_root = ''/tmp'', ic_decoder = example_decode_env\<lparr>de_sha_uuid := (\<lambda>_. ''e1'')\<rparr>, ic_batch_env = example_batch_env,
      ic_serving = insert_batch example_batch_env memory_clickhouse,
      ic_aggregates = None, ic_bots = (\<lambda>_. None), ic_project_cmcd = (\<lambda>_. Inr None), ic_projections = (\<lambda>_. Inr []),
      ic_clock = (\<lambda>n. int n), ic_peers = example_peer\<rparr>"

definition example_claimed :: control_db where
  "example_claimed = snd (projr (claim_source 7 ''svc'' ''k1'' ''w1'' ''high_scale'' 1 100 7 example_db))"

definition example_world :: "(json objects, ch_tables) ingest_world" where
  "example_world = \<lparr>iw_db = example_claimed, iw_archive = Map.empty, iw_serving = (\<lambda>_. []), iw_calls = 0\<rparr>"

definition example_sources :: "(source_descriptor \<times> string) list" where
  \<open>example_sources = [(\<lparr>sd_object_key = ''k1'', sd_checksum = ''c1'', sd_size_bytes = 10, sd_version = None\<rparr>,
     ''{"timestamp":"2025","client_ip":"192.0.2.1"}'')]\<close>

definition example_ingest :: "batch_ingest_result result \<times> (json objects, ch_tables) ingest_world" where
  "example_ingest = ingest_batch example_controller ''svc'' ''request'' example_sources (Some ''c1'') ''default'' 9
     HIGH_SCALE_MAX_DEAD_LETTER_RATIO example_world"

lemma example_claimed_reachable: "control_steps create_schema example_claimed"
proof -
  have "is_ok (claim_source 7 ''svc'' ''k1'' ''w1'' ''high_scale'' 1 100 7 example_db)" by code_simp
  then obtain c where "claim_source 7 ''svc'' ''k1'' ''w1'' ''high_scale'' 1 100 7 example_db = Inr (c, example_claimed)"
    by (auto simp: example_claimed_def is_ok_iff)
  from step_claim [OF this] example_db_reachable show ?thesis by (rule rtranclp.rtrancl_into_rtrancl [rotated])
qed

lemma example_peers_ok: "peers_ok example_controller"
proof -
  have "plane_le db db'" if "initialize_owner 8 ''svc2'' ''high_scale'' ''c0'' db = Inr (x, db')" for x db db'
    using that by (intro plane_le_step [OF step_initialize [OF that]])
      (auto simp: initialize_owner_def Let_def ebind_Inr_iff split: option.splits)
  then show ?thesis
    by (auto simp: peers_ok_def example_controller_def example_peer_def split: sum.split)
qed


end
