(* ===== verification/Page_Coordinator.thy ===== *)
theory Page_Coordinator
  imports Ingest_Controller
begin

text \<open>
  Listing and processing of one page of source objects: \<open>S3SourceObjectLister\<close>, \<open>S3SourceObjectReader\<close>
  and \<open>HighScaleWorkerCoordinator\<close> of \<open>ingest_controller/coordinator.py\<close>, with the PostgreSQL control
  plane the worker gives them. The calls of the S3
  client are parameters: the first page of a paginated listing and the body of an object, each of
  which may fail and may depend on the time of the call. The reader threads of a page only read, and
  \<open>pool.map\<close> keeps their order, so reading is a map over the claimed objects. Shown: the listing cursor
  never passes an object that is not settled, and every object of a page is accounted for.
\<close>

subsection \<open>Source listing\<close>

definition MAX_SOURCE_PAGE_SIZE :: int where
  "MAX_SOURCE_PAGE_SIZE = 500"

definition TERMINAL_SOURCE_CURSOR_PREFIX :: string where
  "TERMINAL_SOURCE_CURSOR_PREFIX = ''__terminal__:''"

definition RUM_REINSPECTION_INTERVAL :: int where
  "RUM_REINSPECTION_INTERVAL = 10"

definition SOURCE_PREFIXES :: "(string \<times> string) list" where
  "SOURCE_PREFIXES = [(''request'', ''raw/request/''), (''rum_vitals'', ''raw/rum/''), (''rum_errors'', ''raw/rum/'')]"

text \<open>The fields of a listed object, of a listing page and of a listing request that the lister uses.\<close>

record s3_item =
  si_key :: "string option"
  si_size :: int
  si_version_id :: "string option"
  si_etag :: "string option"
  si_sha256 :: "string option"
  si_sha1 :: "string option"

record s3_page =
  sp_contents :: "s3_item list"
  sp_next_token :: "string option"
  sp_next_continuation :: "string option"

record list_request =
  lr_bucket :: string
  lr_prefix :: string
  lr_page_size :: int
  lr_start_after :: "string option"
  lr_starting_token :: "string option"

record s3_lister =
  sl_bucket :: string
  sl_prefix :: string
  sl_paginate :: "nat \<Rightarrow> list_request \<Rightarrow> s3_page result"

record source_object_page =
  pg_objects :: "source_descriptor list"
  pg_next_cursor :: "string option"
  pg_next_reinspection :: "string option"
  pg_forward_pages :: "int option"
  pg_reinspection_page :: bool

text \<open>Python's \<open>a or b\<close> on optional text.\<close>

definition or_else :: "string option \<Rightarrow> string option \<Rightarrow> string option" where
  "or_else a b = (case a of Some (c # s) \<Rightarrow> a | _ \<Rightarrow> b)"

definition source_checksum :: "s3_item \<Rightarrow> string result" where
  "source_checksum item =
     (case or_else (si_sha256 item) (si_sha1 item) of
        Some (c # s) \<Rightarrow> Inr (if CHR '':'' \<in> set (c # s) then c # s else ''checksum:'' @ c # s)
      | _ \<Rightarrow>
          (case si_etag item of
             Some (c # s) \<Rightarrow> Inr (''etag:'' @ rstrip_chars (\<lambda>x. x = CHR 0x22) (lstrip_chars (\<lambda>x. x = CHR 0x22) (c # s)))
           | _ \<Rightarrow> Inl (ValueError ''source object listing item has no checksum or ETag'')))"

definition mk_s3_lister :: "(nat \<Rightarrow> list_request \<Rightarrow> s3_page result) \<Rightarrow> string \<Rightarrow> string \<Rightarrow> s3_lister result" where
  "mk_s3_lister client bucket_name raw_prefix =
     (if bucket_name = [] then Inl (ValueError ''bucket is required'')
      else Inr \<lparr>sl_bucket = bucket_name, sl_prefix = strip_slashes raw_prefix, sl_paginate = client\<rparr>)"

definition lister_key :: "s3_lister \<Rightarrow> string \<Rightarrow> string" where
  "lister_key sl key =
     (let normalized = lstrip_chars (\<lambda>c. c = CHR ''/'') key
      in if sl_prefix sl \<noteq> [] then sl_prefix sl @ ''/'' @ normalized else normalized)"

text \<open>Where the listing starts: \<open>StartAfter\<close> behind a last key, or a continuation token.\<close>

definition listing_request :: "s3_lister \<Rightarrow> string \<Rightarrow> int \<Rightarrow> string option \<Rightarrow> list_request" where
  "listing_request sl resolved_prefix page_size listing_cursor =
     (let base = \<lparr>lr_bucket = sl_bucket sl, lr_prefix = resolved_prefix, lr_page_size = page_size,
                  lr_start_after = None, lr_starting_token = None\<rparr>
      in case listing_cursor of
           None \<Rightarrow> base
         | Some c \<Rightarrow>
             if c = [] \<or> c = INITIAL_SOURCE_CURSOR then base
             else if startswith TERMINAL_SOURCE_CURSOR_PREFIX c
             then (let start_after = removeprefix TERMINAL_SOURCE_CURSOR_PREFIX c
                   in if startswith resolved_prefix start_after then base\<lparr>lr_start_after := Some start_after\<rparr> else base)
             else base\<lparr>lr_starting_token := Some c\<rparr>)"

fun descriptors :: "s3_item list \<Rightarrow> source_descriptor list result" where
  "descriptors [] = Inr []"
| "descriptors (item # items) =
     (case si_key item of
        None \<Rightarrow> descriptors items
      | Some k \<Rightarrow>
          ebind (source_checksum item) (\<lambda>c.
          ebind (descriptors items) (\<lambda>ds.
          Inr (\<lparr>sd_object_key = k, sd_checksum = c, sd_size_bytes = si_size item,
                sd_version = or_else (si_version_id item) (si_etag item)\<rparr> # ds))))"

definition list_source_objects ::
  "s3_lister \<Rightarrow> nat \<Rightarrow> string \<Rightarrow> int \<Rightarrow> string option \<Rightarrow> string option \<Rightarrow> bool \<Rightarrow> int \<Rightarrow> source_object_page result" where
  "list_source_objects sl n domain page_size cursor reinspection_cursor reinspect forward_pages =
     ebind (ensure (0 < page_size \<and> page_size \<le> MAX_SOURCE_PAGE_SIZE) (ValueError ''page_size must be between 1 and 500'')) (\<lambda>_.
     case map_of SOURCE_PREFIXES domain of
       None \<Rightarrow> Inl (ValueError (''unsupported source domain: '' @ domain))
     | Some domain_prefix \<Rightarrow>
         ebind (ensure (\<not> (reinspect \<and> domain \<notin> set RUM_SOURCE_DOMAINS))
                  (ValueError ''only RUM source domains support reinspection'')) (\<lambda>_.
         ebind (ensure (0 \<le> forward_pages) (ValueError ''forward_pages_since_reinspection cannot be negative'')) (\<lambda>_.
         (let listing_cursor = (if reinspect then or_else reinspection_cursor (Some INITIAL_SOURCE_CURSOR) else cursor)
          in ebind (sl_paginate sl n (listing_request sl (lister_key sl domain_prefix) page_size listing_cursor)) (\<lambda>page.
             ebind (descriptors (sp_contents page)) (\<lambda>objects.
             Inr (if domain \<notin> set RUM_SOURCE_DOMAINS
                  then \<lparr>pg_objects = objects, pg_next_cursor = sp_next_token page, pg_next_reinspection = None,
                        pg_forward_pages = None, pg_reinspection_page = False\<rparr>
                  else if reinspect
                  then \<lparr>pg_objects = objects, pg_next_cursor = or_else cursor (Some INITIAL_SOURCE_CURSOR),
                        pg_next_reinspection = Some
                          (if or_else (sp_next_continuation page) None \<noteq> None \<and> objects \<noteq> []
                           then TERMINAL_SOURCE_CURSOR_PREFIX @ sd_object_key (last objects)
                           else INITIAL_SOURCE_CURSOR),
                        pg_forward_pages = Some 0, pg_reinspection_page = True\<rparr>
                  else \<lparr>pg_objects = objects, pg_next_cursor = sp_next_token page,
                        pg_next_reinspection = or_else reinspection_cursor (Some INITIAL_SOURCE_CURSOR),
                        pg_forward_pages = Some (forward_pages + 1), pg_reinspection_page = False\<rparr>)))))))"

subsection \<open>Reading\<close>

text \<open>A \<open>ClientError\<close> is an \<open>OtherError\<close> that carries its code.\<close>

definition client_error_code :: "py_error \<Rightarrow> string option" where
  "client_error_code e = (case e of OtherError code \<Rightarrow> Some code | _ \<Rightarrow> None)"

definition read_source_object :: "(string \<Rightarrow> string \<Rightarrow> string result) \<Rightarrow> string \<Rightarrow> string \<Rightarrow> string result" where
  "read_source_object client_get bucket_name object_key =
     (case client_get bucket_name object_key of
        Inr body \<Rightarrow> Inr body
      | Inl e \<Rightarrow>
          if client_error_code e \<in> {Some ''NoSuchKey'', Some ''404''}
          then Inl (SourceObjectMissingError (''source object is missing from storage: '' @ object_key))
          else Inl e)"

subsection \<open>The coordinator\<close>

record ('a, 'b, 'c) page_coordinator =
  pc_controller :: "('a, 'b, 'c) ingest_controller"
  pc_lister :: s3_lister
  pc_reader_bucket :: string
  pc_get_object :: "nat \<Rightarrow> string \<Rightarrow> string \<Rightarrow> string result"
  pc_sha :: "string \<Rightarrow> string"
  pc_worker_id :: string
  pc_page_size :: int
  pc_lease :: duration
  pc_object_concurrency :: int

definition check_coordinator :: "('a, 'b, 'c) page_coordinator \<Rightarrow> unit result" where
  "check_coordinator pc =
     ebind (ensure (pc_worker_id pc \<noteq> []) (ValueError ''worker identity is required'')) (\<lambda>_.
     ebind (ensure (0 < pc_page_size pc \<and> pc_page_size pc \<le> MAX_SOURCE_PAGE_SIZE)
              (ValueError ''page_size must be between 1 and 500'')) (\<lambda>_.
     ebind (ensure (0 < pc_lease pc) (ValueError ''lease_seconds must be positive'')) (\<lambda>_.
     ebind (ensure (0 < pc_object_concurrency pc) (ValueError ''object_concurrency must be positive'')) (\<lambda>_.
     ensure (pc_reader_bucket pc \<noteq> []) (ValueError ''bucket is required'')))))"

record page_run =
  pr_cursor :: "string option"
  pr_next_cursor :: "string option"
  pr_discovered :: int
  pr_processed :: int
  pr_duplicates :: int
  pr_failed :: int
  pr_missing :: int

definition TERMINAL_SOURCE_STATES :: "source_status list" where
  "TERMINAL_SOURCE_STATES = [Appended, Archived, Acknowledged, SourceDeleted, SourceMissing]"

definition require_high_scale :: "string \<Rightarrow> string \<Rightarrow> unit result" where
  "require_high_scale owner service_id =
     ensure (owner = ''high_scale'') (RuntimeError (''high-scale worker is not the owner for '' @ service_id))"

definition has_reinspection :: "string \<Rightarrow> bool" where
  "has_reinspection domain \<longleftrightarrow> domain \<in> set RUM_SOURCE_DOMAINS"

text \<open>The first part of \<open>run_page\<close>: the owner, the cursor and the listed page.\<close>

record listed_page =
  lp_owner :: string
  lp_epoch :: int
  lp_cursor :: string
  lp_page :: source_object_page

definition listing_cursor_for ::
  "('a, 'b, 'c) page_coordinator \<Rightarrow> string \<Rightarrow> string \<Rightarrow> string option \<Rightarrow> (('a, 'c) ingest_world, string) eff" where
  "listing_cursor_for pc service_id domain cursor =
     (case cursor of
        Some c \<Rightarrow> eff_return c
      | None \<Rightarrow> control_call (pc_controller pc) (\<lambda>_. source_cursor_for service_id domain))"

definition listing_options ::
  "('a, 'b, 'c) page_coordinator \<Rightarrow> string \<Rightarrow> string \<Rightarrow> (('a, 'c) ingest_world, string option \<times> bool \<times> int) eff" where
  "listing_options pc service_id domain =
     (if has_reinspection domain
      then eff_bind (control_call (pc_controller pc) (\<lambda>_. source_reinspection_state_for service_id domain)) (\<lambda>(rc, fwd).
           eff_return (Some rc, RUM_REINSPECTION_INTERVAL \<le> fwd, fwd))
      else eff_return (None, False, 0))"

definition list_page ::
  "('a, 'b, 'c) page_coordinator \<Rightarrow> string \<Rightarrow> string \<Rightarrow> string option \<Rightarrow> (('a, 'c) ingest_world, listed_page) eff" where
  "list_page pc service_id domain cursor =
     eff_bind (control_call (pc_controller pc) (\<lambda>_. owner_op service_id)) (\<lambda>owner.
     eff_bind (eff_lift (require_high_scale (oe_current_owner owner) service_id)) (\<lambda>_.
     eff_bind (listing_cursor_for pc service_id domain cursor) (\<lambda>listing_cursor.
     eff_bind (listing_options pc service_id domain) (\<lambda>(rc, reinspect, fwd).
     eff_bind (\<lambda>w. (list_source_objects (pc_lister pc) (iw_calls w) domain (pc_page_size pc) (Some listing_cursor) rc
                       reinspect fwd, w)) (\<lambda>page.
     eff_bind (eff_lift (ensure (int (length (pg_objects page)) \<le> pc_page_size pc)
                 (ValueError ''source object listing exceeded page_size''))) (\<lambda>_.
     eff_return \<lparr>lp_owner = oe_current_owner owner, lp_epoch = oe_owner_epoch owner, lp_cursor = listing_cursor,
                 lp_page = page\<rparr>))))))"

definition next_cursor_of :: "listed_page \<Rightarrow> string option" where
  "next_cursor_of lp =
     (case pg_next_cursor (lp_page lp) of
        Some c \<Rightarrow> Some c
      | None \<Rightarrow>
          if pg_objects (lp_page lp) \<noteq> []
          then Some (TERMINAL_SOURCE_CURSOR_PREFIX @ sd_object_key (last (pg_objects (lp_page lp))))
          else if startswith TERMINAL_SOURCE_CURSOR_PREFIX (lp_cursor lp) then Some (lp_cursor lp)
          else None)"

text \<open>Sources to work on: expired claims first, then the listed objects that are not terminal.\<close>

definition descriptor_of :: "source_object_record \<Rightarrow> source_descriptor" where
  "descriptor_of s = \<lparr>sd_object_key = src_object_key s, sd_checksum = src_checksum s, sd_size_bytes = src_size_bytes s,
     sd_version = src_version s\<rparr>"

definition expired_claim_descriptors ::
  "('a, 'b, 'c) page_coordinator \<Rightarrow> string \<Rightarrow> string \<Rightarrow> (('a, 'c) ingest_world, source_descriptor list) eff" where
  "expired_claim_descriptors pc service_id domain =
     eff_bind (control_call (pc_controller pc) (\<lambda>clk. expired_claims clk service_id domain (pc_page_size pc))) (\<lambda>ss.
     eff_return (map descriptor_of ss))"

fun discover_all ::
  "('a, 'b, 'c) page_coordinator \<Rightarrow> string \<Rightarrow> string \<Rightarrow> string \<Rightarrow> int \<Rightarrow> source_descriptor list
     \<Rightarrow> (('a, 'c) ingest_world, (string \<times> source_status) list) eff" where
  "discover_all pc service_id domain owner epoch [] = eff_return []"
| "discover_all pc service_id domain owner epoch (s # ss) =
     eff_bind (control_call (pc_controller pc) (\<lambda>clk. discover_source (pc_sha pc) clk service_id domain (sd_object_key s)
                 (sd_checksum s) (sd_size_bytes s) (sd_version s) owner epoch)) (\<lambda>found.
     eff_bind (discover_all pc service_id domain owner epoch ss) (\<lambda>rest.
     eff_return ((sd_object_key s, src_status found) # rest)))"

text \<open>The dictionary keeps the last record of a key.\<close>

definition discovered_status :: "(string \<times> source_status) list \<Rightarrow> string \<Rightarrow> source_status option" where
  "discovered_status found k = map_of (rev found) k"

definition known_terminal :: "(string \<times> source_status) list \<Rightarrow> string \<Rightarrow> bool" where
  "known_terminal found k = (case discovered_status found k of None \<Rightarrow> False | Some st \<Rightarrow> st \<in> set TERMINAL_SOURCE_STATES)"

fun choose_active ::
  "(string \<times> source_status) list \<Rightarrow> string list \<Rightarrow> source_descriptor list \<Rightarrow> int \<times> source_descriptor list" where
  "choose_active found keys [] = (0, [])"
| "choose_active found keys (s # ss) =
     (if sd_object_key s \<in> set keys then choose_active found keys ss
      else if known_terminal found (sd_object_key s)
      then (let (duplicates, active) = choose_active found keys ss in (duplicates + 1, active))
      else (let (duplicates, active) = choose_active found (sd_object_key s # keys) ss in (duplicates, s # active)))"

text \<open>One claimed object: its body, confirmed missing, or not read.\<close>

datatype read_outcome = ReadBody string | ReadMissing string | ReadFailed string

definition read_one :: "('a, 'b, 'c) page_coordinator \<Rightarrow> nat \<Rightarrow> source_descriptor \<Rightarrow> read_outcome" where
  "read_one pc n s =
     (case read_source_object (pc_get_object pc n) (pc_reader_bucket pc) (sd_object_key s) of
        Inr body \<Rightarrow> ReadBody body
      | Inl (SourceObjectMissingError m) \<Rightarrow> ReadMissing m
      | Inl e \<Rightarrow> ReadFailed (error_text e))"

definition mark_missing ::
  "('a, 'b, 'c) page_coordinator \<Rightarrow> string \<Rightarrow> string \<Rightarrow> string \<Rightarrow> int \<Rightarrow> string \<Rightarrow> timestamp option
     \<Rightarrow> (('a, 'c) ingest_world, unit) eff" where
  "mark_missing pc service_id object_key owner epoch err now =
     control_call (pc_controller pc) (\<lambda>clk. mark_source_missing service_id object_key owner epoch err (the_default clk now))"

record read_summary =
  rs_missing :: int
  rs_failed :: int
  rs_payloads :: "(source_descriptor \<times> string) list"

fun settle_reads ::
  "('a, 'b, 'c) page_coordinator \<Rightarrow> string \<Rightarrow> string \<Rightarrow> int \<Rightarrow> timestamp option \<Rightarrow> (source_descriptor \<times> read_outcome) list
     \<Rightarrow> (('a, 'c) ingest_world, read_summary) eff" where
  "settle_reads pc service_id owner epoch now [] = eff_return \<lparr>rs_missing = 0, rs_failed = 0, rs_payloads = []\<rparr>"
| "settle_reads pc service_id owner epoch now ((s, ReadMissing err) # rest) =
     eff_bind (mark_missing pc service_id (sd_object_key s) owner epoch (if err = [] then ''missing'' else err) now) (\<lambda>_.
     eff_bind (settle_reads pc service_id owner epoch now rest) (\<lambda>r.
     eff_return (r\<lparr>rs_missing := rs_missing r + 1\<rparr>)))"
| "settle_reads pc service_id owner epoch now ((s, ReadFailed err) # rest) =
     eff_bind (settle_reads pc service_id owner epoch now rest) (\<lambda>r.
     eff_return (r\<lparr>rs_failed := rs_failed r + 1\<rparr>))"
| "settle_reads pc service_id owner epoch now ((s, ReadBody body) # rest) =
     eff_bind (settle_reads pc service_id owner epoch now rest) (\<lambda>r.
     eff_return (r\<lparr>rs_payloads := (s, body) # rs_payloads r\<rparr>))"

text \<open>The batch of a page: how many sources it processed and how many failed.\<close>

definition ingest_page ::
  "('a, 'b, 'c) page_coordinator \<Rightarrow> string \<Rightarrow> string \<Rightarrow> int \<Rightarrow> timestamp option \<Rightarrow> string option
     \<Rightarrow> (source_descriptor \<times> string) list \<Rightarrow> (('a, 'c) ingest_world, int \<times> int) eff" where
  "ingest_page pc service_id domain epoch now next_cursor payloads w =
     (if payloads = [] then (Inr (0, 0), w)
      else case ingest_batch (pc_controller pc) service_id domain payloads next_cursor ''default''
                  (the_default (ic_clock (pc_controller pc) (iw_calls w)) now) HIGH_SCALE_MAX_DEAD_LETTER_RATIO w of
             (Inr res, w') \<Rightarrow>
               (Inr (if bi_derived_complete res then (bi_sources_count res, 0) else (0, int (length payloads))), w')
           | (Inl e, w') \<Rightarrow>
               (Inr (0, int (length payloads)),
                snd (control_call (pc_controller pc) (\<lambda>clk. fail_sources_batch clk service_id
                       (map (sd_object_key \<circ> fst) payloads) epoch (error_text e)) w')))"

definition advance_cursor ::
  "('a, 'b, 'c) page_coordinator \<Rightarrow> string \<Rightarrow> string \<Rightarrow> string option \<Rightarrow> string \<Rightarrow> int \<Rightarrow> string option \<Rightarrow> int option
     \<Rightarrow> (('a, 'c) ingest_world, unit) eff" where
  "advance_cursor pc service_id domain cursor owner epoch reinspection_cursor forward_pages =
     (case cursor of
        None \<Rightarrow> eff_return ()
      | Some c \<Rightarrow>
          (let (rc, fp) = (if reinspection_cursor \<noteq> None \<and> forward_pages \<noteq> None then (reinspection_cursor, forward_pages)
                           else (None, None))
           in eff_bind (control_call (pc_controller pc) (\<lambda>clk. advance_source_cursor clk service_id c owner epoch
                          (Some domain) rc fp)) (\<lambda>_. eff_return ())))"

definition advance_page ::
  "('a, 'b, 'c) page_coordinator \<Rightarrow> string \<Rightarrow> string \<Rightarrow> listed_page \<Rightarrow> (('a, 'c) ingest_world, unit) eff" where
  "advance_page pc service_id domain lp =
     (let page = lp_page lp
      in if pg_reinspection_page page \<and> has_reinspection domain
         then control_call (pc_controller pc) (\<lambda>clk. advance_reinspection_state clk service_id domain
                (the_default [] (or_else (pg_next_reinspection page) (Some INITIAL_SOURCE_CURSOR)))
                (the_default 0 (pg_forward_pages page)) (lp_owner lp) (lp_epoch lp))
         else advance_cursor pc service_id domain (next_cursor_of lp) (lp_owner lp) (lp_epoch lp)
                (if has_reinspection domain then pg_next_reinspection page else None)
                (if has_reinspection domain then pg_forward_pages page else None))"

record page_counts =
  ct_processed :: int
  ct_duplicates :: int
  ct_failed :: int
  ct_missing :: int

definition process_active ::
  "('a, 'b, 'c) page_coordinator \<Rightarrow> string \<Rightarrow> string \<Rightarrow> timestamp option \<Rightarrow> listed_page \<Rightarrow> source_descriptor list
     \<Rightarrow> (('a, 'c) ingest_world, page_counts) eff" where
  "process_active pc service_id domain now lp active =
     (if active = [] then eff_return \<lparr>ct_processed = 0, ct_duplicates = 0, ct_failed = 0, ct_missing = 0\<rparr>
      else
        eff_bind (control_call (pc_controller pc) (\<lambda>clk. claim_sources_batch clk service_id (map sd_object_key active)
                    (pc_worker_id pc) (pc_lease pc) (lp_epoch lp) (Some (lp_owner lp)) (the_default clk now))) (\<lambda>claims.
        (let claimed = map src_object_key claims;
             to_read = filter (\<lambda>s. sd_object_key s \<in> set claimed) active
         in eff_bind (\<lambda>w. settle_reads pc service_id (lp_owner lp) (lp_epoch lp) now
                        (map (\<lambda>s. (s, read_one pc (iw_calls w) s)) to_read) w) (\<lambda>reads.
            eff_bind (ingest_page pc service_id domain (lp_epoch lp) now
                        (if 0 < rs_failed reads \<or> pg_reinspection_page (lp_page lp) then None else next_cursor_of lp)
                        (rs_payloads reads)) (\<lambda>(processed, failed).
            eff_return \<lparr>ct_processed = processed, ct_duplicates = int (length active) - int (length to_read),
                        ct_failed = rs_failed reads + failed, ct_missing = rs_missing reads\<rparr>)))))"

definition work_page ::
  "('a, 'b, 'c) page_coordinator \<Rightarrow> string \<Rightarrow> string \<Rightarrow> timestamp option \<Rightarrow> listed_page
     \<Rightarrow> (('a, 'c) ingest_world, page_run) eff" where
  "work_page pc service_id domain now lp =
     (let objects = pg_objects (lp_page lp)
      in eff_bind (expired_claim_descriptors pc service_id domain) (\<lambda>expired.
         eff_bind (discover_all pc service_id domain (lp_owner lp) (lp_epoch lp) objects) (\<lambda>found.
         (let (duplicates, fresh) = choose_active found (map sd_object_key expired) objects
          in eff_bind (process_active pc service_id domain now lp (expired @ fresh)) (\<lambda>counts.
             eff_bind (if ct_failed counts = 0 then advance_page pc service_id domain lp else eff_return ()) (\<lambda>_.
             eff_return \<lparr>pr_cursor = Some (lp_cursor lp), pr_next_cursor = next_cursor_of lp,
               pr_discovered = int (length objects), pr_processed = ct_processed counts,
               pr_duplicates = duplicates + ct_duplicates counts, pr_failed = ct_failed counts,
               pr_missing = ct_missing counts\<rparr>))))))"

definition run_page ::
  "('a, 'b, 'c) page_coordinator \<Rightarrow> string \<Rightarrow> string \<Rightarrow> string option \<Rightarrow> timestamp option
     \<Rightarrow> (('a, 'c) ingest_world, page_run) eff" where
  "run_page pc service_id domain cursor now =
     eff_bind (list_page pc service_id domain cursor) (\<lambda>lp. work_page pc service_id domain now lp)"

subsection \<open>Settled sources stay settled\<close>

definition settled :: "control_db \<Rightarrow> string \<Rightarrow> string \<Rightarrow> bool" where
  "settled db s k \<longleftrightarrow> (\<exists>r. source_row db s k = Some r \<and> src_status r \<in> set TERMINAL_SOURCE_STATES)"

lemma terminal_iff: "st \<in> set TERMINAL_SOURCE_STATES \<longleftrightarrow> \<not> claimable st"
  by (cases st) (simp_all add: TERMINAL_SOURCE_STATES_def claimable_def)

lemma settled_same: "source_objects db' = source_objects db \<Longrightarrow> settled db s k \<Longrightarrow> settled db' s k"
  by (simp add: settled_def row_lookups)

lemma settled_update:
  assumes "source_objects db' = sql_update p f (source_objects db)" and "\<And>r. source_key (f r) = source_key r"
    and "\<And>r. source_row db s k = Some r \<Longrightarrow> p r \<Longrightarrow> \<not> claimable (src_status r) \<Longrightarrow> \<not> claimable (src_status (f r))"
    and "settled db s k"
  shows "settled db' s k"
proof -
  from assms(4) obtain r where r: "source_row db s k = Some r" "\<not> claimable (src_status r)"
    by (auto simp: settled_def terminal_iff)
  then have "source_row db' s k = Some (if p r then f r else r)"
    by (simp add: row_lookups assms(1) src_tab.lookup_update [OF assms(2)])
  with r assms(3) [OF r(1)] show ?thesis by (simp add: settled_def terminal_iff)
qed

lemma settled_written:
  assumes "source_objects db' = sql_update p f (source_objects db)" and "\<And>r. source_key (f r) = source_key r"
    and "\<And>r. p r \<Longrightarrow> claimable (src_status (f r)) \<Longrightarrow> claimable (src_status r)" and "settled db s k"
  shows "settled db' s k"
  using settled_update [OF assms(1,2) _ assms(4)] assms(3) by blast

lemma source_row_by_id:
  assumes "db_inv db" and "source_row db s k = Some r" and "source_row db s' k' = Some r'"
    and "src_object_id r = src_object_id r'"
  shows "r = r'"
proof -
  have "r \<in> set (source_objects db)" "r' \<in> set (source_objects db)"
    using assms(2,3) by (auto simp: row_lookups dest: src_tab.lookup_Some_in)
  with inv_keys(4) [OF assms(1)] assms(4) show ?thesis by (auto dest: sid_tab.uniq_inj)
qed

lemma settled_discover: "discover_source sha clk s' d k' c sz v w e db = Inr (x, db') \<Longrightarrow> settled db s k \<Longrightarrow> settled db' s k"
  by (cases "(s', k') = (s, k)")
    (auto simp: discover_source_def ebind_Inr_iff Let_def settled_def row_lookups src_tab.lookup_insert_other
      split: option.splits if_splits)

lemma settled_claim:
  assumes "claim_source clk s' k' w ow e l t db = Inr (x, db')" and "db_inv db" and "settled db s k"
  shows "settled db' s k"
proof -
  let ?upd = "\<lambda>i g. sql_update (\<lambda>r. src_object_id r = i)
    (\<lambda>r. r\<lparr>src_status := Claimed, src_owner := Some w, src_lease_until := Some (t + l), src_lease_generation := g,
      src_owner_epoch := Some e, src_updated_at := clk\<rparr>) (source_objects db)"
  from assms(1) obtain row where row: "source_row db s' k' = Some row" "claimable (src_status row)"
    and db': "db' = db \<or> source_objects db' = ?upd (src_object_id row) (src_lease_generation row + 1)"
    by (auto simp: claim_source_def ebind_Inr_iff locked_source_Inr_iff Let_def split: if_splits)
  have other: "src_object_id r \<noteq> src_object_id row" if "source_row db s k = Some r" "\<not> claimable (src_status r)" for r
    using source_row_by_id [OF assms(2) that(1) row(1)] that(2) row(2) by blast
  from db' show ?thesis
  proof
    assume "source_objects db' = ?upd (src_object_id row) (src_lease_generation row + 1)"
    then show ?thesis by (rule settled_update [OF _ _ _ assms(3)]) (simp_all add: other)
  qed (use assms(3) in simp)
qed

lemma settled_claim_batch:
  assumes "claim_sources_batch clk s' ks w l e ow t db = Inr (x, db')" and "db_inv db" and "settled db s k"
  shows "settled db' s k"
  using assms(1)
proof (cases rule: claim_sources_batch_cases)
  case taken
  have "claimable (src_status r)" if r: "source_row db s k = Some r" "s = s'" "k \<in> set (keys_to_claim t (claim_candidates s' ks db))" for r
  proof -
    from r(3) obtain r' where "r' \<in> set (source_objects db)" "source_key r' = (s', k)" "claimable (src_status r')"
      by (auto simp: keys_to_claim_def claim_candidates_def sql_select_def)
    with r(1,2) src_tab.lookup_in [OF inv_keys(3) [OF assms(2)], of r'] show ?thesis by (auto simp: row_lookups)
  qed
  moreover have "src_service_id r = s \<and> src_object_key r = k" if "source_row db s k = Some r" for r
    using src_tab.lookup_Some_pk [OF that [unfolded row_lookups]] by simp
  ultimately have free: "claimable (src_status r)" if "source_row db s k = Some r"
      "src_service_id r = s' \<and> src_object_key r \<in> set (keys_to_claim t (claim_candidates s' ks db))" for r
    using that by metis
  have "source_objects db' = sql_update
      (\<lambda>r. src_service_id r = s' \<and> src_object_key r \<in> set (keys_to_claim t (claim_candidates s' ks db)))
      (\<lambda>r. r\<lparr>src_status := Claimed, src_owner := Some w, src_lease_until := Some (t + l),
        src_lease_generation := src_lease_generation r + 1, src_owner_epoch := Some e, src_updated_at := clk\<rparr>) (source_objects db)"
    by (simp add: taken(2) claim_keys_def)
  then show ?thesis by (rule settled_update [OF _ _ _ assms(3)]) (use free in simp_all)
qed (use assms(3) in simp_all)

lemma settled_deleted:
  assumes "mark_source_deleted fi clk s' k' m e db = Inr (x, db')" and "settled db s k"
  shows "settled db' s k"
  using assms(1)
proof (cases rule: mark_source_deleted_cases)
  case (marked row a rec)
  have "source_objects db' = sql_update (\<lambda>r. src_object_id r = src_object_id row)
      (\<lambda>r. r\<lparr>src_status := SourceDeleted, src_lease_until := None, src_updated_at := clk\<rparr>) (source_objects db)"
    by (simp add: marked(8) deleted_db_def)
  then show ?thesis by (rule settled_written [OF _ _ _ assms(2)]) (simp_all add: claimable_def)
qed (use assms(2) in simp)

lemma acknowledged_table:
  assumes "acknowledge_sources_batch clk s ks mid e nc d p db = Inr (x, db')"
  shows "source_objects db' = sql_update (\<lambda>r. src_service_id r = s \<and> src_object_key r \<in> set ks)
    (\<lambda>r. r\<lparr>src_status := Acknowledged, src_archive_manifest_id := Some mid, src_lease_until := None, src_updated_at := clk\<rparr>)
    (source_objects db)"
  using assms
  by (auto simp: acknowledge_sources_batch_def upsert_partition_cursor_def ebind_Inr_iff Let_def sql_update_def
      dest!: upsert_domain_cursor_publications split: option.splits if_splits)

lemma settled_step:
  assumes "control_step db db'" and "db_inv db" and "settled db s k"
  shows "settled db' s k"
  using assms(1)
proof cases
  case (step_discover sha clk s d1 k c sz v w e src)
  then show ?thesis using settled_discover assms(3) by blast
next
  case (step_claim clk s k w ow e l obs cl)
  then show ?thesis using settled_claim assms(2,3) by blast
next
  case (step_claim_batch clk s ks w l e ow1 obs srcs)
  then show ?thesis using settled_claim_batch assms(2,3) by blast
next
  case (step_deleted fi clk s k mid e u)
  then show ?thesis using settled_deleted assms(3) by blast
next
  case (step_missing s' k' w e err obs u)
  then show ?thesis
    using assms(3) by (auto simp: mark_source_missing_def ebind_Inr_iff claimable_def split: if_splits
        intro: settled_written [OF _ _ _ assms(3)])
next
  case (step_counts clk s' k' na nm e u)
  then show ?thesis
    by (auto simp: record_source_counts_def ebind_Inr_iff intro: settled_written [OF _ _ _ assms(3)])
next
  case (step_acknowledge clk s' ks mid e nc d1 p u)
  from settled_written [OF acknowledged_table [OF this] _ _ assms(3)] show ?thesis by (simp add: claimable_def)
next
  case (step_fail clk s' ks e err u)
  then show ?thesis
    using assms(3) by (auto simp: fail_sources_batch_def ebind_Inr_iff claimable_def split: if_splits
        intro: settled_written [OF _ _ _ assms(3)])
next
  case (step_authorize fi clk s' k' mid e lease obs auth)
  then show ?thesis using settled_same [OF authorize_sources assms(3)] by blast
qed (auto intro!: settled_same [OF _ assms(3)] dest: upsert_domain_cursor_publications
    simp: initialize_owner_def advance_source_cursor_def advance_reinspection_state_def begin_drain_def rollback_def
      put_batch_manifest_def register_archive_manifest_def transition_archive_manifest_def mark_archive_expired_def
      ebind_Inr_iff Let_def split: option.splits if_splits)

lemma settled_stays: "control_steps db db' \<Longrightarrow> db_inv db \<Longrightarrow> settled db s k \<Longrightarrow> settled db' s k"
proof (induction rule: rtranclp_induct)
  case (step db1 db2)
  moreover have "db_inv db1" using control_steps_safe [OF step(1)] step.prems(1) by (simp add: safe_step_def)
  ultimately show ?case using settled_step by blast
qed

text \<open>The stages of a page that is processed to its end.\<close>

definition to_read_of :: "source_descriptor list \<Rightarrow> source_object_record list \<Rightarrow> source_descriptor list" where
  "to_read_of active claims = filter (\<lambda>s. sd_object_key s \<in> set (map src_object_key claims)) active"

lemma process_active_run:
  assumes "process_active pc s d now lp active w = (Inr ct, w')" and "active \<noteq> []"
  obtains claims reads n f w1 w2 where
    "control_call (pc_controller pc) (\<lambda>clk. claim_sources_batch clk s (map sd_object_key active) (pc_worker_id pc) (pc_lease pc)
       (lp_epoch lp) (Some (lp_owner lp)) (the_default clk now)) w = (Inr claims, w1)"
    and "settle_reads pc s (lp_owner lp) (lp_epoch lp) now
       (map (\<lambda>x. (x, read_one pc (iw_calls w1) x)) (to_read_of active claims)) w1 = (Inr reads, w2)"
    and "ingest_page pc s d (lp_epoch lp) now
       (if 0 < rs_failed reads \<or> pg_reinspection_page (lp_page lp) then None else next_cursor_of lp) (rs_payloads reads) w2
       = (Inr (n, f), w')"
    and "ct = \<lparr>ct_processed = n, ct_duplicates = int (length active) - int (length (to_read_of active claims)),
       ct_failed = rs_failed reads + f, ct_missing = rs_missing reads\<rparr>"
  using assms unfolding process_active_def to_read_of_def Let_def
  by (auto simp: eff_bind_Inr_iff split: prod.splits)

lemma settle_reads_counts:
  assumes "settle_reads pc s ow e now rs w = (Inr reads, w')"
  shows "0 \<le> rs_failed reads \<and> rs_missing reads + rs_failed reads + int (length (rs_payloads reads)) = int (length rs)"
  using assms
proof (induction rs arbitrary: w reads)
  case (Cons r rs)
  obtain x y where r: "r = (x, y)" by (cases r)
  from Cons.prems obtain w1 reads' where rest: "settle_reads pc s ow e now rs w1 = (Inr reads', w')"
    and "reads = (case y of ReadMissing _ \<Rightarrow> reads'\<lparr>rs_missing := rs_missing reads' + 1\<rparr>
      | ReadFailed _ \<Rightarrow> reads'\<lparr>rs_failed := rs_failed reads' + 1\<rparr> | ReadBody b \<Rightarrow> reads'\<lparr>rs_payloads := (x, b) # rs_payloads reads'\<rparr>)"
    unfolding r by (cases y) (auto simp: eff_bind_Inr_iff)
  with Cons.IH [OF rest] show ?case by (cases y) auto
qed simp

lemma ingest_batch_count:
  assumes "ingest_batch ic s d dps nc p obs ratio w = (Inr res, w')"
  shows "bi_sources_count res = int (length dps)"
  using assms unfolding ingest_batch_def serve_batch_def Let_def
  by (auto simp: eff_bind_Inr_iff split: if_splits prod.splits)

lemma ingest_page_counts:
  assumes "ingest_page pc s d e now nc dps w = (Inr (n, f), w')"
  shows "0 \<le> f \<and> n + f = int (length dps)"
  using assms ingest_batch_count unfolding ingest_page_def
  by (auto split: if_splits prod.splits sum.splits dest!: ingest_batch_count)

subsection \<open>What a page leaves alone\<close>

text \<open>A preorder that the operations of the coordinator respect too.\<close>

locale page_frame = ingest_frame "pc_controller pc" le for pc :: "('a, 'b, 'c) page_coordinator" and le +
  assumes discover_le: "discover_source sha clk s d k c sz v ow e db = Inr (src, db') \<Longrightarrow> le db db'"
    and claim_le: "claim_sources_batch clk s ks wk l e ow1 t db = Inr (srcs, db') \<Longrightarrow> le db db'"
    and missing_le: "mark_source_missing s k ow e err t db = Inr (u, db') \<Longrightarrow> le db db'"
begin

lemma page_reads_le:
  "source_cursor_for s d db = Inr (x, db') \<Longrightarrow> le db db'"
  "source_reinspection_state_for s d db = Inr (y, db') \<Longrightarrow> le db db'"
  "expired_claims clk s d l db = Inr (z, db') \<Longrightarrow> le db db'"
  by (auto simp: source_cursor_for_def source_reinspection_state_for_def expired_claims_def ebind_Inr_iff le_refl)

lemma state_le: "eff_keeps world_le (\<lambda>w. (f w, w))"
  by (simp add: eff_keeps_def world_le_def le_refl)

lemma list_page_le: "eff_keeps world_le (list_page pc s d c)"
  unfolding list_page_def listing_cursor_for_def listing_options_def
  by (auto split: option.split intro!: world_keeps state_le intro: reads_le page_reads_le)

lemma expired_claim_descriptors_le: "eff_keeps world_le (expired_claim_descriptors pc s d)"
  unfolding expired_claim_descriptors_def by (auto intro!: world_keeps intro: page_reads_le)

lemma discover_all_le: "eff_keeps world_le (discover_all pc s d ow e ss)"
  by (induction ss) (auto intro!: world_keeps intro: discover_le)

lemma mark_missing_le: "eff_keeps world_le (mark_missing pc s k ow e err now)"
  unfolding mark_missing_def by (auto intro!: world_keeps intro: missing_le)

lemma settle_reads_le: "eff_keeps world_le (settle_reads pc s ow e now rs)"
proof (induction rs)
  case (Cons r rs)
  obtain x y where "r = (x, y)" by (cases r)
  with Cons show ?case by (cases y) (auto intro!: world_keeps mark_missing_le)
qed (simp add: world_keeps)

lemma ingest_page_le:
  assumes "ingest_page pc s d e now nc dps w = (r, w')"
    and "\<exists>n. r = Inr (n, 0) \<Longrightarrow> (\<And>clk ks mid e db x db'. acknowledge_sources_batch clk s ks mid e nc d ''default'' db = Inr (x, db') \<Longrightarrow> le db db')"
  shows "le (iw_db w) (iw_db w')"
proof (cases "dps = []")
  case True
  with assms(1) show ?thesis by (simp add: ingest_page_def le_refl)
next
  case False
  let ?ingest = "ingest_batch (pc_controller pc) s d dps nc ''default'' (the_default (ic_clock (pc_controller pc) (iw_calls w)) now)
    HIGH_SCALE_MAX_DEAD_LETTER_RATIO w"
  obtain r1 w1 where run: "?ingest = (r1, w1)" by (cases ?ingest)
  have le1: "le (iw_db w) (iw_db w1)"
    by (rule ingest_batch_le [OF run]) (use assms False run in \<open>auto simp: ingest_page_def\<close>)
  show ?thesis
  proof (cases r1)
    case (Inl x)
    have "eff_keeps world_le (control_call (pc_controller pc) (\<lambda>clk. fail_sources_batch clk s (map (sd_object_key \<circ> fst) dps) e
        (error_text x)))"
      by (rule control_call_le) (rule fail_le)
    from keeps_db [OF this surjective_pairing] le1 Inl False run assms(1) show ?thesis
      by (auto simp: ingest_page_def intro: le_trans)
  next
    case (Inr res)
    with le1 False run assms(1) show ?thesis by (simp add: ingest_page_def)
  qed
qed

lemma process_active_le:
  assumes "process_active pc s d now lp active w = (Inr ct, w')"
    and "\<And>clk ks mid e nc db x db'. acknowledge_sources_batch clk s ks mid e nc d ''default'' db = Inr (x, db') \<Longrightarrow>
      ct_failed ct = 0 \<or> nc = None \<Longrightarrow> le db db'"
  shows "le (iw_db w) (iw_db w')"
proof (cases "active = []")
  case True
  with assms(1) show ?thesis by (simp add: process_active_def le_refl)
next
  case False
  with assms(1) show ?thesis
  proof (rule process_active_run)
    fix claims reads n f w1 w2
    assume claim: "control_call (pc_controller pc) (\<lambda>clk. claim_sources_batch clk s (map sd_object_key active) (pc_worker_id pc)
         (pc_lease pc) (lp_epoch lp) (Some (lp_owner lp)) (the_default clk now)) w = (Inr claims, w1)"
      and settle: "settle_reads pc s (lp_owner lp) (lp_epoch lp) now
         (map (\<lambda>x. (x, read_one pc (iw_calls w1) x)) (to_read_of active claims)) w1 = (Inr reads, w2)"
      and ingest: "ingest_page pc s d (lp_epoch lp) now
         (if 0 < rs_failed reads \<or> pg_reinspection_page (lp_page lp) then None else next_cursor_of lp) (rs_payloads reads) w2
         = (Inr (n, f), w')"
      and ct: "ct = \<lparr>ct_processed = n, ct_duplicates = int (length active) - int (length (to_read_of active claims)),
         ct_failed = rs_failed reads + f, ct_missing = rs_missing reads\<rparr>"
    have "eff_keeps world_le (control_call (pc_controller pc) (\<lambda>clk. claim_sources_batch clk s (map sd_object_key active)
         (pc_worker_id pc) (pc_lease pc) (lp_epoch lp) (Some (lp_owner lp)) (the_default clk now)))"
      by (rule control_call_le) (rule claim_le)
    then have "le (iw_db w) (iw_db w1)" using claim by (rule keeps_db)
    moreover have "le (iw_db w1) (iw_db w2)" using settle_reads_le settle by (rule keeps_db)
    moreover have "le (iw_db w2) (iw_db w')"
      by (rule ingest_page_le [OF ingest]) (use assms(2) settle_reads_counts [OF settle] in \<open>auto simp: ct split: if_splits\<close>)
    ultimately show ?thesis by (blast intro: le_trans)
  qed
qed

end

lemma source_op_tables:
  "discover_source sha clk s d k c sz v ow e db = Inr (src, db') \<Longrightarrow>
     publication_manifests db' = publication_manifests db \<and> source_cursors db' = source_cursors db"
  "claim_sources_batch clk s ks wk l e ow1 t db = Inr (srcs, db') \<Longrightarrow>
     publication_manifests db' = publication_manifests db \<and> source_cursors db' = source_cursors db"
  "mark_source_missing s k ow e err t db = Inr (u, db') \<Longrightarrow>
     publication_manifests db' = publication_manifests db \<and> source_cursors db' = source_cursors db"
  by (auto simp: discover_source_def mark_source_missing_def claim_keys_def ebind_Inr_iff Let_def
      elim!: claim_sources_batch_cases split: option.splits if_splits)

lemma plane_page:
  assumes "peers_ok (pc_controller pc)"
  shows "page_frame pc plane_le"
  using plane_frame [OF assms] source_op_tables plane_le_step step_discover step_claim_batch step_missing
  unfolding page_frame_def page_frame_axioms_def by metis

lemma cursor_page:
  assumes "peers_keep_cursor (pc_controller pc) s d"
  shows "page_frame pc (same_cursor s d)"
  using cursor_frame [OF assms] source_op_tables same_cursors unfolding page_frame_def page_frame_axioms_def by metis

text \<open>A coordinator without peers is an instance of both.\<close>

definition alone_page :: "('a, 'b, 'c) page_coordinator \<Rightarrow> ('a, 'b, 'c) page_coordinator" where
  "alone_page pc = pc\<lparr>pc_controller := alone (pc_controller pc)\<rparr>"

interpretation alone_page: page_frame "alone_page pc" plane_le for pc
  by (rule plane_page) (simp add: alone_page_def)

interpretation alone_page_cursor: page_frame "alone_page pc" "same_cursor s d" for pc s d
  by (rule cursor_page) (simp add: alone_page_def peers_keep_cursor_def same_cursor_def)

subsection \<open>What a page settles\<close>

lemma settled_le: "plane_le db db' \<Longrightarrow> db_inv db \<Longrightarrow> settled db s k \<Longrightarrow> settled db' s k"
  using settled_stays by (auto simp: plane_le_def)

lemma discover_source_row:
  "discover_source sha clk s d k c sz v ow e db = Inr (src, db') \<Longrightarrow>
     \<exists>r. source_row db' s k = Some r \<and> src_status r = src_status src"
  by (auto simp: discover_source_def ebind_Inr_iff Let_def split: option.splits if_splits)

lemma expired_claims_rows:
  assumes "expired_claims clk s d l db = Inr (srcs, db')" and "db_inv db"
  shows "db' = db \<and> distinct (map src_object_key srcs) \<and> (\<forall>k \<in> set (map src_object_key srcs). source_row db s k \<noteq> None)"
proof -
  let ?t = "sql_select (\<lambda>r. src_service_id r = s \<and> src_domain r = d \<and> src_status r = Claimed
    \<and> (case src_lease_until r of None \<Rightarrow> False | Some t \<Rightarrow> t \<le> clk)) (source_objects db)"
  let ?rows = "take (nat l) (sort_key (\<lambda>r. (the_default 0 (src_lease_until r), src_object_key r)) ?t)"
  from assms(1) have srcs: "srcs = map source_from_row ?rows" and db': "db' = db"
    by (auto simp: expired_claims_def ebind_Inr_iff)
  have "distinct (map source_key (source_objects db))"
    using inv_keys(3) [OF assms(2)] by (simp add: src_tab.uniq_def)
  then have "distinct (map source_key ?t)" by (simp add: sql_select_def distinct_map_filter)
  then have "distinct (map src_object_key ?t)"
    by (auto simp: distinct_map inj_on_def sql_select_def)
  then have "distinct (map src_object_key (sort_key (\<lambda>r. (the_default 0 (src_lease_until r), src_object_key r)) ?t))"
    by (simp add: distinct_map)
  then have "distinct (map src_object_key srcs)" by (simp add: srcs comp_def take_map [symmetric])
  moreover have "source_row db s k \<noteq> None" if "k \<in> set (map src_object_key srcs)" for k
  proof -
    from that obtain r where "r \<in> set (source_objects db)" "source_key r = (s, k)"
      by (auto simp: srcs sql_select_def dest!: in_set_takeD)
    with src_tab.lookup_in [OF inv_keys(3) [OF assms(2)], of r] show ?thesis by (simp add: row_lookups)
  qed
  ultimately show ?thesis using db' by blast
qed

lemma source_row_facts:
  assumes "source_row db s k = Some r"
  shows "r \<in> set (source_objects db)" and "src_service_id r = s" and "src_object_key r = k"
  using src_tab.lookup_Some_in [OF assms [unfolded row_lookups]] src_tab.lookup_Some_pk [OF assms [unfolded row_lookups]]
  by simp_all

lemma claimed_row:
  assumes "source_row db s k = Some row" and "k \<in> set ks"
  shows "k \<in> src_object_key ` set (map source_from_row (sql_select (\<lambda>r. src_service_id r = s \<and> src_object_key r \<in> set ks)
    (source_objects (claim_keys clk s ks wk t e db))))"
proof -
  from assms(1) obtain r' where "source_row (claim_keys clk s ks wk t e db) s k = Some r'"
    by (auto simp: claim_keys_def row_lookups src_tab.lookup_update)
  from source_row_facts [OF this] assms(2) show ?thesis by (force simp: sql_select_def)
qed

lemma claim_batch_unclaimed:
  assumes "claim_sources_batch clk s ks wk l e ow t db = Inr (srcs, db')"
    and "source_row db s k = Some row" and "k \<in> set ks" and "k \<notin> src_object_key ` set srcs"
  shows "\<not> claimable (src_status row) \<or> src_owner row \<noteq> Some wk \<and> lease_active (src_lease_until row) t"
proof (rule ccontr)
  let ?rows = "claim_candidates s ks db"
  let ?keys = "keys_to_claim t ?rows"
  assume "\<not> ?thesis"
  with source_row_facts [OF assms(2)] assms(3) have "row \<in> set ?rows" "src_owner row = Some wk \<or> \<not> lease_active (src_lease_until row) t"
    by (auto simp: claim_candidates_def sql_select_def)
  then have free: "row \<in> set (held_rows wk t ?rows) \<or> k \<in> set ?keys"
    using source_row_facts(3) [OF assms(2)] by (auto simp: held_rows_def keys_to_claim_def)
  have held: "k \<in> src_object_key ` set (map source_from_row (held_rows wk t ?rows))" if "row \<in> set (held_rows wk t ?rows)"
    using that source_row_facts(3) [OF assms(2)] by force
  have "ks \<noteq> []" using assms(3) by auto
  with claim_sources_batch_run [OF assms(1)] have "srcs = map source_from_row (held_rows wk t ?rows) @
      (if ?keys = [] then [] else map source_from_row (sql_select (\<lambda>r. src_service_id r = s \<and> src_object_key r \<in> set ?keys)
         (source_objects (claim_keys clk s ?keys wk (t + l) e db))))"
    by (simp add: Let_def split: if_splits)
  with free held claimed_row [OF assms(2), of ?keys clk wk "t + l" e] assms(4) show False
    by (auto simp del: set_map simp: image_Un split: if_splits)
qed

lemma choose_active_covers:
  assumes "choose_active found keys ss = (n, active)" and "x \<in> set ss"
  shows "sd_object_key x \<in> set keys \<or> known_terminal found (sd_object_key x) \<or> sd_object_key x \<in> sd_object_key ` set active"
  using assms
proof (induction ss arbitrary: keys n active)
  case (Cons y ss)
  consider "sd_object_key y \<in> set keys" | "sd_object_key y \<notin> set keys" "known_terminal found (sd_object_key y)"
    | "sd_object_key y \<notin> set keys" "\<not> known_terminal found (sd_object_key y)" by blast
  then show ?case
  proof cases
    case 1
    with Cons.prems Cons.IH [of keys n active] show ?thesis by auto
  next
    case 2
    with Cons.prems obtain n' where "choose_active found keys ss = (n', active)" by (auto split: prod.splits)
    with Cons.prems 2 Cons.IH show ?thesis by auto
  next
    case 3
    with Cons.prems obtain active' where "choose_active found (sd_object_key y # keys) ss = (n, active')" "active = y # active'"
      by (auto split: prod.splits)
    with Cons.prems Cons.IH [of "sd_object_key y # keys" n active'] show ?thesis by auto
  qed
qed simp

lemma choose_active_subset: "choose_active found keys ss = (n, active) \<Longrightarrow> set active \<subseteq> set ss"
proof (induction ss arbitrary: keys n active)
  case (Cons y ss)
  from Cons.prems show ?case
    by (auto split: if_splits prod.splits dest!: subsetD [OF Cons.IH])
qed simp

lemma choose_active_count:
  assumes "choose_active found keys ss = (n, active)" and "distinct (map sd_object_key ss)"
  shows "n + int (length active) = int (length (filter (\<lambda>x. sd_object_key x \<notin> set keys) ss))"
  using assms
proof (induction ss arbitrary: keys n active)
  case (Cons y ss)
  have other: "filter (\<lambda>x. sd_object_key x \<notin> set (sd_object_key y # keys)) ss = filter (\<lambda>x. sd_object_key x \<notin> set keys) ss"
    using Cons.prems(2) by (intro filter_cong) (auto, metis image_eqI)
  from Cons.prems Cons.IH [of keys] Cons.IH [of "sd_object_key y # keys"] show ?case
    unfolding other by (auto split: if_splits prod.splits)
qed simp

definition held_elsewhere :: "('a, 'b, 'c) page_coordinator \<Rightarrow> timestamp option \<Rightarrow> control_db \<Rightarrow> string \<Rightarrow> string \<Rightarrow> bool" where
  "held_elsewhere pc now db s k \<longleftrightarrow> (\<exists>r n. source_row db s k = Some r \<and> claimable (src_status r)
     \<and> src_owner r \<noteq> Some (pc_worker_id pc) \<and> lease_active (src_lease_until r) (the_default (ic_clock (pc_controller pc) n) now))"

lemma mark_source_missing_settled:
  assumes "mark_source_missing s k ow e err t db = Inr (u, db')" and "db_inv db"
  shows "settled db' s k"
proof -
  from assms(1) obtain src where src: "locked_source db s k = Inr src"
    and raw: "src_status src = SourceMissing \<and> db' = db \<or> source_objects db' = sql_update (\<lambda>r. src_object_id r = src_object_id src)
      (\<lambda>r. r\<lparr>src_status := SourceMissing, src_last_error := Some err, src_lease_until := None, src_updated_at := t\<rparr>) (source_objects db)"
    by (auto simp: mark_source_missing_def ebind_Inr_iff split: if_splits)
  from src obtain row where row: "source_row db s k = Some row" and "src = source_from_row row"
    by (auto simp: locked_source_Inr_iff)
  with raw have db': "src_status row = SourceMissing \<and> db' = db \<or> source_objects db' = sql_update
      (\<lambda>r. src_object_id r = src_object_id row)
      (\<lambda>r. r\<lparr>src_status := SourceMissing, src_last_error := Some err, src_lease_until := None, src_updated_at := t\<rparr>) (source_objects db)"
    by simp
  from db' have "\<exists>r. source_row db' s k = Some r \<and> src_status r = SourceMissing"
  proof
    assume "src_status row = SourceMissing \<and> db' = db"
    with row show ?thesis by blast
  qed (use row in \<open>simp add: row_lookups src_tab.lookup_update\<close>)
  then show ?thesis by (auto simp: settled_def TERMINAL_SOURCE_STATES_def)
qed

locale page_plane = page_frame pc plane_le for pc :: "('a, 'b, 'c) page_coordinator"

sublocale page_plane \<subseteq> plane_ingest "pc_controller pc"
  by unfold_locales

context page_plane
begin

lemma discover_all_rows:
  assumes "discover_all pc s d ow e ss w = (Inr found, w')" and "db_inv (iw_db w)"
  shows "map fst found = map sd_object_key ss
    \<and> (\<forall>(k, st) \<in> set found. source_row (iw_db w') s k \<noteq> None \<and> (st \<in> set TERMINAL_SOURCE_STATES \<longrightarrow> settled (iw_db w') s k))"
  using assms
proof (induction ss arbitrary: w found)
  case (Cons x ss)
  let ?tx = "\<lambda>clk. discover_source (pc_sha pc) clk s d (sd_object_key x) (sd_checksum x) (sd_size_bytes x) (sd_version x) ow e"
  from Cons.prems(1) obtain src w1 rest where call: "control_call (pc_controller pc) ?tx w = (Inr src, w1)"
    and rest: "discover_all pc s d ow e ss w1 = (Inr rest, w')" and found: "found = (sd_object_key x, src_status src) # rest"
    by (auto simp: eff_bind_Inr_iff)
  from call Cons.prems(2) obtain db where db: "db_inv db" "?tx (ic_clock (pc_controller pc) (iw_calls w)) db = Inr (src, iw_db w1)"
    by (rule control_call_returned)
  have inv1: "db_inv (iw_db w1)" using plane_le_inv [OF discover_le [OF db(2)] db(1)] by simp
  note le = world_inv(1) [OF discover_all_le rest inv1]
  from discover_source_row [OF db(2)] obtain r where "source_row (iw_db w1) s (sd_object_key x) = Some r"
    "src_status r = src_status src" by blast
  with source_row_stays [OF le inv1] settled_le [OF le inv1] have "source_row (iw_db w') s (sd_object_key x) \<noteq> None
    \<and> (src_status src \<in> set TERMINAL_SOURCE_STATES \<longrightarrow> settled (iw_db w') s (sd_object_key x))"
    by (auto simp: settled_def)
  with Cons.IH [OF rest inv1] show ?case by (simp add: found)
qed simp

lemma settle_reads_settled:
  assumes "settle_reads pc s ow e now rs w = (Inr reads, w')" and "db_inv (iw_db w)" and "rs_failed reads = 0" and "(x, y) \<in> set rs"
  shows "settled (iw_db w') s (sd_object_key x) \<or> (\<exists>b. (x, b) \<in> set (rs_payloads reads))"
  using assms
proof (induction rs arbitrary: w reads)
  case (Cons r rs)
  obtain x1 y1 where r: "r = (x1, y1)" by (cases r)
  from Cons.prems(1) obtain w1 reads' where rest: "settle_reads pc s ow e now rs w1 = (Inr reads', w')"
    and reads: "reads = (case y1 of ReadMissing _ \<Rightarrow> reads'\<lparr>rs_missing := rs_missing reads' + 1\<rparr>
      | ReadFailed _ \<Rightarrow> reads'\<lparr>rs_failed := rs_failed reads' + 1\<rparr> | ReadBody b \<Rightarrow> reads'\<lparr>rs_payloads := (x1, b) # rs_payloads reads'\<rparr>)"
    and first: "if \<exists>m. y1 = ReadMissing m then (\<exists>err. mark_missing pc s (sd_object_key x1) ow e err now w = (Inr (), w1)) else w1 = w"
    unfolding r by (cases y1) (auto simp: eff_bind_Inr_iff)
  have inv1: "db_inv (iw_db w1)"
    using first Cons.prems(2) world_inv(3) [OF mark_missing_le] by (auto split: if_splits)
  note le = world_inv(1) [OF settle_reads_le rest inv1]
  from settle_reads_counts [OF rest] reads Cons.prems(3) have zero: "rs_failed reads' = 0"
    and ok: "\<nexists>m. y1 = ReadFailed m" by (auto split: read_outcome.splits)
  show ?case
  proof (cases "(x, y) = r")
    case False
    with Cons.IH [OF rest inv1 zero] Cons.prems(4) reads show ?thesis by (auto split: read_outcome.splits)
  next
    case True
    show ?thesis
    proof (cases y1)
      case (ReadMissing m)
      with first obtain err where "mark_missing pc s (sd_object_key x1) ow e err now w = (Inr (), w1)" by auto
      then obtain db where "mark_source_missing s (sd_object_key x1) ow e err
          (the_default (ic_clock (pc_controller pc) (iw_calls w)) now) db = Inr ((), iw_db w1)" "db_inv db"
        unfolding mark_missing_def using Cons.prems(2) by (rule control_call_returned)
      from settled_le [OF le inv1 mark_source_missing_settled [OF this]] True r show ?thesis by simp
    qed (use ok reads True r in auto)
  qed
qed simp

lemma ingest_page_plane: "ingest_page pc s d e now nc dps w = (r, w') \<Longrightarrow> plane_le (iw_db w) (iw_db w')"
  by (erule ingest_page_le) (rule acknowledge_le)

lemma ingest_page_settled:
  assumes "ingest_page pc s d e now nc dps w = (Inr (n, 0), w')" and "db_inv (iw_db w)" and "dp \<in> set dps"
  shows "settled (iw_db w') s (sd_object_key (fst dp))"
proof -
  have "dps \<noteq> []" using assms(3) by auto
  moreover from this assms(1) obtain res where
    "ingest_batch (pc_controller pc) s d dps nc ''default'' (the_default (ic_clock (pc_controller pc) (iw_calls w)) now)
       HIGH_SCALE_MAX_DEAD_LETTER_RATIO w = (Inr res, w')" "bi_derived_complete res"
    by (auto simp: ingest_page_def split: prod.splits sum.splits if_splits)
  ultimately show ?thesis
    using ingest_batch_acknowledged [OF _ _ assms(2) _ assms(3)] by (fastforce simp: settled_def TERMINAL_SOURCE_STATES_def)
qed

lemma process_active_settled:
  assumes run: "process_active pc s d now lp active w = (Inr ct, w')" and inv: "db_inv (iw_db w)" and "ct_failed ct = 0"
    and rows: "\<And>k. k \<in> sd_object_key ` set active \<Longrightarrow> source_row (iw_db w) s k \<noteq> None" and x: "x \<in> set active"
  shows "settled (iw_db w') s (sd_object_key x)
    \<or> (\<exists>db. plane_le (iw_db w) db \<and> plane_le db (iw_db w') \<and> held_elsewhere pc now db s (sd_object_key x))"
proof -
  from x have "active \<noteq> []" by auto
  with run obtain claims reads n f w1 w2 nc where
    claim: "control_call (pc_controller pc) (\<lambda>clk. claim_sources_batch clk s (map sd_object_key active) (pc_worker_id pc)
       (pc_lease pc) (lp_epoch lp) (Some (lp_owner lp)) (the_default clk now)) w = (Inr claims, w1)"
    and settle: "settle_reads pc s (lp_owner lp) (lp_epoch lp) now
       (map (\<lambda>x. (x, read_one pc (iw_calls w1) x)) (to_read_of active claims)) w1 = (Inr reads, w2)"
    and ingest: "ingest_page pc s d (lp_epoch lp) now nc (rs_payloads reads) w2 = (Inr (n, f), w')"
    and "ct_failed ct = rs_failed reads + f"
    by (elim process_active_run) auto
  with assms(3) settle_reads_counts [OF settle] ingest_page_counts [OF ingest] have zero: "rs_failed reads = 0" "f = 0" by auto
  from claim inv obtain db where db: "plane_le (iw_db w) db" "db_inv db"
    and batch: "claim_sources_batch (ic_clock (pc_controller pc) (iw_calls w)) s (map sd_object_key active) (pc_worker_id pc)
       (pc_lease pc) (lp_epoch lp) (Some (lp_owner lp)) (the_default (ic_clock (pc_controller pc) (iw_calls w)) now) db
       = Inr (claims, iw_db w1)"
    by (rule control_call_returned)
  note le1 = claim_le [OF batch]
  have inv1: "db_inv (iw_db w1)" using plane_le_inv [OF le1 db(2)] by simp
  note w2 = world_inv [OF settle_reads_le settle inv1]
  note le2 = ingest_page_plane [OF ingest]
  note le = plane_le_trans [OF plane_le_trans [OF le1 w2(1)] le2]
  obtain row where row: "source_row db s (sd_object_key x) = Some row"
    using source_row_stays [OF db(1) inv rows] x by auto
  show ?thesis
  proof (cases "sd_object_key x \<in> src_object_key ` set claims")
    case True
    with x have "(x, read_one pc (iw_calls w1) x) \<in> set (map (\<lambda>x. (x, read_one pc (iw_calls w1) x)) (to_read_of active claims))"
      by (simp add: to_read_of_def)
    from settle_reads_settled [OF settle inv1 zero(1) this] show ?thesis
      using settled_le [OF le2 w2(3)] ingest_page_settled [OF ingest [unfolded zero(2)] w2(3)] by fastforce
  next
    case False
    with claim_batch_unclaimed [OF batch row] x consider "\<not> claimable (src_status row)"
      | "claimable (src_status row)" "src_owner row \<noteq> Some (pc_worker_id pc)"
        "lease_active (src_lease_until row) (the_default (ic_clock (pc_controller pc) (iw_calls w)) now)"
      by auto
    then show ?thesis
    proof cases
      case 1
      with row have "settled db s (sd_object_key x)" by (simp add: settled_def terminal_iff)
      with settled_le [OF le db(2)] show ?thesis by blast
    next
      case 2
      with row have "held_elsewhere pc now db s (sd_object_key x)" unfolding held_elsewhere_def by blast
      with db(1) le show ?thesis by blast
    qed
  qed
qed

end

subsection \<open>Whole pages\<close>

lemma work_page_run:
  assumes "work_page pc s d now lp w = (Inr res, w')"
  obtains expired found dup fresh ct u w1 w2 w3 where
    "expired_claim_descriptors pc s d w = (Inr expired, w1)"
    and "discover_all pc s d (lp_owner lp) (lp_epoch lp) (pg_objects (lp_page lp)) w1 = (Inr found, w2)"
    and "choose_active found (map sd_object_key expired) (pg_objects (lp_page lp)) = (dup, fresh)"
    and "process_active pc s d now lp (expired @ fresh) w2 = (Inr ct, w3)"
    and "(if ct_failed ct = 0 then advance_page pc s d lp else eff_return ()) w3 = (Inr u, w')"
    and "pr_processed res = ct_processed ct" "pr_duplicates res = dup + ct_duplicates ct" "pr_failed res = ct_failed ct"
      "pr_missing res = ct_missing ct"
proof -
  from assms obtain expired found w1 w2 where 1: "expired_claim_descriptors pc s d w = (Inr expired, w1)"
    and 2: "discover_all pc s d (lp_owner lp) (lp_epoch lp) (pg_objects (lp_page lp)) w1 = (Inr found, w2)"
    and rest: "(case choose_active found (map sd_object_key expired) (pg_objects (lp_page lp)) of (duplicates, fresh) \<Rightarrow>
        eff_bind (process_active pc s d now lp (expired @ fresh)) (\<lambda>counts.
        eff_bind (if ct_failed counts = 0 then advance_page pc s d lp else eff_return ()) (\<lambda>_.
        eff_return \<lparr>pr_cursor = Some (lp_cursor lp), pr_next_cursor = next_cursor_of lp,
          pr_discovered = int (length (pg_objects (lp_page lp))), pr_processed = ct_processed counts,
          pr_duplicates = duplicates + ct_duplicates counts, pr_failed = ct_failed counts,
          pr_missing = ct_missing counts\<rparr>))) w2 = (Inr res, w')"
    unfolding work_page_def Let_def by (auto simp: eff_bind_Inr_iff)
  obtain dup fresh where ch: "choose_active found (map sd_object_key expired) (pg_objects (lp_page lp)) = (dup, fresh)"
    by (cases "choose_active found (map sd_object_key expired) (pg_objects (lp_page lp))")
  from rest obtain ct u w3 where "process_active pc s d now lp (expired @ fresh) w2 = (Inr ct, w3)"
    and "(if ct_failed ct = 0 then advance_page pc s d lp else eff_return ()) w3 = (Inr u, w')"
    and "res = \<lparr>pr_cursor = Some (lp_cursor lp), pr_next_cursor = next_cursor_of lp,
          pr_discovered = int (length (pg_objects (lp_page lp))), pr_processed = ct_processed ct,
          pr_duplicates = dup + ct_duplicates ct, pr_failed = ct_failed ct, pr_missing = ct_missing ct\<rparr>"
    unfolding ch by (auto simp: eff_bind_Inr_iff)
  from that [OF 1 2 ch this(1,2)] this(3) show thesis by simp
qed

lemma run_page_listed:
  assumes "run_page pc s d c now w = (Inr res, w')" and "list_page pc s d c w = (Inr lp, w1)"
  shows "work_page pc s d now lp w1 = (Inr res, w')"
  using assms by (auto simp: run_page_def eff_bind_Inr_iff)

lemma advance_le:
  "advance_source_cursor clk s c ow e (Some d) rc fp db = Inr (x, db') \<Longrightarrow> plane_le db db'"
  "advance_reinspection_state clk s d rc1 n ow e db = Inr (u, db') \<Longrightarrow> plane_le db db'"
proof -
  assume run: "advance_source_cursor clk s c ow e (Some d) rc fp db = Inr (x, db')"
  then show "plane_le db db'"
    by (intro plane_le_step [OF step_cursor [OF run]])
      (auto simp: advance_source_cursor_def ebind_Inr_iff dest: upsert_domain_cursor_publications)
next
  assume run: "advance_reinspection_state clk s d rc1 n ow e db = Inr (u, db')"
  then show "plane_le db db'"
    by (intro plane_le_step [OF step_reinspection [OF run]]) (auto simp: advance_reinspection_state_def ebind_Inr_iff)
qed

context page_plane
begin

lemma advance_page_le: "eff_keeps world_le (advance_page pc s d lp)"
  unfolding advance_page_def advance_cursor_def Let_def
  by (auto split: option.split intro!: world_keeps intro: advance_le)

lemma expired_rows:
  assumes "expired_claim_descriptors pc s d w = (Inr expired, w')" and "db_inv (iw_db w)"
  shows "distinct (map sd_object_key expired)"
    and "k \<in> sd_object_key ` set expired \<Longrightarrow> source_row (iw_db w') s k \<noteq> None"
proof -
  from assms(1) obtain srcs where
    call: "control_call (pc_controller pc) (\<lambda>clk. expired_claims clk s d (pc_page_size pc)) w = (Inr srcs, w')"
    and expired: "expired = map descriptor_of srcs"
    by (auto simp: expired_claim_descriptors_def eff_bind_Inr_iff)
  from call assms(2) obtain db where "expired_claims (ic_clock (pc_controller pc) (iw_calls w)) s d (pc_page_size pc) db
      = Inr (srcs, iw_db w')" "db_inv db"
    by (rule control_call_returned)
  note rows = expired_claims_rows [OF this]
  have keys: "map sd_object_key expired = map src_object_key srcs" by (simp add: expired descriptor_of_def)
  from rows show "distinct (map sd_object_key expired)" unfolding keys by simp
  from rows show "source_row (iw_db w') s k \<noteq> None" if "k \<in> sd_object_key ` set expired"
    using that keys by (metis list.set_map)
qed

lemma work_page_settled:
  assumes run: "work_page pc s d now lp w = (Inr res, w')" and inv: "db_inv (iw_db w)" and "pr_failed res = 0"
    and x: "x \<in> set (pg_objects (lp_page lp))"
  shows "settled (iw_db w') s (sd_object_key x)
    \<or> (\<exists>db. plane_le (iw_db w) db \<and> plane_le db (iw_db w') \<and> held_elsewhere pc now db s (sd_object_key x))"
  using run
proof (rule work_page_run)
  fix expired found dup fresh ct u w1 w2 w3
  assume exp: "expired_claim_descriptors pc s d w = (Inr expired, w1)"
    and disc: "discover_all pc s d (lp_owner lp) (lp_epoch lp) (pg_objects (lp_page lp)) w1 = (Inr found, w2)"
    and choose: "choose_active found (map sd_object_key expired) (pg_objects (lp_page lp)) = (dup, fresh)"
    and proc: "process_active pc s d now lp (expired @ fresh) w2 = (Inr ct, w3)"
    and adv: "(if ct_failed ct = 0 then advance_page pc s d lp else eff_return ()) w3 = (Inr u, w')"
    and "pr_failed res = ct_failed ct"
  with assms(3) have zero: "ct_failed ct = 0" by simp
  note w1 = world_inv [OF expired_claim_descriptors_le exp inv]
  note w2 = world_inv [OF discover_all_le disc w1(3)]
  note le2 = plane_le_trans [OF w1(1) w2(1)]
  have le3: "plane_le (iw_db w2) (iw_db w3)" by (rule process_active_le [OF proc acknowledge_le])
  have inv3: "db_inv (iw_db w3)" using plane_le_inv [OF le3 w2(3)] by simp
  have le4: "plane_le (iw_db w3) (iw_db w')" using world_inv(1) [OF advance_page_le _ inv3] adv zero by simp
  note found = discover_all_rows [OF disc w1(3)]
  have rows: "source_row (iw_db w2) s k \<noteq> None" if "k \<in> sd_object_key ` set (expired @ fresh)" for k
  proof -
    from that choose_active_subset [OF choose] consider "k \<in> sd_object_key ` set expired" | "k \<in> set (map fst found)"
      unfolding found [THEN conjunct1] by auto
    then show ?thesis
    proof cases
      case 1
      then show ?thesis by (rule source_row_stays [OF w2(1) w1(3) expired_rows(2) [OF exp inv]])
    next
      case 2
      then obtain st where "(k, st) \<in> set found" by auto
      with found show ?thesis by auto
    qed
  qed
  consider "known_terminal found (sd_object_key x)" | y where "y \<in> set (expired @ fresh)" "sd_object_key y = sd_object_key x"
    using choose_active_covers [OF choose x] unfolding set_append set_map by (metis UnCI imageE)
  then show ?thesis
  proof cases
    case 1
    then have "settled (iw_db w2) s (sd_object_key x)"
      using found by (auto simp: known_terminal_def discovered_status_def split: option.splits dest!: map_of_SomeD)
    with settled_le [OF plane_le_trans [OF le3 le4] w2(3)] show ?thesis by blast
  next
    case 2
    from process_active_settled [OF proc w2(3) zero rows 2(1)] settled_le [OF le4 inv3] le2 le4 show ?thesis
      unfolding 2(2) by (blast intro: plane_le_trans)
  qed
qed

end

interpretation alone_page_plane: page_plane "alone_page pc" for pc
  by (rule page_plane.intro) (rule alone_page.page_frame_axioms)

text \<open>A batch that is acknowledged without a cursor leaves the cursors alone.\<close>

lemma acknowledge_no_cursor: "acknowledge_sources_batch clk s ks mid e None d p db = Inr (x, db') \<Longrightarrow> same_cursor s' d' db db'"
  by (rule same_cursors) (auto simp: acknowledge_sources_batch_def ebind_Inr_iff Let_def)

context page_frame
begin

lemma failed_page_le:
  assumes run: "work_page pc s d now lp w = (Inr res, w')" and "pr_failed res \<noteq> 0"
    and ack: "\<And>clk ks mid e db x db'. acknowledge_sources_batch clk s ks mid e None d ''default'' db = Inr (x, db') \<Longrightarrow> le db db'"
  shows "le (iw_db w) (iw_db w')"
  using run
proof (rule work_page_run)
  fix expired found dup fresh ct u w1 w2 w3
  assume exp: "expired_claim_descriptors pc s d w = (Inr expired, w1)"
    and disc: "discover_all pc s d (lp_owner lp) (lp_epoch lp) (pg_objects (lp_page lp)) w1 = (Inr found, w2)"
    and proc: "process_active pc s d now lp (expired @ fresh) w2 = (Inr ct, w3)"
    and "(if ct_failed ct = 0 then advance_page pc s d lp else eff_return ()) w3 = (Inr u, w')"
    and "pr_failed res = ct_failed ct"
  with assms(2) have failed: "ct_failed ct \<noteq> 0" and w3: "w' = w3" by auto
  have "le (iw_db w2) (iw_db w3)" by (rule process_active_le [OF proc]) (use ack failed in auto)
  with keeps_db [OF expired_claim_descriptors_le exp] keeps_db [OF discover_all_le disc] show ?thesis
    unfolding w3 by (blast intro: le_trans)
qed

end

lemma process_active_counts:
  assumes "process_active pc s d now lp active w = (Inr ct, w')"
  shows "ct_processed ct + ct_duplicates ct + ct_failed ct + ct_missing ct = int (length active)"
proof (cases "active = []")
  case True
  with assms show ?thesis by (auto simp: process_active_def)
next
  case False
  from assms False show ?thesis
  proof (rule process_active_run)
    fix claims reads n f w1 w2 nc
    assume settle: "settle_reads pc s (lp_owner lp) (lp_epoch lp) now
         (map (\<lambda>x. (x, read_one pc (iw_calls w1) x)) (to_read_of active claims)) w1 = (Inr reads, w2)"
      and ingest: "ingest_page pc s d (lp_epoch lp) now
         (if 0 < rs_failed reads \<or> pg_reinspection_page (lp_page lp) then None else next_cursor_of lp) (rs_payloads reads) w2
         = (Inr (n, f), w')"
      and ct: "ct = \<lparr>ct_processed = n, ct_duplicates = int (length active) - int (length (to_read_of active claims)),
         ct_failed = rs_failed reads + f, ct_missing = rs_missing reads\<rparr>"
    from settle_reads_counts [OF settle] ingest_page_counts [OF ingest] show ?thesis by (simp add: ct)
  qed
qed

text \<open>
  C2. The listing cursor never passes an object that is not settled. When a page ends with nothing
  failed, every object it listed is in a terminal state, or at some moment of the page another worker
  held an unexpired lease on it. When something failed, the cursor of the pair is where it was.
\<close>

theorem page_cursor_safe:
  assumes "peers_ok (pc_controller pc)" and "control_steps create_schema (iw_db w)"
    and "list_page pc s d c w = (Inr lp, w1)" and "run_page pc s d c now w = (Inr res, w')"
  shows "(pr_failed res = 0 \<longrightarrow> (\<forall>x \<in> set (pg_objects (lp_page lp)). settled (iw_db w') s (sd_object_key x)
        \<or> (\<exists>db. plane_le (iw_db w) db \<and> plane_le db (iw_db w') \<and> held_elsewhere pc now db s (sd_object_key x))))
    \<and> (pr_failed res \<noteq> 0 \<longrightarrow> peers_keep_cursor (pc_controller pc) s d \<longrightarrow>
        cursor_row (iw_db w') s d = cursor_row (iw_db w) s d)"
proof -
  have plane: "page_plane pc" using plane_page [OF assms(1)] by (rule page_plane.intro)
  note listed = page_frame.list_page_le [OF plane_page [OF assms(1)]]
  have le1: "plane_le (iw_db w) (iw_db w1)" and inv1: "db_inv (iw_db w1)"
    using plane_ingest.world_inv [OF plane_ingest.intro [OF plane_frame [OF assms(1)]] listed assms(3) reachable_inv [OF assms(2)]]
    by simp_all
  note work = run_page_listed [OF assms(4,3)]
  have "same_cursor s d (iw_db w) (iw_db w')" if "peers_keep_cursor (pc_controller pc) s d" "pr_failed res \<noteq> 0"
  proof -
    note frame = cursor_page [OF that(1)]
    have "same_cursor s d (iw_db w) (iw_db w1)"
      using ingest_frame.keeps_db [OF cursor_frame [OF that(1)] page_frame.list_page_le [OF frame] assms(3)] .
    moreover have "same_cursor s d (iw_db w1) (iw_db w')"
      by (rule page_frame.failed_page_le [OF frame work that(2)]) (rule acknowledge_no_cursor)
    ultimately show ?thesis by (simp add: same_cursor_def)
  qed
  then show ?thesis
    using page_plane.work_page_settled [OF plane work inv1] plane_le_trans [OF le1] by (auto simp: same_cursor_def)
qed

definition example_owner_db :: control_db where
  "example_owner_db = create_schema\<lparr>ownership := [example_owner]\<rparr>"

definition example_item :: s3_item where
  "example_item = \<lparr>si_key = Some ''k1'', si_size = 10, si_version_id = None, si_etag = None, si_sha256 = Some ''c:1'', si_sha1 = None\<rparr>"

definition example_coordinator :: "(json objects, json, ch_tables) page_coordinator" where
  "example_coordinator = \<lparr>pc_controller = example_controller,
     pc_lister = \<lparr>sl_bucket = ''b'', sl_prefix = [], sl_paginate = (\<lambda>_ _. Inr \<lparr>sp_contents = [example_item], sp_next_token = None,
       sp_next_continuation = None\<rparr>)\<rparr>,
     pc_reader_bucket = ''b'', pc_get_object = (\<lambda>_ _ _. Inl (OtherError ''NoSuchKey'')), pc_sha = (\<lambda>t. t),
     pc_worker_id = ''w1'', pc_page_size = 10, pc_lease = 100, pc_object_concurrency = 4\<rparr>"

definition example_page_start :: "(json objects, ch_tables) ingest_world" where
  "example_page_start = \<lparr>iw_db = example_owner_db, iw_archive = Map.empty, iw_serving = (\<lambda>_. []), iw_calls = 0\<rparr>"

definition example_page :: "page_run result \<times> (json objects, ch_tables) ingest_world" where
  "example_page = run_page example_coordinator ''svc'' ''request'' None None example_page_start"

definition example_listing :: "listed_page result \<times> (json objects, ch_tables) ingest_world" where
  "example_listing = list_page example_coordinator ''svc'' ''request'' None example_page_start"

lemma example_page_start_reachable: "control_steps create_schema (iw_db example_page_start)"
proof -
  have "initialize_owner 5 ''svc'' ''high_scale'' ''c0'' create_schema = Inr (owner_from_row example_owner, iw_db example_page_start)"
    by code_simp
  then show ?thesis by (blast intro: step_initialize)
qed

lemma ok_projr: "is_ok (fst p) \<Longrightarrow> p = (Inr (projr (fst p)), snd p)"
  by (cases p; cases "fst p") auto

lemma example_coordinator_run:
  obtains lp w1 res w' where "example_listing = (Inr lp, w1)" and "example_page = (Inr res, w')"
    and "map sd_object_key (pg_objects (lp_page lp)) = [''k1'']" and "pr_failed res = 0"
proof -
  have list: "is_ok (fst example_listing)" "map sd_object_key (pg_objects (lp_page (projr (fst example_listing)))) = [''k1'']"
    by code_simp+
  have page: "is_ok (fst example_page)" "pr_failed (projr (fst example_page)) = 0" by code_simp+
  from that [OF ok_projr [OF list(1)] ok_projr [OF page(1)] list(2) page(2)] show thesis .
qed

lemma example_coordinator_peers: "peers_ok (pc_controller example_coordinator)"
  using example_peers_ok by (simp add: example_coordinator_def)

lemmas example_page_runs = example_coordinator_peers example_page_start_reachable

theorem page_cursor_safe_witness:
  "\<exists>res w'. example_page = (Inr res, w') \<and> pr_failed res = 0
     \<and> (settled (iw_db w') ''svc'' ''k1'' \<or> (\<exists>db. held_elsewhere example_coordinator None db ''svc'' ''k1''))"
proof (rule example_coordinator_run)
  fix lp w1 res w'
  assume list: "example_listing = (Inr lp, w1)" and page: "example_page = (Inr res, w')"
    and key: "map sd_object_key (pg_objects (lp_page lp)) = [''k1'']" and ok: "pr_failed res = 0"
  note safe = page_cursor_safe [OF example_page_runs list [unfolded example_listing_def] page [unfolded example_page_def]]
  from key obtain x where "x \<in> set (pg_objects (lp_page lp))" "sd_object_key x = ''k1''" by auto
  with safe ok have "settled (iw_db w') ''svc'' ''k1'' \<or> (\<exists>db. held_elsewhere example_coordinator None db ''svc'' ''k1'')"
    by metis
  with page ok show ?thesis by blast
qed

text \<open>
  A page accounts for every object. The processed, duplicate, failed and missing objects of a page
  add up to the objects it considered: those of the listing, when it names no key twice, and the
  sources whose claims had expired.
\<close>

theorem page_accounts_for_objects:
  assumes "peers_ok (pc_controller pc)" and "control_steps create_schema (iw_db w)"
    and "list_page pc s d c w = (Inr lp, w1)" and "run_page pc s d c now w = (Inr res, w')"
    and "distinct (map sd_object_key (pg_objects (lp_page lp)))"
  shows "\<exists>expired w2. expired_claim_descriptors pc s d w1 = (Inr expired, w2)
    \<and> pr_processed res + pr_duplicates res + pr_failed res + pr_missing res
        = int (card (sd_object_key ` set expired \<union> sd_object_key ` set (pg_objects (lp_page lp))))"
proof -
  have plane: "page_plane pc" using plane_page [OF assms(1)] by (rule page_plane.intro)
  note listed = page_frame.list_page_le [OF plane_page [OF assms(1)]]
  have inv1: "db_inv (iw_db w1)"
    using plane_ingest.world_inv [OF plane_ingest.intro [OF plane_frame [OF assms(1)]] listed assms(3) reachable_inv [OF assms(2)]]
    by simp
  from run_page_listed [OF assms(4,3)] show ?thesis
  proof (rule work_page_run)
    fix expired found dup fresh ct u w2 w3 w4
    assume exp: "expired_claim_descriptors pc s d w1 = (Inr expired, w2)"
      and choose: "choose_active found (map sd_object_key expired) (pg_objects (lp_page lp)) = (dup, fresh)"
      and proc: "process_active pc s d now lp (expired @ fresh) w3 = (Inr ct, w4)"
      and res: "pr_processed res = ct_processed ct" "pr_duplicates res = dup + ct_duplicates ct" "pr_failed res = ct_failed ct"
        "pr_missing res = ct_missing ct"
    let ?new = "filter (\<lambda>x. sd_object_key x \<notin> sd_object_key ` set expired) (pg_objects (lp_page lp))"
    have "sd_object_key ` set expired \<union> sd_object_key ` set (pg_objects (lp_page lp)) =
        set (map sd_object_key expired) \<union> set (map sd_object_key ?new)" by auto
    moreover have "distinct (map sd_object_key ?new)" using assms(5) by (rule distinct_map_filter)
    moreover have "set (map sd_object_key expired) \<inter> set (map sd_object_key ?new) = {}"
      unfolding set_map set_filter by (auto, metis imageI)
    ultimately have "card (sd_object_key ` set expired \<union> sd_object_key ` set (pg_objects (lp_page lp))) = length expired + length ?new"
      using page_plane.expired_rows(1) [OF plane exp inv1] by (simp add: card_Un_disjoint distinct_card [of "map _ _", simplified length_map] del: set_map)
    with process_active_counts [OF proc] choose_active_count [OF choose assms(5)] exp res show ?thesis by simp
  qed
qed

theorem page_accounts_for_objects_witness:
  "\<exists>res w'. example_page = (Inr res, w') \<and> pr_processed res + pr_duplicates res + pr_failed res + pr_missing res \<ge> 1"
proof (rule example_coordinator_run)
  fix lp w1 res w'
  assume list: "example_listing = (Inr lp, w1)" and page: "example_page = (Inr res, w')"
    and key: "map sd_object_key (pg_objects (lp_page lp)) = [''k1'']"
  from key have "distinct (map sd_object_key (pg_objects (lp_page lp)))" by simp
  from page_accounts_for_objects [OF example_page_runs list [unfolded example_listing_def] page [unfolded example_page_def] this]
  obtain expired :: "source_descriptor list" where
    total: "pr_processed res + pr_duplicates res + pr_failed res + pr_missing res
      = int (card (sd_object_key ` set expired \<union> sd_object_key ` set (pg_objects (lp_page lp))))" by blast
  from key have "''k1'' \<in> sd_object_key ` set (pg_objects (lp_page lp))" by (metis list.set_intros(1) list.set_map)
  then have "0 < card (sd_object_key ` set expired \<union> sd_object_key ` set (pg_objects (lp_page lp)))"
    by (auto simp: card_gt_0_iff)
  then have "1 \<le> pr_processed res + pr_duplicates res + pr_failed res + pr_missing res" unfolding total by linarith
  with page show ?thesis by blast
qed

end
