(* ===== verification/Fair_Selector.thy ===== *)
theory Fair_Selector
  imports Prelude "HOL-Library.Sublist"
begin

text \<open>
  The page scheduler of the worker: \<open>FairPageSelector\<close>, \<open>_weights_from_env\<close> and \<open>_csv_env\<close> of
  \<open>high_scale/worker.py\<close>. A tick queues every (service, domain) pair that is not waiting, takes one
  page of every service, and spends the rest of the capacity by weighted deficits. The loop that
  spends the deficits is a \<open>partial_function\<close>; the theorems show that it always returns, that a tick
  fills its capacity without repeating a pair, and that no pair waits longer than its service has domains.
\<close>

type_synonym pair = "string \<times> string"

record selector =
  fs_pairs :: "pair list"
  fs_capacity :: "nat option"
  fs_services :: "string list"
  fs_weights :: "string \<Rightarrow> int"
  fs_queues :: "string \<Rightarrow> string list"
  fs_deficits :: "string \<Rightarrow> int"
  fs_queued :: "pair list"

definition mk_selector :: "pair list \<Rightarrow> int option \<Rightarrow> (string \<rightharpoonup> int) \<Rightarrow> selector result" where
  "mk_selector pairs capacity weights =
     (let services = remdups (map fst pairs)
      in ebind (ensure (\<not> (\<exists>c. capacity = Some c \<and> c < 0)) (ValueError ''pages per tick must be non-negative'')) (\<lambda>_.
         ebind (ensure (\<not> (\<exists>c. capacity = Some c \<and> c \<noteq> 0 \<and> c < int (length services)))
                  (ValueError ''pages per tick must be at least the number of services'')) (\<lambda>_.
         ebind (ensure (list_all (\<lambda>s. 0 < the_default 1 (weights s)) (sort services))
                  (ValueError ''service weight must be positive'')) (\<lambda>_.
         Inr \<lparr>fs_pairs = pairs,
              fs_capacity = (case capacity of None \<Rightarrow> None | Some c \<Rightarrow> if c = 0 then None else Some (nat c)),
              fs_services = sort services, fs_weights = (\<lambda>s. the_default 1 (weights s)),
              fs_queues = (\<lambda>_. []), fs_deficits = (\<lambda>_. 0), fs_queued = []\<rparr>))))"

text \<open>The first loop of \<open>select\<close>: pairs that are not waiting are queued.\<close>

fun enqueue :: "pair list \<Rightarrow> (string \<Rightarrow> string list) \<Rightarrow> pair list \<Rightarrow> (string \<Rightarrow> string list) \<times> pair list" where
  "enqueue [] qs queued = (qs, queued)"
| "enqueue (p # ps) qs queued =
     (if p \<notin> set queued then enqueue ps (qs(fst p := qs (fst p) @ [snd p])) (queued @ [p])
      else enqueue ps qs queued)"

text \<open>The second loop: one page per service.\<close>

fun first_pass ::
  "nat \<Rightarrow> (string \<Rightarrow> int) \<Rightarrow> string list \<Rightarrow> (string \<Rightarrow> string list) \<Rightarrow> (string \<Rightarrow> int) \<Rightarrow> pair list
     \<Rightarrow> (string \<Rightarrow> string list) \<times> (string \<Rightarrow> int) \<times> pair list" where
  "first_pass capacity ws [] qs ds selected = (qs, ds, selected)"
| "first_pass capacity ws (s # ss) qs ds selected =
     (if capacity \<le> length selected then (qs, ds, selected)
      else case qs s of
             [] \<Rightarrow> first_pass capacity ws ss qs ds selected
           | d # q \<Rightarrow> first_pass capacity ws ss (qs(s := q)) (ds(s := ds s + (ws s - 1))) (selected @ [(s, d)]))"

text \<open>The inner \<open>while\<close>: a service spends its deficit.\<close>

fun drain :: "nat \<Rightarrow> string \<Rightarrow> string list \<Rightarrow> int \<Rightarrow> pair list \<Rightarrow> string list \<times> int \<times> pair list" where
  "drain capacity s [] deficit selected = ([], deficit, selected)"
| "drain capacity s (d # q) deficit selected =
     (if 1 \<le> deficit \<and> length selected < capacity then drain capacity s q (deficit - 1) (selected @ [(s, d)])
      else (d # q, deficit, selected))"

fun drain_round ::
  "nat \<Rightarrow> string list \<Rightarrow> (string \<Rightarrow> string list) \<Rightarrow> (string \<Rightarrow> int) \<Rightarrow> pair list
     \<Rightarrow> (string \<Rightarrow> string list) \<times> (string \<Rightarrow> int) \<times> pair list" where
  "drain_round capacity [] qs ds selected = (qs, ds, selected)"
| "drain_round capacity (s # ss) qs ds selected =
     (let (q, d, selected') = drain capacity s (qs s) (ds s) selected
      in drain_round capacity ss (qs(s := q)) (ds(s := d)) selected')"

definition add_deficits ::
  "(string \<Rightarrow> int) \<Rightarrow> string list \<Rightarrow> (string \<Rightarrow> string list) \<Rightarrow> (string \<Rightarrow> int) \<Rightarrow> string \<Rightarrow> int" where
  "add_deficits ws services qs ds s = (if s \<in> set services \<and> qs s \<noteq> [] then ds s + ws s else ds s)"

text \<open>The outer \<open>while\<close>: a round has progressed when it appended to the selection.\<close>

partial_function (option) dispatch ::
  "nat \<Rightarrow> (string \<Rightarrow> int) \<Rightarrow> string list \<Rightarrow> (string \<Rightarrow> string list) \<Rightarrow> (string \<Rightarrow> int) \<Rightarrow> pair list
     \<Rightarrow> ((string \<Rightarrow> string list) \<times> (string \<Rightarrow> int) \<times> pair list) option" where
  "dispatch capacity ws services qs ds selected =
     (if length selected < capacity \<and> list_ex (\<lambda>s. qs s \<noteq> []) services
      then (case drain_round capacity services qs ds selected of
              (qs', ds', selected') \<Rightarrow>
                if length selected < length selected' then dispatch capacity ws services qs' ds' selected'
                else dispatch capacity ws services qs' (add_deficits ws services qs' ds') selected')
      else Some (qs, ds, selected))"

text \<open>\<open>_order\<close>: the position of a pair, the last one when it is listed twice.\<close>

definition pair_order :: "pair list \<Rightarrow> pair \<Rightarrow> nat" where
  "pair_order pairs p = the_default 0 (map_of (rev (zip pairs [0..<length pairs])) p)"

definition tick_capacity :: "selector \<Rightarrow> nat" where
  "tick_capacity sel = the_default (length (fs_pairs sel)) (fs_capacity sel)"

definition select :: "selector \<Rightarrow> (pair list \<times> selector) option" where
  "select sel =
     (let (qs0, queued) = enqueue (fs_pairs sel) (fs_queues sel) (fs_queued sel);
          capacity = tick_capacity sel;
          (qs1, ds1, selected1) = first_pass capacity (fs_weights sel) (fs_services sel) qs0 (fs_deficits sel) []
      in case dispatch capacity (fs_weights sel) (fs_services sel) qs1 ds1 selected1 of
           None \<Rightarrow> None
         | Some (qs, ds, selected) \<Rightarrow>
             Some (sort_key (pair_order (fs_pairs sel)) selected,
                   sel\<lparr>fs_queues := qs, fs_deficits := ds,
                       fs_queued := filter (\<lambda>p. p \<notin> set selected) queued\<rparr>))"

fun ticks :: "nat \<Rightarrow> selector \<Rightarrow> (pair list list \<times> selector) option" where
  "ticks 0 sel = Some ([], sel)"
| "ticks (Suc n) sel =
     (case select sel of
        None \<Rightarrow> None
      | Some (out, sel') \<Rightarrow>
          (case ticks n sel' of None \<Rightarrow> None | Some (outs, sel'') \<Rightarrow> Some (out # outs, sel'')))"

subsection \<open>Configuration\<close>

fun split_on :: "char \<Rightarrow> string \<Rightarrow> string list" where
  "split_on c [] = [[]]"
| "split_on c (x # s) =
     (if x = c then [] # split_on c s
      else case split_on c s of [] \<Rightarrow> [[x]] | w # ws \<Rightarrow> (x # w) # ws)"

definition csv_env :: "(string \<rightharpoonup> string) \<Rightarrow> string \<Rightarrow> string list" where
  "csv_env env name =
     filter (\<lambda>v. v \<noteq> []) (map py_strip (split_on (CHR '','') (the_default [] (env name))))"

definition partition_eq :: "string \<Rightarrow> string \<times> bool \<times> string" where
  "partition_eq entry =
     (let before = takeWhile (\<lambda>c. c \<noteq> CHR ''='') entry; rest = dropWhile (\<lambda>c. c \<noteq> CHR ''='') entry
      in case rest of [] \<Rightarrow> (entry, False, []) | _ # after \<Rightarrow> (before, True, after))"

definition isdigit :: "string \<Rightarrow> bool" where
  "isdigit s \<longleftrightarrow> s \<noteq> [] \<and> list_all (\<lambda>c. digit_value c \<noteq> None) s"

definition weight_entry :: "string \<Rightarrow> (string \<times> int) result" where
  "weight_entry entry =
     (let (service_id, sep, raw) = partition_eq entry;
          bad = Inl (ValueError ''HIGH_SCALE_SERVICE_WEIGHTS entries must look like service=positive_integer'')
      in if \<not> sep \<or> py_strip service_id = [] \<or> \<not> isdigit (py_strip raw) then bad
         else case py_int raw of
                None \<Rightarrow> Inl (ValueError ''invalid literal for int()'')
              | Some n \<Rightarrow> if n \<le> 0 then bad else Inr (py_strip service_id, n))"

fun weight_entries :: "string list \<Rightarrow> (string \<rightharpoonup> int) \<Rightarrow> (string \<rightharpoonup> int) result" where
  "weight_entries [] ws = Inr ws"
| "weight_entries (e # es) ws = ebind (weight_entry e) (\<lambda>(s, n). weight_entries es (ws(s \<mapsto> n)))"

definition weights_from_env :: "(string \<rightharpoonup> string) \<Rightarrow> (string \<rightharpoonup> int) result" where
  "weights_from_env env = weight_entries (csv_env env ''HIGH_SCALE_SERVICE_WEIGHTS'') Map.empty"

lemma weight_entries_positive:
  "weight_entries es ws = Inr ws' \<Longrightarrow> (\<And>s n. ws s = Some n \<Longrightarrow> 0 < n) \<Longrightarrow> ws' s = Some n \<Longrightarrow> 0 < n"
proof (induction es arbitrary: ws)
  case (Cons e es)
  then obtain k m where entry: "weight_entry e = Inr (k, m)" "weight_entries es (ws(k \<mapsto> m)) = Inr ws'"
    by (auto simp: ebind_Inr_iff)
  then have "0 < m" by (auto simp: weight_entry_def Let_def split: prod.splits option.splits if_splits)
  show ?case
  proof (rule Cons.IH [OF entry(2) _ Cons.prems(3)])
    show "0 < n'" if "(ws(k \<mapsto> m)) s' = Some n'" for s' n'
      using that \<open>0 < m\<close> Cons.prems(2) [of s' n'] by (cases "s' = k") auto
  qed
qed auto

text \<open>Weights read from the environment pass the check of the selector.\<close>

lemma weights_from_env_positive: "weights_from_env env = Inr ws \<Longrightarrow> 0 < the_default 1 (ws s)"
  by (cases "ws s") (auto simp: weights_from_env_def dest: weight_entries_positive)

subsection \<open>Moving pairs from the queues to the selection\<close>

definition waiting :: "string list \<Rightarrow> (string \<Rightarrow> string list) \<Rightarrow> pair set" where
  "waiting services qs = {(s, d). s \<in> set services \<and> d \<in> set (qs s)}"

definition apart :: "string list \<Rightarrow> (string \<Rightarrow> string list) \<Rightarrow> pair list \<Rightarrow> bool" where
  "apart services qs sel \<longleftrightarrow> distinct sel \<and> (\<forall>s. distinct (qs s)) \<and> set sel \<inter> waiting services qs = {}"

text \<open>
  What every loop of a tick does: it removes from the front of queues what it appends to the selection,
  within the capacity.
\<close>

definition moves :: "nat \<Rightarrow> string list \<Rightarrow> (string \<Rightarrow> string list) \<Rightarrow> pair list \<Rightarrow> (string \<Rightarrow> string list) \<Rightarrow> pair list \<Rightarrow> bool" where
  "moves cap services qs sel qs' sel' \<longleftrightarrow>
     (\<forall>s. suffix (qs' s) (qs s)) \<and> (\<exists>new. sel' = sel @ new)
     \<and> set sel' \<union> waiting services qs' = set sel \<union> waiting services qs
     \<and> (apart services qs sel \<longrightarrow> apart services qs' sel')
     \<and> (length sel \<le> cap \<longrightarrow> length sel' \<le> cap)"

lemma moves_refl [simp]: "moves cap services qs sel qs sel"
  by (simp add: moves_def)

lemma moves_trans:
  assumes "moves cap ss a x b y" and "moves cap ss b y c z"
  shows "moves cap ss a x c z"
proof -
  from assms have "suffix (c s) (a s)" for s by (meson moves_def suffix_order.order_trans)
  moreover from assms have "\<exists>new. z = x @ new" by (auto simp: moves_def)
  moreover from assms have "set z \<union> waiting ss c = set x \<union> waiting ss a" by (simp add: moves_def)
  ultimately show ?thesis using assms by (simp add: moves_def)
qed

lemma moves_pop:
  assumes "s \<in> set services" and "qs s = d # q" and "length sel < cap"
  shows "moves cap services qs sel (qs(s := q)) (sel @ [(s, d)])"
proof -
  have "waiting services qs = insert (s, d) (waiting services (qs(s := q)))"
    using assms(1,2) by (auto simp: waiting_def split: if_splits)
  moreover have "(s, d) \<notin> waiting services (qs(s := q))" if "\<forall>s. distinct (qs s)"
    using that [THEN spec, of s] assms(2) by (auto simp: waiting_def)
  moreover have "distinct q" if "\<forall>s. distinct (qs s)"
    using that [THEN spec, of s] assms(2) by simp
  ultimately show ?thesis using assms by (auto simp: moves_def apart_def suffix_Cons)
qed

lemma drain_moves:
  assumes "s \<in> set services" and "drain cap s (qs s) d sel = (q', d', sel')"
  shows "moves cap services qs sel (qs(s := q')) sel'"
  using assms(2)
proof (induction "qs s" arbitrary: qs d sel)
  case Nil
  then have "q' = []" "sel' = sel" by (metis drain.simps(1) prod.inject)+
  with Nil(1) have "qs(s := q') = qs" by (auto simp: fun_eq_iff)
  with \<open>sel' = sel\<close> show ?case by simp
next
  case (Cons x q)
  show ?case
  proof (cases "1 \<le> d \<and> length sel < cap")
    case True
    with Cons.prems Cons.hyps(2) [symmetric] have "drain cap s ((qs(s := q)) s) (d - 1) (sel @ [(s, x)]) = (q', d', sel')" by simp
    from Cons.hyps(1) [of "qs(s := q)" "d - 1" "sel @ [(s, x)]"] this have "moves cap services (qs(s := q)) (sel @ [(s, x)]) (qs(s := q')) sel'" by simp
    moreover have "moves cap services qs sel (qs(s := q)) (sel @ [(s, x)])"
      using assms(1) Cons.hyps(2) [symmetric] True by (intro moves_pop) auto
    ultimately show ?thesis by (blast intro: moves_trans)
  next
    case False
    with Cons.prems Cons.hyps(2) [symmetric] have "q' = qs s" "sel' = sel" by auto
    then show ?thesis by simp
  qed
qed

lemma first_pass_moves:
  "set ss \<subseteq> set services \<Longrightarrow> first_pass cap ws ss qs ds sel = (qs', ds', sel') \<Longrightarrow> moves cap services qs sel qs' sel'"
proof (induction cap ws ss qs ds sel rule: first_pass.induct)
  case (2 cap ws s ss qs ds sel)
  show ?case
  proof (cases "cap \<le> length sel")
    case True
    with 2(4) show ?thesis by simp
  next
    case False
    show ?thesis
    proof (cases "qs s")
      case Nil
      with 2(1) [OF False Nil] 2(3,4) False show ?thesis by simp
    next
      case (Cons d q)
      with False 2(4) have rest: "first_pass cap ws ss (qs(s := q)) (ds(s := ds s + (ws s - 1))) (sel @ [(s, d)]) = (qs', ds', sel')"
        by simp
      from 2(2) [OF False Cons _ rest] 2(3) have "moves cap services (qs(s := q)) (sel @ [(s, d)]) qs' sel'"
        by (simp add: fun_upd_def)
      moreover have "moves cap services qs sel (qs(s := q)) (sel @ [(s, d)])"
        using 2(3) False Cons by (intro moves_pop) auto
      ultimately show ?thesis by (blast intro: moves_trans)
    qed
  qed
qed auto

lemma drain_round_moves:
  "set ss \<subseteq> set services \<Longrightarrow> drain_round cap ss qs ds sel = (qs', ds', sel') \<Longrightarrow> moves cap services qs sel qs' sel'"
proof (induction cap ss qs ds sel rule: drain_round.induct)
  case (2 cap s ss qs ds sel)
  obtain q d sel1 where one: "drain cap s (qs s) (ds s) sel = (q, d, sel1)" by (metis prod_cases3)
  with 2(3) have "drain_round cap ss (qs(s := q)) (ds(s := d)) sel1 = (qs', ds', sel')" by simp
  from 2(1) [OF one [symmetric] refl refl _ this] 2(2) have "moves cap services (qs(s := q)) sel1 qs' sel'"
    by (simp add: fun_upd_def)
  moreover have "moves cap services qs sel (qs(s := q)) sel1" using 2(2) one by (intro drain_moves) auto
  ultimately show ?case by (blast intro: moves_trans)
qed simp

subsection \<open>The loop returns\<close>

definition total_waiting :: "string list \<Rightarrow> (string \<Rightarrow> string list) \<Rightarrow> nat" where
  "total_waiting services qs = sum_list (map (\<lambda>s. length (qs s)) services)"

lemma drain_lengths:
  "drain cap s q d sel = (q', d', sel') \<Longrightarrow> length q' + length sel' = length q + length sel \<and> length sel \<le> length sel'
     \<and> d' + int (length sel') = d + int (length sel) \<and> (0 \<le> d \<longrightarrow> 0 \<le> d')"
  by (induction cap s q d sel rule: drain.induct) (auto split: if_splits)

lemma drain_progress: "q \<noteq> [] \<Longrightarrow> 1 \<le> d \<Longrightarrow> length sel < cap \<Longrightarrow> length sel < length (snd (snd (drain cap s q d sel)))"
proof (induction cap s q d sel rule: drain.induct)
  case (2 cap s x q d sel)
  obtain q' d' sel' where run: "drain cap s q (d - 1) (sel @ [(s, x)]) = (q', d', sel')" by (metis prod_cases3)
  from drain_lengths [OF run] run 2(3,4) show ?case by simp
qed simp

lemma total_waiting_update:
  assumes "distinct services" and "s \<in> set services" and "length q + k = length (qs s)"
  shows "total_waiting services (qs(s := q)) + k = total_waiting services qs"
  using assms
proof (induction services)
  case (Cons t ts)
  have "total_waiting ts (qs(s := q)) = total_waiting ts qs" if "s \<notin> set ts"
    using that by (auto simp: total_waiting_def intro!: arg_cong [where f = sum_list])
  with Cons show ?case by (auto simp: total_waiting_def)
qed simp

lemma drain_round_lengths:
  assumes "distinct services" and "set ss \<subseteq> set services" and "drain_round cap ss qs ds sel = (qs', ds', sel')"
  shows "total_waiting services qs' + length sel' = total_waiting services qs + length sel \<and> length sel \<le> length sel'
     \<and> (length sel = length sel' \<longrightarrow> qs' = qs \<and> ds' = ds) \<and> ((\<forall>s. 0 \<le> ds s) \<longrightarrow> (\<forall>s. 0 \<le> ds' s))"
  using assms(2,3)
proof (induction cap ss qs ds sel rule: drain_round.induct)
  case (2 cap s ss qs ds sel)
  obtain q d sel1 where one: "drain cap s (qs s) (ds s) sel = (q, d, sel1)" by (metis prod_cases3)
  note len = drain_lengths [OF one]
  from one 2(3) have rest: "drain_round cap ss (qs(s := q)) (ds(s := d)) sel1 = (qs', ds', sel')" by simp
  note IH = 2(1) [OF one [symmetric] refl refl _ rest]
  have tot: "total_waiting services (qs(s := q)) + (length sel1 - length sel) = total_waiting services qs"
    using 2(2) len assms(1) by (intro total_waiting_update) auto
  have "qs(s := q) = qs \<and> ds(s := d) = ds" if same: "length sel = length sel1"
  proof -
    have "q = qs s"
    proof (cases "qs s")
      case Nil
      with len same show ?thesis by simp
    next
      case (Cons x xs)
      with one same show ?thesis
        using drain_lengths [of cap s xs "ds s - 1" "sel @ [(s, x)]" q d sel1] by (auto split: if_splits)
    qed
    moreover from len same have "d = ds s" by simp
    ultimately show ?thesis by (simp add: fun_eq_iff)
  qed
  with IH 2(2) tot len show ?case by (auto simp: fun_upd_def)
qed simp

lemma drain_round_progress:
  assumes "list_ex (\<lambda>s. qs s \<noteq> [] \<and> 1 \<le> ds s) ss" and "length sel < cap" and "distinct ss"
  shows "length sel < length (snd (snd (drain_round cap ss qs ds sel)))"
  using assms
proof (induction ss arbitrary: qs ds sel)
  case (Cons s ss)
  obtain q d sel1 where one: "drain cap s (qs s) (ds s) sel = (q, d, sel1)" by (metis prod_cases3)
  note len = drain_lengths [OF one]
  obtain qs' ds' sel' where rest: "drain_round cap ss (qs(s := q)) (ds(s := d)) sel1 = (qs', ds', sel')"
    by (metis prod_cases3)
  have mono: "length sel1 \<le> length sel'"
    using drain_round_moves [OF order_refl rest] by (auto simp: moves_def)
  show ?case
  proof (cases "length sel < length sel1")
    case True
    with mono one rest show ?thesis by simp
  next
    case False
    with drain_progress [of "qs s" "ds s" sel cap s] one Cons.prems(2) len have "\<not> (qs s \<noteq> [] \<and> 1 \<le> ds s)" by auto
    with Cons.prems(1) have "list_ex (\<lambda>t. qs t \<noteq> [] \<and> 1 \<le> ds t) ss" by simp
    with Cons.prems(3) have "list_ex (\<lambda>t. (qs(s := q)) t \<noteq> [] \<and> 1 \<le> (ds(s := d)) t) ss"
      by (fastforce simp: list_ex_iff)
    moreover from False len Cons.prems(2) have "length sel1 < cap" by simp
    ultimately have "length sel1 < length (snd (snd (drain_round cap ss (qs(s := q)) (ds(s := d)) sel1)))"
      using Cons.prems(3) by (intro Cons.IH) simp_all
    with len one rest show ?thesis by simp
  qed
qed simp

lemma dispatch_returns:
  assumes "distinct services" and "\<And>s. s \<in> set services \<Longrightarrow> 0 < ws s" and "\<And>s. 0 \<le> ds s"
  shows "\<exists>qs' ds' sel'. dispatch cap ws services qs ds sel = Some (qs', ds', sel')
     \<and> moves cap services qs sel qs' sel' \<and> (\<forall>s. 0 \<le> ds' s)
     \<and> (cap \<le> length sel' \<or> (\<forall>s \<in> set services. qs' s = []))"
  using assms(3)
proof (induction "total_waiting services qs" arbitrary: qs ds sel rule: less_induct)
  case less
  let ?P = "\<lambda>qs ds sel r. \<exists>qs' ds' sel'. r = Some (qs', ds', sel') \<and> moves cap services qs sel qs' sel' \<and> (\<forall>s. 0 \<le> ds' s)
     \<and> (cap \<le> length sel' \<or> (\<forall>s \<in> set services. qs' s = []))"
  have progress: "?P qs d sel (dispatch cap ws services qs d sel)"
    if nonneg: "\<And>s. 0 \<le> d s" and go: "length sel < cap" "list_ex (\<lambda>s. qs s \<noteq> []) services"
      and run: "drain_round cap services qs d sel = (q1, d1, sel1)" and more: "length sel < length sel1" for d q1 d1 sel1
  proof -
    note len = drain_round_lengths [OF assms(1) order_refl run]
    from len more have "total_waiting services q1 < total_waiting services qs" by simp
    from less.hyps [OF this, of d1 sel1] len nonneg have "?P q1 d1 sel1 (dispatch cap ws services q1 d1 sel1)" by blast
    moreover have "dispatch cap ws services qs d sel = dispatch cap ws services q1 d1 sel1"
      using go run more by (subst dispatch.simps) simp
    ultimately show ?thesis using drain_round_moves [OF order_refl run] by (auto intro: moves_trans)
  qed
  show ?case
  proof (cases "length sel < cap \<and> list_ex (\<lambda>s. qs s \<noteq> []) services")
    case False
    then have "dispatch cap ws services qs ds sel = Some (qs, ds, sel)" by (subst dispatch.simps) auto
    with False less.prems show ?thesis by (auto simp: list_ex_iff)
  next
    case True
    obtain q1 d1 sel1 where run: "drain_round cap services qs ds sel = (q1, d1, sel1)" by (metis prod_cases3)
    note len = drain_round_lengths [OF assms(1) order_refl run]
    show ?thesis
    proof (cases "length sel < length sel1")
      case more: True
      with progress [OF less.prems _ _ run] True show ?thesis by blast
    next
      case False
      with len have same: "q1 = qs" "d1 = ds" "length sel1 = length sel" by auto
      from drain_round_moves [OF order_refl run] same(3) have "sel1 = sel" by (auto simp: moves_def)
      let ?d = "add_deficits ws services qs ds"
      have eq: "dispatch cap ws services qs ds sel = dispatch cap ws services qs ?d sel"
        using True run False same \<open>sel1 = sel\<close> by (subst dispatch.simps) simp
      have nonneg: "0 \<le> ?d s" for s using less.prems [of s] assms(2) [of s] by (auto simp: add_deficits_def)
      have ready: "list_ex (\<lambda>s. qs s \<noteq> [] \<and> 1 \<le> ?d s) services"
      proof -
        from True obtain s where "s \<in> set services" "qs s \<noteq> []" by (auto simp: list_ex_iff)
        with less.prems [of s] assms(2) [of s] show ?thesis by (auto simp: list_ex_iff add_deficits_def intro!: bexI [of _ s])
      qed
      obtain q2 d2 sel2 where run2: "drain_round cap services qs ?d sel = (q2, d2, sel2)" by (metis prod_cases3)
      with drain_round_progress [OF ready _ assms(1)] True have "length sel < length sel2" by (metis snd_conv)
      from progress [OF nonneg _ _ run2 this] True eq show ?thesis by simp
    qed
  qed
qed

subsection \<open>A tick\<close>

definition in_queues :: "(string \<Rightarrow> string list) \<Rightarrow> pair set" where
  "in_queues qs = {(s, d). d \<in> set (qs s)}"

lemma in_queues_iff [simp]: "(s, d) \<in> in_queues qs \<longleftrightarrow> d \<in> set (qs s)"
  by (simp add: in_queues_def)

definition selector_inv :: "selector \<Rightarrow> bool" where
  "selector_inv sel \<longleftrightarrow>
     fs_services sel = sort (remdups (map fst (fs_pairs sel)))
     \<and> (\<forall>s \<in> set (fs_services sel). 0 < fs_weights sel s) \<and> (\<forall>s. 0 \<le> fs_deficits sel s)
     \<and> (\<forall>s. distinct (fs_queues sel s))
     \<and> set (fs_queued sel) = in_queues (fs_queues sel) \<and> set (fs_queued sel) \<subseteq> set (fs_pairs sel)
     \<and> (\<forall>c. fs_capacity sel = Some c \<longrightarrow> length (fs_services sel) \<le> c)"

lemma services_facts:
  assumes "selector_inv sel"
  shows "distinct (fs_services sel)" and "set (fs_services sel) = fst ` set (fs_pairs sel)"
    and "length (fs_services sel) \<le> tick_capacity sel"
proof -
  from assms have eq: "fs_services sel = sort (remdups (map fst (fs_pairs sel)))" by (simp add: selector_inv_def)
  then show "distinct (fs_services sel)" "set (fs_services sel) = fst ` set (fs_pairs sel)" by simp_all
  have "length (remdups (map fst (fs_pairs sel))) \<le> length (fs_pairs sel)"
    using length_remdups_leq [of "map fst (fs_pairs sel)"] by simp
  with assms eq show "length (fs_services sel) \<le> tick_capacity sel"
    by (cases "fs_capacity sel") (auto simp: selector_inv_def tick_capacity_def)
qed

lemma enqueue_spec:
  assumes "enqueue ps qs queued = (qs', queued')" and "\<And>s. distinct (qs s)" and "set queued = in_queues qs"
  shows "set queued' = set queued \<union> set ps \<and> set queued' = in_queues qs' \<and> (\<forall>s. distinct (qs' s))
     \<and> (\<forall>s. prefix (qs s) (qs' s))"
  using assms
proof (induction ps qs queued rule: enqueue.induct)
  case (2 p ps qs queued)
  obtain s d where p: "p = (s, d)" by fastforce
  show ?case
  proof (cases "p \<in> set queued")
    case True
    with 2(2) 2(3-5) show ?thesis by (simp add: insert_absorb) (metis insert_absorb)
  next
    case False
    let ?qs = "qs(s := qs s @ [d])"
    from False 2(3) p have run: "enqueue ps ?qs (queued @ [p]) = (qs', queued')" by simp
    have "d \<notin> set (qs s)" using 2(5) False p by (metis in_queues_iff)
    then have "distinct (?qs t)" for t using 2(4) [of t] by auto
    moreover have "set (queued @ [p]) = in_queues ?qs" using 2(5) p by (auto simp: in_queues_def split: if_splits)
    ultimately have "set queued' = set (queued @ [p]) \<union> set ps \<and> set queued' = in_queues qs'
        \<and> (\<forall>s. distinct (qs' s)) \<and> (\<forall>s. prefix (?qs s) (qs' s))"
      by (rule 2(1) [OF False, unfolded p fst_conv snd_conv, OF run [unfolded p], folded p])
    moreover from this have "prefix (qs t) (qs' t)" for t
      using prefix_order.order_trans [of "qs t" "?qs t" "qs' t"] by simp
    ultimately show ?thesis by auto
  qed
qed auto

lemma first_pass_serves:
  assumes "distinct ss" and "length sel + length ss \<le> cap" and "first_pass cap ws ss qs ds sel = (qs', ds', sel')"
  shows "\<forall>s. qs' s = (if s \<in> set ss then tl (qs s) else qs s)"
    and "(\<And>s. s \<in> set ss \<Longrightarrow> 0 < ws s) \<Longrightarrow> (\<And>s. 0 \<le> ds s) \<Longrightarrow> 0 \<le> ds' s"
  using assms
proof (induction cap ws ss qs ds sel arbitrary: s rule: first_pass.induct)
  case (2 cap ws t ss qs ds sel)
  {
    case 1
    then have room: "\<not> cap \<le> length sel" by simp
    show ?case
    proof (cases "qs t")
      case Nil
      with 1 room 2(1) [OF room Nil] show ?thesis by auto
    next
      case (Cons d q)
      with 1 room 2(3) [OF room Cons] show ?thesis by (auto simp: fun_upd_def)
    qed
  next
    case 2
    then have room: "\<not> cap \<le> length sel" by simp
    note IH = "2.IH"
    show ?case
    proof (cases "qs t")
      case Nil
      with 2 room IH(2) [OF room Nil] show ?thesis by auto
    next
      case (Cons d q)
      from 2(1) [of t] 2(2) [of t] have "0 \<le> ds t + (ws t - 1)" by simp
      with Cons 2 room IH(4) [OF room Cons] show ?thesis by (auto simp: fun_upd_def)
    qed
  }
qed auto

lemma sorted_key_facts [simp]:
  "distinct (sort_key f xs) = distinct xs" "set (sort_key f xs) = set xs" "length (sort_key f xs) = length xs"
  by simp_all

text \<open>The queues of a tick once every pair is queued.\<close>

definition queued_up :: "selector \<Rightarrow> string \<Rightarrow> string list" where
  "queued_up sel = fst (enqueue (fs_pairs sel) (fs_queues sel) (fs_queued sel))"

lemma select_spec:
  assumes inv: "selector_inv sel"
  obtains out sel' where "select sel = Some (out, sel')" "selector_inv sel'"
    "fs_pairs sel' = fs_pairs sel" "fs_capacity sel' = fs_capacity sel"
    "distinct out" "set out \<subseteq> set (fs_pairs sel)"
    "length out = min (tick_capacity sel) (card (set (fs_pairs sel)))"
    "\<And>s. s \<in> set (fs_services sel) \<Longrightarrow> suffix (fs_queues sel' s) (tl (queued_up sel s))"
    "\<And>s d. (s, d) \<in> set (fs_pairs sel) \<Longrightarrow> (s, d) \<notin> set out \<Longrightarrow> d \<in> set (fs_queues sel' s)"
proof -
  let ?S = "fs_services sel" and ?cap = "tick_capacity sel"
  note sv = services_facts [OF inv]
  obtain qs0 queued where enq: "enqueue (fs_pairs sel) (fs_queues sel) (fs_queued sel) = (qs0, queued)" by fastforce
  have "set queued = set (fs_queued sel) \<union> set (fs_pairs sel) \<and> set queued = in_queues qs0 \<and> (\<forall>s. distinct (qs0 s))
      \<and> (\<forall>s. prefix (fs_queues sel s) (qs0 s))"
    using inv by (intro enqueue_spec [OF enq]) (simp_all add: selector_inv_def)
  moreover have "set (fs_queued sel) \<subseteq> set (fs_pairs sel)" using inv unfolding selector_inv_def by blast
  ultimately have q0: "set queued = set (fs_pairs sel)" "set queued = in_queues qs0" "\<And>s. distinct (qs0 s)"
    by blast+
  have all: "waiting ?S qs0 = set (fs_pairs sel)"
  proof -
    have "waiting ?S qs0 \<subseteq> in_queues qs0" by (auto simp: waiting_def)
    moreover have "p \<in> waiting ?S qs0" if "p \<in> set (fs_pairs sel)" for p
    proof -
      from that q0(1,2) have "p \<in> in_queues qs0" by simp
      moreover from that sv(2) have "fst p \<in> set ?S" by simp
      ultimately show ?thesis by (cases p) (simp add: waiting_def)
    qed
    ultimately show ?thesis using q0(1,2) by blast
  qed
  obtain qs1 ds1 sel1 where fp: "first_pass ?cap (fs_weights sel) ?S qs0 (fs_deficits sel) [] = (qs1, ds1, sel1)"
    by (metis prod_cases3)
  have room: "length ([] :: pair list) + length ?S \<le> ?cap" using sv(3) by simp
  have ws: "0 < fs_weights sel s" if "s \<in> set ?S" for s using that inv unfolding selector_inv_def by blast
  have ds0: "0 \<le> fs_deficits sel s" for s using inv by (simp add: selector_inv_def)
  note serve = first_pass_serves(1) [OF sv(1) room fp]
  have ds1: "0 \<le> ds1 s" for s by (rule first_pass_serves(2) [OF sv(1) room fp ws ds0])
  obtain qs2 ds2 sel2 where dis: "dispatch ?cap (fs_weights sel) ?S qs1 ds1 sel1 = Some (qs2, ds2, sel2)"
      "moves ?cap ?S qs1 sel1 qs2 sel2" "\<forall>s. 0 \<le> ds2 s" "?cap \<le> length sel2 \<or> (\<forall>s \<in> set ?S. qs2 s = [])"
    using dispatch_returns [of ?S "fs_weights sel" ds1 ?cap qs1 sel1] sv(1) ws ds1 by blast
  have mv: "moves ?cap ?S qs0 [] qs2 sel2" by (rule moves_trans [OF first_pass_moves [OF order_refl fp] dis(2)])
  then have parts: "set sel2 \<union> waiting ?S qs2 = set (fs_pairs sel)" "apart ?S qs2 sel2" "length sel2 \<le> ?cap"
    using all q0(3) by (auto simp: moves_def apart_def)
  let ?sel' = "sel\<lparr>fs_queues := qs2, fs_deficits := ds2, fs_queued := filter (\<lambda>p. p \<notin> set sel2) queued\<rparr>"
  let ?out = "sort_key (pair_order (fs_pairs sel)) sel2"
  have run: "select sel = Some (?out, ?sel')" using enq fp dis(1) by (simp add: select_def)
  have outside: "d \<in> set (qs2 s) \<Longrightarrow> s \<in> set ?S" for s d
  proof -
    assume "d \<in> set (qs2 s)"
    with mv have "d \<in> set (qs0 s)" by (metis moves_def set_mono_suffix subsetD)
    then have "(s, d) \<in> set (fs_pairs sel)" using q0(1,2) in_queues_iff by blast
    then show ?thesis using sv(2) by force
  qed
  have waiting2: "waiting ?S qs2 = in_queues qs2" using outside by (auto simp: waiting_def in_queues_def)
  have dq: "distinct (qs2 s)" for s using parts(2) by (simp add: apart_def)
  have "set (fs_queued ?sel') = waiting ?S qs2"
    using parts(1,2) q0(1) by (auto simp: apart_def)
  moreover have "waiting ?S qs2 \<subseteq> set (fs_pairs sel)" using parts(1) by blast
  ultimately have inv': "selector_inv ?sel'"
    using inv dis(3) dq unfolding selector_inv_def waiting2 by auto
  have count: "length sel2 = min ?cap (card (set (fs_pairs sel)))"
  proof -
    have len: "length sel2 = card (set sel2)" using parts(2) by (simp add: apart_def distinct_card)
    have le: "card (set sel2) \<le> card (set (fs_pairs sel))" using parts(1) by (intro card_mono) auto
    from dis(4) show ?thesis
    proof
      assume "?cap \<le> length sel2"
      with len le parts(3) show ?thesis by simp
    next
      assume "\<forall>s \<in> set ?S. qs2 s = []"
      then have "waiting ?S qs2 = {}" by (auto simp: waiting_def)
      with parts(1) len parts(3) show ?thesis by simp
    qed
  qed
  show thesis
  proof (rule that [OF run inv'])
    show "suffix (fs_queues ?sel' s) (tl (queued_up sel s))" if "s \<in> set ?S" for s
      using dis(2) serve that enq by (simp add: moves_def queued_up_def) metis
    show "d \<in> set (fs_queues ?sel' s)" if "(s, d) \<in> set (fs_pairs sel)" "(s, d) \<notin> set ?out" for s d
      using that parts(1) waiting2 by auto
  qed (use parts count in \<open>auto simp: apart_def\<close>)
qed

subsection \<open>Waiting\<close>

text \<open>How many domains of its service a pair has in front of it once every pair is queued.\<close>

definition rank :: "selector \<Rightarrow> pair \<Rightarrow> nat" where
  "rank sel p = length (takeWhile (\<lambda>d. d \<noteq> snd p) (queued_up sel (fst p)))"

lemma queued_up_facts:
  assumes "selector_inv sel"
  shows "in_queues (queued_up sel) = set (fs_pairs sel)" and "distinct (queued_up sel s)"
    and "prefix (fs_queues sel s) (queued_up sel s)"
proof -
  obtain qs0 queued where enq: "enqueue (fs_pairs sel) (fs_queues sel) (fs_queued sel) = (qs0, queued)" by fastforce
  have "set queued = set (fs_queued sel) \<union> set (fs_pairs sel) \<and> set queued = in_queues qs0 \<and> (\<forall>s. distinct (qs0 s))
      \<and> (\<forall>s. prefix (fs_queues sel s) (qs0 s))"
    using assms by (intro enqueue_spec [OF enq]) (simp_all add: selector_inv_def)
  moreover have "set (fs_queued sel) \<subseteq> set (fs_pairs sel)" using assms unfolding selector_inv_def by blast
  ultimately show "in_queues (queued_up sel) = set (fs_pairs sel)" "distinct (queued_up sel s)"
    "prefix (fs_queues sel s) (queued_up sel s)"
    using enq by (auto simp: queued_up_def)
qed

lemma takeWhile_suffix:
  assumes "distinct (xs @ q)" and "d \<in> set q"
  shows "length (takeWhile (\<lambda>e. e \<noteq> d) (xs @ q)) = length xs + length (takeWhile (\<lambda>e. e \<noteq> d) q)"
proof -
  from assms have "\<forall>e \<in> set xs. e \<noteq> d" by auto
  then show ?thesis by (subst takeWhile_append2) auto
qed

lemma takeWhile_less: "d \<in> set q \<Longrightarrow> length (takeWhile (\<lambda>e. e \<noteq> d) q) < length q"
  by (induction q) auto

lemma rank_decreases:
  assumes inv: "selector_inv sel" and run: "select sel = Some (out, sel')" and p: "p \<in> set (fs_pairs sel)" "p \<notin> set out"
  shows "rank sel' p < rank sel p"
proof -
  obtain s d where sd: "p = (s, d)" by fastforce
  from inv obtain out2 sel2 where spec: "select sel = Some (out2, sel2)" "selector_inv sel2"
    "\<And>s. s \<in> set (fs_services sel) \<Longrightarrow> suffix (fs_queues sel2 s) (tl (queued_up sel s))"
    "\<And>s d. (s, d) \<in> set (fs_pairs sel) \<Longrightarrow> (s, d) \<notin> set out2 \<Longrightarrow> d \<in> set (fs_queues sel2 s)"
    by (rule select_spec) blast
  with run p sd have inv': "selector_inv sel'" and mem: "d \<in> set (fs_queues sel' s)"
    and suf: "s \<in> set (fs_services sel) \<Longrightarrow> suffix (fs_queues sel' s) (tl (queued_up sel s))" by auto
  have "s \<in> set (fs_services sel)" using services_facts(2) [OF inv] p(1) sd by force
  then obtain xs where xs: "tl (queued_up sel s) = xs @ fs_queues sel' s" using suf by (auto simp: suffix_def)
  have "queued_up sel s \<noteq> []" using mem xs by auto
  then have split: "queued_up sel s = (hd (queued_up sel s) # xs) @ fs_queues sel' s" using xs by (metis append_Cons list.collapse)
  obtain ys where ys: "queued_up sel' s = fs_queues sel' s @ ys" using queued_up_facts(3) [OF inv'] by (auto simp: prefix_def)
  have "rank sel p = length (hd (queued_up sel s) # xs) + length (takeWhile (\<lambda>e. e \<noteq> d) (fs_queues sel' s))"
  proof -
    have "distinct ((hd (queued_up sel s) # xs) @ fs_queues sel' s)" using queued_up_facts(2) [OF inv, of s] split by metis
    from takeWhile_suffix [OF this mem] split sd show ?thesis by (metis fst_conv rank_def snd_conv)
  qed
  moreover have "rank sel' p = length (takeWhile (\<lambda>e. e \<noteq> d) (fs_queues sel' s))"
    using ys mem sd by (auto simp: rank_def takeWhile_append1)
  ultimately show ?thesis by simp
qed

lemma rank_bound:
  assumes "selector_inv sel" and "(s, d) \<in> set (fs_pairs sel)"
  shows "rank sel (s, d) < card {e. (s, e) \<in> set (fs_pairs sel)}"
proof -
  have mem: "set (queued_up sel s) = {e. (s, e) \<in> set (fs_pairs sel)}"
    using queued_up_facts(1) [OF assms(1)] in_queues_iff [of s _ "queued_up sel"] by blast
  with assms(2) have "d \<in> set (queued_up sel s)" by simp
  then have "rank sel (s, d) < length (queued_up sel s)"
    by (simp add: rank_def takeWhile_less)
  also have "length (queued_up sel s) = card {e. (s, e) \<in> set (fs_pairs sel)}"
    using distinct_card [OF queued_up_facts(2) [OF assms(1)]] mem by metis
  finally show ?thesis .
qed

lemma ticks_serve:
  assumes "selector_inv sel" and "p \<in> set (fs_pairs sel)" and "rank sel p < n" and "ticks n sel = Some (outs, sel')"
  shows "\<exists>out \<in> set outs. p \<in> set out"
  using assms
proof (induction n arbitrary: sel outs)
  case (Suc n)
  from Suc.prems(1) obtain out sel1 where one: "select sel = Some (out, sel1)" "selector_inv sel1"
      "fs_pairs sel1 = fs_pairs sel"
    by (rule select_spec)
  with Suc.prems(4) obtain outs1 where rest: "ticks n sel1 = Some (outs1, sel')" "outs = out # outs1"
    by (auto split: option.splits)
  show ?case
  proof (cases "p \<in> set out")
    case True
    with rest show ?thesis by simp
  next
    case False
    from rank_decreases [OF Suc.prems(1) one(1) Suc.prems(2) False] Suc.prems(3) have "rank sel1 p < n" by simp
    with Suc.IH [OF one(2) _ _ rest(1)] Suc.prems(2) one(3) rest(2) show ?thesis by auto
  qed
qed simp

lemma ticks_return:
  "selector_inv sel \<Longrightarrow> \<exists>outs sel'. ticks n sel = Some (outs, sel') \<and> selector_inv sel' \<and> fs_pairs sel' = fs_pairs sel
     \<and> tick_capacity sel' = tick_capacity sel \<and> length outs = n"
proof (induction n arbitrary: sel)
  case (Suc n)
  from Suc.prems obtain out sel1 where one: "select sel = Some (out, sel1)" "selector_inv sel1" "fs_pairs sel1 = fs_pairs sel"
      "fs_capacity sel1 = fs_capacity sel"
    by (rule select_spec)
  then have "tick_capacity sel1 = tick_capacity sel" by (simp add: tick_capacity_def)
  from Suc.IH [OF one(2)] obtain outs sel2 where "ticks n sel1 = Some (outs, sel2)" "selector_inv sel2"
      "fs_pairs sel2 = fs_pairs sel1" "tick_capacity sel2 = tick_capacity sel1" "length outs = n" by blast
  with one \<open>tick_capacity sel1 = tick_capacity sel\<close> show ?case by simp
qed simp

lemma mk_selector_inv:
  assumes "mk_selector pairs capacity weights = Inr sel"
  shows "selector_inv sel \<and> fs_pairs sel = pairs \<and> tick_capacity sel = (case capacity of None \<Rightarrow> length pairs
      | Some c \<Rightarrow> if c = 0 then length pairs else nat c)"
proof -
  from assms have *: "sel = \<lparr>fs_pairs = pairs,
      fs_capacity = (case capacity of None \<Rightarrow> None | Some c \<Rightarrow> if c = 0 then None else Some (nat c)),
      fs_services = sort (remdups (map fst pairs)), fs_weights = (\<lambda>s. the_default 1 (weights s)),
      fs_queues = (\<lambda>_. []), fs_deficits = (\<lambda>_. 0), fs_queued = []\<rparr>"
    "\<And>c. capacity = Some c \<Longrightarrow> c \<noteq> 0 \<Longrightarrow> int (length (remdups (map fst pairs))) \<le> c"
    "\<And>s. s \<in> set (sort (remdups (map fst pairs))) \<Longrightarrow> 0 < the_default 1 (weights s)"
    by (auto simp: mk_selector_def Let_def ebind_Inr_iff list_all_iff)
  then show ?thesis
    by (auto simp: selector_inv_def in_queues_def tick_capacity_def split: option.splits)
qed

subsection \<open>Properties\<close>

text \<open>
  The selector's loops end: after any number of ticks a further tick returns. It dispatches as many
  pages as the capacity allows (every pair when they are fewer), no pair twice, and only configured pairs.
\<close>

theorem select_fills_capacity:
  assumes "mk_selector pairs capacity weights = Inr sel"
  shows "\<exists>outs sel'. ticks n sel = Some (outs, sel') \<and>
    (\<exists>out sel''. select sel' = Some (out, sel'') \<and> distinct out \<and> set out \<subseteq> set pairs
      \<and> length out = min (case capacity of None \<Rightarrow> length pairs | Some c \<Rightarrow> if c = 0 then length pairs else nat c)
                        (card (set pairs)))"
proof -
  note start = mk_selector_inv [OF assms]
  then obtain outs sel' where run: "ticks n sel = Some (outs, sel')" and inv: "selector_inv sel'"
      and same: "fs_pairs sel' = pairs" "tick_capacity sel' = tick_capacity sel"
    using ticks_return [of sel n] by metis
  from inv obtain out sel'' where "select sel' = Some (out, sel'')" "distinct out" "set out \<subseteq> set (fs_pairs sel')"
      "length out = min (tick_capacity sel') (card (set (fs_pairs sel')))"
    by (rule select_spec) blast
  with run same start show ?thesis by auto
qed

definition example_pairs :: "pair list" where
  "example_pairs = [(''a'', ''request''), (''a'', ''rum_vitals''), (''a'', ''rum_errors''), (''b'', ''request'')]"

definition example_selector :: selector where
  "example_selector = projr (mk_selector example_pairs (Some 2) Map.empty)"

lemma example_selector: "mk_selector example_pairs (Some 2) Map.empty = Inr example_selector"
proof -
  have "is_ok (mk_selector example_pairs (Some 2) Map.empty)"
    by (simp add: mk_selector_def example_pairs_def ensure_def Let_def)
  then show ?thesis by (auto simp: example_selector_def is_ok_iff)
qed

theorem select_fills_capacity_witness:
  "\<exists>outs sel'. ticks 3 example_selector = Some (outs, sel') \<and>
    (\<exists>out sel''. select sel' = Some (out, sel'') \<and> distinct out \<and> set out \<subseteq> set example_pairs
      \<and> length out = min 2 (card (set example_pairs)))"
  using select_fills_capacity [OF example_selector, of 3] by simp

text \<open>
  C20. No pair starves: over as many consecutive ticks as its service has domains, every configured pair is
  dispatched, whatever the weights and from whatever tick on.
\<close>

theorem every_pair_is_dispatched:
  assumes "mk_selector pairs capacity weights = Inr sel" and "ticks m sel = Some (before, sel')"
    and "(s, d) \<in> set pairs" and "card {e. (s, e) \<in> set pairs} \<le> n"
  shows "\<exists>outs sel''. ticks n sel' = Some (outs, sel'') \<and> (\<exists>out \<in> set outs. (s, d) \<in> set out)"
proof -
  have start: "selector_inv sel" "fs_pairs sel = pairs" using mk_selector_inv [OF assms(1)] by simp_all
  from ticks_return [OF start(1), of m] assms(2) start(2)
  have inv: "selector_inv sel'" and pairs: "fs_pairs sel' = pairs" by simp_all
  from ticks_return [OF inv, of n] obtain outs sel'' where run: "ticks n sel' = Some (outs, sel'')" by blast
  have "rank sel' (s, d) < card {e. (s, e) \<in> set pairs}"
    using rank_bound [OF inv, of s d] assms(3) unfolding pairs by simp
  with assms(4) have "rank sel' (s, d) < n" by simp
  from ticks_serve [OF inv _ this run] assms(3) pairs run show ?thesis by auto
qed

theorem every_pair_is_dispatched_witness:
  "\<exists>outs sel''. ticks 3 example_selector = Some (outs, sel'') \<and> (\<exists>out \<in> set outs. (''a'', ''rum_errors'') \<in> set out)"
proof -
  have "{e. (''a'', e) \<in> set example_pairs} = {''request'', ''rum_vitals'', ''rum_errors''}"
    by (auto simp: example_pairs_def)
  then have "card {e. (''a'', e) \<in> set example_pairs} \<le> 3" by simp
  moreover have "(''a'', ''rum_errors'') \<in> set example_pairs" by (simp add: example_pairs_def)
  ultimately show ?thesis
    using every_pair_is_dispatched [OF example_selector, of 0 "[]" example_selector] by simp
qed

end
