(* ===== verification/Worker_Loop.thy ===== *)
theory Worker_Loop
  imports Page_Coordinator Fair_Selector
begin

text \<open>
  \<open>HighScaleWorkerLoop\<close> of \<open>worker.py\<close>: the ticks of a worker, which run the pages the fair selector
  chooses with the coordinators of their services. The deletion sweeps of a tick run in a thread of
  their own and are peers of the pages (\<open>Deletion\<close>); sleeping and the cleanup of telemetry tables have no
  effect on the modelled state. Shown: a page that raises stops neither its tick nor later ticks, so
  every configured pair has its page run within as many ticks as its service has domains.
\<close>

record worker_page_result =
  wr_service_id :: string
  wr_domain :: string
  wr_page :: "page_run option"
  wr_error :: "py_error option"

record ('a, 'b, 'c) worker_loop =
  wl_coordinators :: "(string \<times> ('a, 'b, 'c) page_coordinator) list"
  wl_domains :: "string list"

text \<open>The constructor: its checks, and the selector over every pair of a service and a domain.\<close>

definition worker_pairs :: "('a, 'b, 'c) worker_loop \<Rightarrow> pair list" where
  "worker_pairs wl = concat (map (\<lambda>s. map (\<lambda>d. (s, d)) (wl_domains wl)) (map fst (wl_coordinators wl)))"

definition mk_worker_loop ::
  "(string \<times> ('a, 'b, 'c) page_coordinator) list \<Rightarrow> string list \<Rightarrow> rat \<Rightarrow> int option \<Rightarrow> (string \<rightharpoonup> int)
     \<Rightarrow> (('a, 'b, 'c) worker_loop \<times> selector) result" where
  "mk_worker_loop coordinators domains interval_seconds pages_per_tick weights =
     ebind (ensure (coordinators \<noteq> []) (ValueError ''at least one high-scale service is required'')) (\<lambda>_.
     ebind (ensure (domains \<noteq> []) (ValueError ''at least one high-scale domain is required'')) (\<lambda>_.
     ebind (ensure (0 \<le> interval_seconds) (ValueError ''worker interval must be non-negative'')) (\<lambda>_.
     (let wl = \<lparr>wl_coordinators = coordinators, wl_domains = domains\<rparr>
      in ebind (mk_selector (worker_pairs wl) pages_per_tick weights) (\<lambda>sel. Inr (wl, sel))))))"

text \<open>One page of a tick: an exception becomes a result.\<close>

definition run_one_page ::
  "('a, 'b, 'c) worker_loop \<Rightarrow> pair \<Rightarrow> ('a, 'c) ingest_world \<Rightarrow> worker_page_result \<times> ('a, 'c) ingest_world" where
  "run_one_page wl p w =
     (case map_of (rev (wl_coordinators wl)) (fst p) of
        None \<Rightarrow> (\<lparr>wr_service_id = fst p, wr_domain = snd p, wr_page = None, wr_error = Some (KeyError (fst p))\<rparr>, w)
      | Some pc \<Rightarrow>
          (case run_page pc (fst p) (snd p) None None w of
             (Inr page, w') \<Rightarrow> (\<lparr>wr_service_id = fst p, wr_domain = snd p, wr_page = Some page, wr_error = None\<rparr>, w')
           | (Inl e, w') \<Rightarrow> (\<lparr>wr_service_id = fst p, wr_domain = snd p, wr_page = None, wr_error = Some e\<rparr>, w')))"

fun run_pages ::
  "('a, 'b, 'c) worker_loop \<Rightarrow> pair list \<Rightarrow> ('a, 'c) ingest_world \<Rightarrow> worker_page_result list \<times> ('a, 'c) ingest_world" where
  "run_pages wl [] w = ([], w)"
| "run_pages wl (p # ps) w =
     (let (r, w1) = run_one_page wl p w; (rs, w2) = run_pages wl ps w1 in (r # rs, w2))"

definition run_once ::
  "('a, 'b, 'c) worker_loop \<Rightarrow> selector \<times> ('a, 'c) ingest_world
     \<Rightarrow> (worker_page_result list \<times> selector \<times> ('a, 'c) ingest_world) option" where
  "run_once wl st =
     (case select (fst st) of
        None \<Rightarrow> None
      | Some (pairs, sel') \<Rightarrow> (let (rs, w') = run_pages wl pairs (snd st) in Some (rs, sel', w')))"

text \<open>\<open>run(max_iterations=n)\<close> makes at least one tick; the results of every tick are collected.\<close>

fun run_ticks ::
  "nat \<Rightarrow> ('a, 'b, 'c) worker_loop \<Rightarrow> selector \<times> ('a, 'c) ingest_world
     \<Rightarrow> (worker_page_result list list \<times> selector \<times> ('a, 'c) ingest_world) option" where
  "run_ticks 0 wl st = Some ([], st)"
| "run_ticks (Suc n) wl st =
     (case run_once wl st of
        None \<Rightarrow> None
      | Some (rs, st') \<Rightarrow> (case run_ticks n wl st' of None \<Rightarrow> None | Some (rss, st'') \<Rightarrow> Some (rs # rss, st'')))"

definition run_worker ::
  "int \<Rightarrow> ('a, 'b, 'c) worker_loop \<Rightarrow> selector \<times> ('a, 'c) ingest_world
     \<Rightarrow> (worker_page_result list list \<times> selector \<times> ('a, 'c) ingest_world) option result" where
  "run_worker max_iterations wl st =
     ebind (ensure (0 \<le> max_iterations) (ValueError ''max_iterations must be non-negative'')) (\<lambda>_.
     Inr (run_ticks (max 1 (nat max_iterations)) wl st))"

definition has_full_page :: "('a, 'b, 'c) worker_loop \<Rightarrow> worker_page_result list \<Rightarrow> bool" where
  "has_full_page wl results \<longleftrightarrow>
     list_ex (\<lambda>r. case (wr_page r, map_of (rev (wl_coordinators wl)) (wr_service_id r)) of
                    (Some page, Some pc) \<Rightarrow> 0 < pc_page_size pc \<and> pc_page_size pc \<le> pr_discovered page
                  | _ \<Rightarrow> False) results"

lemma run_one_page_pair: "run_one_page wl p w = (r, w') \<Longrightarrow> (wr_service_id r, wr_domain r) = p"
  by (auto simp: run_one_page_def split: option.splits prod.splits sum.splits)

lemma run_pages_pairs: "run_pages wl ps w = (rs, w') \<Longrightarrow> map (\<lambda>r. (wr_service_id r, wr_domain r)) rs = ps"
  by (induction ps arbitrary: w rs) (auto simp: Let_def dest: run_one_page_pair split: prod.splits)

text \<open>The ticks of a worker are the ticks of its selector.\<close>

lemma run_ticks_selector:
  assumes "ticks n sel = Some (outs, sel')"
  shows "\<exists>rss w'. run_ticks n wl (sel, w) = Some (rss, sel', w') \<and> map (map (\<lambda>r. (wr_service_id r, wr_domain r))) rss = outs"
  using assms
proof (induction n arbitrary: sel w outs)
  case (Suc n)
  from Suc.prems obtain out sel1 outs1 where one: "select sel = Some (out, sel1)" "ticks n sel1 = Some (outs1, sel')"
      "outs = out # outs1" by (auto split: option.splits)
  obtain rs w1 where pages: "run_pages wl out w = (rs, w1)" by (cases "run_pages wl out w")
  from Suc.IH [OF one(2), of w1] obtain rss w' where "run_ticks n wl (sel1, w1) = Some (rss, sel', w')"
      "map (map (\<lambda>r. (wr_service_id r, wr_domain r))) rss = outs1" by blast
  with one pages run_pages_pairs [OF pages] show ?case by (simp add: run_once_def)
qed simp

lemma run_ticks_back:
  assumes "run_ticks n wl (sel, w) = Some (rss, sel', w')"
  shows "\<exists>outs. ticks n sel = Some (outs, sel')"
  using assms
proof (induction n arbitrary: sel w rss)
  case (Suc n)
  from Suc.prems obtain out rs sel1 w1 rss1 where one: "select sel = Some (out, sel1)" "run_ticks n wl (sel1, w1) = Some (rss1, sel', w')"
    by (auto simp: run_once_def Let_def split: option.splits prod.splits)
  from Suc.IH [OF one(2)] one(1) show ?case by auto
qed simp

text \<open>
  Every pair is worked on. A worker that has been built, after any number of ticks and whatever
  the pages so far returned or raised, runs the page of every pair of a configured service and
  domain within the next ticks, as many as it has domains.
\<close>

theorem worker_runs_every_pair:
  assumes "mk_worker_loop cs ds interval ppt weights = Inr (wl, sel)" and "run_ticks m wl (sel, w) = Some (before, sel1, w1)"
    and "s \<in> fst ` set cs" and "d \<in> set ds" and "length ds \<le> n"
  shows "\<exists>rss st. run_ticks n wl (sel1, w1) = Some (rss, st)
    \<and> (\<exists>rs \<in> set rss. \<exists>r \<in> set rs. wr_service_id r = s \<and> wr_domain r = d)"
proof -
  from assms(1) have mk: "mk_selector (worker_pairs wl) ppt weights = Inr sel"
    and wl: "wl = \<lparr>wl_coordinators = cs, wl_domains = ds\<rparr>"
    by (auto simp: mk_worker_loop_def ebind_Inr_iff Let_def)
  have start: "selector_inv sel" "fs_pairs sel = worker_pairs wl" using mk_selector_inv [OF mk] by simp_all
  have pairs: "set (worker_pairs wl) = fst ` set cs \<times> set ds" by (auto simp: worker_pairs_def wl)
  from run_ticks_back [OF assms(2)] ticks_return [OF start(1), of m] start(2)
  have inv: "selector_inv sel1" "fs_pairs sel1 = worker_pairs wl" by auto
  from ticks_return [OF inv(1), of n] obtain outs sel2 where run: "ticks n sel1 = Some (outs, sel2)" by blast
  have "{e. (s, e) \<in> set (fs_pairs sel1)} \<subseteq> set ds" unfolding inv(2) pairs by auto
  then have "card {e. (s, e) \<in> set (fs_pairs sel1)} \<le> length ds"
    using card_mono [OF finite_set] card_length order_trans by blast
  moreover have mem: "(s, d) \<in> set (fs_pairs sel1)" unfolding inv(2) pairs using assms(3,4) by simp
  ultimately have "rank sel1 (s, d) < n" using rank_bound [OF inv(1) mem] assms(5) by simp
  from ticks_serve [OF inv(1) mem this run] obtain out where out: "out \<in> set outs" "(s, d) \<in> set out" by blast
  from run_ticks_selector [OF run] obtain rss w2 where rss: "run_ticks n wl (sel1, w1) = Some (rss, sel2, w2)"
    "map (map (\<lambda>r. (wr_service_id r, wr_domain r))) rss = outs" by blast
  with out show ?thesis by fastforce
qed

definition example_worker :: "(json objects, json, ch_tables) worker_loop" where
  "example_worker = \<lparr>wl_coordinators = [(''svc'', example_coordinator)], wl_domains = [''request'']\<rparr>"

lemma example_worker_built:
  "\<exists>sel. mk_worker_loop [(''svc'', example_coordinator)] [''request''] 5 None Map.empty = Inr (example_worker, sel)"
  by (simp add: mk_worker_loop_def mk_selector_def worker_pairs_def example_worker_def ensure_def Let_def)

theorem worker_runs_every_pair_witness:
  "\<exists>sel rss st. run_ticks 1 example_worker (sel, example_page_start) = Some (rss, st)
     \<and> (\<exists>rs \<in> set rss. \<exists>r \<in> set rs. wr_service_id r = ''svc'' \<and> wr_domain r = ''request'')"
proof -
  from example_worker_built obtain sel
    where built: "mk_worker_loop [(''svc'', example_coordinator)] [''request''] 5 None Map.empty = Inr (example_worker, sel)" ..
  have "run_ticks 0 example_worker (sel, example_page_start) = Some ([], sel, example_page_start)" by simp
  from worker_runs_every_pair [OF built this, of "''svc''" "''request''" 1] show ?thesis by auto
qed

end
