(* ===== verification/Keyset_Cursor.thy ===== *)
theory Keyset_Cursor
  imports Base64 Json_Text
begin

text \<open>
  Paging tokens: \<open>KeysetCursor\<close> of \<open>_common.py\<close>. A token is the Base64 of a JSON payload, a dot, and the
  Base64 of the payload's HMAC under the service's secret. HMAC, the ISO format of instants and UTF-8
  decoding are parameters. Shown: a token decodes to the cursor it was made from, whatever decodes
  carries a valid signature, and a signature admits one cursor only.
\<close>

record cursor_env =
  ce_hmac :: "string \<Rightarrow> string \<Rightarrow> string"
  ce_isoformat :: "timestamp \<Rightarrow> string"
  ce_fromisoformat :: "string \<Rightarrow> timestamp result"
  ce_utf8 :: "string \<Rightarrow> string result"

record keyset_cursor =
  kc_timestamp :: timestamp
  kc_event_id :: string
  kc_service_id :: string
  kc_domain :: string

definition cursor_payload :: "cursor_env \<Rightarrow> keyset_cursor \<Rightarrow> string" where
  "cursor_payload env c =
     json_dumps (\<lambda>_. []) (JObj [(''timestamp'', JStr (ce_isoformat env (kc_timestamp c))), (''event_id'', JStr (kc_event_id c)),
       (''service_id'', JStr (kc_service_id c)), (''domain'', JStr (kc_domain c))])"

definition cursor_encode :: "cursor_env \<Rightarrow> string \<Rightarrow> keyset_cursor \<Rightarrow> string result" where
  "cursor_encode env secret c =
     (if secret = [] then Inl (ValueError ''cursor signing secret is required'')
      else let payload = cursor_payload env c; signature = ce_hmac env secret payload
           in Inr (b64 payload @ ''.'' @ b64 signature))"

text \<open>\<open>token.split(".", 1)\<close> unpacked into two names.\<close>

definition split_token :: "string \<Rightarrow> (string \<times> string) result" where
  "split_token token =
     (case dropWhile (\<lambda>c. c \<noteq> CHR ''.'') token of
        [] \<Rightarrow> Inl (ValueError ''not enough values to unpack'')
      | _ # rest \<Rightarrow> Inr (takeWhile (\<lambda>c. c \<noteq> CHR ''.'') token, rest))"

text \<open>\<open>raw[k]\<close> on the parsed payload, and text that must not be empty.\<close>

definition raw_item :: "json \<Rightarrow> string \<Rightarrow> json result" where
  "raw_item raw k = (case raw of JObj r \<Rightarrow> json_item r k | _ \<Rightarrow> Inl (TypeError ''indices''))"

definition raw_text :: "json \<Rightarrow> string \<Rightarrow> string result" where
  "raw_text raw k =
     ebind (raw_item raw k) (\<lambda>v.
     case v of JStr (c # s) \<Rightarrow> Inr (c # s) | _ \<Rightarrow> Inl (ValueError ''cursor fields are invalid''))"

definition read_payload :: "cursor_env \<Rightarrow> string \<Rightarrow> keyset_cursor result" where
  "read_payload env payload =
     ebind (ce_utf8 env payload) (\<lambda>decoded.
     ebind (json_loads decoded) (\<lambda>raw.
     ebind (raw_item raw ''timestamp'') (\<lambda>t.
     ebind (case t of JStr s \<Rightarrow> ce_fromisoformat env s | _ \<Rightarrow> Inl (TypeError ''fromisoformat: argument must be str'')) (\<lambda>stamp.
     ebind (raw_text raw ''event_id'') (\<lambda>e.
     ebind (raw_text raw ''service_id'') (\<lambda>s.
     ebind (raw_text raw ''domain'') (\<lambda>d.
     Inr \<lparr>kc_timestamp = stamp, kc_event_id = e, kc_service_id = s, kc_domain = d\<rparr>)))))))"

fun invalid_cursor :: "'a result \<Rightarrow> 'a result" where
  "invalid_cursor (Inl (ValueError _)) = Inl (ValueError ''invalid cursor'')"
| "invalid_cursor (Inl (KeyError _)) = Inl (ValueError ''invalid cursor'')"
| "invalid_cursor (Inl (TypeError _)) = Inl (ValueError ''invalid cursor'')"
| "invalid_cursor r = r"

definition cursor_decode :: "cursor_env \<Rightarrow> string \<Rightarrow> string \<Rightarrow> keyset_cursor result" where
  "cursor_decode env secret token =
     (if secret = [] then Inl (ValueError ''cursor signing secret is required'')
      else invalid_cursor
        (ebind (split_token token) (\<lambda>(payload_token, signature_token).
         ebind (unb64 payload_token) (\<lambda>payload.
         ebind (unb64 signature_token) (\<lambda>signature.
         ebind (ensure (signature = ce_hmac env secret payload) (ValueError ''cursor signature mismatch'')) (\<lambda>_.
         read_payload env payload))))))"

subsection \<open>Lemmas\<close>

lemma split_token_joined: "CHR ''.'' \<notin> set p \<Longrightarrow> split_token (p @ ''.'' @ s) = Inr (p, s)"
proof -
  assume "CHR ''.'' \<notin> set p"
  then have "dropWhile (\<lambda>c. c \<noteq> CHR ''.'') (p @ ''.'' @ s) = ''.'' @ s \<and> takeWhile (\<lambda>c. c \<noteq> CHR ''.'') (p @ ''.'' @ s) = p"
    by (induction p) auto
  then show ?thesis by (simp add: split_token_def)
qed

lemma invalid_cursor_Inr [simp]: "invalid_cursor r = Inr c \<longleftrightarrow> r = Inr c"
  by (cases r rule: invalid_cursor.cases) simp_all

definition ascii :: "string \<Rightarrow> bool" where
  "ascii s \<longleftrightarrow> list_all (\<lambda>c. (of_char c :: nat) < 128) s"

lemma ascii_append [simp]: "ascii (s @ t) \<longleftrightarrow> ascii s \<and> ascii t" "ascii []" "ascii (c # s) \<longleftrightarrow> (of_char c :: nat) < 128 \<and> ascii s"
  by (simp_all add: ascii_def)

lemma ascii_hex_digit: "d < 16 \<Longrightarrow> (of_char (hex_digit d) :: nat) < 128"
  by (simp add: hex_digit_def)

lemma ascii_escape: "ascii (escape_char c)"
proof -
  have "(of_char c :: nat) < 256" by simp
  then have "(of_char c :: nat) div 16 < 16" by linarith
  then show ?thesis by (simp add: escape_char_def u_escape_def Let_def ascii_hex_digit)
qed

lemma ascii_json_string: "ascii (json_string s)"
  by (induction s) (simp_all add: json_string_def ascii_escape)

definition sorted_fields :: "cursor_env \<Rightarrow> keyset_cursor \<Rightarrow> row" where
  "sorted_fields env c = [(''domain'', JStr (kc_domain c)), (''event_id'', JStr (kc_event_id c)),
     (''service_id'', JStr (kc_service_id c)), (''timestamp'', JStr (ce_isoformat env (kc_timestamp c)))]"

lemma cursor_payload_eq: "cursor_payload env c = json_dumps (\<lambda>_. []) (JObj (sorted_fields env c))"
  by (simp add: cursor_payload_def sorted_fields_def)

lemma sorted_fields_canonical: "canonical_json (JObj (sorted_fields env c))"
  by (simp add: sorted_fields_def)

lemma ascii_payload: "ascii (cursor_payload env c)"
  by (simp add: cursor_payload_eq dumps_obj_canonical sorted_fields_def member_text_def ascii_json_string)

lemma raw_text_obj [simp]:
  "raw_text (JObj r) k = (case map_of r k of None \<Rightarrow> Inl (KeyError k) | Some (JStr (c # s)) \<Rightarrow> Inr (c # s)
     | _ \<Rightarrow> Inl (ValueError ''cursor fields are invalid''))"
  by (auto simp: raw_text_def raw_item_def json_item_def split: option.splits)

lemma read_payload_written:
  assumes "\<And>s. ascii s \<Longrightarrow> ce_utf8 env s = Inr s"
    and "ce_fromisoformat env (ce_isoformat env (kc_timestamp c)) = Inr (kc_timestamp c)"
    and "kc_event_id c \<noteq> []" and "kc_service_id c \<noteq> []" and "kc_domain c \<noteq> []"
  shows "read_payload env (cursor_payload env c) = Inr c"
proof -
  have "json_loads (cursor_payload env c) = Inr (JObj (sorted_fields env c))"
    unfolding cursor_payload_eq by (rule json_text.loads_dumps [OF sorted_fields_canonical])
  with assms ascii_payload show ?thesis
    by (auto simp: read_payload_def raw_item_def json_item_def sorted_fields_def split: list.splits)
qed

lemma raw_text_nonempty: "raw_text raw k = Inr v \<Longrightarrow> v \<noteq> []"
  unfolding raw_text_def ebind_Inr_iff by (elim exE conjE, rename_tac x, case_tac x) (auto split: list.splits)

lemma read_payload_fields: "read_payload env p = Inr c \<Longrightarrow> kc_event_id c \<noteq> [] \<and> kc_service_id c \<noteq> [] \<and> kc_domain c \<noteq> []"
  unfolding read_payload_def ebind_Inr_iff by (elim exE conjE) (auto dest!: raw_text_nonempty)

definition token_payload :: "string \<Rightarrow> string result" where
  "token_payload t = ebind (split_token t) (\<lambda>(p, _). unb64 p)"

definition token_signature :: "string \<Rightarrow> string result" where
  "token_signature t = ebind (split_token t) (\<lambda>(_, s). unb64 s)"

lemma cursor_decode_Inr:
  assumes "cursor_decode env secret token = Inr c"
  obtains payload where "token_payload token = Inr payload" and "token_signature token = Inr (ce_hmac env secret payload)"
    and "read_payload env payload = Inr c"
  using assms
  by (auto simp: cursor_decode_def token_payload_def token_signature_def ebind_Inr_iff split: if_splits prod.splits)

lemma cursor_decode_authentic:
  assumes "cursor_decode env secret t = Inr d"
  shows "(\<exists>payload. token_payload t = Inr payload \<and> token_signature t = Inr (ce_hmac env secret payload))
    \<and> kc_event_id d \<noteq> [] \<and> kc_service_id d \<noteq> [] \<and> kc_domain d \<noteq> []"
  using assms by (rule cursor_decode_Inr) (auto dest: read_payload_fields)

lemma same_signature_same_cursor:
  assumes "inj (ce_hmac env secret)" and "cursor_decode env secret t = Inr d" and "cursor_decode env secret u = Inr e"
    and "token_signature t = token_signature u"
  shows "d = e"
proof -
  from assms(2) obtain p where p: "token_signature t = Inr (ce_hmac env secret p)" "read_payload env p = Inr d"
    by (rule cursor_decode_Inr)
  from assms(3) obtain q where q: "token_signature u = Inr (ce_hmac env secret q)" "read_payload env q = Inr e"
    by (rule cursor_decode_Inr)
  from assms(1,4) p(1) q(1) have "p = q" by (simp add: inj_eq)
  with p(2) q(2) show ?thesis by simp
qed

lemma cursor_decode_encode:
  assumes "secret \<noteq> []" and "\<And>s. ascii s \<Longrightarrow> ce_utf8 env s = Inr s"
    and "ce_fromisoformat env (ce_isoformat env (kc_timestamp c)) = Inr (kc_timestamp c)"
    and "kc_event_id c \<noteq> []" and "kc_service_id c \<noteq> []" and "kc_domain c \<noteq> []"
  obtains token where "cursor_encode env secret c = Inr token" and "token \<noteq> []" and "cursor_decode env secret token = Inr c"
proof -
  let ?token = "b64 (cursor_payload env c) @ ''.'' @ b64 (ce_hmac env secret (cursor_payload env c))"
  have "read_payload env (cursor_payload env c) = Inr c" using assms by (intro read_payload_written)
  with assms(1) have "cursor_decode env secret ?token = Inr c"
    using split_token_joined [OF b64_no_dot, of "cursor_payload env c" "b64 (ce_hmac env secret (cursor_payload env c))"]
    by (simp add: cursor_decode_def)
  with assms(1) show thesis by (intro that [of ?token]) (simp_all add: cursor_encode_def Let_def)
qed

text \<open>
  C22. Paging tokens are faithful and authentic. A token made with a secret decodes under it to the
  cursor it was made from. Every token that decodes consists of a payload and that payload's HMAC
  under the secret, so two tokens whose decoded signatures agree give the same cursor when
  the HMAC does not collide; and a decoded cursor names an event, a service and a domain.
\<close>

theorem cursor_roundtrip_authentic:
  assumes "secret \<noteq> []" and "\<And>s. ascii s \<Longrightarrow> ce_utf8 env s = Inr s"
    and "ce_fromisoformat env (ce_isoformat env (kc_timestamp c)) = Inr (kc_timestamp c)"
    and "kc_event_id c \<noteq> []" and "kc_service_id c \<noteq> []" and "kc_domain c \<noteq> []"
  shows "ebind (cursor_encode env secret c) (cursor_decode env secret) = Inr c
    \<and> (\<forall>t d. cursor_decode env secret t = Inr d \<longrightarrow>
        (\<exists>payload. token_payload t = Inr payload \<and> token_signature t = Inr (ce_hmac env secret payload))
        \<and> kc_event_id d \<noteq> [] \<and> kc_service_id d \<noteq> [] \<and> kc_domain d \<noteq> [])
    \<and> (inj (ce_hmac env secret) \<longrightarrow> (\<forall>t u d e. cursor_decode env secret t = Inr d \<longrightarrow> cursor_decode env secret u = Inr e \<longrightarrow>
        token_signature t = token_signature u \<longrightarrow> d = e))"
proof -
  obtain token where "cursor_encode env secret c = Inr token" "cursor_decode env secret token = Inr c"
    using cursor_decode_encode [OF assms] by blast
  then have "ebind (cursor_encode env secret c) (cursor_decode env secret) = Inr c" by simp
  then show ?thesis
    using cursor_decode_authentic same_signature_same_cursor by blast
qed

definition example_cursor_env :: cursor_env where
  "example_cursor_env = \<lparr>ce_hmac = (\<lambda>k p. k @ p), ce_isoformat = (\<lambda>_. ''t''), ce_fromisoformat = (\<lambda>_. Inr 9), ce_utf8 = Inr\<rparr>"

theorem cursor_roundtrip_authentic_witness:
  "ebind (cursor_encode example_cursor_env ''k'' \<lparr>kc_timestamp = 9, kc_event_id = ''e'', kc_service_id = ''s'', kc_domain = ''request''\<rparr>)
     (cursor_decode example_cursor_env ''k'')
   = Inr \<lparr>kc_timestamp = 9, kc_event_id = ''e'', kc_service_id = ''s'', kc_domain = ''request''\<rparr>"
  by (rule cursor_roundtrip_authentic [THEN conjunct1]) (simp_all add: example_cursor_env_def)

end
