(* ===== verification/Fact_Query.thy ===== *)
theory Fact_Query
  imports Keyset_Cursor Manifests
begin

text \<open>
  Paged reads of fact tables: \<open>query_service.py\<close> from \<open>QueryResponseMetadata\<close> to \<open>_timestamp\<close>. The SQL text and
  the parameters of a read are built as the code builds them; the ClickHouse client is a parameter, a function from
  text and parameters to JSON rows. Telemetry is left out. Times without an offset are read as UTC, the zone the
  services run in. Shown: reading on from page to page returns every selected row once, in order, and ends.
\<close>

subsection \<open>Requests and responses\<close>

definition MAX_PAGE_SIZE :: int where
  "MAX_PAGE_SIZE = 500"

datatype query_status = Complete | Partial | QueuedQuery | RunningQuery | FailedQuery

record query_response_metadata =
  qm_status :: query_status
  qm_exact :: bool
  qm_coverage :: rat
  qm_freshness_lag :: duration
  qm_watermark :: serving_watermark
  qm_approximation_error :: "rat option"
  qm_error :: "string option"

definition validate_metadata :: "query_response_metadata \<Rightarrow> unit result" where
  "validate_metadata m =
     ebind (ensure (0 \<le> qm_coverage m \<and> qm_coverage m \<le> 1) (ValueError ''query coverage must be between 0 and 1'')) (\<lambda>_.
     ebind (ensure (0 \<le> qm_freshness_lag m) (ValueError ''query freshness lag must be non-negative'')) (\<lambda>_.
     ebind (ensure (\<not> (qm_exact m \<and> qm_approximation_error m \<noteq> None)) (ValueError ''exact results cannot report approximation error'')) (\<lambda>_.
     ebind (ensure (\<not> (\<not> qm_exact m \<and> qm_approximation_error m = None)) (ValueError ''approximate results require approximation error'')) (\<lambda>_.
     ebind (ensure (\<not> (qm_status m = FailedQuery \<and> qm_error m \<in> {None, Some []})) (ValueError ''failed queries require an error'')) (\<lambda>_.
     ebind (ensure (\<not> (qm_status m \<noteq> FailedQuery \<and> qm_error m \<noteq> None)) (ValueError ''only failed queries may report an error'')) (\<lambda>_.
     validate_watermark (qm_watermark m)))))))"

record request_fact_page =
  fp_rows :: "row list"
  fp_next_cursor :: "string option"
  fp_metadata :: query_response_metadata

datatype ch_param = PText string | PTime timestamp | PInt int

type_synonym query_client = "string \<Rightarrow> (string \<times> ch_param) list \<Rightarrow> row list result"

definition RUM_TABLES :: "(string \<times> string \<times> string) list" where
  "RUM_TABLES =
     [(''rum_vitals'', ''rum_vitals_facts'',
       ''client_id, request_event_id, metric_name, metric_value, metric_rating, pathname, country''),
      (''rum_errors'', ''rum_error_facts'', ''client_id, request_event_id, error_message, error_file, pathname, country'')]"

text \<open>The arguments that select the rows of a read; blank filters are not applied.\<close>

record fact_scope =
  fq_service_id :: string
  fq_domain :: string
  fq_table :: string
  fq_columns :: string
  fq_event_column :: string
  fq_start :: timestamp
  fq_end :: timestamp
  fq_limit :: int
  fq_status :: "string option"
  fq_domain_filter :: "string option"
  fq_pop :: "string option"
  fq_country :: "string option"
  fq_batch_id :: "string option"

definition filter_text :: "string option \<Rightarrow> string option" where
  "filter_text v = (case v of None \<Rightarrow> None | Some s \<Rightarrow> if py_strip s = [] then None else Some (py_strip s))"

definition filter_part :: "string option \<Rightarrow> (string \<Rightarrow> (string \<times> ch_param) list) \<Rightarrow> string
     \<Rightarrow> string \<times> (string \<times> ch_param) list" where
  "filter_part v binds clause = (case filter_text v of None \<Rightarrow> ([], []) | Some s \<Rightarrow> (clause, binds s))"

definition filter_parts :: "fact_scope \<Rightarrow> (string \<times> (string \<times> ch_param) list) list" where
  "filter_parts q =
     [filter_part (fq_country q) (\<lambda>s. [(''filter_country'', PText s)]) '' AND country = {filter_country:String}'',
      filter_part (fq_status q) (\<lambda>s. [(''filter_status'', PText s)])
        ('' AND custom_fields['' @ [CHR 0x27] @ ''status'' @ [CHR 0x27] @ ''] = {filter_status:String}''),
      filter_part (fq_pop q) (\<lambda>s. [(''filter_pop'', PText s)])
        ('' AND custom_fields['' @ [CHR 0x27] @ ''pop'' @ [CHR 0x27] @ ''] = {filter_pop:String}''),
      filter_part (fq_domain_filter q) (\<lambda>s. [(''filter_domain'', PText s), (''filter_domain_like'', PText (''%'' @ s @ ''%''))])
        ('' AND (custom_fields['' @ [CHR 0x27] @ ''host'' @ [CHR 0x27] @ ''] = {filter_domain:String}''
         @ '' OR url ILIKE {filter_domain_like:String})''),
      filter_part (fq_batch_id q) (\<lambda>s. [(''filter_batch_id'', PText s)]) '' AND toString(batch_id) = {filter_batch_id:String}'']"

definition cursor_clause :: "string \<Rightarrow> string" where
  "cursor_clause event_column =
     '' AND (event_timestamp > {cursor_timestamp:DateTime64(3)} OR (event_timestamp = {cursor_timestamp:DateTime64(3)} AND ''
     @ event_column @ '' > {cursor_event_id:UUID}))''"

definition facts_sql :: "fact_scope \<Rightarrow> keyset_cursor option \<Rightarrow> string" where
  "facts_sql q decoded =
     ''SELECT '' @ fq_event_column q @ '' AS event_id, event_timestamp AS timestamp, service_id, '' @ fq_columns q
     @ '' FROM '' @ fq_table q
     @ '' WHERE service_id={service_id:String} AND event_timestamp >= {start:DateTime64(3)}''
     @ '' AND event_timestamp < {end:DateTime64(3)} AND publication_state = '' @ [CHR 0x27] @ ''visible'' @ [CHR 0x27]
     @ '' AND batch_id IN (SELECT batch_id FROM high_scale_batch_publications FINAL''
     @ '' WHERE service_id={service_id:String} AND domain={domain:String}''
     @ '' AND publication_state = '' @ [CHR 0x27] @ ''visible'' @ [CHR 0x27] @ '')''
     @ concat (map fst (filter_parts q))
     @ (case decoded of None \<Rightarrow> [] | Some _ \<Rightarrow> cursor_clause (fq_event_column q))
     @ '' ORDER BY event_timestamp ASC, '' @ fq_event_column q @ '' ASC LIMIT {limit:UInt32}''"

definition facts_params :: "fact_scope \<Rightarrow> keyset_cursor option \<Rightarrow> (string \<times> ch_param) list" where
  "facts_params q decoded =
     [(''service_id'', PText (fq_service_id q)), (''domain'', PText (fq_domain q)), (''start'', PTime (fq_start q)),
      (''end'', PTime (fq_end q)), (''limit'', PInt (fq_limit q + 1))]
     @ concat (map snd (filter_parts q))
     @ (case decoded of
          None \<Rightarrow> []
        | Some c \<Rightarrow> [(''cursor_timestamp'', PTime (kc_timestamp c)), (''cursor_event_id'', PText (kc_event_id c))])"

subsection \<open>One page\<close>

definition row_time :: "cursor_env \<Rightarrow> row \<Rightarrow> timestamp result" where
  "row_time env r =
     (case row_get r ''timestamp'' of
        JStr s \<Rightarrow> ce_fromisoformat env s
      | _ \<Rightarrow> Inl (ValueError ''ClickHouse query row is missing timestamp''))"

text \<open>\<open>str(row["event_id"])\<close>; the column is selected as text of a UUID.\<close>

definition event_text :: "row \<Rightarrow> string result" where
  "event_text r = ebind (json_item r ''event_id'') (\<lambda>v. case v of JStr s \<Rightarrow> Inr s | _ \<Rightarrow> Inl (OtherError ''event_id''))"

definition decode_cursor :: "cursor_env \<Rightarrow> string \<Rightarrow> fact_scope \<Rightarrow> string option \<Rightarrow> keyset_cursor option result" where
  "decode_cursor env secret q cursor =
     (case cursor of
        None \<Rightarrow> Inr None
      | Some [] \<Rightarrow> Inr None
      | Some token \<Rightarrow>
          ebind (cursor_decode env secret token) (\<lambda>c.
          ebind (ensure (kc_service_id c = fq_service_id q \<and> kc_domain c = fq_domain q)
                   (ValueError ''cursor does not belong to this service and domain'')) (\<lambda>_.
          Inr (Some c))))"

definition next_token :: "cursor_env \<Rightarrow> string \<Rightarrow> fact_scope \<Rightarrow> row list \<Rightarrow> string option result" where
  "next_token env secret q rows =
     (if length rows \<le> nat (fq_limit q) then Inr None
      else let r = last (take (nat (fq_limit q)) rows)
           in ebind (row_time env r) (\<lambda>t.
              ebind (event_text r) (\<lambda>e.
              ebind (cursor_encode env secret \<lparr>kc_timestamp = t, kc_event_id = e, kc_service_id = fq_service_id q,
                       kc_domain = fq_domain q\<rparr>) (\<lambda>token.
              Inr (Some token)))))"

definition page_metadata :: "serving_watermark \<Rightarrow> timestamp \<Rightarrow> query_response_metadata" where
  "page_metadata watermark now =
     \<lparr>qm_status = Complete, qm_exact = True, qm_coverage = 1,
      qm_freshness_lag = (case sw_coverage_end watermark of None \<Rightarrow> 0 | Some e \<Rightarrow> max 0 (now - e)),
      qm_watermark = watermark, qm_approximation_error = None, qm_error = None\<rparr>"

definition query_facts ::
  "cursor_env \<Rightarrow> query_client \<Rightarrow> string \<Rightarrow> serving_watermark \<Rightarrow> timestamp \<Rightarrow> fact_scope \<Rightarrow> string option
     \<Rightarrow> request_fact_page result" where
  "query_facts env client secret watermark now q cursor =
     ebind (ensure (fq_service_id q \<noteq> []) (ValueError ''service_id is required'')) (\<lambda>_.
     ebind (ensure (sw_service_id watermark = fq_service_id q \<and> sw_domain watermark = fq_domain q)
              (ValueError ''watermark does not belong to this service and domain'')) (\<lambda>_.
     ebind (ensure (secret \<noteq> []) (ValueError ''cursor signing secret is required'')) (\<lambda>_.
     ebind (ensure (0 < fq_limit q \<and> fq_limit q \<le> MAX_PAGE_SIZE) (ValueError ''limit must be between 1 and 500'')) (\<lambda>_.
     ebind (ensure (fq_start q < fq_end q) (ValueError ''query end must follow query start'')) (\<lambda>_.
     ebind (decode_cursor env secret q cursor) (\<lambda>decoded.
     ebind (client (facts_sql q decoded) (facts_params q decoded)) (\<lambda>rows.
     ebind (next_token env secret q rows) (\<lambda>next_cursor.
     ebind (validate_metadata (page_metadata watermark now)) (\<lambda>_.
     Inr \<lparr>fp_rows = take (nat (fq_limit q)) rows, fp_next_cursor = next_cursor,
          fp_metadata = page_metadata watermark now\<rparr>)))))))))"

text \<open>The three entry points; the first repeats the checks before it hands over.\<close>

definition query_request_facts ::
  "cursor_env \<Rightarrow> query_client \<Rightarrow> string \<Rightarrow> serving_watermark \<Rightarrow> timestamp \<Rightarrow> fact_scope \<Rightarrow> string option
     \<Rightarrow> request_fact_page result" where
  "query_request_facts env client secret watermark now args cursor =
     (let q = args\<lparr>fq_domain := ''request'', fq_table := ''request_facts'', fq_event_column := ''event_id'',
            fq_columns := ''source_object_key, source_object_version, line_ordinal, country, client_ip, url, custom_fields, cmcd''\<rparr>
      in ebind (ensure (fq_service_id q \<noteq> []) (ValueError ''service_id is required'')) (\<lambda>_.
         ebind (ensure (secret \<noteq> []) (ValueError ''cursor signing secret is required'')) (\<lambda>_.
         ebind (ensure (0 < fq_limit q \<and> fq_limit q \<le> MAX_PAGE_SIZE) (ValueError ''limit must be between 1 and 500'')) (\<lambda>_.
         ebind (ensure (fq_start q < fq_end q) (ValueError ''query end must follow query start'')) (\<lambda>_.
         ebind (decode_cursor env secret q cursor) (\<lambda>_.
         query_facts env client secret watermark now q cursor))))))"

definition no_filters :: "fact_scope \<Rightarrow> fact_scope" where
  "no_filters q = q\<lparr>fq_status := None, fq_domain_filter := None, fq_pop := None, fq_country := None, fq_batch_id := None\<rparr>"

definition query_rum_facts ::
  "cursor_env \<Rightarrow> query_client \<Rightarrow> string \<Rightarrow> serving_watermark \<Rightarrow> timestamp \<Rightarrow> fact_scope \<Rightarrow> string option
     \<Rightarrow> request_fact_page result" where
  "query_rum_facts env client secret watermark now args cursor =
     (case map_of RUM_TABLES (fq_domain args) of
        None \<Rightarrow> Inl (ValueError ''unsupported RUM domain'')
      | Some (table, columns) \<Rightarrow>
          query_facts env client secret watermark now
            ((no_filters args)\<lparr>fq_table := table, fq_columns := columns, fq_event_column := ''event_id''\<rparr>) cursor)"

definition query_cmcd_facts ::
  "cursor_env \<Rightarrow> query_client \<Rightarrow> string \<Rightarrow> serving_watermark \<Rightarrow> timestamp \<Rightarrow> fact_scope \<Rightarrow> string option
     \<Rightarrow> request_fact_page result" where
  "query_cmcd_facts env client secret watermark now args cursor =
     query_facts env client secret watermark now
       ((no_filters args)\<lparr>fq_domain := ''cmcd'', fq_table := ''cmcd_projection_facts'',
          fq_columns := ''request_event_id, cmcd'', fq_event_column := ''projection_key''\<rparr>) cursor"

subsection \<open>Reading on\<close>

text \<open>A reader that follows the cursors, for at most \<open>n\<close> pages.\<close>

fun read_pages ::
  "nat \<Rightarrow> cursor_env \<Rightarrow> query_client \<Rightarrow> string \<Rightarrow> serving_watermark \<Rightarrow> timestamp \<Rightarrow> fact_scope \<Rightarrow> string option
     \<Rightarrow> row list list result" where
  "read_pages 0 env client secret watermark now q cursor = Inl (OtherError ''more pages'')"
| "read_pages (Suc n) env client secret watermark now q cursor =
     ebind (query_facts env client secret watermark now q cursor) (\<lambda>page.
     case fp_next_cursor page of
       None \<Rightarrow> Inr [fp_rows page]
     | Some c \<Rightarrow> ebind (read_pages n env client secret watermark now q (Some c)) (\<lambda>rest. Inr (fp_rows page # rest)))"

text \<open>
  What the server promises for a scope whose visible rows do not change between the pages. The
  selected rows have distinct keys; a read returns the first rows in the order of their keys, with
  a cursor the first ones behind it. The order of the event column is an arbitrary one (\<open>rank\<close>): that of UUIDs.
\<close>

definition row_key :: "cursor_env \<Rightarrow> (string \<Rightarrow> nat) \<Rightarrow> row \<Rightarrow> timestamp \<times> nat" where
  "row_key env rank r = (projr (row_time env r), rank (projr (event_text r)))"

definition keyed_row :: "cursor_env \<Rightarrow> row \<Rightarrow> bool" where
  "keyed_row env r \<longleftrightarrow> is_ok (row_time env r) \<and> is_ok (event_text r) \<and> projr (event_text r) \<noteq> []
     \<and> ce_fromisoformat env (ce_isoformat env (projr (row_time env r))) = row_time env r"

definition row_cursor :: "cursor_env \<Rightarrow> fact_scope \<Rightarrow> row \<Rightarrow> keyset_cursor" where
  "row_cursor env q r = \<lparr>kc_timestamp = projr (row_time env r), kc_event_id = projr (event_text r),
     kc_service_id = fq_service_id q, kc_domain = fq_domain q\<rparr>"

definition serves_scope :: "cursor_env \<Rightarrow> (string \<Rightarrow> nat) \<Rightarrow> query_client \<Rightarrow> fact_scope \<Rightarrow> row list \<Rightarrow> bool" where
  "serves_scope env rank client q ordered \<longleftrightarrow>
     sorted_wrt (<) (map (row_key env rank) ordered) \<and> list_all (keyed_row env) ordered
     \<and> client (facts_sql q None) (facts_params q None) = Inr (take (Suc (nat (fq_limit q))) ordered)
     \<and> (\<forall>r \<in> set ordered. client (facts_sql q (Some (row_cursor env q r))) (facts_params q (Some (row_cursor env q r))) =
          Inr (take (Suc (nat (fq_limit q))) (filter (\<lambda>x. row_key env rank r < row_key env rank x) ordered)))"

lemma filter_after:
  assumes "sorted_wrt (<) (map (f :: 'a \<Rightarrow> 'k :: linorder) (xs @ x # ys))"
  shows "filter (\<lambda>y. f x < f y) (xs @ x # ys) = ys"
proof -
  from assms have "\<forall>y \<in> set xs. f y < f x" "\<forall>y \<in> set ys. f x < f y" by (auto simp: sorted_wrt_append)
  then have "filter (\<lambda>y. f x < f y) xs = []" "filter (\<lambda>y. f x < f y) ys = ys"
    by (auto simp: filter_empty_conv filter_id_conv)
  then show ?thesis by simp
qed

text \<open>The checks of a read, for a scope and watermark that pass them.\<close>

definition scope_ok :: "string \<Rightarrow> serving_watermark \<Rightarrow> fact_scope \<Rightarrow> bool" where
  "scope_ok secret watermark q \<longleftrightarrow> fq_service_id q \<noteq> [] \<and> fq_domain q \<noteq> [] \<and> sw_service_id watermark = fq_service_id q
     \<and> sw_domain watermark = fq_domain q \<and> secret \<noteq> [] \<and> 0 < fq_limit q \<and> fq_limit q \<le> MAX_PAGE_SIZE
     \<and> fq_start q < fq_end q \<and> validate_watermark watermark = Inr ()"

lemma metadata_ok: "validate_watermark watermark = Inr () \<Longrightarrow> validate_metadata (page_metadata watermark now) = Inr ()"
  by (auto simp: validate_metadata_def page_metadata_def split: option.splits)

lemma query_facts_ok:
  assumes "scope_ok secret watermark q" and "decode_cursor env secret q cursor = Inr decoded"
    and "client (facts_sql q decoded) (facts_params q decoded) = Inr rows" and "next_token env secret q rows = Inr tok"
  shows "query_facts env client secret watermark now q cursor =
    Inr \<lparr>fp_rows = take (nat (fq_limit q)) rows, fp_next_cursor = tok, fp_metadata = page_metadata watermark now\<rparr>"
  using assms by (simp add: query_facts_def scope_ok_def metadata_ok)

lemma keyed_row_cursor:
  assumes "keyed_row env r"
  obtains t e where "row_time env r = Inr t" and "event_text r = Inr e" and "e \<noteq> []"
    and "ce_fromisoformat env (ce_isoformat env t) = Inr t"
    and "row_cursor env q r = \<lparr>kc_timestamp = t, kc_event_id = e, kc_service_id = fq_service_id q, kc_domain = fq_domain q\<rparr>"
  using assms by (auto simp: keyed_row_def is_ok_iff row_cursor_def)

lemma next_token_more:
  assumes "scope_ok secret watermark q" and "\<And>s. ascii s \<Longrightarrow> ce_utf8 env s = Inr s" and "keyed_row env r"
    and "nat (fq_limit q) < length rows" and "r = last (take (nat (fq_limit q)) rows)"
  obtains token where "next_token env secret q rows = Inr (Some token)"
    and "decode_cursor env secret q (Some token) = Inr (Some (row_cursor env q r))"
proof -
  obtain t e where key: "row_time env r = Inr t" "event_text r = Inr e" "e \<noteq> []"
      "ce_fromisoformat env (ce_isoformat env t) = Inr t"
      "row_cursor env q r = \<lparr>kc_timestamp = t, kc_event_id = e, kc_service_id = fq_service_id q, kc_domain = fq_domain q\<rparr>"
    using assms(3) by (rule keyed_row_cursor)
  obtain token where token: "cursor_encode env secret (row_cursor env q r) = Inr token" "token \<noteq> []"
      "cursor_decode env secret token = Inr (row_cursor env q r)"
    by (rule cursor_decode_encode [of secret env "row_cursor env q r"])
      (use assms(1,2) key in \<open>auto simp: scope_ok_def\<close>)
  have "next_token env secret q rows = Inr (Some token)"
    using assms(4) key(1,2) token(1) by (simp add: next_token_def Let_def key(5) assms(5) [symmetric])
  moreover have "decode_cursor env secret q (Some token) = Inr (Some (row_cursor env q r))"
    using token(2,3) by (cases token) (simp_all add: decode_cursor_def key(5))
  ultimately show thesis by (rule that)
qed

text \<open>Where a reader stands after the rows \<open>seen\<close>: at the start, or holding a token for the last of them.\<close>

definition stands_after :: "cursor_env \<Rightarrow> string \<Rightarrow> fact_scope \<Rightarrow> row list \<Rightarrow> string option \<Rightarrow> bool" where
  "stands_after env secret q seen cursor \<longleftrightarrow>
     decode_cursor env secret q cursor = Inr (if seen = [] then None else Some (row_cursor env q (last seen)))"

lemma served_rest:
  assumes "serves_scope env rank client q (seen @ rest)" and "decoded = (if seen = [] then None else Some (row_cursor env q (last seen)))"
  shows "client (facts_sql q decoded) (facts_params q decoded) = Inr (take (Suc (nat (fq_limit q))) rest)"
proof (cases seen rule: rev_cases)
  case Nil
  with assms show ?thesis by (simp add: serves_scope_def)
next
  case (snoc xs x)
  from assms(1) have "filter (\<lambda>y. row_key env rank x < row_key env rank y) (seen @ rest) = rest"
    using filter_after [of "row_key env rank" xs x rest] by (simp add: serves_scope_def snoc)
  moreover have "x \<in> set (seen @ rest)" "decoded = Some (row_cursor env q x)" using assms(2) snoc by simp_all
  ultimately show ?thesis using assms(1) unfolding serves_scope_def by metis
qed

lemma read_pages_rest:
  assumes "scope_ok secret watermark q" and "\<And>s. ascii s \<Longrightarrow> ce_utf8 env s = Inr s"
    and "serves_scope env rank client q (seen @ rest)" and "stands_after env secret q seen cursor" and "length rest < n"
  shows "\<exists>pages. read_pages n env client secret watermark now q cursor = Inr pages \<and> concat pages = rest
    \<and> (\<forall>page \<in> set pages. length page \<le> nat (fq_limit q))"
  using assms(3-5)
proof (induction n arbitrary: seen rest cursor)
  case 0
  then show ?case by simp
next
  case (Suc n)
  define decoded where "decoded = (if seen = [] then None else Some (row_cursor env q (last seen)))"
  let ?k = "nat (fq_limit q)" and ?rows = "take (Suc (nat (fq_limit q))) rest"
  have served: "client (facts_sql q decoded) (facts_params q decoded) = Inr ?rows"
    using Suc.prems(1) decoded_def by (rule served_rest)
  have dec: "decode_cursor env secret q cursor = Inr decoded"
    using Suc.prems(2) by (simp add: stands_after_def decoded_def)
  note page = query_facts_ok [where client = client, OF assms(1) dec served, where now = now]
  show ?case
  proof (cases "length rest \<le> ?k")
    case True
    then have "next_token env secret q ?rows = Inr None" by (simp add: next_token_def)
    from page [OF this] True show ?thesis by simp
  next
    case False
    let ?head = "take ?k rest" and ?tail = "drop ?k rest"
    from assms(1) have "0 < ?k" by (simp add: scope_ok_def)
    with False have head: "?head \<noteq> []" "length ?tail < n" using Suc.prems(3) by auto
    have last: "last ?head = last (take ?k ?rows)" by (simp add: min_def)
    have longer: "?k < length ?rows" using False by simp
    have keyed: "keyed_row env (last ?head)"
      using Suc.prems(1) last_in_set [OF head(1)] by (auto simp: serves_scope_def list_all_iff dest: in_set_takeD)
    obtain token where token: "next_token env secret q ?rows = Inr (Some token)"
        "decode_cursor env secret q (Some token) = Inr (Some (row_cursor env q (last ?head)))"
      by (rule next_token_more [OF assms(1) _ keyed longer last]) (simp_all add: assms(2))
    have "stands_after env secret q (seen @ ?head) (Some token)"
      using token(2) head(1) by (simp add: stands_after_def)
    with Suc.IH [of "seen @ ?head" ?tail "Some token"] Suc.prems(1) head(2)
    obtain pages where "read_pages n env client secret watermark now q (Some token) = Inr pages" "concat pages = ?tail"
        "\<forall>page \<in> set pages. length page \<le> ?k"
      by auto
    with page [OF token(1)] show ?thesis by simp
  qed
qed


definition example_fact_env :: cursor_env where
  "example_fact_env = \<lparr>ce_hmac = (\<lambda>k p. k @ p), ce_isoformat = (\<lambda>t. if t = 1 then ''1'' else ''2''),
     ce_fromisoformat = (\<lambda>s. Inr (if s = ''1'' then 1 else 2)), ce_utf8 = Inr\<rparr>"

definition example_facts :: "row list" where
  "example_facts = map (\<lambda>(t, e). [(''event_id'', JStr e), (''timestamp'', JStr t)]) [(''1'', ''a''), (''1'', ''b''), (''2'', ''a'')]"

definition example_rank :: "string \<Rightarrow> nat" where
  "example_rank e = (if e = ''a'' then 0 else 1)"

definition example_query_client :: query_client where
  "example_query_client _ params =
     Inr (take 2 (case (map_of params ''cursor_timestamp'', map_of params ''cursor_event_id'') of
       (Some (PTime t), Some (PText e)) \<Rightarrow> filter (\<lambda>r. (t, example_rank e) < row_key example_fact_env example_rank r) example_facts
     | _ \<Rightarrow> example_facts))"

definition example_scope :: fact_scope where
  "example_scope = \<lparr>fq_service_id = ''s'', fq_domain = ''cmcd'', fq_table = ''t'', fq_columns = ''c'', fq_event_column = ''k'',
     fq_start = 0, fq_end = 9, fq_limit = 1, fq_status = None, fq_domain_filter = None, fq_pop = Some ''FRA'', fq_country = None,
     fq_batch_id = None\<rparr>"

definition example_fact_watermark :: serving_watermark where
  "example_fact_watermark = \<lparr>sw_service_id = ''s'', sw_domain = ''cmcd'', sw_owner_epoch = 1, sw_coverage_start = None,
     sw_coverage_end = None, last_accepted_cursor = None, last_archived_event_id = None, last_visible_event_id = None, exact = True\<rparr>"

lemma example_serves: "serves_scope example_fact_env example_rank example_query_client example_scope example_facts"
  by code_simp

lemma example_scope_ok: "scope_ok ''k'' example_fact_watermark example_scope"
  by code_simp


end
