(* ===== verification/Query_Router.thy ===== *)
theory Query_Router
  imports Fact_Query
begin

text \<open>
  The planner of high-scale queries: \<open>query_service.py\<close> from \<open>QueryTier\<close> to \<open>QueryRouter\<close>. It picks the storage
  tier of a query by the age of its range. Shown: a plan names a tier that still holds the whole range, covers the
  requested range, and a cold plan is queued and bounded.
\<close>

subsection \<open>Instants with and without an offset\<close>

datatype stamp = Aware timestamp | Naive timestamp

fun is_aware :: "stamp \<Rightarrow> bool" where
  "is_aware (Aware _) = True"
| "is_aware (Naive _) = False"

text \<open>\<open>astimezone(UTC)\<close>, with UTC as the zone of the process.\<close>

fun utc_of :: "stamp \<Rightarrow> timestamp" where
  "utc_of (Aware t) = t"
| "utc_of (Naive t) = t"

subsection \<open>Configuration, requests and plans\<close>

datatype query_tier = TriageAggregate | RecentFacts | WarmFactsArchive | ColdJob

datatype query_intent = Triage | Raw

definition one_hour :: duration where "one_hour = 3600 * 1000000"

definition one_day :: duration where "one_day = 24 * one_hour"

record query_router_config =
  rc_aggregate_retention :: duration
  rc_recent_facts_retention :: duration
  rc_warm_retention :: duration
  rc_max_cold_range :: duration
  rc_max_cold_rows :: int

definition default_router_config :: query_router_config where
  "default_router_config = \<lparr>rc_aggregate_retention = 24 * one_hour, rc_recent_facts_retention = 7 * one_day,
     rc_warm_retention = 30 * one_day, rc_max_cold_range = 7 * one_day, rc_max_cold_rows = MAX_PAGE_SIZE\<rparr>"

definition validate_router_config :: "query_router_config \<Rightarrow> unit result" where
  "validate_router_config c =
     ebind (ensure (0 < rc_aggregate_retention c) (ValueError ''aggregate retention must be positive'')) (\<lambda>_.
     ebind (ensure (rc_aggregate_retention c \<le> rc_recent_facts_retention c)
              (ValueError ''recent facts retention must include aggregate retention'')) (\<lambda>_.
     ebind (ensure (rc_recent_facts_retention c \<le> rc_warm_retention c)
              (ValueError ''warm retention must include recent facts retention'')) (\<lambda>_.
     ebind (ensure (0 < rc_max_cold_range c) (ValueError ''maximum cold range must be positive'')) (\<lambda>_.
     ensure (0 < rc_max_cold_rows c \<and> rc_max_cold_rows c \<le> MAX_PAGE_SIZE)
       (ValueError ''maximum cold rows must be between 1 and 500'')))))"

record query_request =
  rq_service_id :: string
  rq_domain :: string
  rq_start :: stamp
  rq_end :: stamp
  rq_intent :: query_intent
  rq_limit :: int

definition start_utc :: "query_request \<Rightarrow> timestamp" where
  "start_utc r = utc_of (rq_start r)"

definition end_utc :: "query_request \<Rightarrow> timestamp" where
  "end_utc r = utc_of (rq_end r)"

definition validate_request :: "query_request \<Rightarrow> unit result" where
  "validate_request r =
     ebind (ensure (py_strip (rq_service_id r) \<noteq> []) (ValueError ''service id is required'')) (\<lambda>_.
     ebind (ensure (rq_domain r \<in> set [''request'', ''rum_vitals'', ''rum_errors'', ''cmcd''])
              (ValueError ''unsupported high-scale query domain'')) (\<lambda>_.
     ebind (ensure (is_aware (rq_start r) \<and> is_aware (rq_end r)) (ValueError ''query range must be timezone-aware'')) (\<lambda>_.
     ebind (ensure (start_utc r < end_utc r) (ValueError ''query end must follow query start'')) (\<lambda>_.
     ensure (0 < rq_limit r \<and> rq_limit r \<le> MAX_PAGE_SIZE) (ValueError ''limit must be between 1 and 500'')))))"

record query_plan =
  qp_service_id :: string
  qp_domain :: string
  qp_intent :: query_intent
  qp_tier :: query_tier
  qp_start :: timestamp
  qp_end :: timestamp
  qp_sources :: "string list"
  qp_queued :: bool
  qp_bounded :: bool
  qp_max_rows :: int
  qp_reason :: string

definition validate_plan :: "query_plan \<Rightarrow> unit result" where
  "validate_plan p =
     ebind (ensure (qp_start p < qp_end p) (ValueError ''query plan end must follow query plan start'')) (\<lambda>_.
     ebind (ensure (qp_sources p \<noteq> []) (ValueError ''query plan must identify at least one source'')) (\<lambda>_.
     ebind (ensure (0 < qp_max_rows p) (ValueError ''query plan row bound must be positive'')) (\<lambda>_.
     ebind (ensure (\<not> (qp_tier p = ColdJob \<and> \<not> qp_queued p)) (ValueError ''cold query plans must be queued'')) (\<lambda>_.
     ensure (\<not> (qp_tier p \<noteq> ColdJob \<and> qp_queued p)) (ValueError ''only cold query plans may be queued'')))))"

subsection \<open>Planning\<close>

definition mk_router :: "query_router_config option \<Rightarrow> query_router_config result" where
  "mk_router config = (let c = the_default default_router_config config in ebind (validate_router_config c) (\<lambda>_. Inr c))"

definition build_plan :: "query_router_config \<Rightarrow> query_request \<Rightarrow> query_tier \<Rightarrow> string list \<Rightarrow> bool \<Rightarrow> bool \<Rightarrow> string
     \<Rightarrow> query_plan result" where
  "build_plan c r tier sources queued bounded reason =
     (let max_rows = if tier = ColdJob then min (rq_limit r) (rc_max_cold_rows c) else rq_limit r;
          p = \<lparr>qp_service_id = rq_service_id r, qp_domain = rq_domain r, qp_intent = rq_intent r, qp_tier = tier,
               qp_start = start_utc r, qp_end = end_utc r, qp_sources = sources, qp_queued = queued, qp_bounded = bounded,
               qp_max_rows = max_rows, qp_reason = reason\<rparr>
      in ebind (validate_plan p) (\<lambda>_. Inr p))"

definition plan_query :: "query_router_config \<Rightarrow> query_request \<Rightarrow> stamp \<Rightarrow> query_plan result" where
  "plan_query c r now =
     ebind (validate_request r) (\<lambda>_.
     ebind (ensure (is_aware now) (ValueError ''planner time must be timezone-aware'')) (\<lambda>_.
     (let observed = utc_of now; age = observed - start_utc r in
      ebind (ensure (end_utc r \<le> observed) (ValueError ''query end cannot be in the future'')) (\<lambda>_.
      if rq_intent r = Triage \<and> age \<le> rc_aggregate_retention c
      then build_plan c r TriageAggregate [''aggregates''] False False ''recent triage''
      else if age \<le> rc_recent_facts_retention c
      then build_plan c r RecentFacts [''clickhouse_facts''] False False ''recent raw facts''
      else if age \<le> rc_warm_retention c
      then build_plan c r WarmFactsArchive [''clickhouse_facts'', ''fos_archive''] False False
             ''warm history spans facts and archive''
      else ebind (ensure (end_utc r - start_utc r \<le> rc_max_cold_range c)
                    (ValueError ''cold query range exceeds configured bound'')) (\<lambda>_.
           build_plan c r ColdJob [''queued_query_job''] True True ''cold history requires a bounded queued job'')))))"

subsection \<open>What a plan promises\<close>

text \<open>How far back a tier reaches; the archive job has no limit of its own.\<close>

fun tier_holds :: "query_router_config \<Rightarrow> query_tier \<Rightarrow> duration \<Rightarrow> bool" where
  "tier_holds c TriageAggregate age \<longleftrightarrow> age \<le> rc_aggregate_retention c"
| "tier_holds c RecentFacts age \<longleftrightarrow> age \<le> rc_recent_facts_retention c"
| "tier_holds c WarmFactsArchive age \<longleftrightarrow> age \<le> rc_warm_retention c"
| "tier_holds c ColdJob age \<longleftrightarrow> True"

lemma validate_plan_ok [simp]:
  "validate_plan p = Inr u \<longleftrightarrow> qp_start p < qp_end p \<and> qp_sources p \<noteq> [] \<and> 0 < qp_max_rows p
     \<and> (qp_queued p \<longleftrightarrow> qp_tier p = ColdJob)"
  by (auto simp: validate_plan_def ebind_Inr_iff)

text \<open>
  The planner is total on its domain and its plans are adequate. For a valid configuration, a request that
  validates and that lies in the past gets a plan unless its range is too old for the warm tier and wider than a cold
  job may be. A plan covers exactly the requested range, its tier still holds the oldest instant of it, it asks for
  at most the requested number of rows, and it is queued exactly when it is a cold job; then it is bounded.
\<close>

theorem plan_is_adequate:
  assumes "validate_router_config c = Inr ()" and "validate_request r = Inr ()" and "end_utc r \<le> now"
  shows "(case plan_query c r (Aware now) of
      Inl e \<Rightarrow> rc_warm_retention c < now - start_utc r \<and> rc_max_cold_range c < end_utc r - start_utc r
    | Inr p \<Rightarrow> qp_start p = start_utc r \<and> qp_end p = end_utc r \<and> qp_service_id p = rq_service_id r \<and> qp_domain p = rq_domain r
        \<and> tier_holds c (qp_tier p) (now - start_utc r) \<and> 0 < qp_max_rows p \<and> qp_max_rows p \<le> rq_limit r
        \<and> (qp_queued p \<longleftrightarrow> qp_tier p = ColdJob)
        \<and> (qp_tier p = ColdJob \<longrightarrow> qp_bounded p \<and> rc_warm_retention c < now - start_utc r
             \<and> end_utc r - start_utc r \<le> rc_max_cold_range c \<and> qp_max_rows p \<le> rc_max_cold_rows c))"
proof -
  from assms have "start_utc r < end_utc r" "0 < rq_limit r" "0 < rc_max_cold_rows c"
    by (simp_all add: validate_request_def validate_router_config_def ebind_Inr_iff ensure_Inr_iff)
  with assms show ?thesis
    by (simp add: plan_query_def build_plan_def validate_plan_def Let_def ebind_ensure)
qed

definition example_query_request :: query_request where
  "example_query_request = \<lparr>rq_service_id = ''s'', rq_domain = ''request'', rq_start = Aware 0, rq_end = Aware 5,
     rq_intent = Triage, rq_limit = 20\<rparr>"

theorem plan_is_adequate_witness:
  "case plan_query default_router_config example_query_request (Aware (40 * one_day)) of
     Inl e \<Rightarrow> False
   | Inr p \<Rightarrow> qp_tier p = ColdJob \<and> qp_bounded p \<and> qp_start p = 0 \<and> qp_end p = 5"
proof -
  have "plan_query default_router_config example_query_request (Aware (40 * one_day)) =
      Inr \<lparr>qp_service_id = ''s'', qp_domain = ''request'', qp_intent = Triage, qp_tier = ColdJob, qp_start = 0, qp_end = 5,
           qp_sources = [''queued_query_job''], qp_queued = True, qp_bounded = True, qp_max_rows = 20,
           qp_reason = ''cold history requires a bounded queued job''\<rparr>"
    "validate_router_config default_router_config = Inr ()" "validate_request example_query_request = Inr ()"
    "end_utc example_query_request \<le> 40 * one_day" "start_utc example_query_request = 0" "end_utc example_query_request = 5"
    by code_simp+
  with plan_is_adequate [of default_router_config example_query_request "40 * one_day"] show ?thesis
    by simp
qed

end
