(* ===== verification/Historical_Jobs.thy ===== *)
theory Historical_Jobs
  imports Query_Router
begin

text \<open>
  Background jobs for cold queries: \<open>HistoricalJobManager\<close> of \<open>archive/jobs.py\<close>. Callers submit, read and cancel
  jobs while threads of a pool run them. Every section of the code under the manager's lock, and every call of the
  producer outside it, is one step; steps of all threads interleave freely. A record stays reachable for the thread
  that runs it after the manager has dropped it, so records live in a heap by job id and the manager's dictionary is a
  list of ids. The clock may give any time at every reading. The encoded size of a row is a parameter. Shown: the limits
  on jobs, rows and bytes, that a finished job never changes, that a cancelled one never completes, what a completed
  one holds, and that every run ends.
\<close>

subsection \<open>Jobs\<close>

datatype job_state = Queued | Running | Completed | Cancelled | Failed | Expired

definition ACTIVE_STATES :: "job_state list" where
  "ACTIVE_STATES = [Queued, Running]"

definition TERMINAL_STATES :: "job_state list" where
  "TERMINAL_STATES = [Completed, Cancelled, Failed, Expired]"

record job_record =
  jr_plan :: query_plan
  jr_created_at :: timestamp
  jr_expires_at :: timestamp
  jr_state :: job_state
  jr_terminal_at :: "timestamp option"
  jr_rows :: "row list"
  jr_output_bytes :: int
  jr_truncated :: bool
  jr_error :: "string option"
  jr_stop :: bool
  jr_future :: bool

definition new_record :: "query_plan \<Rightarrow> timestamp \<Rightarrow> duration \<Rightarrow> job_record" where
  "new_record plan observed ttl = \<lparr>jr_plan = plan, jr_created_at = observed, jr_expires_at = observed + ttl, jr_state = Queued,
     jr_terminal_at = None, jr_rows = [], jr_output_bytes = 0, jr_truncated = False, jr_error = None, jr_stop = False,
     jr_future = False\<rparr>"

record historical_job =
  hj_job_id :: string
  hj_plan :: query_plan
  hj_state :: job_state
  hj_created_at :: timestamp
  hj_expires_at :: timestamp
  hj_terminal_at :: "timestamp option"
  hj_rows :: "row list"
  hj_row_count :: nat
  hj_output_bytes :: int
  hj_truncated :: bool
  hj_error :: "string option"

definition job_snapshot :: "string \<Rightarrow> job_record \<Rightarrow> historical_job" where
  "job_snapshot job_id r = \<lparr>hj_job_id = job_id, hj_plan = jr_plan r, hj_state = jr_state r, hj_created_at = jr_created_at r,
     hj_expires_at = jr_expires_at r, hj_terminal_at = jr_terminal_at r, hj_rows = jr_rows r, hj_row_count = length (jr_rows r),
     hj_output_bytes = jr_output_bytes r, hj_truncated = jr_truncated r, hj_error = jr_error r\<rparr>"

definition finish_locked :: "job_state \<Rightarrow> timestamp \<Rightarrow> string option \<Rightarrow> job_record \<Rightarrow> job_record" where
  "finish_locked state observed err r =
     (if jr_state r \<in> set TERMINAL_STATES then r
      else r\<lparr>jr_state := state, jr_terminal_at := Some observed, jr_error := err, jr_future := False\<rparr>)"

definition expire_record_locked :: "timestamp \<Rightarrow> job_record \<Rightarrow> job_record" where
  "expire_record_locked observed r =
     (if jr_state r \<in> set ACTIVE_STATES then finish_locked Expired observed None (r\<lparr>jr_stop := True\<rparr>) else r)"

text \<open>The clock is read once to decide and once more for the time of the end.\<close>

definition expired_locked :: "timestamp \<Rightarrow> job_record \<Rightarrow> bool" where
  "expired_locked now r \<longleftrightarrow> jr_expires_at r \<le> now"

definition stop_reason_locked :: "timestamp \<Rightarrow> timestamp \<Rightarrow> job_record \<Rightarrow> bool \<times> job_record" where
  "stop_reason_locked now later r =
     (if jr_state r \<in> set [Cancelled, Expired, Failed] then (True, r)
      else if expired_locked now r then (True, expire_record_locked later r)
      else if jr_stop r then (True, finish_locked Cancelled later None r)
      else (False, r))"

subsection \<open>Running a job\<close>

text \<open>
  A producer as the run sees it: an error of calling it, or what its iterator gives one by one; \<open>Junk\<close> is an item
  \<open>dict\<close> refuses.
\<close>

datatype produced = Item row | Junk string | Raises string

record producer =
  pd_start_error :: "string option"
  pd_items :: "produced list"

datatype run_point = Pending | Starting | LoopHead | Fetching | Have produced | Exhausted | Failing string | Finished

record run =
  rn_job :: string
  rn_producer :: producer
  rn_rest :: "produced list"
  rn_at :: run_point

record job_limits =
  jl_max_workers :: int
  jl_max_jobs :: int
  jl_max_rows :: int
  jl_ttl :: duration
  jl_terminal_grace_ttl :: duration
  jl_max_output_bytes :: int
  jl_row_bytes :: "row \<Rightarrow> nat"

text \<open>One step of \<open>_run\<close>: what is under the lock, or one call of the producer.\<close>

definition keep_row :: "job_limits \<Rightarrow> timestamp \<Rightarrow> row \<Rightarrow> job_record \<Rightarrow> run_point \<times> job_record" where
  "keep_row jl later row r =
     (let row_bytes = int (jl_row_bytes jl row) in
      if jl_max_output_bytes jl < jr_output_bytes r + row_bytes
      then (Finished, finish_locked Failed later (Some ''historical job output exceeds byte limit'')
                        (r\<lparr>jr_rows := [], jr_output_bytes := 0\<rparr>))
      else (LoopHead, r\<lparr>jr_rows := jr_rows r @ [row], jr_output_bytes := jr_output_bytes r + row_bytes\<rparr>))"

fun run_point_step :: "job_limits \<Rightarrow> timestamp \<Rightarrow> timestamp \<Rightarrow> producer \<Rightarrow> produced list \<Rightarrow> run_point \<Rightarrow> job_record
     \<Rightarrow> produced list \<times> run_point \<times> job_record" where
  "run_point_step jl now later p rest Pending r =
     (if jr_state r \<noteq> Queued then (rest, Finished, r)
      else if expired_locked now r then (rest, Finished, expire_record_locked later r)
      else (rest, Starting, r\<lparr>jr_state := Running\<rparr>))"
| "run_point_step jl now later p rest Starting r =
     (case pd_start_error p of Some e \<Rightarrow> (rest, Failing e, r) | None \<Rightarrow> (rest, LoopHead, r))"
| "run_point_step jl now later p rest LoopHead r =
     (case stop_reason_locked now later r of
        (True, r') \<Rightarrow> (rest, Finished, r')
      | (False, r') \<Rightarrow>
          if int (length (jr_rows r')) = qp_max_rows (jr_plan r')
          then (rest, Finished, finish_locked Completed later None (r'\<lparr>jr_truncated := True\<rparr>))
          else (rest, Fetching, r'))"
| "run_point_step jl now later p [] Fetching r = ([], Exhausted, r)"
| "run_point_step jl now later p (Raises e # rest) Fetching r = (rest, Failing e, r)"
| "run_point_step jl now later p (item # rest) Fetching r = (rest, Have item, r)"
| "run_point_step jl now later p rest (Have item) r =
     (case stop_reason_locked now later r of
        (True, r') \<Rightarrow> (rest, Finished, r')
      | (False, r') \<Rightarrow>
          (case item of
             Item row \<Rightarrow> (rest, keep_row jl later row r')
           | Junk e \<Rightarrow> (rest, Failing e, r')
           | Raises e \<Rightarrow> (rest, Failing e, r')))"
| "run_point_step jl now later p rest Exhausted r =
     (case stop_reason_locked now later r of
        (True, r') \<Rightarrow> (rest, Finished, r')
      | (False, r') \<Rightarrow> (rest, Finished, finish_locked Completed later None r'))"
| "run_point_step jl now later p rest (Failing e) r =
     (rest, Finished, if jr_state r \<in> set ACTIVE_STATES then finish_locked Failed later (Some e) r else r)"
| "run_point_step jl now later p rest Finished r = (rest, Finished, r)"

definition run_step :: "job_limits \<Rightarrow> timestamp \<Rightarrow> timestamp \<Rightarrow> run \<Rightarrow> job_record \<Rightarrow> run \<times> job_record" where
  "run_step jl now later rn r =
     (case run_point_step jl now later (rn_producer rn) (rn_rest rn) (rn_at rn) r of
        (rest, at_point, r') \<Rightarrow> (rn\<lparr>rn_rest := rest, rn_at := at_point\<rparr>, r'))"

subsection \<open>The manager\<close>

record manager =
  hm_limits :: job_limits
  hm_records :: "string \<rightharpoonup> job_record"
  hm_jobs :: "string list"
  hm_runs :: "run list"
  hm_down :: bool

definition mk_manager :: "job_limits \<Rightarrow> manager result" where
  "mk_manager jl =
     ebind (ensure (0 < jl_max_workers jl) (ValueError ''max_workers must be positive'')) (\<lambda>_.
     ebind (ensure (0 < jl_max_jobs jl) (ValueError ''max_jobs must be positive'')) (\<lambda>_.
     ebind (ensure (0 < jl_max_rows jl) (ValueError ''max_rows must be positive'')) (\<lambda>_.
     ebind (ensure (0 < jl_ttl jl) (ValueError ''ttl must be positive'')) (\<lambda>_.
     ebind (ensure (0 \<le> jl_terminal_grace_ttl jl) (ValueError ''terminal grace ttl must be non-negative'')) (\<lambda>_.
     ebind (ensure (0 < jl_max_output_bytes jl) (ValueError ''max_output_bytes must be positive'')) (\<lambda>_.
     Inr \<lparr>hm_limits = jl, hm_records = Map.empty, hm_jobs = [], hm_runs = [], hm_down = False\<rparr>))))))"

definition job_utc :: "stamp \<Rightarrow> timestamp result" where
  "job_utc t = (case t of Aware u \<Rightarrow> Inr u | Naive _ \<Rightarrow> Inl (ValueError ''job timestamps must be timezone-aware''))"

definition purge_locked :: "timestamp \<Rightarrow> manager \<Rightarrow> manager" where
  "purge_locked observed m =
     m\<lparr>hm_jobs := filter (\<lambda>j. case hm_records m j of
         Some r \<Rightarrow> (case jr_terminal_at r of
           Some t \<Rightarrow> \<not> t + jl_terminal_grace_ttl (hm_limits m) \<le> observed
         | None \<Rightarrow> True)
       | None \<Rightarrow> True) (hm_jobs m)\<rparr>"

definition check_submission :: "job_limits \<Rightarrow> query_plan \<Rightarrow> stamp \<Rightarrow> timestamp result" where
  "check_submission jl plan now =
     ebind (ensure (qp_tier plan = ColdJob \<and> qp_queued plan \<and> qp_bounded plan)
              (ValueError ''historical jobs require a bounded cold query plan'')) (\<lambda>_.
     ebind (validate_plan plan) (\<lambda>_.
     ebind (ensure (qp_max_rows plan \<le> jl_max_rows jl) (ValueError ''query plan exceeds manager row limit'')) (\<lambda>_.
     job_utc now)))"

text \<open>The record is stored before the pool is asked; a pool that has been shut down refuses and leaves it there.\<close>

definition submit_job :: "query_plan \<Rightarrow> producer \<Rightarrow> stamp \<Rightarrow> string \<Rightarrow> (manager, string) eff" where
  "submit_job plan producer now job_id m =
     (case check_submission (hm_limits m) plan now of
        Inl e \<Rightarrow> (Inl e, m)
      | Inr observed \<Rightarrow>
          (let m1 = purge_locked observed m in
           if jl_max_jobs (hm_limits m) \<le> int (length (hm_jobs m1))
           then (Inl (RuntimeError ''historical job capacity is full''), m1)
           else
             let r = new_record plan observed (jl_ttl (hm_limits m));
                 m2 = m1\<lparr>hm_records := (hm_records m1)(job_id \<mapsto> r), hm_jobs := hm_jobs m1 @ [job_id]\<rparr>
             in if hm_down m then (Inl (RuntimeError ''cannot schedule new futures after shutdown''), m2)
                else (Inr job_id, m2\<lparr>hm_records := (hm_records m2)(job_id \<mapsto> r\<lparr>jr_future := True\<rparr>),
                        hm_runs := hm_runs m2 @ [\<lparr>rn_job = job_id, rn_producer = producer, rn_rest = pd_items producer,
                          rn_at = Pending\<rparr>]\<rparr>)))"

definition get_job :: "string \<Rightarrow> stamp \<Rightarrow> (manager, historical_job option) eff" where
  "get_job job_id now m =
     (case job_utc now of
        Inl e \<Rightarrow> (Inl e, m)
      | Inr observed \<Rightarrow>
          (let m1 = purge_locked observed m in
           case (if job_id \<in> set (hm_jobs m1) then hm_records m1 job_id else None) of
             None \<Rightarrow> (Inr None, m1)
           | Some r \<Rightarrow>
               let r' = if jr_state r \<in> set ACTIVE_STATES \<and> jr_expires_at r \<le> observed
                        then expire_record_locked observed r else r
               in (Inr (Some (job_snapshot job_id r')), m1\<lparr>hm_records := (hm_records m1)(job_id \<mapsto> r')\<rparr>)))"

definition cancel_record :: "timestamp \<Rightarrow> job_record \<Rightarrow> bool \<times> job_record" where
  "cancel_record observed r =
     (if jr_state r \<in> set TERMINAL_STATES then (False, r)
      else if jr_expires_at r \<le> observed then (False, expire_record_locked observed r)
      else let r' = r\<lparr>jr_stop := True\<rparr>
           in (True, if jr_state r' = Queued then finish_locked Cancelled observed None r' else r'))"

definition cancel_job :: "string \<Rightarrow> stamp \<Rightarrow> (manager, bool) eff" where
  "cancel_job job_id now m =
     (case job_utc now of
        Inl e \<Rightarrow> (Inl e, m)
      | Inr observed \<Rightarrow>
          (case (if job_id \<in> set (hm_jobs m) then hm_records m job_id else None) of
             None \<Rightarrow> (Inr False, m)
           | Some r \<Rightarrow>
               (case cancel_record observed r of
                  (answer, r') \<Rightarrow> (Inr answer, m\<lparr>hm_records := (hm_records m)(job_id \<mapsto> r')\<rparr>))))"

definition shutdown_manager :: "manager \<Rightarrow> manager" where
  "shutdown_manager m = m\<lparr>hm_down := True, hm_runs := filter (\<lambda>rn. rn_at rn \<noteq> Pending) (hm_runs m)\<rparr>"

text \<open>A thread of the pool makes one step of the run at position \<open>i\<close>; a pending one starts when a thread is free.\<close>

definition busy :: "run \<Rightarrow> bool" where
  "busy rn \<longleftrightarrow> rn_at rn \<noteq> Pending \<and> rn_at rn \<noteq> Finished"

definition busy_workers :: "manager \<Rightarrow> nat" where
  "busy_workers m = length (filter busy (hm_runs m))"

definition may_run :: "manager \<Rightarrow> nat \<Rightarrow> bool" where
  "may_run m i \<longleftrightarrow> i < length (hm_runs m)
     \<and> (rn_at (hm_runs m ! i) = Pending \<longrightarrow> int (busy_workers m) < jl_max_workers (hm_limits m))"

definition pool_step :: "nat \<Rightarrow> timestamp \<Rightarrow> timestamp \<Rightarrow> manager \<Rightarrow> manager" where
  "pool_step i now later m =
     (case hm_records m (rn_job (hm_runs m ! i)) of
        None \<Rightarrow> m
      | Some r \<Rightarrow>
          (case run_step (hm_limits m) now later (hm_runs m ! i) r of
             (rn, r') \<Rightarrow> m\<lparr>hm_runs := (hm_runs m)[i := rn], hm_records := (hm_records m)(rn_job rn \<mapsto> r')\<rparr>))"

inductive job_step :: "manager \<Rightarrow> manager \<Rightarrow> bool" where
  submit: "hm_records m job_id = None \<Longrightarrow> job_step m (snd (submit_job plan producer now job_id m))"
| get: "job_step m (snd (get_job job_id now m))"
| cancel: "job_step m (snd (cancel_job job_id now m))"
| shutdown: "job_step m (shutdown_manager m)"
| pool: "may_run m i \<Longrightarrow> job_step m (pool_step i now later m)"

subsection \<open>The invariant\<close>

definition terminal :: "job_record \<Rightarrow> bool" where
  "terminal r \<longleftrightarrow> jr_state r \<in> set TERMINAL_STATES"

definition record_ok :: "job_limits \<Rightarrow> job_record \<Rightarrow> bool" where
  "record_ok jl r \<longleftrightarrow> int (length (jr_rows r)) \<le> qp_max_rows (jr_plan r) \<and> qp_max_rows (jr_plan r) \<le> jl_max_rows jl
     \<and> jr_output_bytes r = int (sum_list (map (jl_row_bytes jl) (jr_rows r))) \<and> jr_output_bytes r \<le> jl_max_output_bytes jl
     \<and> (jr_terminal_at r \<noteq> None \<longleftrightarrow> terminal r)"

text \<open>The rows of a job so far are what its run has taken from the producer; a completed job holds the first ones.\<close>

definition taken :: "run \<Rightarrow> job_record \<Rightarrow> produced list \<Rightarrow> bool" where
  "taken rn r rest \<longleftrightarrow> pd_items (rn_producer rn) = map Item (jr_rows r) @ rest \<and> jr_state r \<notin> {Queued, Completed} \<and> \<not> jr_truncated r"

definition complete_result :: "producer \<Rightarrow> job_record \<Rightarrow> bool" where
  "complete_result p r \<longleftrightarrow> map Item (jr_rows r) = take (nat (qp_max_rows (jr_plan r))) (pd_items p)
     \<and> (jr_truncated r \<longleftrightarrow> nat (qp_max_rows (jr_plan r)) \<le> length (pd_items p))"

definition room :: "job_record \<Rightarrow> bool" where
  "room r \<longleftrightarrow> int (length (jr_rows r)) < qp_max_rows (jr_plan r)"

definition run_ok :: "run \<Rightarrow> job_record \<Rightarrow> bool" where
  "run_ok rn r \<longleftrightarrow>
     (case rn_at rn of
        Pending \<Rightarrow> jr_rows r = [] \<and> rn_rest rn = pd_items (rn_producer rn) \<and> jr_state r \<notin> {Running, Completed} \<and> \<not> jr_truncated r
      | Starting \<Rightarrow> taken rn r (rn_rest rn)
      | LoopHead \<Rightarrow> taken rn r (rn_rest rn)
      | Fetching \<Rightarrow> taken rn r (rn_rest rn) \<and> room r
      | Have item \<Rightarrow> taken rn r (item # rn_rest rn) \<and> room r
      | Exhausted \<Rightarrow> taken rn r [] \<and> room r
      | Failing e \<Rightarrow> jr_state r \<notin> {Queued, Completed}
      | Finished \<Rightarrow> terminal r \<and> (jr_state r = Completed \<longrightarrow> complete_result (rn_producer rn) r))"

definition job_inv :: "manager \<Rightarrow> bool" where
  "job_inv m \<longleftrightarrow> int (length (hm_jobs m)) \<le> jl_max_jobs (hm_limits m) \<and> distinct (hm_jobs m) \<and> set (hm_jobs m) \<subseteq> dom (hm_records m)
     \<and> (\<forall>j r. hm_records m j = Some r \<longrightarrow> record_ok (hm_limits m) r)
     \<and> (\<forall>rn \<in> set (hm_runs m). \<exists>r. hm_records m (rn_job rn) = Some r \<and> run_ok rn r)
     \<and> distinct (map rn_job (hm_runs m))
     \<and> (\<forall>j r. hm_records m j = Some r \<longrightarrow> j \<notin> rn_job ` set (hm_runs m) \<longrightarrow> jr_state r \<notin> {Running, Completed})
     \<and> (\<forall>j r. hm_records m j = Some r \<longrightarrow> j \<notin> set (hm_jobs m) \<longrightarrow> terminal r)
     \<and> int (busy_workers m) \<le> jl_max_workers (hm_limits m) \<and> 0 < jl_max_output_bytes (hm_limits m)"

lemmas job_states = ACTIVE_STATES_def TERMINAL_STATES_def terminal_def

lemmas job_ends = finish_locked_def expire_record_locked_def stop_reason_locked_def expired_locked_def job_states

text \<open>What a section under the lock may do to a record that another thread is running.\<close>

definition outside :: "job_record \<Rightarrow> job_record \<Rightarrow> bool" where
  "outside r r' \<longleftrightarrow> r' = r \<or> (\<not> terminal r \<and> (\<exists>t s. s \<in> {Cancelled, Expired}
     \<and> r' = r\<lparr>jr_state := s, jr_terminal_at := Some t, jr_error := None, jr_future := False, jr_stop := True\<rparr>))
     \<or> (jr_state r = Running \<and> r' = r\<lparr>jr_stop := True\<rparr>)"

lemma expire_outside: "outside r (expire_record_locked t r)"
  by (cases r) (auto simp: outside_def job_ends)

lemma cancel_outside: "outside r (snd (cancel_record t r))"
  by (cases r, cases "jr_state r") (auto simp: outside_def job_ends cancel_record_def Let_def)

lemma outside_ok:
  assumes "outside r r'"
  shows "record_ok jl r \<Longrightarrow> record_ok jl r'" and "run_ok rn r \<Longrightarrow> run_ok rn r'" and "terminal r \<Longrightarrow> terminal r'"
    and "jr_state r \<notin> {Running, Completed} \<Longrightarrow> jr_state r' \<notin> {Running, Completed}"
  using assms by (auto simp: outside_def record_ok_def run_ok_def taken_def room_def job_states split: run_point.splits)

lemma outside_refl: "outside r r"
  by (simp add: outside_def)

lemma finish_cancelled_outside: "jr_stop r \<Longrightarrow> outside r (finish_locked Cancelled t None r)"
  by (cases r) (auto simp: outside_def finish_locked_def terminal_def)

lemma stop_reason_outside: "outside r (snd (stop_reason_locked now later r))"
  by (simp add: stop_reason_locked_def expire_outside finish_cancelled_outside outside_refl)

lemma stop_reason_ends:
  "fst (stop_reason_locked now later r) \<Longrightarrow> jr_state r \<noteq> Completed \<Longrightarrow>
     terminal (snd (stop_reason_locked now later r)) \<and> jr_state (snd (stop_reason_locked now later r)) \<noteq> Completed"
  by (cases "jr_state r") (simp_all add: job_ends split: if_splits)

lemma stop_reason_cases:
  assumes "jr_state r \<notin> {Queued, Completed}"
  obtains (stops) r' where "stop_reason_locked now later r = (True, r')" "outside r r'" "terminal r'" "jr_state r' \<noteq> Completed"
    | (goes) "stop_reason_locked now later r = (False, r)" "jr_state r = Running" "\<not> jr_stop r"
proof (cases "fst (stop_reason_locked now later r)")
  case True
  with assms stop_reason_outside stop_reason_ends show thesis by (intro stops) (auto simp: prod_eq_iff)
next
  case False
  with assms show thesis by (intro goes) (cases "jr_state r"; simp add: stop_reason_locked_def split: if_splits)+
qed

lemma finish_running:
  assumes "jr_state r = Running"
  shows "finish_locked s t e r = r\<lparr>jr_state := s, jr_terminal_at := Some t, jr_error := e, jr_future := False\<rparr>"
  using assms by (simp add: finish_locked_def TERMINAL_STATES_def)

text \<open>Steps of a run keep its record and its own position consistent.\<close>

definition point_ok :: "job_limits \<Rightarrow> run \<Rightarrow> produced list \<times> run_point \<times> job_record \<Rightarrow> bool" where
  "point_ok jl rn res = (case res of (rest, at_point, r') \<Rightarrow>
     record_ok jl r' \<and> run_ok (rn\<lparr>rn_rest := rest, rn_at := at_point\<rparr>) r')"

lemma point_ok_stopped:
  assumes "record_ok jl r" and "outside r r'" and "terminal r'" and "jr_state r' \<noteq> Completed"
  shows "point_ok jl rn (rest, Finished, r')"
  using assms by (simp add: point_ok_def run_ok_def outside_ok(1))

lemma taken_state: "taken rn r rest \<Longrightarrow> jr_state r \<notin> {Queued, Completed}"
  by (simp add: taken_def)

lemma keep_row_ok:
  assumes "record_ok jl r" and "taken rn r (Item row # rest)" and "room r" and "jr_state r = Running"
  shows "point_ok jl rn (rest, keep_row jl later row r)"
  using assms
  by (auto simp: point_ok_def keep_row_def Let_def finish_running record_ok_def run_ok_def taken_def room_def job_states)

lemma run_point_step_ok:
  assumes "record_ok jl r" and "run_ok rn r"
  shows "point_ok jl rn (run_point_step jl now later (rn_producer rn) (rn_rest rn) (rn_at rn) r)"
proof (cases "rn_at rn")
  case Pending
  with assms show ?thesis
    by (cases "jr_state r") (auto simp: point_ok_def record_ok_def run_ok_def taken_def job_ends)
next
  case Starting
  with assms show ?thesis by (auto simp: point_ok_def run_ok_def taken_def split: option.splits)
next
  case LoopHead
  with assms have tk: "taken rn r (rn_rest rn)" by (simp add: run_ok_def)
  then have "jr_state r \<notin> {Queued, Completed}" by (rule taken_state)
  then show ?thesis
  proof (cases rule: stop_reason_cases [of _ now later])
    case (stops r')
    with assms(1) LoopHead show ?thesis by (simp add: point_ok_stopped)
  next
    case goes
    with assms(1) tk LoopHead show ?thesis
      by (auto simp: point_ok_def finish_running record_ok_def run_ok_def taken_def room_def complete_result_def job_states)
  qed
next
  case Fetching
  with assms show ?thesis
    by (cases "rn_rest rn" rule: list.exhaust; cases "hd (rn_rest rn)") (auto simp: point_ok_def run_ok_def taken_def room_def)
next
  case (Have item)
  with assms have tk: "taken rn r (item # rn_rest rn)" "room r" by (simp_all add: run_ok_def)
  from tk(1) have "jr_state r \<notin> {Queued, Completed}" by (rule taken_state)
  then show ?thesis
  proof (cases rule: stop_reason_cases [of _ now later])
    case (stops r')
    with assms(1) Have show ?thesis by (simp add: point_ok_stopped)
  next
    case goes
    with assms(1) tk Have show ?thesis
      by (cases item) (simp_all add: keep_row_ok, simp_all add: point_ok_def run_ok_def)
  qed
next
  case Exhausted
  with assms have tk: "taken rn r []" "room r" by (simp_all add: run_ok_def)
  from tk(1) have "jr_state r \<notin> {Queued, Completed}" by (rule taken_state)
  then show ?thesis
  proof (cases rule: stop_reason_cases [of _ now later])
    case (stops r')
    with assms(1) Exhausted show ?thesis by (simp add: point_ok_stopped)
  next
    case goes
    with assms(1) tk Exhausted show ?thesis
      by (auto simp: point_ok_def finish_running record_ok_def run_ok_def taken_def room_def complete_result_def job_states)
  qed
next
  case (Failing e)
  with assms show ?thesis
    by (cases "jr_state r") (auto simp: point_ok_def record_ok_def run_ok_def job_ends)
next
  case Finished
  with assms show ?thesis by (simp add: point_ok_def run_ok_def)
qed

lemma run_step_ok:
  assumes "record_ok jl r" and "run_ok rn r" and "run_step jl now later rn r = (rn', r')"
  shows "record_ok jl r'" and "run_ok rn' r'" and "rn_job rn' = rn_job rn" and "rn_producer rn' = rn_producer rn"
  using run_point_step_ok [OF assms(1,2), of now later] assms(3)
  by (auto simp: run_step_def point_ok_def split: prod.splits)

subsection \<open>Every reachable manager\<close>

lemma job_invI:
  assumes "int (length (hm_jobs m)) \<le> jl_max_jobs (hm_limits m)" "distinct (hm_jobs m)" "set (hm_jobs m) \<subseteq> dom (hm_records m)"
    and "\<And>j r. hm_records m j = Some r \<Longrightarrow> record_ok (hm_limits m) r"
    and "\<And>rn. rn \<in> set (hm_runs m) \<Longrightarrow> \<exists>r. hm_records m (rn_job rn) = Some r \<and> run_ok rn r"
    and "distinct (map rn_job (hm_runs m))"
    and "\<And>j r. hm_records m j = Some r \<Longrightarrow> j \<notin> rn_job ` set (hm_runs m) \<Longrightarrow> jr_state r \<notin> {Running, Completed}"
    and "\<And>j r. hm_records m j = Some r \<Longrightarrow> j \<notin> set (hm_jobs m) \<Longrightarrow> terminal r"
    and "int (busy_workers m) \<le> jl_max_workers (hm_limits m)" and "0 < jl_max_output_bytes (hm_limits m)"
  shows "job_inv m"
  unfolding job_inv_def using assms by blast

lemma job_invD:
  assumes "job_inv m"
  shows "int (length (hm_jobs m)) \<le> jl_max_jobs (hm_limits m)" "distinct (hm_jobs m)" "set (hm_jobs m) \<subseteq> dom (hm_records m)"
    and "hm_records m j = Some r \<Longrightarrow> record_ok (hm_limits m) r"
    and "rn \<in> set (hm_runs m) \<Longrightarrow> \<exists>r. hm_records m (rn_job rn) = Some r \<and> run_ok rn r"
    and "distinct (map rn_job (hm_runs m))"
    and "hm_records m j = Some r \<Longrightarrow> j \<notin> rn_job ` set (hm_runs m) \<Longrightarrow> jr_state r \<notin> {Running, Completed}"
    and "hm_records m j = Some r \<Longrightarrow> j \<notin> set (hm_jobs m) \<Longrightarrow> terminal r"
    and "int (busy_workers m) \<le> jl_max_workers (hm_limits m)" and "0 < jl_max_output_bytes (hm_limits m)"
  using assms unfolding job_inv_def by blast+

lemma purge_keeps:
  "hm_records (purge_locked t m) = hm_records m" "hm_runs (purge_locked t m) = hm_runs m" "hm_limits (purge_locked t m) = hm_limits m"
  "hm_down (purge_locked t m) = hm_down m" "set (hm_jobs (purge_locked t m)) \<subseteq> set (hm_jobs m)"
  "length (hm_jobs (purge_locked t m)) \<le> length (hm_jobs m)"
  "busy_workers (purge_locked t m) = busy_workers m"
  by (auto simp: purge_locked_def busy_workers_def)

lemma purge_inv:
  assumes "job_inv m"
  shows "job_inv (purge_locked t m)"
proof (rule job_invI, unfold purge_keeps)
  show "terminal r" if "hm_records m j = Some r" "j \<notin> set (hm_jobs (purge_locked t m))" for j r
  proof (cases "j \<in> set (hm_jobs m)")
    case True
    with that have "jr_terminal_at r \<noteq> None" by (auto simp: purge_locked_def split: option.splits)
    with job_invD(4) [OF assms that(1)] show ?thesis by (simp add: record_ok_def)
  next
    case False
    with assms that(1) show ?thesis by (rule job_invD(8))
  qed
  show "int (length (hm_jobs (purge_locked t m))) \<le> jl_max_jobs (hm_limits m)"
    using purge_keeps(6) [of t m] job_invD(1) [OF assms] by linarith
  show "distinct (hm_jobs (purge_locked t m))" using job_invD(2) [OF assms] by (simp add: purge_locked_def)
  show "set (hm_jobs (purge_locked t m)) \<subseteq> dom (hm_records m)" using purge_keeps(5) [of t m] job_invD(3) [OF assms] by blast
qed (use assms job_invD in \<open>blast+\<close>)

lemma outside_inv:
  assumes "job_inv m" and "hm_records m j = Some r" and "outside r r'"
  shows "job_inv (m\<lparr>hm_records := (hm_records m)(j \<mapsto> r')\<rparr>)"
proof -
  define m' where "m' = m\<lparr>hm_records := (hm_records m)(j \<mapsto> r')\<rparr>"
  have same: "hm_jobs m' = hm_jobs m" "hm_limits m' = hm_limits m" "hm_runs m' = hm_runs m" "busy_workers m' = busy_workers m"
      "hm_records m' = (hm_records m)(j \<mapsto> r')"
    by (simp_all add: m'_def busy_workers_def)
  note kept = outside_ok [OF assms(3)] and inv = job_invD [OF assms(1)]
  have "job_inv m'"
  proof (rule job_invI, unfold same)
    show "set (hm_jobs m) \<subseteq> dom ((hm_records m)(j \<mapsto> r'))" using inv(3) by auto
    show "record_ok (hm_limits m) ra" if "((hm_records m)(j \<mapsto> r')) ja = Some ra" for ja ra
      using that kept(1) inv(4) assms(2) by (cases "ja = j") auto
    show "\<exists>r. ((hm_records m)(j \<mapsto> r')) (rn_job rn) = Some r \<and> run_ok rn r" if "rn \<in> set (hm_runs m)" for rn
      using inv(5) [OF that] kept(2) assms(2) by auto
    show "jr_state ra \<notin> {Running, Completed}"
      if "((hm_records m)(j \<mapsto> r')) ja = Some ra" "ja \<notin> rn_job ` set (hm_runs m)" for ja ra
      using that kept(4) inv(7) assms(2) by (cases "ja = j") auto
    show "terminal ra" if "((hm_records m)(j \<mapsto> r')) ja = Some ra" "ja \<notin> set (hm_jobs m)" for ja ra
      using that kept(3) inv(8) assms(2) by (cases "ja = j") auto
  qed (use inv in blast)+
  then show ?thesis by (simp add: m'_def)
qed

text \<open>Reading and cancelling change the record of a job as an outside section does; dropping it changes none.\<close>

lemma get_job_effect:
  obtains t where "snd (get_job job_id now m) = m \<or> snd (get_job job_id now m) = purge_locked t m
    \<or> (\<exists>r r'. hm_records m job_id = Some r \<and> outside r r'
         \<and> snd (get_job job_id now m) = (purge_locked t m)\<lparr>hm_records := (hm_records m)(job_id \<mapsto> r')\<rparr>)"
proof (cases "job_utc now")
  case (Inl e)
  then show thesis by (intro that [of 0]) (simp add: get_job_def)
next
  case (Inr t)
  then show thesis
    by (intro that [of t])
      (auto simp: get_job_def Let_def purge_keeps expire_outside outside_refl split: option.splits if_splits
        intro!: exI [where x = "expire_record_locked t _"] exI)
qed

lemma cancel_job_effect:
  "snd (cancel_job job_id now m) = m
    \<or> (\<exists>r r'. hm_records m job_id = Some r \<and> outside r r' \<and> snd (cancel_job job_id now m) = m\<lparr>hm_records := (hm_records m)(job_id \<mapsto> r')\<rparr>)"
proof (cases "job_utc now")
  case (Inr t)
  then show ?thesis using cancel_outside [of _ t]
    by (auto simp: cancel_job_def split: option.splits if_splits prod.splits) (metis snd_conv)
qed (simp add: cancel_job_def)

text \<open>A submission that gets past its checks adds a fresh record, and a pending run when the pool takes it.\<close>

definition with_job :: "string \<Rightarrow> job_record \<Rightarrow> run list \<Rightarrow> manager \<Rightarrow> manager" where
  "with_job job_id r runs m = m\<lparr>hm_records := (hm_records m)(job_id \<mapsto> r), hm_jobs := hm_jobs m @ [job_id],
     hm_runs := hm_runs m @ runs\<rparr>"

definition fresh_job :: "query_plan \<Rightarrow> producer \<Rightarrow> string \<Rightarrow> job_record \<Rightarrow> run list \<Rightarrow> bool" where
  "fresh_job plan p job_id r runs \<longleftrightarrow> jr_plan r = plan \<and> jr_state r = Queued \<and> jr_terminal_at r = None \<and> jr_rows r = [] \<and> jr_output_bytes r = 0
     \<and> \<not> jr_truncated r \<and> \<not> jr_stop r
     \<and> runs \<in> {[], [\<lparr>rn_job = job_id, rn_producer = p, rn_rest = pd_items p, rn_at = Pending\<rparr>]}"

lemma submit_job_effect:
  obtains (refused) t where "snd (submit_job plan p now job_id m) \<in> {m, purge_locked t m}"
  | (accepted) t r runs where "snd (submit_job plan p now job_id m) = with_job job_id r runs (purge_locked t m)"
      "fresh_job plan p job_id r runs" "0 < qp_max_rows plan" "qp_max_rows plan \<le> jl_max_rows (hm_limits m)"
      "int (length (hm_jobs (purge_locked t m))) < jl_max_jobs (hm_limits m)"
proof (cases "check_submission (hm_limits m) plan now")
  case (Inl e)
  then show thesis by (intro refused [of 0]) (simp add: submit_job_def)
next
  case (Inr t)
  then have bounds: "0 < qp_max_rows plan" "qp_max_rows plan \<le> jl_max_rows (hm_limits m)"
    by (auto simp: check_submission_def ebind_Inr_iff)
  show thesis
  proof (cases "jl_max_jobs (hm_limits m) \<le> int (length (hm_jobs (purge_locked t m)))")
    case True
    with Inr show thesis by (intro refused [of t]) (simp add: submit_job_def)
  next
    case False
    let ?r = "new_record plan t (jl_ttl (hm_limits m))"
    have "snd (submit_job plan p now job_id m) =
        (if hm_down m then with_job job_id ?r [] (purge_locked t m)
         else with_job job_id (?r\<lparr>jr_future := True\<rparr>)
                [\<lparr>rn_job = job_id, rn_producer = p, rn_rest = pd_items p, rn_at = Pending\<rparr>] (purge_locked t m))"
      using Inr False by (simp add: submit_job_def Let_def with_job_def purge_keeps)
    with False bounds show thesis
      by (cases "hm_down m") (auto intro!: accepted [where t = t] simp: fresh_job_def new_record_def)
  qed
qed

lemma with_job_inv:
  assumes "job_inv m" and "hm_records m job_id = None" and "fresh_job plan p job_id r runs" and "0 < qp_max_rows plan"
    and "qp_max_rows plan \<le> jl_max_rows (hm_limits m)" and "int (length (hm_jobs m)) < jl_max_jobs (hm_limits m)"
  shows "job_inv (with_job job_id r runs m)"
proof -
  define m' where "m' = with_job job_id r runs m"
  have same: "hm_jobs m' = hm_jobs m @ [job_id]" "hm_limits m' = hm_limits m" "hm_runs m' = hm_runs m @ runs"
      "hm_records m' = (hm_records m)(job_id \<mapsto> r)"
    by (simp_all add: m'_def with_job_def)
  have busy: "busy_workers m' = busy_workers m"
    using assms(3) by (auto simp: busy_workers_def busy_def same fresh_job_def)
  note inv = job_invD [OF assms(1)]
  have fresh_ok: "record_ok (hm_limits m) r"
    using assms(3-5) inv(10) by (auto simp: fresh_job_def record_ok_def job_states)
  have new: "job_id \<notin> set (hm_jobs m)" "\<And>rn. rn \<in> set (hm_runs m) \<Longrightarrow> rn_job rn \<noteq> job_id"
    using inv(3) inv(5) assms(2) by force+
  have "job_inv m'"
  proof (rule job_invI, unfold same busy)
    show "int (length (hm_jobs m @ [job_id])) \<le> jl_max_jobs (hm_limits m)" using assms(6) by simp
    show "distinct (hm_jobs m @ [job_id])" using inv(2) new(1) by simp
    show "set (hm_jobs m @ [job_id]) \<subseteq> dom ((hm_records m)(job_id \<mapsto> r))" using inv(3) by auto
    show "record_ok (hm_limits m) ra" if "((hm_records m)(job_id \<mapsto> r)) ja = Some ra" for ja ra
      using that inv(4) fresh_ok by (cases "ja = job_id") auto
    show "\<exists>ra. ((hm_records m)(job_id \<mapsto> r)) (rn_job rn) = Some ra \<and> run_ok rn ra" if "rn \<in> set (hm_runs m @ runs)" for rn
    proof (cases "rn \<in> set (hm_runs m)")
      case True
      with inv(5) new(2) show ?thesis by simp
    next
      case False
      with that assms(3) have "rn = \<lparr>rn_job = job_id, rn_producer = p, rn_rest = pd_items p, rn_at = Pending\<rparr>"
        by (auto simp: fresh_job_def)
      with assms(3) show ?thesis by (simp add: fresh_job_def run_ok_def)
    qed
    show "distinct (map rn_job (hm_runs m @ runs))" using inv(6) new(2) assms(3) by (auto simp: fresh_job_def)
    show "jr_state ra \<notin> {Running, Completed}"
      if "((hm_records m)(job_id \<mapsto> r)) ja = Some ra" "ja \<notin> rn_job ` set (hm_runs m @ runs)" for ja ra
      using that inv(7) [of ja ra] assms(3) by (cases "ja = job_id") (auto simp: fresh_job_def)
    show "terminal ra" if "((hm_records m)(job_id \<mapsto> r)) ja = Some ra" "ja \<notin> set (hm_jobs m @ [job_id])" for ja ra
      using that inv(8) [of ja ra] by (cases "ja = job_id") auto
    show "int (busy_workers m) \<le> jl_max_workers (hm_limits m)" by (rule inv(9))
    show "0 < jl_max_output_bytes (hm_limits m)" by (rule inv(10))
  qed
  then show ?thesis by (simp add: m'_def)
qed

lemma shutdown_inv:
  assumes "job_inv m"
  shows "job_inv (shutdown_manager m)"
proof -
  define m' where "m' = shutdown_manager m"
  have same: "hm_jobs m' = hm_jobs m" "hm_limits m' = hm_limits m" "hm_records m' = hm_records m"
      "hm_runs m' = filter (\<lambda>rn. rn_at rn \<noteq> Pending) (hm_runs m)" "busy_workers m' = busy_workers m"
    by (auto simp: m'_def shutdown_manager_def busy_workers_def busy_def intro!: arg_cong [where f = length] filter_cong)
  note inv = job_invD [OF assms]
  have pending: "jr_state r \<notin> {Running, Completed}"
    if "hm_records m j = Some r" "j \<notin> rn_job ` set (hm_runs m')" for j r
  proof (cases "j \<in> rn_job ` set (hm_runs m)")
    case True
    then obtain rn where rn: "rn \<in> set (hm_runs m)" "rn_job rn = j" by blast
    with that(2) have "rn_at rn = Pending" by (auto simp: same(4))
    with inv(5) [OF rn(1)] rn(2) that(1) show ?thesis by (auto simp: run_ok_def)
  next
    case False
    with that(1) show ?thesis by (rule inv(7))
  qed
  have "job_inv m'"
  proof (rule job_invI, unfold same(1-3))
    show "distinct (map rn_job (hm_runs m'))" using inv(6) by (simp add: same(4) distinct_map_filter)
    show "int (busy_workers m') \<le> jl_max_workers (hm_limits m)" using inv(9) by (simp add: same(5))
    show "\<exists>r. hm_records m (rn_job rn) = Some r \<and> run_ok rn r" if "rn \<in> set (hm_runs m')" for rn
      using inv(5) that by (simp add: same(4))
  qed (use inv pending in blast)+
  then show ?thesis by (simp add: m'_def)
qed

text \<open>A step of the pool: the run and its record move together, and a thread is only taken when one is free.\<close>

lemma pool_step_effect:
  assumes "job_inv m" and "i < length (hm_runs m)"
  obtains r rn' r' where "hm_records m (rn_job (hm_runs m ! i)) = Some r" "run_ok (hm_runs m ! i) r"
    "run_step (hm_limits m) now later (hm_runs m ! i) r = (rn', r')" "rn_job rn' = rn_job (hm_runs m ! i)"
    "pool_step i now later m = m\<lparr>hm_runs := (hm_runs m)[i := rn'], hm_records := (hm_records m)(rn_job rn' \<mapsto> r')\<rparr>"
proof -
  from job_invD(5) [OF assms(1), of "hm_runs m ! i"] assms(2)
  obtain r where r: "hm_records m (rn_job (hm_runs m ! i)) = Some r" "run_ok (hm_runs m ! i) r" by auto
  obtain rn' r' where step: "run_step (hm_limits m) now later (hm_runs m ! i) r = (rn', r')" by fastforce
  from r step run_step_ok(3) [OF job_invD(4) [OF assms(1) r(1)] r(2) step] show thesis
    by (intro that [of r rn' r']) (simp_all add: pool_step_def)
qed

lemma busy_update:
  assumes "i < length xs"
  shows "length (filter P (xs[i := y])) + (if P (xs ! i) then 1 else 0) = length (filter P xs) + (if P y then 1 else 0)"
  using assms
proof (induction xs arbitrary: i)
  case (Cons x xs)
  then show ?case by (cases i) (auto simp: nth_Cons split: nat.splits)
qed simp

lemma busy_stays: "busy (fst (run_step jl now later rn r)) \<Longrightarrow> busy rn \<or> rn_at rn = Pending"
  by (cases "rn_at rn") (auto simp: busy_def run_step_def split: prod.splits)

lemma stop_reason_ended: "terminal r \<Longrightarrow> jr_state r \<noteq> Completed \<Longrightarrow> stop_reason_locked now later r = (True, r)"
  by (auto simp: stop_reason_locked_def job_states)

lemma run_step_frozen:
  assumes "run_ok rn r" and "terminal r"
  shows "snd (run_step jl now later rn r) = r"
proof (cases "rn_at rn")
  case Pending
  with assms show ?thesis by (auto simp: run_step_def run_ok_def job_states)
next
  case Fetching
  then show ?thesis
    by (cases "rn_rest rn"; cases "hd (rn_rest rn)") (simp_all add: run_step_def)
next
  case (Failing e)
  with assms show ?thesis by (auto simp: run_step_def job_states ACTIVE_STATES_def)
next
  case Starting
  then show ?thesis by (simp add: run_step_def split: option.splits)
qed (use assms in \<open>auto simp: run_step_def run_ok_def taken_def stop_reason_ended split: prod.splits\<close>)

lemma pool_step_inv:
  assumes "job_inv m" and "may_run m i"
  shows "job_inv (pool_step i now later m)"
proof -
  from assms(2) have i: "i < length (hm_runs m)" by (simp add: may_run_def)
  note inv = job_invD [OF assms(1)]
  obtain r rn' r' where eff: "hm_records m (rn_job (hm_runs m ! i)) = Some r" "run_ok (hm_runs m ! i) r"
      "run_step (hm_limits m) now later (hm_runs m ! i) r = (rn', r')" "rn_job rn' = rn_job (hm_runs m ! i)"
      "pool_step i now later m = m\<lparr>hm_runs := (hm_runs m)[i := rn'], hm_records := (hm_records m)(rn_job rn' \<mapsto> r')\<rparr>"
    using assms(1) i by (rule pool_step_effect)
  define m' where "m' = pool_step i now later m"
  have same: "hm_jobs m' = hm_jobs m" "hm_limits m' = hm_limits m" "hm_runs m' = (hm_runs m)[i := rn']"
      "hm_records m' = (hm_records m)(rn_job rn' \<mapsto> r')"
    by (simp_all add: m'_def eff(5))
  note ok = run_step_ok [OF inv(4) [OF eff(1)] eff(2,3)]
  have jobs: "map rn_job ((hm_runs m)[i := rn']) = map rn_job (hm_runs m)"
    by (simp add: map_update eff(4) i list_update_same_conv)
  have member: "rn_job ` set ((hm_runs m)[i := rn']) = rn_job ` set (hm_runs m)" using jobs by (metis set_map)
  have own: "rn_job rn' \<in> rn_job ` set (hm_runs m)" using eff(4) i by auto
  have "job_inv m'"
  proof (rule job_invI, unfold same)
    show "set (hm_jobs m) \<subseteq> dom ((hm_records m)(rn_job rn' \<mapsto> r'))" using inv(3) by auto
    show "record_ok (hm_limits m) ra" if "((hm_records m)(rn_job rn' \<mapsto> r')) ja = Some ra" for ja ra
      using that ok(1) inv(4) by (cases "ja = rn_job rn'") auto
    show "distinct (map rn_job ((hm_runs m)[i := rn']))" unfolding jobs by (rule inv(6))
    show "\<exists>ra. ((hm_records m)(rn_job rn' \<mapsto> r')) (rn_job rn) = Some ra \<and> run_ok rn ra"
      if "rn \<in> set ((hm_runs m)[i := rn'])" for rn
    proof -
      from that obtain k where k: "k < length (hm_runs m)" "rn = (hm_runs m)[i := rn'] ! k" by (metis in_set_conv_nth length_list_update)
      show ?thesis
      proof (cases "k = i")
        case False
        with k inv(6) i have "rn_job rn \<noteq> rn_job rn'" by (auto simp: eff(4) distinct_conv_nth)
        with False k inv(5) [of rn] show ?thesis by auto
      qed (use k ok(2) in simp)
    qed
    show "jr_state ra \<notin> {Running, Completed}"
      if "((hm_records m)(rn_job rn' \<mapsto> r')) ja = Some ra" "ja \<notin> rn_job ` set ((hm_runs m)[i := rn'])" for ja ra
      using that own inv(7) [of ja ra] unfolding member by (cases "ja = rn_job rn'") auto
    show "int (busy_workers m') \<le> jl_max_workers (hm_limits m)"
      using inv(9) assms(2) busy_update [OF i, of busy rn'] busy_stays [of "hm_limits m" now later "hm_runs m ! i" r]
      by (auto simp: busy_workers_def same may_run_def eff(3) split: if_splits)
    show "terminal ra" if "((hm_records m)(rn_job rn' \<mapsto> r')) ja = Some ra" "ja \<notin> set (hm_jobs m)" for ja ra
      using that inv(8) eff(1,3,4) run_step_frozen [OF eff(2)] by (cases "ja = rn_job rn'") (auto, metis snd_conv)
  qed (use inv in blast)+
  then show ?thesis by (simp add: m'_def)
qed

text \<open>The operations keep the invariant, so it holds in every manager reached from a new one.\<close>

lemma job_step_inv:
  assumes "job_step m m'" and "job_inv m"
  shows "job_inv m'"
  using assms
proof cases
  case (submit job_id plan producer now)
  show ?thesis
  proof (cases rule: submit_job_effect [of plan producer now job_id m])
    case (refused t)
    with submit assms(2) purge_inv show ?thesis by auto
  next
    case (accepted t r runs)
    with submit assms(2) show ?thesis
      using with_job_inv [OF purge_inv [OF assms(2), of t], of job_id plan producer r runs] by (simp add: purge_keeps)
  qed
next
  case (get job_id now)
  obtain t where "snd (get_job job_id now m) = m \<or> snd (get_job job_id now m) = purge_locked t m
    \<or> (\<exists>r r'. hm_records m job_id = Some r \<and> outside r r'
         \<and> snd (get_job job_id now m) = (purge_locked t m)\<lparr>hm_records := (hm_records m)(job_id \<mapsto> r')\<rparr>)"
    by (rule get_job_effect)
  with get assms(2) purge_inv [of m t] outside_inv [of "purge_locked t m" job_id] show ?thesis
    by (auto simp: purge_keeps)
next
  case (cancel job_id now)
  with assms(2) cancel_job_effect [of job_id now m] outside_inv [of m job_id] show ?thesis by auto
qed (use assms shutdown_inv pool_step_inv in auto)

lemma mk_manager_inv: "mk_manager jl = Inr m \<Longrightarrow> job_inv m \<and> hm_limits m = jl"
  by (auto simp: mk_manager_def ebind_Inr_iff job_inv_def busy_workers_def)

definition reached :: "job_limits \<Rightarrow> manager \<Rightarrow> bool" where
  "reached jl m \<longleftrightarrow> (\<exists>m0. mk_manager jl = Inr m0 \<and> job_step\<^sup>*\<^sup>* m0 m)"

lemma steps_inv: "job_step\<^sup>*\<^sup>* m m' \<Longrightarrow> job_inv m \<Longrightarrow> job_inv m'"
  by (induction rule: rtranclp_induct) (auto intro: job_step_inv)

lemma purge_limits: "hm_limits (snd (submit_job plan p now job_id m)) = hm_limits m"
  "hm_limits (snd (get_job job_id now m)) = hm_limits m" "hm_limits (snd (cancel_job job_id now m)) = hm_limits m"
  "hm_limits (shutdown_manager m) = hm_limits m" "hm_limits (pool_step i t later m) = hm_limits m"
  by (simp_all add: submit_job_def get_job_def cancel_job_def shutdown_manager_def pool_step_def purge_keeps Let_def
      split: sum.splits option.splits prod.splits)

lemma step_limits: "job_step m m' \<Longrightarrow> hm_limits m' = hm_limits m"
  by (erule job_step.cases) (simp_all only: purge_limits)

lemma steps_limits: "job_step\<^sup>*\<^sup>* m m' \<Longrightarrow> hm_limits m' = hm_limits m"
  by (induction rule: rtranclp_induct) (auto dest: step_limits)

lemma reached_inv: "reached jl m \<Longrightarrow> job_inv m" and reached_limits: "reached jl m \<Longrightarrow> hm_limits m = jl"
  using mk_manager_inv steps_inv steps_limits unfolding reached_def by metis+

subsection \<open>What no step undoes\<close>

text \<open>
  A relation between two states of a record that an outside section and a step of the record's own run respect is
  respected by every execution, whatever the threads do in between.
\<close>

locale record_rely =
  fixes R :: "job_record \<Rightarrow> job_record \<Rightarrow> bool"
  assumes outside_R: "outside r r' \<Longrightarrow> R r r'"
    and run_R: "record_ok jl r \<Longrightarrow> run_ok rn r \<Longrightarrow> R r (snd (run_step jl now later rn r))"
    and trans_R: "R r r' \<Longrightarrow> R r' r'' \<Longrightarrow> R r r''"
begin

lemma refl_R: "R r r"
  using outside_refl by (rule outside_R)

lemma pool_R:
  assumes "job_inv m" and "may_run m i" and "hm_records m j = Some r"
  shows "\<exists>r'. hm_records (pool_step i now later m) j = Some r' \<and> R r r'"
proof -
  from assms(2) have "i < length (hm_runs m)" by (simp add: may_run_def)
  with assms(1) obtain r0 rn' r1 where "hm_records m (rn_job (hm_runs m ! i)) = Some r0" "run_ok (hm_runs m ! i) r0"
      "run_step (hm_limits m) now later (hm_runs m ! i) r0 = (rn', r1)" "rn_job rn' = rn_job (hm_runs m ! i)"
      "pool_step i now later m = m\<lparr>hm_runs := (hm_runs m)[i := rn'], hm_records := (hm_records m)(rn_job rn' \<mapsto> r1)\<rparr>"
    by (rule pool_step_effect)
  with assms(3) run_R [OF job_invD(4) [OF assms(1)], of _ r0 "hm_runs m ! i" now later] show ?thesis
    by (cases "j = rn_job rn'") (auto simp: refl_R)
qed

lemma step_R:
  assumes "job_step m m'" and "job_inv m" and "hm_records m j = Some r"
  shows "\<exists>r'. hm_records m' j = Some r' \<and> R r r'"
  using assms(1)
proof cases
  case (submit job_id plan producer now)
  with assms(3) show ?thesis
    by (cases rule: submit_job_effect [of plan producer now job_id m])
      (auto simp: purge_keeps with_job_def refl_R)
next
  case (get job_id now)
  obtain t where "snd (get_job job_id now m) = m \<or> snd (get_job job_id now m) = purge_locked t m
    \<or> (\<exists>r r'. hm_records m job_id = Some r \<and> outside r r'
         \<and> snd (get_job job_id now m) = (purge_locked t m)\<lparr>hm_records := (hm_records m)(job_id \<mapsto> r')\<rparr>)"
    by (rule get_job_effect)
  with get assms(3) show ?thesis by (auto simp: purge_keeps refl_R outside_R)
next
  case (cancel job_id now)
  with assms(3) cancel_job_effect [of job_id now m] show ?thesis by (auto simp: refl_R outside_R)
next
  case shutdown
  with assms(3) show ?thesis by (simp add: shutdown_manager_def refl_R)
next
  case (pool i now later)
  with assms(2,3) show ?thesis by (simp add: pool_R)
qed

lemma steps_R:
  assumes "job_step\<^sup>*\<^sup>* m m'" and "job_inv m" and "hm_records m j = Some r"
  shows "\<exists>r'. hm_records m' j = Some r' \<and> R r r'"
  using assms
proof (induction rule: rtranclp_induct)
  case base
  then show ?case using refl_R by blast
next
  case (step m1 m2)
  then obtain r1 where "hm_records m1 j = Some r1" "R r r1" by blast
  with step_R [OF step.hyps(2) steps_inv [OF step.hyps(1) step.prems(1)]] trans_R show ?case by blast
qed

end

lemma run_step_stopped:
  assumes "run_ok rn r" and "jr_stop r" and "jr_state r \<noteq> Completed"
  shows "jr_stop (snd (run_step jl now later rn r))" and "jr_state (snd (run_step jl now later rn r)) \<noteq> Completed"
proof -
  have stop: "fst (stop_reason_locked now later r)" if "jr_state r \<noteq> Queued"
    using assms(2,3) that by (cases "jr_state r") (simp_all add: stop_reason_locked_def)
  have kept: "jr_stop (snd (stop_reason_locked now later r))"
    using assms(2) by (simp add: stop_reason_locked_def expire_record_locked_def finish_locked_def)
  show "jr_stop (snd (run_step jl now later rn r))" "jr_state (snd (run_step jl now later rn r)) \<noteq> Completed"
    using assms stop kept stop_reason_ends [of now later r]
    by (cases "rn_at rn"; cases "rn_rest rn"; cases "hd (rn_rest rn)";
        auto simp: run_step_def run_ok_def taken_def expire_record_locked_def finish_locked_def
          split: option.splits prod.splits)+
qed

interpretation final_job: record_rely "\<lambda>r r'. terminal r \<longrightarrow> r' = r"
  by unfold_locales (auto simp: outside_def job_states run_step_frozen)

interpretation stopped_job: record_rely "\<lambda>r r'. jr_stop r \<and> jr_state r \<noteq> Completed \<longrightarrow> jr_stop r' \<and> jr_state r' \<noteq> Completed"
  by unfold_locales (auto simp: outside_def run_step_stopped)

subsection \<open>Runs end\<close>

fun run_weight :: "nat \<Rightarrow> run_point \<Rightarrow> nat" where
  "run_weight n Pending = 3 * n + 5"
| "run_weight n Starting = 3 * n + 4"
| "run_weight n LoopHead = 3 * n + 3"
| "run_weight n Fetching = 3 * n + 2"
| "run_weight n (Have item) = 3 * n + 4"
| "run_weight n Exhausted = 1"
| "run_weight n (Failing e) = 1"
| "run_weight n Finished = 0"

definition weight :: "run \<Rightarrow> nat" where
  "weight rn = run_weight (length (rn_rest rn)) (rn_at rn)"

lemma run_step_lighter: "rn_at rn \<noteq> Finished \<Longrightarrow> weight (fst (run_step jl now later rn r)) < weight rn"
  by (cases "rn_at rn"; cases "rn_rest rn"; cases "hd (rn_rest rn)";
      auto simp: weight_def run_step_def keep_row_def Let_def split: option.splits prod.splits bool.splits produced.splits)

lemma run_step_started: "rn_at (fst (run_step jl now later rn r)) \<noteq> Pending"
  by (cases "rn_at rn"; cases "rn_rest rn"; cases "hd (rn_rest rn)";
      auto simp: run_step_def keep_row_def Let_def split: option.splits prod.splits bool.splits produced.splits)

text \<open>A thread that keeps making steps of one run; the clock gives two readings to every step.\<close>

fun drive :: "nat \<Rightarrow> (nat \<Rightarrow> timestamp \<times> timestamp) \<Rightarrow> nat \<Rightarrow> manager \<Rightarrow> manager" where
  "drive i clock 0 m = m"
| "drive i clock (Suc n) m = drive i clock n (pool_step i (fst (clock n)) (snd (clock n)) m)"

lemma pool_step_run:
  assumes "job_inv m" and "i < length (hm_runs m)"
  shows "i < length (hm_runs (pool_step i now later m))" and "may_run (pool_step i now later m) i"
    and "rn_job (hm_runs (pool_step i now later m) ! i) = rn_job (hm_runs m ! i)"
    and "rn_at (hm_runs m ! i) \<noteq> Finished \<Longrightarrow> weight (hm_runs (pool_step i now later m) ! i) < weight (hm_runs m ! i)"
    and "rn_at (hm_runs m ! i) = Finished \<Longrightarrow> rn_at (hm_runs (pool_step i now later m) ! i) = Finished"
proof -
  obtain r rn' r' where eff: "hm_records m (rn_job (hm_runs m ! i)) = Some r"
      "run_step (hm_limits m) now later (hm_runs m ! i) r = (rn', r')" "rn_job rn' = rn_job (hm_runs m ! i)"
      "pool_step i now later m = m\<lparr>hm_runs := (hm_runs m)[i := rn'], hm_records := (hm_records m)(rn_job rn' \<mapsto> r')\<rparr>"
    using assms by (rule pool_step_effect)
  have runs: "hm_runs (pool_step i now later m) = (hm_runs m)[i := rn']" by (simp add: eff(4))
  show "i < length (hm_runs (pool_step i now later m))" "rn_job (hm_runs (pool_step i now later m) ! i) = rn_job (hm_runs m ! i)"
    using assms(2) eff(3) by (simp_all add: runs)
  from run_step_started [of "hm_limits m" now later "hm_runs m ! i" r] eff(2) show "may_run (pool_step i now later m) i"
    using assms(2) by (simp add: may_run_def runs)
  from run_step_lighter [of "hm_runs m ! i" "hm_limits m" now later r] eff(2)
  show "rn_at (hm_runs m ! i) \<noteq> Finished \<Longrightarrow> weight (hm_runs (pool_step i now later m) ! i) < weight (hm_runs m ! i)"
    using assms(2) by (simp add: runs)
  show "rn_at (hm_runs (pool_step i now later m) ! i) = Finished" if "rn_at (hm_runs m ! i) = Finished"
    using assms(2) eff(2) that by (auto simp: runs run_step_def)
qed

lemma drive_run:
  assumes "job_inv m" and "may_run m i"
  shows "job_step\<^sup>*\<^sup>* m (drive i clock n m) \<and> i < length (hm_runs (drive i clock n m))
    \<and> rn_job (hm_runs (drive i clock n m) ! i) = rn_job (hm_runs m ! i)
    \<and> (weight (hm_runs m ! i) \<le> n \<or> rn_at (hm_runs m ! i) = Finished \<longrightarrow> rn_at (hm_runs (drive i clock n m) ! i) = Finished)"
  using assms
proof (induction n arbitrary: m)
  case 0
  then show ?case by (cases "rn_at (hm_runs m ! i)") (auto simp: weight_def may_run_def)
next
  case (Suc n)
  define m1 where "m1 = pool_step i (fst (clock n)) (snd (clock n)) m"
  have len: "i < length (hm_runs m)" using Suc.prems(2) by (simp add: may_run_def)
  have first: "job_step m m1" unfolding m1_def using Suc.prems(2) by (rule job_step.pool)
  note run = pool_step_run [OF Suc.prems(1) len, of "fst (clock n)" "snd (clock n)", folded m1_def]
  note rest = Suc.IH [OF job_step_inv [OF first Suc.prems(1)] run(2)]
  have "drive i clock (Suc n) m = drive i clock n m1" by (simp add: m1_def)
  moreover have "weight (hm_runs m1 ! i) \<le> n \<or> rn_at (hm_runs m1 ! i) = Finished"
    if "weight (hm_runs m ! i) \<le> Suc n \<or> rn_at (hm_runs m ! i) = Finished"
    using that run(4,5) by fastforce
  moreover note rest run(3) converse_rtranclp_into_rtranclp [of job_step, OF first]
  ultimately show ?case by metis
qed

lemma reached_start: "mk_manager jl = Inr m \<Longrightarrow> reached jl m"
  unfolding reached_def by blast

lemma reached_steps: "reached jl m \<Longrightarrow> job_step\<^sup>*\<^sup>* m m' \<Longrightarrow> reached jl m'"
  unfolding reached_def by (meson rtranclp_trans)

definition example_limits :: job_limits where
  "example_limits = \<lparr>jl_max_workers = 1, jl_max_jobs = 2, jl_max_rows = 9, jl_ttl = 10, jl_terminal_grace_ttl = 5,
     jl_max_output_bytes = 100, jl_row_bytes = length\<rparr>"

definition example_plan :: query_plan where
  "example_plan = \<lparr>qp_service_id = ''s'', qp_domain = ''cmcd'', qp_intent = Raw, qp_tier = ColdJob, qp_start = 0, qp_end = 1,
     qp_sources = [''q''], qp_queued = True, qp_bounded = True, qp_max_rows = 2, qp_reason = []\<rparr>"

definition example_producer :: producer where
  "example_producer = \<lparr>pd_start_error = None, pd_items = [Item [(''a'', JNull)], Item [], Item []]\<rparr>"

definition example_manager :: manager where
  "example_manager = \<lparr>hm_limits = example_limits, hm_records = Map.empty, hm_jobs = [], hm_runs = [], hm_down = False\<rparr>"

definition example_submitted :: manager where
  "example_submitted = snd (submit_job example_plan example_producer (Aware 0) ''j'' example_manager)"

lemma example_reached: "reached example_limits example_manager"
  by (rule reached_start) (simp add: mk_manager_def example_manager_def example_limits_def)

lemma example_submitted_reached: "reached example_limits example_submitted"
  unfolding example_submitted_def
  by (rule reached_steps [OF example_reached], rule r_into_rtranclp, rule job_step.submit) (simp add: example_manager_def)

lemma example_may_run: "may_run example_submitted 0"
  by code_simp

lemma example_driven_reached: "reached example_limits (drive 0 clock n example_submitted)"
  using drive_run [OF reached_inv [OF example_submitted_reached] example_may_run] example_submitted_reached reached_steps by blast

text \<open>
  C23. The manager keeps its bounds. However calls and threads interleave, there are never more jobs than
  \<open>max_jobs\<close> nor more busy threads than \<open>max_workers\<close>; every job holds at most as many rows as its plan allows
  and at most \<open>max_output_bytes\<close> of them; it has an end time exactly when it is in a terminal state, and a job
  that no longer is in the dictionary has ended.
\<close>

theorem job_manager_bounded:
  assumes "reached jl m"
  shows "int (length (hm_jobs m)) \<le> jl_max_jobs jl \<and> int (busy_workers m) \<le> jl_max_workers jl
    \<and> (\<forall>j r. hm_records m j = Some r \<longrightarrow>
         int (length (jr_rows r)) \<le> qp_max_rows (jr_plan r) \<and> qp_max_rows (jr_plan r) \<le> jl_max_rows jl
         \<and> jr_output_bytes r = int (sum_list (map (jl_row_bytes jl) (jr_rows r))) \<and> jr_output_bytes r \<le> jl_max_output_bytes jl
         \<and> (jr_terminal_at r \<noteq> None \<longleftrightarrow> terminal r) \<and> (j \<notin> set (hm_jobs m) \<longrightarrow> terminal r))"
  using job_invD [OF reached_inv [OF assms]] unfolding reached_limits [OF assms] record_ok_def by blast

theorem job_manager_bounded_witness:
  "int (length (hm_jobs (drive 0 (\<lambda>_. (1, 1)) 9 example_submitted))) \<le> 2
    \<and> (\<exists>r. hm_records (drive 0 (\<lambda>_. (1, 1)) 9 example_submitted) ''j'' = Some r \<and> int (length (jr_rows r)) \<le> 9)"
proof -
  let ?m = "drive 0 (\<lambda>_. (1, 1)) 9 example_submitted"
  have "hm_records ?m ''j'' \<noteq> None" by code_simp
  then obtain r where r: "hm_records ?m ''j'' = Some r" by blast
  from job_manager_bounded [OF example_driven_reached [of "\<lambda>_. (1, 1)" 9]] r
  have "int (length (jr_rows r)) \<le> qp_max_rows (jr_plan r)" "qp_max_rows (jr_plan r) \<le> 9" "int (length (hm_jobs ?m)) \<le> 2"
    by (auto simp: example_limits_def simp del: drive.simps)
  with r show ?thesis by (intro conjI exI [of _ r]) linarith+
qed

text \<open>
  Ends are final. Once a job has ended no call and no thread changes its record again. A cancellation that
  was answered with true holds: the job never completes, whatever its thread was doing at that moment.
\<close>

theorem ended_jobs_are_final:
  assumes "reached jl m" and "job_step\<^sup>*\<^sup>* m m'"
  shows "(\<forall>j r. hm_records m j = Some r \<longrightarrow> terminal r \<longrightarrow> hm_records m' j = Some r)
    \<and> (\<forall>j now m0. cancel_job j now m0 = (Inr True, m) \<longrightarrow>
         (\<exists>r. hm_records m' j = Some r \<and> jr_state r \<noteq> Completed))"
proof (intro conjI allI impI)
  note inv = reached_inv [OF assms(1)]
  show "hm_records m' j = Some r" if "hm_records m j = Some r" "terminal r" for j r
    using final_job.steps_R [OF assms(2) inv that(1)] that(2) by blast
  show "\<exists>r. hm_records m' j = Some r \<and> jr_state r \<noteq> Completed"
    if "cancel_job j now m0 = (Inr True, m)" for j now m0
  proof -
    from that obtain r where "hm_records m j = Some r" "jr_stop r" "jr_state r \<noteq> Completed"
      by (auto simp: cancel_job_def cancel_record_def finish_locked_def TERMINAL_STATES_def Let_def
          split: sum.splits option.splits if_splits prod.splits)
    with stopped_job.steps_R [OF assms(2) inv] show ?thesis by blast
  qed
qed

theorem ended_jobs_are_final_witness:
  "(\<exists>r. hm_records (drive 0 (\<lambda>_. (1, 1)) 20 example_submitted) ''j'' = Some r \<and> terminal r)
    \<and> hm_records (shutdown_manager (drive 0 (\<lambda>_. (1, 1)) 20 example_submitted)) ''j''
      = hm_records (drive 0 (\<lambda>_. (1, 1)) 20 example_submitted) ''j''"
proof -
  let ?m = "drive 0 (\<lambda>_. (1, 1)) 20 example_submitted"
  have "case hm_records ?m ''j'' of None \<Rightarrow> False | Some r \<Rightarrow> terminal r" by code_simp
  then obtain r where "hm_records ?m ''j'' = Some r" "terminal r" by (auto split: option.splits)
  with ended_jobs_are_final [OF example_driven_reached r_into_rtranclp [of job_step, OF job_step.shutdown], of "\<lambda>_. (1, 1)" 20]
  show ?thesis by metis
qed

text \<open>
  C24. What a completed job holds. The rows of a completed job are the first rows its producer gave, up to the bound of
  the plan; all of them when it is not marked as truncated.
\<close>

theorem completed_job_holds_rows:
  assumes "reached jl m" and "hm_records m j = Some r" and "jr_state r = Completed"
  shows "\<exists>rn \<in> set (hm_runs m). rn_job rn = j
    \<and> map Item (jr_rows r) = take (nat (qp_max_rows (jr_plan r))) (pd_items (rn_producer rn))
    \<and> (\<not> jr_truncated r \<longrightarrow> map Item (jr_rows r) = pd_items (rn_producer rn))"
proof -
  note inv = job_invD [OF reached_inv [OF assms(1)]]
  from inv(7) [OF assms(2)] assms(3) obtain rn where rn: "rn \<in> set (hm_runs m)" "rn_job rn = j" by auto
  with inv(5) [OF rn(1)] assms(2) have "run_ok rn r" by auto
  with assms(3) have "complete_result (rn_producer rn) r"
    by (auto simp: run_ok_def taken_def split: run_point.splits)
  with rn show ?thesis by (intro bexI [of _ rn]) (auto simp: complete_result_def)
qed

theorem completed_job_holds_rows_witness:
  "\<exists>r. hm_records (drive 0 (\<lambda>_. (1, 1)) 20 example_submitted) ''j'' = Some r \<and> jr_state r = Completed \<and> jr_truncated r
    \<and> (\<exists>rn \<in> set (hm_runs (drive 0 (\<lambda>_. (1, 1)) 20 example_submitted)). rn_job rn = ''j''
         \<and> map Item (jr_rows r) = take 2 (pd_items (rn_producer rn)))"
proof -
  let ?m = "drive 0 (\<lambda>_. (1, 1)) 20 example_submitted"
  have "case hm_records ?m ''j'' of None \<Rightarrow> False | Some r \<Rightarrow> jr_state r = Completed \<and> jr_truncated r \<and> nat (qp_max_rows (jr_plan r)) = 2"
    by code_simp
  then obtain r where r: "hm_records ?m ''j'' = Some r" "jr_state r = Completed" "jr_truncated r" "nat (qp_max_rows (jr_plan r)) = 2"
    by (auto split: option.splits)
  from completed_job_holds_rows [OF example_driven_reached r(1,2)] r show ?thesis by auto
qed

text \<open>
  C25. Every run ends. From any reachable state a thread that keeps making the steps of a run is done after at
  most three steps for each thing the producer still gives and five more, whatever the clock shows; the job has then ended.
\<close>

theorem run_ends:
  assumes "reached jl m" and "may_run m i" and "3 * length (rn_rest (hm_runs m ! i)) + 5 \<le> n"
  shows "\<exists>r. hm_records (drive i clock n m) (rn_job (hm_runs m ! i)) = Some r \<and> terminal r"
proof -
  note inv = reached_inv [OF assms(1)]
  note d = drive_run [OF inv assms(2), of clock n]
  have "weight (hm_runs m ! i) \<le> n"
    using assms(3) by (cases "rn_at (hm_runs m ! i)") (auto simp: weight_def)
  with d have done_at: "rn_at (hm_runs (drive i clock n m) ! i) = Finished" by blast
  have "job_inv (drive i clock n m)" "i < length (hm_runs (drive i clock n m))" using d inv steps_inv by blast+
  from job_invD(5) [OF this(1) nth_mem [OF this(2)]] done_at d show ?thesis by (auto simp: run_ok_def)
qed

theorem run_ends_witness:
  "\<exists>r. hm_records (drive 0 (\<lambda>_. (1, 1)) 20 example_submitted) ''j'' = Some r \<and> terminal r"
proof -
  have "rn_job (hm_runs example_submitted ! 0) = ''j''" "3 * length (rn_rest (hm_runs example_submitted ! 0)) + 5 \<le> 20" by code_simp+
  with run_ends [OF example_submitted_reached example_may_run, of 20] show ?thesis by simp
qed

end
