(* ===== verification/Export_Jobs.thy ===== *)
theory Export_Jobs
  imports Json_Model
begin

text \<open>
  Background exports: \<open>ExportManager\<close> of \<open>archive/jobs.py\<close>. As for historical jobs, a section under the lock
  and a turn of the loop outside it are steps that interleave freely. A job id may be used again after its job was
  dropped while the old thread still works on the old record, so tasks live in a list by address and the dictionary
  maps ids to addresses. The rows and the serializer are what the caller passes. Shown: a payload is there exactly when
  the export completed and then holds every row within the limits; an accepted cancellation is never followed by
  completion; and a run that has ended can leave its job in the running state.
\<close>

subsection \<open>Jobs and their threads\<close>

datatype export_state = XQueued | XRunning | XCompleted | XCancelled | XFailed | XExpired

record export_job =
  ej_expires_at :: timestamp
  ej_state :: export_state
  ej_rows_written :: nat
  ej_bytes_written :: nat
  ej_payload :: "string option"
  ej_error :: "string option"
  ej_cancel :: bool

datatype export_item = Row row | RowsRaise string

datatype encoded = Bytes string | NotBytes | SerializerRaises string

text \<open>
  Where the thread of an export is: still in the queue of the pool, about to enter, before the next row, about to count
  a row, behind the last row, in one of the two handlers, done, or never to run because its future was cancelled or
  the pool did not take it.
\<close>

datatype export_point = InQueue | Entering | NextRow | CountRow | BehindRows | CancelHandler | ErrorHandler string | RunDone | Dropped | Unscheduled

record export_task =
  et_job :: export_job
  et_items :: "export_item list"
  et_serializer :: "row \<Rightarrow> encoded"
  et_rest :: "export_item list"
  et_output :: string
  et_at :: export_point

record export_limits =
  xl_max_workers :: int
  xl_max_rows :: int
  xl_max_bytes :: int
  xl_ttl :: duration

record export_manager =
  xm_limits :: export_limits
  xm_tasks :: "export_task list"
  xm_jobs :: "(string \<times> nat) list"
  xm_down :: bool

definition mk_export_manager :: "export_limits \<Rightarrow> export_manager result" where
  "mk_export_manager xl =
     ebind (ensure (\<not> (xl_max_workers xl \<le> 0 \<or> xl_max_rows xl \<le> 0 \<or> xl_max_bytes xl \<le> 0 \<or> xl_ttl xl \<le> 0))
              (ValueError ''export limits must be positive'')) (\<lambda>_.
     Inr \<lparr>xm_limits = xl, xm_tasks = [], xm_jobs = [], xm_down = False\<rparr>)"

subsection \<open>The thread\<close>

text \<open>One turn of the loop up to the lock: the row, the checks and its encoding with a line feed.\<close>

definition encode_row :: "export_limits \<Rightarrow> export_task \<Rightarrow> row \<Rightarrow> export_task" where
  "encode_row xl t row =
     (if ej_cancel (et_job t) then t\<lparr>et_at := CancelHandler\<rparr>
      else if xl_max_rows xl \<le> int (ej_rows_written (et_job t)) then t\<lparr>et_at := ErrorHandler ''export row limit exceeded''\<rparr>
      else case et_serializer t row of
        SerializerRaises e \<Rightarrow> t\<lparr>et_at := ErrorHandler e\<rparr>
      | NotBytes \<Rightarrow> t\<lparr>et_at := ErrorHandler ''export serializer must return bytes''\<rparr>
      | Bytes b \<Rightarrow> t\<lparr>et_output := et_output t @ b @ [CHR 0x0A], et_at := CountRow\<rparr>)"

definition count_export_row :: "export_limits \<Rightarrow> export_task \<Rightarrow> export_task" where
  "count_export_row xl t =
     (let job = (et_job t)\<lparr>ej_rows_written := ej_rows_written (et_job t) + 1, ej_bytes_written := length (et_output t)\<rparr>
      in t\<lparr>et_job := job,
           et_at := if xl_max_bytes xl < int (ej_bytes_written job) then ErrorHandler ''export byte limit exceeded'' else NextRow\<rparr>)"

definition finish_rows :: "export_task \<Rightarrow> export_task" where
  "finish_rows t =
     (if ej_cancel (et_job t) \<or> ej_state (et_job t) \<noteq> XRunning
      then t\<lparr>et_job := (et_job t)\<lparr>ej_payload := None\<rparr>, et_at := RunDone\<rparr>
      else t\<lparr>et_job := (et_job t)\<lparr>ej_payload := Some (et_output t), ej_state := XCompleted\<rparr>, et_at := RunDone\<rparr>)"

definition export_run :: "export_limits \<Rightarrow> export_task \<Rightarrow> export_task" where
  "export_run xl t =
     (case et_at t of
        InQueue \<Rightarrow> t\<lparr>et_at := Entering\<rparr>
      | Entering \<Rightarrow>
          if ej_cancel (et_job t) then t\<lparr>et_job := (et_job t)\<lparr>ej_state := XCancelled\<rparr>, et_at := RunDone\<rparr>
          else t\<lparr>et_job := (et_job t)\<lparr>ej_state := XRunning\<rparr>, et_at := NextRow\<rparr>
      | NextRow \<Rightarrow>
          (case et_rest t of
             [] \<Rightarrow> t\<lparr>et_at := BehindRows\<rparr>
           | RowsRaise e # rest \<Rightarrow> t\<lparr>et_rest := rest, et_at := ErrorHandler e\<rparr>
           | Row row # rest \<Rightarrow> encode_row xl (t\<lparr>et_rest := rest\<rparr>) row)
      | CountRow \<Rightarrow> count_export_row xl t
      | BehindRows \<Rightarrow> finish_rows t
      | CancelHandler \<Rightarrow> t\<lparr>et_job := (et_job t)\<lparr>ej_state := XCancelled, ej_payload := None\<rparr>, et_at := RunDone\<rparr>
      | ErrorHandler e \<Rightarrow> t\<lparr>et_job := (et_job t)\<lparr>ej_state := XFailed, ej_error := Some e, ej_payload := None\<rparr>, et_at := RunDone\<rparr>
      | RunDone \<Rightarrow> t
      | Dropped \<Rightarrow> t
      | Unscheduled \<Rightarrow> t)"

subsection \<open>Calls\<close>

definition expire_task :: "timestamp \<Rightarrow> export_task \<Rightarrow> export_task" where
  "expire_task now t =
     (if ej_expires_at (et_job t) \<le> now \<and> ej_state (et_job t) \<notin> set [XExpired, XCancelled]
      then t\<lparr>et_job := (et_job t)\<lparr>ej_cancel := True, ej_state := XExpired, ej_payload := None\<rparr>\<rparr> else t)"

definition is_stale :: "duration \<Rightarrow> timestamp \<Rightarrow> export_task \<Rightarrow> bool" where
  "is_stale ttl now t \<longleftrightarrow> \<not> (ej_expires_at (et_job t) \<le> now \<and> ej_state (et_job t) \<notin> set [XExpired, XCancelled])
     \<and> ej_expires_at (et_job t) + ttl \<le> now \<and> ej_state (et_job t) \<in> set [XExpired, XCancelled, XCompleted, XFailed]"

definition expire_exports :: "timestamp \<Rightarrow> export_manager \<Rightarrow> export_manager" where
  "expire_exports now m =
     m\<lparr>xm_tasks := map (\<lambda>a. if a \<in> set (map snd (xm_jobs m)) then expire_task now (xm_tasks m ! a) else xm_tasks m ! a)
                    [0..<length (xm_tasks m)],
       xm_jobs := filter (\<lambda>(_, a). \<not> is_stale (xl_ttl (xm_limits m)) now (xm_tasks m ! a)) (xm_jobs m)\<rparr>"

text \<open>The job is stored before the pool is asked; the clock is read once to expire and once for the new job.\<close>

definition submit_export :: "string \<Rightarrow> export_item list \<Rightarrow> (row \<Rightarrow> encoded) \<Rightarrow> timestamp \<Rightarrow> timestamp \<Rightarrow> (export_manager, string) eff" where
  "submit_export job_id rows serializer now later m =
     (let m1 = expire_exports now m in
      if map_of (xm_jobs m1) job_id \<noteq> None then (Inl (ValueError (''export job '' @ job_id @ '' already exists'')), m1)
      else
        let t = \<lparr>et_job = \<lparr>ej_expires_at = later + xl_ttl (xm_limits m1), ej_state = XQueued, ej_rows_written = 0, ej_bytes_written = 0,
                   ej_payload = None, ej_error = None, ej_cancel = False\<rparr>,
                 et_items = rows, et_serializer = serializer, et_rest = rows, et_output = [],
                 et_at = if xm_down m1 then Unscheduled else InQueue\<rparr>;
            m2 = m1\<lparr>xm_tasks := xm_tasks m1 @ [t], xm_jobs := xm_jobs m1 @ [(job_id, length (xm_tasks m1))]\<rparr>
        in (if xm_down m1 then Inl (RuntimeError ''cannot schedule new futures after shutdown'') else Inr job_id, m2))"

text \<open>\<open>Future.cancel\<close> succeeds as long as the pool has not taken the task.\<close>

definition cancel_task :: "export_task \<Rightarrow> bool \<times> export_task" where
  "cancel_task t =
     (if ej_state (et_job t) \<in> set [XCompleted, XCancelled, XFailed] then (False, t)
      else if et_at t = InQueue
      then (True, t\<lparr>et_job := (et_job t)\<lparr>ej_cancel := True, ej_state := XCancelled\<rparr>, et_at := Dropped\<rparr>)
      else (True, t\<lparr>et_job := (et_job t)\<lparr>ej_cancel := True\<rparr>\<rparr>))"

definition cancel_export :: "string \<Rightarrow> export_manager \<Rightarrow> bool \<times> export_manager" where
  "cancel_export job_id m =
     (case map_of (xm_jobs m) job_id of
        None \<Rightarrow> (False, m)
      | Some a \<Rightarrow> (case cancel_task (xm_tasks m ! a) of (answer, t) \<Rightarrow> (answer, m\<lparr>xm_tasks := (xm_tasks m)[a := t]\<rparr>)))"

definition get_export :: "string \<Rightarrow> timestamp \<Rightarrow> (export_manager, export_job) eff" where
  "get_export job_id now m =
     (case map_of (xm_jobs m) job_id of
        None \<Rightarrow> (Inl (KeyError job_id), m)
      | Some a \<Rightarrow> let m1 = expire_exports now m in (Inr (et_job (xm_tasks m1 ! a)), m1))"

text \<open>\<open>wait\<close> returns once the future is done; a cancelled future raises. A job without a future is read at once.\<close>

definition wait_export :: "string \<Rightarrow> timestamp \<Rightarrow> (export_manager, export_job) eff" where
  "wait_export job_id now m =
     (case map_of (xm_jobs m) job_id of
       None \<Rightarrow> (Inl (KeyError job_id), m)
     | Some a \<Rightarrow>
         if et_at (xm_tasks m ! a) = Dropped then (Inl (OtherError ''CancelledError''), m) else get_export job_id now m)"

definition wait_returns :: "string \<Rightarrow> export_manager \<Rightarrow> bool" where
  "wait_returns job_id m = (case map_of (xm_jobs m) job_id of
     None \<Rightarrow> True | Some a \<Rightarrow> et_at (xm_tasks m ! a) \<in> set [RunDone, Dropped, Unscheduled])"

definition shutdown_exports :: "export_manager \<Rightarrow> export_manager" where
  "shutdown_exports m =
     m\<lparr>xm_down := True, xm_tasks := map (\<lambda>t. if et_at t = InQueue then t\<lparr>et_at := Dropped\<rparr> else t) (xm_tasks m)\<rparr>"

definition export_workers :: "export_manager \<Rightarrow> nat" where
  "export_workers m = length (filter (\<lambda>t. et_at t \<notin> set [InQueue, RunDone, Dropped, Unscheduled]) (xm_tasks m))"

definition run_export :: "nat \<Rightarrow> export_manager \<Rightarrow> export_manager" where
  "run_export a m = m\<lparr>xm_tasks := (xm_tasks m)[a := export_run (xm_limits m) (xm_tasks m ! a)]\<rparr>"

inductive export_step :: "export_manager \<Rightarrow> export_manager \<Rightarrow> bool" where
  submit: "export_step m (snd (submit_export job_id rows serializer now later m))"
| cancel: "export_step m (snd (cancel_export job_id m))"
| get: "export_step m (snd (get_export job_id now m))"
| wait: "wait_returns job_id m \<Longrightarrow> export_step m (snd (wait_export job_id now m))"
| shutdown: "export_step m (shutdown_exports m)"
| run_task: "a < length (xm_tasks m) \<Longrightarrow> et_at (xm_tasks m ! a) = InQueue \<longrightarrow> int (export_workers m) < xl_max_workers (xm_limits m)
    \<Longrightarrow> export_step m (run_export a m)"

definition exports_reached :: "export_limits \<Rightarrow> export_manager \<Rightarrow> bool" where
  "exports_reached xl m \<longleftrightarrow> (\<exists>m0. mk_export_manager xl = Inr m0 \<and> export_step\<^sup>*\<^sup>* m0 m)"

subsection \<open>What holds of every task\<close>

definition row_line :: "(row \<Rightarrow> encoded) \<Rightarrow> row \<Rightarrow> string" where
  "row_line ser r = (case ser r of Bytes b \<Rightarrow> b @ [CHR 0x0A] | _ \<Rightarrow> [])"

definition export_lines :: "(row \<Rightarrow> encoded) \<Rightarrow> row list \<Rightarrow> string" where
  "export_lines ser rows = concat (map (row_line ser) rows)"

text \<open>The rows a task has written, with \<open>uncounted\<close> of them not yet counted.\<close>

definition written :: "export_task \<Rightarrow> row list \<Rightarrow> nat \<Rightarrow> bool" where
  "written t rows uncounted \<longleftrightarrow> et_items t = map Row rows @ et_rest t \<and> et_output t = export_lines (et_serializer t) rows
     \<and> (\<forall>r \<in> set rows. \<exists>b. et_serializer t r = Bytes b) \<and> length rows = ej_rows_written (et_job t) + uncounted"

definition export_result :: "export_limits \<Rightarrow> export_task \<Rightarrow> bool" where
  "export_result xl t \<longleftrightarrow> (\<exists>rows. et_items t = map Row rows \<and> (\<forall>r \<in> set rows. \<exists>b. et_serializer t r = Bytes b)
     \<and> ej_payload (et_job t) = Some (export_lines (et_serializer t) rows) \<and> ej_rows_written (et_job t) = length rows
     \<and> ej_bytes_written (et_job t) = length (export_lines (et_serializer t) rows)
     \<and> int (length (export_lines (et_serializer t) rows)) \<le> xl_max_bytes xl)"

definition counted :: "export_limits \<Rightarrow> export_task \<Rightarrow> bool" where
  "counted xl t \<longleftrightarrow> ej_bytes_written (et_job t) = length (et_output t) \<and> int (length (et_output t)) \<le> xl_max_bytes xl
     \<and> ej_state (et_job t) \<notin> {XQueued, XCompleted}"

definition task_ok :: "export_limits \<Rightarrow> export_task \<Rightarrow> bool" where
  "task_ok xl t \<longleftrightarrow> int (ej_rows_written (et_job t)) \<le> xl_max_rows xl
     \<and> (ej_payload (et_job t) \<noteq> None \<longleftrightarrow> ej_state (et_job t) = XCompleted)
     \<and> (ej_state (et_job t) \<in> {XExpired, XCancelled} \<longrightarrow> ej_cancel (et_job t))
     \<and> (case et_at t of
          NextRow \<Rightarrow> (\<exists>rows. written t rows 0) \<and> counted xl t
        | BehindRows \<Rightarrow> (\<exists>rows. written t rows 0) \<and> et_rest t = [] \<and> counted xl t
        | CountRow \<Rightarrow> (\<exists>rows. written t rows 1) \<and> int (ej_rows_written (et_job t)) < xl_max_rows xl \<and> ej_state (et_job t) \<notin> {XQueued, XCompleted}
        | RunDone \<Rightarrow> ej_state (et_job t) = XCompleted \<longrightarrow> export_result xl t
        | CancelHandler \<Rightarrow> ej_cancel (et_job t) \<and> ej_state (et_job t) \<noteq> XCompleted
        | ErrorHandler e \<Rightarrow> ej_state (et_job t) \<noteq> XCompleted
        | _ \<Rightarrow> ej_state (et_job t) \<notin> {XRunning, XCompleted} \<and> written t [] 0 \<and> ej_bytes_written (et_job t) = 0 \<and> et_output t = [])"

lemma export_lines_snoc: "export_lines ser (rows @ [r]) = export_lines ser rows @ row_line ser r"
  by (simp add: export_lines_def)

lemma encode_row_ok:
  assumes "written t rows 0" and "counted xl t" and "task_ok xl t" and "et_rest t = Row row # rest"
  shows "task_ok xl (encode_row xl (t\<lparr>et_rest := rest\<rparr>) row)"
proof (cases "et_serializer t row")
  case (Bytes b)
  with assms(1,4) have "written (t\<lparr>et_rest := rest, et_output := et_output t @ b @ [CHR 0x0A], et_at := CountRow\<rparr>) (rows @ [row]) 1"
    by (auto simp: written_def export_lines_snoc row_line_def)
  then have "\<exists>rows. written (t\<lparr>et_rest := rest, et_output := et_output t @ b @ [CHR 0x0A], et_at := CountRow\<rparr>) rows 1" by blast
  with assms(2,3) Bytes show ?thesis by (auto simp: encode_row_def task_ok_def counted_def)
qed (use assms(2,3) in \<open>auto simp: encode_row_def task_ok_def counted_def\<close>)

lemma count_export_row_ok:
  assumes "task_ok xl t" and "et_at t = CountRow"
  shows "task_ok xl (count_export_row xl t)"
proof -
  from assms obtain rows where w: "written t rows 1" "int (ej_rows_written (et_job t)) < xl_max_rows xl"
      "ej_state (et_job t) \<notin> {XQueued, XCompleted}"
    by (auto simp: task_ok_def)
  then have "written (count_export_row xl t) rows 0" by (simp add: written_def count_export_row_def Let_def)
  then have "\<exists>rows. written (count_export_row xl t) rows 0" by blast
  with assms w show ?thesis by (auto simp: task_ok_def counted_def count_export_row_def Let_def)
qed

lemma finish_rows_ok:
  assumes "task_ok xl t" and "et_at t = BehindRows"
  shows "task_ok xl (finish_rows t)"
proof -
  from assms obtain rows where "written t rows 0" "et_rest t = []" "counted xl t" by (auto simp: task_ok_def)
  with assms show ?thesis
    by (auto simp: finish_rows_def task_ok_def export_result_def written_def counted_def)
qed

lemma export_run_ok:
  assumes "task_ok xl t" and "0 < xl_max_bytes xl"
  shows "task_ok xl (export_run xl t)"
proof (cases "et_at t")
  case Entering
  with assms have "written (t\<lparr>et_job := (et_job t)\<lparr>ej_state := XRunning\<rparr>, et_at := NextRow\<rparr>) [] 0"
    by (simp add: task_ok_def written_def)
  then have "\<exists>rows. written (t\<lparr>et_job := (et_job t)\<lparr>ej_state := XRunning\<rparr>, et_at := NextRow\<rparr>) rows 0" by blast
  with Entering assms show ?thesis by (auto simp: export_run_def task_ok_def counted_def written_def)
next
  case NextRow
  with assms obtain rows where w: "written t rows 0" "counted xl t" by (auto simp: task_ok_def)
  show ?thesis
  proof (cases "et_rest t")
    case Nil
    with w(1) have "\<exists>rows. written (t\<lparr>et_at := BehindRows\<rparr>) rows 0" by (auto simp: written_def)
    with Nil NextRow assms w show ?thesis by (auto simp: export_run_def task_ok_def counted_def)
  next
    case (Cons item rest)
    with NextRow assms w encode_row_ok [OF w assms(1)] show ?thesis
      by (cases item) (auto simp: export_run_def, auto simp: task_ok_def counted_def)
  qed
qed (use assms count_export_row_ok finish_rows_ok in \<open>auto simp: export_run_def, auto simp: task_ok_def written_def\<close>)

lemma expire_task_ok: "task_ok xl t \<Longrightarrow> task_ok xl (expire_task now t)"
  by (auto simp: expire_task_def task_ok_def counted_def written_def split: export_point.splits)

lemma cancel_task_ok: "task_ok xl t \<Longrightarrow> task_ok xl (snd (cancel_task t))"
  by (auto simp: cancel_task_def task_ok_def counted_def written_def export_result_def split: export_point.splits)

definition drop_task :: "export_task \<Rightarrow> export_task" where
  "drop_task t = (if et_at t = InQueue then t\<lparr>et_at := Dropped\<rparr> else t)"

lemma drop_task_ok: "task_ok xl t \<Longrightarrow> task_ok xl (drop_task t)"
  by (auto simp: drop_task_def task_ok_def written_def)

subsection \<open>Executions\<close>

text \<open>A step changes tasks one by one and adds at most one new task.\<close>

definition local_change :: "export_limits \<Rightarrow> export_task \<Rightarrow> export_task \<Rightarrow> bool" where
  "local_change xl t t' \<longleftrightarrow> t' = t \<or> (\<exists>now. t' = expire_task now t) \<or> t' = snd (cancel_task t) \<or> t' = drop_task t \<or> t' = export_run xl t"

definition new_task :: "export_task \<Rightarrow> bool" where
  "new_task t \<longleftrightarrow> et_at t \<in> {InQueue, Unscheduled} \<and> ej_state (et_job t) = XQueued \<and> ej_rows_written (et_job t) = 0
     \<and> ej_bytes_written (et_job t) = 0 \<and> ej_payload (et_job t) = None \<and> \<not> ej_cancel (et_job t)
     \<and> et_rest t = et_items t \<and> et_output t = []"

definition tasks_change :: "export_manager \<Rightarrow> export_manager \<Rightarrow> bool" where
  "tasks_change m m' \<longleftrightarrow> xm_limits m' = xm_limits m \<and> (\<exists>old new. xm_tasks m' = old @ new \<and> list_all new_task new
     \<and> list_all2 (local_change (xm_limits m)) (xm_tasks m) old)"

lemma local_refl: "list_all2 (local_change xl) ts ts"
  by (simp add: list_all2_conv_all_nth local_change_def)

lemma local_update: "local_change xl (ts ! a) t \<Longrightarrow> list_all2 (local_change xl) ts (ts[a := t])"
  by (cases "a < length ts") (auto simp: list_all2_conv_all_nth nth_list_update local_change_def)

lemma tasks_changeI:
  "xm_limits m' = xm_limits m \<Longrightarrow> list_all2 (local_change (xm_limits m)) (xm_tasks m) (xm_tasks m') \<Longrightarrow> tasks_change m m'"
  unfolding tasks_change_def by (intro conjI exI [of _ "xm_tasks m'"] exI [of _ "[]"]) auto

lemma expire_local: "list_all2 (local_change xl) (xm_tasks m) (xm_tasks (expire_exports now m))"
  and expire_limits: "xm_limits (expire_exports now m) = xm_limits m"
  by (auto simp: expire_exports_def list_all2_conv_all_nth local_change_def)

lemma get_change: "tasks_change m (snd (get_export job_id now m))"
  by (rule tasks_changeI) (auto simp: get_export_def Let_def expire_limits expire_local local_refl split: option.splits)

lemma submit_change: "tasks_change m (snd (submit_export job_id rows serializer now later m))"
proof (cases "map_of (xm_jobs (expire_exports now m)) job_id")
  case None
  then obtain t where "xm_tasks (snd (submit_export job_id rows serializer now later m)) = xm_tasks (expire_exports now m) @ [t]"
      "new_task t" "xm_limits (snd (submit_export job_id rows serializer now later m)) = xm_limits m"
    by (cases "xm_down (expire_exports now m)") (auto simp: submit_export_def Let_def expire_limits new_task_def)
  then show ?thesis using expire_local [of "xm_limits m" m now] unfolding tasks_change_def
    by (intro conjI exI [of _ "xm_tasks (expire_exports now m)"] exI [of _ "[t]"]) simp_all
next
  case (Some a)
  then show ?thesis by (intro tasks_changeI) (simp_all add: submit_export_def Let_def expire_limits expire_local)
qed

lemma cancel_change: "tasks_change m (snd (cancel_export job_id m))"
proof (rule tasks_changeI)
  show "list_all2 (local_change (xm_limits m)) (xm_tasks m) (xm_tasks (snd (cancel_export job_id m)))"
  proof (cases "map_of (xm_jobs m) job_id")
    case (Some a)
    have "local_change (xm_limits m) (xm_tasks m ! a) (snd (cancel_task (xm_tasks m ! a)))" by (simp add: local_change_def)
    from local_update [OF this] Some show ?thesis by (simp add: cancel_export_def case_prod_beta)
  qed (simp add: cancel_export_def local_refl)
qed (simp add: cancel_export_def split: option.splits prod.splits)

lemma step_change: "export_step m m' \<Longrightarrow> tasks_change m m'"
proof (induction rule: export_step.induct)
  case (wait job_id m now)
  then show ?case
    using get_change [of m job_id now] tasks_changeI [OF refl local_refl, of m]
    by (auto simp: wait_export_def split: option.splits)
next
  case (shutdown m)
  then show ?case
    by (intro tasks_changeI)
      (auto simp: shutdown_exports_def list_all2_conv_all_nth local_change_def drop_task_def)
next
  case (run_task a m)
  then show ?case
    by (intro tasks_changeI) (auto simp: run_export_def local_change_def intro!: local_update)
qed (simp_all add: submit_change cancel_change get_change)

text \<open>A relation that every change of a task respects is respected by every execution.\<close>

locale task_rely =
  fixes xl :: export_limits and R :: "export_task \<Rightarrow> export_task \<Rightarrow> bool"
  assumes local_R: "local_change xl t t' \<Longrightarrow> R t t'" and trans_R: "R t t' \<Longrightarrow> R t' t'' \<Longrightarrow> R t t''"
begin

lemma step_R:
  assumes "export_step m m'" and "xm_limits m = xl" and "a < length (xm_tasks m)"
  shows "xm_limits m' = xl \<and> a < length (xm_tasks m') \<and> R (xm_tasks m ! a) (xm_tasks m' ! a)"
proof -
  from step_change [OF assms(1)] assms(2) obtain old new where *: "xm_tasks m' = old @ new" "xm_limits m' = xl"
      "list_all2 (local_change xl) (xm_tasks m) old"
    by (auto simp: tasks_change_def)
  with assms(3) list_all2_nthD [OF *(3) assms(3)] list_all2_lengthD [OF *(3)] local_R show ?thesis
    by (simp add: nth_append)
qed

lemma steps_R:
  assumes "export_step\<^sup>*\<^sup>* m m'" and "xm_limits m = xl" and "a < length (xm_tasks m)"
  shows "xm_limits m' = xl \<and> a < length (xm_tasks m') \<and> R (xm_tasks m ! a) (xm_tasks m' ! a)"
  using assms
proof (induction rule: rtranclp_induct)
  case base
  then show ?case using local_R [of "xm_tasks m ! a" "xm_tasks m ! a"] by (simp add: local_change_def)
next
  case (step m1 m2)
  then have "xm_limits m1 = xl \<and> a < length (xm_tasks m1) \<and> R (xm_tasks m ! a) (xm_tasks m1 ! a)" by blast
  with step_R [OF step.hyps(2)] trans_R show ?case by blast
qed

end

lemma local_change_ok: "local_change xl t t' \<Longrightarrow> 0 < xl_max_bytes xl \<Longrightarrow> task_ok xl t \<Longrightarrow> task_ok xl t'"
  by (auto simp: local_change_def expire_task_ok cancel_task_ok drop_task_ok export_run_ok)

interpretation sound_task: task_rely xl "\<lambda>t t'. 0 < xl_max_bytes xl \<and> task_ok xl t \<longrightarrow> task_ok xl t'" for xl
  by unfold_locales (auto dest: local_change_ok)

text \<open>Once the cancel event is set it stays set, and a job that has not completed by then never does.\<close>

definition given_up :: "export_task \<Rightarrow> bool" where
  "given_up t \<longleftrightarrow> ej_cancel (et_job t) \<and> ej_state (et_job t) \<noteq> XCompleted"

lemma given_up_calls:
  assumes "given_up t"
  shows "given_up (expire_task now t)" and "given_up (snd (cancel_task t))" and "given_up (drop_task t)"
  using assms by (simp_all add: given_up_def expire_task_def cancel_task_def drop_task_def)

lemma given_up_run: "given_up t \<Longrightarrow> given_up (export_run xl t)"
  by (auto simp: given_up_def export_run_def encode_row_def count_export_row_def finish_rows_def Let_def
      split: export_point.splits list.splits export_item.splits)

lemma local_change_given_up: "local_change xl t t' \<Longrightarrow> given_up t \<Longrightarrow> given_up t'"
  by (auto simp: local_change_def given_up_calls given_up_run)

interpretation given_up_task: task_rely xl "\<lambda>t t'. given_up t \<longrightarrow> given_up t'" for xl
  by unfold_locales (auto dest: local_change_given_up)

lemma new_task_ok: "new_task t \<Longrightarrow> 0 < xl_max_rows xl \<Longrightarrow> task_ok xl t"
  by (auto simp: new_task_def task_ok_def written_def export_lines_def)

lemma exports_reached_ok:
  assumes "exports_reached xl m"
  shows "xm_limits m = xl \<and> list_all (task_ok xl) (xm_tasks m)"
proof -
  from assms obtain m0 where m0: "mk_export_manager xl = Inr m0" "export_step\<^sup>*\<^sup>* m0 m" by (auto simp: exports_reached_def)
  then have pos: "0 < xl_max_rows xl" "0 < xl_max_bytes xl" "xm_limits m0 = xl" "xm_tasks m0 = []"
    by (auto simp: mk_export_manager_def ebind_Inr_iff)
  from m0(2) show ?thesis
  proof (induction rule: rtranclp_induct)
    case base
    with pos show ?case by simp
  next
    case (step m1 m2)
    from step_change [OF step.hyps(2)] step.IH obtain old new where *: "xm_limits m2 = xl" "xm_tasks m2 = old @ new"
        "list_all new_task new" "list_all2 (local_change xl) (xm_tasks m1) old"
      by (auto simp: tasks_change_def)
    from *(4) step.IH have "list_all (task_ok xl) old"
      using local_change_ok [OF _ pos(2)] by (auto simp: list_all2_conv_all_nth list_all_length)
    with *(1-3) new_task_ok pos(1) show ?case by (auto simp: list_all_iff)
  qed
qed

definition example_export_limits :: export_limits where
  "example_export_limits = \<lparr>xl_max_workers = 1, xl_max_rows = 5, xl_max_bytes = 50, xl_ttl = 10\<rparr>"

definition example_exports :: export_manager where
  "example_exports = \<lparr>xm_limits = example_export_limits, xm_tasks = [], xm_jobs = [], xm_down = False\<rparr>"

definition example_export_started :: export_manager where
  "example_export_started = snd (submit_export ''j'' [Row [], Row []] (\<lambda>_. Bytes ''x'') 0 0 example_exports)"

lemma example_export_started_reached: "exports_reached example_export_limits example_export_started"
proof -
  have "mk_export_manager example_export_limits = Inr example_exports"
    by (simp add: mk_export_manager_def example_export_limits_def example_exports_def)
  moreover have "export_step example_exports example_export_started"
    unfolding example_export_started_def by (rule export_step.submit)
  ultimately show ?thesis unfolding exports_reached_def by blast
qed

text \<open>One thread works on the first task alone.\<close>

fun run_first :: "nat \<Rightarrow> export_manager \<Rightarrow> export_manager" where
  "run_first 0 m = m"
| "run_first (Suc n) m = run_first n (run_export 0 m)"

fun first_may_run :: "nat \<Rightarrow> export_manager \<Rightarrow> bool" where
  "first_may_run 0 m = True"
| "first_may_run (Suc n) m \<longleftrightarrow> 0 < length (xm_tasks m)
     \<and> (et_at (xm_tasks m ! 0) = InQueue \<longrightarrow> int (export_workers m) < xl_max_workers (xm_limits m)) \<and> first_may_run n (run_export 0 m)"

lemma run_first_steps: "first_may_run n m \<Longrightarrow> export_step\<^sup>*\<^sup>* m (run_first n m)"
proof (induction n arbitrary: m)
  case (Suc n)
  then have "export_step m (run_export 0 m)" by (auto intro: export_step.run_task)
  with Suc show ?case by (auto intro: converse_rtranclp_into_rtranclp)
qed simp

lemma run_first_reached: "exports_reached xl m \<Longrightarrow> first_may_run n m \<Longrightarrow> exports_reached xl (run_first n m)"
  unfolding exports_reached_def using run_first_steps by (meson rtranclp_trans)

text \<open>
  C26. Exports are whole or absent. In every execution a payload is present exactly when the job is completed; it
  then is the encoding of all rows the caller passed, each with a line feed, within the limits on rows and bytes,
  and the counts of the job agree with it.
\<close>

theorem export_payload_whole:
  assumes "exports_reached xl m" and "a < length (xm_tasks m)"
  shows "(ej_payload (et_job (xm_tasks m ! a)) \<noteq> None \<longleftrightarrow> ej_state (et_job (xm_tasks m ! a)) = XCompleted)
    \<and> int (ej_rows_written (et_job (xm_tasks m ! a))) \<le> xl_max_rows xl
    \<and> (ej_state (et_job (xm_tasks m ! a)) = XCompleted \<longrightarrow> export_result xl (xm_tasks m ! a))"
proof -
  have "task_ok xl (xm_tasks m ! a)" using exports_reached_ok [OF assms(1)] assms(2) by (simp add: list_all_length)
  then show ?thesis by (auto simp: task_ok_def counted_def split: export_point.splits)
qed

theorem export_payload_whole_witness:
  "ej_payload (et_job (xm_tasks (run_first 9 example_export_started) ! 0)) \<noteq> None
    \<and> export_result example_export_limits (xm_tasks (run_first 9 example_export_started) ! 0)"
proof -
  have "first_may_run 9 example_export_started" "0 < length (xm_tasks (run_first 9 example_export_started))"
      "ej_state (et_job (xm_tasks (run_first 9 example_export_started) ! 0)) = XCompleted"
    by code_simp+
  with export_payload_whole [OF run_first_reached [OF example_export_started_reached]] show ?thesis by blast
qed

text \<open>
  A cancellation that was accepted holds. After \<open>cancel\<close> has answered true the job is never completed,
  in any later state and whatever its thread was doing.
\<close>

theorem export_cancel_holds:
  assumes "map_of (xm_jobs m) job_id = Some a" and "a < length (xm_tasks m)" and "cancel_export job_id m = (True, m1)"
    and "export_step\<^sup>*\<^sup>* m1 m'"
  shows "a < length (xm_tasks m') \<and> ej_cancel (et_job (xm_tasks m' ! a)) \<and> ej_state (et_job (xm_tasks m' ! a)) \<noteq> XCompleted
    \<and> (exports_reached xl m' \<longrightarrow> ej_payload (et_job (xm_tasks m' ! a)) = None)"
proof -
  from assms(1-3) have "a < length (xm_tasks m1)" "given_up (xm_tasks m1 ! a)"
    by (auto simp: cancel_export_def cancel_task_def given_up_def split: if_splits)
  with given_up_task.steps_R [OF assms(4) refl] have *: "a < length (xm_tasks m')" "given_up (xm_tasks m' ! a)" by blast+
  moreover have "task_ok xl (xm_tasks m' ! a)" if "exports_reached xl m'"
    using exports_reached_ok [OF that] *(1) by (simp add: list_all_length)
  ultimately show ?thesis by (auto simp: given_up_def task_ok_def)
qed

theorem export_cancel_holds_witness:
  "ej_state (et_job (xm_tasks (run_first 9 (snd (cancel_export ''j'' (run_first 3 example_export_started)))) ! 0)) \<noteq> XCompleted"
proof -
  let ?m = "run_first 3 example_export_started"
  have *: "map_of (xm_jobs ?m) ''j'' = Some 0" "0 < length (xm_tasks ?m)" "fst (cancel_export ''j'' ?m)"
      "first_may_run 9 (snd (cancel_export ''j'' ?m))"
    by code_simp+
  then have "cancel_export ''j'' ?m = (True, snd (cancel_export ''j'' ?m))" by (simp add: prod_eq_iff)
  from export_cancel_holds [OF *(1,2) this run_first_steps [OF *(4)]] show ?thesis by blast
qed



end
