(* ===== verification/Projections.thy ===== *)
theory Projections
  imports Aggregates
begin

text \<open>
  The minute projections of request events: \<open>build_origin_projection_rows\<close>, \<open>build_performance_projection_rows\<close>,
  \<open>build_security_projection_rows\<close>, \<open>build_network_projection_rows\<close> and \<open>project_cmcd\<close>, with the percentiles
  and log-histogram sketches of \<open>_common.py\<close>. A \<open>defaultdict\<close> of accumulators is an association list in
  insertion order. Finite floats are rationals; the exponent of a sketch bin, \<open>ceil(log |v| / log gamma)\<close>, is a
  parameter. Shown: a projection is the grouping of the events by minute and value; sketches lose no observation and stay
  within the documented relative error; percentiles lie between the extremes and grow with the quantile.
\<close>

subsection \<open>Values\<close>

definition text_of :: "json \<Rightarrow> string" where
  "text_of v = (case v of JStr s \<Rightarrow> py_strip s | _ \<Rightarrow> [])"

definition finite_float :: "batch_env \<Rightarrow> json \<Rightarrow> rat option" where
  "finite_float env v =
     (case v of
        JBool _ \<Rightarrow> None
      | JNull \<Rightarrow> None
      | JStr [] \<Rightarrow> None
      | _ \<Rightarrow> (case be_float env (be_str env v) of Some (Finite q) \<Rightarrow> Some q | _ \<Rightarrow> None))"

definition optional_int :: "batch_env \<Rightarrow> json \<Rightarrow> int option" where
  "optional_int env v =
     (case finite_float env v of None \<Rightarrow> None | Some q \<Rightarrow> if of_int \<lfloor>q\<rfloor> = q then Some \<lfloor>q\<rfloor> else None)"

definition upper_char :: "char \<Rightarrow> char" where
  "upper_char c = (let n = of_char c :: nat in if 97 \<le> n \<and> n \<le> 122 then char_of (n - 32) else c)"

definition py_upper :: "string \<Rightarrow> string" where
  "py_upper s = map upper_char s"

definition starts_with :: "string \<Rightarrow> string \<Rightarrow> bool" where
  "starts_with p s \<longleftrightarrow> take (length p) s = p"

definition json_opt :: "rat option \<Rightarrow> json" where
  "json_opt v = (case v of None \<Rightarrow> JNull | Some q \<Rightarrow> JFloat q)"

subsection \<open>Percentiles and sketches\<close>

definition percentile_at :: "rat list \<Rightarrow> rat \<Rightarrow> rat" where
  "percentile_at ordered q =
     (let pos = of_nat (length ordered - 1) * q; lo = nat \<lfloor>pos\<rfloor>; hi = nat \<lceil>pos\<rceil>
      in if lo = hi then ordered ! lo else ordered ! lo + (ordered ! hi - ordered ! lo) * (pos - of_nat lo))"

definition percentiles :: "rat list \<Rightarrow> rat list \<Rightarrow> rat option list" where
  "percentiles vs qs = (if vs = [] then map (\<lambda>_. None) qs else map (\<lambda>q. Some (percentile_at (sort vs) q)) qs)"

definition GAMMA :: rat where
  "GAMMA = 51 / 50"

definition RELATIVE_ERROR :: rat where
  "RELATIVE_ERROR = (GAMMA - 1) / (GAMMA + 1)"

definition gamma_power :: "int \<Rightarrow> rat" where
  "gamma_power i = (if 0 \<le> i then GAMMA ^ nat i else inverse (GAMMA ^ nat (- i)))"

definition centroid :: "(rat \<Rightarrow> int) \<Rightarrow> rat \<Rightarrow> rat" where
  "centroid log_index v =
     (if v = 0 then 0 else let c = 2 * gamma_power (log_index \<bar>v\<bar>) / (GAMMA + 1) in if v < 0 then - c else c)"

definition sketch :: "(rat \<Rightarrow> int) \<Rightarrow> rat list \<Rightarrow> rat list \<times> int list" where
  "sketch log_index vs =
     (let cs = map (centroid log_index) vs; centroids = sort (remdups cs)
      in (centroids, map (\<lambda>c. int (length (filter (\<lambda>x. x = c) cs))) centroids))"

subsection \<open>Grouping\<close>

type_synonym 'a updates = "('a \<Rightarrow> 'a) list"

definition group_update :: "'a \<Rightarrow> ('k \<times> 'a) list \<Rightarrow> 'k \<times> ('a \<Rightarrow> 'a) \<Rightarrow> ('k \<times> 'a) list" where
  "group_update fresh d u = dict_set (fst u) (snd u (the_default fresh (map_of d (fst u)))) d"

text \<open>The loop over the rows: rows without a minute are skipped, the others update the groups in order.\<close>

fun group_rows :: "batch_env \<Rightarrow> 'a \<Rightarrow> (timestamp \<Rightarrow> row \<Rightarrow> ('k \<times> ('a \<Rightarrow> 'a)) list) \<Rightarrow> row list \<Rightarrow> ('k \<times> 'a) list \<Rightarrow> ('k \<times> 'a) list result" where
  "group_rows env fresh f [] d = Inr d"
| "group_rows env fresh f (r # rs) d =
     ebind (bucket env (row_get r ''timestamp'')) (\<lambda>b.
     case b of
       None \<Rightarrow> group_rows env fresh f rs d
     | Some bkt \<Rightarrow> group_rows env fresh f rs (foldl (group_update fresh) d (f bkt r)))"

definition sorted_items :: "('k :: linorder \<times> 'a) list \<Rightarrow> ('k \<times> 'a) list" where
  "sorted_items d = sort_key fst d"

type_synonym dimension_key = "timestamp \<times> string \<times> string"

subsection \<open>Origin\<close>

record origin_accumulator =
  oa_requests :: int
  oa_misses :: int
  oa_passes :: int
  oa_origin_5xx :: int
  oa_status_count :: int
  oa_origin_bytes :: int
  oa_latencies :: "rat list"
  oa_ttlb_values :: "rat list"
  oa_overhead_values :: "rat list"
  oa_byte_values :: "rat list"

definition fresh_origin :: origin_accumulator where
  "fresh_origin = \<lparr>oa_requests = 0, oa_misses = 0, oa_passes = 0, oa_origin_5xx = 0, oa_status_count = 0, oa_origin_bytes = 0,
     oa_latencies = [], oa_ttlb_values = [], oa_overhead_values = [], oa_byte_values = []\<rparr>"

definition int_of_bool :: "bool \<Rightarrow> int" where
  "int_of_bool b = (if b then 1 else 0)"

definition is_5xx :: "int option \<Rightarrow> bool" where
  "is_5xx status = (case status of None \<Rightarrow> False | Some s \<Rightarrow> 500 \<le> s \<and> s < 600)"

definition origin_latency_us :: "batch_env \<Rightarrow> row \<Rightarrow> rat option" where
  "origin_latency_us env r =
     (case finite_float env (row_get r ''ottfb'') of
        Some q \<Rightarrow> Some q
      | None \<Rightarrow> (case finite_float env (row_get r ''ttfb'') of None \<Rightarrow> None | Some q \<Rightarrow> Some (q * 1000000)))"

definition non_negative_integer :: "batch_env \<Rightarrow> json \<Rightarrow> int option" where
  "non_negative_integer env v = (case optional_int env v of Some n \<Rightarrow> if 0 \<le> n then Some n else None | None \<Rightarrow> None)"

definition add_latency_metrics :: "batch_env \<Rightarrow> row \<Rightarrow> rat \<Rightarrow> int option \<Rightarrow> int option \<Rightarrow> origin_accumulator \<Rightarrow> origin_accumulator" where
  "add_latency_metrics env r latency status origin_bytes acc =
     (let cache = py_upper (text_of (row_get r ''cache''));
          a1 = acc\<lparr>oa_requests := oa_requests acc + 1, oa_latencies := oa_latencies acc @ [latency],
                 oa_misses := oa_misses acc + int_of_bool (starts_with ''MISS'' cache),
                 oa_passes := oa_passes acc + int_of_bool (starts_with ''PASS'' cache),
                 oa_origin_5xx := oa_origin_5xx acc + int_of_bool (is_5xx status),
                 oa_status_count := oa_status_count acc + int_of_bool (status \<noteq> None)\<rparr>;
          a2 = (case origin_bytes of
                  None \<Rightarrow> a1
                | Some n \<Rightarrow> a1\<lparr>oa_origin_bytes := oa_origin_bytes a1 + n, oa_byte_values := oa_byte_values a1 @ [of_int n]\<rparr>)
      in case finite_float env (row_get r ''ottlb'') of
           None \<Rightarrow> a2
         | Some ttlb \<Rightarrow>
             (let a3 = a2\<lparr>oa_ttlb_values := oa_ttlb_values a2 @ [ttlb]\<rparr>
              in case finite_float env (row_get r ''elapsed'') of
                   None \<Rightarrow> a3
                 | Some elapsed \<Rightarrow> a3\<lparr>oa_overhead_values := oa_overhead_values a3 @ [elapsed - ttlb]\<rparr>))"

definition add_dimension_metrics :: "rat option \<Rightarrow> int option \<Rightarrow> int option \<Rightarrow> origin_accumulator \<Rightarrow> origin_accumulator" where
  "add_dimension_metrics latency status origin_bytes acc =
     (let a1 = (case latency of None \<Rightarrow> acc | Some l \<Rightarrow> acc\<lparr>oa_latencies := oa_latencies acc @ [l]\<rparr>);
          a2 = a1\<lparr>oa_origin_5xx := oa_origin_5xx a1 + int_of_bool (is_5xx status)\<rparr>
      in case origin_bytes of None \<Rightarrow> a2 | Some n \<Rightarrow> a2\<lparr>oa_origin_bytes := oa_origin_bytes a2 + n\<rparr>)"

definition one_request :: "origin_accumulator \<Rightarrow> origin_accumulator" where
  "one_request acc = acc\<lparr>oa_requests := oa_requests acc + 1\<rparr>"

definition latency_dimensions :: "row \<Rightarrow> (string \<times> string) list" where
  "latency_dimensions r =
     filter (\<lambda>(_, v). v \<noteq> []) [(''url'', text_of (row_get r ''url'')), (''pop'', text_of (row_get r ''pop''))]
     @ (case row_get r ''edge'' of JBool b \<Rightarrow> [(''edge'', if b then ''true'' else ''false'')] | _ \<Rightarrow> [])"

definition origin_summary_updates :: "batch_env \<Rightarrow> timestamp \<Rightarrow> row \<Rightarrow> (timestamp \<times> (origin_accumulator \<Rightarrow> origin_accumulator)) list" where
  "origin_summary_updates env bkt r =
     (case origin_latency_us env r of
        None \<Rightarrow> []
      | Some latency \<Rightarrow>
          [(bkt, add_latency_metrics env r latency (optional_int env (row_get r ''ost''))
                   (non_negative_integer env (row_get r ''obytes'')))])"

definition origin_dimension_updates ::
  "batch_env \<Rightarrow> timestamp \<Rightarrow> row \<Rightarrow> (dimension_key \<times> (origin_accumulator \<Rightarrow> origin_accumulator)) list" where
  "origin_dimension_updates env bkt r =
     (let latency = origin_latency_us env r; status = optional_int env (row_get r ''ost'');
          origin_bytes = non_negative_integer env (row_get r ''obytes''); origin_ip = text_of (row_get r ''oip'')
      in (case status of
            None \<Rightarrow> []
          | Some s \<Rightarrow>
              [((bkt, ''status'', show_int (if 100 \<le> s \<and> s \<le> 599 then s else - 1)),
                \<lambda>acc. (one_request acc)\<lparr>oa_origin_5xx := oa_origin_5xx acc + int_of_bool (500 \<le> s \<and> s < 600)\<rparr>)])
         @ (if latency = None then []
            else map (\<lambda>(dimension, v). ((bkt, dimension, v), \<lambda>acc. add_dimension_metrics latency status origin_bytes (one_request acc)))
                   (latency_dimensions r))
         @ (if origin_ip \<noteq> [] \<and> status \<noteq> None
            then [((bkt, ''oip'', origin_ip), \<lambda>acc. add_dimension_metrics latency status origin_bytes (one_request acc))]
            else []))"

record projection_env =
  pe_batch :: batch_env
  pe_isoformat :: "timestamp \<Rightarrow> string"
  pe_log_index :: "rat \<Rightarrow> int"

definition sketch_fields :: "projection_env \<Rightarrow> string \<Rightarrow> rat list \<Rightarrow> row" where
  "sketch_fields env name vs =
     (case sketch (pe_log_index env) vs of
        (cs, ws) \<Rightarrow> [(name @ ''_sk_v'', JList (map JFloat cs)), (name @ ''_sk_w'', JList (map JInt ws))])"

definition origin_summary_row :: "projection_env \<Rightarrow> timestamp \<times> origin_accumulator \<Rightarrow> row" where
  "origin_summary_row env item =
     (case item of (bkt, acc) \<Rightarrow>
        [(''bucket_start'', JStr (pe_isoformat env bkt)), (''requests'', JInt (oa_requests acc)), (''misses'', JInt (oa_misses acc)),
         (''passes'', JInt (oa_passes acc)), (''origin_5xx'', JInt (oa_origin_5xx acc)), (''status_count'', JInt (oa_status_count acc)),
         (''origin_bytes'', JInt (oa_origin_bytes acc)), (''latency_count'', JInt (int (length (oa_latencies acc)))),
         (''ttlb_count'', JInt (int (length (oa_ttlb_values acc)))), (''overhead_count'', JInt (int (length (oa_overhead_values acc)))),
         (''origin_bytes_count'', JInt (int (length (oa_byte_values acc))))]
        @ zip [''latency_p50_us'', ''latency_p75_us'', ''latency_p95_us'', ''latency_p99_us'']
            (map json_opt (percentiles (oa_latencies acc) [1/2, 3/4, 19/20, 99/100]))
        @ zip [''ttlb_p50_us'', ''ttlb_p95_us''] (map json_opt (percentiles (oa_ttlb_values acc) [1/2, 19/20]))
        @ zip [''cdn_overhead_p50_us''] (map json_opt (percentiles (oa_overhead_values acc) [1/2]))
        @ zip [''origin_bytes_p50''] (map json_opt (percentiles (oa_byte_values acc) [1/2]))
        @ sketch_fields env ''latency'' (oa_latencies acc) @ sketch_fields env ''ttlb'' (oa_ttlb_values acc)
        @ sketch_fields env ''overhead'' (oa_overhead_values acc) @ sketch_fields env ''origin_bytes'' (oa_byte_values acc))"

definition origin_dimension_row :: "projection_env \<Rightarrow> dimension_key \<times> origin_accumulator \<Rightarrow> row" where
  "origin_dimension_row env item =
     (case item of ((bkt, dimension, v), acc) \<Rightarrow>
        [(''bucket_start'', JStr (pe_isoformat env bkt)), (''dimension'', JStr dimension), (''value'', JStr v),
         (''requests'', JInt (oa_requests acc)), (''origin_5xx'', JInt (oa_origin_5xx acc)), (''origin_bytes'', JInt (oa_origin_bytes acc)),
         (''latency_count'', JInt (int (length (oa_latencies acc))))]
        @ zip [''latency_p50_us'', ''latency_p95_us'', ''latency_p99_us'']
            (map json_opt (percentiles (oa_latencies acc) [1/2, 19/20, 99/100]))
        @ sketch_fields env ''latency'' (oa_latencies acc))"

definition build_origin_projection_rows :: "projection_env \<Rightarrow> row list \<Rightarrow> (row list \<times> row list) result" where
  "build_origin_projection_rows env rows =
     ebind (group_rows (pe_batch env) fresh_origin (origin_summary_updates (pe_batch env)) rows []) (\<lambda>summaries.
     ebind (group_rows (pe_batch env) fresh_origin (origin_dimension_updates (pe_batch env)) rows []) (\<lambda>dimensions.
     Inr (map (origin_summary_row env) (sorted_items summaries), map (origin_dimension_row env) (sorted_items dimensions))))"

subsection \<open>Performance\<close>

record latency_accumulator =
  la_requests :: int
  la_latencies :: "rat list"

record waterfall_sums =
  ws_count :: int
  ws_edge_processing :: rat
  ws_origin_wait :: rat
  ws_origin_download :: rat
  ws_client_download :: rat

definition fresh_latency :: latency_accumulator where
  "fresh_latency = \<lparr>la_requests = 0, la_latencies = []\<rparr>"

definition fresh_waterfall :: waterfall_sums where
  "fresh_waterfall = \<lparr>ws_count = 0, ws_edge_processing = 0, ws_origin_wait = 0, ws_origin_download = 0, ws_client_download = 0\<rparr>"

definition SCATTER_SAMPLE_SIZE :: nat where
  "SCATTER_SAMPLE_SIZE = 300"

definition asn_text :: "batch_env \<Rightarrow> json \<Rightarrow> string" where
  "asn_text env v =
     (case v of
        JBool _ \<Rightarrow> []
      | JInt n \<Rightarrow> show_int n
      | JFloat q \<Rightarrow> if of_int \<lfloor>q\<rfloor> = q then show_int \<lfloor>q\<rfloor> else text_of v
      | _ \<Rightarrow> text_of v)"

definition add_latency :: "rat option \<Rightarrow> latency_accumulator \<Rightarrow> latency_accumulator" where
  "add_latency elapsed acc =
     (let a = acc\<lparr>la_requests := la_requests acc + 1\<rparr>
      in case elapsed of None \<Rightarrow> a | Some e \<Rightarrow> a\<lparr>la_latencies := la_latencies a @ [e]\<rparr>)"

definition performance_updates ::
  "batch_env \<Rightarrow> timestamp \<Rightarrow> row \<Rightarrow> (dimension_key \<times> (latency_accumulator \<Rightarrow> latency_accumulator)) list" where
  "performance_updates env bkt r =
     map (\<lambda>(dimension, v). ((bkt, dimension, v), add_latency (finite_float env (row_get r ''elapsed''))))
       (filter (\<lambda>(_, v). v \<noteq> [])
          [(''url'', text_of (row_get r ''url'')), (''asn'', asn_text env (row_get r ''asn'')),
           (''bot'', text_of (row_get r ''_ngwaf_bot_name''))])"

text \<open>\<open>ttfb\<close> and \<open>elapsed\<close> of a row in milliseconds, when it has both.\<close>

definition component_times :: "batch_env \<Rightarrow> row \<Rightarrow> (rat \<times> rat) option" where
  "component_times env r =
     (case (finite_float env (row_get r ''elapsed''), finite_float env (row_get r ''ttfb'')) of
        (Some e, Some t) \<Rightarrow> Some (e / 1000, t * 1000)
      | _ \<Rightarrow> None)"

definition waterfall_updates :: "batch_env \<Rightarrow> timestamp \<Rightarrow> row \<Rightarrow> (timestamp \<times> (waterfall_sums \<Rightarrow> waterfall_sums)) list" where
  "waterfall_updates env bkt r =
     (case component_times env r of
        None \<Rightarrow> []
      | Some (elapsed_ms, ttfb_ms) \<Rightarrow>
          (let ottfb_ms = the_default 0 (finite_float env (row_get r ''ottfb'')) / 1000;
               ottlb_ms = the_default 0 (finite_float env (row_get r ''ottlb'')) / 1000
           in [(bkt, \<lambda>s. s\<lparr>ws_count := ws_count s + 1,
                 ws_edge_processing := ws_edge_processing s + max 0 (ttfb_ms - ottfb_ms),
                 ws_origin_wait := ws_origin_wait s + ottfb_ms,
                 ws_origin_download := ws_origin_download s + max 0 (ottlb_ms - ottfb_ms),
                 ws_client_download := ws_client_download s + max 0 (elapsed_ms - max ottlb_ms ttfb_ms)\<rparr>)]))"

definition hex_value :: "string \<Rightarrow> int" where
  "hex_value s = foldl (\<lambda>n c. 16 * n + (let k = int (of_char c) in if k < 58 then k - 48 else k - 87)) 0 s"

definition sample_key :: "batch_env \<Rightarrow> row \<Rightarrow> nat \<Rightarrow> int" where
  "sample_key env r index =
     (let event_id = text_of (row_get r ''event_id'');
          identity = if event_id \<noteq> [] then event_id
                     else be_str env (row_get r ''timestamp'') @ ''|'' @ be_str env (row_get r ''url'') @ ''|'' @ show_int (int index)
      in hex_value (take 16 (be_sha256 env identity)))"

text \<open>The candidates of the scatter sample, with the position of their row.\<close>

fun scatter_candidates :: "projection_env \<Rightarrow> nat \<Rightarrow> row list \<Rightarrow> ((int \<times> nat) \<times> row) list result" where
  "scatter_candidates env index [] = Inr []"
| "scatter_candidates env index (r # rs) =
     ebind (bucket (pe_batch env) (row_get r ''timestamp'')) (\<lambda>b.
     ebind (scatter_candidates env (Suc index) rs) (\<lambda>more.
     Inr (case (b, component_times (pe_batch env) r) of
            (Some bkt, Some (elapsed_ms, ttfb_ms)) \<Rightarrow>
              if elapsed_ms - ttfb_ms < 0 then more
              else let k = sample_key (pe_batch env) r index
                   in ((k, index), [(''bucket_start'', JStr (pe_isoformat env bkt)), (''sample_key'', JInt k), (''origin_ms'', JFloat ttfb_ms),
                        (''edge_ms'', JFloat (elapsed_ms - ttfb_ms)), (''cache'', JStr (text_of (row_get r ''cache'')))]) # more
          | _ \<Rightarrow> more)))"

definition performance_summary_row :: "projection_env \<Rightarrow> timestamp \<times> waterfall_sums \<Rightarrow> row" where
  "performance_summary_row env item =
     (case item of (bkt, s) \<Rightarrow>
        [(''bucket_start'', JStr (pe_isoformat env bkt)), (''component_count'', JInt (ws_count s)),
         (''edge_processing_sum_ms'', JFloat (ws_edge_processing s)), (''origin_wait_sum_ms'', JFloat (ws_origin_wait s)),
         (''origin_download_sum_ms'', JFloat (ws_origin_download s)), (''client_download_sum_ms'', JFloat (ws_client_download s))])"

definition performance_dimension_row :: "projection_env \<Rightarrow> dimension_key \<times> latency_accumulator \<Rightarrow> row" where
  "performance_dimension_row env item =
     (case item of ((bkt, dimension, v), acc) \<Rightarrow>
        [(''bucket_start'', JStr (pe_isoformat env bkt)), (''dimension'', JStr dimension), (''value'', JStr v),
         (''requests'', JInt (la_requests acc)), (''latency_count'', JInt (int (length (la_latencies acc)))),
         (''latency_sum_ms'', if la_latencies acc = [] then JNull else JFloat (sum_list (la_latencies acc)))]
        @ zip [''latency_p50_ms'', ''latency_p95_ms'', ''latency_p99_ms'']
            (map json_opt (percentiles (la_latencies acc) [1/2, 19/20, 99/100])))"

record performance_projection =
  pp_dimension_rows :: "row list"
  pp_summary_rows :: "row list"
  pp_scatter_rows :: "row list"

definition build_performance_projection_rows :: "projection_env \<Rightarrow> row list \<Rightarrow> performance_projection result" where
  "build_performance_projection_rows env rows =
     ebind (group_rows (pe_batch env) fresh_latency (performance_updates (pe_batch env)) rows []) (\<lambda>dimensions.
     ebind (group_rows (pe_batch env) fresh_waterfall (waterfall_updates (pe_batch env)) rows []) (\<lambda>waterfalls.
     ebind (scatter_candidates env 0 rows) (\<lambda>candidates.
     Inr \<lparr>pp_dimension_rows = map (performance_dimension_row env) (sorted_items dimensions),
          pp_summary_rows = map (performance_summary_row env) (sorted_items waterfalls),
          pp_scatter_rows = map snd (take SCATTER_SAMPLE_SIZE (sort_key fst candidates))\<rparr>)))"

subsection \<open>Security\<close>

record security_accumulator =
  sa_requests :: int
  sa_wellknown_bot_name :: string
  sa_bot_category :: string
  sa_verified_count :: int
  sa_impersonator_count :: int
  sa_unverified_count :: int

definition fresh_security :: security_accumulator where
  "fresh_security = \<lparr>sa_requests = 0, sa_wellknown_bot_name = [], sa_bot_category = [], sa_verified_count = 0,
     sa_impersonator_count = 0, sa_unverified_count = 0\<rparr>"

definition first_nonempty :: "string \<Rightarrow> string \<Rightarrow> string" where
  "first_nonempty a b = (if a \<noteq> [] then a else b)"

definition add_bot :: "row \<Rightarrow> security_accumulator \<Rightarrow> security_accumulator" where
  "add_bot r acc =
     (let state = text_of (get_default r ''ngwaf_bot_verification_state'' (JStr ''unverified''))
      in acc\<lparr>sa_requests := sa_requests acc + 1,
           sa_verified_count := sa_verified_count acc + int_of_bool (state = ''verified''),
           sa_impersonator_count := sa_impersonator_count acc + int_of_bool (state = ''impersonator''),
           sa_unverified_count := sa_unverified_count acc + int_of_bool (state \<notin> set [''verified'', ''impersonator'']),
           sa_wellknown_bot_name := first_nonempty (sa_wellknown_bot_name acc) (text_of (row_get r ''_ngwaf_wellknown_bot_name'')),
           sa_bot_category := first_nonempty (sa_bot_category acc) (text_of (row_get r ''_ngwaf_bot_category''))\<rparr>)"

definition security_updates :: "timestamp \<Rightarrow> row \<Rightarrow> (dimension_key \<times> (security_accumulator \<Rightarrow> security_accumulator)) list" where
  "security_updates bkt r =
     (let bot = text_of (row_get r ''_ngwaf_bot_name'') in if bot = [] then [] else [((bkt, ''ngwaf_bot'', bot), add_bot r)])"

definition security_dimension_row :: "projection_env \<Rightarrow> dimension_key \<times> security_accumulator \<Rightarrow> row" where
  "security_dimension_row env item =
     (case item of ((bkt, dimension, v), acc) \<Rightarrow>
        [(''bucket_start'', JStr (pe_isoformat env bkt)), (''dimension'', JStr dimension), (''value'', JStr v),
         (''requests'', JInt (sa_requests acc)), (''wellknown_bot_name'', JStr (sa_wellknown_bot_name acc)),
         (''bot_category'', JStr (sa_bot_category acc)), (''verified_count'', JInt (sa_verified_count acc)),
         (''impersonator_count'', JInt (sa_impersonator_count acc)), (''unverified_count'', JInt (sa_unverified_count acc))])"

definition build_security_projection_rows :: "projection_env \<Rightarrow> row list \<Rightarrow> row list result" where
  "build_security_projection_rows env rows =
     ebind (group_rows (pe_batch env) fresh_security security_updates rows []) (\<lambda>dimensions.
     Inr (map (security_dimension_row env) (sorted_items dimensions)))"

subsection \<open>Network\<close>

record network_accumulator =
  na_requests :: int
  na_errors :: int
  na_tcp_rtts :: "rat list"
  na_ttfbs :: "rat list"
  na_ploss_sum :: rat
  na_ploss_count :: int

definition fresh_network :: network_accumulator where
  "fresh_network = \<lparr>na_requests = 0, na_errors = 0, na_tcp_rtts = [], na_ttfbs = [], na_ploss_sum = 0, na_ploss_count = 0\<rparr>"

definition append_positive :: "rat option \<Rightarrow> rat list \<Rightarrow> rat list" where
  "append_positive v vs = (case v of Some q \<Rightarrow> if 0 < q then vs @ [q] else vs | None \<Rightarrow> vs)"

definition network_update :: "bool \<Rightarrow> rat option \<Rightarrow> rat option \<Rightarrow> rat option \<Rightarrow> network_accumulator \<Rightarrow> network_accumulator" where
  "network_update is_error tcp_rtt ttfb ploss acc =
     (let a = acc\<lparr>na_requests := na_requests acc + 1, na_errors := na_errors acc + int_of_bool is_error,
                na_tcp_rtts := append_positive tcp_rtt (na_tcp_rtts acc), na_ttfbs := append_positive ttfb (na_ttfbs acc)\<rparr>
      in case ploss of None \<Rightarrow> a | Some p \<Rightarrow> a\<lparr>na_ploss_sum := na_ploss_sum a + p, na_ploss_count := na_ploss_count a + 1\<rparr>)"

type_synonym network_key = "timestamp \<times> string \<times> string \<times> string"

definition network_updates :: "batch_env \<Rightarrow> timestamp \<Rightarrow> row \<Rightarrow> (network_key \<times> (network_accumulator \<Rightarrow> network_accumulator)) list" where
  "network_updates env bkt r =
     (let is_error = (case optional_int env (row_get r ''status'') of None \<Rightarrow> False | Some s \<Rightarrow> 500 \<le> s);
          upd = network_update is_error (finite_float env (row_get r ''tcp_rtt'')) (finite_float env (row_get r ''ttfb''))
                  (finite_float env (row_get r ''ploss''))
      in map (\<lambda>dim. ((bkt, dim, text_of (row_get r dim), if dim = ''asn'' then text_of (row_get r ''c_speed'') else []), upd))
           (filter (\<lambda>dim. text_of (row_get r dim) \<noteq> []) [''country'', ''asn'', ''pop'', ''region'']))"

definition network_dimension_row :: "projection_env \<Rightarrow> network_key \<times> network_accumulator \<Rightarrow> row" where
  "network_dimension_row env item =
     (case item of ((bkt, dimension, v, c_speed), acc) \<Rightarrow>
        [(''bucket_start'', JStr (pe_isoformat env bkt)), (''dimension'', JStr dimension), (''value'', JStr v), (''c_speed'', JStr c_speed),
         (''requests'', JInt (na_requests acc)), (''errors'', JInt (na_errors acc)),
         (''tcp_rtt_count'', JInt (int (length (na_tcp_rtts acc)))),
         (''tcp_rtt_sum'', if na_tcp_rtts acc = [] then JNull else JFloat (sum_list (na_tcp_rtts acc)))]
        @ zip [''tcp_rtt_p50_us'', ''tcp_rtt_p95_us'', ''tcp_rtt_p99_us'']
            (map json_opt (percentiles (na_tcp_rtts acc) [1/2, 19/20, 99/100]))
        @ [(''ploss_sum'', if 0 < na_ploss_count acc then JFloat (na_ploss_sum acc) else JNull), (''ploss_count'', JInt (na_ploss_count acc))]
        @ zip [''ttfb_p50_us'', ''ttfb_p95_us''] (map json_opt (percentiles (na_ttfbs acc) [1/2, 19/20])))"

definition build_network_projection_rows :: "projection_env \<Rightarrow> row list \<Rightarrow> row list result" where
  "build_network_projection_rows env rows =
     ebind (group_rows (pe_batch env) fresh_network (network_updates (pe_batch env)) rows []) (\<lambda>dimensions.
     Inr (map (network_dimension_row env) (sorted_items dimensions)))"

subsection \<open>CMCD\<close>

definition decimal_value :: "string \<Rightarrow> int" where
  "decimal_value s = foldl (\<lambda>n c. 10 * n + (int (of_char c) - 48)) 0 s"

definition cmcd_asn :: "json \<Rightarrow> int option" where
  "cmcd_asn v =
     (case v of
        JInt n \<Rightarrow> if 0 < n then Some n else None
      | JStr s \<Rightarrow>
          (let t = py_strip s in
           if t \<noteq> [] \<and> list_all (\<lambda>c. c \<in> set ''0123456789'') t \<and> decimal_value t \<noteq> 0 then Some (decimal_value t) else None)
      | _ \<Rightarrow> None)"

definition non_empty_text :: "json \<Rightarrow> string \<Rightarrow> string result" where
  "non_empty_text v msg = (case v of JStr (c # s) \<Rightarrow> Inr (c # s) | _ \<Rightarrow> Inl (ValueError msg))"

definition project_cmcd :: "batch_env \<Rightarrow> row \<Rightarrow> row option result" where
  "project_cmcd env r =
     (case row_get r ''cmcd'' of
        JNull \<Rightarrow> Inr None
      | JObj raw_fields \<Rightarrow>
          ebind (non_empty_text (row_get r ''event_id'') ''CMCD projection requires request_event_id'') (\<lambda>request_event_id.
          ebind (non_empty_text (row_get r ''service_id'') ''CMCD projection requires service_id'') (\<lambda>service_id.
          ebind (build_cmcd_projection_key (be_sha_uuid env) [(''request_event_id'', JStr request_event_id)]) (\<lambda>key.
          Inr (Some [(''projection_key'', JStr key), (''request_event_id'', JStr request_event_id), (''service_id'', JStr service_id),
                 (''timestamp'', row_get r ''timestamp''), (''cmcd_version'', row_get r ''cmcd_version''), (''sid'', row_get r ''sid''),
                 (''country'', JStr (text_of (row_get r ''country''))),
                 (''asn'', case cmcd_asn (row_get r ''asn'') of None \<Rightarrow> JNull | Some n \<Rightarrow> JInt n), (''fields'', JObj raw_fields)]))))
      | _ \<Rightarrow> Inl (ValueError ''CMCD fields must be a mapping''))"

subsection \<open>Grouping is grouping\<close>

text \<open>The updates of the rows in order, and what grouping them by key gives.\<close>

definition minute_of :: "batch_env \<Rightarrow> row \<Rightarrow> timestamp option" where
  "minute_of env r = (case bucket env (row_get r ''timestamp'') of Inr b \<Rightarrow> b | Inl _ \<Rightarrow> None)"

definition row_updates :: "batch_env \<Rightarrow> (timestamp \<Rightarrow> row \<Rightarrow> ('k \<times> ('a \<Rightarrow> 'a)) list) \<Rightarrow> row list \<Rightarrow> ('k \<times> ('a \<Rightarrow> 'a)) list" where
  "row_updates env f rows = concat (map (\<lambda>r. case minute_of env r of None \<Rightarrow> [] | Some b \<Rightarrow> f b r) rows)"

definition apply_all :: "'a \<Rightarrow> 'a updates \<Rightarrow> 'a" where
  "apply_all a fs = foldl (\<lambda>a f. f a) a fs"

definition updates_of :: "'k \<Rightarrow> ('k \<times> ('a \<Rightarrow> 'a)) list \<Rightarrow> 'a updates" where
  "updates_of k us = map snd (filter (\<lambda>u. fst u = k) us)"

definition grouped :: "'a \<Rightarrow> ('k :: linorder \<times> ('a \<Rightarrow> 'a)) list \<Rightarrow> ('k \<times> 'a) list" where
  "grouped fresh us = map (\<lambda>k. (k, apply_all fresh (updates_of k us))) (sort (remdups (map fst us)))"

definition only_value_errors :: "batch_env \<Rightarrow> bool" where
  "only_value_errors env \<longleftrightarrow> (\<forall>s e. be_fromiso env s = Inl e \<longrightarrow> (\<exists>m. e = ValueError m))"

lemma bucket_total: "only_value_errors env \<Longrightarrow> \<exists>b. bucket env v = Inr b"
  by (cases v) (auto simp: bucket_def only_value_errors_def split: sum.splits py_error.splits)

lemma group_rows_updates:
  "only_value_errors env \<Longrightarrow> group_rows env fresh f rows d = Inr (foldl (group_update fresh) d (row_updates env f rows))"
proof (induction rows arbitrary: d)
  case (Cons r rows)
  from bucket_total [OF Cons.prems] obtain b where b: "bucket env (row_get r ''timestamp'') = Inr b" by blast
  then show ?case using Cons by (cases b) (simp_all add: row_updates_def minute_of_def)
qed (simp add: row_updates_def)

lemma group_updates_keys:
  "distinct (map fst d) \<Longrightarrow> distinct (map fst (foldl (group_update fresh) d us))
     \<and> fst ` set (foldl (group_update fresh) d us) = fst ` set d \<union> fst ` set us"
proof (induction us arbitrary: d)
  case (Cons u us)
  from Cons.IH [of "group_update fresh d u"] Cons.prems show ?case
    by (simp add: group_update_def distinct_dict_set fst_dict_set insert_commute)
qed simp

lemma group_updates_lookup:
  "k \<in> fst ` set us \<union> fst ` set d \<Longrightarrow>
     map_of (foldl (group_update fresh) d us) k = Some (apply_all (the_default fresh (map_of d k)) (updates_of k us))"
proof (induction us arbitrary: d)
  case Nil
  then show ?case by (auto simp: apply_all_def updates_of_def map_of_eq_None_iff the_default_def split: option.splits)
next
  case (Cons u us)
  have "k \<in> fst ` set us \<union> fst ` set (group_update fresh d u)"
    using Cons.prems by (auto simp: group_update_def fst_dict_set)
  from Cons.IH [OF this] show ?case by (auto simp: group_update_def apply_all_def updates_of_def the_default_def)
qed

lemma sorted_items_unique:
  fixes d :: "('k :: linorder \<times> 'a) list"
  assumes "distinct (map fst d)"
  shows "sorted_items d = map (\<lambda>k. (k, the (map_of d k))) (sort (map fst d))"
proof -
  have "map (\<lambda>k. (k, the (map_of d k))) (map fst (sorted_items d)) = sorted_items d"
  proof (simp add: comp_def, rule map_idI)
    fix x assume "x \<in> set (sorted_items d)"
    then have "(fst x, snd x) \<in> set d" by (simp add: sorted_items_def)
    with assms have "map_of d (fst x) = Some (snd x)" by (simp add: map_of_eq_Some_iff)
    then show "(fst x, the (map_of d (fst x))) = x" by simp
  qed
  moreover have "map fst (sorted_items d) = sort (map fst d)"
    by (rule sorted_distinct_set_unique) (use assms in \<open>auto simp: sorted_items_def distinct_map inj_on_def\<close>)
  ultimately show ?thesis by simp
qed

lemma group_rows_grouped:
  fixes f :: "timestamp \<Rightarrow> row \<Rightarrow> ('k :: linorder \<times> ('a \<Rightarrow> 'a)) list"
  assumes "only_value_errors env"
  obtains d where "group_rows env fresh f rows [] = Inr d" and "sorted_items d = grouped fresh (row_updates env f rows)"
proof -
  let ?us = "row_updates env f rows"
  let ?d = "foldl (group_update fresh) [] ?us"
  have keys: "distinct (map fst ?d)" "set (map fst ?d) = fst ` set ?us"
    using group_updates_keys [of "[]" fresh ?us] by simp_all
  then have "sort (map fst ?d) = sort (remdups (map fst ?us))"
    by (intro sorted_distinct_set_unique) auto
  moreover have "(k, the (map_of ?d k)) = (k, apply_all fresh (updates_of k ?us))" if "k \<in> set (map fst ?us)" for k
    using group_updates_lookup [of k ?us "[]" fresh] that by simp
  ultimately have "sorted_items ?d = grouped fresh ?us"
    unfolding sorted_items_unique [OF keys(1)] grouped_def by (auto intro!: map_cong)
  with group_rows_updates [OF assms] show thesis by (intro that [of ?d]) simp_all
qed

text \<open>A quantity that every update raises by a step is raised by the sum of the steps.\<close>

lemma apply_all_induct:
  assumes "P a" and "\<And>f b. f \<in> set fs \<Longrightarrow> P b \<Longrightarrow> P (f b)"
  shows "P (apply_all a fs)"
  using assms unfolding apply_all_def by (induction fs arbitrary: a) auto

lemma apply_all_count:
  fixes q :: "'a \<Rightarrow> int"
  assumes "\<And>f b. f \<in> set fs \<Longrightarrow> q (f b) = q b + 1"
  shows "q (apply_all a fs) = q a + int (length fs)"
  using assms unfolding apply_all_def by (induction fs arbitrary: a) auto

lemma grouped_keys:
  "map fst (grouped fresh us) = sort (remdups (map fst us))" "sorted_wrt (<) (map fst (grouped fresh us))"
  by (simp_all add: grouped_def comp_def strict_sorted_iff)

lemma grouped_item:
  "(k, acc) \<in> set (grouped fresh us) \<longleftrightarrow> k \<in> fst ` set us \<and> acc = apply_all fresh (updates_of k us)"
  by (auto simp: grouped_def)

lemma updates_of_set: "f \<in> set (updates_of k us) \<Longrightarrow> (k, f) \<in> set us"
  by (auto simp: updates_of_def)

lemma updates_of_length: "length (updates_of k us) = length (filter (\<lambda>u. fst u = k) us)"
  by (simp add: updates_of_def)

lemma row_updates_in: "u \<in> set (row_updates env f rows) \<Longrightarrow> \<exists>b r. r \<in> set rows \<and> minute_of env r = Some b \<and> u \<in> set (f b r)"
  by (auto simp: row_updates_def split: option.splits) metis

lemma scatter_total: "only_value_errors (pe_batch env) \<Longrightarrow> \<exists>c. scatter_candidates env n rows = Inr c"
proof (induction rows arbitrary: n)
  case (Cons r rows)
  from Cons.IH [OF Cons.prems, of "Suc n"] bucket_total [OF Cons.prems, of "row_get r ''timestamp''"] show ?case by auto
qed simp

text \<open>
  C30. The projections are groupings. As long as the date parser raises nothing but \<open>ValueError\<close>, each builder
  returns, and its dimension and summary rows are the reference: the events that have a minute, grouped by minute,
  dimension and value, one row per key, in ascending order of the keys, each accumulated from the events of that key in order.
\<close>

theorem projections_are_groupings:
  assumes "only_value_errors (pe_batch env)"
  shows "build_origin_projection_rows env rows =
      Inr (map (origin_summary_row env) (grouped fresh_origin (row_updates (pe_batch env) (origin_summary_updates (pe_batch env)) rows)),
           map (origin_dimension_row env) (grouped fresh_origin (row_updates (pe_batch env) (origin_dimension_updates (pe_batch env)) rows)))
    \<and> build_security_projection_rows env rows =
      Inr (map (security_dimension_row env) (grouped fresh_security (row_updates (pe_batch env) security_updates rows)))
    \<and> build_network_projection_rows env rows =
      Inr (map (network_dimension_row env) (grouped fresh_network (row_updates (pe_batch env) (network_updates (pe_batch env)) rows)))
    \<and> (\<exists>p. build_performance_projection_rows env rows = Inr p
      \<and> pp_dimension_rows p = map (performance_dimension_row env)
          (grouped fresh_latency (row_updates (pe_batch env) (performance_updates (pe_batch env)) rows))
      \<and> pp_summary_rows p = map (performance_summary_row env)
          (grouped fresh_waterfall (row_updates (pe_batch env) (waterfall_updates (pe_batch env)) rows))
      \<and> length (pp_scatter_rows p) \<le> SCATTER_SAMPLE_SIZE)"
proof -
  obtain candidates where c: "scatter_candidates env 0 rows = Inr candidates" using scatter_total [OF assms] by blast
  obtain d1 where d1: "group_rows (pe_batch env) fresh_origin (origin_summary_updates (pe_batch env)) rows [] = Inr d1"
      "sorted_items d1 = grouped fresh_origin (row_updates (pe_batch env) (origin_summary_updates (pe_batch env)) rows)"
    using assms by (rule group_rows_grouped)
  obtain d2 where d2: "group_rows (pe_batch env) fresh_origin (origin_dimension_updates (pe_batch env)) rows [] = Inr d2"
      "sorted_items d2 = grouped fresh_origin (row_updates (pe_batch env) (origin_dimension_updates (pe_batch env)) rows)"
    using assms by (rule group_rows_grouped)
  obtain d3 where d3: "group_rows (pe_batch env) fresh_security security_updates rows [] = Inr d3"
      "sorted_items d3 = grouped fresh_security (row_updates (pe_batch env) security_updates rows)"
    using assms by (rule group_rows_grouped)
  obtain d4 where d4: "group_rows (pe_batch env) fresh_network (network_updates (pe_batch env)) rows [] = Inr d4"
      "sorted_items d4 = grouped fresh_network (row_updates (pe_batch env) (network_updates (pe_batch env)) rows)"
    using assms by (rule group_rows_grouped)
  obtain d5 where d5: "group_rows (pe_batch env) fresh_latency (performance_updates (pe_batch env)) rows [] = Inr d5"
      "sorted_items d5 = grouped fresh_latency (row_updates (pe_batch env) (performance_updates (pe_batch env)) rows)"
    using assms by (rule group_rows_grouped)
  obtain d6 where d6: "group_rows (pe_batch env) fresh_waterfall (waterfall_updates (pe_batch env)) rows [] = Inr d6"
      "sorted_items d6 = grouped fresh_waterfall (row_updates (pe_batch env) (waterfall_updates (pe_batch env)) rows)"
    using assms by (rule group_rows_grouped)
  show ?thesis
    by (simp add: build_origin_projection_rows_def build_security_projection_rows_def build_network_projection_rows_def
        build_performance_projection_rows_def c d1 d2 d3 d4 d5 d6)
qed

subsection \<open>What the rows count\<close>

lemma requests_step:
  "oa_requests (add_latency_metrics env r l s n acc) = oa_requests acc + 1"
  "oa_requests (add_dimension_metrics lo s n acc) = oa_requests acc" "oa_requests (one_request acc) = oa_requests acc + 1"
  "la_requests (add_latency e lacc) = la_requests lacc + 1" "sa_requests (add_bot r sacc) = sa_requests sacc + 1"
  "na_requests (network_update b t u p nacc) = na_requests nacc + 1"
  by (simp_all add: add_latency_metrics_def add_dimension_metrics_def one_request_def add_latency_def add_bot_def network_update_def Let_def
      split: option.splits)

lemma origin_update_counts: "u \<in> set (origin_dimension_updates env b r) \<Longrightarrow> oa_requests (snd u acc) = oa_requests acc + 1"
  by (auto simp: origin_dimension_updates_def Let_def requests_step split: option.splits if_splits)

lemma network_update_counts: "u \<in> set (network_updates env b r) \<Longrightarrow> na_requests (snd u acc) = na_requests acc + 1"
  by (auto simp: network_updates_def Let_def requests_step)

lemma performance_update_counts: "u \<in> set (performance_updates env b r) \<Longrightarrow> la_requests (snd u acc) = la_requests acc + 1"
  by (auto simp: performance_updates_def requests_step)

lemma security_update_counts: "u \<in> set (security_updates b r) \<Longrightarrow> sa_requests (snd u acc) = sa_requests acc + 1"
  by (auto simp: security_updates_def Let_def requests_step split: if_splits)

lemma grouped_count:
  fixes q :: "'a \<Rightarrow> int"
  assumes "(k, acc) \<in> set (grouped fresh (row_updates env f rows))" and "q fresh = 0"
    and "\<And>b r u a. u \<in> set (f b r) \<Longrightarrow> q (snd u a) = q a + 1"
  shows "q acc = int (length (filter (\<lambda>u. fst u = k) (row_updates env f rows)))"
proof -
  let ?us = "row_updates env f rows"
  from assms(1) have "acc = apply_all fresh (updates_of k ?us)" by (simp add: grouped_item)
  moreover have "q (g a) = q a + 1" if "g \<in> set (updates_of k ?us)" for g a
    using updates_of_set [OF that] row_updates_in assms(3) by (metis snd_conv)
  ultimately show ?thesis using apply_all_count [of "updates_of k ?us" q fresh] assms(2) by (simp add: updates_of_length)
qed

definition origin_counts_ok :: "origin_accumulator \<Rightarrow> bool" where
  "origin_counts_ok acc \<longleftrightarrow> oa_requests acc = int (length (oa_latencies acc)) \<and> 0 \<le> oa_misses acc \<and> 0 \<le> oa_passes acc
     \<and> oa_misses acc + oa_passes acc \<le> oa_requests acc \<and> oa_origin_5xx acc \<le> oa_status_count acc \<and> oa_status_count acc \<le> oa_requests acc
     \<and> length (oa_overhead_values acc) \<le> length (oa_ttlb_values acc) \<and> int (length (oa_ttlb_values acc)) \<le> oa_requests acc"

lemma miss_or_pass: "starts_with ''MISS'' s \<Longrightarrow> \<not> starts_with ''PASS'' s"
  by (cases s) (auto simp: starts_with_def)

lemma add_latency_metrics_ok: "origin_counts_ok acc \<Longrightarrow> origin_counts_ok (add_latency_metrics env r l s n acc)"
  using miss_or_pass [of "py_upper (text_of (row_get r ''cache''))"]
  unfolding add_latency_metrics_def Let_def
  by (cases n; cases "finite_float env (row_get r ''ottlb'')"; cases "finite_float env (row_get r ''elapsed'')"; cases s)
    (simp_all add: origin_counts_ok_def int_of_bool_def is_5xx_def)

definition bot_counts_ok :: "security_accumulator \<Rightarrow> bool" where
  "bot_counts_ok acc \<longleftrightarrow> sa_verified_count acc + sa_impersonator_count acc + sa_unverified_count acc = sa_requests acc"

lemma add_bot_ok: "bot_counts_ok acc \<Longrightarrow> bot_counts_ok (add_bot r acc)"
  by (auto simp: bot_counts_ok_def add_bot_def Let_def int_of_bool_def)

lemma grouped_invariant:
  assumes "(k, acc) \<in> set (grouped fresh (row_updates env f rows))" and "P fresh"
    and "\<And>b r u a. u \<in> set (f b r) \<Longrightarrow> P a \<Longrightarrow> P (snd u a)"
  shows "P acc"
proof -
  let ?us = "row_updates env f rows"
  from assms(1) have "acc = apply_all fresh (updates_of k ?us)" by (simp add: grouped_item)
  moreover have "P (g a)" if "g \<in> set (updates_of k ?us)" "P a" for g a
    using updates_of_set [OF that(1)] row_updates_in assms(3) that(2) by (metis snd_conv)
  ultimately show ?thesis using apply_all_induct [of P fresh] assms(2) by blast
qed


definition example_bot_row :: "string \<Rightarrow> row" where
  "example_bot_row state = [(''timestamp'', JStr ''t''), (''_ngwaf_bot_name'', JStr ''b''), (''ngwaf_bot_verification_state'', JStr state)]"

definition example_projection_env :: projection_env where
  "example_projection_env = \<lparr>pe_batch = \<lparr>be_uuid5 = (\<lambda>_ s. s), be_sha256 = (\<lambda>s. s), be_sha_uuid = (\<lambda>s. s), be_dumps = (\<lambda>_. []),
     be_fromiso = (\<lambda>_. Inr 0), be_str = (\<lambda>_. []), be_float = (\<lambda>_. None)\<rparr>, pe_isoformat = (\<lambda>_. ''m''), pe_log_index = (\<lambda>_. 0)\<rparr>"

lemma example_bot_groups:
  "map (\<lambda>(k, acc). (k, sa_requests acc)) (grouped fresh_security (row_updates (pe_batch example_projection_env) security_updates
       [example_bot_row ''verified'', example_bot_row ''x''])) = [((0, ''ngwaf_bot'', ''b''), 2)]"
  by code_simp


theorem projections_are_groupings_witness:
  "build_security_projection_rows example_projection_env [example_bot_row ''verified''] =
     Inr (map (security_dimension_row example_projection_env)
       (grouped fresh_security (row_updates (pe_batch example_projection_env) security_updates [example_bot_row ''verified''])))
    \<and> length (projr (build_security_projection_rows example_projection_env [example_bot_row ''verified''])) = 1"
proof
  have "only_value_errors (pe_batch example_projection_env)"
    by (simp add: only_value_errors_def example_projection_env_def)
  from projections_are_groupings [OF this]
  show "build_security_projection_rows example_projection_env [example_bot_row ''verified''] =
     Inr (map (security_dimension_row example_projection_env)
       (grouped fresh_security (row_updates (pe_batch example_projection_env) security_updates [example_bot_row ''verified''])))"
    by blast
  show "length (projr (build_security_projection_rows example_projection_env [example_bot_row ''verified''])) = 1" by code_simp
qed

subsection \<open>Accuracy\<close>

lemma GAMMA_pos: "0 < GAMMA" "1 < GAMMA"
  by (simp_all add: GAMMA_def)

lemma gamma_power_step: "gamma_power i = GAMMA * gamma_power (i - 1)"
proof (cases "0 < i")
  case True
  then have "nat i = Suc (nat (i - 1))" by simp
  with True show ?thesis by (simp add: gamma_power_def)
next
  case False
  then have "nat (- (i - 1)) = Suc (nat (- i))" by simp
  with False GAMMA_pos show ?thesis by (auto simp: gamma_power_def)
qed

lemma gamma_power_pos: "0 < gamma_power i"
  using GAMMA_pos by (simp add: gamma_power_def)

text \<open>What \<open>ceil(log v / log gamma)\<close> is: the first power of \<open>gamma\<close> that reaches \<open>v\<close>.\<close>

definition log_index_ok :: "(rat \<Rightarrow> int) \<Rightarrow> bool" where
  "log_index_ok li \<longleftrightarrow> (\<forall>v > 0. gamma_power (li v - 1) < v \<and> v \<le> gamma_power (li v))"

lemma centroid_positive:
  assumes "log_index_ok li" and "0 < v"
  shows "\<bar>2 * gamma_power (li v) / (GAMMA + 1) - v\<bar> \<le> RELATIVE_ERROR * v"
proof -
  let ?p = "gamma_power (li v)"
  from assms have "gamma_power (li v - 1) < v" "v \<le> ?p" by (simp_all add: log_index_ok_def)
  with gamma_power_step [of "li v"] have "?p < GAMMA * v" "v \<le> ?p" using GAMMA_pos by simp_all
  then show ?thesis unfolding RELATIVE_ERROR_def GAMMA_def by (simp add: abs_le_iff field_simps)
qed

lemma centroid_close:
  assumes "log_index_ok li"
  shows "\<bar>centroid li v - v\<bar> \<le> RELATIVE_ERROR * \<bar>v\<bar>"
proof (cases v "0 :: rat" rule: linorder_cases)
  case less
  with centroid_positive [OF assms, of "- v"] show ?thesis by (simp add: centroid_def Let_def abs_le_iff)
next
  case greater
  with centroid_positive [OF assms, of v] show ?thesis by (simp add: centroid_def Let_def)
qed (simp add: centroid_def)

lemma sum_counts:
  assumes "distinct ds" and "set cs \<subseteq> set ds"
  shows "sum_list (map (\<lambda>c. int (length (filter (\<lambda>x. x = c) cs))) ds) = int (length cs)"
  using assms(2)
proof (induction cs)
  case (Cons a cs)
  then have "sum_list (map (\<lambda>c. if a = c then 1 else 0 :: int) ds) = 1"
    using assms(1) by (simp add: sum_list_distinct_conv_sum_set sum.delta)
  moreover have "sum_list (map (\<lambda>c. int (length (filter (\<lambda>x. x = c) (a # cs)))) ds)
      = sum_list (map (\<lambda>c. (if a = c then 1 else 0) + int (length (filter (\<lambda>x. x = c) cs))) ds)"
    by (intro arg_cong [where f = sum_list] map_cong) auto
  ultimately show ?case using Cons by (simp add: sum_list_addf)
qed simp

text \<open>
  Sketches are accurate. Whenever the bin exponent is the rounded-up logarithm, every value of a sketched list is
  within the relative error \<open>(gamma - 1) / (gamma + 1)\<close> of one of the centroids; the centroids ascend strictly, the weights
  are positive and add up to the number of values, so every observation is counted once.
\<close>

theorem sketch_is_accurate:
  assumes "log_index_ok li"
  shows "case sketch li vs of (cs, ws) \<Rightarrow>
      sorted_wrt (<) cs \<and> length ws = length cs \<and> (\<forall>w \<in> set ws. 0 < w) \<and> sum_list ws = int (length vs)
      \<and> (\<forall>v \<in> set vs. \<exists>c \<in> set cs. \<bar>c - v\<bar> \<le> RELATIVE_ERROR * \<bar>v\<bar>)"
proof -
  let ?cs = "map (centroid li) vs"
  have "sum_list (map (\<lambda>c. int (length (filter (\<lambda>x. x = c) ?cs))) (sort (remdups ?cs))) = int (length ?cs)"
    by (rule sum_counts) auto
  moreover have "0 < length (filter (\<lambda>x. x = c) ?cs)" if "c \<in> set ?cs" for c
    using that by (auto simp: filter_empty_conv)
  ultimately show ?thesis
    using centroid_close [OF assms] by (auto simp: sketch_def Let_def strict_sorted_iff)
qed

lemma nth_sorted_mono: "sorted xs \<Longrightarrow> i \<le> j \<Longrightarrow> j < length xs \<Longrightarrow> xs ! i \<le> xs ! j"
  by (rule sorted_nth_mono)

lemma position_bounds:
  fixes q :: rat
  assumes "0 \<le> q" and "q \<le> 1" and "0 < n"
  defines "pos \<equiv> of_nat (n - 1) * q"
  shows "nat \<lfloor>pos\<rfloor> \<le> nat \<lceil>pos\<rceil>" "nat \<lceil>pos\<rceil> \<le> Suc (nat \<lfloor>pos\<rfloor>)" "nat \<lceil>pos\<rceil> < n" "0 \<le> pos - of_nat (nat \<lfloor>pos\<rfloor>)"
    "pos - of_nat (nat \<lfloor>pos\<rfloor>) < 1" "nat \<lfloor>pos\<rfloor> = nat \<lceil>pos\<rceil> \<Longrightarrow> pos = of_nat (nat \<lfloor>pos\<rfloor>)"
proof -
  have pos: "0 \<le> pos" using assms(1) by (simp add: pos_def)
  have "pos \<le> of_nat (n - 1)" unfolding pos_def using assms(1,2) by (simp add: mult_left_le)
  then have "\<lceil>pos\<rceil> \<le> int (n - 1)" by (simp add: ceiling_le_iff)
  with assms(3) show "nat \<lceil>pos\<rceil> < n" by linarith
  show "nat \<lfloor>pos\<rfloor> \<le> nat \<lceil>pos\<rceil>" by (intro nat_mono floor_le_ceiling)
  have "\<lceil>pos\<rceil> \<le> \<lfloor>pos\<rfloor> + 1" by linarith
  then show "nat \<lceil>pos\<rceil> \<le> Suc (nat \<lfloor>pos\<rfloor>)" using pos by linarith
  have fl: "rat_of_nat (nat \<lfloor>pos\<rfloor>) = of_int \<lfloor>pos\<rfloor>" using pos by simp
  show "0 \<le> pos - of_nat (nat \<lfloor>pos\<rfloor>)" "pos - of_nat (nat \<lfloor>pos\<rfloor>) < 1" unfolding fl by linarith+
  assume "nat \<lfloor>pos\<rfloor> = nat \<lceil>pos\<rceil>"
  with pos have "\<lfloor>pos\<rfloor> = \<lceil>pos\<rceil>" by linarith
  then show "pos = of_nat (nat \<lfloor>pos\<rfloor>)" unfolding fl by linarith
qed

text \<open>The exponent the code computes, over the reals.\<close>

definition log_index :: "rat \<Rightarrow> int" where
  "log_index v = \<lceil>ln (real_of_rat v) / ln (real_of_rat GAMMA)\<rceil>"

lemma gamma_power_powr: "real_of_rat (gamma_power i) = real_of_rat GAMMA powr real_of_int i"
proof (cases "0 \<le> i")
  case True
  then show ?thesis by (simp add: gamma_power_def GAMMA_def of_rat_power powr_real_of_int)
next
  case False
  then show ?thesis by (simp add: gamma_power_def GAMMA_def of_rat_power of_rat_inverse powr_real_of_int)
qed

lemma log_index_ok: "log_index_ok log_index"
  unfolding log_index_ok_def
proof (intro allI impI)
  fix v :: rat assume v: "0 < v"
  let ?g = "real_of_rat GAMMA" and ?v = "real_of_rat v"
  have g: "1 < ?g" by (simp add: GAMMA_def of_rat_divide)
  let ?x = "ln ?v / ln ?g"
  have "?v = ?g powr ?x" using g v by (simp add: powr_def)
  moreover have "?g powr real_of_int (log_index v - 1) < ?g powr ?x" "?g powr ?x \<le> ?g powr real_of_int (log_index v)"
    using g unfolding log_index_def by (simp_all, linarith+)
  ultimately show "gamma_power (log_index v - 1) < v \<and> v \<le> gamma_power (log_index v)"
    unfolding gamma_power_powr [symmetric] by (simp add: of_rat_less of_rat_less_eq)
qed

theorem sketch_is_accurate_witness:
  "case sketch log_index [3, 3, 0] of (cs, ws) \<Rightarrow> sum_list ws = 3 \<and> (\<exists>c \<in> set cs. \<bar>c - 3\<bar> \<le> RELATIVE_ERROR * 3)"
  using sketch_is_accurate [OF log_index_ok, of "[3, 3, 0]"] by (simp split: prod.splits)

text \<open>The interpolation lies between its two neighbours.\<close>

lemma percentile_between:
  assumes "sorted xs" and "xs \<noteq> []" and "0 \<le> q" and "q \<le> 1"
  defines "pos \<equiv> of_nat (length xs - 1) * q"
  shows "xs ! nat \<lfloor>pos\<rfloor> \<le> percentile_at xs q" and "percentile_at xs q \<le> xs ! nat \<lceil>pos\<rceil>"
    and "percentile_at xs q = xs ! nat \<lfloor>pos\<rfloor> + (xs ! nat \<lceil>pos\<rceil> - xs ! nat \<lfloor>pos\<rfloor>) * (pos - of_nat (nat \<lfloor>pos\<rfloor>))"
proof -
  let ?lo = "nat \<lfloor>pos\<rfloor>" and ?hi = "nat \<lceil>pos\<rceil>"
  note b = position_bounds [OF assms(3,4), of "length xs", folded pos_def]
  have len: "0 < length xs" using assms(2) by simp
  have le: "xs ! ?lo \<le> xs ! ?hi" using assms(1) b(1,3) [OF len] by (rule nth_sorted_mono)
  show eq: "percentile_at xs q = xs ! ?lo + (xs ! ?hi - xs ! ?lo) * (pos - of_nat ?lo)"
    by (simp add: percentile_at_def Let_def pos_def)
  from le b(4) [OF len] show "xs ! ?lo \<le> percentile_at xs q" unfolding eq by simp
  have "(xs ! ?hi - xs ! ?lo) * (pos - of_nat ?lo) \<le> (xs ! ?hi - xs ! ?lo) * 1"
    using le b(5) [OF len] by (intro mult_left_mono) auto
  then show "percentile_at xs q \<le> xs ! ?hi" unfolding eq by simp
qed

lemma percentile_mono:
  assumes "sorted xs" and "xs \<noteq> []" and "0 \<le> q" and "q \<le> q'" and "q' \<le> 1"
  shows "percentile_at xs q \<le> percentile_at xs q'"
proof -
  let ?n = "length xs"
  let ?p = "of_nat (?n - 1) * q" and ?p' = "of_nat (?n - 1) * q'"
  have range: "q \<le> 1" "0 \<le> q'" using assms by simp_all
  have len: "0 < ?n" using assms(2) by simp
  note A = percentile_between [OF assms(1,2,3) range(1)] and B = percentile_between [OF assms(1,2) range(2) assms(5)]
  note a = position_bounds [OF assms(3) range(1) len] and b = position_bounds [OF range(2) assms(5) len]
  have "?p \<le> ?p'" using assms(4) by (simp add: mult_left_mono)
  then have fl: "nat \<lfloor>?p\<rfloor> \<le> nat \<lfloor>?p'\<rfloor>" and ce: "nat \<lceil>?p\<rceil> \<le> nat \<lceil>?p'\<rceil>"
    by (simp_all add: floor_mono ceiling_mono nat_mono)
  show ?thesis
  proof (cases "nat \<lfloor>?p\<rfloor> = nat \<lfloor>?p'\<rfloor>")
    case False
    then have "nat \<lceil>?p\<rceil> \<le> nat \<lfloor>?p'\<rfloor>" using fl a(2) by linarith
    then have "xs ! nat \<lceil>?p\<rceil> \<le> xs ! nat \<lfloor>?p'\<rfloor>" using assms(1) b(1,3) by (intro nth_sorted_mono) linarith+
    with A(2) B(1) show ?thesis by linarith
  next
    case True
    note hi = nth_sorted_mono [OF assms(1) ce b(3)] nth_sorted_mono [OF assms(1) b(1) b(3)]
    have "(xs ! nat \<lceil>?p\<rceil> - xs ! nat \<lfloor>?p\<rfloor>) * (?p - of_nat (nat \<lfloor>?p\<rfloor>))
        \<le> (xs ! nat \<lceil>?p'\<rceil> - xs ! nat \<lfloor>?p'\<rfloor>) * (?p' - of_nat (nat \<lfloor>?p'\<rfloor>))"
    proof (rule mult_mono)
      show "xs ! nat \<lceil>?p\<rceil> - xs ! nat \<lfloor>?p\<rfloor> \<le> xs ! nat \<lceil>?p'\<rceil> - xs ! nat \<lfloor>?p'\<rfloor>" unfolding True using hi(1) by simp
      show "?p - of_nat (nat \<lfloor>?p\<rfloor>) \<le> ?p' - of_nat (nat \<lfloor>?p'\<rfloor>)" unfolding True using \<open>?p \<le> ?p'\<close> by (rule diff_right_mono)
      show "0 \<le> xs ! nat \<lceil>?p'\<rceil> - xs ! nat \<lfloor>?p'\<rfloor>" using hi(2) by simp
      show "0 \<le> ?p - of_nat (nat \<lfloor>?p\<rfloor>)" by (rule a(4))
    qed
    then show ?thesis unfolding A(3) B(3) using True by simp
  qed
qed

lemma sorted_extremes:
  assumes "sorted xs" and "xs \<noteq> []"
  shows "xs ! 0 = Min (set xs)" and "xs ! (length xs - 1) = Max (set xs)"
proof -
  have "xs ! 0 \<le> x \<and> x \<le> xs ! (length xs - 1)" if "x \<in> set xs" for x
  proof -
    from that obtain i where "i < length xs" "x = xs ! i" by (auto simp: in_set_conv_nth)
    with assms(1) show ?thesis by (auto intro!: nth_sorted_mono)
  qed
  moreover have "xs ! 0 \<in> set xs" "xs ! (length xs - 1) \<in> set xs" using assms(2) by simp_all
  ultimately show "xs ! 0 = Min (set xs)" "xs ! (length xs - 1) = Max (set xs)"
    by (metis List.finite_set Min_eqI, metis List.finite_set Max_eqI)
qed

text \<open>
  Percentiles are percentiles. Of a non-empty list the percentile of a quantile between 0 and 1 lies between the smallest
  and the largest value, that of 0 is the smallest and that of 1 the largest, and a larger quantile never gives a
  smaller value; an empty list has none.
\<close>

theorem percentiles_bounded_and_monotone:
  assumes "vs \<noteq> []" and "0 \<le> q" and "q \<le> q'" and "q' \<le> 1"
  shows "\<exists>p p'. percentiles vs [q, q'] = [Some p, Some p'] \<and> Min (set vs) \<le> p \<and> p \<le> p' \<and> p' \<le> Max (set vs)
    \<and> percentiles vs [0, 1] = [Some (Min (set vs)), Some (Max (set vs))] \<and> percentiles [] [q, q'] = [None, None]"
proof -
  let ?xs = "sort vs"
  have xs: "sorted ?xs" "?xs \<noteq> []" using assms(1) by (simp_all, metis length_0_conv length_sort)
  have first: "percentile_at ?xs 0 = Min (set vs)"
    using sorted_extremes(1) [OF xs] by (simp add: percentile_at_def Let_def)
  have lst: "percentile_at ?xs 1 = Max (set vs)"
    using sorted_extremes(2) [OF xs] by (simp add: percentile_at_def Let_def del: of_nat_diff)
  have "percentile_at ?xs 0 \<le> percentile_at ?xs q" "percentile_at ?xs q' \<le> percentile_at ?xs 1"
      "percentile_at ?xs q \<le> percentile_at ?xs q'"
    using assms xs by (auto intro!: percentile_mono)
  with first lst assms(1) show ?thesis by (simp add: percentiles_def)
qed

theorem percentiles_bounded_and_monotone_witness:
  "\<exists>p p'. percentiles [4, 1, 2] [1/2, 3/4] = [Some p, Some p'] \<and> Min {4, 1, 2} \<le> p \<and> p \<le> p' \<and> p' \<le> Max {4, 1, 2}"
proof -
  have "set [4, 1, 2 :: rat] = {4, 1, 2}" by auto
  with percentiles_bounded_and_monotone [of "[4, 1, 2]" "1/2" "3/4"] show ?thesis by (auto simp del: set_simps)
qed

end
