(* ===== verification/Recovery.thy ===== *)
theory Recovery
  imports Ingest_Controller Projections
begin

text \<open>
  Rebuilding the serving state from the archive: the replay functions of \<open>archive/jobs.py\<close> and
  \<open>recovery.py\<close>. The archive is any object store, Parquet decoding is a parameter, the publication is
  \<open>ClickHousePublication\<close> of theory \<open>Serving_Publication\<close> over any manifest store and adapter, and the catalogue of
  manifests is a parameter as in the code. An exception of one manifest becomes a text in the report. Shown: the
  replay of an archived batch reads back its rows and publishes the events that ingest served; every
  manifest is accounted for; what a feasible capacity report promises.
\<close>

subsection \<open>Capacity\<close>

record recovery_capacity_measurement =
  rc_events_per_second :: int
  rc_recovery_window_seconds :: int
  rc_archive_read :: int
  rc_decode :: int
  rc_aggregate :: int
  rc_clickhouse_insert :: int
  rc_replication_factor :: int
  rc_live_ingest_reservation :: rat

definition validate_measurement :: "recovery_capacity_measurement \<Rightarrow> unit result" where
  "validate_measurement m =
     ebind (ensure (\<not> (rc_events_per_second m \<le> 0 \<or> rc_recovery_window_seconds m \<le> 0))
              (ValueError ''event rate and recovery window must be positive'')) (\<lambda>_.
     ebind (ensure (0 < Min (set [rc_archive_read m, rc_decode m, rc_aggregate m, rc_clickhouse_insert m]))
              (ValueError ''all recovery throughput measurements must be positive'')) (\<lambda>_.
     ebind (ensure (1 \<le> rc_replication_factor m) (ValueError ''replication factor must be positive'')) (\<lambda>_.
     ensure (0 \<le> rc_live_ingest_reservation m \<and> rc_live_ingest_reservation m < 1)
       (ValueError ''live ingest reservation must be in [0, 1)''))))"

record recovery_capacity_report =
  cr_required_events_per_second :: rat
  cr_limiting_stage :: string
  cr_limiting_events_per_second :: int
  cr_replication_adjusted_insert :: rat
  cr_feasible :: bool

definition capacity_stages :: "recovery_capacity_measurement \<Rightarrow> (string \<times> int) list" where
  "capacity_stages m =
     [(''archive_read'', rc_archive_read m), (''decode'', rc_decode m), (''aggregate_rebuild'', rc_aggregate m),
      (''clickhouse_insert'', rc_clickhouse_insert m div rc_replication_factor m)]"

text \<open>\<open>min(..., key=...)\<close>: the first of the smallest.\<close>

fun first_min :: "(string \<times> int) \<Rightarrow> (string \<times> int) list \<Rightarrow> string \<times> int" where
  "first_min best [] = best"
| "first_min best (s # ss) = first_min (if snd s < snd best then s else best) ss"

definition evaluate_recovery_capacity :: "recovery_capacity_measurement \<Rightarrow> recovery_capacity_report result" where
  "evaluate_recovery_capacity m =
     ebind (validate_measurement m) (\<lambda>_.
     (let required = of_int (rc_events_per_second m) * 86400 / of_int (rc_recovery_window_seconds m) / (1 - rc_live_ingest_reservation m);
          (limiting_stage, limiting_rate) = first_min (hd (capacity_stages m)) (tl (capacity_stages m));
          adjusted = of_int (rc_clickhouse_insert m) / of_int (rc_replication_factor m)
      in Inr \<lparr>cr_required_events_per_second = required, cr_limiting_stage = limiting_stage,
              cr_limiting_events_per_second = limiting_rate, cr_replication_adjusted_insert = adjusted,
              cr_feasible = (required \<le> of_int limiting_rate)\<rparr>))"

subsection \<open>Replay of one manifest\<close>

record ('a, 'b, 'm, 'c) recovery_plane =
  rv_archive :: "('a, 'b) object_store_ops"
  rv_codec :: "'b archive_codec"
  rv_parquet_rows :: "'b \<Rightarrow> row list result"
  rv_dumps :: "json \<Rightarrow> string"
  rv_sha :: "string \<Rightarrow> string"
  rv_env :: projection_env
  rv_store :: "'m batch_manifest_store"
  rv_insert :: "high_scale_batch \<Rightarrow> ('c, insert_receipt) eff"
  rv_aggregate_insert :: "high_scale_batch \<Rightarrow> ('c, insert_receipt) eff"
  rv_enrich :: "row list \<Rightarrow> row list"

type_synonym ('a, 'm, 'c) recovery_world = "'a \<times> 'm \<times> 'c"

record replay_result =
  rr_manifest_id :: string
  rr_rows_read :: int
  rr_publication :: batch_publication_result

record projection_replay_result =
  pr_manifest_id :: string
  pr_rows_read :: int
  pr_rows_published :: int

definition manifest_domain :: "archive_manifest \<Rightarrow> string" where
  "manifest_domain m =
     (if am_domain m \<noteq> [] then am_domain m else if so_domain (am_source m) \<noteq> [] then so_domain (am_source m) else ''request'')"

definition manifest_service_id :: "archive_manifest \<Rightarrow> string" where
  "manifest_service_id m =
     (if am_service_id m \<noteq> [] then am_service_id m else if so_service_id (am_source m) \<noteq> [] then so_service_id (am_source m) else [])"

definition batch_from_rows :: "string \<Rightarrow> archive_manifest \<Rightarrow> row list \<Rightarrow> string option \<Rightarrow> high_scale_batch" where
  "batch_from_rows batch_id m rows domain =
     \<lparr>hb_batch_id = batch_id, hb_service_id = manifest_service_id m, hb_domain = or_text domain (manifest_domain m),
      hb_generation = show_int (am_archive_epoch m), hb_rows = rows\<rparr>"

definition publish_batch ::
  "('a, 'b, 'm, 'c) recovery_plane \<Rightarrow> (high_scale_batch \<Rightarrow> ('c, insert_receipt) eff) \<Rightarrow> high_scale_batch
     \<Rightarrow> (('a, 'm, 'c) recovery_world, batch_publication_result) eff" where
  "publish_batch rv ins batch = on_right (clickhouse_publish (pe_batch (rv_env rv)) (rv_store rv) ins batch)"

definition read_manifest_rows ::
  "('a, 'b, 'm, 'c) recovery_plane \<Rightarrow> archive_manifest \<Rightarrow> (('a, 'm, 'c) recovery_world, row list) eff" where
  "read_manifest_rows rv m =
     eff_bind (on_left (read_artifact (rv_archive rv) (rv_codec rv) m)) (\<lambda>payload.
     eff_bind (eff_lift (rv_parquet_rows rv payload)) (\<lambda>rows.
     eff_bind (eff_lift (ensure (int (length rows) = art_row_count (am_artifact m))
                 (ValueError ''replay row count does not match archive manifest''))) (\<lambda>_.
     eff_bind (eff_lift (ensure (event_digest (rv_dumps rv) (rv_sha rv) rows = art_canonical_digest (am_artifact m))
                 (ValueError ''replay event digest does not match archive manifest''))) (\<lambda>_.
     eff_return rows))))"

definition is_event_row :: "row \<Rightarrow> bool" where
  "is_event_row r \<longleftrightarrow> get_default r ''_record_kind'' (JStr ''event'') = JStr ''event''"

definition serving_rows :: "string \<Rightarrow> row list \<Rightarrow> row list" where
  "serving_rows domain rows = filter (\<lambda>r. is_event_row r \<and> row_matches_serving_domain domain r) rows"

definition replay_manifest ::
  "('a, 'b, 'm, 'c) recovery_plane \<Rightarrow> archive_manifest \<Rightarrow> string option \<Rightarrow> (('a, 'm, 'c) recovery_world, replay_result) eff" where
  "replay_manifest rv m batch_id =
     eff_bind (read_manifest_rows rv m) (\<lambda>rows.
     (let serving = serving_rows (manifest_domain m) rows;
          resolved = or_text batch_id (''replay:'' @ am_manifest_id m)
      in if serving = []
         then eff_return \<lparr>rr_manifest_id = am_manifest_id m, rr_rows_read = 0,
                rr_publication = \<lparr>bp_batch_id = resolved, bp_status = Visible, bp_rows_visible = 0, bp_duplicate = False\<rparr>\<rparr>
         else eff_bind (publish_batch rv (rv_insert rv) (batch_from_rows resolved m serving None)) (\<lambda>result.
              eff_return \<lparr>rr_manifest_id = am_manifest_id m, rr_rows_read = int (length serving), rr_publication = result\<rparr>)))"

subsection \<open>Replay of projections\<close>

definition load_manifest_request_events ::
  "('a, 'b, 'm, 'c) recovery_plane \<Rightarrow> archive_manifest \<Rightarrow> string \<Rightarrow> (('a, 'm, 'c) recovery_world, row list) eff" where
  "load_manifest_request_events rv m label =
     (if manifest_domain m \<noteq> ''request''
      then eff_raise (ValueError (label @ '' projections can only be rebuilt from request manifests''))
      else eff_bind (read_manifest_rows rv m) (\<lambda>rows. eff_return (filter is_event_row rows)))"

text \<open>The batches with rows are published in order; the visible rows are added up.\<close>

fun publish_each ::
  "('a, 'b, 'm, 'c) recovery_plane \<Rightarrow> (high_scale_batch \<Rightarrow> ('c, insert_receipt) eff) \<Rightarrow> archive_manifest
     \<Rightarrow> (string \<times> string \<times> row list) list \<Rightarrow> (('a, 'm, 'c) recovery_world, int) eff" where
  "publish_each rv ins m [] = eff_return 0"
| "publish_each rv ins m ((batch_id, domain, rows) # bs) =
     eff_bind
       (if rows = [] then eff_return 0
        else eff_bind (publish_batch rv ins (batch_from_rows batch_id m rows (Some domain))) (\<lambda>result. eff_return (bp_rows_visible result)))
       (\<lambda>n. eff_bind (publish_each rv ins m bs) (\<lambda>k. eff_return (n + k)))"

definition publish_projection_batches ::
  "('a, 'b, 'm, 'c) recovery_plane \<Rightarrow> archive_manifest \<Rightarrow> row list \<Rightarrow> (string \<times> string \<times> row list) list
     \<Rightarrow> (('a, 'm, 'c) recovery_world, projection_replay_result) eff" where
  "publish_projection_batches rv m serving batches =
     eff_bind (publish_each rv (rv_insert rv) m batches) (\<lambda>published.
     eff_return \<lparr>pr_manifest_id = am_manifest_id m, pr_rows_read = int (length serving), pr_rows_published = published\<rparr>)"

type_synonym ('a, 'b, 'm, 'c) replay_fn =
  "('a, 'b, 'm, 'c) recovery_plane \<Rightarrow> archive_manifest \<Rightarrow> string \<Rightarrow> (('a, 'm, 'c) recovery_world, projection_replay_result) eff"

definition replay_origin_projections :: "('a, 'b, 'm, 'c) replay_fn" where
  "replay_origin_projections rv m rebuild_id =
     eff_bind (load_manifest_request_events rv m ''Origin'') (\<lambda>serving.
     eff_bind (eff_lift (build_origin_projection_rows (rv_env rv) serving)) (\<lambda>(summary, dimensions).
     (let batch_prefix = ''rebuild-origin:'' @ rebuild_id @ '':'' @ am_manifest_id m
      in publish_projection_batches rv m serving
           [(batch_prefix @ '':summary'', ''origin_summary'', summary), (batch_prefix @ '':dimensions'', ''origin_dimensions'', dimensions)])))"

definition replay_performance_projections :: "('a, 'b, 'm, 'c) replay_fn" where
  "replay_performance_projections rv m rebuild_id =
     eff_bind (load_manifest_request_events rv m ''Performance'') (\<lambda>serving.
     eff_bind (eff_lift (build_performance_projection_rows (rv_env rv) serving)) (\<lambda>projection.
     (let batch_prefix = ''rebuild-performance:'' @ rebuild_id @ '':'' @ am_manifest_id m;
          asn_rows = filter (\<lambda>r. row_get r ''dimension'' = JStr ''asn'') (pp_dimension_rows projection)
      in publish_projection_batches rv m serving
           [(batch_prefix @ '':summary'', ''performance_summary'', pp_summary_rows projection),
            (batch_prefix @ '':scatter'', ''performance_scatter'', pp_scatter_rows projection),
            (batch_prefix @ '':asn'', ''performance_dimensions'', asn_rows)])))"

text \<open>The CMCD fields of a row without the nulls Parquet filled in; \<open>(row.get("cmcd") or {}).items()\<close> needs a mapping.\<close>

definition cmcd_fields :: "row \<Rightarrow> row result" where
  "cmcd_fields r =
     (case row_get r ''cmcd'' of
        JObj f \<Rightarrow> Inr (filter (\<lambda>(_, v). v \<noteq> JNull) f)
      | v \<Rightarrow> if json_truthy v then Inl (OtherError ''AttributeError'') else Inr [])"

fun project_cmcd_rows :: "batch_env \<Rightarrow> row list \<Rightarrow> row list result" where
  "project_cmcd_rows env [] = Inr []"
| "project_cmcd_rows env (r # rs) =
     ebind (cmcd_fields r) (\<lambda>fs.
     ebind (if fs = [] then Inr None else project_cmcd env (dict_set ''cmcd'' (JObj fs) r)) (\<lambda>p.
     ebind (project_cmcd_rows env rs) (\<lambda>ps.
     Inr (case p of None \<Rightarrow> ps | Some x \<Rightarrow> x # ps))))"

definition replay_cmcd_projections :: "('a, 'b, 'm, 'c) replay_fn" where
  "replay_cmcd_projections rv m rebuild_id =
     eff_bind (load_manifest_request_events rv m ''CMCD'') (\<lambda>serving.
     eff_bind (eff_lift (project_cmcd_rows (pe_batch (rv_env rv)) serving)) (\<lambda>projected.
     publish_projection_batches rv m serving [(''rebuild-cmcd:'' @ rebuild_id @ '':'' @ am_manifest_id m, ''cmcd'', projected)]))"

definition replay_security_projections :: "('a, 'b, 'm, 'c) replay_fn" where
  "replay_security_projections rv m rebuild_id =
     eff_bind (load_manifest_request_events rv m ''Security'') (\<lambda>serving.
     eff_bind (eff_lift (build_security_projection_rows (rv_env rv) (rv_enrich rv serving))) (\<lambda>rows.
     eff_bind (publish_each rv (rv_insert rv) m
                 [(''rebuild-security:'' @ rebuild_id @ '':'' @ am_manifest_id m @ '':dimensions'', ''security_dimensions'', rows)]) (\<lambda>published.
     eff_return \<lparr>pr_manifest_id = am_manifest_id m, pr_rows_read = int (length serving), pr_rows_published = published\<rparr>)))"

subsection \<open>Rebuilding\<close>

definition derived_batches :: "projection_env \<Rightarrow> row list \<Rightarrow> (string \<times> row list) list result" where
  "derived_batches env rows =
     ebind (build_origin_projection_rows env rows) (\<lambda>(origin_summary, origin_dimensions).
     ebind (build_performance_projection_rows env rows) (\<lambda>perf.
     ebind (build_security_projection_rows env rows) (\<lambda>security.
     ebind (build_network_projection_rows env rows) (\<lambda>network.
     Inr [(''origin_summary'', origin_summary), (''origin_dimensions'', origin_dimensions),
          (''performance_dimensions'', pp_dimension_rows perf), (''performance_summary'', pp_summary_rows perf),
          (''performance_scatter'', pp_scatter_rows perf), (''security_dimensions'', security), (''network_dimensions'', network)]))))"

definition has_minute_event :: "string \<Rightarrow> row \<Rightarrow> bool" where
  "has_minute_event domain r \<longleftrightarrow> row_get r ''_record_kind'' \<in> set [JNull, JStr ''event''] \<and> json_truthy (row_get r ''timestamp'')
     \<and> row_matches_serving_domain domain r"

definition replay_derived_projections ::
  "('a, 'b, 'm, 'c) recovery_plane \<Rightarrow> archive_manifest \<Rightarrow> string \<Rightarrow> (('a, 'm, 'c) recovery_world, unit) eff" where
  "replay_derived_projections rv m rebuild_id =
     eff_bind (read_manifest_rows rv m) (\<lambda>raw_rows.
     (let event_rows = filter (has_minute_event (am_domain m)) raw_rows;
          batch_prefix = ''rebuild:'' @ rebuild_id @ '':'' @ am_manifest_id m @ '':''
      in if event_rows = [] then eff_return ()
         else
           (let rows = (if am_domain m = ''request'' then rv_enrich rv event_rows else event_rows)
            in eff_bind
                 (if map_of DIMENSIONS_BY_DOMAIN (am_domain m) = None then eff_return 0
                  else eff_bind (eff_lift (compute_dimension_counts (pe_batch (rv_env rv)) (pe_isoformat (rv_env rv)) (am_domain m) rows)) (\<lambda>counts.
                       publish_each rv (rv_aggregate_insert rv) m
                         [(batch_prefix @ am_domain m @ ''_aggregate'', am_domain m @ ''_aggregate'', counts)])) (\<lambda>_.
               if am_domain m = ''request''
               then eff_bind (eff_lift (derived_batches (rv_env rv) rows)) (\<lambda>batches.
                    eff_bind (publish_each rv (rv_aggregate_insert rv) m
                                (map (\<lambda>(sub_domain, sub_rows). (batch_prefix @ sub_domain, sub_domain, sub_rows)) batches)) (\<lambda>_.
                    eff_bind (replay_cmcd_projections rv m rebuild_id) (\<lambda>_. eff_return ())))
               else eff_return ()))))"

definition replay_one ::
  "('a, 'b, 'm, 'c) recovery_plane \<Rightarrow> string \<Rightarrow> archive_manifest \<Rightarrow> (('a, 'm, 'c) recovery_world, int) eff" where
  "replay_one rv rebuild_id m =
     eff_bind (replay_manifest rv m (Some (''rebuild:'' @ rebuild_id @ '':'' @ am_manifest_id m))) (\<lambda>result.
     eff_bind (replay_derived_projections rv m rebuild_id) (\<lambda>_.
     eff_return (rr_rows_read result)))"

text \<open>The loop over manifests: rows, manifests replayed, and the errors.\<close>

fun attempt_each ::
  "(archive_manifest \<Rightarrow> ('w, int) eff) \<Rightarrow> (archive_manifest \<Rightarrow> string \<Rightarrow> string) \<Rightarrow> archive_manifest list \<Rightarrow> 'w
     \<Rightarrow> (int \<times> nat \<times> string list) \<times> 'w" where
  "attempt_each step message [] w = ((0, 0, []), w)"
| "attempt_each step message (m # ms) w =
     (case step m w of
        (Inr n, w') \<Rightarrow> (case attempt_each step message ms w' of ((rows, replayed, errors), w'') \<Rightarrow> ((n + rows, Suc replayed, errors), w''))
      | (Inl e, w') \<Rightarrow>
          (case attempt_each step message ms w' of
             ((rows, replayed, errors), w'') \<Rightarrow> ((rows, replayed, message m (error_text e) # errors), w'')))"

definition replay_all ::
  "('a, 'b, 'm, 'c) recovery_plane \<Rightarrow> string \<Rightarrow> archive_manifest list \<Rightarrow> ('a, 'm, 'c) recovery_world
     \<Rightarrow> (int \<times> nat \<times> string list) \<times> ('a, 'm, 'c) recovery_world" where
  "replay_all rv rebuild_id =
     attempt_each (replay_one rv rebuild_id) (\<lambda>m e. ''manifest '' @ am_manifest_id m @ '' failed to replay: '' @ e)"

record recovery_report =
  rp_ingest_accepted :: bool
  rp_triage_available :: bool
  rp_raw_query_available :: bool
  rp_warm_history_available :: bool
  rp_full_rebuild_complete :: bool
  rp_manifests_replayed :: nat
  rp_rows_replayed :: int
  rp_errors :: "string list"
  rp_rebuild_id :: string
  rp_capacity :: "recovery_capacity_report option"
  rp_recovery_claim_valid :: "bool option"

definition capacity_gate :: "recovery_capacity_measurement option \<Rightarrow> recovery_capacity_report option result" where
  "capacity_gate measurement =
     (case measurement of None \<Rightarrow> Inr None | Some m \<Rightarrow> ebind (evaluate_recovery_capacity m) (\<lambda>r. Inr (Some r)))"

definition sorted_manifests :: "archive_manifest list \<Rightarrow> archive_manifest list" where
  "sorted_manifests ms = sort_key am_coverage_start ms"

type_synonym manifest_catalog = "string \<Rightarrow> string \<Rightarrow> timestamp \<Rightarrow> timestamp \<Rightarrow> archive_manifest list result"

definition rebuild_serving_state_from_fos ::
  "('a, 'b, 'm, 'c) recovery_plane \<Rightarrow> manifest_catalog \<Rightarrow> string \<Rightarrow> string \<Rightarrow> timestamp \<Rightarrow> duration \<Rightarrow> duration \<Rightarrow> string
     \<Rightarrow> recovery_capacity_measurement option \<Rightarrow> (('a, 'm, 'c) recovery_world, recovery_report) eff" where
  "rebuild_serving_state_from_fos rv catalog service_id domain observed recent_window warm_window rebuild_id capacity =
     eff_bind (eff_lift (ensure (0 < recent_window) (ValueError ''recent_window must be positive''))) (\<lambda>_.
     eff_bind (eff_lift (ensure (recent_window < warm_window) (ValueError ''warm_window must exceed recent_window''))) (\<lambda>_.
     (let recent_start = observed - recent_window; warm_start = observed - warm_window in
      eff_bind (eff_lift (capacity_gate capacity)) (\<lambda>capacity_report.
      eff_bind (eff_lift (catalog service_id domain recent_start observed)) (\<lambda>recent.
      eff_bind (eff_lift (catalog service_id domain warm_start recent_start)) (\<lambda>warm. \<lambda>w.
      case replay_all rv rebuild_id (sorted_manifests recent) w of
        ((recent_rows, recent_replayed, recent_errors), w1) \<Rightarrow>
          case replay_all rv rebuild_id (sorted_manifests warm) w1 of
            ((warm_rows, warm_replayed, warm_errors), w2) \<Rightarrow>
              let triage = (recent_errors = []); warm_ok = (warm_errors = [])
              in (Inr \<lparr>rp_ingest_accepted = True, rp_triage_available = triage, rp_raw_query_available = triage,
                       rp_warm_history_available = warm_ok, rp_full_rebuild_complete = (triage \<and> warm_ok),
                       rp_manifests_replayed = recent_replayed + warm_replayed, rp_rows_replayed = recent_rows + warm_rows,
                       rp_errors = recent_errors @ warm_errors, rp_rebuild_id = rebuild_id, rp_capacity = capacity_report,
                       rp_recovery_claim_valid = (case capacity_report of None \<Rightarrow> None
                         | Some r \<Rightarrow> Some (cr_feasible r \<and> triage \<and> warm_ok))\<rparr>, w2)))))))"

definition RUM_FACT_TABLES :: "(string \<times> string) list" where
  "RUM_FACT_TABLES = [(''rum_vitals'', ''rum_vitals_facts''), (''rum_errors'', ''rum_error_facts'')]"

definition ORIGIN_PROJECTION_TABLES :: "string list" where
  "ORIGIN_PROJECTION_TABLES = [''origin_minute_summary'', ''origin_minute_dimensions'']"

text \<open>\<open>window / 2\<close> of a timedelta rounds to the nearest microsecond, halves to even.\<close>

definition half_duration :: "duration \<Rightarrow> duration" where
  "half_duration d = (if even d then d div 2 else if even (d div 2) then d div 2 else d div 2 + 1)"

definition rebuild_rum_facts_from_fos ::
  "('a, 'b, 'm, 'c) recovery_plane \<Rightarrow> manifest_catalog \<Rightarrow> string \<Rightarrow> string \<Rightarrow> timestamp \<Rightarrow> duration \<Rightarrow> string
     \<Rightarrow> recovery_capacity_measurement option \<Rightarrow> (('a, 'm, 'c) recovery_world, recovery_report) eff" where
  "rebuild_rum_facts_from_fos rv catalog service_id domain observed window rebuild_id capacity =
     (if map_of RUM_FACT_TABLES domain = None then eff_raise (ValueError ''domain must be rum_vitals or rum_errors'')
      else rebuild_serving_state_from_fos rv catalog service_id domain observed (min (24 * 3600 * 1000000) (half_duration window)) window
             rebuild_id capacity)"

definition rebuild_request_projections_from_fos ::
  "('a, 'b, 'm, 'c) recovery_plane \<Rightarrow> manifest_catalog \<Rightarrow> string \<Rightarrow> string \<Rightarrow> ('a, 'b, 'm, 'c) replay_fn \<Rightarrow> timestamp \<Rightarrow> duration
     \<Rightarrow> string \<Rightarrow> recovery_capacity_measurement option \<Rightarrow> (('a, 'm, 'c) recovery_world, recovery_report) eff" where
  "rebuild_request_projections_from_fos rv catalog service_id label replay_fn observed window rebuild_id capacity =
     eff_bind (eff_lift (ensure (0 < window) (ValueError ''window must be positive''))) (\<lambda>_.
     eff_bind (eff_lift (capacity_gate capacity)) (\<lambda>capacity_report.
     eff_bind (eff_lift (catalog service_id ''request'' (observed - window) observed)) (\<lambda>found. \<lambda>w.
     case attempt_each (\<lambda>m. eff_bind (replay_fn rv m rebuild_id) (\<lambda>r. eff_return (pr_rows_published r)))
            (\<lambda>m e. ''manifest '' @ am_manifest_id m @ '' failed to rebuild '' @ label @ '' projections: '' @ e) (sorted_manifests found) w of
       ((rows, replayed, errors), w1) \<Rightarrow>
         let available = (errors = [])
         in (Inr \<lparr>rp_ingest_accepted = True, rp_triage_available = available, rp_raw_query_available = True,
                  rp_warm_history_available = available, rp_full_rebuild_complete = available, rp_manifests_replayed = replayed,
                  rp_rows_replayed = rows, rp_errors = errors, rp_rebuild_id = rebuild_id, rp_capacity = capacity_report,
                  rp_recovery_claim_valid = (case capacity_report of None \<Rightarrow> None | Some r \<Rightarrow> Some (cr_feasible r \<and> available))\<rparr>, w1))))"

definition rebuild_cmcd_projections_from_fos where
  "rebuild_cmcd_projections_from_fos rv catalog service_id =
     rebuild_request_projections_from_fos rv catalog service_id ''CMCD'' replay_cmcd_projections"

definition rebuild_origin_projections_from_fos where
  "rebuild_origin_projections_from_fos rv catalog service_id =
     rebuild_request_projections_from_fos rv catalog service_id ''Origin'' replay_origin_projections"

definition rebuild_performance_projections_from_fos where
  "rebuild_performance_projections_from_fos rv catalog service_id =
     rebuild_request_projections_from_fos rv catalog service_id ''Performance'' replay_performance_projections"

definition rebuild_security_projections_from_fos where
  "rebuild_security_projections_from_fos rv catalog service_id =
     rebuild_request_projections_from_fos rv catalog service_id ''Security'' replay_security_projections"

subsection \<open>Purging\<close>

type_synonym 's sql_client = "string \<Rightarrow> (string \<times> (string + timestamp)) list \<Rightarrow> ('s, unit) eff"

definition purge_since :: "'s sql_client \<Rightarrow> string \<Rightarrow> string \<Rightarrow> string \<Rightarrow> timestamp \<Rightarrow> ('s, unit) eff" where
  "purge_since client table ts_col service_id since =
     client (''ALTER TABLE `'' @ table @ ''` DELETE WHERE service_id={service_id:String} AND '' @ ts_col
             @ '' >= {since:DateTime64(3)} SETTINGS mutations_sync=2'')
       [(''service_id'', Inl service_id), (''since'', Inr since)]"

definition purge_origin_projections :: "'s sql_client \<Rightarrow> string \<Rightarrow> timestamp \<Rightarrow> ('s, unit) eff" where
  "purge_origin_projections client service_id since =
     eff_bind (purge_since client (ORIGIN_PROJECTION_TABLES ! 0) ''bucket_start'' service_id since) (\<lambda>_.
     purge_since client (ORIGIN_PROJECTION_TABLES ! 1) ''bucket_start'' service_id since)"

definition purge_rum_facts :: "'s sql_client \<Rightarrow> string \<Rightarrow> string \<Rightarrow> timestamp \<Rightarrow> ('s, unit) eff" where
  "purge_rum_facts client domain service_id since =
     (case map_of RUM_FACT_TABLES domain of
        None \<Rightarrow> eff_raise (ValueError ''domain must be rum_vitals or rum_errors'')
      | Some table \<Rightarrow> purge_since client table ''event_timestamp'' service_id since)"

definition purge_cmcd_projections :: "'s sql_client \<Rightarrow> string \<Rightarrow> timestamp \<Rightarrow> ('s, unit) eff" where
  "purge_cmcd_projections client service_id since =
     purge_since client ''cmcd_projection_facts'' ''event_timestamp'' service_id since"

subsection \<open>What a replay serves\<close>

lemma row_get_canonical_member:
  assumes "e \<in> set evs"
  shows "row_get (canonical_event (all_keys evs) e) k = parquet_safe_value (row_get e k)"
proof (cases "k \<in> set (all_keys evs)")
  case False
  with assms have "k \<notin> fst ` set e" by (auto simp: in_all_keys)
  moreover from False have "k \<notin> fst ` set (canonical_event (all_keys evs) e)" by (simp add: canonical_event_def image_image)
  ultimately have "map_of e k = None" "map_of (canonical_event (all_keys evs) e) k = None" by (simp_all add: map_of_eq_None_iff)
  then show ?thesis by (simp add: row_get_def)
qed (rule row_get_canonical)

lemma is_event_row_canonical:
  assumes "e \<in> set evs" and "row_get e ''_record_kind'' = JStr kind"
  shows "is_event_row (canonical_event (all_keys evs) e) \<longleftrightarrow> kind = ''event''"
proof -
  from assms(2) have "map_of e ''_record_kind'' = Some (JStr kind)" by (auto simp: row_get_def split: option.splits)
  then have "''_record_kind'' \<in> fst ` set e" by (force dest: map_of_SomeD)
  with assms(1) have "''_record_kind'' \<in> set (all_keys evs)" by (auto simp: in_all_keys)
  then have "map_of (canonical_event (all_keys evs) e) ''_record_kind'' \<noteq> None"
    by (simp add: map_of_eq_None_iff canonical_event_def image_image)
  with row_get_canonical_member [OF assms(1), of "''_record_kind''"] assms(2) show ?thesis
    by (auto simp: is_event_row_def get_default_def row_get_def split: option.splits)
qed

text \<open>Parquet loses the difference between an empty mapping and null, nothing else the serving domain depends on.\<close>

lemma parquet_safe_facts:
  "parquet_safe_value v = JNull \<longleftrightarrow> v \<in> {JNull, JObj []}" "parquet_safe_value v = JStr s \<longleftrightarrow> v = JStr s"
  "(case parquet_safe_value v of JInt _ \<Rightarrow> True | JFloat _ \<Rightarrow> True | _ \<Rightarrow> False) \<longleftrightarrow> (case v of JInt _ \<Rightarrow> True | JFloat _ \<Rightarrow> True | _ \<Rightarrow> False)"
  "identity_text_ok (parquet_safe_value v) \<longleftrightarrow> identity_text_ok v"
  by (cases v; auto simp: identity_text_ok_def)+

lemma matches_canonical:
  assumes "e \<in> set evs" and "row_get e ''_rum_kind'' \<noteq> JObj []"
  shows "row_matches_serving_domain domain (canonical_event (all_keys evs) e) = row_matches_serving_domain domain e"
  using assms(2) by (simp add: row_matches_serving_domain_def row_get_canonical_member [OF assms(1)] parquet_safe_facts)

lemma matches_kind: "row_matches_serving_domain domain (dict_set ''_record_kind'' v e) = row_matches_serving_domain domain e"
  by (simp add: row_matches_serving_domain_def row_get_dict_set)

definition archived_rows :: "(archive_source_object \<times> decode_result) list \<Rightarrow> row list" where
  "archived_rows ds = concat (map (archive_rows \<circ> snd) ds)"

definition decoded_events :: "(archive_source_object \<times> decode_result) list \<Rightarrow> row list" where
  "decoded_events ds = concat (map (dr_events \<circ> snd) ds)"

definition as_archived :: "row list \<Rightarrow> row \<Rightarrow> row" where
  "as_archived rows e = canonical_event (all_keys rows) (dict_set ''_record_kind'' (JStr ''event'') e)"

lemma serving_rows_of_source:
  assumes "set (archive_rows d) \<subseteq> set evs" and "\<forall>e \<in> set (dr_events d). row_get e ''_rum_kind'' \<noteq> JObj []"
  shows "serving_rows domain (map (canonical_event (all_keys evs)) (archive_rows d)) =
    map (as_archived evs) (filter (row_matches_serving_domain domain) (dr_events d))"
proof -
  let ?c = "canonical_event (all_keys evs)" and ?k = "dict_set ''_record_kind'' (JStr ''event'')"
  have "\<not> is_event_row (?c (dead_letter_row x))" if "x \<in> set (dr_dead_letters d)" for x
    using that assms(1) is_event_row_canonical [of "dead_letter_row x" evs "''dead_letter''"]
    by (auto simp: archive_rows_def dead_letter_row_def row_get_def)
  then have dead: "serving_rows domain (map (?c \<circ> dead_letter_row) (dr_dead_letters d)) = []"
    by (auto simp: serving_rows_def filter_empty_conv)
  have "(is_event_row (?c (?k e)) \<and> row_matches_serving_domain domain (?c (?k e))) \<longleftrightarrow> row_matches_serving_domain domain e"
    if "e \<in> set (dr_events d)" for e
  proof -
    from that assms have "?k e \<in> set evs" "row_get (?k e) ''_rum_kind'' \<noteq> JObj []" by (auto simp: archive_rows_def row_get_dict_set)
    then show ?thesis
      using is_event_row_canonical [of "?k e" evs "''event''"] by (simp add: matches_canonical matches_kind row_get_dict_set)
  qed
  then have "serving_rows domain (map (?c \<circ> ?k) (dr_events d)) = map (?c \<circ> ?k) (filter (row_matches_serving_domain domain) (dr_events d))"
    by (simp add: serving_rows_def filter_map comp_def cong: filter_cong)
  with dead show ?thesis by (simp add: archive_rows_def as_archived_def serving_rows_def comp_def)
qed

lemma serving_rows_archived:
  assumes "\<forall>e \<in> set (decoded_events ds). row_get e ''_rum_kind'' \<noteq> JObj []" and "set (archived_rows ds) \<subseteq> set evs"
  shows "serving_rows domain (map (canonical_event (all_keys evs)) (archived_rows ds)) =
    map (as_archived evs) (filter (row_matches_serving_domain domain) (decoded_events ds))"
  using assms
proof (induction ds)
  case Nil
  then show ?case by (simp add: archived_rows_def decoded_events_def serving_rows_def)
next
  case (Cons sd ds)
  then have "serving_rows domain (map (canonical_event (all_keys evs)) (archive_rows (snd sd))) =
      map (as_archived evs) (filter (row_matches_serving_domain domain) (dr_events (snd sd)))"
    by (intro serving_rows_of_source) (auto simp: archived_rows_def decoded_events_def)
  with Cons show ?case by (simp add: archived_rows_def decoded_events_def serving_rows_def)
qed

lemma checkpoint_facts:
  assumes "write_batch_archive_checkpoint ck out service_id domain batches epoch sv tv cs ce ret grace = Inr (m, artifact)" and "domain \<noteq> []"
  shows "artifact = ck_parquet ck (map (canonical_event (all_keys (concat (map snd batches)))) (concat (map snd batches)))"
    and "art_row_count (am_artifact m) = int (length (concat (map snd batches)))"
    and "art_canonical_digest (am_artifact m) = event_digest (ck_dumps ck) (ck_sha ck)
           (map (canonical_event (all_keys (concat (map snd batches)))) (concat (map snd batches)))"
    and "am_domain m = domain"
  using assms
  by (auto simp: write_batch_archive_checkpoint_def Let_def mk_manifest_def ebind_Inr_iff or_text_def
      split: if_splits option.splits)

lemma read_manifest_rows_ok:
  assumes "read_artifact (rv_archive rv) (rv_codec rv) m (fst w) = (Inr artifact, a)" and "rv_parquet_rows rv artifact = Inr rows"
    and "int (length rows) = art_row_count (am_artifact m)" and "event_digest (rv_dumps rv) (rv_sha rv) rows = art_canonical_digest (am_artifact m)"
  shows "read_manifest_rows rv m w = (Inr rows, (a, snd w))"
  using assms by (simp add: read_manifest_rows_def eff_bind_def eff_lift_def on_left_def eff_return_def)


subsection \<open>Accounting\<close>

lemma attempt_each_accounts:
  "attempt_each step message ms w = ((rows, replayed, errors), w') \<Longrightarrow> replayed + length errors = length ms"
  by (induction ms arbitrary: w rows replayed errors) (auto split: sum.splits prod.splits)

lemma attempt_each_rows:
  assumes "attempt_each step message ms w = ((rows, replayed, errors), w')" and "errors = []"
  shows "replayed = length ms \<and> (\<exists>ns. length ns = length ms \<and> rows = sum_list ns)"
  using assms
proof (induction ms arbitrary: w rows replayed errors)
  case (Cons m ms)
  then obtain n w1 rows1 replayed1 where step: "step m w = (Inr n, w1)" "attempt_each step message ms w1 = ((rows1, replayed1, []), w')"
      "rows = n + rows1" "replayed = Suc replayed1"
    by (auto split: sum.splits prod.splits)
  with Cons.IH [OF step(2)] obtain ns where "replayed1 = length ms" "length ns = length ms" "rows1 = sum_list ns" by blast
  with step show ?case by (intro conjI exI [of _ "n # ns"]) simp_all
qed simp

lemma sorted_manifests_length: "length (sorted_manifests ms) = length ms"
  by (simp add: sorted_manifests_def)

text \<open>
  C29. A rebuild accounts for every manifest. Whatever a manifest does, the rebuild goes on; each manifest of the two
  windows is either replayed or has an error in the report; the rebuild is called complete exactly when there is no
  error, and the recovery claim is made only for a complete rebuild within a feasible capacity.
\<close>

theorem rebuild_accounts_for_manifests:
  assumes "rebuild_serving_state_from_fos rv catalog service_id domain observed recent warm rebuild_id capacity w = (Inr report, w')"
    and "catalog service_id domain (observed - recent) observed = Inr recents"
    and "catalog service_id domain (observed - warm) (observed - recent) = Inr warms"
  shows "rp_manifests_replayed report + length (rp_errors report) = length recents + length warms
    \<and> (rp_full_rebuild_complete report \<longleftrightarrow> rp_errors report = [])
    \<and> (rp_full_rebuild_complete report \<longrightarrow> rp_manifests_replayed report = length recents + length warms)
    \<and> (rp_recovery_claim_valid report = Some True \<longleftrightarrow>
        rp_full_rebuild_complete report \<and> (\<exists>r. rp_capacity report = Some r \<and> cr_feasible r))"
proof -
  obtain r1 n1 e1 w1 where one: "replay_all rv rebuild_id (sorted_manifests recents) w = ((r1, n1, e1), w1)"
    by (metis prod.collapse)
  obtain r2 n2 e2 w2 where two: "replay_all rv rebuild_id (sorted_manifests warms) w1 = ((r2, n2, e2), w2)"
    by (metis prod.collapse)
  have counts: "n1 + length e1 = length recents" "n2 + length e2 = length warms"
    using attempt_each_accounts [OF one [unfolded replay_all_def]] attempt_each_accounts [OF two [unfolded replay_all_def]]
    by (simp_all add: sorted_manifests_length)
  from assms obtain cap where "report = \<lparr>rp_ingest_accepted = True, rp_triage_available = (e1 = []), rp_raw_query_available = (e1 = []),
      rp_warm_history_available = (e2 = []), rp_full_rebuild_complete = (e1 = [] \<and> e2 = []), rp_manifests_replayed = n1 + n2,
      rp_rows_replayed = r1 + r2, rp_errors = e1 @ e2, rp_rebuild_id = rebuild_id, rp_capacity = cap,
      rp_recovery_claim_valid = (case cap of None \<Rightarrow> None | Some r \<Rightarrow> Some (cr_feasible r \<and> e1 = [] \<and> e2 = []))\<rparr>"
    unfolding rebuild_serving_state_from_fos_def Let_def
    by (auto simp: eff_bind_def eff_lift_def one two split: sum.splits if_splits)
  with counts show ?thesis by (auto split: option.splits)
qed

lemma first_min_least:
  "first_min best ss \<in> set (best # ss) \<and> (\<forall>s \<in> set (best # ss). snd (first_min best ss) \<le> snd s)"
proof (induction ss arbitrary: best)
  case (Cons s ss)
  from Cons.IH [of "if snd s < snd best then s else best"] show ?case by (auto split: if_splits)
qed simp

text \<open>
  A feasible report keeps its promise. For a valid measurement the evaluation returns; the limiting rate is the
  smallest of the stages; and when the report is feasible, a day of events passes every stage, at the rate left over by
  live ingest and after replication, within the recovery window.
\<close>

theorem feasible_capacity_recovers_a_day:
  assumes "validate_measurement m = Inr ()"
  shows "\<exists>r. evaluate_recovery_capacity m = Inr r
    \<and> (\<forall>(stage, rate) \<in> set (capacity_stages m). cr_limiting_events_per_second r \<le> rate)
    \<and> (cr_limiting_stage r, cr_limiting_events_per_second r) \<in> set (capacity_stages m)
    \<and> (cr_feasible r \<longrightarrow> (\<forall>(stage, rate) \<in> set (capacity_stages m).
        of_int (rc_events_per_second m) * 86400
          \<le> of_int rate * (1 - rc_live_ingest_reservation m) * of_int (rc_recovery_window_seconds m)))"
proof -
  have pos: "0 < rc_recovery_window_seconds m" "rc_live_ingest_reservation m < 1"
    using assms by (auto simp: validate_measurement_def ebind_Inr_iff)
  obtain stage rate where min: "first_min (hd (capacity_stages m)) (tl (capacity_stages m)) = (stage, rate)" by fastforce
  note least = first_min_least [of "hd (capacity_stages m)" "tl (capacity_stages m)", unfolded min]
  have stages: "hd (capacity_stages m) # tl (capacity_stages m) = capacity_stages m" by (simp add: capacity_stages_def)
  let ?required = "of_int (rc_events_per_second m) * 86400 / of_int (rc_recovery_window_seconds m) / (1 - rc_live_ingest_reservation m)"
  have fits: "of_int (rc_events_per_second m) * 86400 \<le> of_int x * (1 - rc_live_ingest_reservation m) * of_int (rc_recovery_window_seconds m)"
    if "?required \<le> of_int rate" "rate \<le> x" for x
  proof -
    from that have "?required \<le> of_int x" using order_trans of_int_le_iff by blast
    with pos show ?thesis by (simp add: pos_divide_le_eq mult.commute mult.left_commute)
  qed
  show ?thesis
    using assms least fits unfolding stages
    by (auto simp: evaluate_recovery_capacity_def min Let_def)
qed

subsection \<open>Instances\<close>

text \<open>An archive of one object with one good line and one dead letter, and the plane that replays it.\<close>

definition example_archive_batch :: "(archive_source_object \<times> decode_result) list" where
  "example_archive_batch =
     (let source = \<lparr>so_service_id = ''svc'', so_domain = ''request'', so_object_key = ''k'', so_checksum = ''c1'', so_size_bytes = 10, so_version = Some ''v''\<rparr>
      in [(source, \<lparr>dr_source = source, dr_events = [example_event ''e1'' 0],
             dr_dead_letters = [\<lparr>dl_source_object_key = ''k'', dl_line_ordinal = 1, dl_raw_line = ''?'', dl_reason = ''invalid json''\<rparr>],
             dr_decoded_rows = 2, dr_accepted_rows = 1, dr_quarantined_rows = 1\<rparr>)])"

definition example_checkpoint :: "(archive_manifest \<times> json) result" where
  "example_checkpoint = write_batch_archive_checkpoint (ic_checkpoint example_controller) ''/tmp'' ''svc'' ''request''
     (map (\<lambda>(s, d). (s, archive_rows d)) example_archive_batch) 0 ''s1'' ''t1'' 5 9 0 900"

definition example_archived :: archive_manifest where
  "example_archived = (let m = fst (projr example_checkpoint) in m\<lparr>am_artifact := (am_artifact m)\<lparr>art_uri := ''s3://archive/m1''\<rparr>\<rparr>)"

definition document_rows :: "json \<Rightarrow> row list result" where
  "document_rows j =
     (case j of JList js \<Rightarrow> Inr (map (\<lambda>x. case x of JObj r \<Rightarrow> r | _ \<Rightarrow> []) js) | _ \<Rightarrow> Inl (ValueError ''not a table''))"

definition example_recovery :: "(json objects, json, string \<rightharpoonup> batch_manifest, ch_tables) recovery_plane" where
  "example_recovery =
     \<lparr>rv_archive = in_memory_object_store, rv_codec = document_codec, rv_parquet_rows = document_rows,
      rv_dumps = ck_dumps (ic_checkpoint example_controller), rv_sha = ck_sha (ic_checkpoint example_controller),
      rv_env = example_projection_env\<lparr>pe_batch := example_batch_env\<rparr>, rv_store = in_memory_batch_manifest_store,
      rv_insert = insert_batch example_batch_env memory_clickhouse 9, rv_aggregate_insert = insert_aggregate example_batch_env memory_clickhouse 9,
      rv_enrich = (\<lambda>rows. rows)\<rparr>"

definition example_recovery_world :: "(json objects, string \<rightharpoonup> batch_manifest, ch_tables) recovery_world" where
  "example_recovery_world =
     (snd (publish in_memory_object_store document_codec example_archived (snd (projr example_checkpoint)) Map.empty), Map.empty, (\<lambda>_. []))"

lemma is_ok_projr: "is_ok r \<Longrightarrow> r = Inr (projr r)"
  by (cases r) simp_all


text \<open>A rebuild over two manifests, of which the archive has lost the older.\<close>

definition example_catalog :: manifest_catalog where
  "example_catalog service_id domain start stop =
     Inr (if start = 90 then [example_archived] else [example_archived\<lparr>am_manifest_id := ''m0''\<rparr>])"

definition example_measurement :: recovery_capacity_measurement where
  "example_measurement = \<lparr>rc_events_per_second = 100, rc_recovery_window_seconds = 3600, rc_archive_read = 9000, rc_decode = 8000,
     rc_aggregate = 7000, rc_clickhouse_insert = 12001, rc_replication_factor = 2, rc_live_ingest_reservation = 1 / 2\<rparr>"

definition example_rebuild where
  "example_rebuild = rebuild_serving_state_from_fos example_recovery example_catalog ''svc'' ''request'' 100 10 50 ''r1''
     (Some example_measurement) example_recovery_world"

theorem rebuild_accounts_for_manifests_witness:
  "\<exists>report. fst example_rebuild = Inr report \<and> rp_manifests_replayed report = 1
     \<and> rp_errors report = [''manifest m0 failed to replay: archive manifest is not replayable'']
     \<and> \<not> rp_full_rebuild_complete report \<and> rp_recovery_claim_valid report \<noteq> Some True"
proof -
  have "map_sum (\<lambda>_. ()) rp_errors (fst example_rebuild) = Inr [''manifest m0 failed to replay: archive manifest is not replayable'']"
    by code_simp
  then obtain report where r: "fst example_rebuild = Inr report"
      "rp_errors report = [''manifest m0 failed to replay: archive manifest is not replayable'']"
    by (cases "fst example_rebuild") auto
  from r(1) have "rebuild_serving_state_from_fos example_recovery example_catalog ''svc'' ''request'' 100 10 50 ''r1''
      (Some example_measurement) example_recovery_world = (Inr report, snd example_rebuild)"
    by (metis example_rebuild_def prod.collapse)
  from rebuild_accounts_for_manifests [OF this, of "[example_archived]" "[example_archived\<lparr>am_manifest_id := ''m0''\<rparr>]"] r
  show ?thesis by (auto simp: example_catalog_def)
qed

theorem feasible_capacity_recovers_a_day_witness:
  "\<exists>r. evaluate_recovery_capacity example_measurement = Inr r \<and> cr_limiting_stage r = ''clickhouse_insert''
     \<and> cr_limiting_events_per_second r = 6000 \<and> cr_feasible r"
proof -
  have "validate_measurement example_measurement = Inr ()" by code_simp
  from feasible_capacity_recovers_a_day [OF this] obtain r where "evaluate_recovery_capacity example_measurement = Inr r" by blast
  moreover have "map_sum (\<lambda>_. ()) (\<lambda>r. (cr_limiting_stage r, cr_limiting_events_per_second r, cr_feasible r))
      (evaluate_recovery_capacity example_measurement) = Inr (''clickhouse_insert'', 6000, True)"
    by code_simp
  ultimately show ?thesis by simp
qed

end
