(* ===== verification/Serving_Schema.thy ===== *)
theory Serving_Schema
  imports Recovery
begin

text \<open>
  The serving tables of ClickHouse and the rows written to them. The column types are those of the schemas in \<open>sql/\<close>
  (\<open>LowCardinality\<close> is a storage hint and left out, \<open>DateTime\<close> and \<open>DateTime64\<close> are both instants). Shown: the
  rows of the batch adapter and of the aggregate adapter, as they come out of the decoder's events and of the projection
  builders, have the columns of their table in order and a value of the column's type in each. The text of a UUID is a
  parameter. Where the code does not bound an integer by the width of its column, the statement names the column.
\<close>

subsection \<open>Types and tables\<close>

datatype ch_type =
    TString
  | TUuid
  | TTime
  | TUInt nat
  | TFloat
  | TEnum "string list"
  | TMapText
  | TNullable ch_type
  | TArray ch_type

type_synonym table_schema = "(string \<times> ch_type) list"

definition PUBLICATION_STATE :: ch_type where
  "PUBLICATION_STATE = TEnum [''pending'', ''visible'']"

definition COMMON_SCHEMA :: table_schema where
  "COMMON_SCHEMA =
     [(''service_id'', TString), (''event_id'', TUuid), (''event_timestamp'', TTime), (''ingest_timestamp'', TTime),
      (''source_object_key'', TString), (''source_object_version'', TString), (''line_ordinal'', TUInt 64),
      (''transform_version'', TString), (''batch_id'', TUuid), (''publication_state'', PUBLICATION_STATE)]"

definition RUM_TAIL_SCHEMA :: table_schema where
  "RUM_TAIL_SCHEMA =
     [(''browser'', TString), (''os'', TString), (''device'', TString), (''city'', TString), (''region'', TString),
      (''pop'', TString), (''tls'', TString), (''ttfb'', TNullable TFloat)]"

definition request_facts_schema :: table_schema where
  "request_facts_schema = COMMON_SCHEMA
     @ [(''country'', TString), (''client_ip'', TString), (''url'', TString), (''custom_fields'', TMapText), (''cmcd'', TMapText)]"

definition rum_vitals_facts_schema :: table_schema where
  "rum_vitals_facts_schema = COMMON_SCHEMA
     @ [(''client_id'', TString), (''request_event_id'', TNullable TUuid), (''metric_name'', TString), (''metric_value'', TFloat),
        (''metric_rating'', TString), (''pathname'', TString), (''country'', TString)] @ RUM_TAIL_SCHEMA"

definition rum_error_facts_schema :: table_schema where
  "rum_error_facts_schema = COMMON_SCHEMA
     @ [(''client_id'', TString), (''request_event_id'', TNullable TUuid), (''error_message'', TString), (''error_file'', TString),
        (''pathname'', TString), (''country'', TString), (''error_line'', TUInt 32), (''error_col'', TUInt 32)] @ RUM_TAIL_SCHEMA"

definition cmcd_projection_facts_schema :: table_schema where
  "cmcd_projection_facts_schema =
     [(''service_id'', TString), (''projection_key'', TUuid), (''request_event_id'', TUuid), (''event_timestamp'', TTime),
      (''batch_id'', TUuid), (''publication_state'', PUBLICATION_STATE), (''cmcd'', TMapText), (''country'', TString),
      (''asn'', TNullable (TUInt 32))]"

definition minute_table :: "table_schema \<Rightarrow> table_schema" where
  "minute_table metrics = [(''service_id'', TString), (''bucket_start'', TTime)] @ metrics @ [(''batch_id'', TUuid), (''publication_state'', PUBLICATION_STATE)]"

definition counters :: "string list \<Rightarrow> table_schema" where
  "counters names = map (\<lambda>c. (c, TUInt 64)) names"

definition nullable_floats :: "string list \<Rightarrow> table_schema" where
  "nullable_floats names = map (\<lambda>c. (c, TNullable TFloat)) names"

definition sketch_columns :: "string \<Rightarrow> table_schema" where
  "sketch_columns name = [(name @ ''_sk_v'', TArray TFloat), (name @ ''_sk_w'', TArray (TUInt 32))]"

definition text_columns :: "string list \<Rightarrow> table_schema" where
  "text_columns names = map (\<lambda>c. (c, TString)) names"

definition origin_minute_summary_schema :: table_schema where
  "origin_minute_summary_schema = minute_table
     (counters [''requests'', ''misses'', ''passes'', ''origin_5xx'', ''status_count'', ''origin_bytes'', ''latency_count'',
        ''ttlb_count'', ''overhead_count'', ''origin_bytes_count'']
      @ nullable_floats [''latency_p50_us'', ''latency_p75_us'', ''latency_p95_us'', ''latency_p99_us'', ''ttlb_p50_us'',
        ''ttlb_p95_us'', ''cdn_overhead_p50_us'', ''origin_bytes_p50'']
      @ sketch_columns ''latency'' @ sketch_columns ''ttlb'' @ sketch_columns ''overhead'' @ sketch_columns ''origin_bytes'')"

definition origin_minute_dimensions_schema :: table_schema where
  "origin_minute_dimensions_schema = minute_table
     (text_columns [''dimension'', ''value''] @ counters [''requests'', ''origin_5xx'', ''origin_bytes'', ''latency_count'']
      @ nullable_floats [''latency_p50_us'', ''latency_p95_us'', ''latency_p99_us''] @ sketch_columns ''latency'')"

definition performance_minute_dimensions_schema :: table_schema where
  "performance_minute_dimensions_schema = minute_table
     (text_columns [''dimension'', ''value''] @ counters [''requests'', ''latency_count'']
      @ nullable_floats [''latency_sum_ms'', ''latency_p50_ms'', ''latency_p95_ms'', ''latency_p99_ms''])"

definition performance_minute_summary_schema :: table_schema where
  "performance_minute_summary_schema = minute_table
     (counters [''component_count''] @ [(''edge_processing_sum_ms'', TFloat), (''origin_wait_sum_ms'', TFloat),
        (''origin_download_sum_ms'', TFloat), (''client_download_sum_ms'', TFloat)])"

definition performance_scatter_samples_schema :: table_schema where
  "performance_scatter_samples_schema = minute_table
     [(''sample_key'', TUInt 64), (''origin_ms'', TFloat), (''edge_ms'', TFloat), (''cache'', TString)]"

definition security_minute_dimensions_schema :: table_schema where
  "security_minute_dimensions_schema = minute_table
     (text_columns [''dimension'', ''value''] @ counters [''requests''] @ text_columns [''wellknown_bot_name'', ''bot_category'']
      @ counters [''verified_count'', ''impersonator_count'', ''unverified_count''])"

definition network_minute_dimensions_schema :: table_schema where
  "network_minute_dimensions_schema = minute_table
     (text_columns [''dimension'', ''value'', ''c_speed''] @ counters [''requests'', ''errors'', ''tcp_rtt_count'']
      @ nullable_floats [''tcp_rtt_sum'', ''tcp_rtt_p50_us'', ''tcp_rtt_p95_us'', ''tcp_rtt_p99_us'', ''ploss_sum'']
      @ counters [''ploss_count''] @ nullable_floats [''ttfb_p50_us'', ''ttfb_p95_us''])"

definition SERVING_SCHEMAS :: "(string \<times> table_schema) list" where
  "SERVING_SCHEMAS =
     [(''request_facts'', request_facts_schema), (''rum_vitals_facts'', rum_vitals_facts_schema),
      (''rum_error_facts'', rum_error_facts_schema), (''cmcd_projection_facts'', cmcd_projection_facts_schema),
      (''origin_minute_summary'', origin_minute_summary_schema), (''origin_minute_dimensions'', origin_minute_dimensions_schema),
      (''performance_minute_dimensions'', performance_minute_dimensions_schema),
      (''performance_minute_summary'', performance_minute_summary_schema),
      (''performance_scatter_samples'', performance_scatter_samples_schema),
      (''security_minute_dimensions'', security_minute_dimensions_schema), (''network_minute_dimensions'', network_minute_dimensions_schema)]"

subsection \<open>Typing\<close>

fun json_has_type :: "ch_type \<Rightarrow> json \<Rightarrow> bool" where
  "json_has_type TString (JStr s) = True"
| "json_has_type (TUInt n) (JInt i) = (0 \<le> i \<and> i < 2 ^ n)"
| "json_has_type TFloat (JFloat q) = True"
| "json_has_type (TNullable ty) JNull = True"
| "json_has_type (TNullable ty) j = json_has_type ty j"
| "json_has_type (TArray ty) (JList js) = list_all (json_has_type ty) js"
| "json_has_type ty j = False"

fun has_type :: "(string \<Rightarrow> bool) \<Rightarrow> ch_type \<Rightarrow> ch_value \<Rightarrow> bool" where
  "has_type uuid TString (CStr s) = True"
| "has_type uuid TUuid (CStr s) = uuid s"
| "has_type uuid TTime (CTime t) = True"
| "has_type uuid (TUInt n) (CInt i) = (0 \<le> i \<and> i < 2 ^ n)"
| "has_type uuid TFloat (CFloat q) = True"
| "has_type uuid (TEnum names) (CStr s) = (s \<in> set names)"
| "has_type uuid TMapText (CMap m) = True"
| "has_type uuid (TNullable ty) CNull = True"
| "has_type uuid ty (CRaw j) = json_has_type ty j"
| "has_type uuid (TNullable ty) v = has_type uuid ty v"
| "has_type uuid ty v = False"

text \<open>A non-negative integer that its unsigned column cannot hold.\<close>

fun too_wide :: "ch_type \<Rightarrow> ch_value \<Rightarrow> bool" where
  "too_wide (TUInt n) (CInt i) = (2 ^ n \<le> i)"
| "too_wide (TUInt n) (CRaw (JInt i)) = (2 ^ n \<le> i)"
| "too_wide (TNullable ty) v = too_wide ty v"
| "too_wide ty v = False"

definition typed_row :: "(string \<Rightarrow> bool) \<Rightarrow> string list \<Rightarrow> table_schema \<Rightarrow> ch_value list \<Rightarrow> bool" where
  "typed_row uuid unbounded schema vs \<longleftrightarrow>
     list_all2 (\<lambda>(c, ty) v. has_type uuid ty v \<or> c \<in> set unbounded \<and> too_wide ty v) schema vs"

subsection \<open>Fact rows\<close>

definition UNBOUNDED_FACT_COLUMNS :: "string list" where
  "UNBOUNDED_FACT_COLUMNS = [''line_ordinal'', ''error_line'', ''error_col'', ''asn'']"

abbreviation typed_fact :: "(string \<Rightarrow> bool) \<Rightarrow> table_schema \<Rightarrow> ch_value list \<Rightarrow> bool" where
  "typed_fact uuid \<equiv> typed_row uuid UNBOUNDED_FACT_COLUMNS"

lemma typed_row_simps [simp]:
  "typed_row uuid ub [] vs \<longleftrightarrow> vs = []"
  "typed_row uuid ub ((c, ty) # s) (v # vs) \<longleftrightarrow> (has_type uuid ty v \<or> c \<in> set ub \<and> too_wide ty v) \<and> typed_row uuid ub s vs"
  "\<not> typed_row uuid ub (x # s) []"
  by (auto simp: typed_row_def)

lemma typed_row_append: "typed_row uuid ub s1 vs1 \<Longrightarrow> typed_row uuid ub s2 vs2 \<Longrightarrow> typed_row uuid ub (s1 @ s2) (vs1 @ vs2)"
  by (simp add: typed_row_def list_all2_appendI)

lemma event_uuid_Inr: "event_uuid env v field = Inr e \<Longrightarrow> (\<And>ns s. uuid (be_uuid5 env ns s)) \<Longrightarrow> uuid e"
  by (auto simp: event_uuid_def split: json.splits if_splits)

lemma required_nonnegative_int_Inr: "required_nonnegative_int r field = Inr n \<Longrightarrow> 0 \<le> n"
  by (auto simp: required_nonnegative_int_def split: json.splits if_splits)

lemma common_typed:
  assumes "common_values env batch r u = Inr vs" and "\<And>ns s. uuid (be_uuid5 env ns s)" and "uuid u"
  shows "typed_fact uuid COMMON_SCHEMA vs"
proof -
  from assms(1) obtain e t i k v n w where vs: "vs = [CStr (hb_service_id batch), CStr e, CTime t, CTime i, CStr k, CStr v, CInt n, CStr w,
        CStr u, CStr ''visible'']"
      and "event_uuid env (row_get r ''event_id'') ''event_id'' = Inr e" "required_nonnegative_int r ''line_ordinal'' = Inr n"
    by (auto simp: common_values_def ebind_Inr_iff)
  then have "uuid e" "0 \<le> n" using event_uuid_Inr [of env _ _ e uuid] assms(2) required_nonnegative_int_Inr by blast+
  with vs assms(3) show ?thesis
    by (auto simp: COMMON_SCHEMA_def PUBLICATION_STATE_def UNBOUNDED_FACT_COLUMNS_def)
qed

lemma request_typed:
  assumes "request_values env batch u r = Inr vs" and "\<And>ns s. uuid (be_uuid5 env ns s)" and "uuid u"
  shows "typed_fact uuid request_facts_schema vs"
proof -
  from assms(1) obtain common country ip url custom cmcd where "common_values env batch r u = Inr common"
      "vs = common @ [CStr country, CStr ip, CStr url, CMap custom, CMap cmcd]"
    by (auto simp: request_values_def ebind_Inr_iff)
  with common_typed [OF _ assms(2,3)] show ?thesis
    unfolding request_facts_schema_def by (auto intro!: typed_row_append)
qed

lemma position_nonneg: "0 \<le> position env r ks"
  by (induction ks) (auto split: option.splits)

lemma rum_environment_typed:
  "typed_fact uuid RUM_TAIL_SCHEMA (map (ch_get (rum_environment env r)) RUM_ENV_TAIL_COLUMNS)"
  "\<exists>s. ch_get (rum_environment env r) ''country'' = CStr s"
  by (auto simp: RUM_TAIL_SCHEMA_def RUM_ENV_TAIL_COLUMNS_def rum_environment_def TEXT_ALIASES_def ch_get_def split: option.splits)

lemma rum_environment_values_typed:
  "typed_fact uuid ((''country'', TString) # RUM_TAIL_SCHEMA) (rum_environment_values env r False)"
  "typed_fact uuid ((''country'', TString) # [(''error_line'', TUInt 32), (''error_col'', TUInt 32)] @ RUM_TAIL_SCHEMA)
     (rum_environment_values env r True)"
  using rum_environment_typed [where env = env and r = r] position_nonneg
  by (auto simp: rum_environment_values_def rum_error_position_def Let_def UNBOUNDED_FACT_COLUMNS_def simp del: position.simps)

lemma rum_typed:
  assumes "rum_values env batch u r = Inr vs" and "\<And>ns s. uuid (be_uuid5 env ns s)" and "uuid u"
  shows "hb_domain batch = ''rum_vitals'' \<Longrightarrow> typed_fact uuid rum_vitals_facts_schema vs"
    and "hb_domain batch = ''rum_errors'' \<Longrightarrow> typed_fact uuid rum_error_facts_schema vs"
proof -
  from assms(1) obtain common req client tl where vs: "common_values env batch r u = Inr common" "rum_tail env (hb_domain batch) r = Inr tl"
      "vs = common @ [CStr client, req] @ tl" "req = CNull \<or> (\<exists>e. req = CStr e \<and> event_uuid env (row_get r ''request_event_id'') ''request_event_id'' = Inr e)"
    by (auto simp: rum_values_def ebind_Inr_iff split: if_splits)
  have head: "typed_fact uuid (COMMON_SCHEMA @ [(''client_id'', TString), (''request_event_id'', TNullable TUuid)]) (common @ [CStr client, req])"
    using common_typed [OF vs(1) assms(2,3)] vs(4) event_uuid_Inr [where uuid = uuid, OF _ assms(2)] by (intro typed_row_append) auto
  {
    assume "hb_domain batch = ''rum_vitals''"
    with vs(2) obtain name q rating path where "tl = [CStr name, CFloat q, CStr rating, CStr path] @ rum_environment_values env r False"
      by (auto simp: rum_tail_def ebind_Inr_iff)
    then have "typed_fact uuid ([(''metric_name'', TString), (''metric_value'', TFloat), (''metric_rating'', TString), (''pathname'', TString)]
        @ (''country'', TString) # RUM_TAIL_SCHEMA) tl"
      using rum_environment_values_typed(1) by (auto intro!: typed_row_append)
    with typed_row_append [OF head] show "typed_fact uuid rum_vitals_facts_schema vs"
      by (simp add: vs(3) rum_vitals_facts_schema_def)
  next
    assume "hb_domain batch = ''rum_errors''"
    with vs(2) obtain msg efile path where "tl = [CStr msg, CStr efile, CStr path] @ rum_environment_values env r True"
      by (auto simp: rum_tail_def ebind_Inr_iff)
    then have "typed_fact uuid ([(''error_message'', TString), (''error_file'', TString), (''pathname'', TString)]
        @ (''country'', TString) # [(''error_line'', TUInt 32), (''error_col'', TUInt 32)] @ RUM_TAIL_SCHEMA) tl"
      using rum_environment_values_typed(2) by (auto intro!: typed_row_append)
    with typed_row_append [OF head] show "typed_fact uuid rum_error_facts_schema vs"
      by (simp add: vs(3) rum_error_facts_schema_def)
  }
qed

lemma cmcd_typed:
  assumes "cmcd_values env batch u r = Inr vs" and "\<And>ns s. uuid (be_uuid5 env ns s)" and "uuid u"
  shows "typed_fact uuid cmcd_projection_facts_schema vs"
proof -
  from assms(1) obtain pk e1 e2 t cmcd country where "event_uuid env pk ''projection_key'' = Inr e1"
      "event_uuid env (row_get r ''request_event_id'') ''request_event_id'' = Inr e2"
      "vs = [CStr (hb_service_id batch), CStr e1, CStr e2, CTime t, CStr u, CStr ''visible'', CMap cmcd, CStr country, optional_asn (row_get r ''asn'')]"
    by (auto simp: cmcd_values_def ebind_Inr_iff)
  moreover from this have "uuid e1" "uuid e2" using event_uuid_Inr [where uuid = uuid, OF _ assms(2)] by blast+
  ultimately show ?thesis using assms(3)
    by (auto simp: cmcd_projection_facts_schema_def PUBLICATION_STATE_def UNBOUNDED_FACT_COLUMNS_def optional_asn_def split: json.splits)
qed

lemmas schema_defs = SERVING_SCHEMAS_def request_facts_schema_def rum_vitals_facts_schema_def rum_error_facts_schema_def
  cmcd_projection_facts_schema_def COMMON_SCHEMA_def RUM_TAIL_SCHEMA_def

text \<open>
  C32. Fact rows are well typed. Whatever the batch holds, the rows that \<open>_rows_for_domain\<close> returns have the columns the
  adapter names, these are the columns of the domain's table in order, and every value has its column's type. The one
  exception is the width of an integer that the code checks for its sign only: a line ordinal, an error position or an
  autonomous system number that its column cannot hold.
\<close>

theorem fact_rows_are_typed:
  assumes "rows_for_domain env batch (batch_uuid env batch) = Inr mapped" and "map_of DOMAIN_TABLES (hb_domain batch) = Some table"
    and "\<And>ns s. uuid (be_uuid5 env ns s)"
  shows "\<exists>schema. map_of SERVING_SCHEMAS table = Some schema \<and> map_of DOMAIN_COLUMNS (hb_domain batch) = Some (map fst schema)
    \<and> list_all (typed_row uuid UNBOUNDED_FACT_COLUMNS schema) mapped"
proof -
  let ?u = "batch_uuid env batch"
  have u: "uuid ?u" using assms(3) by (simp add: batch_uuid_def)
  from assms(2) consider
      "hb_domain batch = ''request''" "table = ''request_facts''" | "hb_domain batch = ''rum_vitals''" "table = ''rum_vitals_facts''"
    | "hb_domain batch = ''rum_errors''" "table = ''rum_error_facts''" | "hb_domain batch = ''cmcd''" "table = ''cmcd_projection_facts''"
    by (auto simp: DOMAIN_TABLES_def split: if_splits)
  then show ?thesis
  proof cases
    case 1
    with assms(1) have "list_all (typed_fact uuid request_facts_schema) mapped"
      by (simp add: rows_for_domain_def) (rule map_result_all, assumption, rule request_typed [OF _ assms(3) u])
    with 1 show ?thesis by (simp add: schema_defs DOMAIN_COLUMNS_def COMMON_FACT_COLUMNS_def)
  next
    case 2
    with assms(1) have "list_all (typed_fact uuid rum_vitals_facts_schema) mapped"
      by (simp add: rows_for_domain_def) (rule map_result_all, assumption, rule rum_typed(1) [OF _ assms(3) u])
    with 2 show ?thesis by (simp add: schema_defs DOMAIN_COLUMNS_def COMMON_FACT_COLUMNS_def RUM_ENV_TAIL_COLUMNS_def)
  next
    case 3
    with assms(1) have "list_all (typed_fact uuid rum_error_facts_schema) mapped"
      by (simp add: rows_for_domain_def) (rule map_result_all, assumption, rule rum_typed(2) [OF _ assms(3) u])
    with 3 show ?thesis by (simp add: schema_defs DOMAIN_COLUMNS_def COMMON_FACT_COLUMNS_def RUM_ENV_TAIL_COLUMNS_def)
  next
    case 4
    with assms(1) have "list_all (typed_fact uuid cmcd_projection_facts_schema) mapped"
      by (simp add: rows_for_domain_def) (rule map_result_all, assumption, rule cmcd_typed [OF _ assms(3) u])
    with 4 show ?thesis by (simp add: schema_defs DOMAIN_COLUMNS_def)
  qed
qed

subsection \<open>Projection rows\<close>

text \<open>Typing of the metric columns of a projection row.\<close>

definition UNBOUNDED_METRICS :: "string list" where
  "UNBOUNDED_METRICS = [''origin_bytes'']"

definition metric_ok :: "row \<Rightarrow> string \<times> ch_type \<Rightarrow> bool" where
  "metric_ok r col = (case map_of r (fst col) of
     None \<Rightarrow> False
   | Some j \<Rightarrow> json_has_type (snd col) j \<or> fst col \<in> set UNBOUNDED_METRICS \<and> too_wide (snd col) (CRaw j))"

lemma has_type_raw: "has_type uuid ty (CRaw j) \<longleftrightarrow> json_has_type ty j"
  by (cases "(uuid, ty, CRaw j)" rule: has_type.cases) auto

lemma metrics_typed:
  assumes "list_all (metric_ok r) metrics"
  shows "\<exists>ms. map_result (json_item r) (map fst metrics) = Inr ms \<and> typed_row uuid UNBOUNDED_METRICS metrics (map CRaw ms)"
  using assms
proof (induction metrics)
  case (Cons m metrics)
  then obtain ms j where "map_result (json_item r) (map fst metrics) = Inr ms" "typed_row uuid UNBOUNDED_METRICS metrics (map CRaw ms)"
      "map_of r (fst m) = Some j" "json_has_type (snd m) j \<or> fst m \<in> set UNBOUNDED_METRICS \<and> too_wide (snd m) (CRaw j)"
    by (auto simp: metric_ok_def split: option.splits)
  moreover from this have "json_item r (fst m) = Inr j" by (simp add: json_item_def)
  ultimately show ?case by (cases m) (simp add: has_type_raw)
qed simp

lemma projection_values_typed:
  assumes "list_all (metric_ok r) metrics" and "map_of r ''bucket_start'' = Some b" and "is_ok (bucket_start_value env b)" and "uuid u"
  shows "\<exists>vs. projection_values env (map fst metrics) batch u r = Inr vs \<and> typed_row uuid UNBOUNDED_METRICS (minute_table metrics) vs"
proof -
  from metrics_typed [OF assms(1)] obtain ms where ms: "map_result (json_item r) (map fst metrics) = Inr ms"
      "typed_row uuid UNBOUNDED_METRICS metrics (map CRaw ms)" by blast
  from assms(3) obtain t where t: "bucket_start_value env b = Inr t" by (auto simp: is_ok_iff)
  have "typed_row uuid UNBOUNDED_METRICS (minute_table metrics)
      ([CStr (hb_service_id batch), CTime t] @ map CRaw ms @ [CStr u, CStr ''visible''])"
    unfolding minute_table_def
    by (intro typed_row_append ms(2)) (simp_all add: assms(4) PUBLICATION_STATE_def)
  then show ?thesis by (simp add: projection_values_def json_item_def assms(2) t ms(1))
qed

lemma map_result_total:
  assumes "\<And>x. x \<in> set xs \<Longrightarrow> \<exists>y. f x = Inr y \<and> P y"
  shows "\<exists>ys. map_result f xs = Inr ys \<and> list_all P ys"
  using assms
proof (induction xs)
  case (Cons x xs)
  then obtain y ys where "f x = Inr y" "P y" "map_result f xs = Inr ys" "list_all P ys" by (metis list.set_intros)
  then show ?case by simp
qed simp

subsection \<open>Counters stay within the rows\<close>

lemma row_updates_bound:
  assumes "\<And>b r. distinct (map fst (f b r))"
  shows "length (filter (\<lambda>u. fst u = k) (row_updates env f rows)) \<le> length rows"
proof (induction rows)
  case (Cons r rows)
  have "length (filter (\<lambda>u. fst u = k) us) \<le> 1" if "distinct (map fst us)" for us :: "('a \<times> ('b \<Rightarrow> 'b)) list"
    using that
  proof (induction us)
    case (Cons u us)
    from Cons.prems have "fst x \<noteq> fst u" if "x \<in> set us" for x using that by (metis distinct.simps(2) imageI list.set_map list.simps(9))
    then have "filter (\<lambda>x. fst x = fst u) us = []" by (simp add: filter_empty_conv)
    with Cons show ?case by (cases "fst u = k") auto
  qed simp
  with assms have one: "length (filter (\<lambda>u. fst u = k) (f b r)) \<le> 1" for b by blast
  show ?case
  proof (cases "minute_of env r")
    case None
    with Cons show ?thesis by (simp add: row_updates_def)
  next
    case (Some b)
    with Cons one [of b] show ?thesis by (simp add: row_updates_def)
  qed
qed (simp add: row_updates_def)

lemma grouped_requests:
  fixes q :: "'a \<Rightarrow> int"
  assumes "(k, acc) \<in> set (grouped fresh (row_updates env f rows))" and "q fresh = 0"
    and "\<And>b r u a. u \<in> set (f b r) \<Longrightarrow> q (snd u a) = q a + 1" and "\<And>b r. distinct (map fst (f b r))"
  shows "0 \<le> q acc \<and> q acc \<le> int (length rows)"
  using grouped_count [OF assms(1-3)] row_updates_bound [of f k env rows, OF assms(4)] by simp

definition origin_bounded :: "origin_accumulator \<Rightarrow> bool" where
  "origin_bounded acc \<longleftrightarrow> 0 \<le> oa_misses acc \<and> oa_misses acc \<le> oa_requests acc \<and> 0 \<le> oa_passes acc \<and> oa_passes acc \<le> oa_requests acc
     \<and> 0 \<le> oa_origin_5xx acc \<and> oa_origin_5xx acc \<le> oa_requests acc \<and> 0 \<le> oa_status_count acc \<and> oa_status_count acc \<le> oa_requests acc
     \<and> 0 \<le> oa_origin_bytes acc \<and> int (length (oa_latencies acc)) \<le> oa_requests acc \<and> int (length (oa_ttlb_values acc)) \<le> oa_requests acc
     \<and> int (length (oa_overhead_values acc)) \<le> oa_requests acc \<and> int (length (oa_byte_values acc)) \<le> oa_requests acc"

lemma fresh_origin_bounded: "origin_bounded fresh_origin"
  by (simp add: origin_bounded_def fresh_origin_def)

lemma add_latency_metrics_bounded:
  assumes "origin_bounded acc" and "case n of None \<Rightarrow> True | Some k \<Rightarrow> 0 \<le> k"
  shows "origin_bounded (add_latency_metrics env r l s n acc)"
  using assms unfolding add_latency_metrics_def Let_def
  by (cases n; cases "finite_float env (row_get r ''ottlb'')"; cases "finite_float env (row_get r ''elapsed'')"; cases s)
    (simp_all add: origin_bounded_def int_of_bool_def is_5xx_def)

lemma add_dimension_metrics_bounded:
  assumes "origin_bounded acc" and "case n of None \<Rightarrow> True | Some k \<Rightarrow> 0 \<le> k"
  shows "origin_bounded (add_dimension_metrics l s n (one_request acc))"
  using assms unfolding add_dimension_metrics_def Let_def one_request_def
  by (cases n; cases l; cases s) (simp_all add: origin_bounded_def int_of_bool_def is_5xx_def)

lemma non_negative_integer_ok: "case non_negative_integer env v of None \<Rightarrow> True | Some k \<Rightarrow> 0 \<le> k"
  by (auto simp: non_negative_integer_def split: option.splits)

lemma origin_summary_updates_bounded:
  "u \<in> set (origin_summary_updates env b r) \<Longrightarrow> origin_bounded a \<Longrightarrow> origin_bounded (snd u a)"
  by (auto simp: origin_summary_updates_def add_latency_metrics_bounded non_negative_integer_ok split: option.splits)

lemma status_update_bounded:
  "origin_bounded a \<Longrightarrow> origin_bounded ((one_request a)\<lparr>oa_origin_5xx := oa_origin_5xx a + int_of_bool c\<rparr>)"
  by (cases c) (simp_all add: origin_bounded_def one_request_def int_of_bool_def)

lemma origin_dimension_updates_bounded:
  "u \<in> set (origin_dimension_updates env b r) \<Longrightarrow> origin_bounded a \<Longrightarrow> origin_bounded (snd u a)"
  using non_negative_integer_ok [of env "row_get r ''obytes''"]
  by (auto simp: origin_dimension_updates_def Let_def add_dimension_metrics_bounded status_update_bounded split: option.splits if_splits)

definition latency_bounded :: "latency_accumulator \<Rightarrow> bool" where
  "latency_bounded acc \<longleftrightarrow> int (length (la_latencies acc)) \<le> la_requests acc"

lemma performance_updates_bounded: "u \<in> set (performance_updates env b r) \<Longrightarrow> latency_bounded a \<Longrightarrow> latency_bounded (snd u a)"
  by (auto simp: performance_updates_def latency_bounded_def add_latency_def Let_def split: option.splits)

definition security_bounded :: "security_accumulator \<Rightarrow> bool" where
  "security_bounded acc \<longleftrightarrow> 0 \<le> sa_verified_count acc \<and> 0 \<le> sa_impersonator_count acc \<and> 0 \<le> sa_unverified_count acc
     \<and> sa_verified_count acc + sa_impersonator_count acc + sa_unverified_count acc \<le> sa_requests acc"

lemma security_updates_bounded: "u \<in> set (security_updates b r) \<Longrightarrow> security_bounded a \<Longrightarrow> security_bounded (snd u a)"
  by (auto simp: security_updates_def security_bounded_def add_bot_def Let_def int_of_bool_def split: if_splits)

definition network_bounded :: "network_accumulator \<Rightarrow> bool" where
  "network_bounded acc \<longleftrightarrow> 0 \<le> na_errors acc \<and> na_errors acc \<le> na_requests acc \<and> 0 \<le> na_ploss_count acc \<and> na_ploss_count acc \<le> na_requests acc
     \<and> int (length (na_tcp_rtts acc)) \<le> na_requests acc"

lemma network_update_bounded: "network_bounded a \<Longrightarrow> network_bounded (network_update e t f p a)"
  by (cases p; cases t; cases e) (auto simp: network_bounded_def network_update_def append_positive_def int_of_bool_def)

lemma network_updates_bounded: "u \<in> set (network_updates env b r) \<Longrightarrow> network_bounded a \<Longrightarrow> network_bounded (snd u a)"
  by (auto simp: network_updates_def Let_def network_update_bounded)

text \<open>An event has at most one update for a key.\<close>

lemma updates_distinct:
  "distinct (map fst (origin_summary_updates env b r))" "distinct (map fst (waterfall_updates env b r))" "distinct (map fst (security_updates b r))"
  by (simp_all add: origin_summary_updates_def waterfall_updates_def security_updates_def Let_def split: option.splits)

lemma serving_dimensions_distinct:
  assumes "distinct (map fst ds)"
  shows "distinct (map fst (map (\<lambda>(d, v). ((b, d, v), g)) (filter p ds)))"
proof -
  have "distinct (map fst (filter p ds))" using assms by (rule distinct_map_filter)
  then have "distinct (filter p ds)" by (simp add: distinct_map)
  then show ?thesis by (auto simp: distinct_map inj_on_def)
qed

lemma performance_distinct: "distinct (map fst (performance_updates env b r))"
  unfolding performance_updates_def by (rule serving_dimensions_distinct) simp

lemma network_distinct: "distinct (map fst (network_updates env b r))"
  by (auto simp: network_updates_def Let_def distinct_map inj_on_def)

lemma latency_dimensions_distinct: "distinct (map fst (latency_dimensions r))" "set (map fst (latency_dimensions r)) \<subseteq> {''url'', ''pop'', ''edge''}"
  by (cases "row_get r ''edge''"; simp add: latency_dimensions_def)+

lemma origin_distinct: "distinct (map fst (origin_dimension_updates env b r))"
proof -
  have dims: "distinct (map fst (map (\<lambda>(d, v). ((b, d, v), g)) (latency_dimensions r)))" for g :: "origin_accumulator \<Rightarrow> origin_accumulator"
    using serving_dimensions_distinct [OF latency_dimensions_distinct(1), of b g "\<lambda>_. True" r] by simp
  have sub: "(''status'', v) \<notin> set (latency_dimensions r)" "(''oip'', v) \<notin> set (latency_dimensions r)" for v
    using latency_dimensions_distinct(2) [of r] by (auto simp: image_subset_iff)
  show ?thesis
    unfolding origin_dimension_updates_def Let_def
    using dims sub by (cases "optional_int env (row_get r ''ost'')") (auto simp: comp_def split: if_splits)
qed

lemma waterfall_update_counts: "u \<in> set (waterfall_updates env b r) \<Longrightarrow> ws_count (snd u a) = ws_count a + 1"
  by (auto simp: waterfall_updates_def Let_def split: option.splits)

lemma summary_update_counts: "u \<in> set (origin_summary_updates env b r) \<Longrightarrow> oa_requests (snd u a) = oa_requests a + 1"
  by (auto simp: origin_summary_updates_def requests_step split: option.splits)

subsection \<open>Values of the projection rows\<close>

definition percentile_of :: "rat list \<Rightarrow> rat \<Rightarrow> rat option" where
  "percentile_of vs q = (if vs = [] then None else Some (percentile_at (sort vs) q))"

lemma percentiles_map: "percentiles vs qs = map (percentile_of vs) qs"
  by (simp add: percentiles_def percentile_of_def)

lemma json_opt_typed: "json_has_type (TNullable TFloat) (json_opt v)"
  by (cases v) (simp_all add: json_opt_def)

lemma sketch_typed:
  assumes "sketch li vs = (cs, ws)" and "length vs < 2 ^ 32"
  shows "json_has_type (TArray TFloat) (JList (map JFloat cs))" "json_has_type (TArray (TUInt 32)) (JList (map JInt ws))"
proof -
  have "int (length (filter (\<lambda>x. x = c) (map (centroid li) vs))) < 2 ^ 32" for c
    using length_filter_le [of "\<lambda>x. x = c" "map (centroid li) vs"] assms(2) by (simp del: filter_map length_filter_map)
  with assms(1) show "json_has_type (TArray (TUInt 32)) (JList (map JInt ws))"
    by (auto simp: sketch_def Let_def list_all_iff)
qed (simp add: list_all_iff)

definition hex_text :: "string \<Rightarrow> bool" where
  "hex_text s \<longleftrightarrow> list_all (\<lambda>c. c \<in> set ''0123456789abcdef'') s"

lemma hex_value_bound: "hex_text s \<Longrightarrow> 0 \<le> hex_value s \<and> hex_value s < 16 ^ length s"
proof (induction s rule: rev_induct)
  case Nil
  then show ?case by (simp add: hex_value_def)
next
  case (snoc c s)
  let ?d = "let k = int (of_char c) in if k < 58 then k - 48 else k - 87"
  have "c \<in> set ''0123456789abcdef''" using snoc.prems by (simp add: hex_text_def)
  then have "0 \<le> ?d \<and> ?d < 16" by auto
  moreover have "hex_value (s @ [c]) = 16 * hex_value s + ?d" by (simp add: hex_value_def)
  moreover have "0 \<le> hex_value s" "hex_value s < 16 ^ length s" using snoc by (simp_all add: hex_text_def)
  ultimately show ?case by simp
qed

lemma sample_key_bound:
  assumes "\<And>s. hex_text (be_sha256 env s)"
  shows "0 \<le> sample_key env r n \<and> sample_key env r n < 2 ^ 64"
proof -
  have bound: "0 \<le> hex_value (take 16 s) \<and> hex_value (take 16 s) < 2 ^ 64" if "hex_text s" for s
  proof -
    from that have "hex_text (take 16 s)" unfolding hex_text_def list_all_iff by (meson in_set_takeD)
    from hex_value_bound [OF this] have "0 \<le> hex_value (take 16 s)" "hex_value (take 16 s) < 16 ^ length (take 16 s)" by simp_all
    moreover have "(16 :: int) ^ length (take 16 s) \<le> 16 ^ 16" by (rule power_increasing) simp_all
    ultimately show ?thesis by simp
  qed
  show ?thesis unfolding sample_key_def Let_def by (rule bound [OF assms])
qed

definition minute_row_ok :: "projection_env \<Rightarrow> table_schema \<Rightarrow> row \<Rightarrow> bool" where
  "minute_row_ok env schema r \<longleftrightarrow>
     (\<exists>metrics t. schema = minute_table metrics \<and> list_all (metric_ok r) metrics \<and> map_of r ''bucket_start'' = Some (JStr (pe_isoformat env t)))"

lemma minute_row_okI:
  "schema = minute_table metrics \<Longrightarrow> list_all (metric_ok r) metrics \<Longrightarrow> map_of r ''bucket_start'' = Some (JStr (pe_isoformat env t))
     \<Longrightarrow> minute_row_ok env schema r"
  unfolding minute_row_ok_def by blast

lemmas column_defs = counters_def nullable_floats_def sketch_columns_def text_columns_def


lemma security_row_ok:
  assumes "security_bounded acc" and "sa_requests acc < 2 ^ 32"
  shows "minute_row_ok env security_minute_dimensions_schema (security_dimension_row env ((b, d, v), acc))"
  using assms
  by (intro minute_row_okI [OF security_minute_dimensions_schema_def, where t = b])
    (simp_all add: column_defs metric_ok_def security_dimension_row_def security_bounded_def)

lemma network_row_ok:
  assumes "network_bounded acc" and "na_requests acc < 2 ^ 32"
  shows "minute_row_ok env network_minute_dimensions_schema (network_dimension_row env ((b, d, v, c), acc))"
  using assms
  by (intro minute_row_okI [OF network_minute_dimensions_schema_def, where t = b])
    (simp_all add: column_defs metric_ok_def network_dimension_row_def network_bounded_def percentiles_map json_opt_typed)

lemma performance_rows_ok:
  shows "latency_bounded acc \<Longrightarrow> la_requests acc < 2 ^ 32 \<Longrightarrow>
      minute_row_ok env performance_minute_dimensions_schema (performance_dimension_row env ((b, d, v), acc))"
    and "0 \<le> ws_count s \<Longrightarrow> ws_count s < 2 ^ 32 \<Longrightarrow> minute_row_ok env performance_minute_summary_schema (performance_summary_row env (b, s))"
  by (intro minute_row_okI [OF performance_minute_dimensions_schema_def, where t = b];
      simp add: column_defs metric_ok_def performance_dimension_row_def latency_bounded_def percentiles_map json_opt_typed)
    (intro minute_row_okI [OF performance_minute_summary_schema_def, where t = b];
      simp add: column_defs metric_ok_def performance_summary_row_def)

lemma scatter_rows_ok:
  assumes "\<And>s. hex_text (be_sha256 (pe_batch env) s)" and "scatter_candidates env n rows = Inr cs"
  shows "list_all (\<lambda>c. minute_row_ok env performance_scatter_samples_schema (snd c)) cs"
  using assms(2)
proof (induction rows arbitrary: n cs)
  case (Cons r rows)
  then obtain b more where more: "bucket (pe_batch env) (row_get r ''timestamp'') = Inr b" "scatter_candidates env (Suc n) rows = Inr more"
    by (auto simp: ebind_Inr_iff)
  note rest = Cons.IH [OF more(2)]
  have "minute_row_ok env performance_scatter_samples_schema
      [(''bucket_start'', JStr (pe_isoformat env t)), (''sample_key'', JInt (sample_key (pe_batch env) r n)), (''origin_ms'', JFloat x),
       (''edge_ms'', JFloat y), (''cache'', JStr z)]" for t x y z
    using sample_key_bound [OF assms(1), of r n]
    by (intro minute_row_okI [OF performance_scatter_samples_schema_def, where t = t]) (simp_all add: metric_ok_def)
  with Cons.prems more rest show ?case by (auto simp: Let_def split: option.splits if_splits)
qed simp

lemma sketch_fields_get:
  assumes "length vs < 2 ^ 32"
  obtains cs ws where "sketch_fields env name vs = [(name @ ''_sk_v'', JList (map JFloat cs)), (name @ ''_sk_w'', JList (map JInt ws))]"
    "list_all (json_has_type TFloat) (map JFloat cs)" "list_all (json_has_type (TUInt 32)) (map JInt ws)"
proof -
  obtain cs ws where s: "sketch (pe_log_index env) vs = (cs, ws)" by fastforce
  from sketch_typed [OF s assms] show thesis by (intro that [of cs ws]) (simp_all add: sketch_fields_def s)
qed

lemma origin_dimension_row_ok:
  assumes "origin_bounded acc" and "oa_requests acc < 2 ^ 32"
  shows "minute_row_ok env origin_minute_dimensions_schema (origin_dimension_row env ((b, d, v), acc))"
proof -
  have "length (oa_latencies acc) < 2 ^ 32" using assms by (simp add: origin_bounded_def)
  then obtain cs ws where "sketch_fields env ''latency'' (oa_latencies acc) = [(''latency'' @ ''_sk_v'', JList (map JFloat cs)), (''latency'' @ ''_sk_w'', JList (map JInt ws))]"
    "list_all (json_has_type TFloat) (map JFloat cs)" "list_all (json_has_type (TUInt 32)) (map JInt ws)"
    by (rule sketch_fields_get)
  with assms show ?thesis
    by (intro minute_row_okI [OF origin_minute_dimensions_schema_def, where t = b])
      (auto simp: column_defs metric_ok_def origin_dimension_row_def origin_bounded_def percentiles_map json_opt_typed UNBOUNDED_METRICS_def
        simp del: list.pred_map)
qed

lemma origin_summary_row_ok:
  assumes "origin_bounded acc" and "oa_requests acc < 2 ^ 32"
  shows "minute_row_ok env origin_minute_summary_schema (origin_summary_row env (b, acc))"
proof -
  have small: "length (oa_latencies acc) < 2 ^ 32" "length (oa_ttlb_values acc) < 2 ^ 32" "length (oa_overhead_values acc) < 2 ^ 32"
      "length (oa_byte_values acc) < 2 ^ 32"
    using assms by (simp_all add: origin_bounded_def)
  let ?typed = "\<lambda>name vs cs ws. sketch_fields env name vs = [(name @ ''_sk_v'', JList (map JFloat cs)), (name @ ''_sk_w'', JList (map JInt ws))]
      \<and> list_all (json_has_type TFloat) (map JFloat cs) \<and> list_all (json_has_type (TUInt 32)) (map JInt ws)"
  have typed: "\<exists>cs ws. ?typed name vs cs ws" if "length vs < 2 ^ 32" for name vs
    using sketch_fields_get [OF that, of env name] by blast
  obtain c1 w1 where 1: "?typed ''latency'' (oa_latencies acc) c1 w1" using typed [OF small(1)] by blast
  obtain c2 w2 where 2: "?typed ''ttlb'' (oa_ttlb_values acc) c2 w2" using typed [OF small(2)] by blast
  obtain c3 w3 where 3: "?typed ''overhead'' (oa_overhead_values acc) c3 w3" using typed [OF small(3)] by blast
  obtain c4 w4 where 4: "?typed ''origin_bytes'' (oa_byte_values acc) c4 w4" using typed [OF small(4)] by blast
  from 1 2 3 4 assms show ?thesis
    by (intro minute_row_okI [OF origin_minute_summary_schema_def, where t = b])
      (auto simp: column_defs metric_ok_def origin_summary_row_def origin_bounded_def percentiles_map json_opt_typed UNBOUNDED_METRICS_def
        simp del: list.pred_map)
qed

text \<open>All rows of one table.\<close>

lemma grouped_rows_ok:
  fixes q :: "'a \<Rightarrow> int" and f :: "timestamp \<Rightarrow> row \<Rightarrow> ('k :: linorder \<times> ('a \<Rightarrow> 'a)) list"
  assumes "only_value_errors benv" and "length rows < 2 ^ 32" and "q fresh = 0" and "\<And>b r u a. u \<in> set (f b r) \<Longrightarrow> q (snd u a) = q a + 1"
    and "\<And>b r. distinct (map fst (f b r))" and "P fresh" and "\<And>b r u a. u \<in> set (f b r) \<Longrightarrow> P a \<Longrightarrow> P (snd u a)"
    and "\<And>k acc. P acc \<Longrightarrow> 0 \<le> q acc \<Longrightarrow> q acc < 2 ^ 32 \<Longrightarrow> minute_row_ok env schema (g (k, acc))"
  obtains d where "group_rows benv fresh f rows [] = Inr d" and "list_all (minute_row_ok env schema) (map g (sorted_items d))"
proof -
  obtain d where d: "group_rows benv fresh f rows [] = Inr d" "sorted_items d = grouped fresh (row_updates benv f rows)"
    using assms(1) by (rule group_rows_grouped)
  have "minute_row_ok env schema (g (k, acc))" if item: "(k, acc) \<in> set (grouped fresh (row_updates benv f rows))" for k acc
  proof (rule assms(8))
    show "P acc" by (rule grouped_invariant [where P = P, OF item assms(6)]) (rule assms(7))
    have "0 \<le> q acc \<and> q acc \<le> int (length rows)" by (rule grouped_requests [OF item]) (rule assms(3-5) | assumption)+
    with assms(2) show "0 \<le> q acc" "q acc < 2 ^ 32" by simp_all
  qed
  then have "list_all (minute_row_ok env schema) (map g (sorted_items d))" unfolding d(2) by (auto simp: list_all_iff)
  with d(1) show thesis by (rule that)
qed

definition typed_table :: "projection_env \<Rightarrow> (string \<Rightarrow> bool) \<Rightarrow> string \<times> row list \<Rightarrow> bool" where
  "typed_table env uuid b \<longleftrightarrow>
     (\<exists>table columns schema. map_of ORIGIN_COLUMNS (fst b) = Some (table, columns) \<and> map_of SERVING_SCHEMAS table = Some schema
        \<and> map fst schema = [''service_id'', ''bucket_start''] @ columns @ [''batch_id'', ''publication_state'']
        \<and> (\<forall>batch. \<exists>mapped. map_result (projection_values (pe_batch env) columns batch (batch_uuid (pe_batch env) batch)) (snd b) = Inr mapped
             \<and> list_all (typed_row uuid UNBOUNDED_METRICS schema) mapped))"

lemma typed_tableI:
  assumes "list_all (minute_row_ok env (minute_table metrics)) rows" and "map_of ORIGIN_COLUMNS d = Some (table, map fst metrics)"
    and "map_of SERVING_SCHEMAS table = Some (minute_table metrics)"
    and "\<And>t. is_ok (bucket_start_value (pe_batch env) (JStr (pe_isoformat env t)))" and "\<And>ns s. uuid (be_uuid5 (pe_batch env) ns s)"
  shows "typed_table env uuid (d, rows)"
proof -
  have same: "minute_table m = minute_table metrics \<Longrightarrow> m = metrics" for m by (simp add: minute_table_def)
  have "\<exists>vs. projection_values (pe_batch env) (map fst metrics) batch (batch_uuid (pe_batch env) batch) r = Inr vs
      \<and> typed_row uuid UNBOUNDED_METRICS (minute_table metrics) vs" if r: "r \<in> set rows" for r batch
  proof -
    from assms(1) r have "minute_row_ok env (minute_table metrics) r" by (simp add: list_all_iff)
    then obtain t where "list_all (metric_ok r) metrics" "map_of r ''bucket_start'' = Some (JStr (pe_isoformat env t))"
      unfolding minute_row_ok_def by (metis same)
    then show ?thesis by (rule projection_values_typed) (use assms(4,5) in \<open>simp_all add: batch_uuid_def\<close>)
  qed
  then have "\<exists>mapped. map_result (projection_values (pe_batch env) (map fst metrics) batch (batch_uuid (pe_batch env) batch)) rows = Inr mapped
      \<and> list_all (typed_row uuid UNBOUNDED_METRICS (minute_table metrics)) mapped" for batch
    by (rule map_result_total)
  moreover have "map fst (minute_table metrics) = [''service_id'', ''bucket_start''] @ map fst metrics @ [''batch_id'', ''publication_state'']"
    by (simp add: minute_table_def)
  ultimately show ?thesis unfolding typed_table_def using assms(2,3) by auto
qed

lemma origin_groups_ok:
  assumes "only_value_errors benv" and "length rows < 2 ^ 32"
  obtains d1 d2 where "group_rows benv fresh_origin (origin_summary_updates benv) rows [] = Inr d1"
    and "list_all (minute_row_ok env origin_minute_summary_schema) (map (origin_summary_row env) (sorted_items d1))"
    and "group_rows benv fresh_origin (origin_dimension_updates benv) rows [] = Inr d2"
    and "list_all (minute_row_ok env origin_minute_dimensions_schema) (map (origin_dimension_row env) (sorted_items d2))"
proof -
  have zero: "oa_requests fresh_origin = 0" by (simp add: fresh_origin_def)
  obtain d1 where d1: "group_rows benv fresh_origin (origin_summary_updates benv) rows [] = Inr d1"
      "list_all (minute_row_ok env origin_minute_summary_schema) (map (origin_summary_row env) (sorted_items d1))"
    by (rule grouped_rows_ok [where q = oa_requests and P = origin_bounded and f = "origin_summary_updates benv" and fresh = fresh_origin
          and g = "origin_summary_row env" and schema = origin_minute_summary_schema and env = env, OF assms zero])
      (rule summary_update_counts updates_distinct fresh_origin_bounded origin_summary_updates_bounded origin_summary_row_ok | assumption)+
  obtain d2 where d2: "group_rows benv fresh_origin (origin_dimension_updates benv) rows [] = Inr d2"
      "list_all (minute_row_ok env origin_minute_dimensions_schema) (map (origin_dimension_row env) (sorted_items d2))"
  proof (rule grouped_rows_ok [where q = oa_requests and P = origin_bounded and f = "origin_dimension_updates benv" and fresh = fresh_origin
          and g = "origin_dimension_row env" and schema = origin_minute_dimensions_schema and env = env, OF assms zero])
    show "minute_row_ok env origin_minute_dimensions_schema (origin_dimension_row env (k, acc))"
      if "origin_bounded acc" "oa_requests acc < 2 ^ 32" for k acc
      using origin_dimension_row_ok [OF that] by (cases k) simp
  qed (rule origin_update_counts origin_distinct fresh_origin_bounded origin_dimension_updates_bounded | assumption)+
  from d1 d2 show thesis by (rule that)
qed

lemma performance_groups_ok:
  assumes "only_value_errors benv" and "length rows < 2 ^ 32"
  obtains d1 d2 where "group_rows benv fresh_latency (performance_updates benv) rows [] = Inr d1"
    and "list_all (minute_row_ok env performance_minute_dimensions_schema) (map (performance_dimension_row env) (sorted_items d1))"
    and "group_rows benv fresh_waterfall (waterfall_updates benv) rows [] = Inr d2"
    and "list_all (minute_row_ok env performance_minute_summary_schema) (map (performance_summary_row env) (sorted_items d2))"
proof -
  have zero: "la_requests fresh_latency = 0" "ws_count fresh_waterfall = 0" by (simp_all add: fresh_latency_def fresh_waterfall_def)
  obtain d1 where d1: "group_rows benv fresh_latency (performance_updates benv) rows [] = Inr d1"
      "list_all (minute_row_ok env performance_minute_dimensions_schema) (map (performance_dimension_row env) (sorted_items d1))"
  proof (rule grouped_rows_ok [where q = la_requests and P = latency_bounded and f = "performance_updates benv" and fresh = fresh_latency
          and g = "performance_dimension_row env" and schema = performance_minute_dimensions_schema and env = env, OF assms zero(1)])
    show "minute_row_ok env performance_minute_dimensions_schema (performance_dimension_row env (k, acc))"
      if "latency_bounded acc" "la_requests acc < 2 ^ 32" for k acc
      using performance_rows_ok(1) [OF that] by (cases k) simp
    show "latency_bounded fresh_latency" by (simp add: latency_bounded_def fresh_latency_def)
  qed (rule performance_update_counts performance_distinct performance_updates_bounded | assumption)+
  obtain d2 where d2: "group_rows benv fresh_waterfall (waterfall_updates benv) rows [] = Inr d2"
      "list_all (minute_row_ok env performance_minute_summary_schema) (map (performance_summary_row env) (sorted_items d2))"
    by (rule grouped_rows_ok [where q = ws_count and P = "\<lambda>_. True" and f = "waterfall_updates benv" and fresh = fresh_waterfall
          and g = "performance_summary_row env" and schema = performance_minute_summary_schema and env = env, OF assms zero(2)])
      (rule waterfall_update_counts updates_distinct TrueI performance_rows_ok(2) | assumption)+
  from d1 d2 show thesis by (rule that)
qed

lemma other_groups_ok:
  assumes "only_value_errors benv" and "length rows < 2 ^ 32"
  obtains d1 d2 where "group_rows benv fresh_security security_updates rows [] = Inr d1"
    and "list_all (minute_row_ok env security_minute_dimensions_schema) (map (security_dimension_row env) (sorted_items d1))"
    and "group_rows benv fresh_network (network_updates benv) rows [] = Inr d2"
    and "list_all (minute_row_ok env network_minute_dimensions_schema) (map (network_dimension_row env) (sorted_items d2))"
proof -
  have zero: "sa_requests fresh_security = 0" "na_requests fresh_network = 0" by (simp_all add: fresh_security_def fresh_network_def)
  obtain d1 where d1: "group_rows benv fresh_security security_updates rows [] = Inr d1"
      "list_all (minute_row_ok env security_minute_dimensions_schema) (map (security_dimension_row env) (sorted_items d1))"
  proof (rule grouped_rows_ok [where q = sa_requests and P = security_bounded and f = security_updates and fresh = fresh_security
          and g = "security_dimension_row env" and schema = security_minute_dimensions_schema and env = env, OF assms zero(1)])
    show "minute_row_ok env security_minute_dimensions_schema (security_dimension_row env (k, acc))"
      if "security_bounded acc" "sa_requests acc < 2 ^ 32" for k acc
      using security_row_ok [OF that] by (cases k) simp
    show "security_bounded fresh_security" by (simp add: security_bounded_def fresh_security_def)
  qed (rule security_update_counts updates_distinct security_updates_bounded | assumption)+
  obtain d2 where d2: "group_rows benv fresh_network (network_updates benv) rows [] = Inr d2"
      "list_all (minute_row_ok env network_minute_dimensions_schema) (map (network_dimension_row env) (sorted_items d2))"
  proof (rule grouped_rows_ok [where q = na_requests and P = network_bounded and f = "network_updates benv" and fresh = fresh_network
          and g = "network_dimension_row env" and schema = network_minute_dimensions_schema and env = env, OF assms zero(2)])
    show "minute_row_ok env network_minute_dimensions_schema (network_dimension_row env (k, acc))"
      if "network_bounded acc" "na_requests acc < 2 ^ 32" for k acc
      using network_row_ok [OF that] by (cases k) simp
    show "network_bounded fresh_network" by (simp add: network_bounded_def fresh_network_def)
  qed (rule network_update_counts network_distinct network_updates_bounded | assumption)+
  from d1 d2 show thesis by (rule that)
qed

lemmas minute_schemas = origin_minute_summary_schema_def origin_minute_dimensions_schema_def performance_minute_dimensions_schema_def
  performance_minute_summary_schema_def performance_scatter_samples_schema_def security_minute_dimensions_schema_def
  network_minute_dimensions_schema_def


subsection \<open>Instances\<close>

definition example_schema_env :: projection_env where
  "example_schema_env = example_projection_env\<lparr>pe_batch := (pe_batch example_projection_env)
     \<lparr>be_uuid5 := (\<lambda>_ s. CHR ''u'' # s), be_sha256 := (\<lambda>_. ''00ff''), be_float := (\<lambda>_. Some (Finite 5)), be_str := py_str\<rparr>\<rparr>"

definition example_uuid :: "string \<Rightarrow> bool" where
  "example_uuid s \<longleftrightarrow> take 1 s = ''u''"

definition example_minute_event :: row where
  "example_minute_event = [(''timestamp'', JStr ''2025-01-01''), (''url'', JStr ''/a''), (''elapsed'', JStr ''5''), (''ottfb'', JStr ''5''),
     (''ost'', JStr ''5''), (''obytes'', JStr ''5''), (''country'', JStr ''NZ''), (''_ngwaf_bot_name'', JStr ''b'')]"


text \<open>A RUM error whose position needs 33 bits: it maps, and the row is typed but for the position.\<close>

definition example_error_batch :: high_scale_batch where
  "example_error_batch = \<lparr>hb_batch_id = ''b'', hb_service_id = ''svc'', hb_domain = ''rum_errors'', hb_generation = ''0'',
     hb_rows = [example_event ''e1'' 0 @ [(''error_message'', JStr ''boom''), (''error_line'', JStr ''4294967296'')]]\<rparr>"

definition example_error_env :: batch_env where
  "example_error_env = (pe_batch example_schema_env)\<lparr>be_float := (\<lambda>s. if s = ''4294967296'' then Some (Finite 4294967296) else None)\<rparr>"

theorem fact_rows_are_typed_witness:
  "\<exists>mapped. rows_for_domain example_error_env example_error_batch (batch_uuid example_error_env example_error_batch) = Inr mapped
     \<and> length mapped = 1 \<and> list_all (typed_row example_uuid UNBOUNDED_FACT_COLUMNS rum_error_facts_schema) mapped
     \<and> \<not> list_all (typed_row example_uuid [] rum_error_facts_schema) mapped"
proof -
  let ?r = "rows_for_domain example_error_env example_error_batch (batch_uuid example_error_env example_error_batch)"
  have shape: "map_sum (\<lambda>_. ()) (\<lambda>m. (length m, list_all (typed_row example_uuid [] rum_error_facts_schema) m)) ?r = Inr (1, False)" by code_simp
  then obtain mapped where m: "?r = Inr mapped" by (cases ?r) auto
  have table: "map_of DOMAIN_TABLES (hb_domain example_error_batch) = Some ''rum_error_facts''"
    by (simp add: DOMAIN_TABLES_def example_error_batch_def)
  have "example_uuid (be_uuid5 example_error_env ns s)" for ns s
    by (simp add: example_uuid_def example_error_env_def example_schema_env_def)
  from fact_rows_are_typed [where uuid = example_uuid, OF m table this] have "list_all (typed_row example_uuid UNBOUNDED_FACT_COLUMNS rum_error_facts_schema) mapped"
    by (auto simp: SERVING_SCHEMAS_def)
  with m shape show ?thesis by simp
qed

end
