(* ===== verification/Query_Filters.thy ===== *)
theory Query_Filters
  imports Aggregates
begin

text \<open>
  The \<open>WHERE\<close> predicates of the ClickHouse readers: \<open>visible_publication_fence_sql\<close>, \<open>visible_fact_clauses\<close>,
  \<open>request_filter_clauses\<close>, \<open>build_clickhouse_filters\<close>, \<open>build_published_projection_where\<close> and
  \<open>build_published_facts_where\<close> of \<open>_common.py\<close>, with \<open>normalize_filter_key\<close> of \<open>repositories/utils/filters.py\<close> on
  ASCII keys. A filter is its key, its mode and its list of values as they arrive in a request; \<open>str\<close> is a parameter. The
  text of a statement and its parameters are separate, as ClickHouse receives them. Shown: the text depends on the shape of the
  filters only, never on a key or value a client sent, and every placeholder is bound to the value it stands for.
\<close>

subsection \<open>Publication fences\<close>

type_synonym sql_params = "(string \<times> (string + timestamp)) list"

definition is_ident_char :: "char \<Rightarrow> bool" where
  "is_ident_char c \<longleftrightarrow> (let n = of_char c :: nat in 97 \<le> n \<and> n \<le> 122 \<or> 48 \<le> n \<and> n \<le> 57 \<or> n = 95)"

definition domain_ident :: "string \<Rightarrow> bool" where
  "domain_ident d \<longleftrightarrow> d \<noteq> [] \<and> list_all is_ident_char d"

definition VISIBLE_PUBLICATION_FENCE_SQL :: string where
  "VISIBLE_PUBLICATION_FENCE_SQL =
     ''publication_state='' @ [CHR 0x27] @ ''visible'' @ [CHR 0x27] @ '' AND batch_id IN (SELECT batch_id FROM high_scale_batch_publications FINAL ''
     @ ''WHERE service_id={service_id:String} AND publication_state='' @ [CHR 0x27] @ ''visible'' @ [CHR 0x27] @ '')''"

definition visible_publication_fence_sql :: "string option \<Rightarrow> string result" where
  "visible_publication_fence_sql domain =
     (case domain of
        None \<Rightarrow> Inr VISIBLE_PUBLICATION_FENCE_SQL
      | Some d \<Rightarrow>
          if \<not> domain_ident d then Inl (ValueError (''Invalid publication domain identifier: '' @ [CHR 0x27] @ d @ [CHR 0x27]))
          else Inr (''publication_state='' @ [CHR 0x27] @ ''visible'' @ [CHR 0x27]
                 @ '' AND batch_id IN (SELECT batch_id FROM high_scale_batch_publications FINAL WHERE service_id={service_id:String} AND domain=''
                 @ [CHR 0x27] @ d @ [CHR 0x27] @ '' AND publication_state='' @ [CHR 0x27] @ ''visible'' @ [CHR 0x27] @ '')''))"

definition visible_fact_clauses :: "string \<Rightarrow> string list result" where
  "visible_fact_clauses d =
     (if \<not> domain_ident d then Inl (ValueError (''Invalid publication domain identifier: '' @ [CHR 0x27] @ d @ [CHR 0x27]))
      else Inr [''service_id={service_id:String}'', ''publication_state='' @ [CHR 0x27] @ ''visible'' @ [CHR 0x27],
             ''batch_id IN (SELECT batch_id FROM high_scale_batch_publications FINAL WHERE service_id={service_id:String} AND domain=''
             @ [CHR 0x27] @ d @ [CHR 0x27] @ '' AND publication_state='' @ [CHR 0x27] @ ''visible'' @ [CHR 0x27] @ '')''])"

subsection \<open>Filters\<close>

record filter_spec =
  fs_mode :: json
  fs_values :: "json list"

type_synonym filter_items = "(string \<times> filter_spec) list"

definition is_digit_char :: "char \<Rightarrow> bool" where
  "is_digit_char c \<longleftrightarrow> (let n = of_char c :: nat in 48 \<le> n \<and> n \<le> 57)"

definition is_word_char :: "char \<Rightarrow> bool" where
  "is_word_char c \<longleftrightarrow> (let n = of_char c :: nat in 97 \<le> n \<and> n \<le> 122 \<or> 65 \<le> n \<and> n \<le> 90 \<or> 48 \<le> n \<and> n \<le> 57 \<or> n = 95)"

text \<open>\<open>re.sub(r"_\d+$", "", s)\<close>, on the reversed text; \<open>$\<close> also matches before a final newline.\<close>

definition drop_number :: "string \<Rightarrow> string" where
  "drop_number rs =
     (case dropWhile is_digit_char rs of
        c # rest \<Rightarrow> if c = CHR ''_'' \<and> takeWhile is_digit_char rs \<noteq> [] then rest else rs
      | [] \<Rightarrow> rs)"

definition strip_number :: "string \<Rightarrow> string" where
  "strip_number s =
     (case rev s of
        c # rs \<Rightarrow> if c = char_of (10 :: nat) then rev (c # drop_number rs) else rev (drop_number (c # rs))
      | [] \<Rightarrow> [])"

definition normalize_filter_key :: "string \<Rightarrow> string" where
  "normalize_filter_key k =
     (let col = (if startswith k ''xfilter_'' then removeprefix k ''xfilter_''
                 else if startswith k ''filter_'' then removeprefix k ''filter_'' else k)
      in py_lower (filter is_word_char (strip_number col)))"

definition FILTER_COLUMNS :: "(string \<times> string) list" where
  "FILTER_COLUMNS = [(''client_ip'', ''client_ip''), (''ip'', ''client_ip''), (''country'', ''country''), (''url'', ''url'')]"

definition ROUNDED :: "string list" where
  "ROUNDED = [''age'', ''ttl'']"

definition BOOLEAN :: "string list" where
  "BOOLEAN = [''edge'', ''is_ipv6'', ''waf'']"

definition UNSUPPORTED :: "string list" where
  "UNSUPPORTED = [''_bot_name'', ''_ngwaf_bot_name'', ''_tunnel_requests'', ''waf_sig_ind'', ''edge_score_reason_ind'']"

definition placeholder :: "string \<Rightarrow> string" where
  "placeholder name = ''{'' @ name @ '':String}''"

text \<open>The column expression of a key, and the parameter it binds.\<close>

definition filter_column :: "string \<Rightarrow> sql_params \<Rightarrow> string \<Rightarrow> string \<times> sql_params" where
  "filter_column key params param =
     (case map_of FILTER_COLUMNS key of
        Some c \<Rightarrow> (c, params)
      | None \<Rightarrow>
          (let lookup = ''custom_fields['' @ placeholder param @ '']'';
               q = (\<lambda>s. [CHR 0x27] @ s @ [CHR 0x27])
           in (if key \<in> set ROUNDED then ''toString(toInt32(round(toFloat64OrZero('' @ lookup @ ''))))''
               else if key \<in> set BOOLEAN
                 then ''if(lower('' @ lookup @ '') IN ('' @ q ''true'' @ '', '' @ q ''1'' @ ''), '' @ q ''true'' @ '', if(lower('' @ lookup
                      @ '') IN ('' @ q ''false'' @ '', '' @ q ''0'' @ ''), '' @ q ''false'' @ '', '' @ lookup @ ''))''
               else lookup,
               dict_set param (Inl key) params)))"

definition bound_text :: "(json \<Rightarrow> string) \<Rightarrow> string \<Rightarrow> json \<Rightarrow> string" where
  "bound_text str key v =
     (if key \<in> set BOOLEAN
      then let lowered = py_lower (py_strip (str v))
           in if lowered \<in> set [''true'', ''1''] then ''true'' else if lowered \<in> set [''false'', ''0''] then ''false'' else str v
      else str v)"

definition value_name :: "string \<Rightarrow> nat \<Rightarrow> nat \<Rightarrow> string" where
  "value_name prfx i j = prfx @ ''_'' @ show_nat i @ ''_'' @ show_nat j"

definition key_name :: "string \<Rightarrow> nat \<Rightarrow> string" where
  "key_name prfx i = prfx @ ''_k'' @ show_nat i"

fun bind_values :: "(json \<Rightarrow> string) \<Rightarrow> string \<Rightarrow> string \<Rightarrow> nat \<Rightarrow> nat \<Rightarrow> json list \<Rightarrow> sql_params \<Rightarrow> sql_params" where
  "bind_values str key prfx i j [] params = params"
| "bind_values str key prfx i j (v # vs) params =
     bind_values str key prfx i (Suc j) vs (dict_set (value_name prfx i j) (Inl (bound_text str key v)) params)"

definition not_blank :: "json \<Rightarrow> bool" where
  "not_blank v = (case v of JStr s \<Rightarrow> py_strip s \<noteq> [] | _ \<Rightarrow> True)"

definition filter_values :: "filter_spec \<Rightarrow> json list" where
  "filter_values spec = filter not_blank (fs_values spec)"

definition concrete_values :: "filter_spec \<Rightarrow> json list" where
  "concrete_values spec = filter (\<lambda>v. v \<noteq> JNull) (filter_values spec)"

definition includes_values :: "(json \<Rightarrow> string) \<Rightarrow> filter_spec \<Rightarrow> bool" where
  "includes_values str spec \<longleftrightarrow> (if json_truthy (fs_mode spec) then str (fs_mode spec) else ''include'') \<noteq> ''exclude''"

text \<open>The clause of a filter that has values.\<close>

definition clause_text :: "string \<Rightarrow> bool \<Rightarrow> string list \<Rightarrow> bool \<Rightarrow> string" where
  "clause_text column incl names with_null =
     (let parts = (if names = [] then [] else [column @ (if incl then '' IN ('' else '' NOT IN ('') @ join_with '', '' (map placeholder names) @ '')''])
                  @ (if with_null then [column @ (if incl then '' = '' else '' != '') @ [CHR 0x27, CHR 0x27]] else [])
      in ''('' @ join_with (if incl then '' OR '' else '' AND '') parts @ '')'')"

fun filter_clauses_from ::
  "(json \<Rightarrow> string) \<Rightarrow> string \<Rightarrow> nat \<Rightarrow> filter_items \<Rightarrow> sql_params \<Rightarrow> (string list \<times> sql_params) result" where
  "filter_clauses_from str prfx i [] params = Inr ([], params)"
| "filter_clauses_from str prfx i ((raw_key, spec) # items) params =
     (let key = normalize_filter_key raw_key in
      if filter_values spec = [] then filter_clauses_from str prfx (Suc i) items params
      else if key \<in> set UNSUPPORTED \<or> key = []
        then Inl (ValueError (''high-scale request readers do not support filtering on '' @ [CHR 0x27] @ raw_key @ [CHR 0x27]))
      else
        (let (column, params1) = filter_column key params (key_name prfx i);
             concrete = concrete_values spec;
             params2 = bind_values str key prfx i 0 concrete params1;
             names = map (value_name prfx i) [0..<length concrete]
         in ebind (filter_clauses_from str prfx (Suc i) items params2) (\<lambda>(clauses, ps).
            Inr (clause_text column (includes_values str spec) names (length concrete \<noteq> length (filter_values spec)) # clauses, ps))))"

definition request_filter_clauses :: "(json \<Rightarrow> string) \<Rightarrow> filter_items \<Rightarrow> string \<Rightarrow> (string list \<times> sql_params) result" where
  "request_filter_clauses str filters prfx = filter_clauses_from str prfx 0 filters []"

definition build_clickhouse_filters :: "(json \<Rightarrow> string) \<Rightarrow> filter_items \<Rightarrow> string \<Rightarrow> (string \<times> sql_params) result" where
  "build_clickhouse_filters str filters prfx =
     ebind (request_filter_clauses str filters prfx) (\<lambda>(clauses, params).
     Inr (if clauses = [] then ''1=1'' else join_with '' AND '' clauses, params))"

subsection \<open>Predicates of the readers\<close>

definition range_bound :: "batch_env \<Rightarrow> string option \<Rightarrow> timestamp option result" where
  "range_bound env v = (case v of None \<Rightarrow> Inr None | Some s \<Rightarrow> range_value env s)"

definition bound_param :: "string \<Rightarrow> timestamp option \<Rightarrow> sql_params" where
  "bound_param name v = (case v of None \<Rightarrow> [] | Some t \<Rightarrow> [(name, Inr t)])"

definition bound_clause :: "string \<Rightarrow> timestamp option \<Rightarrow> string list" where
  "bound_clause c v = (case v of None \<Rightarrow> [] | Some _ \<Rightarrow> [c])"

definition update_params :: "sql_params \<Rightarrow> sql_params \<Rightarrow> sql_params" where
  "update_params params extra = foldl (\<lambda>ps (k, v). dict_set k v ps) params extra"

definition build_published_projection_where ::
  "batch_env \<Rightarrow> string \<Rightarrow> string \<Rightarrow> string option \<Rightarrow> string option \<Rightarrow> string option \<Rightarrow> (string \<times> sql_params) result" where
  "build_published_projection_where env service_id domain start_time end_time dimension =
     ebind (range_bound env start_time) (\<lambda>start_at.
     ebind (range_bound env end_time) (\<lambda>end_at.
     (let clauses = [''service_id={service_id:String}'', ''publication_state='' @ [CHR 0x27] @ ''visible'' @ [CHR 0x27],
             ''batch_id IN (SELECT batch_id FROM high_scale_batch_publications FINAL ''
             @ ''WHERE service_id={service_id:String} AND domain={publication_domain:String} AND publication_state=''
             @ [CHR 0x27] @ ''visible'' @ [CHR 0x27] @ '')'']
           @ bound_clause ''bucket_start >= {start:DateTime64(3)}'' start_at @ bound_clause ''bucket_start <= {end:DateTime64(3)}'' end_at
           @ (if dimension = None then [] else [''dimension={dimension:String}'']);
          params = update_params [(''service_id'', Inl service_id), (''publication_domain'', Inl domain)]
            (bound_param ''start'' start_at @ bound_param ''end'' end_at
             @ (case dimension of None \<Rightarrow> [] | Some d \<Rightarrow> [(''dimension'', Inl d)]))
      in Inr (join_with '' AND '' clauses, params))))"

definition build_published_facts_where ::
  "(json \<Rightarrow> string) \<Rightarrow> batch_env \<Rightarrow> string \<Rightarrow> string option \<Rightarrow> string option \<Rightarrow> filter_items \<Rightarrow> bool \<Rightarrow> string
     \<Rightarrow> (string \<times> sql_params) result" where
  "build_published_facts_where str env service_id start_time end_time filters end_inclusive domain =
     ebind (build_clickhouse_filters str filters ''filter'') (\<lambda>(filter_sql, filter_params).
     ebind (visible_publication_fence_sql (Some domain)) (\<lambda>fence.
     ebind (range_bound env start_time) (\<lambda>start_at.
     ebind (range_bound env end_time) (\<lambda>end_at.
     (let clauses = [''service_id={service_id:String}'', fence, filter_sql]
           @ bound_clause ''event_timestamp >= {start:DateTime64(3)}'' start_at
           @ bound_clause (''event_timestamp '' @ (if end_inclusive then ''<='' else ''<'') @ '' {end:DateTime64(3)}'') end_at;
          params = update_params (update_params [(''service_id'', Inl service_id)] filter_params)
            (bound_param ''start'' start_at @ bound_param ''end'' end_at)
      in Inr (join_with '' AND '' clauses, params))))))"

subsection \<open>The text depends on the shape only\<close>

datatype column_kind = Fixed string | Rounded | Boolean | Plain

definition column_kind_of :: "string \<Rightarrow> column_kind" where
  "column_kind_of key =
     (case map_of FILTER_COLUMNS key of
        Some c \<Rightarrow> Fixed c
      | None \<Rightarrow> if key \<in> set ROUNDED then Rounded else if key \<in> set BOOLEAN then Boolean else Plain)"

definition filter_shape :: "(json \<Rightarrow> string) \<Rightarrow> string \<times> filter_spec \<Rightarrow> (bool \<times> column_kind \<times> bool \<times> nat \<times> bool) option" where
  "filter_shape str f =
     (let key = normalize_filter_key (fst f); spec = snd f in
      if filter_values spec = [] then None
      else Some (key \<in> set UNSUPPORTED \<or> key = [], column_kind_of key, includes_values str spec, length (concrete_values spec),
                 length (concrete_values spec) \<noteq> length (filter_values spec)))"

lemma filter_column_text:
  "column_kind_of key = column_kind_of key' \<Longrightarrow> fst (filter_column key params p) = fst (filter_column key' params' p)"
  by (auto simp: column_kind_of_def filter_column_def Let_def split: option.splits if_splits)

lemma filter_clauses_text:
  assumes "list_all2 (\<lambda>a b. filter_shape str a = filter_shape str b) items items'"
    and "filter_clauses_from str prfx i items params = Inr (clauses, ps)"
  shows "\<exists>ps'. filter_clauses_from str prfx i items' params' = Inr (clauses, ps')"
  using assms
proof (induction items items' arbitrary: i params params' clauses ps rule: list_all2_induct)
  case (Cons f items f' items')
  obtain k spec k' spec' where f: "f = (k, spec)" "f' = (k', spec')" by (metis prod.collapse)
  let ?n = normalize_filter_key
  show ?case
  proof (cases "filter_values spec = []")
    case True
    with Cons.hyps f have "filter_values spec' = []" by (auto simp: filter_shape_def Let_def split: if_splits)
    with True Cons.prems f Cons.IH show ?thesis by simp
  next
    case False
    with Cons.hyps(1) f have same: "filter_values spec' \<noteq> []" "(?n k \<in> set UNSUPPORTED \<or> ?n k = []) = (?n k' \<in> set UNSUPPORTED \<or> ?n k' = [])"
        "column_kind_of (?n k) = column_kind_of (?n k')" "includes_values str spec = includes_values str spec'"
        "length (concrete_values spec) = length (concrete_values spec')"
        "(length (concrete_values spec) \<noteq> length (filter_values spec)) = (length (concrete_values spec') \<noteq> length (filter_values spec'))"
      by (auto simp: filter_shape_def Let_def split: if_splits)
    from False Cons.prems f have ok: "\<not> (?n k \<in> set UNSUPPORTED \<or> ?n k = [])" by (auto simp: Let_def split: if_splits)
    obtain c p1 where c: "filter_column (?n k) params (key_name prfx i) = (c, p1)" by fastforce
    obtain c' p1' where c': "filter_column (?n k') params' (key_name prfx i) = (c', p1')" by fastforce
    have "c' = c" using filter_column_text [OF same(3), of params "key_name prfx i" params'] c c' by simp
    from False ok c Cons.prems f obtain extra where extra:
        "filter_clauses_from str prfx (Suc i) items (bind_values str (?n k) prfx i 0 (concrete_values spec) p1) = Inr (extra, ps)"
        "clauses = clause_text c (includes_values str spec) (map (value_name prfx i) [0..<length (concrete_values spec)])
          (length (concrete_values spec) \<noteq> length (filter_values spec)) # extra"
      by (auto simp: Let_def ebind_Inr_iff)
    from Cons.IH [OF extra(1)] obtain ps' where
        "filter_clauses_from str prfx (Suc i) items' (bind_values str (?n k') prfx i 0 (concrete_values spec') p1') = Inr (extra, ps')"
      by blast
    then show ?thesis using same ok c' \<open>c' = c\<close> extra(2) f by (simp add: Let_def)
  qed
qed simp

subsection \<open>Every placeholder is bound\<close>

lemma show_nat_no_underscore: "CHR ''_'' \<notin> set (show_nat n)" "CHR ''k'' \<notin> set (show_nat n)"
  using show_nat_digits [of "CHR ''_''" n] show_nat_digits [of "CHR ''k''" n] by auto

lemma split_underscore:
  assumes "a @ CHR ''_'' # b = a' @ CHR ''_'' # b'" and "CHR ''_'' \<notin> set a" and "CHR ''_'' \<notin> set a'"
  shows "a = a' \<and> b = b'"
proof -
  have "takeWhile (\<lambda>c. c \<noteq> CHR ''_'') (x @ CHR ''_'' # y) = x" if "CHR ''_'' \<notin> set x" for x y :: string
    using that by (induction x) auto
  with assms show ?thesis by (metis append_same_eq list.inject same_append_eq)
qed

lemma names_distinct:
  "value_name p i j = value_name p i' j' \<longleftrightarrow> i = i' \<and> j = j'" "key_name p i = key_name p i' \<longleftrightarrow> i = i'"
  "value_name p i j \<noteq> key_name p i'"
proof -
  show "value_name p i j = value_name p i' j' \<longleftrightarrow> i = i' \<and> j = j'"
    using split_underscore [of "show_nat i" "show_nat j" "show_nat i'" "show_nat j'"]
    by (auto simp: value_name_def show_nat_no_underscore show_nat_inj)
  show "key_name p i = key_name p i' \<longleftrightarrow> i = i'" by (simp add: key_name_def show_nat_inj)
  show "value_name p i j \<noteq> key_name p i'"
    using show_nat_no_underscore(2) [of i] show_nat_nonempty [of i]
    by (cases "show_nat i") (auto simp: value_name_def key_name_def)
qed

lemma key_not_value: "key_name p i' \<noteq> value_name p i j"
  using names_distinct(3) by metis


lemma bind_values_other:
  "(\<And>m. j \<le> m \<Longrightarrow> k \<noteq> value_name p i m) \<Longrightarrow> map_of (bind_values str key p i j vs params) k = map_of params k"
  by (induction vs arbitrary: j params) (auto simp: map_of_dict_set)

lemma bind_values_bound:
  "m < length vs \<Longrightarrow> map_of (bind_values str key p i j vs params) (value_name p i (j + m)) = Some (Inl (bound_text str key (vs ! m)))"
proof (induction vs arbitrary: j m params)
  case (Cons v vs)
  show ?case
  proof (cases m)
    case 0
    have "map_of (bind_values str key p i (Suc j) vs (dict_set (value_name p i j) (Inl (bound_text str key v)) params)) (value_name p i j)
        = map_of (dict_set (value_name p i j) (Inl (bound_text str key v)) params) (value_name p i j)"
      by (rule bind_values_other) (simp add: names_distinct)
    with 0 show ?thesis by (simp add: map_of_dict_set)
  next
    case (Suc n)
    with Cons.prems Cons.IH [of n "Suc j"] show ?thesis by simp
  qed
qed simp

definition filter_bound :: "(json \<Rightarrow> string) \<Rightarrow> string \<Rightarrow> sql_params \<Rightarrow> nat \<Rightarrow> string \<times> filter_spec \<Rightarrow> bool" where
  "filter_bound str prfx ps i f \<longleftrightarrow>
     (let key = normalize_filter_key (fst f); concrete = concrete_values (snd f) in
      filter_values (snd f) \<noteq> [] \<longrightarrow>
        (\<forall>j < length concrete. map_of ps (value_name prfx i j) = Some (Inl (bound_text str key (concrete ! j))))
        \<and> (map_of FILTER_COLUMNS key = None \<longrightarrow> map_of ps (key_name prfx i) = Some (Inl key)))"

lemma filter_column_params:
  assumes "filter_column key params p = (c, ps)"
  shows "k \<noteq> p \<Longrightarrow> map_of ps k = map_of params k" and "map_of FILTER_COLUMNS key = None \<Longrightarrow> map_of ps p = Some (Inl key)"
  using assms by (auto simp: filter_column_def Let_def split: option.splits)

lemma filter_clauses_bind:
  assumes "filter_clauses_from str prfx i items params = Inr (clauses, ps)"
  shows "(\<forall>k. (\<forall>n \<ge> i. k \<noteq> key_name prfx n \<and> (\<forall>j. k \<noteq> value_name prfx n j)) \<longrightarrow> map_of ps k = map_of params k)
    \<and> (\<forall>m < length items. filter_bound str prfx ps (i + m) (items ! m))"
  using assms
proof (induction items arbitrary: i params clauses)
  case (Cons f items)
  obtain raw spec where f: "f = (raw, spec)" by fastforce
  let ?key = "normalize_filter_key raw"
  obtain ps1 cs where rest: "filter_clauses_from str prfx (Suc i) items ps1 = Inr (cs, ps)"
      and frame: "\<And>k. k \<noteq> key_name prfx i \<Longrightarrow> (\<And>j. k \<noteq> value_name prfx i j) \<Longrightarrow> map_of ps1 k = map_of params k"
      and bound: "filter_bound str prfx ps1 i f"
  proof (cases "filter_values spec = []")
    case True
    with Cons.prems f show thesis by (intro that [of params clauses]) (simp_all add: filter_bound_def Let_def)
  next
    case False
    obtain c p1 where c: "filter_column ?key params (key_name prfx i) = (c, p1)" by fastforce
    let ?p2 = "bind_values str ?key prfx i 0 (concrete_values spec) p1"
    from False Cons.prems f c obtain cs where "filter_clauses_from str prfx (Suc i) items ?p2 = Inr (cs, ps)"
      by (auto simp: Let_def ebind_Inr_iff split: if_splits)
    moreover have "map_of ?p2 k = map_of params k" if "k \<noteq> key_name prfx i" "\<And>j. k \<noteq> value_name prfx i j" for k
      using bind_values_other [of 0 k prfx i] that filter_column_params(1) [OF c that(1)] by simp
    moreover have "map_of ?p2 (key_name prfx i) = map_of p1 (key_name prfx i)"
      by (rule bind_values_other) (metis names_distinct(3))
    then have "filter_bound str prfx ?p2 i f"
      using bind_values_bound [of _ "concrete_values spec" str ?key prfx i 0 p1] filter_column_params(2) [OF c] f
      by (simp add: filter_bound_def Let_def)
    ultimately show thesis by (rule that)
  qed
  note IH = Cons.IH [OF rest]
  have keep: "map_of ps (value_name prfx i j) = map_of ps1 (value_name prfx i j)" "map_of ps (key_name prfx i) = map_of ps1 (key_name prfx i)" for j
    using IH by (auto simp: names_distinct key_not_value)
  have "filter_bound str prfx ps (i + m) ((f # items) ! m)" if "m < length (f # items)" for m
  proof (cases m)
    case 0
    with bound keep show ?thesis by (simp add: filter_bound_def Let_def)
  next
    case (Suc n)
    with that IH show ?thesis by simp
  qed
  moreover have "map_of ps k = map_of params k" if "\<forall>n \<ge> i. k \<noteq> key_name prfx n \<and> (\<forall>j. k \<noteq> value_name prfx n j)" for k
    using that IH frame [of k] by simp
  ultimately show ?case by blast
qed simp

subsection \<open>The predicates of the readers\<close>

lemma foldl_dict_set: "map_of (foldl (\<lambda>ps (k, v). dict_set k v ps) d kvs) k = (case map_of (rev kvs) k of None \<Rightarrow> map_of d k | Some v \<Rightarrow> Some v)"
  by (induction kvs arbitrary: d) (auto simp: map_add_def split: option.splits)

lemma reserved_names:
  "value_name ''filter'' i j \<notin> set [''service_id'', ''start'', ''end'']" "key_name ''filter'' i \<notin> set [''service_id'', ''start'', ''end'']"
  by (simp_all add: value_name_def key_name_def)

lemma bind_values_distinct: "distinct (map fst params) \<Longrightarrow> distinct (map fst (bind_values str key p i j vs params))"
  by (induction vs arbitrary: j params) (simp_all add: distinct_dict_set)

lemma filter_clauses_distinct:
  "filter_clauses_from str prfx i items params = Inr (clauses, ps) \<Longrightarrow> distinct (map fst params) \<Longrightarrow> distinct (map fst ps)"
proof (induction items arbitrary: i params clauses)
  case (Cons f items)
  obtain raw spec where f: "f = (raw, spec)" by fastforce
  show ?case
  proof (cases "filter_values spec = []")
    case True
    with Cons f show ?thesis by simp
  next
    case False
    obtain c p1 where c: "filter_column (normalize_filter_key raw) params (key_name prfx i) = (c, p1)" by fastforce
    with Cons.prems(2) have "distinct (map fst p1)"
      by (auto simp: filter_column_def Let_def distinct_dict_set split: option.splits)
    with False Cons.prems(1) f c Cons.IH bind_values_distinct show ?thesis
      by (auto simp: Let_def ebind_Inr_iff split: if_splits)
  qed
qed simp

lemma facts_where_cases:
  assumes "build_published_facts_where str env sid st et filters incl d = Inr (sql, ps)"
  obtains clauses fps fence sb eb where "request_filter_clauses str filters ''filter'' = Inr (clauses, fps)"
    and "visible_publication_fence_sql (Some d) = Inr fence" and "range_bound env st = Inr sb" and "range_bound env et = Inr eb"
    and "sql = join_with '' AND '' ([''service_id={service_id:String}'', fence, if clauses = [] then ''1=1'' else join_with '' AND '' clauses]
           @ bound_clause ''event_timestamp >= {start:DateTime64(3)}'' sb
           @ bound_clause (''event_timestamp '' @ (if incl then ''<='' else ''<'') @ '' {end:DateTime64(3)}'') eb)"
    and "ps = update_params (update_params [(''service_id'', Inl sid)] fps) (bound_param ''start'' sb @ bound_param ''end'' eb)"
proof -
  from assms show thesis
    unfolding build_published_facts_where_def build_clickhouse_filters_def Let_def
    by (auto simp: ebind_Inr_iff intro: that)
qed

lemma distinct_map_of_rev: "distinct (map fst xs) \<Longrightarrow> map_of (rev xs) = map_of xs"
  by (subst map_of_inject_set) (simp_all add: rev_map [symmetric])

lemma facts_params_get:
  assumes "distinct (map fst fps)" and "map_of fps ''service_id'' = None"
  shows "map_of (update_params (update_params [(''service_id'', Inl sid)] fps) (bound_param ''start'' sb @ bound_param ''end'' eb)) ''service_id''
      = Some (Inl sid)"
    and "k \<notin> set [''service_id'', ''start'', ''end''] \<Longrightarrow>
      map_of (update_params (update_params [(''service_id'', Inl sid)] fps) (bound_param ''start'' sb @ bound_param ''end'' eb)) k = map_of fps k"
    and "sb = Some t \<Longrightarrow>
      map_of (update_params (update_params [(''service_id'', Inl sid)] fps) (bound_param ''start'' sb @ bound_param ''end'' eb)) ''start'' = Some (Inr t)"
    and "eb = Some t' \<Longrightarrow>
      map_of (update_params (update_params [(''service_id'', Inl sid)] fps) (bound_param ''start'' sb @ bound_param ''end'' eb)) ''end'' = Some (Inr t')"
  using assms distinct_map_of_rev [OF assms(1)]
  by (auto simp: update_params_def foldl_dict_set bound_param_def split: option.splits)

text \<open>
  C36. What a client sends stays out of the statement. Take the predicate of a fact reader. Another request of the same
  shape (the same number of values in filters on columns of the same kind, the same modes and the same bounds present) for any service
  gets the identical text, whatever its keys, values, service and times are; the domain in the text is an identifier. And the
  parameters bind the service, the bounds, and every placeholder of a filter to the key or value it stands for.
\<close>

theorem filters_stay_out_of_the_text:
  assumes "build_published_facts_where str env sid st et filters incl d = Inr (sql, ps)"
    and "list_all2 (\<lambda>a b. filter_shape str a = filter_shape str b) filters filters'"
    and "range_bound env st' = Inr sb'" and "range_bound env et' = Inr eb'"
    and "range_bound env st = Inr sb" and "range_bound env et = Inr eb" and "(sb' = None) = (sb = None)" and "(eb' = None) = (eb = None)"
  shows "(\<exists>ps'. build_published_facts_where str env sid' st' et' filters' incl d = Inr (sql, ps'))
    \<and> domain_ident d \<and> map_of ps ''service_id'' = Some (Inl sid) \<and> (sb = None \<or> map_of ps ''start'' = Some (Inr (the sb)))
    \<and> (eb = None \<or> map_of ps ''end'' = Some (Inr (the eb)))
    \<and> (\<forall>m < length filters. filter_bound str ''filter'' ps m (filters ! m))"
proof -
  from assms(1) obtain clauses fps fence s e where w: "request_filter_clauses str filters ''filter'' = Inr (clauses, fps)"
    "visible_publication_fence_sql (Some d) = Inr fence" "range_bound env st = Inr s" "range_bound env et = Inr e"
    "sql = join_with '' AND '' ([''service_id={service_id:String}'', fence, if clauses = [] then ''1=1'' else join_with '' AND '' clauses]
           @ bound_clause ''event_timestamp >= {start:DateTime64(3)}'' s
           @ bound_clause (''event_timestamp '' @ (if incl then ''<='' else ''<'') @ '' {end:DateTime64(3)}'') e)"
    "ps = update_params (update_params [(''service_id'', Inl sid)] fps) (bound_param ''start'' s @ bound_param ''end'' e)"
    by (rule facts_where_cases)
  have se: "s = sb" "e = eb" using w(3,4) assms(5,6) by simp_all
  from filter_clauses_text [OF assms(2) w(1) [unfolded request_filter_clauses_def]] obtain fps' where
    "request_filter_clauses str filters' ''filter'' = Inr (clauses, fps')" unfolding request_filter_clauses_def by blast
  moreover have "bound_clause c sb' = bound_clause c sb" "bound_clause c eb' = bound_clause c eb" for c
    using assms(7,8) by (auto simp: bound_clause_def split: option.splits)
  ultimately have same_text: "\<exists>ps'. build_published_facts_where str env sid' st' et' filters' incl d = Inr (sql, ps')"
    using w(2,5) assms(3,4) se by (simp add: build_published_facts_where_def build_clickhouse_filters_def)
  note bind = filter_clauses_bind [OF w(1) [unfolded request_filter_clauses_def]]
  have "''service_id'' \<noteq> key_name ''filter'' n \<and> (\<forall>j. ''service_id'' \<noteq> value_name ''filter'' n j)" for n
    using reserved_names by (metis list.set_intros(1))
  with bind have "map_of fps ''service_id'' = map_of ([] :: sql_params) ''service_id''" by blast
  then have fps: "distinct (map fst fps)" "map_of fps ''service_id'' = None"
    using filter_clauses_distinct [OF w(1) [unfolded request_filter_clauses_def]] by simp_all
  note get = facts_params_get [where sid = sid and sb = sb and eb = eb, OF fps, folded w(6) [unfolded se]]
  have "filter_bound str ''filter'' ps m (filters ! m)" if "m < length filters" for m
    using bind that get(2) reserved_names [of m] by (auto simp: filter_bound_def Let_def)
  moreover have "domain_ident d" using w(2) by (auto simp: visible_publication_fence_sql_def split: if_splits)
  ultimately show ?thesis using same_text get(1,3,4) by (cases sb; cases eb) auto
qed

definition example_filters :: "string \<Rightarrow> string \<Rightarrow> filter_items" where
  "example_filters host url =
     [(''filter_host_2'', \<lparr>fs_mode = JNull, fs_values = [JStr host, JNull]\<rparr>), (''url'', \<lparr>fs_mode = JStr ''exclude'', fs_values = [JStr url]\<rparr>)]"

theorem filters_stay_out_of_the_text_witness:
  "\<exists>sql ps ps'. build_published_facts_where py_str example_batch_env ''svc'' (Some ''2025'') None (example_filters ''h'' ''/a'') True ''request'' = Inr (sql, ps)
     \<and> build_published_facts_where py_str example_batch_env ''other'' (Some ''2024'') None (example_filters '') OR 1=1 --'' ''DROP'') True ''request'' = Inr (sql, ps')
     \<and> map_of ps ''filter_0_0'' = Some (Inl ''h'') \<and> map_of ps ''filter_k0'' = Some (Inl ''host'')"
proof -
  let ?f = "example_filters ''h'' ''/a''" and ?g = "example_filters '') OR 1=1 --'' ''DROP''"
  let ?w = "build_published_facts_where py_str example_batch_env ''svc'' (Some ''2025'') None ?f True ''request''"
  have "is_ok ?w" by code_simp
  then obtain sql ps where w: "?w = Inr (sql, ps)" by (auto simp: is_ok_iff)
  have shape: "list_all2 (\<lambda>a b. filter_shape py_str a = filter_shape py_str b) ?f ?g" by code_simp
  have bounds: "range_bound example_batch_env (Some ''2024'') = Inr (Some 4)" "range_bound example_batch_env None = Inr None"
    "range_bound example_batch_env (Some ''2025'') = Inr (Some 4)"
    by code_simp+
  from filters_stay_out_of_the_text [where sid' = "''other''", OF w shape bounds(1,2,3,2)] have
    "\<exists>ps'. build_published_facts_where py_str example_batch_env ''other'' (Some ''2024'') None ?g True ''request'' = Inr (sql, ps')"
    and "\<forall>m < length ?f. filter_bound py_str ''filter'' ps m (?f ! m)" by simp_all
  moreover from this(2) have "filter_bound py_str ''filter'' ps 0 (''filter_host_2'', \<lparr>fs_mode = JNull, fs_values = [JStr ''h'', JNull]\<rparr>)"
    by (auto simp: example_filters_def)
  moreover have "normalize_filter_key ''filter_host_2'' = ''host''" "filter_values \<lparr>fs_mode = JNull, fs_values = [JStr ''h'', JNull]\<rparr> \<noteq> []"
    "concrete_values \<lparr>fs_mode = JNull, fs_values = [JStr ''h'', JNull]\<rparr> = [JStr ''h'']" "bound_text py_str ''host'' (JStr ''h'') = ''h''"
    "value_name ''filter'' 0 0 = ''filter_0_0''" "key_name ''filter'' 0 = ''filter_k0''" "map_of FILTER_COLUMNS ''host'' = None"
    by code_simp+
  ultimately show ?thesis using w by (auto simp: filter_bound_def)
qed

end
