(* ===== verification/Raw_Query.thy ===== *)
theory Raw_Query
  imports Recovery
begin

text \<open>
  The raw archive scan behind historical jobs and exports: \<open>raw_query_producer\<close>, \<open>_sanitize_archive_row\<close> and
  \<open>_row_timestamp\<close> of \<open>_common.py\<close>. The generator is modelled by the rows of a run to its end, or the exception that ends it;
  archived timestamps are text, so the branch for \<open>datetime\<close> values does not occur. Shown: a scan returns the
  events of the window and nothing else, and never hands out what the archive keeps in opaque form.
\<close>

subsection \<open>Rows\<close>

definition OPAQUE_ARCHIVE_KEYS :: "string list" where
  "OPAQUE_ARCHIVE_KEYS = [''raw_json'', ''raw_line_base64'', ''raw_line'', ''_record_kind'', ''raw_payload'']"

definition without_opaque :: "row \<Rightarrow> row" where
  "without_opaque r = filter (\<lambda>(k, _). k \<notin> set OPAQUE_ARCHIVE_KEYS) r"

definition sanitize_archive_row :: "row \<Rightarrow> row" where
  "sanitize_archive_row r =
     (let cleaned = without_opaque r;
          cleaned1 = (if map_of r ''_record_kind'' \<noteq> None \<and> row_get cleaned ''reason'' = JNull
                      then filter (\<lambda>(k, _). k \<noteq> ''reason'') cleaned else cleaned)
      in case row_get cleaned1 ''custom_fields'' of
           JObj f \<Rightarrow> dict_set ''custom_fields'' (JObj (without_opaque f)) cleaned1
         | _ \<Rightarrow> cleaned1)"

definition row_timestamp :: "batch_env \<Rightarrow> row \<Rightarrow> timestamp option result" where
  "row_timestamp env r =
     (case row_get r ''timestamp'' of
        JStr s \<Rightarrow> if py_strip s \<noteq> [] then range_value env s else Inr None
      | _ \<Rightarrow> Inr None)"

definition is_opaque_line :: "row \<Rightarrow> bool" where
  "is_opaque_line r \<longleftrightarrow> row_get r ''raw_line_base64'' \<notin> set [JNull, JStr []] \<or> row_get r ''raw_line'' \<notin> set [JNull, JStr []]"

definition wanted_row :: "batch_env \<Rightarrow> timestamp \<Rightarrow> timestamp \<Rightarrow> row \<Rightarrow> bool result" where
  "wanted_row env start_at end_at r =
     (if row_get r ''_record_kind'' \<notin> set [JNull, JStr ''event''] \<or> is_opaque_line r then Inr False
      else case row_timestamp env r of
             Inl (ValueError _) \<Rightarrow> Inr False
           | Inl (TypeError _) \<Rightarrow> Inr False
           | Inl e \<Rightarrow> Inl e
           | Inr None \<Rightarrow> Inr False
           | Inr (Some t) \<Rightarrow> Inr (start_at \<le> t \<and> t < end_at))"

fun scan_rows :: "batch_env \<Rightarrow> timestamp \<Rightarrow> timestamp \<Rightarrow> row list \<Rightarrow> row list result" where
  "scan_rows env start_at end_at [] = Inr []"
| "scan_rows env start_at end_at (r # rs) =
     ebind (wanted_row env start_at end_at r) (\<lambda>wanted.
     ebind (scan_rows env start_at end_at rs) (\<lambda>found.
     Inr (if wanted then sanitize_archive_row r # found else found)))"

fun scan_manifests ::
  "('a, 'b, 'm, 'c) recovery_plane \<Rightarrow> timestamp \<Rightarrow> timestamp \<Rightarrow> archive_manifest list \<Rightarrow> (('a, 'm, 'c) recovery_world, row list) eff" where
  "scan_manifests rv start_at end_at [] = eff_return []"
| "scan_manifests rv start_at end_at (m # ms) =
     eff_bind (on_left (read_artifact (rv_archive rv) (rv_codec rv) m)) (\<lambda>payload.
     eff_bind (eff_lift (rv_parquet_rows rv payload)) (\<lambda>rows.
     eff_bind (eff_lift (scan_rows (pe_batch (rv_env rv)) start_at end_at rows)) (\<lambda>found.
     eff_bind (scan_manifests rv start_at end_at ms) (\<lambda>others.
     eff_return (found @ others)))))"

definition raw_query_producer ::
  "('a, 'b, 'm, 'c) recovery_plane \<Rightarrow> manifest_catalog \<Rightarrow> string \<Rightarrow> string \<Rightarrow> timestamp \<Rightarrow> timestamp
     \<Rightarrow> (('a, 'm, 'c) recovery_world, row list) eff" where
  "raw_query_producer rv catalog service_id domain start_at end_at =
     eff_bind (eff_lift (catalog service_id domain start_at end_at)) (\<lambda>manifests.
     scan_manifests rv start_at end_at (sorted_manifests manifests))"

subsection \<open>What a row shows\<close>

definition shows_nothing_opaque :: "row \<Rightarrow> bool" where
  "shows_nothing_opaque r \<longleftrightarrow> fst ` set r \<inter> set OPAQUE_ARCHIVE_KEYS = {}
     \<and> (\<forall>f. map_of r ''custom_fields'' = Some (JObj f) \<longrightarrow> fst ` set f \<inter> set OPAQUE_ARCHIVE_KEYS = {})"

lemma without_opaque_keys: "fst ` set (without_opaque r) \<inter> set OPAQUE_ARCHIVE_KEYS = {}"
  by (auto simp: without_opaque_def)

lemma map_of_filter_key: "map_of (filter (\<lambda>(k, _). P k) r) k = (if P k then map_of r k else None)"
  by (induction r) auto

lemma without_opaque_get: "map_of (without_opaque r) k = (if k \<in> set OPAQUE_ARCHIVE_KEYS then None else map_of r k)"
  by (simp add: without_opaque_def map_of_filter_key)

definition dropped_reason :: "row \<Rightarrow> row" where
  "dropped_reason r =
     (if map_of r ''_record_kind'' \<noteq> None \<and> row_get (without_opaque r) ''reason'' = JNull
      then filter (\<lambda>(k, _). k \<noteq> ''reason'') (without_opaque r) else without_opaque r)"

lemma sanitize_eq:
  "sanitize_archive_row r =
     (case row_get (dropped_reason r) ''custom_fields'' of
        JObj f \<Rightarrow> dict_set ''custom_fields'' (JObj (without_opaque f)) (dropped_reason r)
      | _ \<Rightarrow> dropped_reason r)"
  unfolding sanitize_archive_row_def dropped_reason_def Let_def by (rule refl)

lemma dropped_reason_keys: "fst ` set (dropped_reason r) \<inter> set OPAQUE_ARCHIVE_KEYS = {}"
  using without_opaque_keys [of r] by (auto simp: dropped_reason_def)

lemma row_get_obj: "row_get r k = JObj f \<longleftrightarrow> map_of r k = Some (JObj f)"
  by (auto simp: row_get_def split: option.splits)

lemma sanitized_shows_nothing_opaque: "shows_nothing_opaque (sanitize_archive_row r)"
proof (cases "\<exists>f. row_get (dropped_reason r) ''custom_fields'' = JObj f")
  case True
  then obtain f where f: "row_get (dropped_reason r) ''custom_fields'' = JObj f" by blast
  have "''custom_fields'' \<notin> set OPAQUE_ARCHIVE_KEYS" by (simp add: OPAQUE_ARCHIVE_KEYS_def)
  with f dropped_reason_keys [of r] without_opaque_keys [of f] show ?thesis
    by (auto simp: sanitize_eq shows_nothing_opaque_def fst_dict_set)
next
  case False
  then have "sanitize_archive_row r = dropped_reason r" by (auto simp: sanitize_eq split: json.splits)
  with False dropped_reason_keys [of r] show ?thesis by (auto simp: shows_nothing_opaque_def row_get_obj)
qed

text \<open>Sanitizing keeps every other field.\<close>

lemma sanitized_get:
  assumes "k \<notin> set OPAQUE_ARCHIVE_KEYS" and "k \<noteq> ''custom_fields''"
  shows "row_get (sanitize_archive_row r) k = row_get r k"
proof -
  have "row_get (dropped_reason r) k = row_get r k"
    using assms(1) by (auto simp: dropped_reason_def row_get_def map_of_filter_key without_opaque_get split: option.splits)
  with assms(2) show ?thesis by (auto simp: sanitize_eq row_get_def split: json.splits)
qed

lemma sanitized_timestamp: "row_timestamp env (sanitize_archive_row r) = row_timestamp env r"
  by (simp add: row_timestamp_def sanitized_get OPAQUE_ARCHIVE_KEYS_def)

lemma wanted_row_iff:
  "wanted_row env s e r = Inr True \<longleftrightarrow> row_get r ''_record_kind'' \<in> {JNull, JStr ''event''} \<and> \<not> is_opaque_line r
     \<and> (\<exists>t. row_timestamp env r = Inr (Some t) \<and> s \<le> t \<and> t < e)"
  by (auto simp: wanted_row_def split: sum.splits py_error.splits option.splits)

lemma scan_rows_spec:
  "scan_rows env s e rows = Inr found \<Longrightarrow> found = map sanitize_archive_row (filter (\<lambda>r. wanted_row env s e r = Inr True) rows)"
  by (induction rows arbitrary: found) (auto simp: ebind_Inr_iff)

definition table_of :: "('a, 'b, 'm, 'c) recovery_plane \<Rightarrow> archive_manifest \<Rightarrow> row list \<Rightarrow> bool" where
  "table_of rv m rows \<longleftrightarrow>
     (\<exists>a payload a'. read_artifact (rv_archive rv) (rv_codec rv) m a = (Inr payload, a') \<and> rv_parquet_rows rv payload = Inr rows)"

lemma scan_manifests_spec:
  assumes "scan_manifests rv s e ms w = (Inr out, w')"
  shows "\<exists>tables. list_all2 (table_of rv) ms tables
    \<and> out = map sanitize_archive_row (filter (\<lambda>r. wanted_row (pe_batch (rv_env rv)) s e r = Inr True) (concat tables))"
  using assms
proof (induction ms arbitrary: w out)
  case Nil
  then show ?case by (simp add: eff_return_def)
next
  case (Cons m ms)
  from Cons.prems obtain payload a rows found others w2 where
      read: "read_artifact (rv_archive rv) (rv_codec rv) m (fst w) = (Inr payload, a)" "rv_parquet_rows rv payload = Inr rows"
      and found: "scan_rows (pe_batch (rv_env rv)) s e rows = Inr found"
      and rest: "scan_manifests rv s e ms w2 = (Inr others, w')" "out = found @ others"
    by (auto simp: eff_bind_def eff_lift_def on_left_def eff_return_def split: prod.splits sum.splits)
  from Cons.IH [OF rest(1)] obtain tables where "list_all2 (table_of rv) ms tables"
      "others = map sanitize_archive_row (filter (\<lambda>r. wanted_row (pe_batch (rv_env rv)) s e r = Inr True) (concat tables))"
    by blast
  moreover from read have "table_of rv m rows" unfolding table_of_def by blast
  ultimately show ?case
    using rest(2) scan_rows_spec [OF found] by (intro exI [of _ "rows # tables"]) simp
qed


text \<open>For the archive of a decoded batch, the rows scanned are the events of the window in their archived form.\<close>

lemma wanted_archived:
  assumes "x \<in> set evs" and "row_get x ''_record_kind'' = JStr kind" and "row_get x ''raw_line'' = JNull" and "row_get x ''raw_line_base64'' = JNull"
  shows "wanted_row env s e (canonical_event (all_keys evs) x) = (if kind = ''event'' then wanted_row env s e x else Inr False)"
proof -
  have "row_timestamp env (canonical_event (all_keys evs) x) = row_timestamp env x"
    using row_get_canonical_member [OF assms(1), of "''timestamp''"]
    by (cases "row_get x ''timestamp''") (auto simp: row_timestamp_def)
  then show ?thesis
    using assms(2-4) by (simp add: wanted_row_def is_opaque_line_def row_get_canonical_member [OF assms(1)])
qed

definition example_scan where
  "example_scan = raw_query_producer example_recovery (\<lambda>_ _ _ _. Inr [example_archived]) ''svc'' ''request'' 5 20 example_recovery_world"


end
