(* ===== verification/Console_Access.thy ===== *)
theory Console_Access
  imports Aggregates
begin

text \<open>
  Least-privilege console access to ClickHouse: \<open>postgres_control/console_access.py\<close>. An administrator provisions, for each
  service, a masked and a raw identity that can read views of that service only; the application keeps one client per
  identity. The administrator's connection and the clients are parameters. Each statement is a value whose text is given by
  \<open>statement_text\<close>; its text is what reaches the server. Hashing and HMAC are parameters. Shown: a literal in a statement reads back as
  the text it was made from; grants are made only on views that the server has confirmed, after all earlier rights were revoked; the
  client of a key is always one of that key's own identity, checked before use, also when calls race.
\<close>

subsection \<open>Identities and views\<close>

definition FACT_DOMAINS :: "(string \<times> string) list" where
  "FACT_DOMAINS = [(''request_facts'', ''request''), (''rum_vitals_facts'', ''rum_vitals''), (''rum_error_facts'', ''rum_errors'')]"

definition PUBLICATIONS_TABLE :: string where
  "PUBLICATIONS_TABLE = ''high_scale_batch_publications''"

definition PROFILE :: string where
  "PROFILE = ''fla_console_ro''"

definition MIN_SECRET_BYTES :: nat where
  "MIN_SECRET_BYTES = 32"

definition MIN_DISTINCT_SECRET_BYTES :: nat where
  "MIN_DISTINCT_SECRET_BYTES = 8"

definition REDACTED :: string where
  "REDACTED = ''[redacted]''"

definition MASKED_KEYS :: "string list" where
  "MASKED_KEYS = [''cid'', ''client_id'', ''client_ip'', ''cookie_session'', ''fastly-client-ip'', ''ip'', ''ip_address'', ''remote_addr'',
     ''sid'', ''true-client-ip'', ''x-forwarded-for'']"

definition PROFILE_SETTINGS :: string where
  "PROFILE_SETTINGS =
     ''readonly = 1, additional_table_filters CHANGEABLE_IN_READONLY, ''
     @ ''max_result_rows = 10001 MAX 10001 CHANGEABLE_IN_READONLY, result_overflow_mode CHANGEABLE_IN_READONLY, ''
     @ ''max_execution_time = 30 MAX 300 CHANGEABLE_IN_READONLY, ''
     @ ''max_memory_usage = 1073741824 MAX 1073741824 CHANGEABLE_IN_READONLY, ''
     @ ''max_threads = 2 MAX 2 CHANGEABLE_IN_READONLY, ''
     @ ''max_bytes_before_external_group_by = 134217728 MAX 134217728 CHANGEABLE_IN_READONLY, ''
     @ ''max_bytes_before_external_sort = 134217728 MAX 134217728 CHANGEABLE_IN_READONLY, ''
     @ ''timeout_overflow_mode CHANGEABLE_IN_READONLY, timeout_before_checking_execution_speed CHANGEABLE_IN_READONLY, ''
     @ ''output_format_json_quote_64bit_integers CHANGEABLE_IN_READONLY, ''
     @ ''memory_overcommit_ratio_denominator CHANGEABLE_IN_READONLY, ''
     @ ''memory_overcommit_ratio_denominator_for_user CHANGEABLE_IN_READONLY, ''
     @ ''max_memory_usage_for_user = 2147483648 MAX 2147483648, max_result_bytes = 67108864''"

definition quote_char :: char where
  "quote_char = CHR 0x27"

definition backslash :: char where
  "backslash = CHR 0x5C"

text \<open>\<open>value.replace(a, a a)\<close> and then the quotes: every backslash and quote gets a backslash before it.\<close>

definition literal_char :: "char \<Rightarrow> string" where
  "literal_char c = (if c = backslash \<or> c = quote_char then [backslash, c] else [c])"

definition literal :: "string \<Rightarrow> string" where
  "literal s = quote_char # concat (map literal_char s) @ [quote_char]"

record console_env =
  ce_sha256 :: "string \<Rightarrow> string"
  ce_hmac :: "string \<Rightarrow> string \<Rightarrow> string"

definition service_hash :: "console_env \<Rightarrow> string \<Rightarrow> string" where
  "service_hash env service_id = take 16 (ce_sha256 env service_id)"

definition mode_text :: "bool \<Rightarrow> string" where
  "mode_text masked = (if masked then ''m'' else ''r'')"

definition console_user :: "console_env \<Rightarrow> string \<Rightarrow> bool \<Rightarrow> string" where
  "console_user env service_id masked = ''fla_console_'' @ service_hash env service_id @ ''_'' @ mode_text masked"

definition console_identity :: "console_env \<Rightarrow> string \<Rightarrow> string \<Rightarrow> bool \<Rightarrow> (string \<times> string) result" where
  "console_identity env service_id secret masked =
     ebind (ensure (MIN_SECRET_BYTES \<le> length secret)
              (ValueError (''CLICKHOUSE_CONSOLE_SECRET must be at least '' @ show_nat MIN_SECRET_BYTES @ '' bytes''))) (\<lambda>_.
     ebind (ensure (MIN_DISTINCT_SECRET_BYTES \<le> length (remdups secret))
              (ValueError (''CLICKHOUSE_CONSOLE_SECRET needs at least '' @ show_nat MIN_DISTINCT_SECRET_BYTES @ '' distinct bytes''))) (\<lambda>_.
     Inr (console_user env service_id masked, ce_hmac env secret (''console:'' @ service_id @ '':'' @ mode_text masked))))"

definition console_view :: "console_env \<Rightarrow> string \<Rightarrow> bool \<Rightarrow> string \<Rightarrow> string" where
  "console_view env service_id masked table = ''fla_cv_'' @ service_hash env service_id @ ''_'' @ mode_text masked @ ''_'' @ table"

definition console_tables :: "console_env \<Rightarrow> string \<Rightarrow> bool \<Rightarrow> (string \<times> string) list" where
  "console_tables env service_id masked = map (\<lambda>(table, _). (table, console_view env service_id masked table)) FACT_DOMAINS"

fun has_infix :: "string \<Rightarrow> string \<Rightarrow> bool" where
  "has_infix p [] = (p = [])"
| "has_infix p (c # s) = (startswith (c # s) p \<or> has_infix p s)"

text \<open>The key and value types of \<open>Map(key, value)\<close>: the regular expression takes the shortest non-empty key.\<close>

definition map_types :: "string \<Rightarrow> (string \<times> string) option" where
  "map_types ty =
     (let inner = removeprefix ty ''Map('' in
      if inner = [] \<or> last inner \<noteq> CHR '')'' then None
      else case butlast inner of
             [] \<Rightarrow> None
           | c # rest \<Rightarrow> (case dropWhile (\<lambda>x. x \<noteq> CHR '','') rest of
                           [] \<Rightarrow> None
                         | _ # v \<Rightarrow> Some (c # takeWhile (\<lambda>x. x \<noteq> CHR '','') rest, v)))"

definition backquoted :: "string \<Rightarrow> string" where
  "backquoted s = [CHR 0x60] @ s @ [CHR 0x60]"

definition redaction :: "string \<Rightarrow> string \<Rightarrow> string \<Rightarrow> string option result" where
  "redaction name ty keys =
     (let redacted = literal REDACTED; cannot = RuntimeError (''cannot redact column '' @ name @ '' of type '' @ ty); n = backquoted name;
          empty = [quote_char, quote_char] in
      if startswith ty ''Map('' then
        (case map_types ty of
           Some (k, v) \<Rightarrow>
             if has_infix ''String'' k \<and> has_infix ''String'' v
             then Inr (Some (''mapApply((k, v) -> (k, if(lower(k) IN ('' @ keys @ '') AND NOT (isNull(v) OR v = '' @ empty @ ''), ''
                          @ redacted @ '', v)), '' @ n @ '') AS '' @ n))
             else Inl cannot
         | None \<Rightarrow> Inl cannot)
      else if py_lower name \<in> set MASKED_KEYS then
        (if \<not> has_infix ''String'' ty then Inl cannot
         else Inr (Some (''if(isNull('' @ n @ '') OR '' @ n @ '' = '' @ empty @ '', '' @ n @ '', '' @ redacted @ '') AS '' @ n)))
      else Inr None)"

definition view_source :: "string \<Rightarrow> string \<Rightarrow> string \<Rightarrow> string" where
  "view_source database table service_id =
     (let sid = literal service_id in
      ''FROM '' @ backquoted database @ ''.'' @ backquoted table @ '' WHERE service_id = '' @ sid @ '' AND publication_state = '' @ literal ''visible''
      @ '' AND batch_id IN (SELECT batch_id FROM '' @ backquoted database @ ''.'' @ backquoted PUBLICATIONS_TABLE @ '' FINAL WHERE service_id = ''
      @ sid @ '' AND domain = '' @ literal (the_default [] (map_of FACT_DOMAINS table)) @ '' AND publication_state = '' @ literal ''visible'' @ '')'')"

definition view_select :: "string \<Rightarrow> string \<Rightarrow> (string \<times> string) list \<Rightarrow> string \<Rightarrow> bool \<Rightarrow> string result" where
  "view_select database table columns service_id masked =
     (if \<not> masked then Inr (''SELECT * '' @ view_source database table service_id)
      else
        (let keys = join_with '', '' (map literal MASKED_KEYS) in
         ebind (map_result (\<lambda>(name, ty). ebind (redaction name ty keys) (\<lambda>r. Inr (the_default (backquoted name) r))) columns) (\<lambda>projection.
         Inr (''SELECT '' @ join_with '', '' projection @ '' '' @ view_source database table service_id))))"

subsection \<open>Provisioning\<close>

datatype statement =
    DescribeTable string
  | CreateProfile
  | AlterProfile
  | CreateUser string string
  | AlterUser string string
  | DropView string
  | CreateView string string
  | ListViews "string list"
  | RevokeAll string
  | GrantSelect string string

definition statement_text :: "string \<Rightarrow> statement \<Rightarrow> string" where
  "statement_text database st =
     (let db = backquoted database in
      case st of
        DescribeTable table \<Rightarrow> ''DESCRIBE TABLE '' @ db @ ''.'' @ backquoted table
      | CreateProfile \<Rightarrow> ''CREATE SETTINGS PROFILE IF NOT EXISTS '' @ PROFILE @ '' SETTINGS '' @ PROFILE_SETTINGS
      | AlterProfile \<Rightarrow> ''ALTER SETTINGS PROFILE '' @ PROFILE @ '' SETTINGS '' @ PROFILE_SETTINGS
      | CreateUser user password \<Rightarrow> ''CREATE USER IF NOT EXISTS '' @ backquoted user @ '' IDENTIFIED WITH sha256_password BY '' @ literal password
          @ '' DEFAULT DATABASE '' @ db @ '' SETTINGS PROFILE '' @ literal PROFILE
      | AlterUser user password \<Rightarrow> ''ALTER USER '' @ backquoted user @ '' IDENTIFIED WITH sha256_password BY '' @ literal password
          @ '' SETTINGS PROFILE '' @ literal PROFILE
      | DropView view \<Rightarrow> ''DROP VIEW IF EXISTS '' @ db @ ''.'' @ backquoted view
      | CreateView view body \<Rightarrow> ''CREATE VIEW '' @ db @ ''.'' @ backquoted view @ '' DEFINER = CURRENT_USER SQL SECURITY DEFINER AS '' @ body
      | ListViews views \<Rightarrow> ''SELECT name FROM system.tables WHERE database = '' @ literal database @ '' AND engine = '' @ literal ''View''
          @ '' AND name IN ('' @ join_with '', '' (map literal views) @ '')''
      | RevokeAll user \<Rightarrow> ''REVOKE ALL ON *.* FROM '' @ backquoted user
      | GrantSelect view user \<Rightarrow> ''GRANT SELECT ON '' @ db @ ''.'' @ backquoted view @ '' TO '' @ backquoted user)"

text \<open>How a statement is run: \<open>admin.execute\<close> on its text.\<close>

type_synonym 's executor = "statement \<Rightarrow> ('s, row list) eff"

definition text_executor :: "(string \<Rightarrow> ('s, row list) eff) \<Rightarrow> string \<Rightarrow> 's executor" where
  "text_executor admin database st = admin (statement_text database st)"

definition is_alpha_underscore :: "char \<Rightarrow> bool" where
  "is_alpha_underscore c \<longleftrightarrow> (let n = of_char c :: nat in 65 \<le> n \<and> n \<le> 90 \<or> 97 \<le> n \<and> n \<le> 122 \<or> n = 95)"

definition is_database :: "string \<Rightarrow> bool" where
  "is_database s =
     (case s of [] \<Rightarrow> False
      | c # cs \<Rightarrow> is_alpha_underscore c \<and> length cs \<le> 127
          \<and> list_all (\<lambda>x. is_alpha_underscore x \<or> (let n = of_char x :: nat in 48 \<le> n \<and> n \<le> 57)) cs)"

fun for_each :: "('x \<Rightarrow> ('s, unit) eff) \<Rightarrow> 'x list \<Rightarrow> ('s, unit) eff" where
  "for_each f [] = eff_return ()"
| "for_each f (x # xs) = eff_bind (f x) (\<lambda>_. for_each f xs)"

definition then_unit :: "('s, 'a) eff \<Rightarrow> ('s, unit) eff" where
  "then_unit m = eff_bind m (\<lambda>_. eff_return ())"

definition describe_column :: "(json \<Rightarrow> string) \<Rightarrow> row \<Rightarrow> (string \<times> string) result" where
  "describe_column str r =
     ebind (json_item r ''name'') (\<lambda>n. ebind (json_item r ''type'') (\<lambda>t. Inr (str n, str t)))"

fun describe_tables :: "(json \<Rightarrow> string) \<Rightarrow> 's executor \<Rightarrow> string list \<Rightarrow> ('s, (string \<times> (string \<times> string) list) list) eff" where
  "describe_tables str ex [] = eff_return []"
| "describe_tables str ex (t # ts) =
     eff_bind (ex (DescribeTable t)) (\<lambda>rows.
     eff_bind (eff_lift (map_result (describe_column str) rows)) (\<lambda>columns.
     eff_bind (describe_tables str ex ts) (\<lambda>others.
     eff_return ((t, columns) # others))))"

definition create_view ::
  "'s executor \<Rightarrow> string \<Rightarrow> (string \<times> (string \<times> string) list) list \<Rightarrow> string \<Rightarrow> bool \<Rightarrow> string \<times> string \<Rightarrow> ('s, unit) eff" where
  "create_view ex database schemas service_id masked tv =
     eff_bind (ex (DropView (snd tv))) (\<lambda>_.
     eff_bind (eff_lift (view_select database (fst tv) (the_default [] (map_of schemas (fst tv))) service_id masked)) (\<lambda>body.
     then_unit (ex (CreateView (snd tv) body))))"

definition present_names :: "row list \<Rightarrow> json list" where
  "present_names rows = map (\<lambda>r. row_get r ''name'') rows"

text \<open>One identity: the user and its views, the check that the views exist, and the grants.\<close>

definition create_identity ::
  "'s executor \<Rightarrow> string \<Rightarrow> (string \<times> (string \<times> string) list) list \<Rightarrow> string \<Rightarrow> bool \<Rightarrow> string \<Rightarrow> string \<Rightarrow> (string \<times> string) list
     \<Rightarrow> ('s, row list) eff" where
  "create_identity ex database schemas service_id masked user password views =
     eff_bind (ex (CreateUser user password)) (\<lambda>_.
     eff_bind (ex (AlterUser user password)) (\<lambda>_.
     eff_bind (for_each (create_view ex database schemas service_id masked) views) (\<lambda>_.
     ex (ListViews (map snd views)))))"

text \<open>The message of the error leaves out the sorted names of the missing views.\<close>

definition grant_views :: "'s executor \<Rightarrow> string \<Rightarrow> string \<Rightarrow> string list \<Rightarrow> row list \<Rightarrow> ('s, unit) eff" where
  "grant_views ex service_id user views rows =
     (if \<not> list_all (\<lambda>v. JStr v \<in> set (present_names rows)) views
      then eff_raise (RuntimeError (''console views missing for '' @ service_id @ ''; nothing was granted''))
      else eff_bind (ex (RevokeAll user)) (\<lambda>_. for_each (\<lambda>v. then_unit (ex (GrantSelect v user))) views))"

definition provision_mode ::
  "console_env \<Rightarrow> 's executor \<Rightarrow> string \<Rightarrow> (string \<times> (string \<times> string) list) list \<Rightarrow> string \<Rightarrow> string \<Rightarrow> bool \<Rightarrow> ('s, string) eff" where
  "provision_mode env ex database schemas service_id secret masked =
     eff_bind (eff_lift (console_identity env service_id secret masked)) (\<lambda>(user, password).
     (let views = console_tables env service_id masked in
      eff_bind (create_identity ex database schemas service_id masked user password views) (\<lambda>rows.
      eff_bind (grant_views ex service_id user (map snd views) rows) (\<lambda>_.
      eff_return user))))"

fun check_schemas :: "(string \<times> (string \<times> string) list) list \<Rightarrow> unit result" where
  "check_schemas [] = Inr ()"
| "check_schemas ((table, columns) # schemas) =
     (if columns = [] then Inl (RuntimeError (table @ '' has no columns; refusing to provision console access'')) else check_schemas schemas)"

definition provision_console_access ::
  "(json \<Rightarrow> string) \<Rightarrow> console_env \<Rightarrow> 's executor \<Rightarrow> string \<Rightarrow> string \<Rightarrow> string \<Rightarrow> ('s, (string \<times> string) list) eff" where
  "provision_console_access str env ex database service_id secret =
     eff_bind (eff_lift (ensure (is_database database) (ValueError ''ClickHouse database must be a simple identifier''))) (\<lambda>_.
     eff_bind (describe_tables str ex (map fst FACT_DOMAINS)) (\<lambda>schemas.
     eff_bind (eff_lift (check_schemas schemas)) (\<lambda>_.
     eff_bind (ex CreateProfile) (\<lambda>_.
     eff_bind (ex AlterProfile) (\<lambda>_.
     eff_bind (provision_mode env ex database schemas service_id secret True) (\<lambda>masked_user.
     eff_bind (provision_mode env ex database schemas service_id secret False) (\<lambda>raw_user.
     eff_return [(''masked'', masked_user), (''raw'', raw_user)])))))))"

fun provision_services ::
  "(json \<Rightarrow> string) \<Rightarrow> console_env \<Rightarrow> 's executor \<Rightarrow> string \<Rightarrow> string \<Rightarrow> string list \<Rightarrow> 's \<Rightarrow> string list \<times> 's" where
  "provision_services str env ex database secret [] s = ([], s)"
| "provision_services str env ex database secret (service_id # ids) s =
     (case provision_console_access str env ex database service_id secret s of
        (Inr _, s') \<Rightarrow> (case provision_services str env ex database secret ids s' of (done_ids, s'') \<Rightarrow> (service_id # done_ids, s''))
      | (Inl _, s') \<Rightarrow> provision_services str env ex database secret ids s')"

text \<open>\<open>provision_configured_services\<close>: nothing without a secret or a ClickHouse configuration; a failed service is skipped.\<close>

definition provision_configured_services ::
  "(json \<Rightarrow> string) \<Rightarrow> console_env \<Rightarrow> (string \<Rightarrow> ('s, row list) eff) \<Rightarrow> string option \<Rightarrow> string option \<Rightarrow> string list \<Rightarrow> 's \<Rightarrow> string list \<times> 's" where
  "provision_configured_services str env admin secret database ids s =
     (case (secret, database) of
        (Some key, Some db) \<Rightarrow> provision_services str env (text_executor admin db) db key ids s
      | _ \<Rightarrow> ([], s))"

definition env_secret :: "string option \<Rightarrow> string option" where
  "env_secret v = (let s = py_strip (the_default [] v) in if s = [] then None else Some s)"

subsection \<open>Clients\<close>

record 'k console_access =
  ca_client :: 'k
  ca_tables :: "(string \<times> string) list"

record ('w, 'k) client_ops =
  co_factory :: "string \<Rightarrow> string \<Rightarrow> ('w, 'k) eff"
  co_execute :: "'k \<Rightarrow> string \<Rightarrow> ('w, row list) eff"
  co_close :: "'k \<Rightarrow> ('w, unit) eff"

text \<open>\<open>not rows or int(rows[0].get("n", 1)) != 0\<close>\<close>

definition counts_zero :: "row list \<Rightarrow> bool result" where
  "counts_zero rows = (case rows of [] \<Rightarrow> Inr False | r # _ \<Rightarrow> ebind (count_of (get_default r ''n'' (JInt 1))) (\<lambda>n. Inr (n = 0)))"

definition expect_zero :: "('w, 'k) client_ops \<Rightarrow> 'k \<Rightarrow> string \<Rightarrow> string \<Rightarrow> ('w, unit) eff" where
  "expect_zero co client sql message =
     eff_bind (co_execute co client sql) (\<lambda>rows.
     eff_bind (eff_lift (counts_zero rows)) (\<lambda>zero.
     eff_lift (ensure zero (RuntimeError message))))"

definition unmasked_conditions :: "(string \<times> string) list" where
  "unmasked_conditions =
     (let red = literal REDACTED; empty = [quote_char, quote_char];
          client = ''client_id != '' @ empty @ '' AND client_id != '' @ red in
      [(''request_facts'', ''(client_ip != '' @ empty @ '' AND client_ip != '' @ red @ '') OR custom_fields['' @ literal ''cookie_session'' @ ''] NOT IN (''
          @ empty @ '', '' @ red @ '') OR custom_fields['' @ literal ''cid'' @ ''] NOT IN ('' @ empty @ '', '' @ red @ '')''),
       (''rum_vitals_facts'', client), (''rum_error_facts'', client)])"

definition row_probe :: "string \<Rightarrow> string \<Rightarrow> string" where
  "row_probe service_id view = ''SELECT count() AS n FROM '' @ view @ '' WHERE service_id != '' @ literal service_id"

definition mask_probe :: "string \<Rightarrow> string \<Rightarrow> string" where
  "mask_probe condition view = ''SELECT count() AS n FROM '' @ view @ '' WHERE '' @ condition"

definition check_rows :: "('w, 'k) client_ops \<Rightarrow> 'k console_access \<Rightarrow> string \<Rightarrow> string \<Rightarrow> ('w, unit) eff" where
  "check_rows co access service_id view =
     expect_zero co (ca_client access) (row_probe service_id view)
       (''console identity for '' @ service_id @ '' failed the row isolation check on '' @ view)"

definition check_mask :: "('w, 'k) client_ops \<Rightarrow> 'k console_access \<Rightarrow> string \<Rightarrow> string \<times> string \<Rightarrow> ('w, unit) eff" where
  "check_mask co access service_id tc =
     eff_bind (eff_lift (case map_of (ca_tables access) (fst tc) of None \<Rightarrow> Inl (KeyError (fst tc)) | Some v \<Rightarrow> Inr v)) (\<lambda>view.
     expect_zero co (ca_client access) (mask_probe (snd tc) view)
       (''console identity for '' @ service_id @ '' failed the masking check on '' @ view))"

definition assert_isolated :: "('w, 'k) client_ops \<Rightarrow> 'k console_access \<Rightarrow> string \<Rightarrow> bool \<Rightarrow> ('w, unit) eff" where
  "assert_isolated co access service_id masked =
     eff_bind (for_each (check_rows co access service_id) (map snd (ca_tables access))) (\<lambda>_.
     if masked then for_each (check_mask co access service_id) unmasked_conditions else eff_return ())"

type_synonym 'k access_cache = "((string \<times> bool) \<times> 'k console_access) list"

text \<open>
  \<open>client_for\<close>: the cache is looked up under the lock, the client is built and checked outside it, and the cache is set under the
  lock again; \<open>others\<close> is what other threads do to the cache and the server in between.
\<close>

definition vet_access :: "('w, 'k) client_ops \<Rightarrow> 'k console_access \<Rightarrow> string \<Rightarrow> bool \<Rightarrow> ('w, 'k console_access) eff" where
  "vet_access co access service_id masked w =
     (case assert_isolated co access service_id masked w of
        (Inr _, w') \<Rightarrow> (Inr access, w')
      | (Inl e, w') \<Rightarrow> eff_bind (co_close co (ca_client access)) (\<lambda>_. eff_raise e) w')"

definition build_access ::
  "console_env \<Rightarrow> ('w, 'k) client_ops \<Rightarrow> string \<Rightarrow> string \<Rightarrow> bool \<Rightarrow> ('w, 'k console_access) eff" where
  "build_access env co secret service_id masked =
     eff_bind (eff_lift (console_identity env service_id secret masked)) (\<lambda>(user, password).
     eff_bind (co_factory co user password) (\<lambda>client.
     vet_access co \<lparr>ca_client = client, ca_tables = console_tables env service_id masked\<rparr> service_id masked))"

definition client_for ::
  "console_env \<Rightarrow> ('w, 'k) client_ops \<Rightarrow> ('k access_cache \<times> 'w \<Rightarrow> 'k access_cache \<times> 'w) \<Rightarrow> string option \<Rightarrow> bool \<Rightarrow> string \<Rightarrow> bool
     \<Rightarrow> ('k access_cache \<times> 'w, 'k console_access option) eff" where
  "client_for env co others secret configured service_id masked s =
     (case secret of
        None \<Rightarrow> (Inr None, s)
      | Some key_bytes \<Rightarrow>
          if \<not> configured then (Inr None, s)
          else case map_of (fst s) (service_id, masked) of
            Some existing \<Rightarrow> (Inr (Some existing), s)
          | None \<Rightarrow>
              (case build_access env co key_bytes service_id masked (snd s) of
                 (Inl e, w) \<Rightarrow> (Inl e, (fst s, w))
               | (Inr access, w) \<Rightarrow>
                   (case others (fst s, w) of (cache, w') \<Rightarrow>
                      case map_of cache (service_id, masked) of
                        None \<Rightarrow> (Inr (Some access), (cache @ [((service_id, masked), access)], w'))
                      | Some winner \<Rightarrow>
                          (case co_close co (ca_client access) w' of
                             (Inr _, w'') \<Rightarrow> (Inr (Some winner), (cache, w''))
                           | (Inl e, w'') \<Rightarrow> (Inl e, (cache, w''))))))"

definition close_clients :: "('w, 'k) client_ops \<Rightarrow> ('k access_cache \<times> 'w, unit) eff" where
  "close_clients co s = (case for_each (\<lambda>a. co_close co (ca_client a)) (map snd (fst s)) (snd s) of (r, w) \<Rightarrow> (r, ([], w)))"

subsection \<open>Literals\<close>

text \<open>
  Reading a quoted literal as the server does: a backslash takes the next character (through \<open>esc\<close> unless it is a backslash or a
  quote), a doubled quote is a quote, a single one ends the literal. The result is the text and what follows.
\<close>

fun read_body :: "(char \<Rightarrow> string) \<Rightarrow> string \<Rightarrow> (string \<times> string) option" where
  "read_body esc [] = None"
| "read_body esc (c # s) =
     (if c = backslash then
        (case s of [] \<Rightarrow> None
         | d # s' \<Rightarrow> map_option (apfst (append (if d = backslash \<or> d = quote_char then [d] else esc d))) (read_body esc s'))
      else if c = quote_char then
        (case s of
           d # s' \<Rightarrow> if d = quote_char then map_option (apfst (Cons quote_char)) (read_body esc s') else Some ([], s)
         | [] \<Rightarrow> Some ([], []))
      else map_option (apfst (Cons c)) (read_body esc s))"

definition read_literal :: "(char \<Rightarrow> string) \<Rightarrow> string \<Rightarrow> (string \<times> string) option" where
  "read_literal esc s = (case s of c # s' \<Rightarrow> if c = quote_char then read_body esc s' else None | [] \<Rightarrow> None)"

lemma quote_not_backslash: "quote_char \<noteq> backslash"
  by (simp add: quote_char_def backslash_def)

lemma read_body_escaped:
  assumes "rest = [] \<or> hd rest \<noteq> quote_char"
  shows "read_body esc (concat (map literal_char s) @ quote_char # rest) = Some (s, rest)"
proof (induction s)
  case Nil
  with assms show ?case using quote_not_backslash by (cases rest) simp_all
next
  case (Cons c s)
  then show ?case by (simp add: literal_char_def)
qed

lemma literal_reads_back:
  assumes "rest = [] \<or> hd rest \<noteq> quote_char"
  shows "read_literal esc (literal s @ rest) = Some (s, rest)"
  using read_body_escaped [OF assms, of esc s] by (simp add: read_literal_def literal_def)

text \<open>
  A view reads one service. The text of a console view compares the service id, for the facts and for their
  publications, with a literal at a fixed place, and from either place the server reads back exactly the service id and goes on with what
  the program wrote after it: no service id can end its literal early and widen the view.
\<close>

theorem view_reads_one_service:
  "\<exists>before between after. view_source database table service_id = before @ literal service_id @ between @ literal service_id @ after
     \<and> before = ''FROM '' @ backquoted database @ ''.'' @ backquoted table @ '' WHERE service_id = ''
     \<and> read_literal esc (literal service_id @ between @ literal service_id @ after) = Some (service_id, between @ literal service_id @ after)
     \<and> read_literal esc (literal service_id @ after) = Some (service_id, after)"
proof -
  let ?before = "''FROM '' @ backquoted database @ ''.'' @ backquoted table @ '' WHERE service_id = ''"
  let ?between = "'' AND publication_state = '' @ literal ''visible'' @ '' AND batch_id IN (SELECT batch_id FROM '' @ backquoted database @ ''.''
     @ backquoted PUBLICATIONS_TABLE @ '' FINAL WHERE service_id = ''"
  let ?after = "'' AND domain = '' @ literal (the_default [] (map_of FACT_DOMAINS table)) @ '' AND publication_state = '' @ literal ''visible'' @ '')''"
  have "view_source database table service_id = ?before @ literal service_id @ ?between @ literal service_id @ ?after"
    by (simp add: view_source_def Let_def)
  moreover have "read_literal esc (literal service_id @ ?between @ literal service_id @ ?after) = Some (service_id, ?between @ literal service_id @ ?after)"
      "read_literal esc (literal service_id @ ?after) = Some (service_id, ?after)"
    by (rule literal_reads_back; simp add: quote_char_def)+
  ultimately show ?thesis by blast
qed

subsection \<open>Grants\<close>

type_synonym statement_log = "(statement \<times> row list result) list"

definition logging :: "'s executor \<Rightarrow> ('s \<times> statement_log) executor" where
  "logging ex st w = (case ex st (fst w) of (r, s') \<Rightarrow> (r, (s', snd w @ [(st, r)])))"

text \<open>What has to be in the log before a grant on view \<open>v\<close> to \<open>user\<close>.\<close>

definition ready :: "string \<Rightarrow> string \<Rightarrow> statement_log \<Rightarrow> bool" where
  "ready v user lg \<longleftrightarrow>
     (\<exists>a body x b views rows y c. lg = a @ (CreateView v body, Inr x) # b @ (ListViews views, Inr rows) # (RevokeAll user, Inr y) # c
        \<and> v \<in> set views \<and> (\<forall>u \<in> set views. JStr u \<in> set (present_names rows)))"

definition grants_ok :: "statement_log \<Rightarrow> bool" where
  "grants_ok lg \<longleftrightarrow> (\<forall>before v user r after. lg = before @ (GrantSelect v user, r) # after \<longrightarrow> ready v user before)"

lemma ready_append: "ready v user lg \<Longrightarrow> ready v user (lg @ ext)"
  unfolding ready_def by (metis append.assoc append_Cons)

lemma grants_ok_snoc:
  assumes "grants_ok lg" and "\<And>v user. st = GrantSelect v user \<Longrightarrow> ready v user lg"
  shows "grants_ok (lg @ [(st, r)])"
  unfolding grants_ok_def
proof (intro allI impI)
  fix before v user q after assume eq: "lg @ [(st, r)] = before @ (GrantSelect v user, q) # after"
  show "ready v user before"
  proof (cases after rule: rev_cases)
    case Nil
    with eq assms(2) show ?thesis by simp
  next
    case (snoc xs x)
    with eq have "lg = before @ (GrantSelect v user, q) # xs" by (metis append_Cons append_assoc butlast_snoc)
    with assms(1) show ?thesis unfolding grants_ok_def by blast
  qed
qed

definition is_grant :: "statement \<Rightarrow> bool" where
  "is_grant st = (case st of GrantSelect _ _ \<Rightarrow> True | _ \<Rightarrow> False)"

text \<open>Effects that only run statements and keep the log in order.\<close>

definition log_extends :: "('s \<times> statement_log) \<Rightarrow> ('s \<times> statement_log) \<Rightarrow> bool" where
  "log_extends w w' \<longleftrightarrow> (\<exists>ext. snd w' = snd w @ ext) \<and> (grants_ok (snd w) \<longrightarrow> grants_ok (snd w'))"

lemma log_extends_trans: "transp log_extends"
  by (rule transpI) (auto simp: log_extends_def)

lemma log_extends_refl: "log_extends w w"
  by (simp add: log_extends_def)

lemma logging_extends: "\<not> is_grant st \<Longrightarrow> eff_keeps log_extends (logging ex st)"
  by (auto simp: eff_keeps_def log_extends_def logging_def is_grant_def split: prod.splits intro!: grants_ok_snoc)

lemma extends_pure: "eff_keeps log_extends (eff_return a)" "eff_keeps log_extends (eff_raise e)" "eff_keeps log_extends (eff_lift r)"
  by (simp_all add: eff_keeps_def log_extends_refl)

lemma extends_bind: "eff_keeps log_extends m \<Longrightarrow> (\<And>a. eff_keeps log_extends (f a)) \<Longrightarrow> eff_keeps log_extends (eff_bind m f)"
  by (rule eff_keeps_bind [OF log_extends_trans])

lemma extends_for_each: "(\<And>x. eff_keeps log_extends (f x)) \<Longrightarrow> eff_keeps log_extends (for_each f xs)"
  by (induction xs) (simp_all add: extends_pure extends_bind)

lemma extends_create_view: "eff_keeps log_extends (create_view (logging ex) database schemas service_id masked tv)"
  unfolding create_view_def then_unit_def by (intro extends_bind extends_pure logging_extends) (simp_all add: is_grant_def)

lemma extends_describe: "eff_keeps log_extends (describe_tables str (logging ex) ts)"
proof (induction ts)
  case Nil
  then show ?case by (simp only: describe_tables.simps extends_pure)
next
  case (Cons t ts)
  then show ?case
    by (simp only: describe_tables.simps) (intro extends_bind extends_pure logging_extends, simp_all add: is_grant_def)
qed

lemma logging_run:
  assumes "logging ex st w = (r, w')"
  shows "snd w' = snd w @ [(st, r)]"
  using assms by (auto simp: logging_def split: prod.splits)

lemma create_views_run:
  assumes "for_each (create_view (logging ex) database schemas service_id masked) views w = (Inr (), w')"
  shows "\<exists>ext. snd w' = snd w @ ext \<and> (\<forall>v \<in> set (map snd views). \<exists>body x. (CreateView v body, Inr x) \<in> set ext)"
  using assms
proof (induction views arbitrary: w)
  case (Cons tv views)
  then obtain w1 where first: "create_view (logging ex) database schemas service_id masked tv w = (Inr (), w1)"
      and rest: "for_each (create_view (logging ex) database schemas service_id masked) views w1 = (Inr (), w')"
    by (auto simp: eff_bind_Inr_iff)
  from first obtain x y body where "snd w1 = snd w @ [(DropView (snd tv), x), (CreateView (snd tv) body, Inr y)]"
    by (auto simp: create_view_def then_unit_def eff_bind_Inr_iff dest!: logging_run)
  moreover from Cons.IH [OF rest] obtain ext where "snd w' = snd w1 @ ext"
      "\<forall>v \<in> set (map snd views). \<exists>body x. (CreateView v body, Inr x) \<in> set ext" by blast
  ultimately show ?case
    by (intro exI [of _ "[(DropView (snd tv), x), (CreateView (snd tv) body, Inr y)] @ ext"]) fastforce
qed simp

lemma grants_run:
  assumes "\<forall>v \<in> set views. ready v user (snd w)" and "for_each (\<lambda>v. then_unit (logging ex (GrantSelect v user))) views w = (r, w')"
  shows "log_extends w w' \<and> (r = Inr () \<longrightarrow> (\<forall>v \<in> set views. \<exists>y. (GrantSelect v user, Inr y) \<in> set (snd w')))"
  using assms
proof (induction views arbitrary: w)
  case Nil
  then show ?case by (simp add: log_extends_refl)
next
  case (Cons v views)
  obtain q w1 where step: "logging ex (GrantSelect v user) w = (q, w1)" by (cases "logging ex (GrantSelect v user) w")
  note lg = logging_run [OF step]
  have here: "log_extends w w1" using Cons.prems(1) lg by (auto simp: log_extends_def intro: grants_ok_snoc)
  show ?case
  proof (cases q)
    case (Inl e)
    with step Cons.prems(2) have "r = Inl e" "w' = w1" by (auto simp: then_unit_def eff_bind_def)
    with here show ?thesis by simp
  next
    case (Inr y)
    with step have "then_unit (logging ex (GrantSelect v user)) w = (Inr (), w1)" by (simp add: then_unit_def eff_bind_def)
    with Cons.prems(2) have rest: "for_each (\<lambda>v. then_unit (logging ex (GrantSelect v user))) views w1 = (r, w')"
      by (simp add: eff_bind_Inr)
    have "\<forall>v \<in> set views. ready v user (snd w1)" using Cons.prems(1) lg ready_append by simp
    note IH = Cons.IH [OF this rest]
    have "log_extends w w'" using here IH log_extends_trans transpD by metis
    moreover have "(GrantSelect v user, Inr y) \<in> set (snd w')" using IH lg Inr by (auto simp: log_extends_def)
    ultimately show ?thesis using IH by auto
  qed
qed

text \<open>After the views of an identity were created and listed, the log ends in what a grant needs, but for the revocation.\<close>

definition listed_views :: "string list \<Rightarrow> row list \<Rightarrow> statement_log \<Rightarrow> bool" where
  "listed_views views rows lg \<longleftrightarrow>
     (\<forall>v \<in> set views. \<exists>a body x b. lg = a @ (CreateView v body, Inr x) # b @ [(ListViews views, Inr rows)])"

lemma create_identity_run:
  assumes "create_identity (logging ex) database schemas service_id masked user password views w = (r, w')"
  shows "log_extends w w' \<and> (\<forall>rows. r = Inr rows \<longrightarrow> listed_views (map snd views) rows (snd w'))"
proof -
  have "eff_keeps log_extends (create_identity (logging ex) database schemas service_id masked user password views)"
    unfolding create_identity_def
    by (intro extends_bind extends_for_each extends_create_view logging_extends) (simp_all add: is_grant_def)
  then have "log_extends w w'" using assms by (rule eff_keepsD)
  moreover have "listed_views (map snd views) rows (snd w')" if "r = Inr rows" for rows
  proof -
    from that assms obtain c1 c2 where created: "for_each (create_view (logging ex) database schemas service_id masked) views c1 = (Inr (), c2)"
        and listed: "logging ex (ListViews (map snd views)) c2 = (Inr rows, w')"
      by (auto simp: create_identity_def eff_bind_Inr_iff)
    from create_views_run [OF created] obtain ext where ext: "snd c2 = snd c1 @ ext"
      "\<forall>v \<in> set (map snd views). \<exists>body x. (CreateView v body, Inr x) \<in> set ext" by blast
    show ?thesis
      unfolding listed_views_def
    proof
      fix v assume "v \<in> set (map snd views)"
      with ext(2) obtain body x a b where "ext = a @ (CreateView v body, Inr x) # b" by (meson split_list)
      with ext(1) logging_run [OF listed]
      have "snd w' = (snd c1 @ a) @ (CreateView v body, Inr x) # b @ [(ListViews (map snd views), Inr rows)]" by simp
      then show "\<exists>a body x b. snd w' = a @ (CreateView v body, Inr x) # b @ [(ListViews (map snd views), Inr rows)]" by blast
    qed
  qed
  ultimately show ?thesis by blast
qed

lemma grant_views_run:
  assumes "grant_views (logging ex) service_id user views rows w = (r, w')" and "listed_views views rows (snd w)"
  shows "log_extends w w' \<and> (r = Inr () \<longrightarrow> (\<forall>v \<in> set views. \<exists>y. (GrantSelect v user, Inr y) \<in> set (snd w')))"
proof (cases "list_all (\<lambda>v. JStr v \<in> set (present_names rows)) views")
  case False
  with assms(1) show ?thesis by (auto simp: grant_views_def log_extends_refl)
next
  case True
  obtain p w1 where revoke: "logging ex (RevokeAll user) w = (p, w1)" by (cases "logging ex (RevokeAll user) w")
  have first: "log_extends w w1" using eff_keepsD [OF logging_extends revoke] by (simp add: is_grant_def)
  show ?thesis
  proof (cases p)
    case (Inl e)
    with assms(1) True revoke have "r = Inl e" "w' = w1" by (simp_all add: grant_views_def eff_bind_Inl)
    with first show ?thesis by simp
  next
    case (Inr y)
    have "ready v user (snd w1)" if v: "v \<in> set views" for v
    proof -
      from assms(2) v obtain a body x b where "snd w = a @ (CreateView v body, Inr x) # b @ [(ListViews views, Inr rows)]"
        unfolding listed_views_def by blast
      with logging_run [OF revoke] Inr
      have "snd w1 = a @ (CreateView v body, Inr x) # b @ (ListViews views, Inr rows) # (RevokeAll user, Inr y) # []" by simp
      moreover have "\<forall>u \<in> set views. JStr u \<in> set (present_names rows)" using True by (simp add: list_all_iff)
      ultimately show ?thesis using v unfolding ready_def by blast
    qed
    moreover have "for_each (\<lambda>v. then_unit (logging ex (GrantSelect v user))) views w1 = (r, w')"
      using assms(1) True revoke Inr by (simp add: grant_views_def eff_bind_Inr)
    ultimately have "log_extends w1 w' \<and> (r = Inr () \<longrightarrow> (\<forall>v \<in> set views. \<exists>y. (GrantSelect v user, Inr y) \<in> set (snd w')))"
      by (intro grants_run) blast+
    with first log_extends_trans show ?thesis by (meson transpD)
  qed
qed

lemma provision_mode_extends:
  assumes "provision_mode env (logging ex) database schemas service_id secret masked w = (r, w')"
  shows "log_extends w w' \<and> (\<forall>user. r = Inr user \<longrightarrow> user = console_user env service_id masked
    \<and> (\<forall>v \<in> set (map snd (console_tables env service_id masked)). \<exists>y. (GrantSelect v user, Inr y) \<in> set (snd w')))"
proof (cases "console_identity env service_id secret masked")
  case (Inl e)
  with assms show ?thesis by (auto simp: provision_mode_def eff_bind_def log_extends_refl)
next
  case (Inr up)
  then obtain user password where up: "console_identity env service_id secret masked = Inr (user, password)" by (cases up) simp
  then have user: "user = console_user env service_id masked" by (auto simp: console_identity_def ebind_Inr_iff)
  let ?views = "console_tables env service_id masked"
  let ?create = "create_identity (logging ex) database schemas service_id masked user password ?views"
  have run: "eff_bind ?create (\<lambda>rows. eff_bind (grant_views (logging ex) service_id user (map snd ?views) rows) (\<lambda>_. eff_return user)) w = (r, w')"
    using assms up by (simp add: provision_mode_def Let_def eff_bind_Inr [of "eff_lift _"])
  obtain q w1 where create: "?create w = (q, w1)" by (cases "?create w")
  note first = create_identity_run [OF create]
  show ?thesis
  proof (cases q)
    case (Inl e)
    with create run have "r = Inl e" "w' = w1" by (simp_all add: eff_bind_Inl)
    with first show ?thesis by simp
  next
    case (Inr rows)
    obtain g w2 where grant: "grant_views (logging ex) service_id user (map snd ?views) rows w1 = (g, w2)"
      by (cases "grant_views (logging ex) service_id user (map snd ?views) rows w1")
    from grant_views_run [OF grant] first Inr have
      second: "log_extends w1 w2" "g = Inr () \<longrightarrow> (\<forall>v \<in> set (map snd ?views). \<exists>y. (GrantSelect v user, Inr y) \<in> set (snd w2))" by blast+
    have "w' = w2" "\<And>u. r = Inr u \<Longrightarrow> u = user \<and> g = Inr ()"
      using run create Inr grant by (cases g; simp add: eff_bind_Inr eff_bind_Inl)+
    moreover from first second(1) log_extends_trans have "log_extends w w2" by (meson transpD)
    ultimately show ?thesis using second(2) user by blast
  qed
qed

lemma extends_provision_mode: "eff_keeps log_extends (provision_mode env (logging ex) database schemas service_id secret masked)"
  unfolding eff_keeps_def using provision_mode_extends by blast

text \<open>
  C34. Rights are granted last. However provisioning ends, every grant it has made stands in the log after the view it is for was
  created, after the server listed all views of that identity, and after all earlier rights of the user were revoked; and when
  provisioning succeeds, both identities are returned and hold a grant on each of their views.
\<close>

theorem grants_follow_verified_views:
  assumes "provision_console_access str env (logging ex) database service_id secret (s, []) = (r, (s', lg))"
  shows "grants_ok lg
    \<and> (\<forall>users. r = Inr users \<longrightarrow> users = [(''masked'', console_user env service_id True), (''raw'', console_user env service_id False)]
        \<and> (\<forall>masked. \<forall>v \<in> set (map snd (console_tables env service_id masked)). \<exists>y. (GrantSelect v (console_user env service_id masked), Inr y) \<in> set lg))"
proof -
  have "eff_keeps log_extends (provision_console_access str env (logging ex) database service_id secret)"
    unfolding provision_console_access_def
    by (intro extends_bind extends_pure extends_describe extends_provision_mode logging_extends) (simp_all add: is_grant_def)
  from eff_keepsD [OF this assms] have "grants_ok lg" by (simp add: log_extends_def grants_ok_def)
  moreover have "users = [(''masked'', console_user env service_id True), (''raw'', console_user env service_id False)]
      \<and> (\<forall>masked. \<forall>v \<in> set (map snd (console_tables env service_id masked)). \<exists>y. (GrantSelect v (console_user env service_id masked), Inr y) \<in> set lg)"
    if "r = Inr users" for users
  proof -
    from that assms obtain schemas u1 u2 w1 w2 where one: "provision_mode env (logging ex) database schemas service_id secret True w1 = (Inr u1, w2)"
        and two: "provision_mode env (logging ex) database schemas service_id secret False w2 = (Inr u2, (s', lg))"
        and users: "users = [(''masked'', u1), (''raw'', u2)]"
      by (auto simp: provision_console_access_def eff_bind_Inr_iff)
    note m = provision_mode_extends [OF one] and q = provision_mode_extends [OF two]
    from q obtain ext where "lg = snd w2 @ ext" by (auto simp: log_extends_def)
    with m q users show ?thesis by (auto simp: all_bool_eq)
  qed
  ultimately show ?thesis by blast
qed

definition wit_console_env :: console_env where
  "wit_console_env = \<lparr>ce_sha256 = (\<lambda>s. s), ce_hmac = (\<lambda>k m. k @ m)\<rparr>"

definition wit_secret :: string where
  "wit_secret = ''0123456789abcdef0123456789abcdef''"

definition wit_admin :: "unit executor" where
  "wit_admin st s =
     (Inr (case st of
             DescribeTable _ \<Rightarrow> [[(''name'', JStr ''client_ip''), (''type'', JStr ''String'')]]
           | ListViews views \<Rightarrow> map (\<lambda>v. [(''name'', JStr v)]) views
           | _ \<Rightarrow> []), s)"

definition wit_provisioned :: "(string \<times> string) list result \<times> unit \<times> statement_log" where
  "wit_provisioned = provision_console_access (\<lambda>j. case j of JStr s \<Rightarrow> s | _ \<Rightarrow> []) wit_console_env (logging wit_admin) ''fla'' ''svc'' wit_secret ((), [])"

theorem grants_follow_verified_views_witness:
  "grants_ok (snd (snd wit_provisioned))
    \<and> (\<exists>y. (GrantSelect ''fla_cv_svc_m_request_facts'' ''fla_console_svc_m'', Inr y) \<in> set (snd (snd wit_provisioned)))"
proof -
  have "fst wit_provisioned = Inr [(''masked'', ''fla_console_svc_m''), (''raw'', ''fla_console_svc_r'')]" by code_simp
  moreover have "''fla_cv_svc_m_request_facts'' \<in> set (map snd (console_tables wit_console_env ''svc'' True))" by code_simp
  moreover have "console_user wit_console_env ''svc'' True = ''fla_console_svc_m''" by code_simp
  ultimately show ?thesis
    using grants_follow_verified_views [of "\<lambda>j. case j of JStr s \<Rightarrow> s | _ \<Rightarrow> []" wit_console_env wit_admin "''fla''" "''svc''" wit_secret "()"
        "fst wit_provisioned" "fst (snd wit_provisioned)" "snd (snd wit_provisioned)"]
    unfolding wit_provisioned_def prod.collapse by (metis (no_types))
qed

subsection \<open>Cached clients\<close>

lemma for_each_run:
  assumes "for_each f xs w = (Inr (), w')" and "x \<in> set xs"
  shows "\<exists>v v'. f x v = (Inr (), v')"
  using assms by (induction xs arbitrary: w) (auto simp: eff_bind_Inr_iff)

text \<open>A probe of the client that the server has answered with the count zero.\<close>

definition probed_zero :: "('w, 'k) client_ops \<Rightarrow> 'k \<Rightarrow> string \<Rightarrow> bool" where
  "probed_zero co client sql \<longleftrightarrow> (\<exists>w rows w'. co_execute co client sql w = (Inr rows, w') \<and> counts_zero rows = Inr True)"

definition vetted :: "console_env \<Rightarrow> ('w, 'k) client_ops \<Rightarrow> string \<Rightarrow> string \<Rightarrow> bool \<Rightarrow> 'k console_access \<Rightarrow> bool" where
  "vetted env co secret service_id masked access \<longleftrightarrow>
     ca_tables access = console_tables env service_id masked
     \<and> (\<exists>w w'. co_factory co (console_user env service_id masked) (ce_hmac env secret (''console:'' @ service_id @ '':'' @ mode_text masked)) w
            = (Inr (ca_client access), w'))
     \<and> (\<forall>(table, view) \<in> set (console_tables env service_id masked).
          probed_zero co (ca_client access) (row_probe service_id view)
          \<and> (masked \<longrightarrow> (\<exists>condition. map_of unmasked_conditions table = Some condition
                \<and> probed_zero co (ca_client access) (mask_probe condition view))))"

definition cache_vetted :: "console_env \<Rightarrow> ('w, 'k) client_ops \<Rightarrow> string \<Rightarrow> 'k access_cache \<Rightarrow> bool" where
  "cache_vetted env co secret cache \<longleftrightarrow> (\<forall>((service_id, masked), access) \<in> set cache. vetted env co secret service_id masked access)"

lemma expect_zero_run:
  assumes "expect_zero co client sql message w = (Inr (), w')"
  shows "probed_zero co client sql"
  using assms by (auto simp: expect_zero_def probed_zero_def eff_bind_Inr_iff ensure_def split: if_splits)

lemma unmasked_tables:
  assumes "(table, view) \<in> set (console_tables env service_id masked)"
  shows "\<exists>condition. (table, condition) \<in> set unmasked_conditions \<and> map_of unmasked_conditions table = Some condition
    \<and> map_of (console_tables env service_id masked) table = Some view"
  using assms by (auto simp: console_tables_def FACT_DOMAINS_def unmasked_conditions_def Let_def)

lemma vet_access_run:
  assumes "vet_access co access service_id masked w = (Inr a, w')"
  shows "a = access \<and> assert_isolated co access service_id masked w = (Inr (), w')"
  using assms by (auto simp: vet_access_def eff_bind_Inr_iff split: prod.splits sum.splits)

lemma build_access_vetted:
  assumes "build_access env co secret service_id masked w = (Inr access, w')"
  shows "vetted env co secret service_id masked access"
proof -
  from assms obtain client c1 c2 where
      made: "co_factory co (console_user env service_id masked) (ce_hmac env secret (''console:'' @ service_id @ '':'' @ mode_text masked)) c1 = (Inr client, c2)"
      and access: "access = \<lparr>ca_client = client, ca_tables = console_tables env service_id masked\<rparr>"
      and isolated: "assert_isolated co access service_id masked c2 = (Inr (), w')"
    by (auto simp: build_access_def console_identity_def ebind_Inr_iff eff_bind_Inr_iff dest!: vet_access_run)
  from isolated obtain c3 c4 where rows: "for_each (check_rows co access service_id) (map snd (ca_tables access)) c2 = (Inr (), c3)"
      and masks: "masked \<longrightarrow> for_each (check_mask co access service_id) unmasked_conditions c3 = (Inr (), c4)"
    by (auto simp: assert_isolated_def eff_bind_Inr_iff split: if_splits)
  have "probed_zero co (ca_client access) (row_probe service_id view)
      \<and> (masked \<longrightarrow> (\<exists>condition. map_of unmasked_conditions table = Some condition
           \<and> probed_zero co (ca_client access) (mask_probe condition view)))"
    if tv: "(table, view) \<in> set (console_tables env service_id masked)" for table view
  proof -
    from unmasked_tables [OF tv] obtain condition where condition: "(table, condition) \<in> set unmasked_conditions"
      "map_of unmasked_conditions table = Some condition" "map_of (console_tables env service_id masked) table = Some view" by blast
    from tv access have "view \<in> set (map snd (ca_tables access))" by force
    from for_each_run [OF rows this] have "probed_zero co (ca_client access) (row_probe service_id view)"
      by (auto simp: check_rows_def dest: expect_zero_run)
    moreover have "probed_zero co (ca_client access) (mask_probe condition view)" if masked
      using for_each_run [OF masks [rule_format, OF that] condition(1)] condition(3) access
      by (auto simp: check_mask_def eff_bind_Inr_iff dest: expect_zero_run)
    ultimately show ?thesis using condition(2) by blast
  qed
  with made access show ?thesis unfolding vetted_def by (auto split: prod.splits)
qed

lemma cache_vetted_lookup:
  assumes "cache_vetted env co secret cache" and "map_of cache (service_id, masked) = Some access"
  shows "vetted env co secret service_id masked access"
  using assms map_of_SomeD [OF assms(2)] unfolding cache_vetted_def by blast

text \<open>
  C35. A console client is always the caller's own. If every cached client was logged in as the identity of the service and mask mode it is
  cached under, with that identity's views, after the server had counted no foreign row and, if masked, no unredacted identifier in any of
  them, and other threads keep that so, then \<open>client_for\<close> keeps it so however it ends, and the client it returns is one
  vetted in that way for the service and mask mode asked for, and the one the cache holds for later calls.
\<close>

theorem console_clients_isolated:
  assumes "cache_vetted env co secret (fst s)"
    and "\<And>v. cache_vetted env co secret (fst v) \<Longrightarrow> cache_vetted env co secret (fst (others v))"
    and "client_for env co others (Some secret) configured service_id masked s = (r, s')"
  shows "cache_vetted env co secret (fst s')
    \<and> (\<forall>access. r = Inr (Some access) \<longrightarrow> vetted env co secret service_id masked access \<and> map_of (fst s') (service_id, masked) = Some access)"
proof (cases "configured \<and> map_of (fst s) (service_id, masked) = None")
  case False
  with assms show ?thesis
    by (auto simp: client_for_def dest: cache_vetted_lookup split: if_splits)
next
  case True
  obtain q w where build: "build_access env co secret service_id masked (snd s) = (q, w)"
    by (cases "build_access env co secret service_id masked (snd s)")
  obtain cache w1 where raced: "others (fst s, w) = (cache, w1)" by (cases "others (fst s, w)")
  have kept: "cache_vetted env co secret cache" using assms(1) assms(2) [of "(fst s, w)"] raced by simp
  show ?thesis
  proof (cases q)
    case (Inl e)
    with True build assms show ?thesis by (auto simp: client_for_def)
  next
    case (Inr access)
    note vet = build_access_vetted [OF build [unfolded Inr]]
    show ?thesis
    proof (cases "map_of cache (service_id, masked)")
      case None
      with True build Inr raced assms(3) have "r = Inr (Some access)" "fst s' = cache @ [((service_id, masked), access)]"
        by (auto simp: client_for_def)
      with vet kept None show ?thesis by (auto simp: cache_vetted_def map_add_def)
    next
      case (Some winner)
      with True build Inr raced assms(3) have "fst s' = cache" "\<And>a. r = Inr (Some a) \<Longrightarrow> a = winner"
        by (auto simp: client_for_def split: prod.splits sum.splits)
      with kept Some show ?thesis by (auto dest: cache_vetted_lookup)
    qed
  qed
qed

definition wit_ops :: "(nat, string) client_ops" where
  "wit_ops = \<lparr>co_factory = (\<lambda>user password w. (Inr (user @ show_nat w), Suc w)), co_execute = (\<lambda>client sql w. (Inr [[(''n'', JInt 0)]], Suc w)),
     co_close = (\<lambda>client w. (Inr (), Suc w))\<rparr>"

definition wit_client_for :: "(string access_cache \<times> nat \<Rightarrow> string access_cache \<times> nat) \<Rightarrow> (string access_cache \<times> nat, string console_access option) eff" where
  "wit_client_for others s = client_for wit_console_env wit_ops others (Some wit_secret) True ''svc'' True s"

text \<open>Two threads ask for the same client: the second one finds the first one's client cached, closes its own and returns the cached one.\<close>

theorem console_clients_isolated_witness:
  "\<exists>s'. wit_client_for (\<lambda>v. snd (wit_client_for (\<lambda>u. u) v)) ([], 0)
      = (Inr (Some \<lparr>ca_client = ''fla_console_svc_m7'', ca_tables = console_tables wit_console_env ''svc'' True\<rparr>), s')
    \<and> cache_vetted wit_console_env wit_ops wit_secret (fst s')
    \<and> vetted wit_console_env wit_ops wit_secret ''svc'' True \<lparr>ca_client = ''fla_console_svc_m7'', ca_tables = console_tables wit_console_env ''svc'' True\<rparr>"
proof -
  let ?others = "\<lambda>v. snd (wit_client_for (\<lambda>u. u) v)"
  let ?access = "\<lparr>ca_client = ''fla_console_svc_m7'', ca_tables = console_tables wit_console_env ''svc'' True\<rparr>"
  have start: "cache_vetted wit_console_env wit_ops wit_secret (fst ([], 0))" by (simp add: cache_vetted_def)
  have others: "cache_vetted wit_console_env wit_ops wit_secret (fst (?others v))" if "cache_vetted wit_console_env wit_ops wit_secret (fst v)" for v
    using console_clients_isolated [OF that, of "\<lambda>u. u" True "''svc''" True "fst (wit_client_for (\<lambda>u. u) v)" "?others v"]
    by (simp add: wit_client_for_def)
  have run: "wit_client_for ?others ([], 0) = (Inr (Some ?access), ([((''svc'', True), ?access)], 15))" by code_simp
  from console_clients_isolated [OF start others run [unfolded wit_client_for_def [of ?others]]] run show ?thesis by blast
qed

end
