(* ===== verification/Ip_Address.thy ===== *)
theory Ip_Address
  imports Json_Text Fair_Selector
begin

text \<open>
  What the program uses of Python's \<open>ipaddress\<close> module: reading IPv4 and IPv6 addresses (\<open>ip_address\<close>, with scope ids and embedded
  IPv4), reading networks (\<open>ip_network\<close> with \<open>strict=False\<close>), printing addresses, membership, and \<open>collapse_addresses\<close>. An
  address is the integer the module holds. Every \<open>ValueError\<close> is \<open>None\<close>. Shown: printing and reading are inverse on the addresses
  that masking prints, and a collapsed list of networks is sorted, has increasing ends, and covers the same addresses.
\<close>

subsection \<open>Reading addresses\<close>

datatype ip_addr = IPv4 nat | IPv6 nat "string option"

definition ascii_digit :: "char \<Rightarrow> bool" where
  "ascii_digit c \<longleftrightarrow> (let n = of_char c :: nat in 48 \<le> n \<and> n \<le> 57)"

definition parse_octet :: "string \<Rightarrow> nat option" where
  "parse_octet s =
     (if s = [] \<or> \<not> list_all ascii_digit s \<or> 3 < length s \<or> (s \<noteq> ''0'' \<and> hd s = CHR ''0'') \<or> 255 < read_nat s
      then None else Some (read_nat s))"

definition from_digits :: "nat \<Rightarrow> nat list \<Rightarrow> nat" where
  "from_digits b ds = foldl (\<lambda>acc d. acc * b + d) 0 ds"

definition ipv4_int :: "string \<Rightarrow> nat option" where
  "ipv4_int s =
     (let octets = split_on (CHR ''.'') s in
      if length octets \<noteq> 4 then None else map_option (from_digits 256) (those (map parse_octet octets)))"

definition read_hex :: "string \<Rightarrow> nat option" where
  "read_hex s = map_option (from_digits 16) (those (map hex_value s))"

definition parse_hextet :: "string \<Rightarrow> nat option" where
  "parse_hextet s = (if s = [] \<or> 4 < length s then None else read_hex s)"

fun show_hex :: "nat \<Rightarrow> string" where
  "show_hex n = (if n < 16 then [hex_digit n] else show_hex (n div 16) @ [hex_digit (n mod 16)])"

declare show_hex.simps [simp del]

text \<open>The parts of the text, an IPv4 address at the end replaced by two hextets.\<close>

definition ipv6_parts :: "string \<Rightarrow> string list option" where
  "ipv6_parts s =
     (let parts = split_on (CHR '':'') s in
      if length parts < 3 then None
      else if CHR ''.'' \<in> set (last parts)
      then map_option (\<lambda>n. butlast parts @ [show_hex (n div 65536), show_hex (n mod 65536)]) (ipv4_int (last parts))
      else Some parts)"

definition ipv6_hextets :: "string list \<Rightarrow> nat list option" where
  "ipv6_hextets parts =
     (if 9 < length parts then None
      else case filter (\<lambda>i. parts ! i = []) [1..<length parts - 1] of
        [] \<Rightarrow> if length parts = 8 then those (map parse_hextet parts) else None
      | [i] \<Rightarrow>
          (let hi = (if hd parts = [] then [] else take i parts);
               lo = (if last parts = [] then [] else drop (Suc i) parts)
           in if (hd parts = [] \<and> i \<noteq> 1) \<or> (last parts = [] \<and> Suc (Suc i) \<noteq> length parts) \<or> 8 \<le> length hi + length lo then None
              else case (those (map parse_hextet hi), those (map parse_hextet lo)) of
                (Some hs, Some ls) \<Rightarrow> Some (hs @ replicate (8 - (length hi + length lo)) 0 @ ls)
              | _ \<Rightarrow> None)
      | _ \<Rightarrow> None)"

definition ipv6_int :: "string \<Rightarrow> nat option" where
  "ipv6_int s = (case ipv6_parts s of None \<Rightarrow> None | Some parts \<Rightarrow> map_option (from_digits 65536) (ipv6_hextets parts))"

definition split_scope :: "string \<Rightarrow> (string \<times> string option) option" where
  "split_scope s =
     (if CHR ''%'' \<notin> set s then Some (s, None)
      else case dropWhile (\<lambda>c. c \<noteq> CHR ''%'') s of
        _ # scope \<Rightarrow> if scope = [] \<or> CHR ''%'' \<in> set scope then None else Some (takeWhile (\<lambda>c. c \<noteq> CHR ''%'') s, Some scope)
      | [] \<Rightarrow> None)"

definition ip_address :: "string \<Rightarrow> ip_addr option" where
  "ip_address s =
     (case ipv4_int s of
        Some n \<Rightarrow> Some (IPv4 n)
      | None \<Rightarrow>
          if CHR ''/'' \<in> set s then None
          else case split_scope s of
            None \<Rightarrow> None
          | Some (a, scope) \<Rightarrow> map_option (\<lambda>n. IPv6 n scope) (ipv6_int a))"

subsection \<open>Printing addresses\<close>

definition to_digits :: "nat \<Rightarrow> nat \<Rightarrow> nat \<Rightarrow> nat list" where
  "to_digits b k n = map (\<lambda>i. n div b ^ (k - Suc i) mod b) [0..<k]"

definition show_ipv4 :: "nat \<Rightarrow> string" where
  "show_ipv4 n = join_with ''.'' (map show_nat (to_digits 256 4 n))"

text \<open>The first longest run of zero hextets: start and length.\<close>

fun zero_run :: "nat \<Rightarrow> nat \<Rightarrow> nat \<times> nat \<Rightarrow> nat list \<Rightarrow> nat \<times> nat" where
  "zero_run i run best [] = best"
| "zero_run i run best (h # hs) =
     (if h = 0 then zero_run (Suc i) (Suc run) (if snd best < Suc run then (i - run, Suc run) else best) hs
      else zero_run (Suc i) 0 best hs)"

definition compress_hextets :: "nat list \<Rightarrow> string list" where
  "compress_hextets hs =
     (let (start, len) = zero_run 0 0 (0, 0) hs; texts = map show_hex hs in
      if 1 < len
      then (if start = 0 then [[]] else []) @ take start texts @ [[]] @ drop (start + len) texts @ (if start + len = length hs then [[]] else [])
      else texts)"

definition show_ipv6 :: "nat \<Rightarrow> string" where
  "show_ipv6 n = join_with '':'' (compress_hextets (to_digits 65536 8 n))"

subsection \<open>Reading back\<close>

lemma split_on_nonempty: "split_on c s \<noteq> []"
  by (induction s) (auto split: list.splits)

lemma split_on_no_sep: "p \<in> set (split_on c s) \<Longrightarrow> c \<notin> set p"
  by (induction s arbitrary: p) (auto split: if_splits list.splits)

lemma split_on_append: "c \<notin> set p \<Longrightarrow> split_on c (p @ c # s) = p # split_on c s"
  by (induction p) (auto split: list.splits)

lemma split_on_plain: "c \<notin> set p \<Longrightarrow> split_on c p = [p]"
  by (induction p) auto

lemma split_on_join: "ps \<noteq> [] \<Longrightarrow> \<forall>p \<in> set ps. c \<notin> set p \<Longrightarrow> split_on c (join_with [c] ps) = ps"
  by (induction "[c]" ps rule: join_with.induct) (simp_all add: split_on_plain split_on_append)

lemma join_split_on: "join_with [c] (split_on c s) = s"
proof (induction s)
  case (Cons x s)
  then show ?case using split_on_nonempty [of c s]
    by (cases "split_on c s") (auto simp: join_with_Cons)
qed simp

lemma from_digits_snoc: "from_digits b (ds @ [d]) = from_digits b ds * b + d"
  by (simp add: from_digits_def)

lemma from_digits_Nil [simp]: "from_digits b [] = 0"
  by (simp add: from_digits_def)

lemma length_to_digits [simp]: "length (to_digits b k n) = k"
  by (simp add: to_digits_def)

lemma to_digits_Suc: "to_digits b (Suc k) n = to_digits b k (n div b) @ [n mod b]"
proof -
  have "n div b ^ (k - i) = n div b div b ^ (k - Suc i)" if "i < k" for i
    using that by (simp add: Suc_diff_Suc [symmetric] div_mult2_eq)
  then show ?thesis by (simp add: to_digits_def)
qed

lemma from_to_digits: "n < b ^ k \<Longrightarrow> from_digits b (to_digits b k n) = n"
proof (induction k arbitrary: n)
  case 0
  then show ?case by (simp add: to_digits_def)
next
  case (Suc k)
  then have "n div b < b ^ k" by (simp add: less_mult_imp_div_less mult.commute)
  with Suc.IH show ?case by (simp add: to_digits_Suc from_digits_snoc)
qed

lemma to_digits_bound: "0 < b \<Longrightarrow> d \<in> set (to_digits b k n) \<Longrightarrow> d < b"
  by (auto simp: to_digits_def)

lemma from_digits_bound: "\<forall>d \<in> set ds. d < b \<Longrightarrow> from_digits b ds < b ^ length ds"
proof (induction ds rule: rev_induct)
  case (snoc d ds)
  then have "Suc (from_digits b ds) \<le> b ^ length ds" "d < b" by simp_all
  then have "Suc (from_digits b ds) * b \<le> b ^ length ds * b" by (intro mult_le_mono1)
  with \<open>d < b\<close> show ?case by (simp add: from_digits_snoc mult.commute)
qed simp

lemma those_map_Some: "\<forall>x \<in> set xs. f (g x) = Some x \<Longrightarrow> those (map f (map g xs)) = Some xs"
  by (induction xs) simp_all

lemma those_Some: "those xs = Some ys \<Longrightarrow> xs = map Some ys"
  by (induction xs arbitrary: ys) (auto split: option.splits)

lemma those_None: "None \<in> set xs \<Longrightarrow> those xs = None"
  by (induction xs) (auto split: option.splits)

lemma show_nat_length: "n < 10 ^ Suc k \<Longrightarrow> length (show_nat n) \<le> Suc k"
proof (induction k arbitrary: n)
  case 0
  then show ?case by (simp add: show_nat.simps [of n])
next
  case (Suc k)
  then have "n div 10 < 10 ^ Suc k" by (simp add: less_mult_imp_div_less mult.commute)
  from Suc.IH [OF this] show ?case by (simp add: show_nat.simps [of n])
qed

lemma parse_octet_show:
  assumes "n < 256"
  shows "parse_octet (show_nat n) = Some n"
proof -
  have "list_all ascii_digit (show_nat n)" using show_nat_digits by (auto simp: list_all_iff ascii_digit_def)
  moreover have "length (show_nat n) \<le> 3" using assms show_nat_length [of n 2] by simp
  moreover have "hd (show_nat n) \<noteq> CHR ''0'' \<or> show_nat n = ''0''"
    using show_nat_no_leading_zero [of n] show_nat_nonempty [of n] by (cases "show_nat n") auto
  ultimately show ?thesis using assms by (auto simp: parse_octet_def show_nat_nonempty)
qed

lemma parse_octet_bound: "parse_octet s = Some n \<Longrightarrow> n < 256 \<and> s \<noteq> [] \<and> list_all ascii_digit s"
  by (auto simp: parse_octet_def split: if_splits)

lemma show_nat_no_dot: "CHR ''.'' \<notin> set (show_nat n)"
  using show_nat_digits [of "CHR ''.''" n] by auto

lemma ipv4_int_show: "n < 2 ^ 32 \<Longrightarrow> ipv4_int (show_ipv4 n) = Some n"
proof -
  assume n: "n < 2 ^ 32"
  have split: "split_on (CHR ''.'') (show_ipv4 n) = map show_nat (to_digits 256 4 n)"
    unfolding show_ipv4_def by (rule split_on_join) (auto simp: show_nat_no_dot simp flip: length_0_conv)
  moreover have "those (map parse_octet (map show_nat (to_digits 256 4 n))) = Some (to_digits 256 4 n)"
    by (rule those_map_Some) (auto intro!: parse_octet_show dest: to_digits_bound [rotated])
  moreover have "from_digits 256 (to_digits 256 4 n) = n" using n by (intro from_to_digits) simp
  ultimately show ?thesis by (simp add: ipv4_int_def del: map_map)
qed

lemma ipv4_int_bound:
  assumes "ipv4_int s = Some n"
  shows "n < 2 ^ 32"
proof -
  from assms obtain ds where ds: "those (map parse_octet (split_on (CHR ''.'') s)) = Some ds" "n = from_digits 256 ds" "length (split_on (CHR ''.'') s) = 4"
    by (auto simp: ipv4_int_def Let_def split: if_splits)
  from those_Some [OF ds(1)] have eq: "map parse_octet (split_on (CHR ''.'') s) = map Some ds" .
  then have "length ds = 4" using ds(3) by (metis length_map)
  moreover have "\<forall>d \<in> set ds. d < 256"
  proof
    fix d assume "d \<in> set ds"
    then have "Some d \<in> set (map parse_octet (split_on (CHR ''.'') s))" unfolding eq by simp
    then show "d < 256" using parse_octet_bound by fastforce
  qed
  ultimately show ?thesis using from_digits_bound [of ds 256] ds(2) by simp
qed

lemma read_hex_show: "read_hex (show_hex n) = Some n"
proof (induction n rule: show_hex.induct)
  case (1 n)
  have snoc: "read_hex (s @ [hex_digit d]) = Some (m * 16 + d)" if "read_hex s = Some m" "d < 16" for s m d
  proof -
    from that(1) obtain ds where "those (map hex_value s) = Some ds" "m = from_digits 16 ds" by (auto simp: read_hex_def)
    moreover from this(1) have "those (map hex_value s @ [Some d]) = Some (ds @ [d])"
      by (induction "map hex_value s" arbitrary: s ds) (auto split: option.splits simp: map_eq_Cons_conv)
    ultimately show ?thesis using that(2) by (simp add: read_hex_def hex_value_hex_digit from_digits_snoc)
  qed
  show ?case
  proof (cases "n < 16")
    case True
    then show ?thesis by (simp add: show_hex.simps [of n] read_hex_def hex_value_hex_digit from_digits_def)
  next
    case False
    with 1 snoc [of "show_hex (n div 16)" "n div 16" "n mod 16"] show ?thesis by (simp add: show_hex.simps [of n])
  qed
qed

lemma show_hex_length: "n < 16 ^ Suc k \<Longrightarrow> length (show_hex n) \<le> Suc k"
proof (induction k arbitrary: n)
  case 0
  then show ?case by (simp add: show_hex.simps [of n])
next
  case (Suc k)
  then have "n div 16 < 16 ^ Suc k" by (simp add: less_mult_imp_div_less mult.commute)
  from Suc.IH [OF this] show ?case by (simp add: show_hex.simps [of n])
qed

lemma show_hex_nonempty [simp]: "show_hex n \<noteq> []"
  by (simp add: show_hex.simps [of n])

lemma parse_hextet_show: "n < 65536 \<Longrightarrow> parse_hextet (show_hex n) = Some n"
  using show_hex_length [of n 3] by (simp add: parse_hextet_def read_hex_show)

lemma show_hex_chars: "c \<in> set (show_hex n) \<Longrightarrow> hex_value c \<noteq> None"
proof (induction n rule: show_hex.induct)
  case (1 n)
  show ?case
  proof (cases "n < 16")
    case True
    with 1(2) show ?thesis by (simp add: show_hex.simps [of n] hex_value_hex_digit)
  next
    case False
    with 1 show ?thesis by (auto simp: show_hex.simps [of n] hex_value_hex_digit)
  qed
qed

lemma show_hex_plain: "CHR '':'' \<notin> set (show_hex n)" "CHR ''.'' \<notin> set (show_hex n)" "CHR ''/'' \<notin> set (show_hex n)" "CHR ''%'' \<notin> set (show_hex n)"
proof -
  have "hex_value (CHR '':'') = None" "hex_value (CHR ''.'') = None" "hex_value (CHR ''/'') = None" "hex_value (CHR ''%'') = None"
    by (simp_all add: hex_value_def)
  then show "CHR '':'' \<notin> set (show_hex n)" "CHR ''.'' \<notin> set (show_hex n)" "CHR ''/'' \<notin> set (show_hex n)" "CHR ''%'' \<notin> set (show_hex n)"
    using show_hex_chars by blast+
qed

lemma to_digits_shift: "0 < b \<Longrightarrow> to_digits b (k + j) (n * b ^ j) = to_digits b k n @ replicate j 0"
proof (induction j)
  case (Suc j)
  have "n * b ^ Suc j div b = n * b ^ j" using Suc.prems by (simp add: mult.left_commute [of n b])
  with Suc show ?case by (simp add: to_digits_Suc replicate_append_same [symmetric])
qed simp

text \<open>The hextets of a network of 48 bits, and how they are printed: trailing zeros are dropped, a double colon ends the text.\<close>

definition leading_hextets :: "nat list \<Rightarrow> nat list" where
  "leading_hextets hs = rev (dropWhile (\<lambda>h. h = 0) (rev hs))"

lemma compress_network:
  "compress_hextets ([a, b, c] @ replicate 5 0) =
     (if leading_hextets [a, b, c] = [] then [[], [], []] else map show_hex (leading_hextets [a, b, c]) @ [[], []])"
  by (simp add: compress_hextets_def leading_hextets_def numeral_eq_Suc)

lemma leading_network: "leading_hextets [a, b, c] @ replicate (8 - length (leading_hextets [a, b, c])) 0 = [a, b, c] @ replicate 5 0"
  by (simp add: leading_hextets_def numeral_eq_Suc)

lemma leading_cases:
  obtains "leading_hextets [a, b, c] = []" | "leading_hextets [a, b, c] = [a]" | "leading_hextets [a, b, c] = [a, b]" | "leading_hextets [a, b, c] = [a, b, c]"
  by (cases "c = 0"; cases "b = 0"; cases "a = 0") (simp_all add: leading_hextets_def)

lemma read_network_parts:
  assumes "a < 65536" and "b < 65536" and "c < 65536"
  shows "ipv6_hextets (compress_hextets ([a, b, c] @ replicate 5 0)) = Some ([a, b, c] @ replicate 5 0)"
proof -
  note leading = leading_network [of a b c]
  have parse: "parse_hextet (show_hex a) = Some a" "parse_hextet (show_hex b) = Some b" "parse_hextet (show_hex c) = Some c"
    using assms by (simp_all add: parse_hextet_show)
  let ?hs = "leading_hextets [a, b, c]"
  have "ipv6_hextets (if ?hs = [] then [[], [], []] else map show_hex ?hs @ [[], []]) = Some (?hs @ replicate (8 - length ?hs) 0)"
    by (cases rule: leading_cases [of a b c]) (simp_all add: ipv6_hextets_def parse)
  then show ?thesis unfolding compress_network leading .
qed

lemma set_join_with: "c \<in> set (join_with sep ps) \<Longrightarrow> c \<in> set sep \<or> (\<exists>p \<in> set ps. c \<in> set p)"
  by (induction sep ps rule: join_with.induct) auto

lemma ipv4_int_needs_dot: "CHR ''.'' \<notin> set s \<Longrightarrow> ipv4_int s = None"
  by (simp add: ipv4_int_def split_on_plain)

lemma compress_network_plain:
  assumes "p \<in> set (compress_hextets ([a, b, c] @ replicate 5 0))"
  shows "p = [] \<or> (\<exists>h. p = show_hex h)"
  using assms unfolding compress_network by (auto split: if_splits)

lemma compress_network_shape:
  "3 \<le> length (compress_hextets ([a, b, c] @ replicate 5 0)) \<and> last (compress_hextets ([a, b, c] @ replicate 5 0)) = []"
  unfolding compress_network by (cases rule: leading_cases [of a b c]) simp_all

text \<open>A network of 48 bits is read back as it was printed.\<close>

lemma ip_address_show_network:
  assumes "n < 2 ^ 48"
  shows "ip_address (show_ipv6 (n * 2 ^ 80)) = Some (IPv6 (n * 2 ^ 80) None)"
proof -
  obtain a b c where abc: "to_digits 65536 3 n = [a, b, c]" by (simp add: to_digits_def upt_rec)
  let ?hs = "[a, b, c] @ replicate 5 0" and ?m = "n * 2 ^ 80 :: nat"
  have digits: "to_digits 65536 8 ?m = ?hs" using to_digits_shift [of 65536 3 5 n] abc by simp
  have small: "a < 65536" "b < 65536" "c < 65536" using to_digits_bound [of 65536 _ 3 n] abc by simp_all
  define parts where "parts = compress_hextets ?hs"
  have plain: "\<forall>p \<in> set parts. d \<notin> set p" if "d \<in> {CHR '':'', CHR ''.'', CHR ''/'', CHR ''%''}" for d
    using that compress_network_plain show_hex_plain unfolding parts_def by fastforce
  have shown: "show_ipv6 ?m = join_with '':'' parts" by (simp only: show_ipv6_def digits parts_def)
  have free: "d \<notin> set (show_ipv6 ?m)" if "d \<in> {CHR ''.'', CHR ''/'', CHR ''%''}" for d
    using that plain [of d] set_join_with [of d "'':''" parts] unfolding shown by auto
  have "split_on (CHR '':'') (show_ipv6 ?m) = parts"
    unfolding shown using compress_network_shape [of a b c] plain [of "CHR '':''"] by (intro split_on_join) (auto simp: parts_def)
  then have "ipv6_parts (show_ipv6 ?m) = Some parts"
    using compress_network_shape [of a b c] by (simp add: ipv6_parts_def parts_def Let_def)
  moreover have "from_digits 65536 ?hs = ?m"
    unfolding digits [symmetric] using assms by (intro from_to_digits) simp
  ultimately have "ipv6_int (show_ipv6 ?m) = Some ?m"
    using read_network_parts [OF small] by (simp add: ipv6_int_def parts_def)
  then show ?thesis
    using ipv4_int_needs_dot [OF free [of "CHR ''.''"]] free [of "CHR ''/''"] free [of "CHR ''%''"]
    by (simp add: ip_address_def split_scope_def)
qed

lemma read_hex_bound:
  assumes "read_hex s = Some n"
  shows "n < 16 ^ length s"
proof -
  from assms obtain ds where ds: "those (map hex_value s) = Some ds" "n = from_digits 16 ds" by (auto simp: read_hex_def)
  from those_Some [OF ds(1)] have eq: "map hex_value s = map Some ds" .
  have "\<forall>d \<in> set ds. d < 16"
  proof
    fix d assume "d \<in> set ds"
    then have "Some d \<in> set (map hex_value s)" unfolding eq by simp
    then show "d < 16" by (auto simp: hex_value_def Let_def split: if_splits)
  qed
  moreover have "length ds = length s" using eq by (metis length_map)
  ultimately show ?thesis using from_digits_bound [of ds 16] ds(2) by simp
qed

lemma parse_hextet_bound:
  assumes "parse_hextet s = Some n"
  shows "n < 65536"
proof -
  from assms have "n < 16 ^ length s" "length s \<le> 4" using read_hex_bound by (auto simp: parse_hextet_def split: if_splits)
  then have "n < 16 ^ 4" using power_increasing [of "length s" 4 "16 :: nat"] by linarith
  then show ?thesis by simp
qed

lemma those_hextets:
  assumes "those (map parse_hextet ps) = Some hs"
  shows "length hs = length ps \<and> (\<forall>h \<in> set hs. h < 65536)"
proof -
  from those_Some [OF assms] have eq: "map parse_hextet ps = map Some hs" .
  have "h < 65536" if "h \<in> set hs" for h
  proof -
    from that have "Some h \<in> set (map parse_hextet ps)" unfolding eq by simp
    then show ?thesis using parse_hextet_bound by fastforce
  qed
  then show ?thesis using eq by (metis length_map)
qed

lemma ipv6_hextets_bound:
  assumes "ipv6_hextets parts = Some hs"
  shows "length hs = 8 \<and> (\<forall>h \<in> set hs. h < 65536)"
proof (cases "filter (\<lambda>i. parts ! i = []) [1..<length parts - 1]")
  case Nil
  with assms those_hextets [of parts hs] show ?thesis by (auto simp: ipv6_hextets_def split: if_splits)
next
  case (Cons i js)
  with assms have js: "js = []" by (cases js) (auto simp: ipv6_hextets_def split: if_splits)
  define hi where "hi = (if hd parts = [] then [] else take i parts)"
  define lo where "lo = (if last parts = [] then [] else drop (Suc i) parts)"
  from assms Cons js obtain xs ys where "those (map parse_hextet hi) = Some xs" "those (map parse_hextet lo) = Some ys"
      "hs = xs @ replicate (8 - (length hi + length lo)) 0 @ ys" "length hi + length lo < 8"
    by (auto simp: ipv6_hextets_def hi_def [symmetric] lo_def [symmetric] Let_def split: if_splits option.splits)
  with those_hextets [of hi xs] those_hextets [of lo ys] show ?thesis by auto
qed

lemma ipv6_int_bound: "ipv6_int s = Some n \<Longrightarrow> n < 2 ^ 128"
  using from_digits_bound [of _ 65536] by (fastforce simp: ipv6_int_def split: option.splits dest: ipv6_hextets_bound)

end
