(* ===== verification/Pii_Masking.thy ===== *)
theory Pii_Masking
  imports Ip_Address Query_Filters
begin

text \<open>
  Masking of personal data in responses to shared sessions: the masking part of \<open>core/share_db/__init__.py\<close>. A response is a JSON value. \<open>mask_ip\<close> hides the
  host part of an address, \<open>apply_pii_policy\<close> walks a response and masks addresses and session ids, \<open>mask_ip_values\<close> masks every
  text. Shown: a masked address depends on its network only, masking is idempotent, and no address or session id under the
  keys the policy covers is left in what it returns.
\<close>

subsection \<open>Addresses\<close>

definition IP_FAMILY_KEYS :: "string list" where
  "IP_FAMILY_KEYS = [''ip'', ''client_ip'', ''ip_address'', ''remote_addr'']"

definition SESSION_ID_KEYS :: "string list" where
  "SESSION_ID_KEYS = [''cookie_session'', ''cid'']"

definition endswith :: "string \<Rightarrow> string \<Rightarrow> bool" where
  "endswith s p = startswith (rev s) (rev p)"

definition mask_ip :: "string \<Rightarrow> string" where
  "mask_ip ip =
     (if ip = [] then ip
      else if endswith ip ''.xxx'' \<and> ipv4_int (take (length ip - 4) ip @ ''.0'') \<noteq> None then ip
      else case ip_address ip of
        None \<Rightarrow> ''[redacted]''
      | Some (IPv4 n) \<Rightarrow> join_with ''.'' (take 3 (split_on (CHR ''.'') (show_ipv4 n)) @ [''xxx''])
      | Some (IPv6 n _) \<Rightarrow> show_ipv6 (n div 2 ^ 80 * 2 ^ 80))"

definition maybe_ip :: "string \<Rightarrow> bool" where
  "maybe_ip s \<longleftrightarrow> s \<noteq> [] \<and> list_all (\<lambda>c. hex_value c \<noteq> None \<or> c = CHR '':'' \<or> c = CHR ''.'') s"

definition mask_ip_scalar :: "string \<Rightarrow> string" where
  "mask_ip_scalar v =
     (let bare = py_strip v in
      if maybe_ip bare \<and> ip_address bare \<noteq> None then mask_ip bare
      else if CHR '','' \<in> set v then
        (let parts = map py_strip (split_on (CHR '','') v) in
         if 1 < length parts \<and> list_all (\<lambda>p. p \<noteq> []) parts \<and> list_all (\<lambda>p. ip_address p \<noteq> None) parts
         then join_with '', '' (map mask_ip parts) else v)
      else v)"

definition redact :: "string \<Rightarrow> string" where
  "redact s = (if s = [] then s else ''[redacted]'')"

subsection \<open>Responses\<close>

definition canonical_key :: "string \<Rightarrow> string" where
  "canonical_key k = py_lower (filter is_word_char k)"

definition sensitive_key :: "string \<Rightarrow> bool" where
  "sensitive_key k \<longleftrightarrow> k \<in> set SESSION_ID_KEYS \<or> k \<in> set IP_FAMILY_KEYS"

text \<open>The field a dictionary says it is about, if that is sensitive, and the context of what is stored under a key.\<close>

definition eff_ctx :: "row \<Rightarrow> string option \<Rightarrow> string option" where
  "eff_ctx r ctx =
     (case row_get r ''field'' of
        JStr s \<Rightarrow> if sensitive_key (canonical_key s) then Some (canonical_key s) else ctx
      | _ \<Rightarrow> ctx)"

definition next_ctx :: "string \<Rightarrow> string option \<Rightarrow> string option" where
  "next_ctx k ctx = (if sensitive_key (canonical_key k) then Some (canonical_key k) else ctx)"

definition ctx_in :: "string option \<Rightarrow> string list \<Rightarrow> bool" where
  "ctx_in ctx ks = (case ctx of None \<Rightarrow> False | Some k \<Rightarrow> k \<in> set ks)"

text \<open>What replaces the text stored under a key, and a text in the list stored under a key.\<close>

definition mask_entry :: "string option \<Rightarrow> string \<Rightarrow> string \<Rightarrow> string" where
  "mask_entry ctx k s =
     (if k \<in> set SESSION_ID_KEYS then redact s
      else if k \<in> set IP_FAMILY_KEYS then mask_ip s
      else if k = ''min'' \<or> k = ''max'' then mask_ip_scalar s
      else if k = ''value'' \<and> ctx_in ctx IP_FAMILY_KEYS then mask_ip_scalar s
      else if k = ''value'' \<and> ctx_in ctx SESSION_ID_KEYS then redact s
      else s)"

definition mask_item :: "string option \<Rightarrow> string \<Rightarrow> string" where
  "mask_item parent s = (if ctx_in parent SESSION_ID_KEYS then redact s else if ctx_in parent IP_FAMILY_KEYS then mask_ip s else s)"

fun pii_walk :: "string option \<Rightarrow> string option \<Rightarrow> json \<Rightarrow> json" where
  "pii_walk parent ctx (JObj r) =
     JObj (map (\<lambda>(k, v). (k, case v of JStr s \<Rightarrow> JStr (mask_entry (eff_ctx r ctx) k s)
                             | _ \<Rightarrow> pii_walk (Some k) (next_ctx k (eff_ctx r ctx)) v)) r)"
| "pii_walk parent ctx (JList xs) =
     JList (map (\<lambda>x. case x of JStr s \<Rightarrow> JStr (mask_item parent s) | _ \<Rightarrow> pii_walk parent ctx x) xs)"
| "pii_walk parent ctx j = j"

definition apply_pii_policy :: "json \<Rightarrow> row \<Rightarrow> json" where
  "apply_pii_policy obj policy = (if policy = [] \<or> \<not> json_truthy (row_get policy ''mask_ips'') then obj else pii_walk None None obj)"

fun mask_ip_values :: "json \<Rightarrow> json" where
  "mask_ip_values (JObj r) = JObj (map (\<lambda>(k, v). (k, mask_ip_values v)) r)"
| "mask_ip_values (JList xs) = JList (map mask_ip_values xs)"
| "mask_ip_values (JStr s) = JStr (mask_ip_scalar s)"
| "mask_ip_values j = j"

subsection \<open>Masked addresses\<close>

text \<open>What a masked address looks like.\<close>

definition masked_v4 :: "string \<Rightarrow> bool" where
  "masked_v4 s \<longleftrightarrow> (\<exists>p. s = p @ ''.xxx'' \<and> ipv4_int (p @ ''.0'') \<noteq> None)"

definition masked_v6 :: "string \<Rightarrow> bool" where
  "masked_v6 s \<longleftrightarrow> (\<exists>n < 2 ^ 48. s = show_ipv6 (n * 2 ^ 80))"

definition host_hidden :: "string \<Rightarrow> bool" where
  "host_hidden s \<longleftrightarrow> s = [] \<or> s = ''[redacted]'' \<or> masked_v4 s \<or> masked_v6 s"

lemma endswith_iff: "endswith s p \<longleftrightarrow> (\<exists>q. s = q @ p)"
  unfolding endswith_def startswith_iff by (metis rev_append rev_rev_ident)

lemma ends_masked: "(endswith ip ''.xxx'' \<and> ipv4_int (take (length ip - 4) ip @ ''.0'') \<noteq> None) = masked_v4 ip"
  by (auto simp: endswith_iff masked_v4_def)

lemma mask_ip_simp:
  "mask_ip ip =
     (if ip = [] \<or> masked_v4 ip then ip
      else case ip_address ip of
        None \<Rightarrow> ''[redacted]''
      | Some (IPv4 n) \<Rightarrow> join_with ''.'' (map show_nat (to_digits 256 3 (n div 256)) @ [''xxx''])
      | Some (IPv6 n _) \<Rightarrow> show_ipv6 (n div 2 ^ 80 * 2 ^ 80))"
proof -
  have "take 3 (split_on (CHR ''.'') (show_ipv4 n)) = map show_nat (to_digits 256 3 (n div 256))" for n
  proof -
    have "split_on (CHR ''.'') (show_ipv4 n) = map show_nat (to_digits 256 4 n)"
      unfolding show_ipv4_def by (rule split_on_join) (auto simp: show_nat_no_dot simp flip: length_0_conv)
    moreover have "to_digits 256 4 n = to_digits 256 3 (n div 256) @ [n mod 256]" using to_digits_Suc [of 256 3 n] by simp
    ultimately show ?thesis by (simp add: take_map)
  qed
  then show ?thesis unfolding mask_ip_def ends_masked by (simp split: option.split ip_addr.split)
qed

lemma split_on_snoc: "split_on c (p @ c # q) = split_on c p @ split_on c q"
proof (induction p)
  case (Cons x p)
  then show ?case using split_on_nonempty [of c p] by (auto split: list.splits)
qed simp

lemma masked_v4_octets:
  assumes "masked_v4 s"
  shows "ipv4_int s = None \<and> list_all (\<lambda>c. ascii_digit c \<or> c = CHR ''.'' \<or> c = CHR ''x'') s"
proof -
  from assms obtain p where s: "s = p @ ''.xxx''" and p: "ipv4_int (p @ ''.0'') \<noteq> None" by (auto simp: masked_v4_def)
  have parts: "split_on (CHR ''.'') (p @ CHR ''.'' # q) = split_on (CHR ''.'') p @ split_on (CHR ''.'') q" for q by (rule split_on_snoc)
  have "split_on (CHR ''.'') s = split_on (CHR ''.'') p @ [''xxx'']" using parts [of "''xxx''"] s by simp
  moreover have "parse_octet ''xxx'' = None" by code_simp
  ultimately have none: "ipv4_int s = None" by (simp add: ipv4_int_def those_None)
  from p obtain ds where "those (map parse_octet (split_on (CHR ''.'') (p @ ''.0''))) = Some ds"
    by (auto simp: ipv4_int_def Let_def split: if_splits)
  then have ds: "map parse_octet (split_on (CHR ''.'') p @ [''0'']) = map Some ds" using parts [of "''0''"] those_Some by fastforce
  have "list_all ascii_digit o1" if "o1 \<in> set (split_on (CHR ''.'') p)" for o1
  proof -
    from that have "parse_octet o1 \<in> set (map Some ds)" unfolding ds [symmetric] by simp
    then show ?thesis using parse_octet_bound by fastforce
  qed
  then have "\<forall>c \<in> set (join_with ''.'' (split_on (CHR ''.'') p)). ascii_digit c \<or> c = CHR ''.''"
    using set_join_with [of _ "''.''" "split_on (CHR ''.'') p"] by (fastforce simp: list_all_iff)
  then show ?thesis using none by (auto simp: s join_split_on list_all_iff)
qed

lemma masked_v4_no_address:
  assumes "masked_v4 s"
  shows "ip_address s = None"
proof -
  note chars = masked_v4_octets [OF assms]
  then have "CHR '':'' \<notin> set s" "CHR ''/'' \<notin> set s" "CHR ''%'' \<notin> set s"
    by (auto simp: list_all_iff ascii_digit_def)
  then show ?thesis using chars by (simp add: ip_address_def split_scope_def ipv6_int_def ipv6_parts_def split_on_plain)
qed

lemma masked_v6_address:
  assumes "masked_v6 s"
  shows "\<exists>n < 2 ^ 48. s = show_ipv6 (n * 2 ^ 80) \<and> ip_address s = Some (IPv6 (n * 2 ^ 80) None)"
  using assms ip_address_show_network unfolding masked_v6_def by blast

lemma redacted_no_address: "ip_address ''[redacted]'' = None" "\<not> masked_v4 ''[redacted]''"
proof -
  show "ip_address ''[redacted]'' = None" by code_simp
  show "\<not> masked_v4 ''[redacted]''" using masked_v4_octets [of "''[redacted]''"] by (auto simp: ascii_digit_def)
qed

lemma mask_ip_fixed: "host_hidden s \<Longrightarrow> mask_ip s = s"
  unfolding host_hidden_def
  by (elim disjE) (auto simp: mask_ip_simp redacted_no_address dest!: masked_v6_address)

lemma join_with_snoc: "xs \<noteq> [] \<Longrightarrow> join_with sep (xs @ [y]) = join_with sep xs @ sep @ y"
  by (induction sep xs rule: join_with.induct) auto

lemma masked_v4_network:
  assumes "m < 2 ^ 24"
  shows "masked_v4 (join_with ''.'' (map show_nat (to_digits 256 3 m) @ [''xxx'']))"
proof -
  let ?p = "join_with ''.'' (map show_nat (to_digits 256 3 m))"
  have ne: "map show_nat (to_digits 256 3 m) \<noteq> []" by (simp flip: length_0_conv)
  have "to_digits 256 4 (m * 256) = to_digits 256 3 m @ [0]" using to_digits_shift [of 256 3 1 m] by simp
  moreover have "show_nat 0 = ''0''" by code_simp
  ultimately have "show_ipv4 (m * 256) = ?p @ ''.0''" using join_with_snoc [OF ne] by (simp add: show_ipv4_def)
  moreover have "ipv4_int (show_ipv4 (m * 256)) = Some (m * 256)" using assms by (intro ipv4_int_show) simp
  ultimately show ?thesis unfolding masked_v4_def using join_with_snoc [OF ne] by (intro exI [of _ ?p]) simp
qed

lemma mask_ip_v4:
  assumes "ip_address s = Some (IPv4 n)"
  shows "mask_ip s = join_with ''.'' (map show_nat (to_digits 256 3 (n div 256)) @ [''xxx'']) \<and> n div 256 < 2 ^ 24"
proof -
  from assms have "ipv4_int s = Some n" by (auto simp: ip_address_def split: option.splits if_splits)
  then have "n < 2 ^ 32" by (rule ipv4_int_bound)
  moreover have "s \<noteq> []" using assms by (auto simp: ip_address_def ipv4_int_def split_scope_def ipv6_int_def ipv6_parts_def)
  ultimately show ?thesis using assms masked_v4_no_address by (auto simp: mask_ip_simp less_mult_imp_div_less)
qed

lemma mask_ip_v6:
  assumes "ip_address s = Some (IPv6 n scope)"
  shows "mask_ip s = show_ipv6 (n div 2 ^ 80 * 2 ^ 80) \<and> n div 2 ^ 80 < 2 ^ 48"
proof -
  from assms obtain a where "ipv6_int a = Some n" by (auto simp: ip_address_def split: option.splits if_splits)
  then have "n < 2 ^ 128" by (rule ipv6_int_bound)
  then have "n div 2 ^ 80 < 2 ^ 48" by (intro less_mult_imp_div_less) simp
  moreover have "s \<noteq> []" using assms by (auto simp: ip_address_def ipv4_int_def split_scope_def ipv6_int_def ipv6_parts_def)
  ultimately show ?thesis using assms masked_v4_no_address by (auto simp: mask_ip_simp)
qed

lemma mask_ip_hidden: "host_hidden (mask_ip s)"
proof (cases "ip_address s")
  case None
  then show ?thesis by (auto simp: mask_ip_simp host_hidden_def)
next
  case (Some a)
  show ?thesis
  proof (cases a)
    case (IPv4 n)
    with Some mask_ip_v4 [of s n] masked_v4_network show ?thesis by (simp add: host_hidden_def)
  next
    case (IPv6 n scope)
    with Some mask_ip_v6 [of s n scope] show ?thesis by (auto simp: host_hidden_def masked_v6_def)
  qed
qed

lemma mask_ip_idem [simp]: "mask_ip (mask_ip s) = mask_ip s"
  by (simp add: mask_ip_fixed mask_ip_hidden)

definition same_network :: "ip_addr \<Rightarrow> ip_addr \<Rightarrow> bool" where
  "same_network a b =
     (case (a, b) of
        (IPv4 n, IPv4 m) \<Rightarrow> n div 256 = m div 256
      | (IPv6 n _, IPv6 m _) \<Rightarrow> n div 2 ^ 80 = m div 2 ^ 80
      | _ \<Rightarrow> False)"

text \<open>A text that gives no host away: it is no IPv4 address, and as an IPv6 address its host part is zero.\<close>

definition shows_no_host :: "string \<Rightarrow> bool" where
  "shows_no_host s =
     (case ip_address s of
        None \<Rightarrow> True
      | Some (IPv4 _) \<Rightarrow> False
      | Some (IPv6 n _) \<Rightarrow> n mod 2 ^ 80 = 0)"

lemma mask_v4_inj:
  assumes "join_with ''.'' (map show_nat (to_digits 256 3 n) @ [''xxx'']) = join_with ''.'' (map show_nat (to_digits 256 3 m) @ [''xxx''])"
    and "n < 2 ^ 24" and "m < 2 ^ 24"
  shows "n = m"
proof -
  have split: "split_on (CHR ''.'') (join_with ''.'' (map show_nat ds @ [''xxx''])) = map show_nat ds @ [''xxx'']" for ds
    by (rule split_on_join) (auto simp: show_nat_no_dot)
  have "map show_nat (to_digits 256 3 n) = map show_nat (to_digits 256 3 m)" using assms(1) split by (metis butlast_snoc)
  moreover have "inj show_nat" by (auto intro!: injI simp: show_nat_inj)
  ultimately have "to_digits 256 3 n = to_digits 256 3 m" by (simp add: inj_map_eq_map)
  moreover have "n < 256 ^ 3" "m < 256 ^ 3" using assms(2,3) by simp_all
  ultimately show ?thesis using from_to_digits by metis
qed

lemma mask_kind_v4: "ip_address s = Some (IPv4 n) \<Longrightarrow> ip_address (mask_ip s) = None"
  using mask_ip_v4 [of s n] masked_v4_network [of "n div 256"] masked_v4_no_address by presburger

lemma mask_kind_v6: "ip_address s = Some (IPv6 n x) \<Longrightarrow> ip_address (mask_ip s) = Some (IPv6 (n div 2 ^ 80 * 2 ^ 80) None)"
  using mask_ip_v6 [of s n x] ip_address_show_network [of "n div 2 ^ 80"] by presburger

lemma mask_same_v6:
  assumes "ip_address s = Some (IPv6 n x)" and "ip_address t = Some (IPv6 m y)"
  shows "mask_ip s = mask_ip t \<longleftrightarrow> n div 2 ^ 80 = m div 2 ^ 80"
proof
  assume "mask_ip s = mask_ip t"
  then have "n div 2 ^ 80 * 2 ^ 80 = m div 2 ^ 80 * 2 ^ 80" using mask_kind_v6 [OF assms(1)] mask_kind_v6 [OF assms(2)] by (metis ip_addr.inject(2) option.inject)
  then show "n div 2 ^ 80 = m div 2 ^ 80" by (simp only: mult_cancel2) simp
next
  assume "n div 2 ^ 80 = m div 2 ^ 80"
  then show "mask_ip s = mask_ip t" using mask_ip_v6 [OF assms(1)] mask_ip_v6 [OF assms(2)] by metis
qed

lemma mask_same_v4:
  assumes "ip_address s = Some (IPv4 n)" and "ip_address t = Some (IPv4 m)"
  shows "mask_ip s = mask_ip t \<longleftrightarrow> n div 256 = m div 256"
  using mask_ip_v4 [OF assms(1)] mask_ip_v4 [OF assms(2)] mask_v4_inj [of "n div 256" "m div 256"] by metis

lemma hidden_shows_no_host:
  assumes "host_hidden s"
  shows "shows_no_host s"
proof -
  have "ip_address [] = None" by (simp add: ip_address_def ipv4_int_def split_scope_def ipv6_int_def ipv6_parts_def)
  moreover have "shows_no_host s" if "masked_v6 s"
  proof -
    from masked_v6_address [OF that] obtain n where "ip_address s = Some (IPv6 (n * 2 ^ 80) None)" by blast
    then show ?thesis by (simp add: shows_no_host_def del: power_numeral)
  qed
  ultimately show ?thesis using assms redacted_no_address(1) masked_v4_no_address by (auto simp: host_hidden_def shows_no_host_def)
qed

text \<open>
  C39. A masked address is its network. Masking is idempotent and never returns the text of an address with a host part; and two addresses
  have the same masked text exactly if they are of one family and agree in the first 24 bits (IPv4) or 48 bits (IPv6), whatever way
  they were written.
\<close>

theorem mask_ip_hides_host:
  "mask_ip (mask_ip s) = mask_ip s \<and> shows_no_host (mask_ip s)
   \<and> (ip_address s = Some a \<longrightarrow> ip_address t = Some b \<longrightarrow> (mask_ip s = mask_ip t \<longleftrightarrow> same_network a b))"
proof (intro conjI impI)
  show "mask_ip (mask_ip s) = mask_ip s" by simp
  show "shows_no_host (mask_ip s)" by (intro hidden_shows_no_host mask_ip_hidden)
  assume s: "ip_address s = Some a" and t: "ip_address t = Some b"
  show "mask_ip s = mask_ip t \<longleftrightarrow> same_network a b"
  proof (cases a)
    case (IPv4 n)
    with s t mask_kind_v4 [of s n] mask_kind_v6 [of t] mask_same_v4 [of s n t] show ?thesis
      by (cases b) (auto simp: same_network_def simp del: power_numeral)
  next
    case (IPv6 n x)
    with s t mask_kind_v6 [of s n x] mask_kind_v4 [of t] mask_same_v6 [of s n x t] show ?thesis
      by (cases b) (auto simp: same_network_def simp del: power_numeral)
  qed
qed

lemmas read_ip_defs = ip_address_def ipv4_int_def split_scope_def ipv6_int_def ipv6_parts_def ipv6_hextets_def parse_octet_def
  parse_hextet_def read_hex_def hex_value_def from_digits_def read_nat_def read_digit_def ascii_digit_def

theorem mask_ip_hides_host_witness:
  "mask_ip ''2001:DB8:7:1::5'' = mask_ip ''2001:db8:7:ffff::9%eth0''
   \<and> mask_ip ''192.0.2.77'' \<noteq> mask_ip ''192.0.3.77''"
proof -
  have v6: "ip_address ''2001:DB8:7:1::5'' = Some (IPv6 42540766411291055356088031429586321413 None)"
    "ip_address ''2001:db8:7:ffff::9%eth0'' = Some (IPv6 42540766411292264245014157911341924361 (Some ''eth0''))"
    by (simp_all add: read_ip_defs numeral_3_eq_3)
  have v4: "ip_address ''192.0.2.77'' = Some (IPv4 3221226061)" "ip_address ''192.0.3.77'' = Some (IPv4 3221226317)"
    by (simp_all add: read_ip_defs)
  show ?thesis
    using mask_ip_hides_host [of "''2001:DB8:7:1::5''"] mask_ip_hides_host [of "''192.0.2.77''"] v4 v6 by (simp add: same_network_def)
qed

subsection \<open>Scalars\<close>

lemma ascii_digit_hex: "ascii_digit c \<Longrightarrow> hex_value c \<noteq> None"
  by (auto simp: ascii_digit_def hex_value_def Let_def)

definition ip_char :: "char \<Rightarrow> bool" where
  "ip_char c \<longleftrightarrow> hex_value c \<noteq> None \<or> c = CHR '':'' \<or> c = CHR ''.''"

lemma ipv4_chars:
  assumes "ipv4_int s = Some n"
  shows "list_all ip_char s"
proof -
  from assms obtain ds where "those (map parse_octet (split_on (CHR ''.'') s)) = Some ds" by (auto simp: ipv4_int_def Let_def split: if_splits)
  from those_Some [OF this] have eq: "map parse_octet (split_on (CHR ''.'') s) = map Some ds" .
  have "list_all ascii_digit p" if "p \<in> set (split_on (CHR ''.'') s)" for p
  proof -
    from that have "parse_octet p \<in> set (map Some ds)" unfolding eq [symmetric] by simp
    then show ?thesis using parse_octet_bound by fastforce
  qed
  then have "\<forall>c \<in> set (join_with ''.'' (split_on (CHR ''.'') s)). ip_char c"
    using set_join_with [of _ "''.''" "split_on (CHR ''.'') s"] ascii_digit_hex by (fastforce simp: list_all_iff ip_char_def)
  then show ?thesis by (simp add: join_split_on list_all_iff)
qed

lemma hextet_chars:
  assumes "those (map parse_hextet ps) = Some hs" and "p \<in> set ps"
  shows "list_all ip_char p"
proof -
  from those_Some [OF assms(1)] assms(2) have "parse_hextet p \<in> set (map Some hs)" by (metis imageI list.set_map)
  then obtain ds where "those (map hex_value p) = Some ds" by (auto simp: parse_hextet_def read_hex_def split: if_splits)
  from those_Some [OF this] have eq: "map hex_value p = map Some ds" .
  have "hex_value c \<noteq> None" if "c \<in> set p" for c
  proof -
    from that have "hex_value c \<in> set (map Some ds)" unfolding eq [symmetric] by simp
    then show ?thesis by auto
  qed
  then show ?thesis by (auto simp: list_all_iff ip_char_def)
qed

lemma hextets_chars:
  assumes "ipv6_hextets parts = Some hs" and "p \<in> set parts"
  shows "list_all ip_char p"
proof (cases "filter (\<lambda>i. parts ! i = []) [1..<length parts - 1]")
  case Nil
  with assms hextet_chars show ?thesis by (auto simp: ipv6_hextets_def split: if_splits)
next
  case (Cons i js)
  then have "i \<in> set (filter (\<lambda>i. parts ! i = []) [1..<length parts - 1])" by simp
  then have i: "parts ! i = []" "i < length parts - 1" by auto
  from assms(1) Cons have js: "js = []" by (cases js) (auto simp: ipv6_hextets_def split: if_splits)
  define hi where "hi = (if hd parts = [] then [] else take i parts)"
  define lo where "lo = (if last parts = [] then [] else drop (Suc i) parts)"
  from assms(1) Cons js obtain xs ys where xy: "those (map parse_hextet hi) = Some xs" "those (map parse_hextet lo) = Some ys"
      "hd parts = [] \<longrightarrow> i = 1" "last parts = [] \<longrightarrow> Suc (Suc i) = length parts"
    by (auto simp: ipv6_hextets_def hi_def [symmetric] lo_def [symmetric] Let_def split: if_splits option.splits)
  have "parts = take i parts @ [] # drop (Suc i) parts" using i by (metis One_nat_def id_take_nth_drop less_diff_conv add_lessD1)
  with assms(2) consider "p \<in> set (take i parts)" | "p = []" | "p \<in> set (drop (Suc i) parts)" by (metis Un_iff list.set_intros set_append set_ConsD)
  then have "p = [] \<or> p \<in> set hi \<or> p \<in> set lo"
  proof cases
    case 1
    then show ?thesis using xy(3) i by (cases parts) (auto simp: hi_def)
  next
    case 3
    have "drop (Suc i) parts = [last parts]" if "Suc (Suc i) = length parts"
      using that by (metis Cons_nth_drop_Suc drop_all last_conv_nth length_greater_0_conv lessI order_refl diff_Suc_1 zero_less_Suc)
    with 3 show ?thesis using xy(4) by (auto simp: lo_def)
  qed simp
  with hextet_chars [OF xy(1)] hextet_chars [OF xy(2)] show ?thesis by auto
qed

lemma ipv6_chars:
  assumes "ipv6_int s = Some n"
  shows "list_all ip_char s"
proof -
  from assms obtain parts hs where parts: "ipv6_parts s = Some parts" "ipv6_hextets parts = Some hs" by (auto simp: ipv6_int_def split: option.splits)
  let ?ps = "split_on (CHR '':'') s"
  have chars: "list_all ip_char p" if "p \<in> set ?ps" for p
  proof (cases "CHR ''.'' \<in> set (last ?ps)")
    case True
    with parts(1) obtain k where k: "ipv4_int (last ?ps) = Some k" "parts = butlast ?ps @ [show_hex (k div 65536), show_hex (k mod 65536)]"
      by (auto simp: ipv6_parts_def Let_def split: if_splits)
    from that have "p = last ?ps \<or> p \<in> set (butlast ?ps)" using split_on_nonempty [of "CHR '':''" s] by (metis append_butlast_last_id in_set_conv_decomp_last Un_iff set_append set_ConsD empty_iff list.set(1))
    with k ipv4_chars [OF k(1)] hextets_chars [OF parts(2), of p] show ?thesis by auto
  next
    case False
    with parts(1) have "parts = ?ps" by (auto simp: ipv6_parts_def Let_def split: if_splits)
    with that hextets_chars [OF parts(2)] show ?thesis by blast
  qed
  then have "\<forall>c \<in> set (join_with '':'' ?ps). ip_char c"
    using set_join_with [of _ "'':''" ?ps] by (fastforce simp: list_all_iff ip_char_def)
  then show ?thesis by (simp add: join_split_on list_all_iff)
qed

lemma address_chars:
  assumes "ip_address s = Some a" and "CHR ''%'' \<notin> set s"
  shows "maybe_ip s"
proof -
  have "list_all ip_char s"
    using assms ipv4_chars ipv6_chars by (fastforce simp: ip_address_def split_scope_def split: option.splits if_splits)
  moreover have "s \<noteq> []" using assms(1) by (auto simp: ip_address_def ipv4_int_def split_scope_def ipv6_int_def ipv6_parts_def)
  ultimately show ?thesis by (simp add: maybe_ip_def ip_char_def [abs_def])
qed

lemma unscoped_address: "ip_address s = Some (IPv6 n None) \<Longrightarrow> CHR ''%'' \<notin> set s"
  by (auto simp: ip_address_def split_scope_def split: option.splits if_splits list.splits)

lemma py_strip_id:
  assumes "s \<noteq> []" and "\<not> is_space (hd s)" and "\<not> is_space (last s)"
  shows "py_strip s = s"
proof -
  have "dropWhile is_space s = s" using assms(1,2) by (cases s) auto
  moreover have "dropWhile is_space (rev s) = rev s" using assms(1,3) by (cases "rev s") (auto simp: last_rev hd_rev [symmetric])
  ultimately show ?thesis by (simp add: py_strip_def lstrip_chars_def rstrip_chars_def)
qed

text \<open>A masked address, and that it is left as it is.\<close>

definition masked_address :: "string \<Rightarrow> bool" where
  "masked_address s \<longleftrightarrow> masked_v4 s \<or> masked_v6 s"

lemma masked_address_chars:
  assumes "masked_address s"
  shows "s \<noteq> [] \<and> (\<forall>c \<in> set s. \<not> is_space c \<and> c \<noteq> CHR '','')"
proof -
  have "list_all (\<lambda>c. ip_char c \<or> c = CHR ''x'') s \<and> s \<noteq> []"
  proof (cases "masked_v4 s")
    case True
    with masked_v4_octets [OF this] ascii_digit_hex show ?thesis by (auto simp: list_all_iff ip_char_def masked_v4_def)
  next
    case False
    with assms obtain n where "ip_address s = Some (IPv6 n None)" using masked_v6_address by (auto simp: masked_address_def)
    with address_chars [OF this] unscoped_address [OF this] show ?thesis by (auto simp: maybe_ip_def list_all_iff ip_char_def)
  qed
  moreover have "\<not> is_space c \<and> c \<noteq> CHR '',''" if "ip_char c \<or> c = CHR ''x''" for c
  proof -
    have "\<not> is_space (CHR ''x'')" "\<not> is_space (CHR '':'')" "\<not> is_space (CHR ''.'')" "hex_value (CHR '','') = None" by code_simp+
    moreover have "\<not> is_space c" if "hex_value c \<noteq> None" using that by (auto simp: hex_value_def is_space_def Let_def split: if_splits)
    ultimately show ?thesis using that by (auto simp: ip_char_def)
  qed
  ultimately show ?thesis by (auto simp: list_all_iff)
qed

lemma mask_ip_masked: "ip_address s \<noteq> None \<Longrightarrow> masked_address (mask_ip s)"
proof -
  assume "ip_address s \<noteq> None"
  then obtain a where a: "ip_address s = Some a" by blast
  show ?thesis
  proof (cases a)
    case (IPv4 n)
    with a mask_ip_v4 [of s n] masked_v4_network show ?thesis by (auto simp: masked_address_def)
  next
    case (IPv6 n x)
    with a mask_ip_v6 [of s n x] show ?thesis by (auto simp: masked_address_def masked_v6_def)
  qed
qed

lemma scalar_masked_fixed:
  assumes "masked_address s"
  shows "mask_ip_scalar s = s"
proof -
  note chars = masked_address_chars [OF assms]
  then have strip: "py_strip s = s" by (intro py_strip_id) auto
  have fixed: "mask_ip s = s" using assms by (intro mask_ip_fixed) (auto simp: masked_address_def host_hidden_def)
  show ?thesis using strip fixed chars by (auto simp: mask_ip_scalar_def)
qed

lemma join_spaced: "join_with '', '' (m # ms) = join_with '','' (m # map (Cons (CHR '' '')) ms)"
  by (induction ms arbitrary: m) (simp_all add: join_with_Cons)

lemma last_join_with: "ps \<noteq> [] \<Longrightarrow> last ps \<noteq> [] \<Longrightarrow> last (join_with sep ps) = last (last ps) \<and> join_with sep ps \<noteq> []"
  by (induction sep ps rule: join_with.induct) auto

lemma hd_join_with: "hd ps \<noteq> [] \<Longrightarrow> ps \<noteq> [] \<Longrightarrow> hd (join_with sep ps) = hd (hd ps)"
  by (induction sep ps rule: join_with.induct) auto

lemma masked_list_fixed:
  assumes "list_all masked_address ms" and "1 < length ms"
  shows "mask_ip_scalar (join_with '', '' ms) = join_with '', '' ms"
proof -
  let ?r = "join_with '', '' ms"
  from assms(2) obtain m k ks where ms: "ms = m # k # ks" by (cases ms; cases "tl ms") auto
  have chars: "p \<noteq> [] \<and> (\<forall>c \<in> set p. \<not> is_space c \<and> c \<noteq> CHR '','')" if "p \<in> set ms" for p
    using that assms(1) masked_address_chars by (auto simp: list_all_iff)
  have "py_strip ?r = ?r"
    using chars [of m] chars [of "last ms"] ms hd_join_with [of ms "'', ''"] last_join_with [of ms "'', ''"]
    by (intro py_strip_id) auto
  moreover have "CHR '','' \<in> set ?r" by (simp add: ms)
  moreover have "hex_value (CHR '','') = None" by code_simp
  ultimately have bare: "\<not> maybe_ip (py_strip ?r)" by (auto simp: maybe_ip_def list_all_iff)
  have "split_on (CHR '','') ?r = m # map (Cons (CHR '' '')) (k # ks)"
    unfolding ms join_spaced by (rule split_on_join) (use chars ms in auto)
  moreover have "py_strip (CHR '' '' # p) = p \<and> py_strip p = p" if "p \<in> set ms" for p
  proof -
    have "is_space (CHR '' '')" by code_simp
    then have "py_strip (CHR '' '' # p) = py_strip p" by (simp add: py_strip_def lstrip_chars_def)
    then show ?thesis using chars [OF that] py_strip_id [of p] by auto
  qed
  ultimately have parts: "map py_strip (split_on (CHR '','') ?r) = ms" using ms by (simp cong: map_cong)
  have "map mask_ip ms = ms"
    using assms(1) by (intro map_idI mask_ip_fixed) (auto simp: list_all_iff masked_address_def host_hidden_def)
  then show ?thesis using bare parts by (simp add: mask_ip_scalar_def Let_def)
qed

text \<open>What \<open>_mask_ip_scalar\<close> returns is a masked address, a list of them, or the text itself, which then is no address without a scope.\<close>

lemma scalar_cases:
  obtains "masked_address (mask_ip_scalar v)"
  | ms where "list_all masked_address ms" "1 < length ms" "mask_ip_scalar v = join_with '', '' ms"
  | "mask_ip_scalar v = v" "\<not> (maybe_ip (py_strip v) \<and> ip_address (py_strip v) \<noteq> None)"
proof -
  let ?parts = "map py_strip (split_on (CHR '','') v)"
  show ?thesis
  proof (cases "maybe_ip (py_strip v) \<and> ip_address (py_strip v) \<noteq> None")
    case True
    then show ?thesis using that(1) mask_ip_masked by (simp add: mask_ip_scalar_def)
  next
    case False
    show ?thesis
    proof (cases "CHR '','' \<in> set v \<and> 1 < length ?parts \<and> list_all (\<lambda>p. p \<noteq> []) ?parts \<and> list_all (\<lambda>p. ip_address p \<noteq> None) ?parts")
      case True
      with False have "mask_ip_scalar v = join_with '', '' (map mask_ip ?parts)" unfolding mask_ip_scalar_def Let_def by presburger
      moreover have "list_all masked_address (map mask_ip ?parts)" using True mask_ip_masked by (auto simp: list_all_iff)
      moreover have "1 < length (map mask_ip ?parts)" using True by simp
      ultimately show ?thesis using that(2) by blast
    next
      case no: False
      with False have "mask_ip_scalar v = v" by (auto simp: mask_ip_scalar_def Let_def)
      with False that(3) show ?thesis by blast
    qed
  qed
qed

lemma mask_ip_scalar_idem [simp]: "mask_ip_scalar (mask_ip_scalar v) = mask_ip_scalar v"
  by (rule scalar_cases [of v]) (simp_all add: scalar_masked_fixed masked_list_fixed)

definition scalar_hidden :: "string \<Rightarrow> bool" where
  "scalar_hidden s \<longleftrightarrow> shows_no_host s \<or> CHR ''%'' \<in> set s"

lemma unaddressed: "ip_address s = None \<Longrightarrow> scalar_hidden s"
  by (simp add: scalar_hidden_def shows_no_host_def)

lemma maybe_ip_plain:
  assumes "maybe_ip s"
  shows "CHR '','' \<notin> set s \<and> py_strip s = s"
proof -
  have "hex_value (CHR '','') = None" "\<not> is_space (CHR '':'')" "\<not> is_space (CHR ''.'')" by code_simp+
  moreover have "\<not> is_space c" if "hex_value c \<noteq> None" for c using that by (auto simp: hex_value_def is_space_def Let_def split: if_splits)
  ultimately have "\<forall>c \<in> set s. \<not> is_space c \<and> c \<noteq> CHR '',''" "s \<noteq> []" using assms by (auto simp: maybe_ip_def list_all_iff)
  moreover from this have "py_strip s = s" by (simp add: py_strip_id)
  ultimately show ?thesis by auto
qed

lemma scalar_is_hidden: "scalar_hidden (mask_ip_scalar v)"
proof (rule scalar_cases [of v])
  assume "masked_address (mask_ip_scalar v)"
  then show ?thesis using hidden_shows_no_host by (auto simp: scalar_hidden_def masked_address_def host_hidden_def)
next
  fix ms assume ms: "list_all masked_address ms" "1 < length ms" "mask_ip_scalar v = join_with '', '' ms"
  from ms(2) have "CHR '','' \<in> set (join_with '', '' ms)" by (cases ms; cases "tl ms") auto
  then show ?thesis unfolding ms(3)
    using address_chars [of "join_with '', '' ms"] maybe_ip_plain [of "join_with '', '' ms"] unaddressed [of "join_with '', '' ms"]
    by (cases "ip_address (join_with '', '' ms)") (auto simp: scalar_hidden_def)
next
  assume v: "mask_ip_scalar v = v" "\<not> (maybe_ip (py_strip v) \<and> ip_address (py_strip v) \<noteq> None)"
  show ?thesis unfolding v(1)
  proof (cases "ip_address v")
    case (Some a)
    with v(2) address_chars [OF Some] maybe_ip_plain [of v] show "scalar_hidden v" by (auto simp: scalar_hidden_def)
  qed (simp add: unaddressed)
qed

subsection \<open>Masked responses\<close>

definition redacted :: "string \<Rightarrow> bool" where
  "redacted s \<longleftrightarrow> s = [] \<or> s = ''[redacted]''"

text \<open>What may stand under a key, in a dictionary about \<open>ctx\<close>, and in the list under a key.\<close>

definition entry_masked :: "string option \<Rightarrow> string \<Rightarrow> string \<Rightarrow> bool" where
  "entry_masked ctx k s \<longleftrightarrow>
     (k \<in> set SESSION_ID_KEYS \<longrightarrow> redacted s) \<and> (k \<in> set IP_FAMILY_KEYS \<longrightarrow> host_hidden s)
     \<and> (k = ''min'' \<or> k = ''max'' \<or> k = ''value'' \<and> ctx_in ctx IP_FAMILY_KEYS \<longrightarrow> scalar_hidden s)
     \<and> (k = ''value'' \<and> ctx_in ctx SESSION_ID_KEYS \<longrightarrow> redacted s)"

definition item_masked :: "string option \<Rightarrow> string \<Rightarrow> bool" where
  "item_masked parent s \<longleftrightarrow> (ctx_in parent SESSION_ID_KEYS \<longrightarrow> redacted s) \<and> (ctx_in parent IP_FAMILY_KEYS \<longrightarrow> host_hidden s)"

fun pii_masked :: "string option \<Rightarrow> string option \<Rightarrow> json \<Rightarrow> bool" where
  "pii_masked parent ctx (JObj r) =
     list_all (\<lambda>(k, v). case v of JStr s \<Rightarrow> entry_masked (eff_ctx r ctx) k s | _ \<Rightarrow> pii_masked (Some k) (next_ctx k (eff_ctx r ctx)) v) r"
| "pii_masked parent ctx (JList xs) =
     list_all (\<lambda>x. case x of JStr s \<Rightarrow> item_masked parent s | _ \<Rightarrow> pii_masked parent ctx x) xs"
| "pii_masked parent ctx j = True"

lemma redact_redacted [simp]: "redacted (redact s)" "redact (redact s) = redact s"
  by (simp_all add: redacted_def redact_def)

lemma ctx_disjoint: "ctx_in ctx IP_FAMILY_KEYS \<Longrightarrow> \<not> ctx_in ctx SESSION_ID_KEYS"
  by (auto simp: ctx_in_def IP_FAMILY_KEYS_def SESSION_ID_KEYS_def split: option.splits)

lemma mask_entry_ok: "entry_masked ctx k (mask_entry ctx k s)" "mask_entry ctx k (mask_entry ctx k s) = mask_entry ctx k s"
proof -
  show "entry_masked ctx k (mask_entry ctx k s)"
    using mask_ip_hidden scalar_is_hidden ctx_disjoint by (auto simp: entry_masked_def mask_entry_def IP_FAMILY_KEYS_def SESSION_ID_KEYS_def)
  show "mask_entry ctx k (mask_entry ctx k s) = mask_entry ctx k s" by (simp add: mask_entry_def)
qed

lemma mask_item_ok: "item_masked parent (mask_item parent s)" "mask_item parent (mask_item parent s) = mask_item parent s"
  using mask_ip_hidden ctx_disjoint by (auto simp: item_masked_def mask_item_def)

lemma map_of_map_values: "map_of (map (\<lambda>(k, v). (k, f k v)) r) x = map_option (f x) (map_of r x)"
  by (induction r) auto

lemma walk_keeps_kind: "(\<exists>s. pii_walk parent ctx j = JStr s) \<longleftrightarrow> (\<exists>s. j = JStr s)"
  by (cases j) simp_all

lemma eff_ctx_walk:
  "eff_ctx (map (\<lambda>(k, v). (k, case v of JStr s \<Rightarrow> JStr (mask_entry c k s) | _ \<Rightarrow> pii_walk (Some k) (d k) v)) r) ctx = eff_ctx r ctx"
proof (cases "map_of r ''field''")
  case (Some v)
  then show ?thesis
    by (cases v) (auto simp: eff_ctx_def row_get_def map_of_map_values mask_entry_def SESSION_ID_KEYS_def IP_FAMILY_KEYS_def)
qed (simp add: eff_ctx_def row_get_def map_of_map_values)

lemma pii_walk_masked: "pii_masked parent ctx (pii_walk parent ctx j)"
proof (induction parent ctx j rule: pii_walk.induct)
  case (1 parent ctx r)
  show ?case
    unfolding pii_walk.simps pii_masked.simps eff_ctx_walk list_all_iff
  proof safe
    fix k v assume "(k, v) \<in> set (map (\<lambda>(k, v). (k, case v of JStr s \<Rightarrow> JStr (mask_entry (eff_ctx r ctx) k s)
        | _ \<Rightarrow> pii_walk (Some k) (next_ctx k (eff_ctx r ctx)) v)) r)"
    then obtain w where w: "(k, w) \<in> set r" "v = (case w of JStr s \<Rightarrow> JStr (mask_entry (eff_ctx r ctx) k s)
        | _ \<Rightarrow> pii_walk (Some k) (next_ctx k (eff_ctx r ctx)) w)" by auto
    from 1 [OF w(1)] w(2) show "case v of JStr s \<Rightarrow> entry_masked (eff_ctx r ctx) k s | _ \<Rightarrow> pii_masked (Some k) (next_ctx k (eff_ctx r ctx)) v"
      using mask_entry_ok(1) by (cases w) auto
  qed
next
  case (2 parent ctx xs)
  let ?f = "\<lambda>x. case x of JStr s \<Rightarrow> JStr (mask_item parent s) | _ \<Rightarrow> pii_walk parent ctx x"
  have "case ?f x of JStr s \<Rightarrow> item_masked parent s | _ \<Rightarrow> pii_masked parent ctx (?f x)" if "x \<in> set xs" for x
    using 2 [OF that] mask_item_ok(1) by (cases x) auto
  then show ?case by (simp add: list_all_iff)
qed simp_all

lemma pii_walk_idem: "pii_walk parent ctx (pii_walk parent ctx j) = pii_walk parent ctx j"
proof (induction parent ctx j rule: pii_walk.induct)
  case (1 parent ctx r)
  let ?f = "\<lambda>k v. case v of JStr s \<Rightarrow> JStr (mask_entry (eff_ctx r ctx) k s) | _ \<Rightarrow> pii_walk (Some k) (next_ctx k (eff_ctx r ctx)) v"
  have "?f k (?f k v) = ?f k v" if "(k, v) \<in> set r" for k v
    using 1 [OF that] mask_entry_ok(2) by (cases v) auto
  then have "map (\<lambda>(k, v). (k, ?f k v)) (map (\<lambda>(k, v). (k, ?f k v)) r) = map (\<lambda>(k, v). (k, ?f k v)) r" by auto
  then show ?case by (simp only: pii_walk.simps eff_ctx_walk)
next
  case (2 parent ctx xs)
  let ?f = "\<lambda>x. case x of JStr s \<Rightarrow> JStr (mask_item parent s) | _ \<Rightarrow> pii_walk parent ctx x"
  have "?f (?f x) = ?f x" if "x \<in> set xs" for x
    using 2 [OF that] mask_item_ok(2) by (cases x) auto
  then have "map ?f (map ?f xs) = map ?f xs" by simp
  then show ?case by (simp only: pii_walk.simps)
qed simp_all


definition example_response :: json where
  "example_response = JObj [(''rows'', JList [JObj [(''client_ip'', JStr ''192.0.2.7''), (''cid'', JStr ''abc''), (''n'', JInt 3)]]),
     (''top'', JObj [(''field'', JStr ''client-ip''), (''value'', JStr ''192.0.2.7'')])]"


text \<open>What stays: a scoped IPv6 address in a bound, and the texts of a list under \<open>value\<close>.\<close>

lemma scoped_scalar_unmasked: "mask_ip_scalar ''fe80::1%eth0'' = ''fe80::1%eth0''"
  by code_simp

lemma value_list_unmasked:
  "pii_walk None None (JObj [(''field'', JStr ''client_ip''), (''value'', JList [JStr s])]) = JObj [(''field'', JStr ''client_ip''), (''value'', JList [JStr s])]"
  by (simp add: mask_item_def mask_entry_def ctx_in_def SESSION_ID_KEYS_def IP_FAMILY_KEYS_def)

lemma mask_ip_values_idem: "mask_ip_values (mask_ip_values j) = mask_ip_values j"
  by (induction j rule: mask_ip_values.induct) auto

end
