(* ===== verification/Hll_Sketch.thy ===== *)
theory Hll_Sketch
  imports Prelude "HOL-Library.Word"
begin

text \<open>
  HyperLogLog sketches of the rollups: \<open>utils/hll.py\<close>. A sketch is its precision and its bytes. The hash (the first eight bytes of MD5 as a
  64-bit word) is a parameter. Modelled: adding items, serialization, the three ways sketches are merged (in place, as a matrix of
  bytes, per key of a result set). The estimate itself is floating-point arithmetic and is left out. Shown: a sketch holds, in each byte, the
  greatest rank of the items hashed there, so that merging sketches gives the sketch of all items, in whatever way and
  order they are merged, and serialization loses nothing.
\<close>

subsection \<open>Sketches\<close>

definition SERIALIZATION_VERSION :: nat where
  "SERIALIZATION_VERSION = 1"

definition HASH_BITS :: nat where
  "HASH_BITS = 64"

record hll =
  hll_p :: nat
  hll_buckets :: "8 word list"

fun bit_length :: "nat \<Rightarrow> nat" where
  "bit_length n = (if n = 0 then 0 else Suc (bit_length (n div 2)))"

declare bit_length.simps [simp del]

definition leading_zero_count :: "nat \<Rightarrow> nat \<Rightarrow> nat" where
  "leading_zero_count v width_bits =
     (if v = 0 then width_bits else if bit_length v \<le> 1 then width_bits else width_bits + 1 - bit_length v)"

definition hll_new :: "nat \<Rightarrow> hll result" where
  "hll_new p = (if 4 \<le> p \<and> p \<le> 16 then Inr \<lparr>hll_p = p, hll_buckets = replicate (2 ^ p) 0\<rparr> else Inl (ValueError ''precision must be in [4, 16]''))"

definition hll_bucket :: "nat \<Rightarrow> 64 word \<Rightarrow> nat" where
  "hll_bucket p h = unat (drop_bit (HASH_BITS - p) h)"

definition hll_rank :: "nat \<Rightarrow> 64 word \<Rightarrow> nat" where
  "hll_rank p h = leading_zero_count (unat (take_bit (HASH_BITS - p) h)) (HASH_BITS - p)"

definition hll_add :: "('a \<Rightarrow> 64 word) \<Rightarrow> hll \<Rightarrow> 'a \<Rightarrow> hll" where
  "hll_add hash s x =
     (let h = hash x; b = hll_bucket (hll_p s) h; rank = hll_rank (hll_p s) h in
      if unat (hll_buckets s ! b) < rank then s\<lparr>hll_buckets := (hll_buckets s)[b := of_nat rank]\<rparr> else s)"

definition hll_update :: "('a \<Rightarrow> 64 word) \<Rightarrow> hll \<Rightarrow> 'a list \<Rightarrow> hll" where
  "hll_update hash s xs = foldl (hll_add hash) s xs"

definition hll_merge :: "hll \<Rightarrow> hll \<Rightarrow> hll result" where
  "hll_merge s t =
     (if hll_p t \<noteq> hll_p s then Inl (ValueError ''merge precision mismatch'')
      else Inr (s\<lparr>hll_buckets := map2 max (hll_buckets s) (hll_buckets t)\<rparr>))"

definition to_bytes :: "hll \<Rightarrow> 8 word list" where
  "to_bytes s = [of_nat SERIALIZATION_VERSION, of_nat (hll_p s)] @ hll_buckets s"

definition from_bytes :: "8 word list \<Rightarrow> hll result" where
  "from_bytes blob =
     (if length blob < 2 then Inl (ValueError ''sketch blob too short'')
      else let version = unat (blob ! 0); p = unat (blob ! 1) in
        if version \<noteq> SERIALIZATION_VERSION then Inl (ValueError ''unknown HLL serialization version'')
        else if \<not> (4 \<le> p \<and> p \<le> 16) then Inl (ValueError ''invalid precision in blob'')
        else if length blob \<noteq> 2 + 2 ^ p then Inl (ValueError ''sketch blob length mismatch'')
        else ebind (hll_new p) (\<lambda>s. Inr (s\<lparr>hll_buckets := drop 2 blob\<rparr>)))"

definition valid_blob :: "nat \<Rightarrow> 8 word list \<Rightarrow> bool" where
  "valid_blob p b \<longleftrightarrow> length b = 2 + 2 ^ p \<and> unat (b ! 0) = SERIALIZATION_VERSION \<and> unat (b ! 1) = p"

text \<open>\<open>arr.max(axis=0)\<close>: the greatest byte of each column.\<close>

definition column_max :: "8 word list list \<Rightarrow> 8 word list" where
  "column_max rows = foldl (map2 max) (hd rows) (tl rows)"

definition merge_bytes :: "nat \<Rightarrow> 8 word list list \<Rightarrow> hll option result" where
  "merge_bytes p blobs =
     (let valid = filter (valid_blob p) blobs in
      if valid = [] then Inr None
      else ebind (hll_new p) (\<lambda>s.
        if length valid = 1 then Inr (Some (s\<lparr>hll_buckets := drop 2 (hd valid)\<rparr>))
        else Inr (Some (s\<lparr>hll_buckets := column_max (map (drop 2) valid)\<rparr>))))"

definition merge_into :: "hll option \<Rightarrow> hll \<Rightarrow> hll result" where
  "merge_into acc s = (case acc of None \<Rightarrow> Inr s | Some a \<Rightarrow> hll_merge a s)"

text \<open>The loop of \<open>merge_hll_sketches\<close>.\<close>

fun merge_hll_sketches :: "hll option \<Rightarrow> 8 word list list \<Rightarrow> hll option result" where
  "merge_hll_sketches acc [] = Inr acc"
| "merge_hll_sketches acc (b # bs) =
     (if b = [] then merge_hll_sketches acc bs
      else ebind (from_bytes b) (\<lambda>s. ebind (merge_into acc s) (\<lambda>a. merge_hll_sketches (Some a) bs)))"

text \<open>The loop of \<open>query_hll_distinct_by_bucket\<close>, over a dictionary of sketches.\<close>

fun sketches_by_bucket :: "('k \<rightharpoonup> hll) \<Rightarrow> ('k \<times> 8 word list) list \<Rightarrow> ('k \<rightharpoonup> hll) result" where
  "sketches_by_bucket m [] = Inr m"
| "sketches_by_bucket m ((k, b) # rows) =
     (if b = [] then sketches_by_bucket m rows
      else ebind (from_bytes b) (\<lambda>s. ebind (merge_into (m k) s) (\<lambda>a. sketches_by_bucket (m(k \<mapsto> a)) rows)))"

subsection \<open>The sketch of a set\<close>

text \<open>The greatest rank of the items of a set that fall into a bucket, and the sketch of these.\<close>

definition register :: "('a \<Rightarrow> 64 word) \<Rightarrow> nat \<Rightarrow> 'a set \<Rightarrow> nat \<Rightarrow> nat" where
  "register hash p X b = Max (insert 0 ((\<lambda>x. hll_rank p (hash x)) ` {x \<in> X. hll_bucket p (hash x) = b}))"

definition sketch_of :: "('a \<Rightarrow> 64 word) \<Rightarrow> nat \<Rightarrow> 'a set \<Rightarrow> hll" where
  "sketch_of hash p X = \<lparr>hll_p = p, hll_buckets = map (\<lambda>b. of_nat (register hash p X b)) [0..<2 ^ p]\<rparr>"

lemma hll_rank_bound: "hll_rank p h \<le> 64"
  by (auto simp: hll_rank_def leading_zero_count_def HASH_BITS_def)

lemma hll_bucket_bound:
  assumes "p \<le> 64"
  shows "hll_bucket p h < 2 ^ p"
proof -
  have "unat h < 2 ^ p * 2 ^ (64 - p)" using assms unsigned_less [where w = h and ?'a = nat] by (simp flip: power_add)
  then have "unat h div 2 ^ (64 - p) < 2 ^ p" by (rule less_mult_imp_div_less)
  then show ?thesis unfolding hll_bucket_def HASH_BITS_def unat_drop_bit_eq by (simp add: drop_bit_eq_div)
qed

lemma register_bound: "finite X \<Longrightarrow> register hash p X b \<le> 64"
  unfolding register_def by (subst Max_le_iff) (auto simp: hll_rank_bound)

lemma register_empty [simp]: "register hash p {} b = 0"
  by (simp add: register_def)

lemma register_insert:
  assumes "finite X"
  shows "register hash p (insert x X) b = (if b = hll_bucket p (hash x) then max (hll_rank p (hash x)) (register hash p X b) else register hash p X b)"
proof (cases "b = hll_bucket p (hash x)")
  case True
  then have "{y \<in> insert x X. hll_bucket p (hash y) = b} = insert x {y \<in> X. hll_bucket p (hash y) = b}" by auto
  then show ?thesis using True assms by (simp add: register_def insert_commute [of 0] Max_insert)
next
  case False
  then have "{y \<in> insert x X. hll_bucket p (hash y) = b} = {y \<in> X. hll_bucket p (hash y) = b}" by auto
  then show ?thesis using False by (simp add: register_def)
qed

lemma register_Un:
  assumes "finite X" and "finite Y"
  shows "register hash p (X \<union> Y) b = max (register hash p X b) (register hash p Y b)"
  using assms(2)
proof (induction Y)
  case (insert y Y)
  have "register hash p (insert y (X \<union> Y)) b = max (register hash p X b) (register hash p (insert y Y) b)"
    using assms(1) insert by (auto simp: register_insert max.left_commute)
  then show ?case by simp
qed simp

lemma byte_le: "a \<le> 64 \<Longrightarrow> b \<le> 64 \<Longrightarrow> (of_nat a :: 8 word) \<le> of_nat b \<longleftrightarrow> a \<le> b"
  by (simp add: word_le_nat_alt unsigned_of_nat take_bit_nat_eq_self)

lemma byte_max: "a \<le> 64 \<Longrightarrow> b \<le> 64 \<Longrightarrow> max (of_nat a) (of_nat b) = (of_nat (max a b) :: 8 word)"
  by (simp add: max_def byte_le)

lemma unat_byte: "a \<le> 64 \<Longrightarrow> unat (of_nat a :: 8 word) = a"
  by (simp add: unsigned_of_nat take_bit_nat_eq_self)

lemma hll_new_sketch: "4 \<le> p \<Longrightarrow> p \<le> 16 \<Longrightarrow> hll_new p = Inr (sketch_of hash p {})"
  by (simp add: hll_new_def sketch_of_def map_replicate_const)

lemma hll_add_sketch:
  assumes "finite X" and "p \<le> 16"
  shows "hll_add hash (sketch_of hash p X) x = sketch_of hash p (insert x X)"
proof -
  let ?h = "hash x"
  let ?b = "hll_bucket p ?h"
  have b: "?b < 2 ^ p" using assms(2) by (intro hll_bucket_bound) simp
  have old: "unat (hll_buckets (sketch_of hash p X) ! ?b) = register hash p X ?b"
    using b assms(1) by (simp add: sketch_of_def unat_byte register_bound)
  show ?thesis
  proof (cases "register hash p X ?b < hll_rank p ?h")
    case True
    then have "hll_buckets (sketch_of hash p (insert x X)) = (hll_buckets (sketch_of hash p X))[?b := of_nat (hll_rank p ?h)]"
      using assms(1) b by (intro nth_equalityI) (auto simp: sketch_of_def register_insert nth_list_update)
    then show ?thesis using True old by (simp add: hll_add_def Let_def sketch_of_def)
  next
    case False
    then have "register hash p (insert x X) b = register hash p X b" for b using assms(1) by (auto simp: register_insert)
    then show ?thesis using False old by (simp add: hll_add_def Let_def sketch_of_def)
  qed
qed

lemma hll_update_sketch:
  assumes "finite X" and "p \<le> 16"
  shows "hll_update hash (sketch_of hash p X) xs = sketch_of hash p (X \<union> set xs)"
  using assms(1) by (induction xs arbitrary: X) (simp_all add: hll_update_def hll_add_sketch [OF _ assms(2)])

lemma map2_max_sketch:
  assumes "finite X" and "finite Y"
  shows "map2 max (hll_buckets (sketch_of hash p X)) (hll_buckets (sketch_of hash p Y)) = hll_buckets (sketch_of hash p (X \<union> Y))"
  using assms by (intro nth_equalityI) (simp_all add: sketch_of_def byte_max register_bound register_Un)

lemma hll_merge_sketch:
  assumes "finite X" and "finite Y"
  shows "hll_merge (sketch_of hash p X) (sketch_of hash p Y) = Inr (sketch_of hash p (X \<union> Y))"
  using map2_max_sketch [OF assms, of hash p] by (simp add: hll_merge_def) (simp add: sketch_of_def)

subsection \<open>Blobs\<close>

definition hll_wf :: "hll \<Rightarrow> bool" where
  "hll_wf s \<longleftrightarrow> 4 \<le> hll_p s \<and> hll_p s \<le> 16 \<and> length (hll_buckets s) = 2 ^ hll_p s"

lemma sketch_wf: "4 \<le> p \<Longrightarrow> p \<le> 16 \<Longrightarrow> hll_wf (sketch_of hash p X)"
  by (simp add: hll_wf_def sketch_of_def)

lemma from_to_bytes:
  assumes "hll_wf s"
  shows "from_bytes (to_bytes s) = Inr s"
  using assms unat_byte [of "hll_p s"] by (simp add: hll_wf_def from_bytes_def to_bytes_def SERIALIZATION_VERSION_def hll_new_def)

lemma from_bytes_wf:
  assumes "from_bytes b = Inr s"
  shows "hll_wf s \<and> to_bytes s = b"
proof -
  from assms obtain x y rest where b: "b = x # y # rest" by (cases b; cases "tl b") (auto simp: from_bytes_def)
  with assms have x: "unat x = 1" and y: "4 \<le> unat y" "unat y \<le> 16" "length rest = 2 ^ unat y" "s = \<lparr>hll_p = unat y, hll_buckets = rest\<rparr>"
    by (auto simp: from_bytes_def SERIALIZATION_VERSION_def hll_new_def Let_def split: if_splits)
  from x have "x = 1" by (metis unsigned_1 unsigned_word_eqI)
  with y show ?thesis by (simp add: hll_wf_def to_bytes_def SERIALIZATION_VERSION_def b)
qed

lemma to_bytes_valid: "hll_wf s \<Longrightarrow> hll_p s = p \<Longrightarrow> valid_blob p (to_bytes s) \<and> to_bytes s \<noteq> [] \<and> drop 2 (to_bytes s) = hll_buckets s"
  using unat_byte [of "hll_p s"] by (auto simp: hll_wf_def valid_blob_def to_bytes_def SERIALIZATION_VERSION_def)

lemma column_max_sketches:
  assumes "\<forall>X \<in> set Xs. finite X" and "finite X"
  shows "column_max (map (\<lambda>X. hll_buckets (sketch_of hash p X)) (X # Xs)) = hll_buckets (sketch_of hash p (\<Union>(set (X # Xs))))"
  using assms
proof (induction Xs arbitrary: X)
  case Nil
  then show ?case by (simp add: column_max_def)
next
  case (Cons Y Xs)
  have "column_max (map (\<lambda>X. hll_buckets (sketch_of hash p X)) ((X \<union> Y) # Xs)) = hll_buckets (sketch_of hash p (\<Union>(set ((X \<union> Y) # Xs))))"
    using Cons.prems by (intro Cons.IH) auto
  then show ?case using Cons.prems by (simp add: column_max_def map2_max_sketch Un_assoc)
qed

lemma merge_bytes_sketches:
  assumes "4 \<le> p" and "p \<le> 16" and "Xs \<noteq> []" and "\<forall>X \<in> set Xs. finite X"
    and "filter (valid_blob p) blobs = map (\<lambda>X. to_bytes (sketch_of hash p X)) Xs"
  shows "merge_bytes p blobs = Inr (Some (sketch_of hash p (\<Union>(set Xs))))"
proof -
  obtain X Ys where Xs: "Xs = X # Ys" using assms(3) by (cases Xs) auto
  have new: "hll_new p = Inr \<lparr>hll_p = p, hll_buckets = replicate (2 ^ p) 0\<rparr>" using assms(1,2) by (simp add: hll_new_def)
  have drop: "drop 2 (to_bytes (sketch_of hash p X)) = hll_buckets (sketch_of hash p X)" for X :: "'a set"
    using to_bytes_valid [OF sketch_wf [OF assms(1,2), of hash X], of p] by (simp add: sketch_of_def)
  have rows: "map (drop 2) (map (\<lambda>X. to_bytes (sketch_of hash p X)) Xs) = map (\<lambda>X. hll_buckets (sketch_of hash p X)) Xs"
    by (simp add: drop)
  have "merge_bytes p blobs = Inr (Some \<lparr>hll_p = p, hll_buckets = column_max (map (\<lambda>X. hll_buckets (sketch_of hash p X)) Xs)\<rparr>)"
    unfolding merge_bytes_def assms(5) Let_def rows using new Xs by (auto simp: drop column_max_def)
  also have "column_max (map (\<lambda>X. hll_buckets (sketch_of hash p X)) Xs) = hll_buckets (sketch_of hash p (\<Union>(set Xs)))"
    unfolding Xs using assms(4) Xs by (intro column_max_sketches) auto
  finally show ?thesis by (simp add: sketch_of_def)
qed

lemma merge_sketches_from:
  assumes "4 \<le> p" and "p \<le> 16" and "\<forall>X \<in> set Xs. finite X" and "finite X"
    and "filter (\<lambda>b. b \<noteq> []) blobs = map (\<lambda>X. to_bytes (sketch_of hash p X)) Xs"
  shows "merge_hll_sketches (Some (sketch_of hash p X)) blobs = Inr (Some (sketch_of hash p (X \<union> \<Union>(set Xs))))"
  using assms(3-)
proof (induction blobs arbitrary: X Xs)
  case (Cons b blobs)
  show ?case
  proof (cases "b = []")
    case False
    with Cons.prems obtain Y Ys where Y: "Xs = Y # Ys" "b = to_bytes (sketch_of hash p Y)" "filter (\<lambda>b. b \<noteq> []) blobs = map (\<lambda>X. to_bytes (sketch_of hash p X)) Ys"
      by (cases Xs) auto
    then have "from_bytes b = Inr (sketch_of hash p Y)" using from_to_bytes sketch_wf assms(1,2) by blast
    moreover have "merge_hll_sketches (Some (sketch_of hash p (X \<union> Y))) blobs = Inr (Some (sketch_of hash p ((X \<union> Y) \<union> \<Union>(set Ys))))"
      using Cons.prems Y by (intro Cons.IH) auto
    ultimately show ?thesis using False Cons.prems Y by (simp add: merge_into_def hll_merge_sketch Un_assoc)
  qed (use Cons in simp)
qed simp

lemma merge_sketches:
  assumes "4 \<le> p" and "p \<le> 16" and "Xs \<noteq> []" and "\<forall>X \<in> set Xs. finite X"
    and "filter (\<lambda>b. b \<noteq> []) blobs = map (\<lambda>X. to_bytes (sketch_of hash p X)) Xs"
  shows "merge_hll_sketches None blobs = Inr (Some (sketch_of hash p (\<Union>(set Xs))))"
  using assms(3-)
proof (induction blobs)
  case (Cons b blobs)
  show ?case
  proof (cases "b = []")
    case False
    with Cons.prems obtain Y Ys where Y: "Xs = Y # Ys" "b = to_bytes (sketch_of hash p Y)" "filter (\<lambda>b. b \<noteq> []) blobs = map (\<lambda>X. to_bytes (sketch_of hash p X)) Ys"
      by (cases Xs) auto
    then have "from_bytes b = Inr (sketch_of hash p Y)" using from_to_bytes sketch_wf assms(1,2) by blast
    moreover have "merge_hll_sketches (Some (sketch_of hash p Y)) blobs = Inr (Some (sketch_of hash p (Y \<union> \<Union>(set Ys))))"
      using Cons.prems Y by (intro merge_sketches_from assms(1,2)) auto
    ultimately show ?thesis using False Y by (simp add: merge_into_def)
  qed (use Cons in simp)
qed simp

text \<open>The dictionary of sketches holds, for each key, what merging the blobs of that key gives.\<close>

lemma sketches_by_bucket_merges:
  assumes "sketches_by_bucket m rows = Inr m'"
  shows "merge_hll_sketches (m k) (map snd (filter (\<lambda>r. fst r = k) rows)) = Inr (m' k)"
  using assms
proof (induction m rows rule: sketches_by_bucket.induct)
  case (2 m k' b rows)
  show ?case
  proof (cases "b = []")
    case False
    with 2(3) obtain s a where sa: "from_bytes b = Inr s" "merge_into (m k') s = Inr a" "sketches_by_bucket (m(k' \<mapsto> a)) rows = Inr m'"
      by (auto simp: ebind_Inr_iff)
    from 2(2) [OF False sa(3)] have "merge_hll_sketches ((m(k' \<mapsto> a)) k) (map snd (filter (\<lambda>r. fst r = k) rows)) = Inr (m' k)" .
    with False sa(1,2) show ?thesis by (cases "k' = k") auto
  qed (use 2 in auto)
qed simp

text \<open>
  C40. Merged sketches are the sketch of all items. Sketches of any lists of items, serialized and merged as a matrix of bytes (among blobs of
  another version, precision or length, which are passed over), or merged one after the other (among empty blobs), give exactly the sketch
  one obtains from adding all items to an empty one; that sketch depends on the set of items only, not on their order or number; and a
  serialized sketch reads back.
\<close>

theorem hll_merge_is_union:
  assumes "hll_new p = Inr s0" and "xss \<noteq> []" and "set ys = set (concat xss)"
    and "filter (valid_blob p) blobs = map (\<lambda>xs. to_bytes (hll_update hash s0 xs)) xss"
    and "filter (\<lambda>b. b \<noteq> []) blobs' = map (\<lambda>xs. to_bytes (hll_update hash s0 xs)) xss"
  shows "merge_bytes p blobs = Inr (Some (hll_update hash s0 ys)) \<and> merge_hll_sketches None blobs' = Inr (Some (hll_update hash s0 ys))
    \<and> from_bytes (to_bytes (hll_update hash s0 ys)) = Inr (hll_update hash s0 ys)"
proof -
  from assms(1) have p: "4 \<le> p" "p \<le> 16" by (auto simp: hll_new_def split: if_splits)
  with assms(1) have s0: "s0 = sketch_of hash p {}" by (simp add: hll_new_sketch [of p hash])
  have update: "hll_update hash s0 xs = sketch_of hash p (set xs)" for xs unfolding s0 by (simp add: hll_update_sketch p)
  let ?Xs = "map set xss"
  have all: "hll_update hash s0 ys = sketch_of hash p (\<Union>(set ?Xs))" by (simp add: update assms(3))
  have "merge_bytes p blobs = Inr (Some (sketch_of hash p (\<Union>(set ?Xs))))"
    using assms(2,4) by (intro merge_bytes_sketches p) (auto simp: update)
  moreover have "merge_hll_sketches None blobs' = Inr (Some (sketch_of hash p (\<Union>(set ?Xs))))"
    using assms(2,5) by (intro merge_sketches p) (auto simp: update)
  ultimately show ?thesis unfolding all using from_to_bytes sketch_wf p by blast
qed

lemma updated_blob:
  assumes "hll_new p = Inr s0"
  shows "valid_blob p (to_bytes (hll_update hash s0 xs)) \<and> to_bytes (hll_update hash s0 xs) \<noteq> []"
proof -
  from assms have p: "4 \<le> p" "p \<le> 16" by (auto simp: hll_new_def split: if_splits)
  with assms have "hll_update hash s0 xs = sketch_of hash p (set xs)" by (auto simp: hll_new_sketch [of p hash] hll_update_sketch)
  with to_bytes_valid [OF sketch_wf [OF p, of hash "set xs"], of p] show ?thesis by (simp add: sketch_of_def)
qed

theorem hll_merge_is_union_witness:
  "\<exists>s0. hll_new 4 = Inr s0
     \<and> (let blob = (\<lambda>xs. to_bytes (hll_update (\<lambda>n. of_nat (n * 2 ^ 57 + 5)) s0 xs)) in
        merge_bytes 4 [blob [1, 9], [7], blob [2, 1]] = Inr (Some (hll_update (\<lambda>n. of_nat (n * 2 ^ 57 + 5)) s0 [9, 2, 1 :: nat]))
        \<and> merge_hll_sketches None [[], blob [1, 9], blob [2, 1]] = Inr (Some (hll_update (\<lambda>n. of_nat (n * 2 ^ 57 + 5)) s0 [9, 2, 1])))"
proof -
  obtain s0 where s0: "hll_new 4 = Inr s0" by (simp add: hll_new_def)
  let ?hash = "\<lambda>n :: nat. of_nat (n * 2 ^ 57 + 5) :: 64 word"
  let ?blob = "\<lambda>xs. to_bytes (hll_update ?hash s0 xs)"
  have "filter (valid_blob 4) [?blob [1, 9], [7], ?blob [2, 1]] = map ?blob [[1, 9], [2, 1]]"
    using updated_blob [OF s0, of ?hash] by (simp add: valid_blob_def)
  moreover have "filter (\<lambda>b. b \<noteq> []) [[], ?blob [1, 9], ?blob [2, 1]] = map ?blob [[1, 9], [2, 1]]"
    using updated_blob [OF s0, of ?hash] by simp
  moreover have "set [9, 2, 1] = set (concat [[1, 9], [2, 1 :: nat]])" by auto
  ultimately show ?thesis
    using hll_merge_is_union [OF s0, of "[[1, 9], [2, 1]]" "[9, 2, 1]"] s0 unfolding Let_def by blast
qed

end
