(* ===== verification/Spec2Isabelle.thy ===== *)
theory Spec2Isabelle
  imports Worker_Loop Historical_Jobs Export_Jobs Serving_Schema Query_Filters Raw_Query Console_Access Pii_Masking Hll_Sketch
begin

text \<open>
  Verification of the high-scale data plane of Fastly Log Analytics, and of the masking and sketch helpers it shares with the classic plane.

  \<^bold>\<open>The program.\<close> Fastly writes log objects to an S3 bucket. A worker of the high-scale plane
  (\<^verbatim>\<open>src/backend/high_scale\<close>) lists the objects of a (service, domain) pair, claims them in a PostgreSQL
  control plane, decodes their lines into events, writes the events of a page as one archive (a Parquet artifact, a
  manifest and a commit marker in object storage), publishes the same rows to ClickHouse, acknowledges the sources and
  advances the listing cursor. A sweeper later deletes acknowledged source objects and expires old archives. Several
  workers run concurrently; a service has one owner at a time, fenced by an owner epoch.

  \<^bold>\<open>Theories.\<close>
  \<^item> \<open>Prelude\<close>: errors as values (\<open>py_error\<close>, \<open>result\<close>), state-and-error computations (\<open>eff\<close>), text and list
    helpers of Python that several parts use.
  \<^item> \<open>Topology\<close> (\<^verbatim>\<open>archive/topology.py\<close>): archive states and their transitions, retention recommendation,
    deployment profiles read from the environment, disk guard. Shown: recommended windows fit the disk, less free space
    is never a less severe mode, an enabled configuration is complete.
  \<^item> \<open>Json_Model\<close>, \<open>Json_Text\<close>: Python's JSON values, their printed form and a parser; printing is injective, which
    the digests rely on.
  \<^item> \<open>Manifests\<close>, \<open>Archive_Publication\<close> (\<^verbatim>\<open>archive/manifests.py\<close>): manifests, batch checkpoints, event ids;
    publication to an object store. Shown: a checkpoint accounts for every row of every source; an interrupted
    publication leaves no commit marker or the whole archive; a published archive reads back; expiry removes the commit
    marker first. Stores are a locale (\<open>object_store\<close>), interpreted for the in-memory store and the S3 store.
  \<^item> \<open>Control_Plane\<close>, \<open>Control_Plane_Inv\<close> (\<^verbatim>\<open>postgres_control/control_plane.py\<close>): the tables as a record of row
    lists, every operation of \<open>PostgresControlPlane\<close> as a transaction, and the step relation of all operations. Shown:
    the invariant of every reachable database, monotone epochs and leases, refusal of stale epochs, exclusion by
    leases, what an authorization certifies, and round trips.
  \<^item> \<open>Deletion\<close> (\<^verbatim>\<open>postgres_control/deletion.py\<close>): deletion controller, ledger, sweeper and archive expirer
    over a world of bucket, archive and database. Shown: only guarded deletions happen, and a sweep accounts for its sources.
  \<^item> \<open>Clickhouse_Rows\<close>, \<open>Clickhouse_Batch\<close>, \<open>Serving_Publication\<close> (\<^verbatim>\<open>archive/clickhouse_batch.py\<close>,
    \<^verbatim>\<open>core/clickhouse\<close>): mapping of events to fact rows, the batch adapter against a server whose every request
    may fail, and the publication manifest. Shown: a visible publication announces exactly the stored rows; retries
    complete; publishing is idempotent and refuses other content.
  \<^item> \<open>Decoder\<close> (\<^verbatim>\<open>query.py\<close>, first part): decompression, line splitting, normalisation, Faro expansion, event ids
    and dead letters. Shown: no line is lost, ids are distinct.
  \<^item> \<open>Base64\<close> (\<^verbatim>\<open>_common.py\<close>, \<open>_b64\<close> and \<open>_unb64\<close>): Base64 with its decoder; decoding inverts encoding.
  \<^item> \<open>Aggregates\<close> (\<^verbatim>\<open>ingest_controller/service.py\<close>): minute counts per dimension and the adapter
    that publishes them. Shown: the counts are exactly the occurrences, a failed insert is never visible in part.
  \<^item> \<open>Ingest_Controller\<close> (\<^verbatim>\<open>ingest_controller/coordinator.py\<close>): the whole of \<open>ingest_batch\<close> over a world of
    control database, archive and ClickHouse, with other workers acting between any two calls (rely condition
    \<open>peers_ok\<close>). Shown: what is acknowledged is archived, committed and announced.
  \<^item> \<open>Page_Coordinator\<close> (the same file): the S3 lister and reader and the whole of \<open>run_page\<close>: list, discover, claim,
    read, ingest, advance. Shown: the cursor passes only settled objects, or objects another worker held at that time; a
    page with a failure leaves the cursor; the counts of a page add up.
  \<^item> \<open>Worker_Loop\<close> (\<^verbatim>\<open>worker.py\<close>): ticks of the worker over the selector. Shown: every configured pair is
    worked on within as many ticks as there are domains, whatever pages raise.
  \<^item> \<open>Keyset_Cursor\<close>, \<open>Fact_Query\<close> (\<^verbatim>\<open>_common.py\<close>, \<^verbatim>\<open>query_service.py\<close>): signed paging tokens
    and the paged reads of fact tables, with the SQL text and parameters they send. Shown: tokens are faithful and
    authentic; following the cursors returns every row once and ends.
  \<^item> \<open>Query_Router\<close> (\<^verbatim>\<open>query_service.py\<close>): the planner that picks the tier of a query. Shown: plans are adequate.
  \<^item> \<open>Historical_Jobs\<close>, \<open>Export_Jobs\<close> (\<^verbatim>\<open>archive/jobs.py\<close>): the two managers of background work as step
    relations in which calls and threads interleave at every lock. Shown: limits, final states, what a completed job
    holds, that cancellations hold and that runs end. The rely conditions of records and tasks are locales
    (\<open>record_rely\<close>, \<open>task_rely\<close>) with two interpretations each.
  \<^item> \<open>Projections\<close> (\<^verbatim>\<open>origin.py\<close>, \<^verbatim>\<open>performance.py\<close>, \<^verbatim>\<open>security.py\<close>,
    \<^verbatim>\<open>network.py\<close>, \<^verbatim>\<open>cmcd.py\<close>, \<^verbatim>\<open>_common.py\<close>): the minute projections of request events.
    Shown: each builder is a grouping by minute and value, its counters count the events, percentiles and sketches are accurate.
  \<^item> \<open>Recovery\<close> (\<^verbatim>\<open>recovery.py\<close>, \<^verbatim>\<open>archive/jobs.py\<close>): capacity evaluation, replay of archived manifests
    and the rebuilds. Shown: a replay serves the events that ingest served, a rebuild accounts for every manifest, and
    what a feasible capacity report promises.
  \<^item> \<open>Serving_Schema\<close> (\<^verbatim>\<open>high_scale/sql\<close>): the column types of the ClickHouse tables. Shown: fact rows and
    projection rows have the columns of their table and values of the column types; the integers that may be too wide are named.
  \<^item> \<open>Query_Filters\<close> (\<^verbatim>\<open>_common.py\<close>, \<^verbatim>\<open>repositories/utils/filters.py\<close>): publication
    fences, filter predicates and the predicates of the readers. Shown: the text depends on the shape of the filters only, keys and values are bound.
  \<^item> \<open>Raw_Query\<close> (\<^verbatim>\<open>_common.py\<close>): scans of archived rows. Shown: a scan returns the event rows of its window, sanitized.
  \<^item> \<open>Console_Access\<close> (\<^verbatim>\<open>postgres_control/console_access.py\<close>): least-privilege identities, views, grants and
    the client cache. Shown: a service id cannot leave its literal, grants come last, clients are vetted and never mixed up.
  \<^item> \<open>Ip_Address\<close>, \<open>Pii_Masking\<close> (\<^verbatim>\<open>core/share_db\<close>): Python's reading and printing of addresses, and the
    masking of responses to shared sessions. Shown: a masked address is its network, and no identity is left under the covered keys.
  \<^item> \<open>Hll_Sketch\<close> (\<^verbatim>\<open>utils/hll.py\<close>): HyperLogLog sketches of the rollups, with bytes and hashes as words. Shown:
    merging sketches in any way gives the sketch of all items, and serialization loses nothing.
  \<^item> \<open>Fair_Selector\<close> (\<^verbatim>\<open>worker.py\<close>): the deficit round robin of the worker. Shown: it terminates, fills its
    capacity and starves no pair.

  \<^bold>\<open>State and failure.\<close> PostgreSQL operations are atomic (\<open>txn\<close>: a failed transaction leaves the database unchanged).
  Object stores and ClickHouse are parameters: records of operations on a state type, with the documented behaviour as
  locale assumptions in which every request may fail, also after it has taken effect. Digests, UUIDs, Parquet, Unicode
  case mapping and date parsing are function parameters; injectivity is assumed only where a statement names it.
  The only loop without structural recursion, the selector's, is a \<^theory_text>\<open>partial_function\<close> over option
  and its termination is a theorem; no fuel is used.

  \<^bold>\<open>Not modelled.\<close> Connection pooling, logging, metrics and threads; SQL text generation for the dashboards and the
  classic DuckDB plane, which only hands text to a database engine; the floating-point estimate of a sketch; the HTTP, provisioning, cron and frontend layers.
\<close>

end
